(* ===== verification/Iron_Prelude.thy ===== *)
theory Iron_Prelude
  imports Main "HOL-Library.Word" "HOL-Library.AList" "HOL-Library.Char_ord"
    "HOL-Library.List_Lexorder"
begin

text \<open>
  Shared vocabulary of the development: Rust's fixed-width integers with the arithmetic the
  sources use on them (wrapping in release builds, saturating, widening and narrowing casts),
  instants and durations, and the two map types of the Rust standard library.

  A \<open>HashMap\<close> is an association list with distinct keys; its order stands for the unspecified
  iteration order. A \<open>BTreeMap\<close> is an association list sorted by key. Both provide the interface
  \<open>finite_map\<close>, in which the lemmas on totals over the values are proved once.
\<close>

named_theorems width_simps \<open>reading word arithmetic as arithmetic on natural numbers\<close>

section \<open>Machine integers\<close>

type_synonym u8 = "8 word"
type_synonym u16 = "16 word"
type_synonym u32 = "32 word"
type_synonym u64 = "64 word"
type_synonym u128 = "128 word"

type_synonym i32 = "32 word" \<comment> \<open>two's complement, read by \<open>sint\<close>\<close>

type_synonym pubkey = "256 word" \<comment> \<open>32 bytes, ordered bytewise, most significant byte first\<close>

type_synonym instant = int \<comment> \<open>\<open>std::time::Instant\<close>, in nanoseconds\<close>
type_synonym duration = nat \<comment> \<open>\<open>std::time::Duration\<close>, in nanoseconds\<close>

definition pubkey_default :: pubkey where
  \<comment> \<open>\<open>Pubkey::default()\<close>, 32 zero bytes\<close>
  "pubkey_default = 0"

definition unwrap_or :: "'a option \<Rightarrow> 'a \<Rightarrow> 'a" where
  "unwrap_or x d = (case x of None \<Rightarrow> d | Some v \<Rightarrow> v)"

lemma unwrap_or_simps [simp]: "unwrap_or None d = d" "unwrap_or (Some v) d = v"
  by (simp_all add: unwrap_or_def)

definition u64_max :: u64 where
  "u64_max = - 1"

text \<open>\<open>x as u128\<close> from \<open>u64\<close> is exact; \<open>x as u64\<close> from \<open>u128\<close> drops the high bits.\<close>

definition as_u128 :: "u64 \<Rightarrow> u128" where
  "as_u128 x = ucast x"

definition as_u64 :: "u128 \<Rightarrow> u64" where
  "as_u64 x = ucast x"

definition saturating_sub :: "'a::len word \<Rightarrow> 'a word \<Rightarrow> 'a word" where
  "saturating_sub a b = (if a < b then 0 else a - b)"

definition saturating_add :: "'a::len word \<Rightarrow> 'a word \<Rightarrow> 'a word" where
  "saturating_add a b = (if unat a + unat b < 2 ^ LENGTH('a) then a + b else - 1)"

definition saturating_mul :: "'a::len word \<Rightarrow> 'a word \<Rightarrow> 'a word" where
  "saturating_mul a b = (if unat a * unat b < 2 ^ LENGTH('a) then a * b else - 1)"

definition duration_since :: "instant \<Rightarrow> instant \<Rightarrow> duration" where
  \<comment> \<open>saturates at zero, as \<open>Instant::duration_since\<close> does\<close>
  "duration_since now t = nat (now - t)"

definition from_secs :: "u64 \<Rightarrow> duration" where
  "from_secs s = unat s * 1000000000"

definition from_millis :: "u64 \<Rightarrow> duration" where
  "from_millis s = unat s * 1000000"

lemma unat_u64_max [width_simps]: "unat u64_max = 2 ^ 64 - 1"
  by (simp add: u64_max_def unsigned_minus_1_eq_mask mask_eq_exp_minus_1)

lemma unat_minus_1: "unat (- 1 :: 'a::len word) = 2 ^ LENGTH('a) - 1"
  by (simp add: unsigned_minus_1_eq_mask mask_eq_exp_minus_1)

lemma unat_lt_u64: "unat (x :: u64) < 2 ^ 64"
  using unsigned_less [of x, where ?'a = nat] by simp

lemma unat_lt_u128: "unat (x :: u128) < 2 ^ 128"
  using unsigned_less [of x, where ?'a = nat] by simp

lemma unat_drop_bit: "unat (drop_bit n (x :: 'a::len word)) = unat x div 2 ^ n"
  unfolding unat_drop_bit_eq by (rule drop_bit_eq_div)

lemma unat_as_u128 [width_simps, simp]: "unat (as_u128 x) = unat x"
  using unsigned_less [of x, where ?'a = nat]
  by (simp add: as_u128_def unsigned_ucast_eq take_bit_eq_mod)

lemma unat_as_u64 [width_simps]: "unat (as_u64 x) = unat x mod 2 ^ 64"
  by (simp add: as_u64_def unsigned_ucast_eq take_bit_eq_mod)

lemma unat_as_u64_small: "unat x < 2 ^ 64 \<Longrightarrow> unat (as_u64 x) = unat x"
  by (simp add: unat_as_u64)

lemma as_u64_eq_of_nat: "unat x = n \<Longrightarrow> n < 2 ^ 64 \<Longrightarrow> as_u64 x = of_nat n"
  by (simp add: word_unat_eq_iff unat_as_u64 unsigned_of_nat take_bit_eq_mod)

lemma unat_of_nat_u64: "n < 2 ^ 64 \<Longrightarrow> unat (of_nat n :: u64) = n"
  by (simp add: unsigned_of_nat take_bit_eq_mod)

lemma unat_saturating_sub [width_simps]:
  "unat (saturating_sub a b) = unat a - unat b"
  by (auto simp: saturating_sub_def unat_sub word_le_nat_alt word_less_nat_alt)

lemma unat_saturating_add [width_simps]:
  "unat (saturating_add a (b :: 'a::len word)) = min (unat a + unat b) (2 ^ LENGTH('a) - 1)"
  by (auto simp: saturating_add_def unat_minus_1 unat_word_ariths(1) min_def)

lemma unat_saturating_mul [width_simps]:
  "unat (saturating_mul a (b :: 'a::len word)) = min (unat a * unat b) (2 ^ LENGTH('a) - 1)"
proof (cases "unat a * unat b < 2 ^ LENGTH('a)")
  case True
  then show ?thesis by (simp add: saturating_mul_def unat_word_ariths(2))
next
  case False
  then have "2 ^ LENGTH('a) - 1 \<le> unat a * unat b" by linarith
  with False show ?thesis by (simp add: saturating_mul_def unat_minus_1 min_absorb2)
qed

lemma unat_add_small:
  "unat a + unat b < 2 ^ LENGTH('a) \<Longrightarrow> unat (a + (b :: 'a::len word)) = unat a + unat b"
  by (simp add: unat_word_ariths(1))

lemma unat_mult_small:
  "unat a * unat b < 2 ^ LENGTH('a) \<Longrightarrow> unat (a * (b :: 'a::len word)) = unat a * unat b"
  by (simp add: unat_word_ariths(2))

lemma unat_sub_small:
  "unat b \<le> unat a \<Longrightarrow> unat (a - (b :: 'a::len word)) = unat a - unat b"
  by (simp add: unat_sub word_le_nat_alt)

section \<open>Checked arithmetic\<close>

definition u128_checked_mul :: "u128 \<Rightarrow> u128 \<Rightarrow> u128 option" where
  "u128_checked_mul a b = (if unat a * unat b < 2 ^ 128 then Some (a * b) else None)"

definition u128_checked_add :: "u128 \<Rightarrow> u128 \<Rightarrow> u128 option" where
  "u128_checked_add a b = (if unat a + unat b < 2 ^ 128 then Some (a + b) else None)"

definition u128_checked_div :: "u128 \<Rightarrow> u128 \<Rightarrow> u128 option" where
  "u128_checked_div a b = (if b = 0 then None else Some (a div b))"

definition u128_checked_shl :: "u128 \<Rightarrow> nat \<Rightarrow> u128 option" where
  \<comment> \<open>fails only for a shift of the whole width; bits shifted out are lost\<close>
  "u128_checked_shl a n = (if n < 128 then Some (push_bit n a) else None)"

definition u64_try_from_u128 :: "u128 \<Rightarrow> u64 option" where
  "u64_try_from_u128 x = (if unat x < 2 ^ 64 then Some (as_u64 x) else None)"

lemma unat_checked_mul:
  "unat a * unat b < 2 ^ 128 \<Longrightarrow> \<exists>c. u128_checked_mul a b = Some c \<and> unat c = unat a * unat b"
  by (simp add: u128_checked_mul_def unat_mult_small)

section \<open>Orderings and panics\<close>

text \<open>\<open>std::cmp::Ordering\<close>, and the result of code that may panic.\<close>

datatype ordering = Less | Equal | Greater

datatype 'a outcome = Panic | Done (returned: 'a)

fun bind_outcome :: "'a outcome \<Rightarrow> ('a \<Rightarrow> 'b outcome) \<Rightarrow> 'b outcome" where
  "bind_outcome Panic f = Panic"
| "bind_outcome (Done x) f = f x"

lemma bind_outcome_Done: "bind_outcome x f = Done y \<longleftrightarrow> (\<exists>v. x = Done v \<and> f v = Done y)"
  by (cases x) auto

section \<open>Strings\<close>

text \<open>
  A \<open>str\<close> is the list of its UTF-8 bytes. \<open>str::trim\<close> removes leading and trailing characters of
  the Unicode property \<open>White_Space\<close>; \<open>white_space\<close> lists their encodings.
\<close>

definition white_space :: "string list" where
  "white_space = map (map char_of)
     ([[9], [10], [11], [12], [13], [32], [0xC2, 0x85], [0xC2, 0xA0], [0xE1, 0x9A, 0x80]]
      @ map (\<lambda>b. [0xE2, 0x80, b]) [0x80, 0x81, 0x82, 0x83, 0x84, 0x85, 0x86, 0x87, 0x88, 0x89, 0x8A,
          0xA8, 0xA9, 0xAF]
      @ [[0xE2, 0x81, 0x9F], [0xE3, 0x80, 0x80 :: nat]])"

function strip_front :: "string list \<Rightarrow> string \<Rightarrow> string" where
  "strip_front ws s =
     (case find (\<lambda>w. w \<noteq> [] \<and> take (length w) s = w) ws of
        None \<Rightarrow> s
      | Some w \<Rightarrow> strip_front ws (drop (length w) s))"
  by auto
termination
proof (relation "measure (\<lambda>(ws, s). length s)")
  fix ws w and s :: string
  assume "find (\<lambda>w. w \<noteq> [] \<and> take (length w) s = w) ws = Some w"
  then have w: "w \<noteq> []" "take (length w) s = w" by (auto simp: find_Some_iff)
  then have "s \<noteq> []" by auto
  with w show "((ws, drop (length w) s), (ws, s)) \<in> measure (\<lambda>(ws, s). length s)" by simp
qed simp

declare strip_front.simps [simp del]

definition str_trim :: "string \<Rightarrow> string" where
  "str_trim s = rev (strip_front (map rev white_space) (rev (strip_front white_space s)))"

text \<open>\<open>str::parse::<u64>()\<close>: an optional \<open>+\<close>, at least one decimal digit, no overflow.\<close>

definition digit_value :: "char \<Rightarrow> nat option" where
  "digit_value c = (let n = of_char c in if 48 \<le> n \<and> n \<le> 57 then Some (n - 48) else None)"

fun parse_digits :: "nat \<Rightarrow> string \<Rightarrow> nat option" where
  "parse_digits acc [] = Some acc"
| "parse_digits acc (c # cs) =
     (case digit_value c of
        None \<Rightarrow> None
      | Some d \<Rightarrow> if 10 * acc + d < 2 ^ 64 then parse_digits (10 * acc + d) cs else None)"

definition parse_u64 :: "string \<Rightarrow> u64 option" where
  "parse_u64 s =
     (let ds = (case s of c # cs \<Rightarrow> if c = CHR ''+'' then cs else s | [] \<Rightarrow> [])
      in if ds = [] then None else map_option of_nat (parse_digits 0 ds))"

lemma strip_front_id:
  "find (\<lambda>w. w \<noteq> [] \<and> take (length w) s = w) ws = None \<Longrightarrow> strip_front ws s = s"
  by (subst strip_front.simps) simp

section \<open>Finite maps\<close>

text \<open>The total of a quantity over the values of a map, and how many values satisfy a test.\<close>

definition assoc_total :: "('v \<Rightarrow> 'c::comm_monoid_add) \<Rightarrow> ('k \<times> 'v) list \<Rightarrow> 'c" where
  "assoc_total f xs = sum_list (map (\<lambda>(k, v). f v) xs)"

definition assoc_count :: "('v \<Rightarrow> bool) \<Rightarrow> ('k \<times> 'v) list \<Rightarrow> nat" where
  "assoc_count P xs = length (filter (\<lambda>(k, v). P v) xs)"

lemma assoc_total_Nil [simp]: "assoc_total f [] = 0"
  by (simp add: assoc_total_def)

lemma assoc_total_Cons [simp]: "assoc_total f ((k, v) # xs) = f v + assoc_total f xs"
  by (simp add: assoc_total_def)

lemma assoc_count_total: "assoc_count P xs = assoc_total (\<lambda>v. if P v then 1 else 0) xs"
  by (induction xs) (auto simp: assoc_count_def)

lemma assoc_total_dom:
  "distinct (map fst xs) \<Longrightarrow>
     assoc_total f xs = (\<Sum>k \<in> dom (map_of xs). f (the (map_of xs k)))"
proof (induction xs)
  case Nil
  then show ?case by simp
next
  case (Cons p xs)
  obtain k v where p: "p = (k, v)" by (cases p)
  with Cons.prems have k: "k \<notin> dom (map_of xs)" and d: "distinct (map fst xs)"
    by (auto simp: dom_map_of_conv_image_fst)
  let ?g = "\<lambda>j. f (the (map_of ((k, v) # xs) j))"
  have "sum ?g (dom (map_of xs)) = (\<Sum>j \<in> dom (map_of xs). f (the (map_of xs j)))"
    using k by (intro sum.cong) auto
  moreover have "sum ?g (insert k (dom (map_of xs))) = ?g k + sum ?g (dom (map_of xs))"
    using k by (rule sum.insert [OF finite_dom_map_of])
  moreover have "dom (map_of ((k, v) # xs)) = insert k (dom (map_of xs))" by auto
  ultimately show ?case
    using Cons.IH [OF d] by (simp only: p assoc_total_Cons) simp
qed

locale finite_map =
  fixes empty :: "'m"
    and get :: "'m \<Rightarrow> 'k \<Rightarrow> 'v option"
    and put :: "'k \<Rightarrow> 'v \<Rightarrow> 'm \<Rightarrow> 'm"
    and del :: "'k \<Rightarrow> 'm \<Rightarrow> 'm"
    and entries :: "'m \<Rightarrow> ('k \<times> 'v) list"
    and invar :: "'m \<Rightarrow> bool"
  assumes get_empty: "get empty = Map.empty"
    and get_put: "invar m \<Longrightarrow> get (put k v m) = (get m)(k \<mapsto> v)"
    and get_del: "invar m \<Longrightarrow> get (del k m) = (get m)(k := None)"
    and get_entries: "invar m \<Longrightarrow> map_of (entries m) = get m"
    and distinct_entries: "invar m \<Longrightarrow> distinct (map fst (entries m))"
    and invar_empty: "invar empty"
    and invar_put: "invar m \<Longrightarrow> invar (put k v m)"
    and invar_del: "invar m \<Longrightarrow> invar (del k m)"
begin

lemma total_dom:
  "invar m \<Longrightarrow> assoc_total f (entries m) = (\<Sum>k \<in> dom (get m). f (the (get m k)))"
  using assoc_total_dom [OF distinct_entries, of m f] by (simp add: get_entries)

lemma finite_dom: "invar m \<Longrightarrow> finite (dom (get m))"
  by (metis finite_dom_map_of get_entries)

lemma total_put_fresh:
  assumes "invar m" "get m k = None"
  shows "assoc_total f (entries (put k v m)) = f v + assoc_total f (entries m)"
proof -
  have "k \<notin> dom (get m)" using assms(2) by auto
  moreover have "(\<Sum>j \<in> dom (get m). f (the (get (put k v m) j)))
      = (\<Sum>j \<in> dom (get m). f (the (get m j)))"
    using assms calculation by (intro sum.cong) (auto simp: get_put)
  ultimately show ?thesis
    using assms by (simp add: total_dom invar_put get_put finite_dom)
qed

lemma total_del:
  assumes "invar m" "get m k = Some v"
  shows "assoc_total f (entries m) = f v + assoc_total f (entries (del k m))"
proof -
  have dom: "dom (get m) = insert k (dom (get (del k m)))" "k \<notin> dom (get (del k m))"
    using assms by (auto simp: get_del)
  have "(\<Sum>j \<in> dom (get (del k m)). f (the (get m j)))
      = (\<Sum>j \<in> dom (get (del k m)). f (the (get (del k m) j)))"
    using assms dom by (intro sum.cong) (auto simp: get_del)
  with assms dom show ?thesis
    by (simp add: total_dom invar_del finite_dom)
qed

lemma total_del_None:
  assumes "invar m" "get m k = None"
  shows "assoc_total f (entries (del k m)) = assoc_total f (entries m)"
proof -
  have "get (del k m) = get m" using assms by (auto simp: get_del)
  with assms show ?thesis by (simp add: total_dom invar_del)
qed

lemma total_put_over:
  assumes "invar m" "get m k = Some v'"
  shows "assoc_total f (entries (put k v m)) = f v + assoc_total f (entries (del k m))"
proof -
  have "get (del k m) k = None" using assms by (simp add: get_del)
  moreover have "get (put k v (del k m)) = get (put k v m)"
    using assms by (simp add: get_put get_del invar_del)
  ultimately show ?thesis
    using total_put_fresh [of "del k m" k f v] assms
    by (simp add: total_dom invar_put invar_del)
qed

lemma total_put_same:
  assumes "invar m" "get m k = Some v'" "f v = f v'"
  shows "assoc_total f (entries (put k v m)) = assoc_total f (entries m)"
  using total_put_over [OF assms(1,2), of f v] total_del [OF assms(1,2), of f] assms(3) by simp

lemma entries_get: "invar m \<Longrightarrow> (k, v) \<in> set (entries m) \<longleftrightarrow> get m k = Some v"
  by (metis get_entries distinct_entries map_of_eq_Some_iff)

end

subsection \<open>HashMap\<close>

type_synonym ('k, 'v) hashmap = "('k \<times> 'v) list"

abbreviation hm_get :: "('k, 'v) hashmap \<Rightarrow> 'k \<Rightarrow> 'v option" where
  "hm_get \<equiv> map_of"

abbreviation hm_put :: "'k \<Rightarrow> 'v \<Rightarrow> ('k, 'v) hashmap \<Rightarrow> ('k, 'v) hashmap" where
  "hm_put \<equiv> AList.update"

abbreviation hm_del :: "'k \<Rightarrow> ('k, 'v) hashmap \<Rightarrow> ('k, 'v) hashmap" where
  "hm_del \<equiv> AList.delete"

definition hm_wf :: "('k, 'v) hashmap \<Rightarrow> bool" where
  "hm_wf m \<longleftrightarrow> distinct (map fst m)"

definition hm_get_or :: "'v \<Rightarrow> ('k, 'v) hashmap \<Rightarrow> 'k \<Rightarrow> 'v" where
  \<comment> \<open>\<open>m.get(k).copied().unwrap_or(d)\<close>\<close>
  "hm_get_or d m k = (case hm_get m k of None \<Rightarrow> d | Some v \<Rightarrow> v)"

definition hm_retain :: "('k \<Rightarrow> 'v \<Rightarrow> bool) \<Rightarrow> ('k, 'v) hashmap \<Rightarrow> ('k, 'v) hashmap" where
  "hm_retain P m = filter (\<lambda>(k, v). P k v) m"

interpretation hm: finite_map "[]" hm_get hm_put hm_del "\<lambda>m. m" hm_wf
  by unfold_locales
    (auto simp: hm_wf_def update_conv' delete_conv' distinct_update distinct_delete)

lemma hm_wf_Nil [simp]: "hm_wf []"
  by (simp add: hm_wf_def)

lemma hm_wf_Cons [simp]: "hm_wf ((k, v) # m) \<longleftrightarrow> k \<notin> dom (hm_get m) \<and> hm_wf m"
  by (auto simp: hm_wf_def dom_map_of_conv_image_fst)

lemma hm_wf_retain [simp]: "hm_wf m \<Longrightarrow> hm_wf (hm_retain P m)"
  by (induction m) (auto simp: hm_retain_def hm_wf_def)

lemma hm_get_retain:
  "hm_wf m \<Longrightarrow> hm_get (hm_retain P m) k
     = (case hm_get m k of None \<Rightarrow> None | Some v \<Rightarrow> if P k v then Some v else None)"
proof (induction m)
  case Nil
  then show ?case by (simp add: hm_retain_def)
next
  case (Cons p m)
  obtain j v where p: "p = (j, v)" by (cases p)
  with Cons show ?case
    by (auto simp: hm_retain_def split: option.splits)
qed

lemma hm_get_or_Nil [simp]: "hm_get_or d [] k = d"
  by (simp add: hm_get_or_def)

lemma hm_get_or_Cons [simp]:
  "hm_get_or d ((k, v) # m) j = (if j = k then v else hm_get_or d m j)"
  by (simp add: hm_get_or_def)

lemma hm_get_or_None [simp]: "hm_get m k = None \<Longrightarrow> hm_get_or d m k = d"
  by (simp add: hm_get_or_def)

lemma hm_get_or_Some [simp]: "hm_get m k = Some v \<Longrightarrow> hm_get_or d m k = v"
  by (simp add: hm_get_or_def)

lemma hm_get_or_put: "hm_get_or d (hm_put k v m) j = (if j = k then v else hm_get_or d m j)"
  by (simp add: hm_get_or_def update_conv')

lemma hm_get_or_del: "hm_get_or d (hm_del k m) j = (if j = k then d else hm_get_or d m j)"
  by (simp add: hm_get_or_def delete_conv')

subsection \<open>BTreeMap\<close>

type_synonym ('k, 'v) btreemap = "('k \<times> 'v) list"

fun bt_put :: "'k::linorder \<Rightarrow> 'v \<Rightarrow> ('k, 'v) btreemap \<Rightarrow> ('k, 'v) btreemap" where
  "bt_put k v [] = [(k, v)]"
| "bt_put k v ((j, w) # m) =
     (if k = j then (k, v) # m else if k < j then (k, v) # (j, w) # m else (j, w) # bt_put k v m)"

definition bt_wf :: "('k::linorder, 'v) btreemap \<Rightarrow> bool" where
  "bt_wf m \<longleftrightarrow> sorted_wrt (<) (map fst m)"

lemma bt_wf_hm_wf: "bt_wf m \<Longrightarrow> hm_wf m"
  by (simp add: bt_wf_def hm_wf_def strict_sorted_iff)

lemma keys_bt_put: "fst ` set (bt_put k v m) = insert k (fst ` set m)"
  by (induction k v m rule: bt_put.induct) auto

lemma map_of_bt_put: "map_of (bt_put k v m) = (map_of m)(k \<mapsto> v)"
  by (induction k v m rule: bt_put.induct) (auto simp: fun_eq_iff)

lemma bt_wf_put: "bt_wf m \<Longrightarrow> bt_wf (bt_put k v m)"
proof (induction k v m rule: bt_put.induct)
  case (2 k v j w m)
  moreover have "\<forall>x \<in> fst ` set m. j < x" using "2.prems" by (simp add: bt_wf_def)
  ultimately show ?case
    using keys_bt_put [of k v m] by (auto simp: bt_wf_def)
qed (simp add: bt_wf_def)

lemma bt_wf_delete: "bt_wf m \<Longrightarrow> bt_wf (AList.delete k m)"
  by (induction m) (auto simp: bt_wf_def AList.delete_eq)

interpretation bt: finite_map "[]" map_of bt_put AList.delete "\<lambda>m. m" bt_wf
  by unfold_locales
    (auto simp: map_of_bt_put bt_wf_put bt_wf_delete delete_conv' bt_wf_hm_wf [unfolded hm_wf_def]
      bt_wf_def [of "[]"])

section \<open>Transition systems\<close>

text \<open>
  A component that several callers share is a relation between states, one case per critical
  section; an interleaving of the callers is a path. Invariants and conserved quantities of the
  steps carry over to paths.
\<close>

locale transition_invariant =
  fixes step :: "'s \<Rightarrow> 's \<Rightarrow> bool"
    and inv :: "'s \<Rightarrow> bool"
  assumes step_inv: "inv s \<Longrightarrow> step s t \<Longrightarrow> inv t"
begin

lemma path_inv: "step\<^sup>*\<^sup>* s t \<Longrightarrow> inv s \<Longrightarrow> inv t"
  by (induction rule: rtranclp_induct) (auto intro: step_inv)

end

locale conserving_transition = transition_invariant step inv
  for step :: "'s \<Rightarrow> 's \<Rightarrow> bool" and inv :: "'s \<Rightarrow> bool" +
  fixes amount :: "'s \<Rightarrow> 'a"
  assumes step_amount: "inv s \<Longrightarrow> step s t \<Longrightarrow> amount t = amount s"
begin

lemma path_amount: "step\<^sup>*\<^sup>* s t \<Longrightarrow> inv s \<Longrightarrow> amount t = amount s"
  by (induction rule: rtranclp_induct) (auto simp: step_amount dest: path_inv)

end

text \<open>A relation to the past that every step respects, such as "no level has gone down".\<close>

locale monotone_transition = transition_invariant step inv
  for step :: "'s \<Rightarrow> 's \<Rightarrow> bool" and inv :: "'s \<Rightarrow> bool" +
  fixes below :: "'s \<Rightarrow> 's \<Rightarrow> bool"
  assumes below_refl: "below s s"
    and below_trans: "below s t \<Longrightarrow> below t u \<Longrightarrow> below s u"
    and step_below: "inv s \<Longrightarrow> step s t \<Longrightarrow> below s t"
begin

lemma path_below: "step\<^sup>*\<^sup>* s t \<Longrightarrow> inv s \<Longrightarrow> below s t"
proof (induction rule: rtranclp_induct)
  case base
  show ?case by (rule below_refl)
next
  case (step t u)
  then show ?case using path_inv step_below below_trans by blast
qed

end

end
