(* ===== verification/Fairness.thy ===== *)
theory Fairness
  imports Iron_Prelude
begin

text \<open>
  The fairness tracker of the lock manager (\<^verbatim>\<open>src/src/storage/locks.rs\<close>, \<open>FairnessTracker\<close>): it
  counts how often a source was preempted inside a sliding window and puts a source that reached
  the limit under starvation protection for a while. Each operation takes the instant it reads
  from the clock as an argument.
\<close>

section \<open>State\<close>

record fairness_tracker =
  preemption_counts :: "(string, instant list) hashmap" \<comment> \<open>\<open>VecDeque\<close>, oldest first\<close>
  starved_sources :: "(string, instant) hashmap"
  max_preemptions :: u32
  window_duration :: duration
  protection_duration :: duration
  ft_enabled :: bool

record fairness_stats =
  sources_tracked :: nat
  sources_protected :: nat
  total_preemptions_in_window :: nat

definition fairness_new :: "u32 \<Rightarrow> u64 \<Rightarrow> u64 \<Rightarrow> bool \<Rightarrow> fairness_tracker" where
  "fairness_new mx window_secs protection_secs en =
     \<lparr>preemption_counts = [], starved_sources = [], max_preemptions = mx,
      window_duration = from_secs window_secs, protection_duration = from_secs protection_secs,
      ft_enabled = en\<rparr>"

section \<open>Operations\<close>

definition drop_old_events :: "instant \<Rightarrow> instant list \<Rightarrow> instant list" where
  \<comment> \<open>the \<open>while events.front() < cutoff { pop_front }\<close> loop\<close>
  "drop_old_events cutoff events = dropWhile (\<lambda>t. t < cutoff) events"

definition record_preemption ::
    "instant \<Rightarrow> string \<Rightarrow> string \<Rightarrow> fairness_tracker \<Rightarrow> fairness_tracker \<times> bool" where
  "record_preemption now preempted_source preempting_source ft =
     (if \<not> ft_enabled ft then (ft, False)
      else let cutoff = now - int (window_duration ft);
               events = hm_get_or [] (preemption_counts ft) preempted_source;
               events' = drop_old_events cutoff events @ [now];
               count = (word_of_nat (length events') :: u32);
               ft' = ft\<lparr>preemption_counts :=
                 hm_put preempted_source events' (preemption_counts ft)\<rparr>
           in if max_preemptions ft \<le> count
              then (ft'\<lparr>starved_sources :=
                hm_put preempted_source (now + int (protection_duration ft)) (starved_sources ft')\<rparr>,
                True)
              else (ft', False))"

definition is_starved :: "instant \<Rightarrow> string \<Rightarrow> fairness_tracker \<Rightarrow> bool" where
  "is_starved now source ft =
     (if \<not> ft_enabled ft then False
      else case hm_get (starved_sources ft) source of
        None \<Rightarrow> False | Some protection_until \<Rightarrow> now < protection_until)"

definition should_block_preemption ::
    "instant \<Rightarrow> string \<Rightarrow> string \<Rightarrow> fairness_tracker \<Rightarrow> bool" where
  "should_block_preemption now preempted_source preempting_source ft =
     (if \<not> ft_enabled ft then False else is_starved now preempted_source ft)"

definition ft_get_preemption_count :: "instant \<Rightarrow> string \<Rightarrow> fairness_tracker \<Rightarrow> u32" where
  "ft_get_preemption_count now source ft =
     (if \<not> ft_enabled ft then 0
      else let cutoff = now - int (window_duration ft)
           in case hm_get (preemption_counts ft) source of
                None \<Rightarrow> 0
              | Some events \<Rightarrow> word_of_nat (length (filter (\<lambda>t. cutoff \<le> t) events)))"

definition ft_cleanup_expired :: "instant \<Rightarrow> fairness_tracker \<Rightarrow> fairness_tracker" where
  "ft_cleanup_expired now ft =
     (let cutoff = now - int (window_duration ft);
          counts = map (\<lambda>(k, events). (k, drop_old_events cutoff events)) (preemption_counts ft)
      in ft\<lparr>starved_sources := hm_retain (\<lambda>_ until. now < until) (starved_sources ft),
            preemption_counts := hm_retain (\<lambda>_ events. events \<noteq> []) counts\<rparr>)"

definition ft_stats :: "fairness_tracker \<Rightarrow> fairness_stats" where
  "ft_stats ft =
     \<lparr>sources_tracked = length (preemption_counts ft),
      sources_protected = length (starved_sources ft),
      total_preemptions_in_window = assoc_total length (preemption_counts ft)\<rparr>"

section \<open>Invariant\<close>

text \<open>
  The event queues are sorted by time (they are only appended to with later instants), no event
  lies in the future, and the maps have distinct keys.
\<close>

definition ft_inv :: "instant \<Rightarrow> fairness_tracker \<Rightarrow> bool" where
  "ft_inv now ft \<longleftrightarrow>
     hm_wf (preemption_counts ft) \<and> hm_wf (starved_sources ft) \<and>
     (\<forall>source events. hm_get (preemption_counts ft) source = Some events \<longrightarrow>
        sorted events \<and> (\<forall>t \<in> set events. t \<le> now))"

lemma ft_inv_new: "ft_inv now (fairness_new mx w p en)"
  by (simp add: ft_inv_def fairness_new_def)

lemma ft_inv_later: "ft_inv now ft \<Longrightarrow> now \<le> now' \<Longrightarrow> ft_inv now' ft"
  by (fastforce simp: ft_inv_def)

lemma drop_old_filter: "sorted xs \<Longrightarrow> drop_old_events c xs = filter (\<lambda>t. c \<le> t) xs"
proof (induction xs)
  case (Cons x xs)
  then have "c \<le> x \<Longrightarrow> filter (\<lambda>t. c \<le> t) xs = xs"
    by (auto simp: filter_id_conv)
  with Cons show ?case by (auto simp: drop_old_events_def)
qed (simp add: drop_old_events_def)

lemma hm_get_map_values: "hm_get (map (\<lambda>(k, v). (k, f v)) m) k = map_option f (hm_get m k)"
  by (induction m) auto

lemma hm_wf_map_values [simp]: "hm_wf (map (\<lambda>(k, v). (k, f v)) m) = hm_wf m"
  by (simp add: hm_wf_def case_prod_beta comp_def)

lemma ft_inv_events:
  assumes "ft_inv now ft"
  shows "sorted (hm_get_or [] (preemption_counts ft) s)"
    "t \<in> set (hm_get_or [] (preemption_counts ft) s) \<Longrightarrow> t \<le> now"
  using assms by (cases "hm_get (preemption_counts ft) s"; auto simp: ft_inv_def hm_get_or_def)+

lemma ft_inv_record:
  assumes "ft_inv now ft"
  shows "ft_inv now (fst (record_preemption now a b ft))"
proof -
  have "sorted (drop_old_events c (hm_get_or [] (preemption_counts ft) a) @ [now])"
    and "\<forall>t \<in> set (drop_old_events c (hm_get_or [] (preemption_counts ft) a) @ [now]). t \<le> now"
    for c using ft_inv_events [OF assms, where s = a]
    by (auto simp: drop_old_filter sorted_append intro: sorted_wrt_filter)
  with assms show ?thesis
    by (auto simp: record_preemption_def ft_inv_def Let_def update_conv' hm.invar_put
        split: if_splits)
qed

lemma ft_inv_cleanup: "ft_inv now ft \<Longrightarrow> ft_inv now (ft_cleanup_expired now ft)"
  by (auto simp: ft_inv_def ft_cleanup_expired_def Let_def hm_get_retain hm_get_map_values
      drop_old_filter sorted_wrt_filter split: option.splits if_splits)

section \<open>Starvation protection\<close>

text \<open>The guarded use of the tracker in \<open>try_lock_resource_with_ttl\<close>: check, then record.\<close>

definition attempt_preemption ::
    "instant \<Rightarrow> string \<Rightarrow> string \<Rightarrow> fairness_tracker \<Rightarrow> fairness_tracker \<times> bool" where
  "attempt_preemption now preempted preempting ft =
     (if should_block_preemption now preempted preempting ft then (ft, False)
      else (fst (record_preemption now preempted preempting ft), True))"

text \<open>
  A run of attempts \<open>(now, preempted, preempting)\<close>; the result lists the instants at which
  \<open>source\<close> was in fact preempted, in order.
\<close>

fun preemption_run ::
    "string \<Rightarrow> fairness_tracker \<Rightarrow> (instant \<times> string \<times> string) list \<Rightarrow> instant list" where
  "preemption_run source ft [] = []"
| "preemption_run source ft ((now, a, b) # rest) =
     (let (ft', done) = attempt_preemption now a b ft
      in if done \<and> a = source then now # preemption_run source ft' rest
         else preemption_run source ft' rest)"

lemma record_preemption_other:
  assumes "a \<noteq> source"
  shows "hm_get_or [] (preemption_counts (fst (record_preemption now a b ft))) source
       = hm_get_or [] (preemption_counts ft) source"
    "hm_get (starved_sources (fst (record_preemption now a b ft))) source
       = hm_get (starved_sources ft) source"
  using assms by (auto simp: record_preemption_def Let_def hm_get_or_put update_conv')

lemma record_preemption_params [simp]:
  "max_preemptions (fst (record_preemption now a b ft)) = max_preemptions ft"
  "window_duration (fst (record_preemption now a b ft)) = window_duration ft"
  "protection_duration (fst (record_preemption now a b ft)) = protection_duration ft"
  "ft_enabled (fst (record_preemption now a b ft)) = ft_enabled ft"
  by (simp_all add: record_preemption_def Let_def)

lemma attempt_preemption_params [simp]:
  "max_preemptions (fst (attempt_preemption now a b ft)) = max_preemptions ft"
  "window_duration (fst (attempt_preemption now a b ft)) = window_duration ft"
  "protection_duration (fst (attempt_preemption now a b ft)) = protection_duration ft"
  "ft_enabled (fst (attempt_preemption now a b ft)) = ft_enabled ft"
  by (simp_all add: attempt_preemption_def)

text \<open>
  What the tracker knows about \<open>source\<close> after it was preempted at the instants \<open>past\<close>: the queue
  holds those of the last window, and a full queue means protection since the last one.
\<close>

definition tracks :: "string \<Rightarrow> instant list \<Rightarrow> fairness_tracker \<Rightarrow> bool" where
  "tracks source past ft \<longleftrightarrow> sorted past \<and>
     hm_get_or [] (preemption_counts ft) source
       = filter (\<lambda>t. last past - int (window_duration ft) \<le> t) past \<and>
     (past \<noteq> [] \<longrightarrow>
        unat (max_preemptions ft) \<le> length (hm_get_or [] (preemption_counts ft) source) \<longrightarrow>
        hm_get (starved_sources ft) source = Some (last past + int (protection_duration ft)))"

lemma tracks_record:
  assumes tr: "tracks source past ft" and en: "ft_enabled ft"
    and now: "\<forall>t \<in> set past. t \<le> now" and small: "length past < 2 ^ 32 - 1"
  shows "tracks source (past @ [now]) (fst (record_preemption now source b ft))"
proof -
  let ?W = "int (window_duration ft)"
  let ?e = "filter (\<lambda>t. now - ?W \<le> t) past @ [now]"
  have srt: "sorted past" and ev: "hm_get_or [] (preemption_counts ft) source
       = filter (\<lambda>t. last past - ?W \<le> t) past"
    using tr by (auto simp: tracks_def)
  have "last past \<le> now" if "past \<noteq> []" using that now by simp
  then have "filter (\<lambda>t. now - ?W \<le> t) (filter (\<lambda>t. last past - ?W \<le> t) past)
      = filter (\<lambda>t. now - ?W \<le> t) past"
    by (cases "past = []") (auto intro!: filter_cong)
  then have drop: "drop_old_events (now - ?W) (hm_get_or [] (preemption_counts ft) source) @ [now] = ?e"
    using srt by (simp add: ev drop_old_filter sorted_wrt_filter)
  have "length ?e \<le> length past + 1" by simp
  then have "length ?e < 2 ^ 32" using small by linarith
  then have "unat (word_of_nat (length ?e) :: u32) = length ?e"
    by (simp add: unsigned_of_nat take_bit_eq_mod del: length_append)
  then have cnt: "max_preemptions ft \<le> word_of_nat (length ?e)
      \<longleftrightarrow> unat (max_preemptions ft) \<le> length ?e"
    by (simp add: word_le_nat_alt del: length_append)
  show ?thesis
    unfolding tracks_def record_preemption_def Let_def drop cnt
    using en srt now by (simp add: sorted_append hm_get_or_put update_conv' del: length_append)
qed

text \<open>
  A sequence of instants is spaced when \<open>m\<close> of them inside one window \<open>w\<close> are followed by a pause
  of at least \<open>p\<close>.
\<close>

definition spaced :: "nat \<Rightarrow> duration \<Rightarrow> duration \<Rightarrow> instant list \<Rightarrow> bool" where
  "spaced m w p ts \<longleftrightarrow>
     (\<forall>i. i + m < length ts \<longrightarrow> ts ! (i + m - 1) - ts ! i \<le> int w \<longrightarrow>
          ts ! (i + m - 1) + int p \<le> ts ! (i + m))"

lemma length_filter_suffix:
  assumes "sorted ts" "i < length ts" "c \<le> ts ! i"
  shows "length ts - i \<le> length (filter (\<lambda>t. c \<le> t) ts)"
proof -
  have "\<forall>t \<in> set (drop i ts). c \<le> t"
  proof
    fix t assume "t \<in> set (drop i ts)"
    then obtain j where "j < length ts - i" "t = ts ! (i + j)" by (auto simp: in_set_conv_nth)
    moreover have "i + j < length ts" using calculation(1) by simp
    ultimately show "c \<le> t" using assms sorted_nth_mono [of ts i "i + j"] by simp
  qed
  then have "filter (\<lambda>t. c \<le> t) (drop i ts) = drop i ts" by (simp add: filter_id_conv)
  then have "length (filter (\<lambda>t. c \<le> t) (take i ts @ drop i ts)) \<ge> length (drop i ts)"
    by (simp del: append_take_drop_id)
  then show ?thesis by simp
qed

lemma spaced_snoc:
  assumes sp: "spaced m w p ts" and tr: "tracks source ts ft" and m: "0 < m"
    and par: "unat (max_preemptions ft) = m" "window_duration ft = w" "protection_duration ft = p"
    and en: "ft_enabled ft" and ok: "\<not> is_starved now source ft"
  shows "spaced m w p (ts @ [now])"
  unfolding spaced_def
proof (intro allI impI)
  fix i assume i: "i + m < length (ts @ [now])"
    and win: "(ts @ [now]) ! (i + m - 1) - (ts @ [now]) ! i \<le> int w"
  show "(ts @ [now]) ! (i + m - 1) + int p \<le> (ts @ [now]) ! (i + m)"
  proof (cases "i + m < length ts")
    case True
    moreover have "i + m - 1 < length ts" using True by simp
    ultimately show ?thesis using sp win unfolding spaced_def
      by (metis add_lessD1 nth_append_left)
  next
    case False
    then have im: "i + m = length ts" using i by simp
    then have ne: "ts \<noteq> []" and il: "i < length ts" using m by auto
    have lst: "ts ! (i + m - 1) = last ts" using im ne by (simp add: last_conv_nth)
    have "(ts @ [now]) ! (i + m - 1) = last ts" "(ts @ [now]) ! i = ts ! i"
      using lst im m il by (simp_all add: nth_append ne)
    with win have "last ts - int w \<le> ts ! i" by simp
    then have "m \<le> length (filter (\<lambda>t. last ts - int w \<le> t) ts)"
      using length_filter_suffix [of ts i "last ts - int w"] tr il im by (simp add: tracks_def)
    then have "hm_get (starved_sources ft) source = Some (last ts + int p)"
      using tr ne par by (simp add: tracks_def)
    with ok en have "last ts + int p \<le> now" by (simp add: is_starved_def not_less)
    with \<open>(ts @ [now]) ! (i + m - 1) = last ts\<close> im show ?thesis by simp
  qed
qed

lemma preemption_run_spaced_from:
  assumes "tracks source past ft" "spaced m w p past" "0 < m" "ft_enabled ft"
    and "unat (max_preemptions ft) = m" "window_duration ft = w" "protection_duration ft = p"
    and "sorted (past @ map fst attempts)" "length past + length attempts < 2 ^ 32"
  shows "spaced m w p (past @ preemption_run source ft attempts)"
  using assms
proof (induction attempts arbitrary: past ft)
  case Nil
  then show ?case by simp
next
  case (Cons x rest)
  obtain now a b where x: "x = (now, a, b)" by (cases x)
  let ?ft = "fst (attempt_preemption now a b ft)"
  show ?case
  proof (cases "snd (attempt_preemption now a b ft) \<and> a = source")
    case True
    then have ok: "\<not> is_starved now source ft" and ft: "?ft = fst (record_preemption now source b ft)"
      using Cons.prems(4)
      by (auto simp: attempt_preemption_def should_block_preemption_def split: if_splits)
    have "spaced m w p (past @ [now])"
      using Cons.prems ok by (intro spaced_snoc [where ft = ft and source = source]) auto
    moreover have "tracks source (past @ [now]) ?ft"
      unfolding ft using Cons.prems x by (intro tracks_record) (auto simp: sorted_append)
    ultimately have "spaced m w p ((past @ [now]) @ preemption_run source ?ft rest)"
      using Cons.prems x by (intro Cons.IH) auto
    moreover have "snd (attempt_preemption now source b ft)" "a = source" using True by auto
    ultimately show ?thesis using x by (simp add: case_prod_beta)
  next
    case False
    have "tracks source past ?ft"
    proof (cases "a = source")
      case True
      with False Cons.prems(1) show ?thesis
        by (auto simp: attempt_preemption_def split: if_splits)
    next
      case False
      with Cons.prems(1) show ?thesis
        by (simp add: tracks_def attempt_preemption_def record_preemption_other)
    qed
    then have "spaced m w p (past @ preemption_run source ?ft rest)"
      using Cons.prems x by (intro Cons.IH) (auto simp: sorted_append)
    with False x show ?thesis by (auto simp: case_prod_beta)
  qed
qed

text \<open>
  C20. Starvation bound: from a fresh, enabled tracker with a limit \<open>m > 0\<close>, whatever attempts are
  made (on any sources, at non-decreasing instants), once a source was preempted \<open>m\<close> times inside
  one window it is not preempted again for the whole protection period.
\<close>

theorem preemption_run_spaced:
  assumes "0 < max_preemptions (fairness_new mx w p True)"
    and "sorted (map fst attempts)" and "length attempts < 2 ^ 32"
  shows "spaced (unat mx) (from_secs w) (from_secs p)
           (preemption_run source (fairness_new mx w p True) attempts)"
proof -
  have "0 < unat mx" using assms(1) by (simp add: fairness_new_def unat_gt_0)
  moreover have "tracks source [] (fairness_new mx w p True)"
    by (simp add: tracks_def fairness_new_def hm_get_or_def)
  ultimately show ?thesis
    using preemption_run_spaced_from [of source "[]" "fairness_new mx w p True" "unat mx"
        "from_secs w" "from_secs p" attempts] assms(2,3)
    by (simp add: fairness_new_def spaced_def)
qed

theorem preemption_run_spaced_witness:
  "spaced 1 (from_secs 60) (from_secs 30)
     (preemption_run ''arb'' (fairness_new 1 60 30 True)
        [(0, ''arb'', ''mom''), (1, ''arb'', ''mom''), (40000000000, ''arb'', ''mom'')])
   \<and> preemption_run ''arb'' (fairness_new 1 60 30 True)
        [(0, ''arb'', ''mom''), (1, ''arb'', ''mom''), (40000000000, ''arb'', ''mom'')]
      = [0, 40000000000]"
  using preemption_run_spaced [of 1 60 30
      "[(0, ''arb'', ''mom''), (1, ''arb'', ''mom''), (40000000000, ''arb'', ''mom'')]" "''arb''"]
  by (simp add: fairness_new_def attempt_preemption_def should_block_preemption_def is_starved_def
      record_preemption_def drop_old_events_def hm_get_or_def from_secs_def Let_def)

text \<open>
  The limit is counted inside the window: a recorded preemption activates protection exactly
  when the number of preemptions of the source in the window, this one included, reaches the limit.
\<close>

theorem record_preemption_threshold:
  assumes "ft_inv now ft" and "ft_enabled ft"
    and rec: "record_preemption now a b ft = (ft', activated)"
  shows "(activated \<longleftrightarrow> max_preemptions ft \<le> ft_get_preemption_count now a ft') \<and>
         (activated \<longrightarrow> (\<forall>t. is_starved t a ft' \<longleftrightarrow> t < now + int (protection_duration ft)))"
proof -
  let ?c = "now - int (window_duration ft)"
  let ?e = "drop_old_events ?c (hm_get_or [] (preemption_counts ft) a) @ [now]"
  have "filter (\<lambda>t. ?c \<le> t) ?e = ?e"
    using ft_inv_events [OF assms(1), where s = a] by (auto simp: drop_old_filter)
  then have "ft_get_preemption_count now a ft' = word_of_nat (length ?e)"
    using assms(2) rec
    by (auto simp: ft_get_preemption_count_def record_preemption_def Let_def update_conv'
        simp del: filter_append split: if_splits)
  moreover have "activated \<longleftrightarrow> max_preemptions ft \<le> word_of_nat (length ?e)"
    using assms(2) rec by (auto simp: record_preemption_def Let_def split: if_splits)
  moreover have "activated \<Longrightarrow> is_starved t a ft' \<longleftrightarrow> t < now + int (protection_duration ft)" for t
    using assms(2) rec
    by (auto simp: is_starved_def record_preemption_def Let_def update_conv' split: if_splits)
  ultimately show ?thesis by simp
qed

theorem record_preemption_threshold_witness:
  "\<exists>ft'. record_preemption 5 ''arb'' ''mom'' (fairness_new 1 60 30 True) = (ft', True) \<and>
     is_starved 6 ''arb'' ft'"
proof -
  let ?r = "record_preemption 5 ''arb'' ''mom'' (fairness_new 1 60 30 True)"
  have en: "ft_enabled (fairness_new 1 60 30 True)" by (simp add: fairness_new_def)
  have r: "?r = (fst ?r, True)"
    by (simp add: fairness_new_def record_preemption_def drop_old_events_def hm_get_or_def Let_def)
  from record_preemption_threshold [OF ft_inv_new en r] have "is_starved 6 ''arb'' (fst ?r)"
    by (simp add: fairness_new_def from_secs_def)
  with r show ?thesis by blast
qed

end
