(* ===== verification/Lock_Manager.thy ===== *)
theory Lock_Manager
  imports Fairness
begin

text \<open>
  The capital and resource locks of the execution engine (\<^verbatim>\<open>src/src/storage/locks.rs\<close>,
  \<open>LockManager\<close>). A manager value holds the balances free to reserve, the capital locks by intent
  id, the resource locks by resource id, and the fairness tracker.

  Every operation is one function of the state; where a method takes its write guards only after
  other work, the guarded part is a definition of its own, so that interleavings of concurrent
  callers are sequences of these parts. Instants read from the clock are arguments. Unchecked
  \<open>+=\<close> and \<open>sum\<close> on \<open>u64\<close> wrap, as they do in the release profile.
\<close>

section \<open>State\<close>

record lock_holder =
  intent_id :: string
  decision_id :: "string option"
  tier :: u8
  lh_source :: "string option"

definition lock_holder_new :: "string \<Rightarrow> lock_holder" where
  "lock_holder_new i = \<lparr>intent_id = i, decision_id = None, tier = 255, lh_source = None\<rparr>"

datatype capital_lock_phase = PreSend | InFlight

record capital_lock =
  cl_holder :: lock_holder
  sol_lamports :: u64
  reserves_trading_wsol :: bool
  tokens :: "(string, u64) hashmap"
  token_position_total_at_lock :: "(string, u64) hashmap"
  cl_created_at :: instant
  cl_ttl :: duration
  phase :: capital_lock_phase

datatype resource_type = RPool | RAccount | RMint

record resource_lock =
  rl_holder :: lock_holder
  resource_id :: string
  rl_type :: resource_type
  rl_created_at :: instant
  rl_ttl :: duration

datatype lock_result =
    Acquired
  | AcquiredByPreemption lock_holder
  | Conflict lock_holder
  | InsufficientCapital (lr_available: u64) (lr_requested: u64)

record lock_manager =
  available_sol :: u64
  available_wsol :: u64
  wsol_initialized :: bool
  available_tokens :: "(string, u64) hashmap"
  token_wallet_ata_present :: "string set"
  token_wallet_ata_cleared_at_slot :: "(string, u64 option) hashmap"
  capital_locks :: "(string, capital_lock) hashmap"
  resource_locks :: "(string, resource_lock) hashmap"
  processed_intents :: "string set"
  default_ttl :: duration
  fairness :: fairness_tracker

definition lock_manager_new :: "u64 \<Rightarrow> lock_manager" where
  "lock_manager_new initial_sol =
     \<lparr>available_sol = initial_sol, available_wsol = 0, wsol_initialized = False,
      available_tokens = [], token_wallet_ata_present = {},
      token_wallet_ata_cleared_at_slot = [], capital_locks = [], resource_locks = [],
      processed_intents = {}, default_ttl = from_secs 30,
      fairness = fairness_new 5 60 30 True\<rparr>"

definition with_fairness :: "u32 \<Rightarrow> u64 \<Rightarrow> u64 \<Rightarrow> bool \<Rightarrow> lock_manager \<Rightarrow> lock_manager" where
  "with_fairness mx window_secs protection_secs en s =
     s\<lparr>fairness := fairness_new mx window_secs protection_secs en\<rparr>"

definition with_ttl :: "duration \<Rightarrow> lock_manager \<Rightarrow> lock_manager" where
  "with_ttl ttl s = s\<lparr>default_ttl := ttl\<rparr>"

section \<open>Balances\<close>

definition sum_locked_native_sol :: "(string, capital_lock) hashmap \<Rightarrow> u64" where
  "sum_locked_native_sol locks =
     sum_list (map (\<lambda>(_, l). sol_lamports l) (filter (\<lambda>(_, l). \<not> reserves_trading_wsol l) locks))"

definition sum_locked_wsol_trading :: "(string, capital_lock) hashmap \<Rightarrow> u64" where
  "sum_locked_wsol_trading locks =
     sum_list (map (\<lambda>(_, l). sol_lamports l) (filter (\<lambda>(_, l). reserves_trading_wsol l) locks))"

definition sum_locked_token :: "string \<Rightarrow> (string, capital_lock) hashmap \<Rightarrow> u64" where
  \<comment> \<open>the per-mint sum inside \<open>set_available_token_balance\<close>\<close>
  "sum_locked_token mint locks =
     sum_list (map (\<lambda>(_, l). hm_get_or 0 (tokens l) mint) locks)"

definition update_balances :: "u64 \<Rightarrow> (string, u64) hashmap \<Rightarrow> lock_manager \<Rightarrow> lock_manager" where
  "update_balances sol toks s =
     s\<lparr>available_sol := saturating_sub sol (sum_locked_native_sol (capital_locks s)),
       available_tokens := toks\<rparr>"

definition set_available_token_balance :: "string \<Rightarrow> u64 \<Rightarrow> lock_manager \<Rightarrow> lock_manager" where
  "set_available_token_balance mint amount_raw s =
     (let locked_for_mint = sum_locked_token mint (capital_locks s);
          effective_available = saturating_sub amount_raw locked_for_mint
      in s\<lparr>available_tokens := hm_put mint effective_available (available_tokens s)\<rparr>)"

definition available_token_balance :: "string \<Rightarrow> lock_manager \<Rightarrow> u64" where
  "available_token_balance mint s = hm_get_or 0 (available_tokens s) mint"

definition add_available_token_balance :: "string \<Rightarrow> u64 \<Rightarrow> lock_manager \<Rightarrow> lock_manager" where
  "add_available_token_balance mint additional_raw s =
     (let current = hm_get_or 0 (available_tokens s) mint;
          new_total = saturating_add current additional_raw
      in s\<lparr>available_tokens := hm_put mint new_total (available_tokens s)\<rparr>)"

definition available_and_locked_tokens_for_intent ::
    "string \<Rightarrow> string \<Rightarrow> lock_manager \<Rightarrow> u64 \<times> u64" where
  "available_and_locked_tokens_for_intent i mint s =
     (let locked = (case hm_get (capital_locks s) i of
                      None \<Rightarrow> 0 | Some l \<Rightarrow> hm_get_or 0 (tokens l) mint)
      in (available_token_balance mint s, locked))"

definition intent_token_position_total_at_lock ::
    "string \<Rightarrow> string \<Rightarrow> lock_manager \<Rightarrow> u64 option" where
  "intent_token_position_total_at_lock i mint s =
     Option.bind (hm_get (capital_locks s) i)
       (\<lambda>l. hm_get (token_position_total_at_lock l) mint)"

definition update_wallet_balances :: "u64 \<Rightarrow> u64 option \<Rightarrow> lock_manager \<Rightarrow> lock_manager" where
  "update_wallet_balances sol wsol s =
     (let s1 = s\<lparr>available_sol := saturating_sub sol (sum_locked_native_sol (capital_locks s))\<rparr>
      in case wsol of
           None \<Rightarrow> s1
         | Some w \<Rightarrow>
             s1\<lparr>available_wsol := saturating_sub w (sum_locked_wsol_trading (capital_locks s)),
                wsol_initialized := True\<rparr>)"

definition update_native_sol_only :: "u64 \<Rightarrow> lock_manager \<Rightarrow> lock_manager" where
  "update_native_sol_only sol s =
     s\<lparr>available_sol := saturating_sub sol (sum_locked_native_sol (capital_locks s))\<rparr>"

definition update_wsol_only :: "u64 \<Rightarrow> lock_manager \<Rightarrow> lock_manager" where
  "update_wsol_only wsol s =
     s\<lparr>available_wsol := saturating_sub wsol (sum_locked_wsol_trading (capital_locks s)),
       wsol_initialized := True\<rparr>"

definition capital_lock_reserves_trading_wsol :: "string \<Rightarrow> lock_manager \<Rightarrow> bool option" where
  "capital_lock_reserves_trading_wsol i s =
     map_option reserves_trading_wsol (hm_get (capital_locks s) i)"

definition total_native_sol :: "lock_manager \<Rightarrow> u64" where
  "total_native_sol s =
     saturating_add (available_sol s) (sum_locked_native_sol (capital_locks s))"

definition total_wsol_lamports :: "lock_manager \<Rightarrow> u64" where
  "total_wsol_lamports s =
     saturating_add (available_wsol s) (sum_locked_wsol_trading (capital_locks s))"

definition available_trading_capital :: "lock_manager \<Rightarrow> u64" where
  "available_trading_capital s =
     (if wsol_initialized s then available_wsol s else available_sol s)"

definition count_non_zero_token_balances :: "lock_manager \<Rightarrow> nat" where
  "count_non_zero_token_balances s = assoc_count (\<lambda>b. 0 < b) (available_tokens s)"

definition non_zero_available_token_balances :: "lock_manager \<Rightarrow> (string \<times> u64) list" where
  "non_zero_available_token_balances s = filter (\<lambda>(_, b). 0 < b) (available_tokens s)"

section \<open>Wallet token accounts\<close>

definition mark_token_wallet_ata_present :: "string \<Rightarrow> lock_manager \<Rightarrow> lock_manager" where
  "mark_token_wallet_ata_present mint s =
     s\<lparr>token_wallet_ata_present := insert mint (token_wallet_ata_present s)\<rparr>"

definition wallet_token_snapshot_stale_after_close ::
    "string \<Rightarrow> u64 \<Rightarrow> u64 option \<Rightarrow> lock_manager \<Rightarrow> lock_manager \<times> bool" where
  "wallet_token_snapshot_stale_after_close mint amount_raw snapshot_slot s =
     (case hm_get (token_wallet_ata_cleared_at_slot s) mint of
        None \<Rightarrow> (s, False)
      | Some closed_at_slot \<Rightarrow>
          (case (closed_at_slot, snapshot_slot) of
             (Some closed_slot, Some snap_slot) \<Rightarrow> (s, snap_slot \<le> closed_slot)
           | (None, Some _) \<Rightarrow> (s, True)
           | _ \<Rightarrow> (if amount_raw = 0 then (set_available_token_balance mint 0 s, True)
                  else (s, False))))"

definition apply_wallet_token_snapshot ::
    "string \<Rightarrow> u64 \<Rightarrow> u64 option \<Rightarrow> lock_manager \<Rightarrow> lock_manager" where
  "apply_wallet_token_snapshot mint amount_raw snapshot_slot s =
     (let (s1, stale) = wallet_token_snapshot_stale_after_close mint amount_raw snapshot_slot s
      in if stale then s1
         else let s2 = (if hm_get (token_wallet_ata_cleared_at_slot s1) mint \<noteq> None
                        then s1\<lparr>token_wallet_ata_cleared_at_slot :=
                                 hm_del mint (token_wallet_ata_cleared_at_slot s1)\<rparr>
                        else s1)
              in set_available_token_balance mint amount_raw
                   (mark_token_wallet_ata_present mint s2))"

definition clear_token_wallet_presence :: "string \<Rightarrow> u64 option \<Rightarrow> lock_manager \<Rightarrow> lock_manager" where
  "clear_token_wallet_presence mint closed_at_slot s =
     s\<lparr>token_wallet_ata_present := token_wallet_ata_present s - {mint},
       available_tokens := hm_del mint (available_tokens s),
       token_wallet_ata_cleared_at_slot :=
         hm_put mint closed_at_slot (token_wallet_ata_cleared_at_slot s)\<rparr>"

definition token_wallet_snapshot_seen :: "string \<Rightarrow> lock_manager \<Rightarrow> bool" where
  "token_wallet_snapshot_seen mint s \<longleftrightarrow>
     0 < available_token_balance mint s \<or> mint \<in> token_wallet_ata_present s"

section \<open>Idempotency\<close>

definition is_duplicate :: "string \<Rightarrow> lock_manager \<Rightarrow> bool" where
  "is_duplicate i s \<longleftrightarrow> i \<in> processed_intents s"

definition mark_processed :: "string \<Rightarrow> lock_manager \<Rightarrow> lock_manager" where
  "mark_processed i s = s\<lparr>processed_intents := insert i (processed_intents s)\<rparr>"

definition set_processed_intents :: "string list \<Rightarrow> lock_manager \<Rightarrow> lock_manager" where
  "set_processed_intents intents s = s\<lparr>processed_intents := set intents\<rparr>"

section \<open>Releasing capital\<close>

fun credit_tokens :: "(string, u64) hashmap \<Rightarrow> (string, u64) hashmap \<Rightarrow> (string, u64) hashmap" where
  \<comment> \<open>\<open>for (mint, amount) in lock.tokens { *available_tokens.entry(mint).or_insert(0) += amount }\<close>\<close>
  "credit_tokens [] avail = avail"
| "credit_tokens ((mint, amount) # rest) avail =
     credit_tokens rest (hm_put mint (hm_get_or 0 avail mint + amount) avail)"

definition credit_lock :: "capital_lock \<Rightarrow> bool \<Rightarrow> lock_manager \<Rightarrow> lock_manager" where
  \<comment> \<open>the common body of the release and the expiry path\<close>
  "credit_lock lock restore_tokens s =
     (let s1 = (if reserves_trading_wsol lock
                then s\<lparr>available_wsol := available_wsol s + sol_lamports lock\<rparr>
                else s\<lparr>available_sol := available_sol s + sol_lamports lock\<rparr>)
      in if restore_tokens
         then s1\<lparr>available_tokens := credit_tokens (tokens lock) (available_tokens s1)\<rparr>
         else s1)"

definition release_capital_lock_restore_tokens ::
    "string \<Rightarrow> bool \<Rightarrow> lock_manager \<Rightarrow> lock_manager" where
  "release_capital_lock_restore_tokens i restore_tokens s =
     (case hm_get (capital_locks s) i of
        None \<Rightarrow> s
      | Some lock \<Rightarrow>
          credit_lock lock restore_tokens (s\<lparr>capital_locks := hm_del i (capital_locks s)\<rparr>))"

definition release_resource_locks_for_intent :: "string \<Rightarrow> lock_manager \<Rightarrow> lock_manager" where
  "release_resource_locks_for_intent i s =
     (let to_remove = map fst (filter (\<lambda>(_, l). intent_id (rl_holder l) = i) (resource_locks s))
      in s\<lparr>resource_locks := fold hm_del to_remove (resource_locks s)\<rparr>)"

definition release_locks :: "string \<Rightarrow> lock_manager \<Rightarrow> lock_manager" where
  "release_locks i s =
     release_resource_locks_for_intent i (release_capital_lock_restore_tokens i True s)"

definition release_locks_after_confirmed_sell :: "string \<Rightarrow> lock_manager \<Rightarrow> lock_manager" where
  "release_locks_after_confirmed_sell i s =
     release_resource_locks_for_intent i (release_capital_lock_restore_tokens i False s)"

definition capital_lock_expired :: "instant \<Rightarrow> capital_lock \<Rightarrow> bool" where
  "capital_lock_expired now lock \<longleftrightarrow>
     phase lock = PreSend \<and> cl_ttl lock < duration_since now (cl_created_at lock)"

definition expire_capital_locks :: "instant \<Rightarrow> lock_manager \<Rightarrow> lock_manager \<times> nat" where
  \<comment> \<open>the first critical section of \<open>cleanup_expired\<close>\<close>
  "expire_capital_locks now s =
     (let expired = map fst (filter (\<lambda>(_, l). capital_lock_expired now l) (capital_locks s))
      in (fold (\<lambda>key st. release_capital_lock_restore_tokens key True st) expired s,
          length expired))"

definition expire_resource_locks :: "instant \<Rightarrow> lock_manager \<Rightarrow> lock_manager" where
  \<comment> \<open>the second critical section of \<open>cleanup_expired\<close>\<close>
  "expire_resource_locks now s =
     (let expired = map fst (filter (\<lambda>(_, l). rl_ttl l < duration_since now (rl_created_at l))
                                    (resource_locks s))
      in s\<lparr>resource_locks := fold hm_del expired (resource_locks s)\<rparr>)"

definition cleanup_expired :: "instant \<Rightarrow> lock_manager \<Rightarrow> lock_manager \<times> nat" where
  "cleanup_expired now s =
     (let (s1, n) = expire_capital_locks now s in (expire_resource_locks now s1, n))"

section \<open>Acquiring locks\<close>

fun check_tokens :: "(string, u64) hashmap \<Rightarrow> (string, u64) hashmap \<Rightarrow> (u64 \<times> u64) option" where
  \<comment> \<open>the first mint with too little, as \<open>(available, requested)\<close>\<close>
  "check_tokens [] avail = None"
| "check_tokens ((mint, amount) # rest) avail =
     (if hm_get_or 0 avail mint < amount then Some (hm_get_or 0 avail mint, amount)
      else check_tokens rest avail)"

fun debit_tokens :: "(string, u64) hashmap \<Rightarrow> (string, u64) hashmap \<Rightarrow> (string, u64) hashmap
    \<Rightarrow> (string, u64) hashmap \<times> (string, u64) hashmap" where
  \<comment> \<open>subtracts what is tracked; returns the balances and the positions before the lock\<close>
  "debit_tokens [] avail positions = (avail, positions)"
| "debit_tokens ((mint, amount) # rest) avail positions =
     (case hm_get avail mint of
        None \<Rightarrow> debit_tokens rest avail positions
      | Some before \<Rightarrow>
          debit_tokens rest (hm_put mint (before - amount) avail) (hm_put mint before positions))"

definition acquire_capital :: "instant \<Rightarrow> bool \<Rightarrow> lock_holder \<Rightarrow> u64 \<Rightarrow> (string, u64) hashmap
    \<Rightarrow> duration option \<Rightarrow> lock_manager \<Rightarrow> lock_manager \<times> lock_result" where
  \<comment> \<open>the guarded part of \<open>try_lock_capital_with_ttl\<close>\<close>
  "acquire_capital now buy_reserves_wsol holder sol toks ttl s =
     (if hm_get (capital_locks s) (intent_id holder) \<noteq> None then (s, Conflict holder)
      else if buy_reserves_wsol \<and> available_wsol s < sol
        then (s, InsufficientCapital (available_wsol s) sol)
      else if \<not> buy_reserves_wsol \<and> 0 < sol \<and> available_sol s < sol
        then (s, InsufficientCapital (available_sol s) sol)
      else case check_tokens toks (available_tokens s) of
        Some (a, r) \<Rightarrow> (s, InsufficientCapital a r)
      | None \<Rightarrow>
          let s1 = (if buy_reserves_wsol then s\<lparr>available_wsol := available_wsol s - sol\<rparr>
                    else if 0 < sol then s\<lparr>available_sol := available_sol s - sol\<rparr> else s);
              (avail, positions) = debit_tokens toks (available_tokens s1) [];
              lock = \<lparr>cl_holder = holder, sol_lamports = sol,
                      reserves_trading_wsol = buy_reserves_wsol, tokens = toks,
                      token_position_total_at_lock = positions, cl_created_at = now,
                      cl_ttl = (case ttl of None \<Rightarrow> default_ttl s | Some t \<Rightarrow> t),
                      phase = PreSend\<rparr>
          in (s1\<lparr>available_tokens := avail,
                 capital_locks := hm_put (intent_id holder) lock (capital_locks s1)\<rparr>,
              Acquired))"

definition try_lock_capital_with_ttl :: "instant \<Rightarrow> instant \<Rightarrow> lock_holder \<Rightarrow> u64
    \<Rightarrow> (string, u64) hashmap \<Rightarrow> duration option \<Rightarrow> lock_manager \<Rightarrow> lock_manager \<times> lock_result" where
  "try_lock_capital_with_ttl now_cleanup now_lock holder sol toks ttl s =
     (let s1 = fst (cleanup_expired now_cleanup s);
          buy_reserves_wsol = (toks = [] \<and> 0 < sol \<and> wsol_initialized s1)
      in acquire_capital now_lock buy_reserves_wsol holder sol toks ttl s1)"

definition try_lock_capital :: "instant \<Rightarrow> instant \<Rightarrow> lock_holder \<Rightarrow> u64
    \<Rightarrow> (string, u64) hashmap \<Rightarrow> lock_manager \<Rightarrow> lock_manager \<times> lock_result" where
  "try_lock_capital now_cleanup now_lock holder sol toks s =
     try_lock_capital_with_ttl now_cleanup now_lock holder sol toks None s"

definition source_name :: "lock_holder \<Rightarrow> string" where
  "source_name h = (case lh_source h of None \<Rightarrow> ''unknown'' | Some n \<Rightarrow> n)"

definition insert_resource_lock :: "instant \<Rightarrow> lock_holder \<Rightarrow> string \<Rightarrow> resource_type
    \<Rightarrow> duration option \<Rightarrow> lock_manager \<Rightarrow> lock_manager \<times> lock_result" where
  \<comment> \<open>the tail of \<open>try_lock_resource_with_ttl\<close>: build and insert the lock, name a preempted holder\<close>
  "insert_resource_lock now holder rid rtype ttl s =
     (let lock = \<lparr>rl_holder = holder, resource_id = rid, rl_type = rtype, rl_created_at = now,
                  rl_ttl = (case ttl of None \<Rightarrow> default_ttl s | Some t \<Rightarrow> t)\<rparr>;
          was_preempted = map_option rl_holder (hm_get (resource_locks s) rid);
          s1 = s\<lparr>resource_locks := hm_put rid lock (resource_locks s)\<rparr>
      in case was_preempted of
           Some preempted \<Rightarrow>
             (if intent_id preempted \<noteq> intent_id holder then (s1, AcquiredByPreemption preempted)
              else (s1, Acquired))
         | None \<Rightarrow> (s1, Acquired))"

definition acquire_resource :: "instant \<Rightarrow> lock_holder \<Rightarrow> string \<Rightarrow> resource_type
    \<Rightarrow> duration option \<Rightarrow> lock_manager \<Rightarrow> lock_manager \<times> lock_result" where
  \<comment> \<open>the guarded part of \<open>try_lock_resource_with_ttl\<close>\<close>
  "acquire_resource now holder rid rtype ttl s =
     (case hm_get (resource_locks s) rid of
        Some existing \<Rightarrow>
          if intent_id (rl_holder existing) \<noteq> intent_id holder
          then if tier holder < tier (rl_holder existing)
               then let preempted_source = source_name (rl_holder existing);
                        preempting_source = source_name holder
                    in if should_block_preemption now preempted_source preempting_source (fairness s)
                       then (s, Conflict (rl_holder existing))
                       else insert_resource_lock now holder rid rtype ttl
                              (s\<lparr>fairness := fst (record_preemption now preempted_source
                                                   preempting_source (fairness s))\<rparr>)
               else (s, Conflict (rl_holder existing))
          else insert_resource_lock now holder rid rtype ttl s
      | None \<Rightarrow> insert_resource_lock now holder rid rtype ttl s)"

definition try_lock_resource_with_ttl :: "instant \<Rightarrow> instant \<Rightarrow> lock_holder \<Rightarrow> string
    \<Rightarrow> resource_type \<Rightarrow> duration option \<Rightarrow> lock_manager \<Rightarrow> lock_manager \<times> lock_result" where
  "try_lock_resource_with_ttl now_cleanup now_lock holder rid rtype ttl s =
     acquire_resource now_lock holder rid rtype ttl (fst (cleanup_expired now_cleanup s))"

definition renew_capital_lock_ttl ::
    "instant \<Rightarrow> string \<Rightarrow> duration \<Rightarrow> lock_manager \<Rightarrow> lock_manager \<times> bool" where
  "renew_capital_lock_ttl now i ttl s =
     (case hm_get (capital_locks s) i of
        None \<Rightarrow> (s, False)
      | Some lock \<Rightarrow>
          if phase lock = PreSend
          then (s\<lparr>capital_locks :=
                   hm_put i (lock\<lparr>cl_ttl := ttl, cl_created_at := now\<rparr>) (capital_locks s)\<rparr>, True)
          else (s, False))"

definition mark_in_flight :: "string \<Rightarrow> lock_manager \<Rightarrow> lock_manager \<times> bool" where
  \<comment> \<open>the guarded part of \<open>promote_capital_lock_to_in_flight\<close>\<close>
  "mark_in_flight i s =
     (case hm_get (capital_locks s) i of
        None \<Rightarrow> (s, False)
      | Some lock \<Rightarrow>
          (s\<lparr>capital_locks := hm_put i (lock\<lparr>phase := InFlight\<rparr>) (capital_locks s)\<rparr>, True))"

definition promote_capital_lock_to_in_flight :: "string \<Rightarrow> lock_manager \<Rightarrow> lock_manager \<times> bool" where
  "promote_capital_lock_to_in_flight i s =
     (let (s1, promoted) = mark_in_flight i s
      in if promoted then (release_resource_locks_for_intent i s1, True) else (s1, False))"

definition in_flight_reservation_count :: "lock_manager \<Rightarrow> nat" where
  "in_flight_reservation_count s = assoc_count (\<lambda>l. phase l = InFlight) (capital_locks s)"

definition active_lock_count :: "lock_manager \<Rightarrow> nat \<times> nat" where
  "active_lock_count s = (length (capital_locks s), length (resource_locks s))"

end
