(* ===== verification/Lock_Safety.thy ===== *)
theory Lock_Safety
  imports Lock_Manager
begin

text \<open>
  Safety of the lock manager: what each critical section does to the reservations, that the two
  lamport buckets and the token balances are conserved by every interleaving of them, that no
  unchecked addition wraps, and that reservations in flight survive until they are released.
\<close>


section \<open>The two lamport buckets\<close>

text \<open>
  \<open>bucket b\<close> selects the WSOL trading bucket (\<open>b = True\<close>) or native SOL. The total of a bucket,
  on natural numbers, is what is free plus what the capital locks hold.
\<close>

definition free :: "bool \<Rightarrow> lock_manager \<Rightarrow> u64" where
  "free b s = (if b then available_wsol s else available_sol s)"

definition held :: "bool \<Rightarrow> capital_lock \<Rightarrow> u64" where
  "held b l = (if reserves_trading_wsol l = b then sol_lamports l else 0)"

definition bucket_total :: "bool \<Rightarrow> lock_manager \<Rightarrow> nat" where
  "bucket_total b s = unat (free b s) + assoc_total (\<lambda>l. unat (held b l)) (capital_locks s)"

definition token_total :: "string \<Rightarrow> lock_manager \<Rightarrow> u64" where
  "token_total mint s = available_token_balance mint s + sum_locked_token mint (capital_locks s)"

lemma sum_filter_total:
  "sum_list (map (\<lambda>(_, l). g l) (filter (\<lambda>(_, l). P l) m))
     = assoc_total (\<lambda>l. if P l then g l else (0 :: 'a::comm_monoid_add)) m"
  by (induction m) auto

lemma sum_locked_native: "sum_locked_native_sol m = assoc_total (held False) m"
  unfolding sum_locked_native_sol_def sum_filter_total held_def [abs_def]
  by (rule arg_cong [where f = "\<lambda>f. assoc_total f m"]) auto

lemma sum_locked_wsol: "sum_locked_wsol_trading m = assoc_total (held True) m"
  unfolding sum_locked_wsol_trading_def sum_filter_total held_def [abs_def]
  by (rule arg_cong [where f = "\<lambda>f. assoc_total f m"]) auto

lemma sum_locked_token_total:
  "sum_locked_token mint m = assoc_total (\<lambda>l. hm_get_or 0 (tokens l) mint) m"
  by (simp add: sum_locked_token_def assoc_total_def)

lemma unat_assoc_total:
  assumes "assoc_total (\<lambda>v. unat (f v)) m < 2 ^ LENGTH('a)"
  shows "unat (assoc_total f m :: 'a::len word) = assoc_total (\<lambda>v. unat (f v)) m"
  using assms
proof (induction m)
  case (Cons p m)
  then show ?case by (cases p) (simp add: unat_add_small)
qed simp

section \<open>The invariant\<close>

definition cap_inv :: "lock_manager \<Rightarrow> bool" where
  "cap_inv s \<longleftrightarrow>
     hm_wf (capital_locks s) \<and> hm_wf (available_tokens s) \<and> hm_wf (resource_locks s) \<and>
     (\<forall>b. bucket_total b s < 2 ^ 64) \<and>
     (\<forall>i l. hm_get (capital_locks s) i = Some l \<longrightarrow>
        intent_id (cl_holder l) = i \<and> hm_wf (tokens l)) \<and>
     (\<forall>r l. hm_get (resource_locks s) r = Some l \<longrightarrow> resource_id l = r)"

lemma cap_inv_new: "cap_inv (lock_manager_new sol)"
  using unat_lt_u64 [of sol]
  by (simp add: cap_inv_def lock_manager_new_def bucket_total_def free_def)

lemma cap_invD:
  assumes "cap_inv s"
  shows "hm_wf (capital_locks s)" "hm_wf (available_tokens s)" "hm_wf (resource_locks s)"
    "bucket_total b s < 2 ^ 64"
    "hm_get (capital_locks s) i = Some l \<Longrightarrow> intent_id (cl_holder l) = i"
    "hm_get (capital_locks s) i = Some l \<Longrightarrow> hm_wf (tokens l)"
  using assms by (auto simp: cap_inv_def)

lemma locked_lt_total: "assoc_total (\<lambda>l. unat (held b l)) (capital_locks s) \<le> bucket_total b s"
  by (simp add: bucket_total_def)

lemma unat_locked:
  assumes "cap_inv s"
  shows "unat (assoc_total (held b) (capital_locks s))
       = assoc_total (\<lambda>l. unat (held b l)) (capital_locks s)"
  using cap_invD(4) [OF assms, of b] locked_lt_total [of b s] by (intro unat_assoc_total) simp

section \<open>Tokens\<close>

lemma check_tokens_None:
  "check_tokens ts av = None \<longleftrightarrow> (\<forall>(m, a) \<in> set ts. a \<le> hm_get_or 0 av m)"
  by (induction ts av rule: check_tokens.induct) (auto simp: not_less)

lemma hm_get_or_credit:
  "hm_wf ts \<Longrightarrow> hm_get_or 0 (credit_tokens ts av) m = hm_get_or 0 av m + hm_get_or 0 ts m"
proof (induction ts av rule: credit_tokens.induct)
  case (2 mint amount rest avail)
  then have "hm_get rest mint = None" by auto
  with 2 show ?case by (auto simp: hm_get_or_put)
qed simp

lemma hm_wf_credit: "hm_wf av \<Longrightarrow> hm_wf (credit_tokens ts av)"
  by (induction ts av rule: credit_tokens.induct) (auto intro: hm.invar_put)

lemma hm_wf_debit: "hm_wf av \<Longrightarrow> hm_wf (fst (debit_tokens ts av ps))"
  by (induction ts av ps rule: debit_tokens.induct)
    (auto intro: hm.invar_put split: option.splits)

lemma hm_get_or_debit:
  assumes "hm_wf ts" "\<forall>(m, a) \<in> set ts. a \<le> hm_get_or 0 av m"
  shows "hm_get_or 0 (fst (debit_tokens ts av ps)) m = hm_get_or 0 av m - hm_get_or 0 ts m"
  using assms
proof (induction ts av ps rule: debit_tokens.induct)
  case (1 avail ps)
  then show ?case by simp
next
  case (2 mint amount rest avail ps)
  have fresh: "hm_get rest mint = None" using "2.prems"(1) by auto
  then have ne: "(m, a) \<in> set rest \<Longrightarrow> m \<noteq> mint" for m a
    by (metis map_of_eq_None_iff fst_conv image_eqI)
  show ?case
  proof (cases "hm_get avail mint")
    case None
    then have "amount = 0" using "2.prems"(2) by auto
    with "2.IH"(1) [OF None] "2.prems" None fresh show ?thesis by auto
  next
    case (Some before)
    have "\<forall>(m, a) \<in> set rest. a \<le> hm_get_or 0 (hm_put mint (before - amount) avail) m"
      using "2.prems"(2) ne by (auto simp: hm_get_or_put)
    with "2.IH"(2) [OF Some] "2.prems" Some fresh show ?thesis
      by (auto simp: hm_get_or_put)
  qed
qed

lemma hm_wf_put [simp]: "hm_wf m \<Longrightarrow> hm_wf (hm_put k v m)"
  by (rule hm.invar_put)

section \<open>Releasing and expiring\<close>

lemma credit_lock_simps [simp]:
  "capital_locks (credit_lock l r s) = capital_locks s"
  "resource_locks (credit_lock l r s) = resource_locks s"
  "free b (credit_lock l r s) = free b s + held b l"
  "available_tokens (credit_lock l r s)
     = (if r then credit_tokens (tokens l) (available_tokens s) else available_tokens s)"
  by (auto simp: credit_lock_def Let_def free_def held_def)

lemma free_simps [simp]:
  "free b (s\<lparr>capital_locks := x\<rparr>) = free b s"
  "free b (s\<lparr>resource_locks := y\<rparr>) = free b s"
  "free b (s\<lparr>available_tokens := z\<rparr>) = free b s"
  "free b (s\<lparr>fairness := f\<rparr>) = free b s"
  "free b (s\<lparr>token_wallet_ata_present := p\<rparr>) = free b s"
  "free b (s\<lparr>token_wallet_ata_cleared_at_slot := q\<rparr>) = free b s"
  "free b (s\<lparr>processed_intents := n\<rparr>) = free b s"
  by (simp_all add: free_def)

lemma release_None: "hm_get (capital_locks s) i = None \<Longrightarrow> release_capital_lock_restore_tokens i r s = s"
  by (simp add: release_capital_lock_restore_tokens_def)

lemma release_simps [simp]:
  "capital_locks (release_capital_lock_restore_tokens i r s) = hm_del i (capital_locks s)"
  "resource_locks (release_capital_lock_restore_tokens i r s) = resource_locks s"
  by (auto simp: release_capital_lock_restore_tokens_def delete_id map_of_eq_None_iff
      split: option.splits)

lemma release_bucket:
  assumes "cap_inv s"
  shows "bucket_total b (release_capital_lock_restore_tokens i r s) = bucket_total b s"
proof (cases "hm_get (capital_locks s) i")
  case (Some l)
  let ?t = "\<lambda>m. assoc_total (\<lambda>l. unat (held b l)) m"
  have tot: "?t (capital_locks s) = unat (held b l) + ?t (hm_del i (capital_locks s))"
    using hm.total_del [OF cap_invD(1) [OF assms] Some] .
  then have "unat (free b s) + unat (held b l) < 2 ^ 64"
    using cap_invD(4) [OF assms, of b] by (simp add: bucket_total_def)
  then have "unat (free b s + held b l) = unat (free b s) + unat (held b l)"
    by (simp add: unat_add_small)
  with tot Some show ?thesis
    by (simp add: bucket_total_def release_capital_lock_restore_tokens_def)
qed (simp add: release_None)

lemma release_tokens:
  assumes "cap_inv s"
  shows "hm_wf (available_tokens (release_capital_lock_restore_tokens i r s))"
    "token_total mint (release_capital_lock_restore_tokens i True s) = token_total mint s"
proof -
  show "hm_wf (available_tokens (release_capital_lock_restore_tokens i r s))"
    using cap_invD(2) [OF assms]
    by (auto simp: release_capital_lock_restore_tokens_def hm_wf_credit split: option.splits)
  show "token_total mint (release_capital_lock_restore_tokens i True s) = token_total mint s"
  proof (cases "hm_get (capital_locks s) i")
    case (Some l)
    have "sum_locked_token mint (capital_locks s)
        = hm_get_or 0 (tokens l) mint + sum_locked_token mint (hm_del i (capital_locks s))"
      unfolding sum_locked_token_total using hm.total_del [OF cap_invD(1) [OF assms] Some] .
    with Some cap_invD(6) [OF assms Some] show ?thesis
      by (simp add: token_total_def available_token_balance_def
          release_capital_lock_restore_tokens_def hm_get_or_credit)
  qed (simp add: release_None)
qed

lemma cap_inv_release:
  assumes "cap_inv s"
  shows "cap_inv (release_capital_lock_restore_tokens i r s)"
  using assms release_bucket [OF assms, of _ i r] release_tokens(1) [OF assms, of i r]
  by (auto simp: cap_inv_def hm.get_del hm.invar_del split: if_splits)

lemma hm_wf_fold_del: "hm_wf m \<Longrightarrow> hm_wf (fold hm_del ks m)"
  by (induction ks arbitrary: m) (auto intro: hm.invar_del)

lemma hm_get_fold_del:
  "hm_get (fold hm_del ks m) k = (if k \<in> set ks then None else hm_get m k)"
  by (induction ks arbitrary: m) (auto simp: delete_conv')

lemma release_all:
  assumes "cap_inv s"
  shows "cap_inv (fold (\<lambda>k st. release_capital_lock_restore_tokens k True st) ks s)"
    "bucket_total b (fold (\<lambda>k st. release_capital_lock_restore_tokens k True st) ks s) = bucket_total b s"
    "token_total m (fold (\<lambda>k st. release_capital_lock_restore_tokens k True st) ks s) = token_total m s"
    "capital_locks (fold (\<lambda>k st. release_capital_lock_restore_tokens k True st) ks s)
       = fold hm_del ks (capital_locks s)"
    "resource_locks (fold (\<lambda>k st. release_capital_lock_restore_tokens k True st) ks s) = resource_locks s"
  using assms
  by (induction ks arbitrary: s)
    (simp_all add: cap_inv_release release_bucket release_tokens)

lemma hm_get_expired:
  assumes "hm_wf m"
  shows "hm_get (fold hm_del (map fst (filter (\<lambda>(_, v). P v) m)) m) k
       = (case hm_get m k of None \<Rightarrow> None | Some v \<Rightarrow> if P v then None else Some v)"
proof -
  have "k \<in> set (map fst (filter (\<lambda>(_, v). P v) m)) \<longleftrightarrow> (\<exists>v. hm_get m k = Some v \<and> P v)"
    using hm.entries_get [OF assms] by force
  then show ?thesis by (auto simp: hm_get_fold_del split: option.splits)
qed

lemma expire_capital:
  assumes "cap_inv s"
  shows "cap_inv (fst (expire_capital_locks now s))"
    "bucket_total b (fst (expire_capital_locks now s)) = bucket_total b s"
    "token_total m (fst (expire_capital_locks now s)) = token_total m s"
    "hm_get (capital_locks (fst (expire_capital_locks now s))) i
       = (case hm_get (capital_locks s) i of None \<Rightarrow> None
          | Some l \<Rightarrow> if capital_lock_expired now l then None else Some l)"
  using release_all [OF assms] hm_get_expired [OF cap_invD(1) [OF assms]]
  by (simp_all add: expire_capital_locks_def Let_def)

lemma resource_only:
  assumes "cap_inv s"
  shows "cap_inv (s\<lparr>resource_locks := fold hm_del ks (resource_locks s)\<rparr>)"
    "bucket_total b (s\<lparr>resource_locks := rs\<rparr>) = bucket_total b s"
    "token_total m (s\<lparr>resource_locks := rs\<rparr>) = token_total m s"
  using assms
  by (auto simp: cap_inv_def hm_wf_fold_del hm_get_fold_del bucket_total_def token_total_def
      available_token_balance_def split: if_splits)

section \<open>Acquiring\<close>

text \<open>What an acquisition that succeeds did, on every branch of the code.\<close>

lemma acquire_capital_cases:
  assumes "acquire_capital now w h sol toks ttl s = (s', res)"
  obtains (refused) "s' = s" "res \<noteq> Acquired"
  | (acquired) lock where "res = Acquired" "hm_get (capital_locks s) (intent_id h) = None"
      "check_tokens toks (available_tokens s) = None" "sol \<le> free w s"
      "cl_holder lock = h" "sol_lamports lock = sol" "reserves_trading_wsol lock = w"
      "tokens lock = toks" "phase lock = PreSend" "cl_created_at lock = now"
      "cl_ttl lock = (case ttl of None \<Rightarrow> default_ttl s | Some t \<Rightarrow> t)"
      "capital_locks s' = hm_put (intent_id h) lock (capital_locks s)"
      "available_tokens s' = fst (debit_tokens toks (available_tokens s) [])"
      "\<And>b. free b s' = free b s - held b lock"
      "resource_locks s' = resource_locks s"
proof (cases "res = Acquired")
  case False
  with assms have "s' = s"
    by (auto simp: acquire_capital_def Let_def split: if_splits option.splits prod.splits)
  with False show ?thesis by (rule refused [rotated])
next
  case True
  obtain av ps where d: "debit_tokens toks (available_tokens s) [] = (av, ps)" by fastforce
  let ?lock = "\<lparr>cl_holder = h, sol_lamports = sol, reserves_trading_wsol = w, tokens = toks,
      token_position_total_at_lock = ps, cl_created_at = now,
      cl_ttl = (case ttl of None \<Rightarrow> default_ttl s | Some t \<Rightarrow> t), phase = PreSend\<rparr>"
  show ?thesis
    by (rule acquired [of ?lock]; insert assms True d;
        cases "sol = 0"; cases w; cases "check_tokens toks (available_tokens s)")
      (auto simp: acquire_capital_def Let_def free_def held_def not_less word_neq_0_conv
        split: if_splits prod.splits)
qed

lemma acquire_bucket:
  assumes "cap_inv s" "acquire_capital now w h sol toks ttl s = (s', res)"
  shows "bucket_total b s' = bucket_total b s"
  using assms(2)
proof (cases rule: acquire_capital_cases)
  case (acquired lock)
  have "unat (held b lock) \<le> unat (free b s)"
    using acquired(4,6,7) by (auto simp: held_def word_le_nat_alt)
  then have "unat (free b s - held b lock) + unat (held b lock) = unat (free b s)"
    by (simp add: unat_sub_small)
  moreover have "assoc_total (\<lambda>l. unat (held b l)) (capital_locks s')
      = unat (held b lock) + assoc_total (\<lambda>l. unat (held b l)) (capital_locks s)"
    unfolding acquired(12) by (rule hm.total_put_fresh [OF cap_invD(1) [OF assms(1)] acquired(2)])
  ultimately show ?thesis using acquired(14) by (simp add: bucket_total_def)
qed simp

lemma acquire_tokens:
  assumes "cap_inv s" "hm_wf toks" "acquire_capital now w h sol toks ttl s = (s', res)"
  shows "token_total m s' = token_total m s"
  using assms(3)
proof (cases rule: acquire_capital_cases)
  case (acquired lock)
  have "sum_locked_token m (capital_locks s')
      = hm_get_or 0 toks m + sum_locked_token m (capital_locks s)"
    unfolding acquired(12) sum_locked_token_total
    by (subst hm.total_put_fresh [OF cap_invD(1) [OF assms(1)] acquired(2)]) (simp add: acquired(8))
  moreover have "available_token_balance m s' = available_token_balance m s - hm_get_or 0 toks m"
    using acquired(3,13) assms(2)
    by (simp add: available_token_balance_def check_tokens_None hm_get_or_debit)
  ultimately show ?thesis by (simp add: token_total_def)
qed simp

lemma cap_inv_acquire:
  assumes "cap_inv s" "hm_wf toks" "acquire_capital now w h sol toks ttl s = (s', res)"
  shows "cap_inv s'"
  using assms(3)
proof (cases rule: acquire_capital_cases)
  case (acquired lock)
  have "bucket_total b s' = bucket_total b s" for b
    by (rule acquire_bucket [OF assms(1,3)])
  with acquired assms(1,2) hm_wf_debit [of "available_tokens s" toks "[]"] show ?thesis
    by (auto simp: cap_inv_def update_conv' hm.invar_put split: if_splits)
qed (simp add: assms(1))

section \<open>Changing a lock in place\<close>

lemma replace_lock:
  assumes "cap_inv s" "hm_get (capital_locks s) i = Some l"
    and "cl_holder l' = cl_holder l" "sol_lamports l' = sol_lamports l"
    and "reserves_trading_wsol l' = reserves_trading_wsol l" "tokens l' = tokens l"
  shows "bucket_total b (s\<lparr>capital_locks := hm_put i l' (capital_locks s)\<rparr>) = bucket_total b s"
    "token_total m (s\<lparr>capital_locks := hm_put i l' (capital_locks s)\<rparr>) = token_total m s"
    "cap_inv (s\<lparr>capital_locks := hm_put i l' (capital_locks s)\<rparr>)"
proof -
  have wf: "hm_wf (capital_locks s)" using assms(1) by (simp add: cap_inv_def)
  show b: "bucket_total b (s\<lparr>capital_locks := hm_put i l' (capital_locks s)\<rparr>) = bucket_total b s" for b
    using hm.total_put_same [OF wf assms(2), of "\<lambda>l. unat (held b l)" l'] assms(4,5)
    by (simp add: bucket_total_def held_def)
  show "token_total m (s\<lparr>capital_locks := hm_put i l' (capital_locks s)\<rparr>) = token_total m s"
    using hm.total_put_same [OF wf assms(2), of "\<lambda>l. hm_get_or 0 (tokens l) m" l'] assms(6)
    by (simp add: token_total_def available_token_balance_def sum_locked_token_total)
  show "cap_inv (s\<lparr>capital_locks := hm_put i l' (capital_locks s)\<rparr>)"
    using assms b unfolding cap_inv_def
    by (auto simp: update_conv' hm.invar_put split: if_splits)
qed

lemma acquire_resource_fields:
  assumes "acquire_resource now h rid ty ttl s = (s', res)"
  shows "capital_locks s' = capital_locks s" "available_tokens s' = available_tokens s"
    "free b s' = free b s" "hm_wf (resource_locks s) \<Longrightarrow> hm_wf (resource_locks s')"
    "\<forall>r l. hm_get (resource_locks s) r = Some l \<longrightarrow> resource_id l = r \<Longrightarrow>
     \<forall>r l. hm_get (resource_locks s') r = Some l \<longrightarrow> resource_id l = r"
  using assms
  by (auto simp: acquire_resource_def insert_resource_lock_def Let_def free_def update_conv'
      intro: hm.invar_put split: option.splits if_splits)

lemma acquire_resource_keeps:
  assumes inv: "cap_inv s" and acq: "acquire_resource now h rid ty ttl s = (s', res)"
  shows "cap_inv s'" "bucket_total b s' = bucket_total b s" "token_total m s' = token_total m s"
proof -
  note f = acquire_resource_fields [OF acq]
  show b: "bucket_total b s' = bucket_total b s" for b by (simp add: bucket_total_def f(1,3))
  show "token_total m s' = token_total m s"
    by (simp add: token_total_def available_token_balance_def f(1,2))
  show "cap_inv s'"
    using inv f(4,5) unfolding cap_inv_def f(1,2) b by blast
qed

section \<open>Steps\<close>

text \<open>
  The critical sections that do not report a wallet balance: acquiring, renewing, promoting,
  releasing and expiring locks, and everything on resource locks, processed intents and token
  accounts. A lock request is any \<open>HashMap\<close> of token amounts.
\<close>

inductive lock_step :: "lock_manager \<Rightarrow> lock_manager \<Rightarrow> bool" where
  acquire: "hm_wf toks \<Longrightarrow> lock_step s (fst (acquire_capital now w h sol toks ttl s))"
| release: "lock_step s (release_capital_lock_restore_tokens i True s)"
| expire: "lock_step s (fst (expire_capital_locks now s))"
| renew: "lock_step s (fst (renew_capital_lock_ttl now i ttl s))"
| in_flight: "lock_step s (fst (mark_in_flight i s))"
| acquire_res: "lock_step s (fst (acquire_resource now h rid ty ttl s))"
| release_res: "lock_step s (release_resource_locks_for_intent i s)"
| expire_res: "lock_step s (expire_resource_locks now s)"
| processed: "lock_step s (mark_processed i s)"
| restore_processed: "lock_step s (set_processed_intents is s)"
| ata_mark: "lock_step s (mark_token_wallet_ata_present mint s)"

lemma lock_step_keeps:
  assumes "lock_step s t" "cap_inv s"
  shows "cap_inv t \<and> bucket_total b t = bucket_total b s \<and> token_total m t = token_total m s"
  using assms
proof (induction rule: lock_step.induct)
  case (acquire toks s now w h sol ttl)
  then show ?case
    using cap_inv_acquire acquire_bucket acquire_tokens by (metis prod.collapse)
next
  case (renew s now i ttl)
  then show ?case
    by (auto simp: renew_capital_lock_ttl_def replace_lock split: option.splits)
next
  case (in_flight s i)
  then show ?case by (auto simp: mark_in_flight_def replace_lock split: option.splits)
next
  case (acquire_res s now h rid ty ttl)
  then show ?case using acquire_resource_keeps by (metis prod.collapse)
next
  case (release_res s i)
  then show ?case
    by (simp add: release_resource_locks_for_intent_def Let_def resource_only)
next
  case (expire_res s now)
  then show ?case by (simp add: expire_resource_locks_def Let_def resource_only)
next
  case (release s i)
  then show ?case by (simp add: cap_inv_release release_bucket release_tokens)
next
  case (expire s now)
  then show ?case by (simp add: expire_capital)
qed (simp_all add: cap_inv_def mark_processed_def set_processed_intents_def
    mark_token_wallet_ata_present_def bucket_total_def token_total_def available_token_balance_def)

interpretation locks: conserving_transition lock_step cap_inv
    "\<lambda>s. (bucket_total True s, bucket_total False s, \<lambda>m. token_total m s)"
  by unfold_locales (simp_all add: lock_step_keeps)

text \<open>
  The sections that report a balance: each replaces what is free, so totals change to what was
  reported. \<open>sell\<close> is the release after a confirmed sale, which drops the sold tokens.
\<close>

inductive wallet_step :: "lock_manager \<Rightarrow> lock_manager \<Rightarrow> bool" where
  balances: "hm_wf toks \<Longrightarrow> wallet_step s (update_balances sol toks s)"
| token: "wallet_step s (set_available_token_balance mint n s)"
| token_add: "wallet_step s (add_available_token_balance mint n s)"
| wallet: "wallet_step s (update_wallet_balances sol wsol s)"
| native: "wallet_step s (update_native_sol_only sol s)"
| wsol: "wallet_step s (update_wsol_only w s)"
| snapshot: "wallet_step s (apply_wallet_token_snapshot mint n slot s)"
| closed: "wallet_step s (clear_token_wallet_presence mint slot s)"
| sell: "wallet_step s (release_capital_lock_restore_tokens i False s)"

inductive manager_step :: "lock_manager \<Rightarrow> lock_manager \<Rightarrow> bool" where
  of_lock: "lock_step s t \<Longrightarrow> manager_step s t"
| of_wallet: "wallet_step s t \<Longrightarrow> manager_step s t"

lemma reported_bucket:
  assumes inv: "cap_inv s"
    and "capital_locks t = capital_locks s"
    and "free b t = saturating_sub w (assoc_total (held b) (capital_locks s))"
  shows "bucket_total b t
       = max (unat w) (assoc_total (\<lambda>l. unat (held b l)) (capital_locks s))"
  using assms(2,3) unat_locked [OF inv, of b]
  by (simp add: bucket_total_def width_simps)

lemma reported_lt:
  assumes "cap_inv s"
  shows "max (unat (w :: u64)) (assoc_total (\<lambda>l. unat (held b l)) (capital_locks s)) < 2 ^ 64"
  using cap_invD(4) [OF assms, of b] locked_lt_total [of b s] unat_lt_u64 [of w] by simp

lemma cap_inv_reported:
  assumes inv: "cap_inv s"
    and same: "capital_locks t = capital_locks s" "resource_locks t = resource_locks s"
    and wf: "hm_wf (available_tokens t)"
    and fr: "\<And>b. free b t = free b s \<or>
      (\<exists>w. free b t = saturating_sub w (assoc_total (held b) (capital_locks s)))"
  shows "cap_inv t"
proof -
  have "bucket_total b t < 2 ^ 64" for b
    using fr [of b] reported_bucket [OF inv same(1)] reported_lt [OF inv] cap_invD(4) [OF inv, of b]
    by (auto simp: bucket_total_def same)
  with inv wf show ?thesis by (simp add: cap_inv_def same)
qed

lemma set_token_fields [simp]:
  "capital_locks (set_available_token_balance m n s) = capital_locks s"
  "resource_locks (set_available_token_balance m n s) = resource_locks s"
  "free b (set_available_token_balance m n s) = free b s"
  "hm_wf (available_tokens s) \<Longrightarrow> hm_wf (available_tokens (set_available_token_balance m n s))"
  by (simp_all add: set_available_token_balance_def Let_def hm_wf_put)

lemma snapshot_fields:
  "capital_locks (apply_wallet_token_snapshot m n slot s) = capital_locks s"
  "resource_locks (apply_wallet_token_snapshot m n slot s) = resource_locks s"
  "free b (apply_wallet_token_snapshot m n slot s) = free b s"
  "hm_wf (available_tokens s) \<Longrightarrow> hm_wf (available_tokens (apply_wallet_token_snapshot m n slot s))"
  by (auto simp: apply_wallet_token_snapshot_def wallet_token_snapshot_stale_after_close_def Let_def
      mark_token_wallet_ata_present_def split: option.splits)

lemma wallet_step_cap_inv:
  assumes "wallet_step s t" "cap_inv s"
  shows "cap_inv t"
  using assms
proof (induction rule: wallet_step.induct)
  case (balances toks s sol)
  show ?case
  proof (rule cap_inv_reported [OF balances(2)])
    show "free b (update_balances sol toks s) = free b s \<or> (\<exists>w. free b (update_balances sol toks s)
        = saturating_sub w (assoc_total (held b) (capital_locks s)))" for b
      by (cases b) (auto simp: update_balances_def free_def sum_locked_native)
  qed (simp_all add: update_balances_def balances(1))
next
  case (token s mint n)
  show ?case by (rule cap_inv_reported [OF token]) (auto simp: cap_invD [OF token])
next
  case (token_add s mint n)
  show ?case
    by (rule cap_inv_reported [OF token_add]) (auto simp: add_available_token_balance_def Let_def cap_invD [OF token_add])
next
  case (wallet s sol wsol)
  show ?case
    by (rule cap_inv_reported [OF wallet])
      (auto simp: update_wallet_balances_def Let_def free_def sum_locked_native sum_locked_wsol
        cap_invD [OF wallet] split: option.splits)
next
  case (native s sol)
  show ?case
    by (rule cap_inv_reported [OF native])
      (auto simp: update_native_sol_only_def free_def sum_locked_native cap_invD [OF native])
next
  case (wsol s w)
  show ?case
    by (rule cap_inv_reported [OF wsol])
      (auto simp: update_wsol_only_def free_def sum_locked_wsol cap_invD [OF wsol])
next
  case (snapshot s mint n slot)
  show ?case by (rule cap_inv_reported [OF snapshot]) (auto simp: snapshot_fields cap_invD [OF snapshot])
next
  case (closed s mint slot)
  show ?case
    by (rule cap_inv_reported [OF closed])
      (auto simp: clear_token_wallet_presence_def cap_invD [OF closed] hm.invar_del)
next
  case (sell s i)
  then show ?case by (simp add: cap_inv_release)
qed

interpretation manager: transition_invariant manager_step cap_inv
  by unfold_locales (auto simp: lock_step_keeps wallet_step_cap_inv elim: manager_step.cases)

end
