(* ===== verification/Lock_Properties.thy ===== *)
theory Lock_Properties
  imports Lock_Safety
begin

text \<open>
  What the execution engine relies on from the lock manager, stated over the operations of
  \<open>Lock_Manager\<close> and the readings the code itself offers (\<open>total_native_sol\<close>,
  \<open>total_wsol_lamports\<close>, \<open>available_token_balance\<close>).
\<close>

lemma total_readings:
  assumes "cap_inv s"
  shows "unat (total_native_sol s) = bucket_total False s"
    "unat (total_wsol_lamports s) = bucket_total True s"
proof -
  have "unat (saturating_add (free b s) (assoc_total (held b) (capital_locks s))) = bucket_total b s"
    for b using cap_invD(4) [OF assms, of b] unat_locked [OF assms, of b]
    by (simp add: width_simps bucket_total_def)
  from this [of False] this [of True] show "unat (total_native_sol s) = bucket_total False s"
    "unat (total_wsol_lamports s) = bucket_total True s"
    by (simp_all add: total_native_sol_def total_wsol_lamports_def sum_locked_native sum_locked_wsol
        free_def)
qed

text \<open>
  C1. Capital is conserved: whatever interleaving of lock acquisitions, renewals, promotions,
  releases and expiries runs, total native SOL, total WSOL and the total of every token (free plus
  reserved) are what they were.
\<close>

theorem capital_conserved:
  assumes "cap_inv s" and "lock_step\<^sup>*\<^sup>* s t"
  shows "total_native_sol t = total_native_sol s \<and> total_wsol_lamports t = total_wsol_lamports s \<and>
         (\<forall>mint. available_token_balance mint t + sum_locked_token mint (capital_locks t)
               = available_token_balance mint s + sum_locked_token mint (capital_locks s))"
proof -
  have t: "cap_inv t" by (rule locks.path_inv [OF assms(2,1)])
  have am: "bucket_total True t = bucket_total True s" "bucket_total False t = bucket_total False s"
    "token_total m t = token_total m s" for m
    using locks.path_amount [OF assms(2,1)] by (simp_all add: fun_eq_iff)
  with total_readings [OF t] total_readings [OF assms(1)]
  have "total_native_sol t = total_native_sol s" "total_wsol_lamports t = total_wsol_lamports s"
    by (simp_all add: word_unat_eq_iff)
  with am(3) show ?thesis by (simp add: token_total_def)
qed

theorem capital_conserved_witness:
  "total_native_sol (fst (acquire_capital 0 False (lock_holder_new ''i1'') 40 [] None
     (lock_manager_new 100))) = 100"
proof -
  let ?s = "lock_manager_new 100"
  have "lock_step\<^sup>*\<^sup>* ?s (fst (acquire_capital 0 False (lock_holder_new ''i1'') 40 [] None ?s))"
    by (rule r_into_rtranclp) (rule lock_step.acquire, simp)
  from capital_conserved [OF cap_inv_new this] show ?thesis
    by (simp add: total_native_sol_def lock_manager_new_def sum_locked_native_sol_def
        saturating_add_def)
qed

text \<open>
  C2. No overbooking: once the chain reported a WSOL balance \<open>w\<close> that covers the open reservations,
  then after any interleaving of lock operations the reservations and what is still free add up to
  exactly \<open>w\<close>, without overflow. The next locks can only take what is free.
\<close>

theorem no_overbooking:
  assumes "cap_inv s" and "sum_locked_wsol_trading (capital_locks s) \<le> w"
    and "lock_step\<^sup>*\<^sup>* (update_wsol_only w s) t"
  shows "unat (available_wsol t)
       + assoc_total (\<lambda>l. if reserves_trading_wsol l then unat (sol_lamports l) else 0)
           (capital_locks t) = unat w"
proof -
  let ?u = "update_wsol_only w s"
  have u: "cap_inv ?u" by (rule wallet_step_cap_inv [OF wallet_step.wsol assms(1)])
  have "bucket_total True ?u
      = max (unat w) (assoc_total (\<lambda>l. unat (held True l)) (capital_locks s))"
    by (rule reported_bucket [OF assms(1)])
      (simp_all add: update_wsol_only_def free_def sum_locked_wsol)
  moreover have "assoc_total (\<lambda>l. unat (held True l)) (capital_locks s) \<le> unat w"
    using assms(2) unat_locked [OF assms(1), of True] by (simp add: sum_locked_wsol word_le_nat_alt)
  ultimately have "bucket_total True t = unat w"
    using locks.path_amount [OF assms(3) u] by simp
  moreover have "(\<lambda>l. unat (held True l))
      = (\<lambda>l. if reserves_trading_wsol l then unat (sol_lamports l) else 0)"
    by (auto simp: held_def)
  ultimately show ?thesis by (simp add: bucket_total_def free_def)
qed

theorem no_overbooking_witness:
  "unat (available_wsol (update_wsol_only 70 (lock_manager_new 5))) = 70"
  using no_overbooking [of "lock_manager_new 5" 70 "update_wsol_only 70 (lock_manager_new 5)"]
    cap_inv_new [of 5]
  by (simp add: lock_manager_new_def update_wsol_only_def sum_locked_wsol_trading_def)



text \<open>
  C4. A capital lock is granted exactly when, after expired locks are returned, the intent holds no
  lock yet, the bucket it draws on (WSOL for a pure buy once WSOL is tracked, else native SOL)
  covers the lamports and every requested token is free in full; otherwise nothing changes.
\<close>

theorem try_lock_capital_granted_iff:
  assumes "s1 = fst (cleanup_expired t0 s)"
    and "w = (toks = [] \<and> 0 < sol \<and> wsol_initialized s1)"
    and "try_lock_capital_with_ttl t0 t1 h sol toks ttl s = (s', res)"
  shows "(res = Acquired \<longleftrightarrow>
            hm_get (capital_locks s1) (intent_id h) = None \<and>
            sol \<le> (if w then available_wsol s1 else available_sol s1) \<and>
            (\<forall>(m, a) \<in> set toks. a \<le> available_token_balance m s1)) \<and>
         (res \<noteq> Acquired \<longrightarrow> s' = s1)"
proof -
  have acq: "acquire_capital t1 w h sol toks ttl s1 = (s', res)"
    using assms by (simp add: try_lock_capital_with_ttl_def Let_def)
  have "res = Acquired \<longleftrightarrow> hm_get (capital_locks s1) (intent_id h) = None \<and> sol \<le> free w s1 \<and>
      check_tokens toks (available_tokens s1) = None"
    using acq by (cases "sol = 0")
      (auto simp: acquire_capital_def Let_def free_def not_less not_le word_neq_0_conv
        split: if_splits option.splits prod.splits)
  moreover have "res \<noteq> Acquired \<Longrightarrow> s' = s1"
    using acq by (cases rule: acquire_capital_cases) auto
  ultimately show ?thesis
    by (simp add: check_tokens_None free_def available_token_balance_def)
qed

theorem try_lock_capital_granted_iff_witness:
  "snd (try_lock_capital_with_ttl 0 0 (lock_holder_new ''i1'') 60 [] None (lock_manager_new 100))
     = Acquired
   \<and> snd (try_lock_capital_with_ttl 0 0 (lock_holder_new ''i1'') 101 [] None (lock_manager_new 100))
     \<noteq> Acquired"
proof -
  have c: "fst (cleanup_expired 0 (lock_manager_new 100)) = lock_manager_new 100"
    by (simp add: cleanup_expired_def expire_capital_locks_def expire_resource_locks_def
        lock_manager_new_def)
  show ?thesis
    using try_lock_capital_granted_iff [OF c [symmetric] refl surjective_pairing,
        of 0 "lock_holder_new ''i1''" 60 "[]" None]
      try_lock_capital_granted_iff [OF c [symmetric] refl surjective_pairing,
        of 0 "lock_holder_new ''i1''" 101 "[]" None]
    by (simp add: lock_manager_new_def)
qed

text \<open>
  C5. Locking and releasing is a round trip: releasing the locks of an intent that just acquired
  capital gives back every lamport and every token, and leaves the other reservations alone.
\<close>

theorem lock_release_roundtrip:
  assumes "cap_inv s" and "hm_wf toks"
    and acq: "acquire_capital now w h sol toks ttl s = (s', Acquired)"
  shows "available_sol (release_locks (intent_id h) s') = available_sol s \<and>
         available_wsol (release_locks (intent_id h) s') = available_wsol s \<and>
         (\<forall>m. available_token_balance m (release_locks (intent_id h) s') = available_token_balance m s) \<and>
         hm_get (capital_locks (release_locks (intent_id h) s')) = hm_get (capital_locks s)"
  using acq
proof (cases rule: acquire_capital_cases)
  case (acquired lock)
  let ?r = "release_capital_lock_restore_tokens (intent_id h) True s'"
  have rel: "release_locks (intent_id h) s' = ?r\<lparr>resource_locks :=
      resource_locks (release_locks (intent_id h) s')\<rparr>"
    by (simp add: release_locks_def release_resource_locks_for_intent_def Let_def)
  have r: "?r = credit_lock lock True (s'\<lparr>capital_locks := hm_del (intent_id h) (capital_locks s')\<rparr>)"
    using acquired(12) by (simp add: release_capital_lock_restore_tokens_def update_conv')
  have "free b ?r = free b s" for b
    unfolding r using acquired(14) by simp
  from this [of False] this [of True]
  have "available_sol ?r = available_sol s" "available_wsol ?r = available_wsol s"
    by (simp_all add: free_def)
  moreover have "hm_get_or 0 (available_tokens ?r) m = hm_get_or 0 (available_tokens s) m" for m
    unfolding r using acquired(3,8,13) assms(2)
    by (simp add: hm_get_or_credit check_tokens_None hm_get_or_debit)
  moreover have "hm_get (capital_locks ?r) = hm_get (capital_locks s)"
    using acquired(2,12) by (auto simp: delete_conv' update_conv' fun_eq_iff)
  ultimately show ?thesis
    by (subst (1 2 3 4) rel) (simp add: available_token_balance_def)
qed simp

theorem lock_release_roundtrip_witness:
  "available_sol (release_locks ''i1'' (fst (acquire_capital 0 False (lock_holder_new ''i1'') 40 []
     None (lock_manager_new 100)))) = 100"
proof -
  let ?a = "acquire_capital 0 False (lock_holder_new ''i1'') 40 [] None (lock_manager_new 100)"
  have "?a = (fst ?a, Acquired)"
    by (simp add: acquire_capital_def lock_manager_new_def lock_holder_new_def)
  from lock_release_roundtrip [OF cap_inv_new _ this] show ?thesis
    by (simp add: lock_holder_new_def lock_manager_new_def)
qed

text \<open>
  C6. Reservations in flight are safe from expiry: the only critical section that touches the
  capital lock of an intent in flight is the release of that very intent; no clean-up at whatever
  instant, no acquisition, renewal or promotion removes or alters it.
\<close>

theorem in_flight_survives:
  assumes "cap_inv s" and "hm_get (capital_locks s) i = Some l" and "phase l = InFlight"
    and "lock_step s t" and "t \<noteq> release_capital_lock_restore_tokens i True s"
  shows "hm_get (capital_locks t) i = Some l"
  using assms(4)
proof (cases rule: lock_step.cases)
  case (acquire toks now w h sol ttl)
  obtain s' res where a: "acquire_capital now w h sol toks ttl s = (s', res)" by fastforce
  then show ?thesis
  proof (cases rule: acquire_capital_cases)
    case (acquired lock)
    with a acquire assms(2) show ?thesis by (auto simp: update_conv')
  qed (use a acquire assms(2) in simp)
next
  case (release j)
  with assms(2,5) show ?thesis by (auto simp: delete_conv')
next
  case (expire now)
  with expire_capital(4) [OF assms(1)] assms(2,3) show ?thesis by (simp add: capital_lock_expired_def)
next
  case (renew now j ttl)
  with assms(2,3) show ?thesis
    by (auto simp: renew_capital_lock_ttl_def update_conv' split: option.splits)
next
  case (in_flight j)
  with assms(2,3) show ?thesis
    by (auto simp: mark_in_flight_def update_conv' split: option.splits)
next
  case (acquire_res now h rid ty ttl)
  then show ?thesis using assms(2) acquire_resource_fields(1) by (metis prod.collapse)
qed (use assms(2) in \<open>simp_all add: release_resource_locks_for_intent_def expire_resource_locks_def
    mark_processed_def set_processed_intents_def mark_token_wallet_ata_present_def Let_def\<close>)

definition example_in_flight :: lock_manager where
  "example_in_flight = fst (mark_in_flight ''i1''
     (fst (acquire_capital 0 False (lock_holder_new ''i1'') 40 [] None (lock_manager_new 100))))"

lemma cap_inv_example_in_flight: "cap_inv example_in_flight"
  unfolding example_in_flight_def
  by (intro lock_step_keeps [THEN conjunct1, OF lock_step.in_flight]
      lock_step_keeps [THEN conjunct1, OF lock_step.acquire] cap_inv_new) simp

theorem in_flight_survives_witness:
  "hm_get (capital_locks (fst (expire_capital_locks 900000000000 example_in_flight))) ''i1''
     = hm_get (capital_locks example_in_flight) ''i1''
   \<and> hm_get (capital_locks example_in_flight) ''i1'' \<noteq> None"
proof -
  let ?s = "example_in_flight"
  obtain l where l: "hm_get (capital_locks ?s) ''i1'' = Some l" "phase l = InFlight"
    by (simp add: example_in_flight_def mark_in_flight_def acquire_capital_def lock_manager_new_def
        lock_holder_new_def)
  have "fst (expire_capital_locks 900000000000 ?s) \<noteq> release_capital_lock_restore_tokens ''i1'' True ?s"
    by (simp add: example_in_flight_def mark_in_flight_def acquire_capital_def lock_manager_new_def
        lock_holder_new_def expire_capital_locks_def capital_lock_expired_def
        release_capital_lock_restore_tokens_def credit_lock_def)
  from in_flight_survives [OF cap_inv_example_in_flight l lock_step.expire this] l
  show ?thesis by simp
qed

text \<open>
  Resource locks exclude each other by priority: a request against a lock held by another intent
  succeeds exactly when the requester has the strictly lower tier and the holder's source is not
  under starvation protection, and then names the preempted holder; otherwise the holder keeps the
  resource and nothing changes.
\<close>

theorem resource_preemption_iff:
  assumes "hm_get (resource_locks s) rid = Some existing"
    and "intent_id (rl_holder existing) \<noteq> intent_id h"
    and acq: "acquire_resource now h rid ty ttl s = (s', res)"
  shows "if tier h < tier (rl_holder existing) \<and>
            \<not> is_starved now (source_name (rl_holder existing)) (fairness s)
         then res = AcquiredByPreemption (rl_holder existing) \<and>
              map_option rl_holder (hm_get (resource_locks s') rid) = Some h \<and>
              (\<forall>r. r \<noteq> rid \<longrightarrow> hm_get (resource_locks s') r = hm_get (resource_locks s) r)
         else res = Conflict (rl_holder existing) \<and> s' = s"
proof -
  have "should_block_preemption now (source_name (rl_holder existing)) (source_name h) (fairness s)
      = is_starved now (source_name (rl_holder existing)) (fairness s)"
    by (simp add: should_block_preemption_def is_starved_def)
  with assms show ?thesis
    by (auto simp: acquire_resource_def insert_resource_lock_def Let_def update_conv'
        split: if_splits)
qed

theorem resource_preemption_iff_witness:
  "snd (acquire_resource 1 ((lock_holder_new ''b'')\<lparr>tier := 0\<rparr>) ''pool'' RPool None
     (fst (acquire_resource 0 (lock_holder_new ''a'') ''pool'' RPool None (lock_manager_new 0))))
   = AcquiredByPreemption (lock_holder_new ''a'')"
proof -
  let ?s = "fst (acquire_resource 0 (lock_holder_new ''a'') ''pool'' RPool None (lock_manager_new 0))"
  obtain e where e: "hm_get (resource_locks ?s) ''pool'' = Some e" "rl_holder e = lock_holder_new ''a''"
    by (simp add: acquire_resource_def insert_resource_lock_def lock_manager_new_def)
  have "\<not> is_starved 1 ''unknown'' (fairness ?s)"
    by (simp add: acquire_resource_def insert_resource_lock_def lock_manager_new_def
        fairness_new_def is_starved_def)
  with resource_preemption_iff [OF e(1) _ surjective_pairing,
      of "(lock_holder_new ''b'')\<lparr>tier := 0\<rparr>" 1 RPool None] e(2)
  show ?thesis by (simp add: lock_holder_new_def source_name_def)
qed

text \<open>
  A confirmed sale does not resurrect the sold tokens: releasing after it returns the lamports
  but leaves every free token balance as it was, so the total of a sold mint drops by what was
  reserved for the sale.
\<close>

theorem confirmed_sell_release:
  assumes "cap_inv s" and "hm_get (capital_locks s) i = Some l"
  shows "available_token_balance m (release_locks_after_confirmed_sell i s)
           = available_token_balance m s \<and>
         token_total m (release_locks_after_confirmed_sell i s)
           = token_total m s - hm_get_or 0 (tokens l) m \<and>
         total_native_sol (release_locks_after_confirmed_sell i s) = total_native_sol s \<and>
         total_wsol_lamports (release_locks_after_confirmed_sell i s) = total_wsol_lamports s"
proof -
  let ?r = "release_capital_lock_restore_tokens i False s"
  let ?t = "release_locks_after_confirmed_sell i s"
  have t: "?t = ?r\<lparr>resource_locks := resource_locks ?t\<rparr>"
    by (simp add: release_locks_after_confirmed_sell_def release_resource_locks_for_intent_def Let_def)
  have cl: "capital_locks ?t = hm_del i (capital_locks s)" by (subst t) simp
  have av: "available_tokens ?t = available_tokens s"
    by (subst t) (simp add: release_capital_lock_restore_tokens_def assms(2))
  have inv: "cap_inv ?t"
    unfolding release_locks_after_confirmed_sell_def
    by (rule lock_step_keeps [THEN conjunct1, OF lock_step.release_res cap_inv_release [OF assms(1)]])
  have "bucket_total b ?t = bucket_total b s" for b
    by (subst t) (simp only: resource_only(2) [OF cap_inv_release [OF assms(1)]]
        release_bucket [OF assms(1)])
  then have "total_native_sol ?t = total_native_sol s" "total_wsol_lamports ?t = total_wsol_lamports s"
    using total_readings [OF inv] total_readings [OF assms(1)] by (simp_all add: word_unat_eq_iff)
  moreover have "sum_locked_token m (capital_locks s)
      = hm_get_or 0 (tokens l) m + sum_locked_token m (hm_del i (capital_locks s))"
    unfolding sum_locked_token_total by (rule hm.total_del [OF cap_invD(1) [OF assms(1)] assms(2)])
  ultimately show ?thesis by (simp add: token_total_def available_token_balance_def cl av)
qed

theorem confirmed_sell_release_witness:
  "available_token_balance ''mint'' (release_locks_after_confirmed_sell ''i1'' example_in_flight) = 0"
proof -
  obtain l where l: "hm_get (capital_locks example_in_flight) ''i1'' = Some l"
    by (simp add: example_in_flight_def mark_in_flight_def acquire_capital_def lock_manager_new_def
        lock_holder_new_def)
  from confirmed_sell_release [OF cap_inv_example_in_flight l, of "''mint''"] show ?thesis
    by (simp add: available_token_balance_def example_in_flight_def mark_in_flight_def
        acquire_capital_def lock_manager_new_def lock_holder_new_def)
qed

fun apply_snapshots :: "string \<Rightarrow> (u64 \<times> u64) list \<Rightarrow> lock_manager \<Rightarrow> lock_manager" where
  "apply_snapshots mint [] s = s"
| "apply_snapshots mint ((amount, slot) # rest) s =
     apply_snapshots mint rest (apply_wallet_token_snapshot mint amount (Some slot) s)"

lemma snapshot_stale:
  assumes "hm_get (token_wallet_ata_cleared_at_slot s) mint = Some (Some c)" "slot \<le> c"
  shows "apply_wallet_token_snapshot mint n (Some slot) s = s"
  using assms by (simp add: apply_wallet_token_snapshot_def wallet_token_snapshot_stale_after_close_def)

lemma snapshots_stale:
  assumes "hm_get (token_wallet_ata_cleared_at_slot s) mint = Some (Some c)"
    and "\<forall>(n, slot) \<in> set snaps. slot \<le> c"
  shows "apply_snapshots mint snaps s = s"
  using assms by (induction mint snaps s rule: apply_snapshots.induct) (auto simp: snapshot_stale)

text \<open>
  A closed token account stays closed against old news: after a confirmed full close at slot
  \<open>c\<close>, any sequence of wallet snapshots of that mint from slots up to \<open>c\<close> is ignored, so the account
  is not reported as present again; a snapshot from a later slot is believed.
\<close>

theorem closed_account_ignores_stale_snapshots:
  assumes "\<forall>(n, slot) \<in> set snaps. slot \<le> c" and "c < later"
  shows "\<not> token_wallet_snapshot_seen mint
            (apply_snapshots mint snaps (clear_token_wallet_presence mint (Some c) s)) \<and>
         token_wallet_snapshot_seen mint
            (apply_wallet_token_snapshot mint n (Some later)
               (apply_snapshots mint snaps (clear_token_wallet_presence mint (Some c) s)))"
proof -
  let ?s = "clear_token_wallet_presence mint (Some c) s"
  have c: "hm_get (token_wallet_ata_cleared_at_slot ?s) mint = Some (Some c)"
    by (simp add: clear_token_wallet_presence_def update_conv')
  have "\<not> token_wallet_snapshot_seen mint ?s"
    by (simp add: token_wallet_snapshot_seen_def clear_token_wallet_presence_def
        available_token_balance_def hm_get_or_del)
  moreover have "token_wallet_snapshot_seen mint (apply_wallet_token_snapshot mint n (Some later) ?s)"
    using assms(2) c
    by (auto simp: apply_wallet_token_snapshot_def wallet_token_snapshot_stale_after_close_def
        token_wallet_snapshot_seen_def set_available_token_balance_def
        mark_token_wallet_ata_present_def Let_def)
  ultimately show ?thesis using snapshots_stale [OF c assms(1)] by simp
qed

theorem closed_account_ignores_stale_snapshots_witness:
  "\<not> token_wallet_snapshot_seen ''m''
      (apply_snapshots ''m'' [(5, 90), (7, 100)]
         (clear_token_wallet_presence ''m'' (Some 100) (lock_manager_new 0)))"
  using closed_account_ignores_stale_snapshots
    [of "[(5, 90), (7, 100)]" 100 101 "''m''" "lock_manager_new 0" 0] by simp

text \<open>
  A balance reported for one mint never counts reserved tokens as free: afterwards the free
  balance and the reservations of that mint together are exactly the reported amount whenever it
  covers the reservations, and nothing is free otherwise.
\<close>

theorem set_token_balance_nets_reservations:
  "(if sum_locked_token mint (capital_locks s) \<le> n
    then token_total mint (set_available_token_balance mint n s) = n
    else available_token_balance mint (set_available_token_balance mint n s) = 0) \<and>
   (m \<noteq> mint \<longrightarrow> token_total m (set_available_token_balance mint n s) = token_total m s)"
  by (auto simp: token_total_def available_token_balance_def set_available_token_balance_def
      Let_def hm_get_or_put saturating_sub_def not_less)

theorem set_token_balance_nets_reservations_witness:
  "token_total ''m'' (set_available_token_balance ''m'' 12 (lock_manager_new 0)) = 12"
  using set_token_balance_nets_reservations [of "''m''" "lock_manager_new 0" 12 "''x''"]
  by (simp add: lock_manager_new_def sum_locked_token_def)

text \<open>
  In contrast, the bulk refresh \<open>update_balances\<close> nets native SOL but installs the token map as
  given: a mint with an open reservation is then counted twice, and a later release credits the
  reserved amount on top of the reported balance.
\<close>

lemma update_balances_double_counts:
  "\<exists>s i m n. cap_inv s \<and> hm_get (capital_locks s) i \<noteq> None \<and>
     n < available_token_balance m (release_locks i (update_balances 0 [(m, n)] s))"
proof -
  let ?s0 = "update_balances 0 [(''m'', 10)] (lock_manager_new 0)"
  let ?s = "fst (acquire_capital 0 False (lock_holder_new ''i'') 0 [(''m'', 10)] None ?s0)"
  have "cap_inv ?s"
    by (rule lock_step_keeps [THEN conjunct1, OF lock_step.acquire
          wallet_step_cap_inv [OF wallet_step.balances cap_inv_new]]) simp_all
  moreover have "hm_get (capital_locks ?s) ''i'' \<noteq> None"
    by (simp add: acquire_capital_def update_balances_def lock_manager_new_def lock_holder_new_def
        hm_get_or_def Let_def)
  moreover have "10 < available_token_balance ''m'' (release_locks ''i'' (update_balances 0 [(''m'', 10)] ?s))"
    by (simp add: acquire_capital_def update_balances_def lock_manager_new_def lock_holder_new_def
        hm_get_or_def Let_def release_locks_def release_resource_locks_for_intent_def
        release_capital_lock_restore_tokens_def credit_lock_def available_token_balance_def)
  ultimately show ?thesis by blast
qed

end
