(* ===== verification/Ipc_Schema.thy ===== *)
theory Ipc_Schema
  imports Iron_Prelude
begin

text \<open>
  The message types of \<^verbatim>\<open>src/src/ipc/schema.rs\<close> that the modelled components exchange. A record
  keeps the fields some modelled operation reads; headers, signatures, latencies and other fields
  that are only logged are left out. Market events that carry no wallet balance are one
  constructor, \<open>OtherMarketEvent\<close>.
\<close>

definition native_sol_mint :: string where
  "native_sol_mint = ''So11111111111111111111111111111111111111112''"

record explicit_amount =
  amt_raw :: u64
  amt_decimals :: u8

datatype execution_status = Sent | Confirmed | Failed | Timeout

record execution_result =
  er_intent_id :: string
  er_source :: string
  token_mint :: "string option"
  er_status :: execution_status
  fill_in :: "explicit_amount option"
  fill_out :: "explicit_amount option"
  er_metadata :: "(string, string) hashmap"

datatype market_event_kind =
    MWalletBalanceSnapshot string u64 u8 string \<comment> \<open>mint, balance_raw, decimals, token_program\<close>
  | MWalletSnapshotComplete "string list" string bool \<comment> \<open>mints_in_wallet, wallet, is_periodic\<close>
  | OtherMarketEvent

datatype position_authority_status = PAOpen | PAClosed | PAReconcileNeeded

datatype position_authority_update_source = PAExecution | PAWalletSnapshot

record position_authority_snapshot =
  snap_mint :: string
  snap_balance_raw :: u64
  snap_decimals :: u8
  snap_status :: position_authority_status
  snap_last_update_source :: position_authority_update_source
  snap_sold_raw_total :: "u64 option"

datatype trade_side = Buy | Sell

record trade_resources =
  input_mint :: string
  output_mint :: string
  pools :: "string list"

record trade_intent =
  required_capital :: explicit_amount
  resources :: trade_resources
  max_slippage_bps :: u32
  side :: trade_side

end
