(* ===== verification/Position_Authority.thy ===== *)
theory Position_Authority
  imports Ipc_Schema
begin

text \<open>
  The position reducer (\<^verbatim>\<open>src/src/position_authority/state.rs\<close>) and the publication of its changes
  to the JetStream key-value bucket (\<^verbatim>\<open>kv_publish.rs\<close>). The reducer folds confirmed fills and wallet
  snapshots into one state per mint and emits a change per touched mint. The bucket itself is an
  external service: its put and delete are arguments of the publication, and what is relied on
  is the named hypothesis \<open>kv_laws\<close>.
\<close>

section \<open>Data\<close>

datatype position_status = Open | Closed | ReconcileNeeded

datatype update_source = Execution | WalletSnapshot

record position_state =
  ps_mint :: string
  balance_raw :: u64
  decimals :: u8
  token_program :: string
  ata :: "string option"
  buy_fills :: "u64 list"
  sold_raw_total :: u64
  status :: position_status
  last_update_source :: update_source
  last_execution_unix_secs :: "u64 option"

datatype position_event =
    BuyConfirmed string u64 u8 string "string option"
  | SellConfirmed string u64 u8 string
  | WalletBalanceSnapshot string u64 u8 string
  | WalletSnapshotComplete string "string list" bool

datatype position_authority_change =
    Put position_authority_snapshot
  | Tombstone string

type_synonym position_authority = "(string, position_state) btreemap"

definition ghost_cleanup_grace_secs :: u64 where
  "ghost_cleanup_grace_secs = 90"

definition default_spl_token_program :: string where
  "default_spl_token_program = ''TokenkegQfeZyiNwAJbNbGKPFXCWuBvf9Ss623VQ5DA''"

definition is_sol_or_wsol_mint :: "string \<Rightarrow> bool" where
  "is_sol_or_wsol_mint mint \<longleftrightarrow> mint = ''NATIVE_SOL'' \<or> mint = native_sol_mint"

section \<open>Events from messages\<close>

definition try_from_execution_result :: "execution_result \<Rightarrow> position_event option" where
  "try_from_execution_result r =
     (if er_status r \<noteq> Confirmed then None
      else case token_mint r of None \<Rightarrow> None | Some mint \<Rightarrow>
        if is_sol_or_wsol_mint mint then None
        else case hm_get (er_metadata r) ''side'' of None \<Rightarrow> None | Some sd \<Rightarrow>
          if sd = ''BUY'' then
            (case fill_out r of None \<Rightarrow> None | Some fo \<Rightarrow>
               Some (BuyConfirmed mint (amt_raw fo) (amt_decimals fo)
                 (hm_get_or default_spl_token_program (er_metadata r) ''token_program'')
                 (hm_get (er_metadata r) ''token_account'')))
          else if sd = ''SELL'' then
            (case fill_in r of None \<Rightarrow> None | Some fi \<Rightarrow>
               Some (SellConfirmed mint (amt_raw fi) (amt_decimals fi)
                 (hm_get_or default_spl_token_program (er_metadata r) ''token_program'')))
          else None)"

fun try_from_market_event_kind :: "market_event_kind \<Rightarrow> position_event option" where
  "try_from_market_event_kind (MWalletBalanceSnapshot mint bal decs prog) =
     (if is_sol_or_wsol_mint mint then None else Some (WalletBalanceSnapshot mint bal decs prog))"
| "try_from_market_event_kind (MWalletSnapshotComplete mints wallet periodic) =
     Some (WalletSnapshotComplete wallet mints periodic)"
| "try_from_market_event_kind OtherMarketEvent = None"

section \<open>Snapshots\<close>

fun to_snapshot_status :: "position_status \<Rightarrow> position_authority_status" where
  "to_snapshot_status Open = PAOpen"
| "to_snapshot_status Closed = PAClosed"
| "to_snapshot_status ReconcileNeeded = PAReconcileNeeded"

fun to_snapshot_source :: "update_source \<Rightarrow> position_authority_update_source" where
  "to_snapshot_source Execution = PAExecution"
| "to_snapshot_source WalletSnapshot = PAWalletSnapshot"

definition to_snapshot :: "position_state \<Rightarrow> position_authority_snapshot" where
  "to_snapshot p =
     \<lparr>snap_mint = ps_mint p, snap_balance_raw = balance_raw p, snap_decimals = decimals p,
      snap_status = to_snapshot_status (status p),
      snap_last_update_source = to_snapshot_source (last_update_source p),
      snap_sold_raw_total = (if 0 < sold_raw_total p then Some (sold_raw_total p) else None)\<rparr>"

definition snapshot_counts_as_open_position :: "position_authority_snapshot \<Rightarrow> bool" where
  "snapshot_counts_as_open_position snap \<longleftrightarrow>
     0 < snap_balance_raw snap \<and> snap_status snap \<noteq> PAClosed"

definition open_positions_count_from_kv_snapshots :: "position_authority_snapshot list \<Rightarrow> nat" where
  "open_positions_count_from_kv_snapshots snaps =
     length (filter snapshot_counts_as_open_position snaps)"

definition position_authority_drift_ee_vs_kv :: "nat \<Rightarrow> nat \<Rightarrow> int" where
  "position_authority_drift_ee_vs_kv ee_open kv_open = int ee_open - int kv_open"

section \<open>The reducer\<close>

definition fresh_position :: "string \<Rightarrow> u8 \<Rightarrow> string \<Rightarrow> position_state" where
  \<comment> \<open>the value \<open>or_insert_with\<close> builds for an unknown mint\<close>
  "fresh_position mint decs prog =
     \<lparr>ps_mint = mint, balance_raw = 0, decimals = decs, token_program = prog, ata = None,
      buy_fills = [], sold_raw_total = 0, status = Closed, last_update_source = Execution,
      last_execution_unix_secs = None\<rparr>"

definition position_entry ::
    "string \<Rightarrow> u8 \<Rightarrow> string \<Rightarrow> position_authority \<Rightarrow> position_state" where
  "position_entry mint decs prog pa =
     (case map_of pa mint of None \<Rightarrow> fresh_position mint decs prog | Some p \<Rightarrow> p)"

definition change_for_mint :: "position_authority \<Rightarrow> string \<Rightarrow> position_authority_change" where
  "change_for_mint pa mint =
     (case map_of pa mint of Some p \<Rightarrow> Put (to_snapshot p) | None \<Rightarrow> Tombstone mint)"

definition buy_position ::
    "u64 \<Rightarrow> u64 \<Rightarrow> u8 \<Rightarrow> string \<Rightarrow> string option \<Rightarrow> position_state \<Rightarrow> position_state" where
  "buy_position now fill decs prog acct e =
     (let e1 = e\<lparr>decimals := decs, token_program := prog,
                 ata := (case acct of Some a \<Rightarrow> Some a | None \<Rightarrow> ata e),
                 last_execution_unix_secs := Some now,
                 buy_fills := buy_fills e @ [fill],
                 balance_raw := saturating_add (balance_raw e) fill\<rparr>
      in e1\<lparr>status := (if balance_raw e1 = 0 then Closed else Open),
            last_update_source := Execution\<rparr>)"

definition sell_position :: "u64 \<Rightarrow> u64 \<Rightarrow> u8 \<Rightarrow> string \<Rightarrow> position_state \<Rightarrow> position_state" where
  "sell_position now sold decs prog e =
     (let e1 = e\<lparr>decimals := decs, token_program := prog, last_execution_unix_secs := Some now,
                 sold_raw_total := saturating_add (sold_raw_total e) sold\<rparr>;
          new_bal = saturating_sub (balance_raw e1) sold;
          e2 = (if balance_raw e1 < sold
                then e1\<lparr>status := ReconcileNeeded, balance_raw := 0\<rparr>
                else e1\<lparr>balance_raw := new_bal, status := (if new_bal = 0 then Closed else Open)\<rparr>)
      in e2\<lparr>last_update_source := Execution\<rparr>)"

definition apply_buy :: "u64 \<Rightarrow> string \<Rightarrow> u64 \<Rightarrow> u8 \<Rightarrow> string \<Rightarrow> string option \<Rightarrow> position_authority
    \<Rightarrow> position_authority \<times> position_authority_change list" where
  "apply_buy now mint fill decs prog acct pa =
     (let e = position_entry mint decs prog pa;
          pa' = bt_put mint (buy_position now fill decs prog acct e) pa
      in (pa', [change_for_mint pa' mint]))"

definition apply_sell :: "u64 \<Rightarrow> string \<Rightarrow> u64 \<Rightarrow> u8 \<Rightarrow> string \<Rightarrow> position_authority
    \<Rightarrow> position_authority \<times> position_authority_change list" where
  "apply_sell now mint sold decs prog pa =
     (let e = position_entry mint decs prog pa;
          pa' = bt_put mint (sell_position now sold decs prog e) pa
      in (pa', [change_for_mint pa' mint]))"

definition apply_wallet_snapshot :: "string \<Rightarrow> u64 \<Rightarrow> u8 \<Rightarrow> string \<Rightarrow> position_authority
    \<Rightarrow> position_authority \<times> position_authority_change list" where
  "apply_wallet_snapshot mint bal decs prog pa =
     (if bal = 0 then (AList.delete mint pa, [Tombstone mint])
      else
        let p = (case map_of pa mint of
                   Some e \<Rightarrow>
                     let e1 = e\<lparr>decimals := decs, token_program := prog,
                                last_update_source := WalletSnapshot\<rparr>
                     in if balance_raw e = bal then e1\<lparr>status := Open\<rparr>
                        else e1\<lparr>balance_raw := bal, status := ReconcileNeeded\<rparr>
                 | None \<Rightarrow>
                     (fresh_position mint decs prog)\<lparr>balance_raw := bal, status := ReconcileNeeded,
                        last_update_source := WalletSnapshot\<rparr>);
            pa' = bt_put mint p pa
        in (pa', [change_for_mint pa' mint]))"

definition ghost_eligible_after_snapshot_complete :: "u64 \<Rightarrow> position_state \<Rightarrow> bool" where
  "ghost_eligible_after_snapshot_complete now_secs p =
     (case last_execution_unix_secs p of
        Some t \<Rightarrow> ghost_cleanup_grace_secs \<le> saturating_sub now_secs t
      | None \<Rightarrow> True)"

definition is_ghost :: "u64 \<Rightarrow> string list \<Rightarrow> string \<Rightarrow> position_state \<Rightarrow> bool" where
  \<comment> \<open>the filter of \<open>apply_wallet_snapshot_complete\<close>\<close>
  "is_ghost now_secs mints_in_wallet mint p \<longleftrightarrow>
     0 < balance_raw p \<and> \<not> is_sol_or_wsol_mint mint \<and> mint \<notin> set mints_in_wallet \<and>
     ghost_eligible_after_snapshot_complete now_secs p"

definition apply_wallet_snapshot_complete :: "u64 \<Rightarrow> string list \<Rightarrow> position_authority
    \<Rightarrow> position_authority \<times> position_authority_change list" where
  "apply_wallet_snapshot_complete now_secs mints_in_wallet pa =
     (let ghosts = map fst (filter (\<lambda>(mint, p). is_ghost now_secs mints_in_wallet mint p) pa)
      in (fold AList.delete ghosts pa, map Tombstone ghosts))"

fun pa_apply :: "u64 \<Rightarrow> position_event \<Rightarrow> position_authority
    \<Rightarrow> position_authority \<times> position_authority_change list" where
  "pa_apply now (BuyConfirmed mint fill decs prog acct) pa = apply_buy now mint fill decs prog acct pa"
| "pa_apply now (SellConfirmed mint sold decs prog) pa = apply_sell now mint sold decs prog pa"
| "pa_apply now (WalletBalanceSnapshot mint bal decs prog) pa = apply_wallet_snapshot mint bal decs prog pa"
| "pa_apply now (WalletSnapshotComplete wallet mints periodic) pa =
     apply_wallet_snapshot_complete now mints pa"

definition apply_from_confirmed_execution_result :: "u64 \<Rightarrow> execution_result \<Rightarrow> position_authority
    \<Rightarrow> position_authority \<times> position_authority_change list" where
  "apply_from_confirmed_execution_result now r pa =
     (case try_from_execution_result r of Some ev \<Rightarrow> pa_apply now ev pa | None \<Rightarrow> (pa, []))"

definition apply_from_wallet_market_event_kind :: "u64 \<Rightarrow> market_event_kind \<Rightarrow> position_authority
    \<Rightarrow> position_authority \<times> position_authority_change list" where
  "apply_from_wallet_market_event_kind now k pa =
     (case try_from_market_event_kind k of Some ev \<Rightarrow> pa_apply now ev pa | None \<Rightarrow> (pa, []))"

definition open_positions_count :: "position_authority \<Rightarrow> nat" where
  "open_positions_count pa = assoc_count (\<lambda>p. 0 < balance_raw p) pa"

definition reconcile_needed_positions_count :: "position_authority \<Rightarrow> nat" where
  "reconcile_needed_positions_count pa =
     assoc_count (\<lambda>p. 0 < balance_raw p \<and> status p = ReconcileNeeded) pa"

definition tracked_mints :: "position_authority \<Rightarrow> string list" where
  "tracked_mints pa = map fst pa"

definition tradable_balance_raw :: "position_authority \<Rightarrow> string \<Rightarrow> u64 option" where
  "tradable_balance_raw pa mint =
     (case map_of pa mint of
        None \<Rightarrow> None
      | Some p \<Rightarrow> if status p = Closed then Some 0 else Some (balance_raw p))"

section \<open>Publication\<close>

fun publish_position_authority_changes_to_kv ::
    "(string \<Rightarrow> position_authority_snapshot \<Rightarrow> 'kv \<Rightarrow> 'e + 'kv) \<Rightarrow> (string \<Rightarrow> 'kv \<Rightarrow> 'e + 'kv)
     \<Rightarrow> position_authority_change list \<Rightarrow> 'kv \<Rightarrow> 'kv \<times> 'e option" where
  \<comment> \<open>a failed put aborts the batch, a failed delete is only logged\<close>
  "publish_position_authority_changes_to_kv kv_put kv_delete [] store = (store, None)"
| "publish_position_authority_changes_to_kv kv_put kv_delete (Put snapshot # rest) store =
     (case kv_put (snap_mint snapshot) snapshot store of
        Inl e \<Rightarrow> (store, Some e)
      | Inr store' \<Rightarrow> publish_position_authority_changes_to_kv kv_put kv_delete rest store')"
| "publish_position_authority_changes_to_kv kv_put kv_delete (Tombstone mint # rest) store =
     (case kv_delete mint store of
        Inl e \<Rightarrow> publish_position_authority_changes_to_kv kv_put kv_delete rest store
      | Inr store' \<Rightarrow> publish_position_authority_changes_to_kv kv_put kv_delete rest store')"

fun is_snapshot_complete :: "market_event_kind \<Rightarrow> bool" where
  "is_snapshot_complete (MWalletSnapshotComplete _ _ _) = True"
| "is_snapshot_complete _ = False"

definition wallet_bootstrap_allows_pa_kv_tombstone_sweep :: "market_event_kind list \<Rightarrow> bool" where
  "wallet_bootstrap_allows_pa_kv_tombstone_sweep kinds \<longleftrightarrow> list_ex is_snapshot_complete kinds"

fun apply_kinds :: "u64 \<Rightarrow> market_event_kind list \<Rightarrow> position_authority
    \<Rightarrow> position_authority \<times> position_authority_change list" where
  \<comment> \<open>the loop over the wallet snapshot kinds at start-up\<close>
  "apply_kinds now [] pa = (pa, [])"
| "apply_kinds now (k # ks) pa =
     (let (pa1, cs) = apply_from_wallet_market_event_kind now k pa;
          (pa2, ds) = apply_kinds now ks pa1
      in (pa2, cs @ ds))"

definition reconcile_position_authority_kv_after_restart ::
    "(string \<Rightarrow> position_authority_snapshot \<Rightarrow> 'kv \<Rightarrow> 'e + 'kv) \<Rightarrow> (string \<Rightarrow> 'kv \<Rightarrow> 'e + 'kv)
     \<Rightarrow> ('kv \<Rightarrow> string list) \<Rightarrow> u64 \<Rightarrow> market_event_kind list \<Rightarrow> position_authority \<Rightarrow> 'kv
     \<Rightarrow> position_authority \<times> 'kv \<times> 'e option" where
  "reconcile_position_authority_kv_after_restart kv_put kv_delete kv_keys now kinds pa store =
     (let (pa', changes) = apply_kinds now kinds pa;
          tracked = set (tracked_mints pa');
          changes' = (if wallet_bootstrap_allows_pa_kv_tombstone_sweep kinds
                      then changes @ map Tombstone (filter (\<lambda>m. m \<notin> tracked) (kv_keys store))
                      else changes);
          (store', err) = publish_position_authority_changes_to_kv kv_put kv_delete changes' store
      in (pa', store', err))"

section \<open>The position manager process\<close>

text \<open>
  The reducer behind its mutex, the unbounded FIFO channel to the publisher task, and the bucket.
\<close>

record 'kv position_manager =
  pm_authority :: position_authority
  pm_queue :: "position_authority_change list list"
  pm_bucket :: 'kv

definition kv_enqueue :: "position_authority_change list \<Rightarrow> 'kv position_manager \<Rightarrow> 'kv position_manager" where
  "kv_enqueue changes pm = (if changes = [] then pm else pm\<lparr>pm_queue := pm_queue pm @ [changes]\<rparr>)"

definition pm_apply_execution_result ::
    "u64 \<Rightarrow> execution_result \<Rightarrow> 'kv position_manager \<Rightarrow> 'kv position_manager" where
  "pm_apply_execution_result now exec pm =
     (if er_status exec \<noteq> Confirmed then pm
      else let (pa', changes) = apply_from_confirmed_execution_result now exec (pm_authority pm)
           in kv_enqueue changes (pm\<lparr>pm_authority := pa'\<rparr>))"

definition pm_apply_wallet_event_kind ::
    "u64 \<Rightarrow> market_event_kind \<Rightarrow> 'kv position_manager \<Rightarrow> 'kv position_manager" where
  "pm_apply_wallet_event_kind now k pm =
     (let (pa', changes) = apply_from_wallet_market_event_kind now k (pm_authority pm)
      in kv_enqueue changes (pm\<lparr>pm_authority := pa'\<rparr>))"

definition kv_publisher_recv ::
    "(string \<Rightarrow> position_authority_snapshot \<Rightarrow> 'kv \<Rightarrow> 'e + 'kv) \<Rightarrow> (string \<Rightarrow> 'kv \<Rightarrow> 'e + 'kv)
     \<Rightarrow> 'kv position_manager \<Rightarrow> 'kv position_manager" where
  \<comment> \<open>one turn of the publisher task: take the oldest batch and write it\<close>
  "kv_publisher_recv kv_put kv_delete pm =
     (case pm_queue pm of
        [] \<Rightarrow> pm
      | changes # rest \<Rightarrow>
          pm\<lparr>pm_queue := rest,
             pm_bucket := fst (publish_position_authority_changes_to_kv kv_put kv_delete changes
                                 (pm_bucket pm))\<rparr>)"

end
