(* ===== verification/Position_Refinement.thy ===== *)
theory Position_Refinement
  imports Position_Authority
begin

text \<open>
  The abstract view of the reducer is a map from mints to published snapshots. Every event refines
  an update of that view, so a bucket that applies the emitted changes in order shows exactly the
  view once the queue is drained; the restart sweep re-establishes it from any stale bucket.
\<close>

section \<open>Invariant of the reducer\<close>

definition position_ok :: "position_state \<Rightarrow> bool" where
  "position_ok p \<longleftrightarrow> (status p = Open \<longrightarrow> 0 < balance_raw p) \<and> (status p = Closed \<longrightarrow> balance_raw p = 0)"

definition pa_inv :: "position_authority \<Rightarrow> bool" where
  "pa_inv pa \<longleftrightarrow> bt_wf pa \<and>
     (\<forall>k p. map_of pa k = Some p \<longrightarrow> ps_mint p = k \<and> position_ok p)"

lemma pa_inv_Nil: "pa_inv []"
  by (simp add: pa_inv_def bt_wf_def)

lemma pa_inv_put:
  "pa_inv pa \<Longrightarrow> ps_mint p = k \<Longrightarrow> position_ok p \<Longrightarrow> pa_inv (bt_put k p pa)"
  by (auto simp: pa_inv_def bt_wf_put map_of_bt_put split: if_splits)

lemma pa_inv_entry: "pa_inv pa \<Longrightarrow> ps_mint (position_entry m d g pa) = m"
  by (auto simp: pa_inv_def position_entry_def fresh_position_def split: option.splits)

lemma map_of_fold_delete: "map_of (fold AList.delete ks m) k = (if k \<in> set ks then None else map_of m k)"
  by (induction ks arbitrary: m) (auto simp: delete_conv')

lemma bt_wf_fold_delete: "bt_wf m \<Longrightarrow> bt_wf (fold AList.delete ks m)"
  by (induction ks arbitrary: m) (auto intro: bt_wf_delete)

lemma buy_position_ok: "position_ok (buy_position now fill d g acct e)"
  and buy_position_mint: "ps_mint (buy_position now fill d g acct e) = ps_mint e"
  by (simp_all add: buy_position_def position_ok_def Let_def word_neq_0_conv)

lemma sell_position_ok: "position_ok (sell_position now sold d g e)"
  and sell_position_mint: "ps_mint (sell_position now sold d g e) = ps_mint e"
  by (simp_all add: sell_position_def position_ok_def Let_def word_neq_0_conv)

lemma pa_inv_wallet_snapshot:
  assumes "pa_inv pa"
  shows "pa_inv (fst (apply_wallet_snapshot mint bal d g pa))"
proof (cases "bal = 0")
  case True
  with assms show ?thesis
    by (auto simp: apply_wallet_snapshot_def pa_inv_def bt_wf_delete delete_conv' split: if_splits)
next
  case False
  then have b: "0 < bal" by (simp add: word_neq_0_conv)
  have m: "map_of pa mint = Some e \<Longrightarrow> ps_mint e = mint" for e
    using assms by (simp add: pa_inv_def)
  show ?thesis
    unfolding apply_wallet_snapshot_def Let_def if_not_P [OF False] fst_conv
    by (rule pa_inv_put [OF assms])
      (auto simp: m b position_ok_def fresh_position_def Let_def split: option.split)
qed

lemma pa_inv_apply: "pa_inv pa \<Longrightarrow> pa_inv (fst (pa_apply now ev pa))"
proof (cases ev)
  case (WalletSnapshotComplete w mints b)
  then show "pa_inv pa \<Longrightarrow> ?thesis"
    by (auto simp: apply_wallet_snapshot_complete_def Let_def pa_inv_def bt_wf_fold_delete
        map_of_fold_delete split: if_splits)
qed (auto simp: apply_buy_def apply_sell_def Let_def buy_position_ok buy_position_mint
    sell_position_ok sell_position_mint pa_inv_entry pa_inv_wallet_snapshot intro!: pa_inv_put)

section \<open>Changes as updates of the view\<close>

definition kv_of :: "position_authority \<Rightarrow> string \<Rightarrow> position_authority_snapshot option" where
  "kv_of pa = (\<lambda>m. map_option to_snapshot (map_of pa m))"

fun change_mint :: "position_authority_change \<Rightarrow> string" where
  "change_mint (Put snap) = snap_mint snap"
| "change_mint (Tombstone m) = m"

fun change_effect :: "position_authority_change \<Rightarrow> (string \<rightharpoonup> position_authority_snapshot)
    \<Rightarrow> (string \<rightharpoonup> position_authority_snapshot)" where
  "change_effect (Put snap) v = v(snap_mint snap \<mapsto> snap)"
| "change_effect (Tombstone m) v = v(m := None)"

text \<open>What a list of changes must do to follow the reducer from \<open>pa\<close> to \<open>pa'\<close>.\<close>

definition follows ::
    "position_authority \<Rightarrow> position_authority \<Rightarrow> position_authority_change list \<Rightarrow> bool" where
  "follows pa pa' cs \<longleftrightarrow>
     (\<forall>v m. fold change_effect cs v m = (if m \<in> change_mint ` set cs then kv_of pa' m else v m)) \<and>
     (\<forall>m. m \<notin> change_mint ` set cs \<longrightarrow> kv_of pa' m = kv_of pa m)"

lemma follows_fold: "follows pa pa' cs \<Longrightarrow> fold change_effect cs (kv_of pa) = kv_of pa'"
  by (auto simp: follows_def fun_eq_iff)

lemma follows_refl: "follows pa pa []"
  by (simp add: follows_def)

lemma follows_append:
  assumes "follows pa pa1 cs" "follows pa1 pa2 ds"
  shows "follows pa pa2 (cs @ ds)"
  using assms unfolding follows_def by (auto simp: image_Un)

lemma change_mint_for: "pa_inv pa \<Longrightarrow> change_mint (change_for_mint pa m) = m"
  by (auto simp: change_for_mint_def pa_inv_def to_snapshot_def split: option.splits)

lemma change_effect_for:
  "pa_inv pa \<Longrightarrow> change_effect (change_for_mint pa m) v = v(m := kv_of pa m)"
  by (auto simp: change_for_mint_def pa_inv_def kv_of_def to_snapshot_def split: option.splits)

lemma follows_put:
  assumes "pa_inv (bt_put m p pa)"
  shows "follows pa (bt_put m p pa) [change_for_mint (bt_put m p pa) m]"
  using assms
  by (auto simp: follows_def change_mint_for change_effect_for kv_of_def map_of_bt_put)

lemma fold_tombstones:
  "fold change_effect (map Tombstone ks) v m = (if m \<in> set ks then None else v m)"
  by (induction ks arbitrary: v) auto

lemma follows_delete: "follows pa (fold AList.delete ks pa) (map Tombstone ks)"
  by (simp add: follows_def fold_tombstones kv_of_def map_of_fold_delete image_image)

lemma pa_apply_follows:
  assumes "pa_inv pa"
  shows "follows pa (fst (pa_apply now ev pa)) (snd (pa_apply now ev pa))"
proof (cases ev)
  case (BuyConfirmed m fill d g acct)
  with pa_inv_apply [OF assms, of now ev] show ?thesis
    by (auto simp: apply_buy_def Let_def intro: follows_put)
next
  case (SellConfirmed m sold d g)
  with pa_inv_apply [OF assms, of now ev] show ?thesis
    by (auto simp: apply_sell_def Let_def intro: follows_put)
next
  case (WalletBalanceSnapshot m bal d g)
  with pa_inv_apply [OF assms, of now ev] follows_delete [of pa "[m]"] show ?thesis
    by (auto simp: apply_wallet_snapshot_def Let_def intro: follows_put split: if_splits)
next
  case (WalletSnapshotComplete w mints b)
  then show ?thesis
    by (simp only: pa_apply.simps apply_wallet_snapshot_complete_def Let_def fst_conv snd_conv
        follows_delete)
qed

section \<open>The bucket\<close>

text \<open>
  What is relied on from the bucket: a put succeeds and stores the value under its key; a delete
  removes the key, or fails on a key that is not there.
\<close>

definition kv_laws :: "('kv \<Rightarrow> string \<rightharpoonup> position_authority_snapshot)
    \<Rightarrow> (string \<Rightarrow> position_authority_snapshot \<Rightarrow> 'kv \<Rightarrow> 'e + 'kv) \<Rightarrow> (string \<Rightarrow> 'kv \<Rightarrow> 'e + 'kv) \<Rightarrow> bool" where
  "kv_laws view kv_put kv_delete \<longleftrightarrow>
     (\<forall>k v st. \<exists>st'. kv_put k v st = Inr st' \<and> view st' = (view st)(k \<mapsto> v)) \<and>
     (\<forall>k st. case kv_delete k st of Inr st' \<Rightarrow> view st' = (view st)(k := None)
                                  | Inl e \<Rightarrow> view st k = None)"

lemma publish_view:
  assumes "kv_laws view kv_put kv_delete"
  shows "view (fst (publish_position_authority_changes_to_kv kv_put kv_delete cs st))
       = fold change_effect cs (view st)
     \<and> snd (publish_position_authority_changes_to_kv kv_put kv_delete cs st) = None"
proof (induction cs arbitrary: st)
  case (Cons c cs)
  show ?case
  proof (cases c)
    case (Put snap)
    moreover obtain st' where "kv_put (snap_mint snap) snap st = Inr st'"
      "view st' = (view st)(snap_mint snap \<mapsto> snap)"
      using assms unfolding kv_laws_def by blast
    ultimately show ?thesis using Cons.IH [of st'] by (simp add: fun_upd_def)
  next
    case (Tombstone m)
    have "case kv_delete m st of Inr st' \<Rightarrow> view st' = (view st)(m := None) | Inl e \<Rightarrow> view st m = None"
      using assms by (simp add: kv_laws_def)
    then show ?thesis
      using Tombstone Cons.IH by (auto simp: fun_upd_idem split: sum.splits)
  qed
qed simp

section \<open>Reaching the bucket\<close>

lemma apply_exec_follows:
  "pa_inv pa \<Longrightarrow> follows pa (fst (apply_from_confirmed_execution_result now r pa))
     (snd (apply_from_confirmed_execution_result now r pa))"
  by (auto simp: apply_from_confirmed_execution_result_def follows_refl pa_apply_follows
      split: option.splits)

lemma apply_wallet_follows:
  "pa_inv pa \<Longrightarrow> follows pa (fst (apply_from_wallet_market_event_kind now k pa))
     (snd (apply_from_wallet_market_event_kind now k pa))"
  by (auto simp: apply_from_wallet_market_event_kind_def follows_refl pa_apply_follows
      split: option.splits)

lemma pa_inv_exec: "pa_inv pa \<Longrightarrow> pa_inv (fst (apply_from_confirmed_execution_result now r pa))"
  by (auto simp: apply_from_confirmed_execution_result_def pa_inv_apply split: option.splits)

lemma pa_inv_wallet: "pa_inv pa \<Longrightarrow> pa_inv (fst (apply_from_wallet_market_event_kind now k pa))"
  by (auto simp: apply_from_wallet_market_event_kind_def pa_inv_apply split: option.splits)

inductive pm_step :: "(string \<Rightarrow> position_authority_snapshot \<Rightarrow> 'kv \<Rightarrow> 'e + 'kv)
    \<Rightarrow> (string \<Rightarrow> 'kv \<Rightarrow> 'e + 'kv) \<Rightarrow> 'kv position_manager \<Rightarrow> 'kv position_manager \<Rightarrow> bool"
  for kv_put kv_delete where
  exec: "pm_step kv_put kv_delete pm (pm_apply_execution_result now r pm)"
| wallet: "pm_step kv_put kv_delete pm (pm_apply_wallet_event_kind now k pm)"
| publish: "pm_step kv_put kv_delete pm (kv_publisher_recv kv_put kv_delete pm)"

text \<open>The bucket with the queued batches applied shows the reducer's view.\<close>

definition pm_inv ::
    "('kv \<Rightarrow> string \<rightharpoonup> position_authority_snapshot) \<Rightarrow> 'kv position_manager \<Rightarrow> bool" where
  "pm_inv view pm \<longleftrightarrow> pa_inv (pm_authority pm) \<and>
     fold change_effect (concat (pm_queue pm)) (view (pm_bucket pm)) = kv_of (pm_authority pm)"

lemma pm_inv_enqueue:
  assumes "pm_inv view pm" "pa_inv pa'" "follows (pm_authority pm) pa' cs"
  shows "pm_inv view (kv_enqueue cs (pm\<lparr>pm_authority := pa'\<rparr>))"
  using assms follows_fold [OF assms(3)] by (auto simp: pm_inv_def kv_enqueue_def)

lemma pm_step_inv:
  assumes laws: "kv_laws view kv_put kv_delete"
    and inv: "pm_inv view pm" and step: "pm_step kv_put kv_delete pm pm'"
  shows "pm_inv view pm'"
  using step
proof (cases rule: pm_step.cases)
  case (exec now r)
  have "pm_inv view (kv_enqueue (snd (apply_from_confirmed_execution_result now r (pm_authority pm)))
      (pm\<lparr>pm_authority := fst (apply_from_confirmed_execution_result now r (pm_authority pm))\<rparr>))"
    using inv by (intro pm_inv_enqueue) (auto simp: pm_inv_def pa_inv_exec apply_exec_follows)
  with inv exec show ?thesis by (simp add: pm_apply_execution_result_def case_prod_beta)
next
  case (wallet now k)
  have "pm_inv view (kv_enqueue (snd (apply_from_wallet_market_event_kind now k (pm_authority pm)))
      (pm\<lparr>pm_authority := fst (apply_from_wallet_market_event_kind now k (pm_authority pm))\<rparr>))"
    using inv by (intro pm_inv_enqueue) (auto simp: pm_inv_def pa_inv_wallet apply_wallet_follows)
  with wallet show ?thesis by (simp add: pm_apply_wallet_event_kind_def case_prod_beta)
next
  case publish
  with inv publish_view [OF laws] show ?thesis
    by (cases "pm_queue pm") (auto simp: kv_publisher_recv_def pm_inv_def)
qed

text \<open>The store used to show that the laws can hold: a map.\<close>

definition map_put :: "string \<Rightarrow> position_authority_snapshot \<Rightarrow> (string \<rightharpoonup> position_authority_snapshot)
    \<Rightarrow> unit + (string \<rightharpoonup> position_authority_snapshot)" where
  "map_put k v st = Inr (st(k \<mapsto> v))"

definition map_delete :: "string \<Rightarrow> (string \<rightharpoonup> position_authority_snapshot)
    \<Rightarrow> unit + (string \<rightharpoonup> position_authority_snapshot)" where
  "map_delete k st = (if st k = None then Inl () else Inr (st(k := None)))"

lemma map_kv_laws: "kv_laws (\<lambda>st. st) map_put map_delete"
  by (simp add: kv_laws_def map_put_def map_delete_def)

lemma pm_transition:
  "kv_laws view kv_put kv_delete \<Longrightarrow>
     transition_invariant (pm_step kv_put kv_delete) (pm_inv view)"
  by unfold_locales (rule pm_step_inv)

section \<open>Start-up\<close>

lemma apply_kinds_follows:
  "pa_inv pa \<Longrightarrow> pa_inv (fst (apply_kinds now ks pa)) \<and>
     follows pa (fst (apply_kinds now ks pa)) (snd (apply_kinds now ks pa))"
proof (induction ks arbitrary: pa)
  case (Cons k ks)
  let ?pa1 = "fst (apply_from_wallet_market_event_kind now k pa)"
  have "pa_inv ?pa1" using Cons.prems by (rule pa_inv_wallet)
  from Cons.IH [OF this] follows_append [OF apply_wallet_follows [OF Cons.prems]]
  show ?case by (simp add: case_prod_beta)
qed (simp add: follows_refl)

lemma kv_of_None: "kv_of pa m = None \<longleftrightarrow> m \<notin> set (tracked_mints pa)"
  by (simp add: kv_of_def tracked_mints_def map_of_eq_None_iff)

lemma sweep_from_empty:
  assumes "follows [] pa' cs" "\<forall>m. view m \<noteq> None \<longrightarrow> m \<in> set keys"
  shows "fold change_effect (cs @ map Tombstone (filter (\<lambda>m. m \<notin> set (tracked_mints pa')) keys)) view
       = kv_of pa'"
proof
  fix m
  have "m \<notin> change_mint ` set cs \<Longrightarrow> kv_of pa' m = None"
    using assms(1) by (simp add: follows_def kv_of_def)
  moreover have "fold change_effect cs view m
      = (if m \<in> change_mint ` set cs then kv_of pa' m else view m)"
    using assms(1) by (simp add: follows_def)
  ultimately show "fold change_effect
      (cs @ map Tombstone (filter (\<lambda>m. m \<notin> set (tracked_mints pa')) keys)) view m = kv_of pa' m"
    using assms(2) kv_of_None [of pa' m] by (auto simp: fold_tombstones)
qed

section \<open>Executions only\<close>

text \<open>
  The books of one mint over its confirmed fills: a list of \<open>(is_buy, amount)\<close>. \<open>fills_balance\<close> is the
  balance they leave, or \<open>None\<close> as soon as a sale exceeds it or the bought total leaves 64 bits.
\<close>

fun fills_balance :: "nat \<Rightarrow> (bool \<times> u64) list \<Rightarrow> nat option" where
  "fills_balance b [] = Some b"
| "fills_balance b ((True, n) # rest) =
     (if b + unat n < 2 ^ 64 then fills_balance (b + unat n) rest else None)"
| "fills_balance b ((False, n) # rest) =
     (if unat n \<le> b then fills_balance (b - unat n) rest else None)"

fun apply_fills :: "u64 \<Rightarrow> string \<Rightarrow> u8 \<Rightarrow> string \<Rightarrow> (bool \<times> u64) list \<Rightarrow> position_authority
    \<Rightarrow> position_authority" where
  "apply_fills now mint d g [] pa = pa"
| "apply_fills now mint d g ((b, n) # rest) pa =
     apply_fills now mint d g rest
       (fst (pa_apply now (if b then BuyConfirmed mint n d g None else SellConfirmed mint n d g) pa))"

lemma apply_fills_balance:
  assumes "fills_balance (unat (balance_raw (position_entry mint d g pa))) fills = Some b"
    and "fills \<noteq> []"
  shows "\<exists>p. map_of (apply_fills now mint d g fills pa) mint = Some p \<and> unat (balance_raw p) = b \<and>
           status p = (if b = 0 then Closed else Open)"
  using assms
proof (induction fills arbitrary: pa)
  case (Cons x rest)
  obtain is_buy n where x: "x = (is_buy, n)" by (cases x)
  let ?e = "position_entry mint d g pa"
  let ?p = "if is_buy then buy_position now n d g None ?e else sell_position now n d g ?e"
  let ?pa = "bt_put mint ?p pa"
  let ?b = "if is_buy then unat (balance_raw ?e) + unat n else unat (balance_raw ?e) - unat n"
  have step: "apply_fills now mint d g (x # rest) pa = apply_fills now mint d g rest ?pa"
    by (simp add: x apply_buy_def apply_sell_def Let_def)
  have "unat (balance_raw ?p) = ?b \<and> status ?p = (if ?b = 0 then Closed else Open)
      \<and> fills_balance ?b rest = Some b"
    using Cons.prems(1) x unat_eq_0
    by (cases is_buy)
      (auto simp: buy_position_def sell_position_def Let_def width_simps word_less_nat_alt
        unat_eq_0 [symmetric] split: if_splits)
  moreover have "position_entry mint d g ?pa = ?p" "map_of ?pa mint = Some ?p"
    by (simp_all add: position_entry_def map_of_bt_put)
  ultimately show ?case
    using Cons.IH [of ?pa] step by (cases "rest = []") auto
qed simp

end
