(* ===== verification/Position_Properties.thy ===== *)
theory Position_Properties
  imports Position_Refinement
begin

text \<open>
  What the other processes rely on from the position authority: the bucket follows the reducer, a
  restart repairs it, statuses and balances agree, counts read from the bucket are the reducer's
  counts, SOL is never a position, and confirmed fills are booked exactly.
\<close>




text \<open>
  A restart repairs the bucket: with a fresh reducer and a wallet bootstrap that contains a
  complete snapshot, whatever the bucket held before (and whatever lists of keys it returns that
  contains all of them), reconciliation reports no error and leaves exactly the reducer's positions
  in it.
\<close>

theorem restart_repairs_bucket:
  assumes laws: "kv_laws view kv_put kv_delete"
    and "\<forall>m. view st m \<noteq> None \<longrightarrow> m \<in> set (kv_keys st)"
    and "wallet_bootstrap_allows_pa_kv_tombstone_sweep kinds"
    and "reconcile_position_authority_kv_after_restart kv_put kv_delete kv_keys now kinds [] st
       = (pa', st', err)"
  shows "view st' = kv_of pa' \<and> err = None"
proof -
  let ?pa = "fst (apply_kinds now kinds [])" and ?cs = "snd (apply_kinds now kinds [])"
  let ?ds = "?cs @ map Tombstone (filter (\<lambda>m. m \<notin> set (tracked_mints ?pa)) (kv_keys st))"
  have "follows [] ?pa ?cs" using apply_kinds_follows [OF pa_inv_Nil] by blast
  from sweep_from_empty [OF this assms(2)] publish_view [OF laws, of ?ds st] assms(3,4)
  show ?thesis
    by (auto simp: reconcile_position_authority_kv_after_restart_def Let_def case_prod_beta)
qed

theorem restart_repairs_bucket_witness:
  "\<exists>st'. reconcile_position_authority_kv_after_restart map_put map_delete (\<lambda>_. [''OLD'']) 5
       [MWalletBalanceSnapshot ''M'' 3 6 ''p'', MWalletSnapshotComplete [''M''] ''w'' False] []
       [''OLD'' \<mapsto> to_snapshot (fresh_position ''OLD'' 6 ''p'')]
     = (fst (apply_kinds 5 [MWalletBalanceSnapshot ''M'' 3 6 ''p'',
          MWalletSnapshotComplete [''M''] ''w'' False] []), st', None)
     \<and> st' ''OLD'' = None \<and> st' ''M'' \<noteq> None"
proof -
  let ?kinds = "[MWalletBalanceSnapshot ''M'' 3 6 ''p'', MWalletSnapshotComplete [''M''] ''w'' False]"
  let ?st = "[''OLD'' \<mapsto> to_snapshot (fresh_position ''OLD'' 6 ''p'')]"
  let ?r = "reconcile_position_authority_kv_after_restart map_put map_delete (\<lambda>_. [''OLD'']) 5 ?kinds [] ?st"
  have keys: "\<forall>m. ?st m \<noteq> None \<longrightarrow> m \<in> set ((\<lambda>_. [''OLD'']) ?st)" by simp
  have sweep: "wallet_bootstrap_allows_pa_kv_tombstone_sweep ?kinds"
    by (simp add: wallet_bootstrap_allows_pa_kv_tombstone_sweep_def)
  have "fst ?r = fst (apply_kinds 5 ?kinds [])"
    by (simp add: reconcile_position_authority_kv_after_restart_def Let_def case_prod_beta)
  then have r: "?r = (fst (apply_kinds 5 ?kinds []), fst (snd ?r), snd (snd ?r))"
    by (metis prod.collapse)
  have "kv_of (fst (apply_kinds 5 ?kinds [])) ''OLD'' = None"
    "kv_of (fst (apply_kinds 5 ?kinds [])) ''M'' \<noteq> None"
    by (simp_all add: apply_from_wallet_market_event_kind_def is_sol_or_wsol_mint_def
        native_sol_mint_def apply_wallet_snapshot_def apply_wallet_snapshot_complete_def is_ghost_def
        kv_of_def fresh_position_def Let_def)
  with restart_repairs_bucket [OF map_kv_laws keys sweep r] r show ?thesis by metis
qed

definition pa_run :: "(u64 \<times> position_event) list \<Rightarrow> position_authority \<Rightarrow> position_authority" where
  "pa_run evs pa = fold (\<lambda>(now, ev) pa. fst (pa_apply now ev pa)) evs pa"

inductive pa_step :: "position_authority \<Rightarrow> position_authority \<Rightarrow> bool" where
  event: "pa_step pa (fst (pa_apply now ev pa))"

interpretation positions: transition_invariant pa_step pa_inv
  by unfold_locales (auto elim: pa_step.cases simp: pa_inv_apply)

lemma pa_run_path: "pa_step\<^sup>*\<^sup>* pa (pa_run evs pa)"
proof (induction evs arbitrary: pa)
  case (Cons e evs)
  obtain now ev where "e = (now, ev)" by (cases e)
  with Cons.IH [of "fst (pa_apply now ev pa)"] show ?case
    by (auto simp: pa_run_def intro: converse_rtranclp_into_rtranclp pa_step.event)
qed (simp add: pa_run_def)

text \<open>
  Status and balance agree: after any sequence of events, every tracked mint is filed under its
  own name, an open position has tokens, a closed one has none, and the tradable balance offered to
  sells is the booked balance.
\<close>

theorem position_status_agrees:
  assumes "map_of (pa_run evs []) mint = Some p"
  shows "ps_mint p = mint \<and> (status p = Open \<longrightarrow> 0 < balance_raw p) \<and>
         (status p = Closed \<longrightarrow> balance_raw p = 0) \<and>
         tradable_balance_raw (pa_run evs []) mint = Some (balance_raw p)"
proof -
  have "pa_inv (pa_run evs [])" by (rule positions.path_inv [OF pa_run_path pa_inv_Nil])
  with assms have "ps_mint p = mint" "position_ok p" by (auto simp: pa_inv_def)
  with assms show ?thesis by (auto simp: position_ok_def tradable_balance_raw_def)
qed

theorem position_status_agrees_witness:
  "\<exists>p. map_of (pa_run [(9, BuyConfirmed ''M'' 7 6 ''p'' None)] []) ''M'' = Some p \<and> ps_mint p = ''M''"
proof -
  obtain p where p: "map_of (pa_run [(9, BuyConfirmed ''M'' 7 6 ''p'' None)] []) ''M'' = Some p"
    by (simp add: pa_run_def apply_buy_def Let_def)
  with position_status_agrees [OF p] show ?thesis by blast
qed

lemma open_snapshot:
  "position_ok p \<Longrightarrow> snapshot_counts_as_open_position (to_snapshot p) \<longleftrightarrow> 0 < balance_raw p"
  by (cases "status p") (auto simp: position_ok_def snapshot_counts_as_open_position_def to_snapshot_def)

text \<open>
  No drift between the process and the bucket: the open-position count computed from the
  published snapshots equals the reducer's own count after any sequence of events, so the drift
  metric between them is zero whenever the bucket is up to date.
\<close>

theorem kv_count_no_drift:
  "position_authority_drift_ee_vs_kv (open_positions_count (pa_run evs []))
     (open_positions_count_from_kv_snapshots (map (\<lambda>(m, p). to_snapshot p) (pa_run evs []))) = 0"
proof -
  have inv: "pa_inv (pa_run evs [])" by (rule positions.path_inv [OF pa_run_path pa_inv_Nil])
  let ?open = "\<lambda>xs. filter snapshot_counts_as_open_position (map (\<lambda>(m, p). to_snapshot p) xs)"
  have "length (?open xs) = assoc_count (\<lambda>p. 0 < balance_raw p) xs"
    if "\<forall>(m, p) \<in> set xs. position_ok p" for xs
    using that by (induction xs) (auto simp: open_snapshot assoc_count_def)
  moreover have "\<forall>(m, p) \<in> set (pa_run evs []). position_ok p"
    using inv bt.entries_get [of "pa_run evs []"] by (auto simp: pa_inv_def)
  ultimately have "length (?open (pa_run evs [])) = assoc_count (\<lambda>p. 0 < balance_raw p) (pa_run evs [])"
    by blast
  then show ?thesis
    by (simp only: position_authority_drift_ee_vs_kv_def open_positions_count_def
        open_positions_count_from_kv_snapshots_def diff_self)
qed

datatype pa_message = ExecMsg execution_result | MarketMsg market_event_kind

fun apply_message :: "u64 \<times> pa_message \<Rightarrow> position_authority \<Rightarrow> position_authority" where
  "apply_message (now, ExecMsg r) pa = fst (apply_from_confirmed_execution_result now r pa)"
| "apply_message (now, MarketMsg k) pa = fst (apply_from_wallet_market_event_kind now k pa)"

fun event_mint :: "position_event \<Rightarrow> string option" where
  "event_mint (BuyConfirmed m _ _ _ _) = Some m"
| "event_mint (SellConfirmed m _ _ _) = Some m"
| "event_mint (WalletBalanceSnapshot m _ _ _) = Some m"
| "event_mint (WalletSnapshotComplete _ _ _) = None"

lemma pa_apply_tracks_only:
  "event_mint ev \<noteq> Some m \<Longrightarrow> map_of pa m = None \<Longrightarrow> map_of (fst (pa_apply now ev pa)) m = None"
  by (cases ev) (auto simp: apply_buy_def apply_sell_def apply_wallet_snapshot_def
      apply_wallet_snapshot_complete_def Let_def map_of_bt_put delete_conv' map_of_fold_delete)

lemma exec_event_mint:
  "try_from_execution_result r = Some ev \<Longrightarrow> is_sol_or_wsol_mint m \<Longrightarrow> event_mint ev \<noteq> Some m"
  by (auto simp: try_from_execution_result_def split: if_splits option.splits)

lemma market_event_mint:
  "try_from_market_event_kind k = Some ev \<Longrightarrow> is_sol_or_wsol_mint m \<Longrightarrow> event_mint ev \<noteq> Some m"
  by (cases k) (auto split: if_splits)

lemma apply_message_sol:
  "is_sol_or_wsol_mint m \<Longrightarrow> map_of pa m = None \<Longrightarrow> map_of (apply_message msg pa) m = None"
  by (cases "(msg, pa)" rule: apply_message.cases)
    (auto simp: apply_from_confirmed_execution_result_def apply_from_wallet_market_event_kind_def
      intro!: pa_apply_tracks_only dest: exec_event_mint market_event_mint split: option.splits)

text \<open>
  SOL is never a position: whatever execution results and market events reach the authority, it
  never tracks the wrapped-SOL mint or the native-SOL sentinel.
\<close>

theorem sol_never_tracked:
  assumes "is_sol_or_wsol_mint m"
  shows "map_of (fold apply_message msgs []) m = None"
proof -
  have "map_of pa m = None \<Longrightarrow> map_of (fold apply_message msgs pa) m = None" for pa
    using assms by (induction msgs arbitrary: pa) (simp_all add: apply_message_sol)
  then show ?thesis by simp
qed

theorem sol_never_tracked_witness:
  "map_of (fold apply_message
     [(1, MarketMsg (MWalletBalanceSnapshot native_sol_mint 5 9 ''p''))] []) native_sol_mint = None"
  by (rule sol_never_tracked) (simp add: is_sol_or_wsol_mint_def)

text \<open>
  Confirmed fills are booked exactly: replaying the buys and sells of one mint on an empty
  authority, where no sale exceeds what was bought and the total fits 64 bits, ends with the
  balance bought minus sold, open if that is positive and closed otherwise.
\<close>

theorem fills_booked_exactly:
  assumes "fills_balance 0 fills = Some b" and "fills \<noteq> []"
  shows "\<exists>p. map_of (apply_fills now mint d g fills []) mint = Some p \<and> unat (balance_raw p) = b \<and>
           status p = (if b = 0 then Closed else Open)"
  using apply_fills_balance [of mint d g "[]" fills b now] assms
  by (simp add: position_entry_def fresh_position_def)

theorem fills_booked_exactly_witness:
  "\<exists>p. map_of (apply_fills 9 ''M'' 6 ''p'' [(True, 5), (True, 4), (False, 9)] []) ''M'' = Some p \<and>
       balance_raw p = 0 \<and> status p = Closed"
  using fills_booked_exactly [of "[(True, 5), (True, 4), (False, 9)]" 0 9 "''M''" 6 "''p''"]
  by (auto simp: unat_eq_0)

text \<open>
  Ghost clean-up is exact: a complete wallet scan removes a mint if and only if it is tracked
  with tokens, is not SOL, is absent from the wallet list and was not traded in the last 90 seconds;
  every other position is left untouched.
\<close>

theorem ghost_cleanup_exact:
  assumes "pa_inv pa"
  shows "map_of (fst (pa_apply now (WalletSnapshotComplete w mints b) pa)) m
       = (case map_of pa m of
            None \<Rightarrow> None
          | Some p \<Rightarrow>
              if 0 < balance_raw p \<and> \<not> is_sol_or_wsol_mint m \<and> m \<notin> set mints \<and>
                 (case last_execution_unix_secs p of
                    None \<Rightarrow> True | Some t \<Rightarrow> unat t + 90 \<le> unat now)
              then None else Some p)"
proof -
  have wf: "hm_wf pa" using assms bt_wf_hm_wf by (auto simp: pa_inv_def)
  have el: "m \<in> set (map fst (filter (\<lambda>(mint, p). is_ghost now mints mint p) pa))
      \<longleftrightarrow> (\<exists>p. map_of pa m = Some p \<and> is_ghost now mints m p)"
    using hm.entries_get [OF wf] by force
  have "ghost_cleanup_grace_secs \<le> saturating_sub now t \<longleftrightarrow> unat t + 90 \<le> unat now" for t
    by (auto simp: word_le_nat_alt width_simps ghost_cleanup_grace_secs_def)
  then have "is_ghost now mints m p \<longleftrightarrow> 0 < balance_raw p \<and> \<not> is_sol_or_wsol_mint m \<and> m \<notin> set mints \<and>
      (case last_execution_unix_secs p of None \<Rightarrow> True | Some t \<Rightarrow> unat t + 90 \<le> unat now)" for p
    by (simp add: is_ghost_def ghost_eligible_after_snapshot_complete_def split: option.split)
  with el show ?thesis
    by (simp add: apply_wallet_snapshot_complete_def Let_def map_of_fold_delete split: option.split
        del: set_map)
qed

theorem ghost_cleanup_exact_witness:
  "map_of (fst (pa_apply 1000 (WalletSnapshotComplete ''w'' [] False)
     (pa_run [(100, BuyConfirmed ''M'' 7 6 ''p'' None)] []))) ''M'' = None"
proof -
  have "pa_inv (pa_run [(100, BuyConfirmed ''M'' 7 6 ''p'' None)] [])"
    by (rule positions.path_inv [OF pa_run_path pa_inv_Nil])
  from ghost_cleanup_exact [OF this, of 1000 "''w''" "[]" False "''M''"] show ?thesis
    by (simp add: pa_run_def apply_buy_def buy_position_def position_entry_def fresh_position_def
        is_sol_or_wsol_mint_def native_sol_mint_def saturating_add_def Let_def)
qed

end
