(* ===== verification/Pool_State.thy ===== *)
theory Pool_State
  imports Ipc_Schema
begin

text \<open>
  The cached state of one liquidity pool, for the seven venues the program trades on
  (\<open>execution/live_pool_cache.rs\<close>, first part): the venue records and the enum over them, the rows
  seeded from a transaction layout or a parsed account, the readiness score of a row
  (\<open>DexPoolReadiness\<close> of \<open>ipc/schema.rs\<close>), the reserve basis, the material fingerprint and the merge
  of an account parse over an existing row.

  \<open>DefaultHasher\<close> is kept abstract: the fingerprint functions build the sequence of values fed to
  the hasher, and \<open>hash\<close>, the digest of such a sequence, is an argument. \<open>Pubkey::from_str\<close> of the
  Solana SDK is the argument \<open>from_str\<close>.
\<close>

section \<open>Readiness\<close>

datatype dex_pool_readiness = Observed | Partial | Ready

text \<open>The order of strength that the merge preserves.\<close>

instantiation dex_pool_readiness :: linorder
begin

definition less_eq_dex_pool_readiness :: "dex_pool_readiness \<Rightarrow> dex_pool_readiness \<Rightarrow> bool" where
  "less_eq_dex_pool_readiness a b \<longleftrightarrow> a = Observed \<or> b = Ready \<or> a = b"

definition less_dex_pool_readiness :: "dex_pool_readiness \<Rightarrow> dex_pool_readiness \<Rightarrow> bool" where
  "less_dex_pool_readiness a b \<longleftrightarrow> a \<le> b \<and> a \<noteq> (b :: dex_pool_readiness)"

instance
proof
  fix x y z :: dex_pool_readiness
  show "(x < y) = (x \<le> y \<and> \<not> y \<le> x)"
    by (cases x; cases y) (auto simp: less_eq_dex_pool_readiness_def less_dex_pool_readiness_def)
  show "x \<le> x" by (simp add: less_eq_dex_pool_readiness_def)
  show "x \<le> y \<Longrightarrow> y \<le> z \<Longrightarrow> x \<le> z"
    by (cases x; cases y; cases z) (auto simp: less_eq_dex_pool_readiness_def)
  show "x \<le> y \<Longrightarrow> y \<le> x \<Longrightarrow> x = y"
    by (cases x; cases y) (auto simp: less_eq_dex_pool_readiness_def)
  show "x \<le> y \<or> y \<le> x"
    by (cases x; cases y) (auto simp: less_eq_dex_pool_readiness_def)
qed

end

fun readiness_merge :: "dex_pool_readiness \<Rightarrow> dex_pool_readiness \<Rightarrow> dex_pool_readiness" where
  "readiness_merge Ready _ = Ready"
| "readiness_merge _ Ready = Ready"
| "readiness_merge Partial Partial = Partial"
| "readiness_merge Partial Observed = Partial"
| "readiness_merge Observed Partial = Partial"
| "readiness_merge Observed Observed = Observed"

definition parse_from_metadata :: "string \<Rightarrow> dex_pool_readiness option" where
  "parse_from_metadata s =
     (let t = str_trim s in
      if t = ''OBSERVED'' then Some Observed
      else if t = ''PARTIAL'' then Some Partial
      else if t = ''READY'' then Some Ready
      else None)"

fun as_metadata_str :: "dex_pool_readiness \<Rightarrow> string" where
  "as_metadata_str Observed = ''OBSERVED''"
| "as_metadata_str Partial = ''PARTIAL''"
| "as_metadata_str Ready = ''READY''"

lemma readiness_merge_max: "readiness_merge a b = max a b"
  by (cases a; cases b) (auto simp: max_def less_eq_dex_pool_readiness_def)

section \<open>Venue records\<close>

record orca_whirlpool_state =
  ow_token_mint_a :: pubkey
  ow_token_mint_b :: pubkey
  ow_token_vault_a :: pubkey
  ow_token_vault_b :: pubkey
  ow_tick_current_index :: i32
  ow_sqrt_price :: u128
  ow_liquidity :: u128
  ow_fee_rate :: u16
  ow_protocol_fee_rate :: u16
  ow_tick_spacing :: u16
  ow_vault_a_balance :: "u64 option"
  ow_vault_b_balance :: "u64 option"
  ow_token_a_program :: "pubkey option"
  ow_token_b_program :: "pubkey option"
  ow_whirlpool_quote_account_seeded :: bool

definition orca_whirlpool_tx_layout_seed ::
    "pubkey \<Rightarrow> pubkey \<Rightarrow> pubkey \<Rightarrow> pubkey \<Rightarrow> orca_whirlpool_state" where
  "orca_whirlpool_tx_layout_seed mint_a mint_b vault_a vault_b =
     \<lparr> ow_token_mint_a = mint_a, ow_token_mint_b = mint_b,
       ow_token_vault_a = vault_a, ow_token_vault_b = vault_b,
       ow_tick_current_index = 0, ow_sqrt_price = 0, ow_liquidity = 0, ow_fee_rate = 0,
       ow_protocol_fee_rate = 0, ow_tick_spacing = 0,
       ow_vault_a_balance = None, ow_vault_b_balance = None,
       ow_token_a_program = None, ow_token_b_program = None,
       ow_whirlpool_quote_account_seeded = False \<rparr>"

definition orca_readiness_for_pool_cache_update :: "orca_whirlpool_state \<Rightarrow> dex_pool_readiness" where
  "orca_readiness_for_pool_cache_update s =
     (let static_ok = ow_token_vault_a s \<noteq> pubkey_default \<and> ow_token_vault_b s \<noteq> pubkey_default
            \<and> ow_whirlpool_quote_account_seeded s \<and> ow_tick_spacing s > 0 \<and> ow_sqrt_price s > 0;
          va = unwrap_or (ow_vault_a_balance s) 0;
          vb = unwrap_or (ow_vault_b_balance s) 0
      in if static_ok \<and> va > 0 \<and> vb > 0 then Ready
         else if va > 0 \<or> vb > 0 \<or> static_ok then Partial
         else Observed)"

record raydium_amm_state =
  ra_base_mint :: pubkey
  ra_quote_mint :: pubkey
  ra_coin_vault :: pubkey
  ra_pc_vault :: pubkey
  ra_base_decimals :: u8
  ra_quote_decimals :: u8
  ra_coin_reserve :: "u64 option"
  ra_pc_reserve :: "u64 option"
  ra_market_id :: pubkey
  ra_serum_bids :: "pubkey option"
  ra_serum_asks :: "pubkey option"
  ra_serum_event_queue :: "pubkey option"
  ra_serum_base_vault :: "pubkey option"
  ra_serum_quote_vault :: "pubkey option"

definition raydium_amm_serum_static_accounts_ready :: "raydium_amm_state \<Rightarrow> bool" where
  "raydium_amm_serum_static_accounts_ready s \<longleftrightarrow>
     ra_market_id s \<noteq> pubkey_default \<and> ra_serum_bids s \<noteq> None \<and> ra_serum_asks s \<noteq> None
     \<and> ra_serum_event_queue s \<noteq> None \<and> ra_serum_base_vault s \<noteq> None \<and> ra_serum_quote_vault s \<noteq> None"

definition raydium_amm_serum_needs_cold_backfill :: "raydium_amm_state \<Rightarrow> bool" where
  "raydium_amm_serum_needs_cold_backfill s \<longleftrightarrow>
     ra_market_id s \<noteq> pubkey_default \<and> \<not> raydium_amm_serum_static_accounts_ready s"

definition raydium_amm_readiness_for_pool_cache_update :: "raydium_amm_state \<Rightarrow> dex_pool_readiness" where
  "raydium_amm_readiness_for_pool_cache_update s =
     (let static_ok = raydium_amm_serum_static_accounts_ready s;
          r_coin = unwrap_or (ra_coin_reserve s) 0;
          r_pc = unwrap_or (ra_pc_reserve s) 0
      in if static_ok \<and> r_coin > 0 \<and> r_pc > 0 then Ready
         else if r_coin > 0 \<or> r_pc > 0 then Partial
         else Observed)"

record raydium_cpmm_state =
  rc_token_0_mint :: pubkey
  rc_token_1_mint :: pubkey
  rc_token_0_vault :: pubkey
  rc_token_1_vault :: pubkey
  rc_reserve_0 :: "u64 option"
  rc_reserve_1 :: "u64 option"

record meteora_state =
  md_token_x_mint :: pubkey
  md_token_y_mint :: pubkey
  md_reserve_x :: pubkey
  md_reserve_y :: pubkey
  md_active_id :: i32
  md_bin_step :: u16
  md_reserve_x_balance :: "u64 option"
  md_reserve_y_balance :: "u64 option"
  md_dlmm_bin_params_account_seeded :: bool

definition meteora_dlmm_tx_layout_seed ::
    "pubkey \<Rightarrow> pubkey \<Rightarrow> pubkey \<Rightarrow> pubkey \<Rightarrow> meteora_state" where
  "meteora_dlmm_tx_layout_seed x_mint y_mint res_x res_y =
     \<lparr> md_token_x_mint = x_mint, md_token_y_mint = y_mint, md_reserve_x = res_x, md_reserve_y = res_y,
       md_active_id = 0, md_bin_step = 0, md_reserve_x_balance = None, md_reserve_y_balance = None,
       md_dlmm_bin_params_account_seeded = False \<rparr>"

record pumpfun_state =
  pf_token_mint :: pubkey
  pf_bonding_curve :: pubkey
  pf_associated_bonding_curve :: pubkey
  pf_virtual_sol_reserves :: u64
  pf_virtual_token_reserves :: u64
  pf_real_sol_reserves :: u64
  pf_real_token_reserves :: u64
  pf_complete :: bool
  pf_creator :: pubkey
  pf_cashback_enabled :: bool

record pump_amm_state =
  ps_base_mint :: pubkey
  ps_quote_mint :: pubkey
  ps_pool_base_token_account :: pubkey
  ps_pool_quote_token_account :: pubkey
  ps_base_reserve :: "u64 option"
  ps_quote_reserve :: "u64 option"
  ps_pool_accounts :: "pubkey list"
  ps_creator :: "pubkey option"

record meteora_cpmm_state =
  mc_token_0_mint :: pubkey
  mc_token_1_mint :: pubkey
  mc_token_0_vault :: pubkey
  mc_token_1_vault :: pubkey
  mc_amm_config :: pubkey
  mc_observation_key :: pubkey
  mc_token_0_program :: pubkey
  mc_token_1_program :: pubkey
  mc_reserve_0 :: u64
  mc_reserve_1 :: u64
  mc_mint_0_decimals :: u8
  mc_mint_1_decimals :: u8
  mc_status :: u8

definition meteora_cpmm_readiness_for_pool_cache_update ::
    "(string \<Rightarrow> pubkey option) \<Rightarrow> meteora_cpmm_state \<Rightarrow> dex_pool_readiness" where
  "meteora_cpmm_readiness_for_pool_cache_update from_str s =
     (let sol = unwrap_or (from_str native_sol_mint) pubkey_default;
          r0 = mc_reserve_0 s;
          r1 = mc_reserve_1 s;
          (base_side_liq, quote_side_liq) =
            (if mc_token_1_mint s = sol then (r0 > 0, r1 > 0)
             else if mc_token_0_mint s = sol then (r1 > 0, r0 > 0)
             else (r0 > 0, r1 > 0))
      in if base_side_liq \<and> quote_side_liq then Ready
         else if r0 > 0 \<or> r1 > 0 then Partial
         else Observed)"

definition meteora_dlmm_readiness_for_pool_cache_update :: "meteora_state \<Rightarrow> dex_pool_readiness" where
  "meteora_dlmm_readiness_for_pool_cache_update s =
     (let real_vaults = md_reserve_x s \<noteq> pubkey_default \<and> md_reserve_y s \<noteq> pubkey_default;
          rx = md_reserve_x_balance s;
          ry = md_reserve_y_balance s;
          ready_reserves = (case (rx, ry) of (Some a, Some b) \<Rightarrow> a > 0 \<and> b > 0 | _ \<Rightarrow> False);
          any_reserve_signal =
            (unwrap_or (map_option (\<lambda>v. v > 0) rx) False \<or> unwrap_or (map_option (\<lambda>v. v > 0) ry) False)
      in if real_vaults \<and> ready_reserves then Ready
         else if real_vaults \<or> any_reserve_signal then Partial
         else Observed)"

section \<open>The enum over the venues\<close>

datatype cached_pool_state =
    Orca orca_whirlpool_state
  | RaydiumAmm raydium_amm_state
  | RaydiumCpmm raydium_cpmm_state
  | Meteora meteora_state
  | MeteoraCpmm meteora_cpmm_state
  | PumpFun pumpfun_state
  | PumpAmm pump_amm_state

fun dex_name :: "cached_pool_state \<Rightarrow> string" where
  "dex_name (Orca _) = ''orca''"
| "dex_name (RaydiumAmm _) = ''raydium''"
| "dex_name (RaydiumCpmm _) = ''raydium_cpmm''"
| "dex_name (Meteora _) = ''meteora_dlmm''"
| "dex_name (MeteoraCpmm _) = ''meteora_cpmm''"
| "dex_name (PumpFun _) = ''pumpfun''"
| "dex_name (PumpAmm _) = ''pump_amm''"

definition pump_amm_tx_layout_seed ::
    "pubkey \<Rightarrow> pubkey \<Rightarrow> pubkey \<Rightarrow> pubkey \<Rightarrow> cached_pool_state" where
  "pump_amm_tx_layout_seed base quote base_vault quote_vault =
     PumpAmm \<lparr> ps_base_mint = base, ps_quote_mint = quote,
               ps_pool_base_token_account = base_vault, ps_pool_quote_token_account = quote_vault,
               ps_base_reserve = None, ps_quote_reserve = None, ps_pool_accounts = [],
               ps_creator = None \<rparr>"

definition pump_amm_layer_c_complete :: "pubkey \<Rightarrow> pubkey list \<Rightarrow> bool" where
  "pump_amm_layer_c_complete pool accounts \<longleftrightarrow>
     length accounts \<ge> 14 \<and> (case accounts of [] \<Rightarrow> False | a # _ \<Rightarrow> a = pool)"

fun cached_state_layer_c_complete :: "pubkey \<Rightarrow> cached_pool_state \<Rightarrow> bool" where
  "cached_state_layer_c_complete pool (PumpAmm s) =
     pump_amm_layer_c_complete pool (ps_pool_accounts s)"
| "cached_state_layer_c_complete pool (Orca s) =
     (ow_token_vault_a s \<noteq> pubkey_default \<and> ow_token_vault_b s \<noteq> pubkey_default)"
| "cached_state_layer_c_complete pool (Meteora s) =
     (md_reserve_x s \<noteq> pubkey_default \<and> md_reserve_y s \<noteq> pubkey_default)"
| "cached_state_layer_c_complete pool (RaydiumCpmm s) =
     (rc_token_0_vault s \<noteq> pubkey_default \<and> rc_token_1_vault s \<noteq> pubkey_default)"
| "cached_state_layer_c_complete pool _ = False"

section \<open>Reserves\<close>

text \<open>What the hasher is fed, in order; \<open>Option<u64>\<close>, plain integers and booleans.\<close>

datatype hash_input = H_opt_u64 "u64 option" | H_u64 u64 | H_i32 i32 | H_u16 u16 | H_bool bool

fun material_inputs :: "cached_pool_state \<Rightarrow> hash_input list" where
  "material_inputs (RaydiumCpmm s) = [H_opt_u64 (rc_reserve_0 s), H_opt_u64 (rc_reserve_1 s)]"
| "material_inputs (MeteoraCpmm s) = [H_u64 (mc_reserve_0 s), H_u64 (mc_reserve_1 s)]"
| "material_inputs (Meteora s) =
     [H_opt_u64 (md_reserve_x_balance s), H_opt_u64 (md_reserve_y_balance s),
      H_i32 (md_active_id s), H_u16 (md_bin_step s)]"
| "material_inputs (PumpAmm s) = [H_opt_u64 (ps_base_reserve s), H_opt_u64 (ps_quote_reserve s)]"
| "material_inputs (Orca s) = [H_opt_u64 (ow_vault_a_balance s), H_opt_u64 (ow_vault_b_balance s)]"
| "material_inputs (RaydiumAmm s) = [H_opt_u64 (ra_coin_reserve s), H_opt_u64 (ra_pc_reserve s)]"
| "material_inputs (PumpFun s) =
     [H_u64 (pf_virtual_sol_reserves s), H_u64 (pf_virtual_token_reserves s), H_bool (pf_complete s)]"

definition pool_state_material_fingerprint ::
    "(hash_input list \<Rightarrow> u64) \<Rightarrow> cached_pool_state \<Rightarrow> u64" where
  "pool_state_material_fingerprint hash state = hash (material_inputs state)"

definition fresh_opt :: "u64 option \<Rightarrow> bool" where
  "fresh_opt r = (case r of None \<Rightarrow> False | Some v \<Rightarrow> v > 0)"

fun pool_state_has_reserve_basis :: "cached_pool_state \<Rightarrow> bool" where
  "pool_state_has_reserve_basis (RaydiumCpmm s) = (fresh_opt (rc_reserve_0 s) \<or> fresh_opt (rc_reserve_1 s))"
| "pool_state_has_reserve_basis (MeteoraCpmm s) = (mc_reserve_0 s > 0 \<or> mc_reserve_1 s > 0)"
| "pool_state_has_reserve_basis (Meteora s) =
     (fresh_opt (md_reserve_x_balance s) \<or> fresh_opt (md_reserve_y_balance s))"
| "pool_state_has_reserve_basis (PumpAmm s) = (fresh_opt (ps_base_reserve s) \<or> fresh_opt (ps_quote_reserve s))"
| "pool_state_has_reserve_basis (Orca s) = (fresh_opt (ow_vault_a_balance s) \<or> fresh_opt (ow_vault_b_balance s))"
| "pool_state_has_reserve_basis (RaydiumAmm s) = (fresh_opt (ra_coin_reserve s) \<or> fresh_opt (ra_pc_reserve s))"
| "pool_state_has_reserve_basis (PumpFun s) =
     (\<not> pf_complete s \<and> pf_virtual_sol_reserves s > 0 \<and> pf_virtual_token_reserves s > 0)"

section \<open>Merging an account parse over an existing row\<close>

fun preserve_option_reserve :: "u64 option \<Rightarrow> u64 option \<Rightarrow> u64 option" where
  "preserve_option_reserve None existing = existing"
| "preserve_option_reserve (Some v) existing = Some v"

definition merge_meteora_cpmm_account_reserves_from_prior ::
    "meteora_cpmm_state \<Rightarrow> meteora_cpmm_state \<Rightarrow> meteora_cpmm_state" where
  "merge_meteora_cpmm_account_reserves_from_prior inc ex =
     (if mc_reserve_0 inc = 0 \<and> mc_reserve_1 inc = 0
      then inc\<lparr> mc_reserve_0 := mc_reserve_0 ex, mc_reserve_1 := mc_reserve_1 ex \<rparr>
      else inc)"

definition preserve_layout_pubkey :: "pubkey \<Rightarrow> pubkey \<Rightarrow> pubkey" where
  "preserve_layout_pubkey incoming existing =
     (if incoming = pubkey_default \<and> existing \<noteq> pubkey_default then existing else incoming)"

definition or_prior :: "'a option \<Rightarrow> 'a option \<Rightarrow> 'a option" where
  \<comment> \<open>\<open>if inc.f.is_none() { inc.f = ex.f }\<close>\<close>
  "or_prior incoming existing = (if incoming = None then existing else incoming)"

definition merge_raydium_amm_account_fields_from_prior ::
    "raydium_amm_state \<Rightarrow> raydium_amm_state \<Rightarrow> raydium_amm_state" where
  "merge_raydium_amm_account_fields_from_prior am ex = am\<lparr>
     ra_base_mint := preserve_layout_pubkey (ra_base_mint am) (ra_base_mint ex),
     ra_quote_mint := preserve_layout_pubkey (ra_quote_mint am) (ra_quote_mint ex),
     ra_coin_vault := preserve_layout_pubkey (ra_coin_vault am) (ra_coin_vault ex),
     ra_pc_vault := preserve_layout_pubkey (ra_pc_vault am) (ra_pc_vault ex),
     ra_coin_reserve := preserve_option_reserve (ra_coin_reserve am) (ra_coin_reserve ex),
     ra_pc_reserve := preserve_option_reserve (ra_pc_reserve am) (ra_pc_reserve ex),
     ra_market_id :=
       (if ra_market_id am = pubkey_default \<and> ra_market_id ex \<noteq> pubkey_default
        then ra_market_id ex else ra_market_id am),
     ra_serum_bids := or_prior (ra_serum_bids am) (ra_serum_bids ex),
     ra_serum_asks := or_prior (ra_serum_asks am) (ra_serum_asks ex),
     ra_serum_event_queue := or_prior (ra_serum_event_queue am) (ra_serum_event_queue ex),
     ra_serum_base_vault := or_prior (ra_serum_base_vault am) (ra_serum_base_vault ex),
     ra_serum_quote_vault := or_prior (ra_serum_quote_vault am) (ra_serum_quote_vault ex) \<rparr>"

fun merge_account_parse_preserves_existing ::
    "cached_pool_state \<Rightarrow> cached_pool_state \<Rightarrow> u64 \<Rightarrow> cached_pool_state" where
  "merge_account_parse_preserves_existing (PumpAmm ex) (PumpAmm inc) slot = PumpAmm (inc\<lparr>
     ps_base_mint := preserve_layout_pubkey (ps_base_mint inc) (ps_base_mint ex),
     ps_quote_mint := preserve_layout_pubkey (ps_quote_mint inc) (ps_quote_mint ex),
     ps_pool_base_token_account :=
       preserve_layout_pubkey (ps_pool_base_token_account inc) (ps_pool_base_token_account ex),
     ps_pool_quote_token_account :=
       preserve_layout_pubkey (ps_pool_quote_token_account inc) (ps_pool_quote_token_account ex),
     ps_base_reserve := preserve_option_reserve (ps_base_reserve inc) (ps_base_reserve ex),
     ps_quote_reserve := preserve_option_reserve (ps_quote_reserve inc) (ps_quote_reserve ex),
     ps_pool_accounts :=
       (if ps_pool_accounts inc = [] \<and> ps_pool_accounts ex \<noteq> []
        then ps_pool_accounts ex else ps_pool_accounts inc),
     ps_creator := or_prior (ps_creator inc) (ps_creator ex) \<rparr>)"
| "merge_account_parse_preserves_existing (Orca ex) (Orca inc) slot = Orca (inc\<lparr>
     ow_token_mint_a := preserve_layout_pubkey (ow_token_mint_a inc) (ow_token_mint_a ex),
     ow_token_mint_b := preserve_layout_pubkey (ow_token_mint_b inc) (ow_token_mint_b ex),
     ow_token_vault_a := preserve_layout_pubkey (ow_token_vault_a inc) (ow_token_vault_a ex),
     ow_token_vault_b := preserve_layout_pubkey (ow_token_vault_b inc) (ow_token_vault_b ex),
     ow_vault_a_balance := preserve_option_reserve (ow_vault_a_balance inc) (ow_vault_a_balance ex),
     ow_vault_b_balance := preserve_option_reserve (ow_vault_b_balance inc) (ow_vault_b_balance ex),
     ow_token_a_program := or_prior (ow_token_a_program inc) (ow_token_a_program ex),
     ow_token_b_program := or_prior (ow_token_b_program inc) (ow_token_b_program ex),
     ow_whirlpool_quote_account_seeded :=
       (if ow_whirlpool_quote_account_seeded ex then True
        else ow_whirlpool_quote_account_seeded inc) \<rparr>)"
| "merge_account_parse_preserves_existing (RaydiumAmm ex) (RaydiumAmm inc) slot =
     RaydiumAmm (merge_raydium_amm_account_fields_from_prior inc ex)"
| "merge_account_parse_preserves_existing (RaydiumCpmm ex) (RaydiumCpmm inc) slot = RaydiumCpmm (inc\<lparr>
     rc_token_0_mint := preserve_layout_pubkey (rc_token_0_mint inc) (rc_token_0_mint ex),
     rc_token_1_mint := preserve_layout_pubkey (rc_token_1_mint inc) (rc_token_1_mint ex),
     rc_token_0_vault := preserve_layout_pubkey (rc_token_0_vault inc) (rc_token_0_vault ex),
     rc_token_1_vault := preserve_layout_pubkey (rc_token_1_vault inc) (rc_token_1_vault ex),
     rc_reserve_0 := preserve_option_reserve (rc_reserve_0 inc) (rc_reserve_0 ex),
     rc_reserve_1 := preserve_option_reserve (rc_reserve_1 inc) (rc_reserve_1 ex) \<rparr>)"
| "merge_account_parse_preserves_existing (Meteora ex) (Meteora inc) slot = Meteora (inc\<lparr>
     md_token_x_mint := preserve_layout_pubkey (md_token_x_mint inc) (md_token_x_mint ex),
     md_token_y_mint := preserve_layout_pubkey (md_token_y_mint inc) (md_token_y_mint ex),
     md_reserve_x := preserve_layout_pubkey (md_reserve_x inc) (md_reserve_x ex),
     md_reserve_y := preserve_layout_pubkey (md_reserve_y inc) (md_reserve_y ex),
     md_reserve_x_balance := preserve_option_reserve (md_reserve_x_balance inc) (md_reserve_x_balance ex),
     md_reserve_y_balance := preserve_option_reserve (md_reserve_y_balance inc) (md_reserve_y_balance ex),
     md_dlmm_bin_params_account_seeded :=
       (if md_dlmm_bin_params_account_seeded ex then True
        else md_dlmm_bin_params_account_seeded inc) \<rparr>)"
| "merge_account_parse_preserves_existing (MeteoraCpmm ex) (MeteoraCpmm inc) slot =
     MeteoraCpmm (if slot > 0 then merge_meteora_cpmm_account_reserves_from_prior inc ex else inc)"
| "merge_account_parse_preserves_existing _ incoming slot = incoming"

end
