(* ===== verification/Pool_Cache.thy ===== *)
theory Pool_Cache
  imports Pool_State
begin

text \<open>
  \<open>LivePoolCache\<close> (\<open>execution/live_pool_cache.rs\<close>): the map from pool addresses to cached rows, the
  routing of vault accounts to the row and side whose reserve they hold, the maps on mints, the
  readiness merged per venue and the observed PumpSwap sell layout. Every method that changes the
  cache is an operation from cache to cache; \<open>now\<close> is the value \<open>Instant::now()\<close> returns in it.

  \<open>upsert\<close> reads the row under one guard of the map, releases it and stores under another, so it is
  the composition of \<open>upsert_prepare\<close> and \<open>upsert_commit\<close>, between which other threads can run.

  Log lines and the counters of \<open>metrics.rs\<close> are left out. The registry of pool creators is a static
  of \<open>solana/dex/pumpfun_amm.rs\<close>; it is a field here.
\<close>

record cache_entry =
  ce_state :: cached_pool_state
  ce_slot :: u64
  ce_updated_at :: instant
  ce_last_seen_slot :: u64

definition cache_entry_new :: "instant \<Rightarrow> cached_pool_state \<Rightarrow> u64 \<Rightarrow> cache_entry" where
  "cache_entry_new now state slot =
     \<lparr> ce_state = state, ce_slot = slot, ce_updated_at = now, ce_last_seen_slot = slot \<rparr>"

definition age_ms :: "instant \<Rightarrow> cache_entry \<Rightarrow> u64" where
  "age_ms now e = of_nat (duration_since now (ce_updated_at e) div 1000000)"

definition is_stale :: "instant \<Rightarrow> cache_entry \<Rightarrow> u64 \<Rightarrow> bool" where
  "is_stale now e max_age \<longleftrightarrow> age_ms now e > max_age"

datatype vault_position = VA | VB

datatype set_pump_amm_pool_accounts_result = Written | MissIncompleteAccounts | MissNoCacheEntry

text \<open>
  The watch channel the geyser task subscribes to: the value it holds and whether a receiver is
  alive (\<open>send\<close> stores nothing when there is none).
\<close>

record vault_channel =
  vc_value :: "pubkey list"
  vc_has_receiver :: bool

record live_pool_cache =
  lc_pools :: "(pubkey, cache_entry) hashmap"
  lc_vault_to_pool :: "(pubkey, pubkey \<times> vault_position) hashmap"
  lc_mint_programs :: "(pubkey, pubkey) hashmap"
  lc_mint_decimals :: "(pubkey, u8) hashmap"
  lc_updates_total :: u64
  lc_cache_hits :: u64
  lc_cache_misses :: u64
  lc_max_age_ms :: u64
  lc_vault_update_tx :: "vault_channel option"
  lc_last_notified_vault_count :: u64
  lc_pool_accounts_readiness :: "(pubkey, dex_pool_readiness) hashmap"
  lc_pumpfun_bonding_readiness :: "(pubkey, dex_pool_readiness) hashmap"
  lc_raydium_cpmm_readiness :: "(pubkey, dex_pool_readiness) hashmap"
  lc_raydium_amm_readiness :: "(pubkey, dex_pool_readiness) hashmap"
  lc_meteora_cpmm_readiness :: "(pubkey, dex_pool_readiness) hashmap"
  lc_orca_readiness :: "(pubkey, dex_pool_readiness) hashmap"
  lc_meteora_dlmm_readiness :: "(pubkey, dex_pool_readiness) hashmap"
  lc_sell_extended_flag :: "(pubkey, bool) hashmap"
  lc_sell_third_meta :: "(pubkey, pubkey) hashmap"
  lc_sell_tail_0 :: "(pubkey, pubkey) hashmap"
  lc_sell_tail_1 :: "(pubkey, pubkey) hashmap"
  lc_sell_fee_tail_0 :: "(pubkey, pubkey) hashmap"
  lc_sell_fee_tail_1 :: "(pubkey, pubkey) hashmap"
  lc_sell_pre_fee_meta_1 :: "(pubkey, pubkey) hashmap"
  lc_sell_requires_fee_tail :: "(pubkey, bool) hashmap"
  lc_sell_requires_pre_fee_metas :: "(pubkey, bool) hashmap"
  lc_sell_layout_ready :: "(pubkey, bool) hashmap"
  lc_layout_generation :: "(pubkey, u64) hashmap"
  lc_creator_by_base_mint :: "(pubkey, pubkey) hashmap"

definition with_max_age_ms :: "u64 \<Rightarrow> live_pool_cache" where
  "with_max_age_ms max_age = \<lparr>
     lc_pools = [], lc_vault_to_pool = [], lc_mint_programs = [], lc_mint_decimals = [],
     lc_updates_total = 0, lc_cache_hits = 0, lc_cache_misses = 0, lc_max_age_ms = max_age,
     lc_vault_update_tx = None, lc_last_notified_vault_count = 0,
     lc_pool_accounts_readiness = [], lc_pumpfun_bonding_readiness = [],
     lc_raydium_cpmm_readiness = [], lc_raydium_amm_readiness = [], lc_meteora_cpmm_readiness = [],
     lc_orca_readiness = [], lc_meteora_dlmm_readiness = [],
     lc_sell_extended_flag = [], lc_sell_third_meta = [], lc_sell_tail_0 = [], lc_sell_tail_1 = [],
     lc_sell_fee_tail_0 = [], lc_sell_fee_tail_1 = [], lc_sell_pre_fee_meta_1 = [],
     lc_sell_requires_fee_tail = [], lc_sell_requires_pre_fee_metas = [], lc_sell_layout_ready = [],
     lc_layout_generation = [], lc_creator_by_base_mint = [] \<rparr>"

definition live_pool_cache_new :: live_pool_cache where
  "live_pool_cache_new = with_max_age_ms 10000"

section \<open>Reading\<close>

definition lc_get :: "live_pool_cache \<Rightarrow> pubkey \<Rightarrow> cached_pool_state option \<times> live_pool_cache" where
  "lc_get c pool =
     (case hm_get (lc_pools c) pool of
        Some e \<Rightarrow> (Some (ce_state e), c\<lparr> lc_cache_hits := lc_cache_hits c + 1 \<rparr>)
      | None \<Rightarrow> (None, c\<lparr> lc_cache_misses := lc_cache_misses c + 1 \<rparr>))"

definition get_with_metadata ::
    "instant \<Rightarrow> live_pool_cache \<Rightarrow> pubkey \<Rightarrow> (cached_pool_state \<times> u64 \<times> u64) option \<times> live_pool_cache"
where
  "get_with_metadata now c pool =
     (case hm_get (lc_pools c) pool of
        Some e \<Rightarrow> (Some (ce_state e, ce_slot e, age_ms now e),
                   c\<lparr> lc_cache_hits := lc_cache_hits c + 1 \<rparr>)
      | None \<Rightarrow> (None, c\<lparr> lc_cache_misses := lc_cache_misses c + 1 \<rparr>))"

definition get_last_seen_slot :: "live_pool_cache \<Rightarrow> pubkey \<Rightarrow> u64 option" where
  "get_last_seen_slot c pool = map_option ce_last_seen_slot (hm_get (lc_pools c) pool)"

definition get_mint_program :: "live_pool_cache \<Rightarrow> pubkey \<Rightarrow> pubkey option" where
  "get_mint_program c mint = hm_get (lc_mint_programs c) mint"

definition get_mint_decimals :: "live_pool_cache \<Rightarrow> pubkey \<Rightarrow> u8 option" where
  "get_mint_decimals c mint = hm_get (lc_mint_decimals c) mint"

definition get_tracked_vaults :: "live_pool_cache \<Rightarrow> pubkey list" where
  "get_tracked_vaults c = map fst (lc_vault_to_pool c)"

section \<open>Vault routing\<close>

fun vault_pubkeys_for_pool_state :: "cached_pool_state \<Rightarrow> pubkey list" where
  "vault_pubkeys_for_pool_state (Orca s) = [ow_token_vault_a s, ow_token_vault_b s]"
| "vault_pubkeys_for_pool_state (RaydiumAmm s) = [ra_coin_vault s, ra_pc_vault s]"
| "vault_pubkeys_for_pool_state (RaydiumCpmm s) = [rc_token_0_vault s, rc_token_1_vault s]"
| "vault_pubkeys_for_pool_state (Meteora s) = [md_reserve_x s, md_reserve_y s]"
| "vault_pubkeys_for_pool_state (MeteoraCpmm s) = [mc_token_0_vault s, mc_token_1_vault s]"
| "vault_pubkeys_for_pool_state (PumpAmm s) =
     [ps_pool_base_token_account s, ps_pool_quote_token_account s]"
| "vault_pubkeys_for_pool_state (PumpFun _) = []"

definition notify_vault_update :: "live_pool_cache \<Rightarrow> live_pool_cache" where
  "notify_vault_update c =
     (let current_count = of_nat (length (lc_vault_to_pool c)) in
      if current_count > lc_last_notified_vault_count c + 10
      then (case lc_vault_update_tx c of
              None \<Rightarrow> c
            | Some tx \<Rightarrow> c\<lparr>
                lc_vault_update_tx := Some (if vc_has_receiver tx
                  then tx\<lparr> vc_value := get_tracked_vaults c \<rparr> else tx),
                lc_last_notified_vault_count := current_count \<rparr>)
      else c)"

definition subscribe_vault_updates :: "live_pool_cache \<Rightarrow> live_pool_cache" where
  "subscribe_vault_updates c =
     c\<lparr> lc_vault_update_tx := Some \<lparr> vc_value = get_tracked_vaults c, vc_has_receiver = True \<rparr> \<rparr>"

definition route_vaults :: "pubkey \<Rightarrow> pubkey \<Rightarrow> pubkey \<Rightarrow> live_pool_cache \<Rightarrow> live_pool_cache" where
  "route_vaults pool a b c =
     c\<lparr> lc_vault_to_pool := hm_put b (pool, VB) (hm_put a (pool, VA) (lc_vault_to_pool c)) \<rparr>"

fun insert_vaults :: "pubkey \<Rightarrow> cached_pool_state \<Rightarrow> live_pool_cache \<Rightarrow> live_pool_cache" where
  "insert_vaults pool (Orca s) c = route_vaults pool (ow_token_vault_a s) (ow_token_vault_b s) c"
| "insert_vaults pool (RaydiumAmm s) c = route_vaults pool (ra_coin_vault s) (ra_pc_vault s) c"
| "insert_vaults pool (RaydiumCpmm s) c = route_vaults pool (rc_token_0_vault s) (rc_token_1_vault s) c"
| "insert_vaults pool (Meteora s) c = route_vaults pool (md_reserve_x s) (md_reserve_y s) c"
| "insert_vaults pool (MeteoraCpmm s) c = route_vaults pool (mc_token_0_vault s) (mc_token_1_vault s) c"
| "insert_vaults pool (PumpAmm s) c =
     route_vaults pool (ps_pool_base_token_account s) (ps_pool_quote_token_account s) c"
| "insert_vaults pool (PumpFun _) c = c"

definition register_vaults :: "pubkey \<Rightarrow> cached_pool_state \<Rightarrow> live_pool_cache \<Rightarrow> live_pool_cache" where
  "register_vaults pool state c = notify_vault_update (insert_vaults pool state c)"

section \<open>Upsert\<close>

fun fill_orca_programs :: "live_pool_cache \<Rightarrow> cached_pool_state \<Rightarrow> cached_pool_state" where
  "fill_orca_programs c (Orca s) = Orca (s\<lparr>
     ow_token_a_program :=
       (if ow_token_a_program s = None then get_mint_program c (ow_token_mint_a s)
        else ow_token_a_program s),
     ow_token_b_program :=
       (if ow_token_b_program s = None then get_mint_program c (ow_token_mint_b s)
        else ow_token_b_program s) \<rparr>)"
| "fill_orca_programs c state = state"

definition refreshed_entry ::
    "(hash_input list \<Rightarrow> u64) \<Rightarrow> instant \<Rightarrow> cache_entry \<Rightarrow> cached_pool_state \<Rightarrow> u64 \<Rightarrow> cache_entry" where
  "refreshed_entry hash now prev incoming slot =
     (let state = merge_account_parse_preserves_existing (ce_state prev) incoming slot;
          refresh_age = pool_state_has_reserve_basis state;
          material_changed = pool_state_material_fingerprint hash state
            \<noteq> pool_state_material_fingerprint hash (ce_state prev)
      in \<lparr> ce_state = state,
           ce_slot = (if slot = 0 then ce_slot prev else if material_changed then slot else ce_slot prev),
           ce_updated_at = (if refresh_age \<and> material_changed then now else ce_updated_at prev),
           ce_last_seen_slot =
             (if slot > 0 then max (ce_last_seen_slot prev) slot else ce_last_seen_slot prev) \<rparr>)"

definition upsert_prepare ::
    "(hash_input list \<Rightarrow> u64) \<Rightarrow> instant \<Rightarrow> live_pool_cache \<Rightarrow> pubkey \<Rightarrow> cached_pool_state \<Rightarrow> u64
      \<Rightarrow> (cache_entry \<times> bool) option" where
  "upsert_prepare hash now c pool state slot =
     (let state = fill_orca_programs c state in
      case hm_get (lc_pools c) pool of
        Some prev \<Rightarrow>
          if slot > 0 \<and> slot < ce_last_seen_slot prev then None
          else Some (refreshed_entry hash now prev state slot, False)
      | None \<Rightarrow> Some (cache_entry_new now state slot, True))"

definition pump_amm_register_pool_creator_for_quote ::
    "pubkey \<Rightarrow> pubkey \<Rightarrow> live_pool_cache \<Rightarrow> live_pool_cache" where
  "pump_amm_register_pool_creator_for_quote base_mint creator c =
     (if creator \<noteq> pubkey_default
      then c\<lparr> lc_creator_by_base_mint := hm_put base_mint creator (lc_creator_by_base_mint c) \<rparr>
      else c)"

fun register_creator :: "cached_pool_state \<Rightarrow> live_pool_cache \<Rightarrow> live_pool_cache" where
  "register_creator (PumpAmm s) c =
     (case ps_creator s of
        Some creator \<Rightarrow> pump_amm_register_pool_creator_for_quote (ps_base_mint s) creator c
      | None \<Rightarrow> c)"
| "register_creator _ c = c"

definition store_entry :: "pubkey \<Rightarrow> cache_entry \<Rightarrow> live_pool_cache \<Rightarrow> live_pool_cache" where
  "store_entry pool e c =
     c\<lparr> lc_pools := hm_put pool e (lc_pools c), lc_updates_total := lc_updates_total c + 1 \<rparr>"

definition upsert_commit ::
    "(hash_input list \<Rightarrow> u64) \<Rightarrow> instant \<Rightarrow> live_pool_cache \<Rightarrow> pubkey \<Rightarrow> u64 \<Rightarrow> cache_entry \<times> bool
      \<Rightarrow> bool \<times> live_pool_cache" where
  "upsert_commit hash now c pool slot prepared =
     (let (entry_to_store, prepared_as_insert) = prepared;
          c = register_creator (ce_state entry_to_store)
                (register_vaults pool (ce_state entry_to_store) c)
      in case hm_get (lc_pools c) pool of
           None \<Rightarrow> (True, store_entry pool entry_to_store c)
         | Some prev \<Rightarrow>
             if slot > 0 \<and> slot < ce_last_seen_slot prev then (False, c)
             else (True, store_entry pool
                    (if prepared_as_insert
                     then refreshed_entry hash now prev (ce_state entry_to_store) slot
                     else entry_to_store) c))"

definition upsert ::
    "(hash_input list \<Rightarrow> u64) \<Rightarrow> instant \<Rightarrow> live_pool_cache \<Rightarrow> pubkey \<Rightarrow> cached_pool_state \<Rightarrow> u64
      \<Rightarrow> bool \<times> live_pool_cache" where
  "upsert hash now c pool state slot =
     (case upsert_prepare hash now c pool state slot of
        None \<Rightarrow> (False, c)
      | Some prepared \<Rightarrow> upsert_commit hash now c pool slot prepared)"

definition lc_remove :: "live_pool_cache \<Rightarrow> pubkey \<Rightarrow> bool \<times> live_pool_cache" where
  "lc_remove c pool =
     (case hm_get (lc_pools c) pool of
        Some e \<Rightarrow> (True, c\<lparr> lc_pools := hm_del pool (lc_pools c),
                       lc_vault_to_pool := fold hm_del (vault_pubkeys_for_pool_state (ce_state e))
                         (lc_vault_to_pool c) \<rparr>)
      | None \<Rightarrow> (False, c))"

definition touch_freshness_on_existing_reserve_basis ::
    "instant \<Rightarrow> live_pool_cache \<Rightarrow> pubkey \<Rightarrow> bool \<times> live_pool_cache" where
  "touch_freshness_on_existing_reserve_basis now c pool =
     (case hm_get (lc_pools c) pool of
        Some e \<Rightarrow> if pool_state_has_reserve_basis (ce_state e)
                  then (True, store_entry pool (e\<lparr> ce_updated_at := now \<rparr>) c)
                  else (False, c)
      | None \<Rightarrow> (False, c))"

section \<open>Vault balances\<close>

text \<open>The reserve slot that a vault of the given side feeds, read and written.\<close>

fun balance_changed :: "cached_pool_state \<Rightarrow> vault_position \<Rightarrow> u64 \<Rightarrow> bool" where
  "balance_changed (Orca s) VA b = (ow_vault_a_balance s \<noteq> Some b)"
| "balance_changed (Orca s) VB b = (ow_vault_b_balance s \<noteq> Some b)"
| "balance_changed (RaydiumAmm s) VA b = (ra_coin_reserve s \<noteq> Some b)"
| "balance_changed (RaydiumAmm s) VB b = (ra_pc_reserve s \<noteq> Some b)"
| "balance_changed (RaydiumCpmm s) VA b = (rc_reserve_0 s \<noteq> Some b)"
| "balance_changed (RaydiumCpmm s) VB b = (rc_reserve_1 s \<noteq> Some b)"
| "balance_changed (Meteora s) VA b = (md_reserve_x_balance s \<noteq> Some b)"
| "balance_changed (Meteora s) VB b = (md_reserve_y_balance s \<noteq> Some b)"
| "balance_changed (MeteoraCpmm s) VA b = (mc_reserve_0 s \<noteq> b)"
| "balance_changed (MeteoraCpmm s) VB b = (mc_reserve_1 s \<noteq> b)"
| "balance_changed (PumpAmm s) VA b = (ps_base_reserve s \<noteq> Some b)"
| "balance_changed (PumpAmm s) VB b = (ps_quote_reserve s \<noteq> Some b)"
| "balance_changed (PumpFun s) _ b = False"

fun set_reserve :: "cached_pool_state \<Rightarrow> vault_position \<Rightarrow> u64 \<Rightarrow> cached_pool_state" where
  "set_reserve (Orca s) VA b = Orca (s\<lparr> ow_vault_a_balance := Some b \<rparr>)"
| "set_reserve (Orca s) VB b = Orca (s\<lparr> ow_vault_b_balance := Some b \<rparr>)"
| "set_reserve (RaydiumAmm s) VA b = RaydiumAmm (s\<lparr> ra_coin_reserve := Some b \<rparr>)"
| "set_reserve (RaydiumAmm s) VB b = RaydiumAmm (s\<lparr> ra_pc_reserve := Some b \<rparr>)"
| "set_reserve (RaydiumCpmm s) VA b = RaydiumCpmm (s\<lparr> rc_reserve_0 := Some b \<rparr>)"
| "set_reserve (RaydiumCpmm s) VB b = RaydiumCpmm (s\<lparr> rc_reserve_1 := Some b \<rparr>)"
| "set_reserve (Meteora s) VA b = Meteora (s\<lparr> md_reserve_x_balance := Some b \<rparr>)"
| "set_reserve (Meteora s) VB b = Meteora (s\<lparr> md_reserve_y_balance := Some b \<rparr>)"
| "set_reserve (MeteoraCpmm s) VA b = MeteoraCpmm (s\<lparr> mc_reserve_0 := b \<rparr>)"
| "set_reserve (MeteoraCpmm s) VB b = MeteoraCpmm (s\<lparr> mc_reserve_1 := b \<rparr>)"
| "set_reserve (PumpAmm s) VA b = PumpAmm (s\<lparr> ps_base_reserve := Some b \<rparr>)"
| "set_reserve (PumpAmm s) VB b = PumpAmm (s\<lparr> ps_quote_reserve := Some b \<rparr>)"
| "set_reserve (PumpFun s) _ b = PumpFun s"

definition update_vault_balance ::
    "instant \<Rightarrow> live_pool_cache \<Rightarrow> pubkey \<Rightarrow> u64 \<Rightarrow> u64 \<Rightarrow> live_pool_cache" where
  "update_vault_balance now c vault balance slot =
     (case hm_get (lc_vault_to_pool c) vault of
        None \<Rightarrow> c
      | Some (pool_addr, position) \<Rightarrow>
          (case hm_get (lc_pools c) pool_addr of
             None \<Rightarrow> c
           | Some e \<Rightarrow>
               if \<not> balance_changed (ce_state e) position balance then c
               else if slot > 0 \<and> slot < ce_slot e then c
               else c\<lparr> lc_pools := hm_put pool_addr
                     (e\<lparr> ce_state := set_reserve (ce_state e) position balance,
                         ce_slot := (if slot > 0 then slot else ce_slot e),
                         ce_updated_at := now \<rparr>) (lc_pools c) \<rparr>))"

definition apply_vault_pair_balances_to_reserve_basis ::
    "instant \<Rightarrow> live_pool_cache \<Rightarrow> pubkey \<Rightarrow> pubkey \<Rightarrow> u64 \<Rightarrow> pubkey \<Rightarrow> u64 \<Rightarrow> u64
      \<Rightarrow> bool \<times> live_pool_cache" where
  "apply_vault_pair_balances_to_reserve_basis now c pool base_vault base_balance quote_vault quote_balance slot =
     (let c1 = (if base_balance > 0 then update_vault_balance now c base_vault base_balance slot else c);
          c2 = (if quote_balance > 0 then update_vault_balance now c1 quote_vault quote_balance slot else c1);
          (row, c3) = lc_get c2 pool
      in (case row of None \<Rightarrow> False | Some state \<Rightarrow> pool_state_has_reserve_basis state, c3))"

section \<open>Maintenance\<close>

definition evict_stale :: "instant \<Rightarrow> live_pool_cache \<Rightarrow> nat \<times> live_pool_cache" where
  "evict_stale now c =
     (let kept = hm_retain (\<lambda>_ e. \<not> is_stale now e (lc_max_age_ms c)) (lc_pools c)
      in (length (lc_pools c) - length kept, c\<lparr> lc_pools := kept \<rparr>))"

fun mints_of_state :: "cached_pool_state \<Rightarrow> pubkey list" where
  "mints_of_state (Orca s) = [ow_token_mint_a s, ow_token_mint_b s]"
| "mints_of_state (Meteora s) = [md_token_x_mint s, md_token_y_mint s]"
| "mints_of_state (MeteoraCpmm s) = [mc_token_0_mint s, mc_token_1_mint s]"
| "mints_of_state (RaydiumAmm s) = [ra_base_mint s, ra_quote_mint s]"
| "mints_of_state (RaydiumCpmm s) = [rc_token_0_mint s, rc_token_1_mint s]"
| "mints_of_state (PumpFun s) = [pf_token_mint s]"
| "mints_of_state (PumpAmm s) = [ps_base_mint s, ps_quote_mint s]"

definition get_tracked_mints :: "live_pool_cache \<Rightarrow> pubkey list" where
  "get_tracked_mints c = remdups (concat (map (mints_of_state \<circ> ce_state \<circ> snd) (lc_pools c)))"

definition set_mint_decimals :: "live_pool_cache \<Rightarrow> pubkey \<Rightarrow> u8 \<Rightarrow> live_pool_cache" where
  "set_mint_decimals c mint decimals =
     (case hm_get (lc_mint_decimals c) mint of
        None \<Rightarrow> c\<lparr> lc_mint_decimals := hm_put mint decimals (lc_mint_decimals c) \<rparr>
      | Some _ \<Rightarrow> c)"

definition map_rows :: "(cached_pool_state \<Rightarrow> cached_pool_state) \<Rightarrow> live_pool_cache \<Rightarrow> live_pool_cache" where
  "map_rows f c =
     c\<lparr> lc_pools := map (\<lambda>(k, e). (k, e\<lparr> ce_state := f (ce_state e) \<rparr>)) (lc_pools c) \<rparr>"

definition modify_row ::
    "pubkey \<Rightarrow> (cached_pool_state \<Rightarrow> cached_pool_state) \<Rightarrow> live_pool_cache \<Rightarrow> live_pool_cache" where
  \<comment> \<open>\<open>if let Some(mut entry) = self.pools.get_mut(pool) { entry.state = f(entry.state) }\<close>\<close>
  "modify_row pool f c =
     (case hm_get (lc_pools c) pool of
        None \<Rightarrow> c
      | Some e \<Rightarrow> c\<lparr> lc_pools := hm_put pool (e\<lparr> ce_state := f (ce_state e) \<rparr>) (lc_pools c) \<rparr>)"

fun set_orca_program :: "pubkey \<Rightarrow> pubkey \<Rightarrow> cached_pool_state \<Rightarrow> cached_pool_state" where
  "set_orca_program mint token_program (Orca s) = Orca (s\<lparr>
     ow_token_a_program :=
       (if ow_token_mint_a s = mint then Some token_program else ow_token_a_program s),
     ow_token_b_program :=
       (if ow_token_mint_b s = mint then Some token_program else ow_token_b_program s) \<rparr>)"
| "set_orca_program mint token_program state = state"

definition update_mint_program :: "live_pool_cache \<Rightarrow> pubkey \<Rightarrow> pubkey \<Rightarrow> live_pool_cache" where
  "update_mint_program c mint token_program =
     map_rows (set_orca_program mint token_program)
       (c\<lparr> lc_mint_programs := hm_put mint token_program (lc_mint_programs c) \<rparr>)"

end
