(* ===== verification/Pool_Layout.thy ===== *)
theory Pool_Layout
  imports Pool_Cache
begin

text \<open>
  The remaining operations of \<open>LivePoolCache\<close>: PumpFun curves, the account lists and the observed
  sell layout of PumpSwap pools, Serum accounts of Raydium rows, and the explicit readiness that
  JetStream merges per venue, with the gates that read it (\<open>execution/live_pool_cache.rs\<close>;
  \<open>pump_amm_normalize_v14_pool_accounts\<close> and \<open>pump_amm_sell_extended_layout_ready\<close> of
  \<open>solana/dex/pumpfun_amm.rs\<close>).

  The two program-derived addresses of the PumpSwap program that the SDK computes are the arguments
  \<open>global_config\<close> and \<open>event_authority\<close>; \<open>from_str\<close> is \<open>Pubkey::from_str\<close>.
\<close>

section \<open>PumpFun curves\<close>

fun pumpfun_snapshot :: "cached_pool_state \<Rightarrow> (u64 \<times> u64 \<times> u64 \<times> u64 \<times> bool \<times> bool) option" where
  "pumpfun_snapshot (PumpFun s) = Some (pf_virtual_token_reserves s, pf_virtual_sol_reserves s,
     pf_real_token_reserves s, pf_real_sol_reserves s, pf_complete s, pf_cashback_enabled s)"
| "pumpfun_snapshot _ = None"

definition pumpfun_bonding_curve_reserves_snapshot ::
    "live_pool_cache \<Rightarrow> pubkey \<Rightarrow> (u64 \<times> u64 \<times> u64 \<times> u64 \<times> bool \<times> bool) option \<times> live_pool_cache"
where
  "pumpfun_bonding_curve_reserves_snapshot c curve =
     (let (row, c') = lc_get c curve in (Option.bind row pumpfun_snapshot, c'))"

fun pumpfun_creator :: "cached_pool_state \<Rightarrow> pubkey option" where
  "pumpfun_creator (PumpFun s) = (if pf_creator s \<noteq> pubkey_default then Some (pf_creator s) else None)"
| "pumpfun_creator _ = None"

definition get_pumpfun_creator :: "live_pool_cache \<Rightarrow> pubkey \<Rightarrow> pubkey option" where
  "get_pumpfun_creator c curve =
     (case hm_get (lc_pools c) curve of None \<Rightarrow> None | Some e \<Rightarrow> pumpfun_creator (ce_state e))"

fun seed_creator :: "pubkey \<Rightarrow> cached_pool_state \<Rightarrow> cached_pool_state" where
  "seed_creator creator (PumpFun s) =
     PumpFun (if pf_creator s = pubkey_default then s\<lparr> pf_creator := creator \<rparr> else s)"
| "seed_creator creator state = state"

definition seed_pumpfun_creator_if_missing :: "live_pool_cache \<Rightarrow> pubkey \<Rightarrow> pubkey \<Rightarrow> live_pool_cache" where
  "seed_pumpfun_creator_if_missing c curve creator =
     (if creator = pubkey_default then c else modify_row curve (seed_creator creator) c)"

text \<open>Loops over the rows that return from inside are searches for the first matching row.\<close>

fun pumpfun_complete_flag :: "pubkey \<Rightarrow> cached_pool_state \<Rightarrow> bool option" where
  "pumpfun_complete_flag mint (PumpFun s) = (if pf_token_mint s = mint then Some (pf_complete s) else None)"
| "pumpfun_complete_flag mint _ = None"

fun first_row :: "(pubkey \<Rightarrow> cached_pool_state \<Rightarrow> 'a option) \<Rightarrow> (pubkey, cache_entry) hashmap \<Rightarrow> 'a option" where
  "first_row f [] = None"
| "first_row f ((k, e) # rows) = (case f k (ce_state e) of Some v \<Rightarrow> Some v | None \<Rightarrow> first_row f rows)"

definition is_pumpfun_complete_for_mint :: "live_pool_cache \<Rightarrow> pubkey \<Rightarrow> bool option" where
  "is_pumpfun_complete_for_mint c mint = first_row (\<lambda>_. pumpfun_complete_flag mint) (lc_pools c)"

fun mark_complete_rows ::
    "pubkey \<Rightarrow> (pubkey, cache_entry) hashmap \<Rightarrow> bool \<times> (pubkey, cache_entry) hashmap" where
  "mark_complete_rows mint [] = (False, [])"
| "mark_complete_rows mint ((k, e) # rows) =
     (case ce_state e of
        PumpFun s \<Rightarrow>
          if pf_token_mint s = mint \<and> \<not> pf_complete s
          then (True, (k, e\<lparr> ce_state := PumpFun (s\<lparr> pf_complete := True \<rparr>) \<rparr>) # rows)
          else (let (r, rows') = mark_complete_rows mint rows in (r, (k, e) # rows'))
      | _ \<Rightarrow> (let (r, rows') = mark_complete_rows mint rows in (r, (k, e) # rows')))"

definition mark_pumpfun_complete_for_mint :: "live_pool_cache \<Rightarrow> pubkey \<Rightarrow> bool \<times> live_pool_cache" where
  "mark_pumpfun_complete_for_mint c mint =
     (let (r, rows) = mark_complete_rows mint (lc_pools c) in (r, c\<lparr> lc_pools := rows \<rparr>))"

definition pumpfun_bonding_curve_complete_for_mint :: "live_pool_cache \<Rightarrow> pubkey \<Rightarrow> bool" where
  "pumpfun_bonding_curve_complete_for_mint c mint \<longleftrightarrow>
     list_ex (\<lambda>(k, e). pumpfun_complete_flag mint (ce_state e) = Some True) (lc_pools c)"

section \<open>PumpSwap account lists\<close>

definition pump_amm_normalize_v14_pool_accounts ::
    "pubkey \<Rightarrow> pubkey \<Rightarrow> pubkey list \<Rightarrow> bool \<times> pubkey list" where
  "pump_amm_normalize_v14_pool_accounts global_config event_authority accounts =
     (if length accounts < 14 then (False, accounts)
      else
        let r1 = accounts ! 1 \<noteq> global_config;
            a1 = (if r1 then accounts[1 := global_config] else accounts);
            r2 = a1 ! 8 \<noteq> event_authority;
            a2 = (if r2 then a1[8 := event_authority] else a1)
        in (r1 \<or> r2, a2))"

definition account_at :: "pubkey list \<Rightarrow> nat \<Rightarrow> pubkey option" where
  \<comment> \<open>\<open>accounts.get(i).copied().filter(|p| *p != Pubkey::default())\<close>\<close>
  "account_at accounts i =
     (if i < length accounts \<and> accounts ! i \<noteq> pubkey_default then Some (accounts ! i) else None)"

definition ensure_pump_amm_tx_layout_from_accounts ::
    "(hash_input list \<Rightarrow> u64) \<Rightarrow> instant \<Rightarrow> live_pool_cache \<Rightarrow> pubkey \<Rightarrow> pubkey list \<Rightarrow> u64
      \<Rightarrow> bool \<times> live_pool_cache" where
  "ensure_pump_amm_tx_layout_from_accounts hash now c pool accounts slot =
     (if hm_get (lc_pools c) pool \<noteq> None then (True, c)
      else case (account_at accounts 2, account_at accounts 3, account_at accounts 4, account_at accounts 5) of
             (Some base_mint, Some quote_mint, Some base_vault, Some quote_vault) \<Rightarrow>
               (True, snd (upsert hash now c pool
                 (pump_amm_tx_layout_seed base_mint quote_mint base_vault quote_vault) slot))
           | _ \<Rightarrow> (False, c))"

fun is_pump_amm :: "cached_pool_state \<Rightarrow> bool" where
  "is_pump_amm (PumpAmm s) = True"
| "is_pump_amm _ = False"

fun put_pool_accounts :: "pubkey list \<Rightarrow> cached_pool_state \<Rightarrow> cached_pool_state" where
  "put_pool_accounts accounts (PumpAmm s) = PumpAmm (s\<lparr> ps_pool_accounts := accounts \<rparr>)"
| "put_pool_accounts accounts state = state"

definition set_pump_amm_pool_accounts_at_slot ::
    "(hash_input list \<Rightarrow> u64) \<Rightarrow> pubkey \<Rightarrow> pubkey \<Rightarrow> instant \<Rightarrow> live_pool_cache \<Rightarrow> pubkey \<Rightarrow> pubkey list \<Rightarrow> u64
      \<Rightarrow> set_pump_amm_pool_accounts_result \<times> live_pool_cache" where
  "set_pump_amm_pool_accounts_at_slot hash global_config event_authority now c pool accounts slot =
     (if \<not> pump_amm_layer_c_complete pool accounts then (MissIncompleteAccounts, c)
      else
        let accounts = snd (pump_amm_normalize_v14_pool_accounts global_config event_authority accounts);
            (ensured, c) = (if hm_get (lc_pools c) pool = None
              then ensure_pump_amm_tx_layout_from_accounts hash now c pool accounts slot
              else (True, c))
        in if \<not> ensured then (MissNoCacheEntry, c)
           else case hm_get (lc_pools c) pool of
                  Some e \<Rightarrow> if is_pump_amm (ce_state e)
                            then (Written, modify_row pool (put_pool_accounts accounts) c)
                            else (MissNoCacheEntry, c)
                | None \<Rightarrow> (MissNoCacheEntry, c))"

definition set_pump_amm_pool_accounts ::
    "(hash_input list \<Rightarrow> u64) \<Rightarrow> pubkey \<Rightarrow> pubkey \<Rightarrow> instant \<Rightarrow> live_pool_cache \<Rightarrow> pubkey \<Rightarrow> pubkey list
      \<Rightarrow> set_pump_amm_pool_accounts_result \<times> live_pool_cache" where
  "set_pump_amm_pool_accounts hash global_config event_authority now c pool accounts =
     set_pump_amm_pool_accounts_at_slot hash global_config event_authority now c pool accounts 0"

fun pump_amm_accounts :: "cached_pool_state \<Rightarrow> pubkey list option" where
  "pump_amm_accounts (PumpAmm s) = (if ps_pool_accounts s \<noteq> [] then Some (ps_pool_accounts s) else None)"
| "pump_amm_accounts _ = None"

definition get_pump_amm_pool_accounts :: "live_pool_cache \<Rightarrow> pubkey \<Rightarrow> pubkey list option" where
  "get_pump_amm_pool_accounts c pool =
     (case hm_get (lc_pools c) pool of None \<Rightarrow> None | Some e \<Rightarrow> pump_amm_accounts (ce_state e))"

fun set_serum ::
    "pubkey \<Rightarrow> pubkey \<Rightarrow> pubkey \<Rightarrow> pubkey option \<Rightarrow> pubkey option \<Rightarrow> cached_pool_state \<Rightarrow> cached_pool_state"
where
  "set_serum bids asks event_queue base_vault quote_vault (RaydiumAmm s) = RaydiumAmm (s\<lparr>
     ra_serum_bids := Some bids, ra_serum_asks := Some asks, ra_serum_event_queue := Some event_queue,
     ra_serum_base_vault :=
       (case base_vault of Some bv \<Rightarrow> Some bv | None \<Rightarrow> ra_serum_base_vault s),
     ra_serum_quote_vault :=
       (case quote_vault of Some qv \<Rightarrow> Some qv | None \<Rightarrow> ra_serum_quote_vault s) \<rparr>)"
| "set_serum _ _ _ _ _ state = state"

definition set_raydium_serum_accounts ::
    "live_pool_cache \<Rightarrow> pubkey \<Rightarrow> pubkey \<Rightarrow> pubkey \<Rightarrow> pubkey \<Rightarrow> pubkey option \<Rightarrow> pubkey option \<Rightarrow> live_pool_cache"
where
  "set_raydium_serum_accounts c pool bids asks event_queue base_vault quote_vault =
     modify_row pool (set_serum bids asks event_queue base_vault quote_vault) c"

section \<open>The observed sell layout of PumpSwap\<close>

record sell_layout =
  sl_requires_extended :: bool
  sl_third_meta :: "pubkey option"
  sl_tail_0 :: "pubkey option"
  sl_tail_1 :: "pubkey option"
  sl_fee_tail_0 :: "pubkey option"
  sl_fee_tail_1 :: "pubkey option"
  sl_requires_fee_tail :: bool
  sl_requires_pre_fee_metas :: bool
  sl_pre_fee_meta_1 :: "pubkey option"

definition non_default :: "pubkey option \<Rightarrow> pubkey option" where
  \<comment> \<open>\<open>.filter(|p| *p != Pubkey::default())\<close>\<close>
  "non_default p = (case p of Some k \<Rightarrow> if k \<noteq> pubkey_default then Some k else None | None \<Rightarrow> None)"

definition put_known :: "pubkey \<Rightarrow> pubkey option \<Rightarrow> (pubkey, pubkey) hashmap \<Rightarrow> (pubkey, pubkey) hashmap" where
  "put_known pool v m = (case non_default v of Some k \<Rightarrow> hm_put pool k m | None \<Rightarrow> m)"

definition put_or_remove :: "pubkey \<Rightarrow> pubkey option \<Rightarrow> (pubkey, pubkey) hashmap \<Rightarrow> (pubkey, pubkey) hashmap"
where
  "put_or_remove pool v m = (case non_default v of Some k \<Rightarrow> hm_put pool k m | None \<Rightarrow> hm_del pool m)"

definition put_if_true :: "pubkey \<Rightarrow> bool \<Rightarrow> (pubkey, bool) hashmap \<Rightarrow> (pubkey, bool) hashmap" where
  "put_if_true pool b m = (if b then hm_put pool True m else m)"

definition merge_pump_amm_sell_extended_layout ::
    "live_pool_cache \<Rightarrow> pubkey \<Rightarrow> sell_layout \<Rightarrow> live_pool_cache" where
  "merge_pump_amm_sell_extended_layout c pool l = c\<lparr>
     lc_sell_extended_flag := hm_put pool (sl_requires_extended l) (lc_sell_extended_flag c),
     lc_sell_requires_fee_tail := put_if_true pool (sl_requires_fee_tail l) (lc_sell_requires_fee_tail c),
     lc_sell_requires_pre_fee_metas :=
       put_if_true pool (sl_requires_pre_fee_metas l) (lc_sell_requires_pre_fee_metas c),
     lc_sell_pre_fee_meta_1 := put_known pool (sl_pre_fee_meta_1 l) (lc_sell_pre_fee_meta_1 c),
     lc_sell_third_meta := put_known pool (sl_third_meta l) (lc_sell_third_meta c),
     lc_sell_tail_0 := put_known pool (sl_tail_0 l) (lc_sell_tail_0 c),
     lc_sell_tail_1 := put_known pool (sl_tail_1 l) (lc_sell_tail_1 c),
     lc_sell_fee_tail_0 := put_known pool (sl_fee_tail_0 l) (lc_sell_fee_tail_0 c),
     lc_sell_fee_tail_1 := put_known pool (sl_fee_tail_1 l) (lc_sell_fee_tail_1 c) \<rparr>"

definition set_pump_amm_sell_layout_ready :: "live_pool_cache \<Rightarrow> pubkey \<Rightarrow> bool \<Rightarrow> live_pool_cache" where
  "set_pump_amm_sell_layout_ready c pool ready =
     c\<lparr> lc_sell_layout_ready := hm_put pool ready (lc_sell_layout_ready c) \<rparr>"

definition set_pump_amm_sell_layout_authoritative ::
    "live_pool_cache \<Rightarrow> pubkey \<Rightarrow> sell_layout \<Rightarrow> live_pool_cache" where
  "set_pump_amm_sell_layout_authoritative c pool l = c\<lparr>
     lc_sell_extended_flag := hm_put pool (sl_requires_extended l) (lc_sell_extended_flag c),
     lc_sell_requires_fee_tail := hm_put pool (sl_requires_fee_tail l) (lc_sell_requires_fee_tail c),
     lc_sell_requires_pre_fee_metas :=
       hm_put pool (sl_requires_pre_fee_metas l) (lc_sell_requires_pre_fee_metas c),
     lc_sell_pre_fee_meta_1 := put_or_remove pool (sl_pre_fee_meta_1 l) (lc_sell_pre_fee_meta_1 c),
     lc_sell_third_meta := put_or_remove pool (sl_third_meta l) (lc_sell_third_meta c),
     lc_sell_tail_0 := put_or_remove pool (sl_tail_0 l) (lc_sell_tail_0 c),
     lc_sell_tail_1 := put_or_remove pool (sl_tail_1 l) (lc_sell_tail_1 c),
     lc_sell_fee_tail_0 := put_or_remove pool (sl_fee_tail_0 l) (lc_sell_fee_tail_0 c),
     lc_sell_fee_tail_1 := put_or_remove pool (sl_fee_tail_1 l) (lc_sell_fee_tail_1 c) \<rparr>"

definition pump_amm_layout_generation :: "live_pool_cache \<Rightarrow> pubkey \<Rightarrow> u64" where
  "pump_amm_layout_generation c pool = hm_get_or 0 (lc_layout_generation c) pool"

definition bump_pump_amm_layout_generation :: "live_pool_cache \<Rightarrow> pubkey \<Rightarrow> u64 \<times> live_pool_cache" where
  "bump_pump_amm_layout_generation c pool =
     (let g = hm_get_or 0 (lc_layout_generation c) pool + 1
      in (g, c\<lparr> lc_layout_generation := hm_put pool g (lc_layout_generation c) \<rparr>))"

definition merge_pump_amm_layout_generation_from_metadata ::
    "live_pool_cache \<Rightarrow> pubkey \<Rightarrow> (string, string) hashmap option \<Rightarrow> live_pool_cache" where
  "merge_pump_amm_layout_generation_from_metadata c pool meta =
     (case Option.bind (Option.bind meta (\<lambda>m. hm_get m ''pump_amm_layout_generation'')) parse_u64 of
        None \<Rightarrow> c
      | Some parsed \<Rightarrow>
          let g = hm_get_or 0 (lc_layout_generation c) pool
          in c\<lparr> lc_layout_generation :=
               hm_put pool (if parsed > g then parsed else g) (lc_layout_generation c) \<rparr>)"

definition meta_true :: "(string, string) hashmap \<Rightarrow> string \<Rightarrow> bool" where
  "meta_true m k \<longleftrightarrow> hm_get m k = Some ''true''"

definition meta_pubkey :: "(string \<Rightarrow> pubkey option) \<Rightarrow> (string, string) hashmap \<Rightarrow> string \<Rightarrow> pubkey option"
where
  "meta_pubkey from_str m k = non_default (Option.bind (hm_get m k) from_str)"

definition sell_layout_of_metadata :: "(string \<Rightarrow> pubkey option) \<Rightarrow> (string, string) hashmap \<Rightarrow> sell_layout"
where
  "sell_layout_of_metadata from_str m = \<lparr>
     sl_requires_extended = meta_true m ''pump_amm_sell_cashback_remaining'',
     sl_third_meta = meta_pubkey from_str m ''pump_amm_sell_cashback_third_meta'',
     sl_tail_0 = meta_pubkey from_str m ''pump_amm_sell_extended_tail_0'',
     sl_tail_1 = meta_pubkey from_str m ''pump_amm_sell_extended_tail_1'',
     sl_fee_tail_0 = meta_pubkey from_str m ''pump_amm_sell_extended_fee_tail_0'',
     sl_fee_tail_1 = meta_pubkey from_str m ''pump_amm_sell_extended_fee_tail_1'',
     sl_requires_fee_tail = meta_true m ''pump_amm_sell_requires_fee_tail'',
     sl_requires_pre_fee_metas = meta_true m ''pump_amm_sell_requires_pre_fee_metas'',
     sl_pre_fee_meta_1 = meta_pubkey from_str m ''pump_amm_sell_pre_fee_meta_1'' \<rparr>"

definition merge_pump_amm_sell_layout_from_metadata ::
    "(string \<Rightarrow> pubkey option) \<Rightarrow> live_pool_cache \<Rightarrow> pubkey \<Rightarrow> (string, string) hashmap option
      \<Rightarrow> live_pool_cache" where
  "merge_pump_amm_sell_layout_from_metadata from_str c pool meta =
     (let c = merge_pump_amm_layout_generation_from_metadata c pool meta in
      case meta of
        None \<Rightarrow> c
      | Some m \<Rightarrow>
          let c = (case hm_get m ''pump_amm_sell_layout_ready'' of
                     Some v \<Rightarrow> set_pump_amm_sell_layout_ready c pool (v = ''true'')
                   | None \<Rightarrow> c);
              l = sell_layout_of_metadata from_str m
          in if meta_true m ''pump_amm_sell_layout_authoritative''
             then set_pump_amm_sell_layout_authoritative c pool l
             else c\<lparr>
               lc_sell_extended_flag := put_if_true pool (sl_requires_extended l) (lc_sell_extended_flag c),
               lc_sell_third_meta := put_known pool (sl_third_meta l) (lc_sell_third_meta c),
               lc_sell_tail_0 := put_known pool (sl_tail_0 l) (lc_sell_tail_0 c),
               lc_sell_tail_1 := put_known pool (sl_tail_1 l) (lc_sell_tail_1 c),
               lc_sell_fee_tail_0 := put_known pool (sl_fee_tail_0 l) (lc_sell_fee_tail_0 c),
               lc_sell_fee_tail_1 := put_known pool (sl_fee_tail_1 l) (lc_sell_fee_tail_1 c),
               lc_sell_requires_fee_tail :=
                 put_if_true pool (sl_requires_fee_tail l) (lc_sell_requires_fee_tail c),
               lc_sell_requires_pre_fee_metas :=
                 put_if_true pool (sl_requires_pre_fee_metas l) (lc_sell_requires_pre_fee_metas c),
               lc_sell_pre_fee_meta_1 := put_known pool (sl_pre_fee_meta_1 l) (lc_sell_pre_fee_meta_1 c) \<rparr>)"

definition pump_amm_sell_extended_layout ::
    "live_pool_cache \<Rightarrow> pubkey \<Rightarrow> bool \<times> pubkey option \<times> pubkey option \<times> pubkey option" where
  "pump_amm_sell_extended_layout c pool =
     (hm_get_or False (lc_sell_extended_flag c) pool, hm_get (lc_sell_third_meta c) pool,
      hm_get (lc_sell_tail_0 c) pool, hm_get (lc_sell_tail_1 c) pool)"

definition pump_amm_sell_extended_layout_ready :: "sell_layout \<Rightarrow> bool" where
  "pump_amm_sell_extended_layout_ready l =
     (if \<not> sl_requires_extended l then True
      else
        let third_ok = non_default (sl_third_meta l) \<noteq> None;
            pre_fee_ok = (if sl_requires_pre_fee_metas l then non_default (sl_pre_fee_meta_1 l) \<noteq> None
                          else True);
            needs_fee_tail = (sl_requires_fee_tail l \<or> sl_fee_tail_0 l \<noteq> None \<or> sl_fee_tail_1 l \<noteq> None);
            fee_ok = (if sl_requires_pre_fee_metas l then non_default (sl_fee_tail_0 l) \<noteq> None
                      else if needs_fee_tail
                      then non_default (sl_fee_tail_0 l) \<noteq> None \<and> non_default (sl_fee_tail_1 l) \<noteq> None
                      else True)
        in third_ok \<and> pre_fee_ok \<and> fee_ok)"

definition pump_amm_sell_layout_complete_for_ready :: "live_pool_cache \<Rightarrow> pubkey \<Rightarrow> bool" where
  "pump_amm_sell_layout_complete_for_ready c pool =
     (if \<not> hm_get_or True (lc_sell_layout_ready c) pool then False
      else
        let (requires_extended, third, t0, t1) = pump_amm_sell_extended_layout c pool
        in pump_amm_sell_extended_layout_ready \<lparr>
             sl_requires_extended = requires_extended, sl_third_meta = third,
             sl_tail_0 = t0, sl_tail_1 = t1,
             sl_fee_tail_0 = hm_get (lc_sell_fee_tail_0 c) pool,
             sl_fee_tail_1 = hm_get (lc_sell_fee_tail_1 c) pool,
             sl_requires_fee_tail = hm_get_or False (lc_sell_requires_fee_tail c) pool,
             sl_requires_pre_fee_metas = hm_get_or False (lc_sell_requires_pre_fee_metas c) pool,
             sl_pre_fee_meta_1 = hm_get (lc_sell_pre_fee_meta_1 c) pool \<rparr>)"

section \<open>Explicit readiness per venue\<close>

definition merge_readiness ::
    "pubkey \<Rightarrow> dex_pool_readiness \<Rightarrow> (pubkey, dex_pool_readiness) hashmap \<Rightarrow> (pubkey, dex_pool_readiness) hashmap"
where
  \<comment> \<open>\<open>.entry(pool).and_modify(|stored| *stored = stored.merge(incoming)).or_insert(incoming)\<close>\<close>
  "merge_readiness pool incoming m =
     (case hm_get m pool of
        Some stored \<Rightarrow> hm_put pool (readiness_merge stored incoming) m
      | None \<Rightarrow> hm_put pool incoming m)"

definition merge_pump_amm_pool_accounts_readiness ::
    "live_pool_cache \<Rightarrow> pubkey \<Rightarrow> dex_pool_readiness \<Rightarrow> live_pool_cache" where
  "merge_pump_amm_pool_accounts_readiness c pool r =
     c\<lparr> lc_pool_accounts_readiness := merge_readiness pool r (lc_pool_accounts_readiness c) \<rparr>"

definition set_pump_amm_pool_accounts_readiness_authoritative ::
    "live_pool_cache \<Rightarrow> pubkey \<Rightarrow> dex_pool_readiness \<Rightarrow> live_pool_cache" where
  "set_pump_amm_pool_accounts_readiness_authoritative c pool r =
     c\<lparr> lc_pool_accounts_readiness := hm_put pool r (lc_pool_accounts_readiness c) \<rparr>"

definition merge_pumpfun_bonding_readiness ::
    "live_pool_cache \<Rightarrow> pubkey \<Rightarrow> dex_pool_readiness \<Rightarrow> live_pool_cache" where
  "merge_pumpfun_bonding_readiness c curve r =
     c\<lparr> lc_pumpfun_bonding_readiness := merge_readiness curve r (lc_pumpfun_bonding_readiness c) \<rparr>"

definition merge_raydium_cpmm_pool_readiness ::
    "live_pool_cache \<Rightarrow> pubkey \<Rightarrow> dex_pool_readiness \<Rightarrow> live_pool_cache" where
  "merge_raydium_cpmm_pool_readiness c pool r =
     c\<lparr> lc_raydium_cpmm_readiness := merge_readiness pool r (lc_raydium_cpmm_readiness c) \<rparr>"

definition merge_raydium_amm_pool_readiness ::
    "live_pool_cache \<Rightarrow> pubkey \<Rightarrow> dex_pool_readiness \<Rightarrow> live_pool_cache" where
  "merge_raydium_amm_pool_readiness c pool r =
     c\<lparr> lc_raydium_amm_readiness := merge_readiness pool r (lc_raydium_amm_readiness c) \<rparr>"

definition merge_meteora_cpmm_pool_readiness ::
    "live_pool_cache \<Rightarrow> pubkey \<Rightarrow> dex_pool_readiness \<Rightarrow> live_pool_cache" where
  "merge_meteora_cpmm_pool_readiness c pool r =
     c\<lparr> lc_meteora_cpmm_readiness := merge_readiness pool r (lc_meteora_cpmm_readiness c) \<rparr>"

definition merge_orca_pool_readiness ::
    "live_pool_cache \<Rightarrow> pubkey \<Rightarrow> dex_pool_readiness \<Rightarrow> live_pool_cache" where
  "merge_orca_pool_readiness c pool r =
     c\<lparr> lc_orca_readiness := merge_readiness pool r (lc_orca_readiness c) \<rparr>"

definition merge_meteora_dlmm_pool_readiness ::
    "live_pool_cache \<Rightarrow> pubkey \<Rightarrow> dex_pool_readiness \<Rightarrow> live_pool_cache" where
  "merge_meteora_dlmm_pool_readiness c pool r =
     c\<lparr> lc_meteora_dlmm_readiness := merge_readiness pool r (lc_meteora_dlmm_readiness c) \<rparr>"

definition explicitly_ready :: "(pubkey, dex_pool_readiness) hashmap \<Rightarrow> pubkey \<Rightarrow> bool" where
  "explicitly_ready m pool = unwrap_or (map_option (\<lambda>r. r = Ready) (hm_get m pool)) False"

text \<open>Each gate walks the rows of its venue that list the mint and asks for explicit readiness.\<close>

fun raydium_cpmm_lists :: "pubkey \<Rightarrow> cached_pool_state \<Rightarrow> bool" where
  "raydium_cpmm_lists mint (RaydiumCpmm s) = (rc_token_0_mint s = mint \<or> rc_token_1_mint s = mint)"
| "raydium_cpmm_lists mint _ = False"

fun meteora_cpmm_lists :: "pubkey \<Rightarrow> cached_pool_state \<Rightarrow> bool" where
  "meteora_cpmm_lists mint (MeteoraCpmm s) = (mc_token_0_mint s = mint \<or> mc_token_1_mint s = mint)"
| "meteora_cpmm_lists mint _ = False"

fun meteora_dlmm_lists :: "pubkey \<Rightarrow> cached_pool_state \<Rightarrow> bool" where
  "meteora_dlmm_lists mint (Meteora s) = (md_token_x_mint s = mint \<or> md_token_y_mint s = mint)"
| "meteora_dlmm_lists mint _ = False"

fun orca_lists :: "pubkey \<Rightarrow> cached_pool_state \<Rightarrow> bool" where
  "orca_lists mint (Orca s) = (ow_token_mint_a s = mint \<or> ow_token_mint_b s = mint)"
| "orca_lists mint _ = False"

fun raydium_amm_lists :: "pubkey \<Rightarrow> cached_pool_state \<Rightarrow> bool" where
  "raydium_amm_lists mint (RaydiumAmm s) = (ra_base_mint s = mint \<or> ra_quote_mint s = mint)"
| "raydium_amm_lists mint _ = False"

fun pumpfun_lists :: "pubkey \<Rightarrow> cached_pool_state \<Rightarrow> bool" where
  "pumpfun_lists mint (PumpFun s) = (pf_token_mint s = mint)"
| "pumpfun_lists mint _ = False"

definition some_ready_row ::
    "(cached_pool_state \<Rightarrow> bool) \<Rightarrow> (pubkey, dex_pool_readiness) hashmap \<Rightarrow> live_pool_cache \<Rightarrow> bool" where
  "some_ready_row listed m c \<longleftrightarrow>
     list_ex (\<lambda>(pool, e). listed (ce_state e) \<and> explicitly_ready m pool) (lc_pools c)"

definition base_mint_has_explicit_raydium_cpmm_ready_pool :: "live_pool_cache \<Rightarrow> pubkey \<Rightarrow> bool" where
  "base_mint_has_explicit_raydium_cpmm_ready_pool c mint =
     some_ready_row (raydium_cpmm_lists mint) (lc_raydium_cpmm_readiness c) c"

definition base_mint_has_explicit_meteora_cpmm_ready_pool :: "live_pool_cache \<Rightarrow> pubkey \<Rightarrow> bool" where
  "base_mint_has_explicit_meteora_cpmm_ready_pool c mint =
     some_ready_row (meteora_cpmm_lists mint) (lc_meteora_cpmm_readiness c) c"

definition base_mint_has_explicit_meteora_dlmm_ready_pool :: "live_pool_cache \<Rightarrow> pubkey \<Rightarrow> bool" where
  "base_mint_has_explicit_meteora_dlmm_ready_pool c mint =
     some_ready_row (meteora_dlmm_lists mint) (lc_meteora_dlmm_readiness c) c"

definition base_mint_has_explicit_orca_ready_pool :: "live_pool_cache \<Rightarrow> pubkey \<Rightarrow> bool" where
  "base_mint_has_explicit_orca_ready_pool c mint =
     some_ready_row (orca_lists mint) (lc_orca_readiness c) c"

definition base_mint_has_explicit_raydium_amm_ready_pool :: "live_pool_cache \<Rightarrow> pubkey \<Rightarrow> bool" where
  "base_mint_has_explicit_raydium_amm_ready_pool c mint =
     some_ready_row (raydium_amm_lists mint) (lc_raydium_amm_readiness c) c"

fun explicit_pump_amm_row :: "live_pool_cache \<Rightarrow> pubkey \<Rightarrow> pubkey \<Rightarrow> cached_pool_state \<Rightarrow> bool" where
  "explicit_pump_amm_row c mint pool (PumpAmm s) \<longleftrightarrow>
     ps_base_mint s = mint \<and> explicitly_ready (lc_pool_accounts_readiness c) pool
     \<and> pump_amm_sell_layout_complete_for_ready c pool
     \<and> ps_pool_accounts s \<noteq> [] \<and> length (ps_pool_accounts s) \<ge> 14"
| "explicit_pump_amm_row c mint pool _ = False"

definition base_mint_has_explicit_pump_amm_ready_pool :: "live_pool_cache \<Rightarrow> pubkey \<Rightarrow> bool" where
  "base_mint_has_explicit_pump_amm_ready_pool c mint \<longleftrightarrow>
     list_ex (\<lambda>(pool, e). explicit_pump_amm_row c mint pool (ce_state e)) (lc_pools c)"

definition base_mint_has_any_ready_pool :: "live_pool_cache \<Rightarrow> pubkey \<Rightarrow> bool" where
  "base_mint_has_any_ready_pool c mint =
     (if base_mint_has_explicit_pump_amm_ready_pool c mint then True
      else if base_mint_has_explicit_raydium_cpmm_ready_pool c mint then True
      else if base_mint_has_explicit_meteora_cpmm_ready_pool c mint then True
      else if base_mint_has_explicit_meteora_dlmm_ready_pool c mint then True
      else if base_mint_has_explicit_orca_ready_pool c mint then True
      else if base_mint_has_explicit_raydium_amm_ready_pool c mint then True
      else some_ready_row (pumpfun_lists mint) (lc_pumpfun_bonding_readiness c) c)"

definition pump_amm_effective_ready_for_cache_first_accounts ::
    "live_pool_cache \<Rightarrow> pubkey \<Rightarrow> pump_amm_state \<Rightarrow> bool" where
  "pump_amm_effective_ready_for_cache_first_accounts c pool s =
     (if \<not> pump_amm_sell_layout_complete_for_ready c pool then False
      else case hm_get (lc_pool_accounts_readiness c) pool of
             Some r \<Rightarrow> r = Ready
           | None \<Rightarrow> length (ps_pool_accounts s) \<ge> 14
               \<and> unwrap_or (map_option (\<lambda>b. b > 0) (ps_base_reserve s)) False
               \<and> unwrap_or (map_option (\<lambda>q. q > 0) (ps_quote_reserve s)) False)"

fun ready_accounts_of_row :: "live_pool_cache \<Rightarrow> pubkey \<Rightarrow> cached_pool_state \<Rightarrow> pubkey list option" where
  "ready_accounts_of_row c pool (PumpAmm s) =
     (if ps_pool_accounts s = [] \<or> \<not> pump_amm_effective_ready_for_cache_first_accounts c pool s
      then None else Some (ps_pool_accounts s))"
| "ready_accounts_of_row c pool _ = None"

definition get_ready_pump_amm_pool_accounts_for_pool_market ::
    "live_pool_cache \<Rightarrow> pubkey \<Rightarrow> pubkey list option" where
  "get_ready_pump_amm_pool_accounts_for_pool_market c pool =
     (case hm_get (lc_pools c) pool of None \<Rightarrow> None | Some e \<Rightarrow> ready_accounts_of_row c pool (ce_state e))"

fun ready_accounts_for_base_mint ::
    "live_pool_cache \<Rightarrow> pubkey \<Rightarrow> pubkey \<Rightarrow> cached_pool_state \<Rightarrow> pubkey list option" where
  "ready_accounts_for_base_mint c mint pool (PumpAmm s) =
     (if ps_base_mint s = mint \<and> ps_pool_accounts s \<noteq> []
         \<and> pump_amm_effective_ready_for_cache_first_accounts c pool s
      then Some (ps_pool_accounts s) else None)"
| "ready_accounts_for_base_mint c mint pool _ = None"

definition get_ready_pump_amm_pool_accounts_by_base_mint ::
    "live_pool_cache \<Rightarrow> pubkey \<Rightarrow> pubkey list option" where
  "get_ready_pump_amm_pool_accounts_by_base_mint c mint =
     first_row (ready_accounts_for_base_mint c mint) (lc_pools c)"

fun explicit_jetstream_accounts :: "live_pool_cache \<Rightarrow> pubkey \<Rightarrow> cached_pool_state \<Rightarrow> pubkey list option" where
  "explicit_jetstream_accounts c pool (PumpAmm s) =
     (if \<not> explicitly_ready (lc_pool_accounts_readiness c) pool then None
      else if \<not> pump_amm_sell_layout_complete_for_ready c pool then None
      else let n = length (ps_pool_accounts s)
           in if n \<noteq> 12 \<and> n \<noteq> 14 then None else Some (ps_pool_accounts s))"
| "explicit_jetstream_accounts c pool _ = None"

definition get_explicit_jetstream_ready_pump_amm_pool_accounts_for_pool_market ::
    "live_pool_cache \<Rightarrow> pubkey \<Rightarrow> pubkey list option" where
  "get_explicit_jetstream_ready_pump_amm_pool_accounts_for_pool_market c pool =
     (case hm_get (lc_pools c) pool of
        None \<Rightarrow> None | Some e \<Rightarrow> explicit_jetstream_accounts c pool (ce_state e))"

fun accounts_for_base_mint :: "pubkey \<Rightarrow> cached_pool_state \<Rightarrow> pubkey list option" where
  "accounts_for_base_mint mint (PumpAmm s) =
     (if ps_base_mint s = mint \<and> ps_pool_accounts s \<noteq> [] then Some (ps_pool_accounts s) else None)"
| "accounts_for_base_mint mint _ = None"

definition get_pump_amm_pool_accounts_by_base_mint :: "live_pool_cache \<Rightarrow> pubkey \<Rightarrow> pubkey list option" where
  "get_pump_amm_pool_accounts_by_base_mint c mint =
     first_row (\<lambda>_. accounts_for_base_mint mint) (lc_pools c)"

fun reserves_for_base_mint :: "pubkey \<Rightarrow> pubkey \<Rightarrow> cached_pool_state \<Rightarrow> (u64 \<times> u64 \<times> pubkey) option" where
  "reserves_for_base_mint mint pool (PumpAmm s) =
     (if ps_base_mint s = mint
      then (case (ps_base_reserve s, ps_quote_reserve s) of
              (Some b, Some q) \<Rightarrow> Some (b, q, pool) | _ \<Rightarrow> None)
      else None)"
| "reserves_for_base_mint mint pool _ = None"

definition get_pump_amm_reserves_by_base_mint ::
    "live_pool_cache \<Rightarrow> pubkey \<Rightarrow> (u64 \<times> u64 \<times> pubkey) option" where
  "get_pump_amm_reserves_by_base_mint c mint = first_row (reserves_for_base_mint mint) (lc_pools c)"

definition pump_amm_quote_ready_by_base_mint :: "live_pool_cache \<Rightarrow> pubkey \<Rightarrow> bool" where
  "pump_amm_quote_ready_by_base_mint c mint =
     (case get_pump_amm_pool_accounts_by_base_mint c mint of
        Some a \<Rightarrow>
          if length a \<ge> 14
          then (case get_pump_amm_reserves_by_base_mint c mint of
                  Some (b, q, _) \<Rightarrow> b > 0 \<and> q > 0 | None \<Rightarrow> False)
          else False
      | None \<Rightarrow> False)"

definition pump_amm_swap_accounts_ready_by_base_mint :: "live_pool_cache \<Rightarrow> pubkey \<Rightarrow> bool" where
  "pump_amm_swap_accounts_ready_by_base_mint c mint =
     (case get_ready_pump_amm_pool_accounts_by_base_mint c mint of
        Some a \<Rightarrow> length a \<ge> 14 | None \<Rightarrow> False)"

end
