(* ===== verification/Pool_Properties.thy ===== *)
theory Pool_Properties
  imports Pool_Layout "HOL-Library.Multiset"
begin

text \<open>
  What the pool cache promises its readers: the newest slot seen of a row never goes back, whatever
  the threads do; stale snapshots change nothing; an account parse never erases a known reserve; a
  vault update lands in the row and side that registered the vault; readiness merged per venue does
  not depend on the order of delivery.
\<close>

section \<open>Effect of the operations on the rows\<close>







lemma pools_insert_vaults [simp]: "lc_pools (insert_vaults pool st c) = lc_pools c"
  by (cases st) (simp_all add: route_vaults_def)

lemma pools_register_vaults [simp]: "lc_pools (register_vaults pool st c) = lc_pools c"
  by (simp add: register_vaults_def notify_vault_update_def Let_def split: option.split)

lemma pools_register_creator [simp]: "lc_pools (register_creator st c) = lc_pools c"
  by (cases st)
    (simp_all add: pump_amm_register_pool_creator_for_quote_def split: option.split)

lemma pools_store_entry [simp]: "lc_pools (store_entry pool e c) = hm_put pool e (lc_pools c)"
  by (simp add: store_entry_def)


lemma pools_modify_row:
  "lc_pools (modify_row pool f c) =
     (case hm_get (lc_pools c) pool of
        None \<Rightarrow> lc_pools c
      | Some e \<Rightarrow> hm_put pool (e\<lparr> ce_state := f (ce_state e) \<rparr>) (lc_pools c))"
  by (simp add: modify_row_def split: option.split)









lemma upsert_existing:
  assumes "hm_get (lc_pools c) pool = Some prev" "\<not> (slot > 0 \<and> slot < ce_last_seen_slot prev)"
  shows "fst (upsert hash now c pool st slot)"
    and "lc_pools (snd (upsert hash now c pool st slot))
           = hm_put pool (refreshed_entry hash now prev (fill_orca_programs c st) slot) (lc_pools c)"
  using assms by (auto simp: upsert_def upsert_prepare_def upsert_commit_def Let_def)

lemma upsert_fresh:
  assumes "hm_get (lc_pools c) pool = None"
  shows "fst (upsert hash now c pool st slot)"
    and "lc_pools (snd (upsert hash now c pool st slot))
           = hm_put pool (cache_entry_new now (fill_orca_programs c st) slot) (lc_pools c)"
  using assms by (simp_all add: upsert_def upsert_prepare_def upsert_commit_def Let_def)

lemma upsert_stale:
  "hm_get (lc_pools c) pool = Some prev \<Longrightarrow> slot > 0 \<Longrightarrow> slot < ce_last_seen_slot prev
     \<Longrightarrow> upsert hash now c pool st slot = (False, c)"
  by (simp add: upsert_def upsert_prepare_def Let_def)



section \<open>Interleavings\<close>








section \<open>The properties\<close>

abbreviation (input) cpmm_row :: "u64 option \<Rightarrow> u64 option \<Rightarrow> cached_pool_state" where
  "cpmm_row r0 r1 \<equiv> RaydiumCpmm \<lparr> rc_token_0_mint = 11, rc_token_1_mint = 12,
     rc_token_0_vault = 21, rc_token_1_vault = 22, rc_reserve_0 = r0, rc_reserve_1 = r1 \<rparr>"


definition example_cache :: live_pool_cache where
  "example_cache = snd (upsert (\<lambda>_. 0) 0 live_pool_cache_new 1 (cpmm_row None None) 50)"

lemma example_cache_upsert:
  "upsert (\<lambda>_. 0) 0 live_pool_cache_new 1 (cpmm_row None None) 50 = (True, example_cache)"
  by (simp add: example_cache_def prod_eq_iff upsert_fresh(1) live_pool_cache_new_def
      with_max_age_ms_def)

lemma example_cache_row:
  "hm_get (lc_pools example_cache) 1 = Some (cache_entry_new 0 (cpmm_row None None) 50)"
  by (simp add: example_cache_def upsert_fresh live_pool_cache_new_def with_max_age_ms_def)


text \<open>
  C21. \<open>upsert\<close> accepts an update exactly when it carries no slot, the pool is new, or the slot is
  not older than the newest one seen. A refused update changes nothing. An accepted one stores the
  row merged with the previous one, advances \<open>last_seen_slot\<close> to the newer of the two, and moves the
  quote slot and the age only when the material fingerprint changed (the age only if there is a
  reserve to quote from).
\<close>

theorem upsert_accepts_iff:
  "let (accepted, c') = upsert hash now c pool st slot in
   accepted = (case hm_get (lc_pools c) pool of
                 None \<Rightarrow> True
               | Some prev \<Rightarrow> slot = 0 \<or> ce_last_seen_slot prev \<le> slot)
   \<and> (if accepted
      then hm_get (lc_pools c') = (hm_get (lc_pools c))(pool \<mapsto>
             (case hm_get (lc_pools c) pool of
                None \<Rightarrow> \<lparr> ce_state = fill_orca_programs c st, ce_slot = slot, ce_updated_at = now,
                         ce_last_seen_slot = slot \<rparr>
              | Some prev \<Rightarrow>
                  let row = merge_account_parse_preserves_existing (ce_state prev)
                              (fill_orca_programs c st) slot;
                      changed = (pool_state_material_fingerprint hash row
                                 \<noteq> pool_state_material_fingerprint hash (ce_state prev))
                  in \<lparr> ce_state = row,
                       ce_slot = (if slot \<noteq> 0 \<and> changed then slot else ce_slot prev),
                       ce_updated_at = (if pool_state_has_reserve_basis row \<and> changed then now
                                        else ce_updated_at prev),
                       ce_last_seen_slot = max (ce_last_seen_slot prev) slot \<rparr>))
      else c' = c)"
proof (cases "hm_get (lc_pools c) pool")
  case None
  from upsert_fresh [OF None, of hash now st slot] None show ?thesis
    by (auto simp: update_conv' cache_entry_new_def split: prod.splits)
next
  case (Some prev)
  show ?thesis
  proof (cases "slot > 0 \<and> slot < ce_last_seen_slot prev")
    case True
    with Some show ?thesis by (auto simp: upsert_stale)
  next
    case False
    then have "slot = 0 \<or> ce_last_seen_slot prev \<le> slot"
      by (metis not_less word_neq_0_conv)
    with upsert_existing [OF Some False, of hash now st] Some show ?thesis
      by (auto simp: update_conv' refreshed_entry_def Let_def max_def word_neq_0_conv
          split: prod.splits)
  qed
qed

subsection \<open>Reserves and layout\<close>

text \<open>The reserve a row knows for one side, and whether an update carries it.\<close>

fun reserve_of :: "cached_pool_state \<Rightarrow> vault_position \<Rightarrow> u64 option" where
  "reserve_of (Orca s) p = (case p of VA \<Rightarrow> ow_vault_a_balance s | VB \<Rightarrow> ow_vault_b_balance s)"
| "reserve_of (RaydiumAmm s) p = (case p of VA \<Rightarrow> ra_coin_reserve s | VB \<Rightarrow> ra_pc_reserve s)"
| "reserve_of (RaydiumCpmm s) p = (case p of VA \<Rightarrow> rc_reserve_0 s | VB \<Rightarrow> rc_reserve_1 s)"
| "reserve_of (Meteora s) p = (case p of VA \<Rightarrow> md_reserve_x_balance s | VB \<Rightarrow> md_reserve_y_balance s)"
| "reserve_of (MeteoraCpmm s) p = Some (case p of VA \<Rightarrow> mc_reserve_0 s | VB \<Rightarrow> mc_reserve_1 s)"
| "reserve_of (PumpAmm s) p = (case p of VA \<Rightarrow> ps_base_reserve s | VB \<Rightarrow> ps_quote_reserve s)"
| "reserve_of (PumpFun s) p = None"

fun carries_reserve :: "cached_pool_state \<Rightarrow> u64 \<Rightarrow> vault_position \<Rightarrow> bool" where
  "carries_reserve (MeteoraCpmm s) slot p = (slot = 0 \<or> mc_reserve_0 s \<noteq> 0 \<or> mc_reserve_1 s \<noteq> 0)"
| "carries_reserve st slot p = (reserve_of st p \<noteq> None)"

fun accounts_omitted_or_complete :: "pubkey \<Rightarrow> cached_pool_state \<Rightarrow> bool" where
  "accounts_omitted_or_complete pool (PumpAmm s) =
     (ps_pool_accounts s = [] \<or> pump_amm_layer_c_complete pool (ps_pool_accounts s))"
| "accounts_omitted_or_complete pool _ = True"

lemma preserve_option_reserve_eq:
  "preserve_option_reserve inc ex = (if inc \<noteq> None then inc else ex)"
  by (cases inc) simp_all

lemma preserve_layout_pubkey_default:
  "preserve_layout_pubkey inc ex = pubkey_default \<longleftrightarrow> inc = pubkey_default \<and> ex = pubkey_default"
  by (auto simp: preserve_layout_pubkey_def)

lemma reserve_of_merge:
  "dex_name ex = dex_name inc \<Longrightarrow> reserve_of (merge_account_parse_preserves_existing ex inc slot) p
     = (if carries_reserve inc slot p then reserve_of inc p else reserve_of ex p)"
  by (cases ex; cases inc; cases p)
    (auto simp: preserve_option_reserve_eq merge_raydium_amm_account_fields_from_prior_def
      merge_meteora_cpmm_account_reserves_from_prior_def word_neq_0_conv)

text \<open>
  Merging an account parse over a row of the same venue: each reserve is the incoming one when
  the message carries it and the known one otherwise, so a partial parse never erases a reserve; and
  a row that has its full swap layout keeps it, provided the message brings either no PumpSwap
  account list or a complete one.
\<close>

theorem merge_keeps_reserves_and_layout:
  assumes "dex_name ex = dex_name inc"
  shows "(\<forall>p. reserve_of (merge_account_parse_preserves_existing ex inc slot) p
           = (if carries_reserve inc slot p then reserve_of inc p else reserve_of ex p))
    \<and> (cached_state_layer_c_complete pool ex \<and> accounts_omitted_or_complete pool inc
           \<longrightarrow> cached_state_layer_c_complete pool (merge_account_parse_preserves_existing ex inc slot))"
proof (intro conjI allI impI)
  fix p
  show "reserve_of (merge_account_parse_preserves_existing ex inc slot) p
           = (if carries_reserve inc slot p then reserve_of inc p else reserve_of ex p)"
    using assms by (rule reserve_of_merge)
next
  assume "cached_state_layer_c_complete pool ex \<and> accounts_omitted_or_complete pool inc"
  with assms show "cached_state_layer_c_complete pool (merge_account_parse_preserves_existing ex inc slot)"
    by (cases ex; cases inc) (auto simp: preserve_layout_pubkey_default)
qed

theorem merge_keeps_reserves_and_layout_witness:
  "reserve_of (merge_account_parse_preserves_existing (cpmm_row (Some 7) (Some 9)) (cpmm_row None (Some 3)) 5) VA
     = Some 7
   \<and> cached_state_layer_c_complete 1
       (merge_account_parse_preserves_existing (cpmm_row (Some 7) (Some 9)) (cpmm_row None (Some 3)) 5)"
  using merge_keeps_reserves_and_layout [of "cpmm_row (Some 7) (Some 9)" "cpmm_row None (Some 3)" 5 1]
  by (simp add: pubkey_default_def)

subsection \<open>Vault routing\<close>

lemma vaults_notify [simp]: "lc_vault_to_pool (notify_vault_update c) = lc_vault_to_pool c"
  by (simp add: notify_vault_update_def Let_def split: option.split)

lemma vaults_register_creator [simp]: "lc_vault_to_pool (register_creator st c) = lc_vault_to_pool c"
  by (cases st) (simp_all add: pump_amm_register_pool_creator_for_quote_def split: option.split)

lemma route_registered:
  assumes "vault_pubkeys_for_pool_state st = [a, b]" "a \<noteq> b"
  shows "hm_get (lc_vault_to_pool (register_vaults pool st c)) a = Some (pool, VA)"
    and "hm_get (lc_vault_to_pool (register_vaults pool st c)) b = Some (pool, VB)"
  using assms by (cases st; auto simp: register_vaults_def route_vaults_def update_conv')+

lemma upsert_routes:
  assumes "upsert hash now c pool st slot = (True, c1)" "hm_get (lc_pools c1) pool = Some e"
    and "vault_pubkeys_for_pool_state (ce_state e) = [a, b]" "a \<noteq> b"
  shows "hm_get (lc_vault_to_pool c1) a = Some (pool, VA)"
    and "hm_get (lc_vault_to_pool c1) b = Some (pool, VB)"
proof -
  obtain c0 where "lc_vault_to_pool c1 = lc_vault_to_pool (register_vaults pool (ce_state e) c0)"
    using assms(1,2)
    by (auto simp: upsert_def upsert_prepare_def upsert_commit_def store_entry_def update_conv' Let_def
        split: option.splits if_splits)
  with route_registered [OF assms(3,4)] show
    "hm_get (lc_vault_to_pool c1) a = Some (pool, VA)"
    "hm_get (lc_vault_to_pool c1) b = Some (pool, VB)" by simp_all
qed

fun other_side :: "vault_position \<Rightarrow> vault_position" where
  "other_side VA = VB"
| "other_side VB = VA"

lemma reserve_set_reserve:
  assumes "vault_pubkeys_for_pool_state st = [a, b]"
  shows "reserve_of (set_reserve st p bal) p = Some bal"
    and "reserve_of (set_reserve st p bal) (other_side p) = reserve_of st (other_side p)"
  using assms by (cases st; cases p; simp)+

lemma unchanged_reserve:
  "vault_pubkeys_for_pool_state st = [a, b] \<Longrightarrow> \<not> balance_changed st p bal \<Longrightarrow> reserve_of st p = Some bal"
  by (cases st; cases p) simp_all

text \<open>
  Vault routing: after \<open>upsert\<close> stored a row with two distinct vaults, an update of either
  vault that is not older than the row's quote slot sets exactly the reserve of that side: the other
  side and every other pool are untouched.
\<close>

theorem vault_update_reaches_its_side:
  assumes "upsert hash now c pool st slot = (True, c1)" "hm_get (lc_pools c1) pool = Some e"
    and "vault_pubkeys_for_pool_state (ce_state e) = [a, b]" "a \<noteq> b"
    and "slot' = 0 \<or> ce_slot e \<le> slot'"
    and "c2 = update_vault_balance now' c1 (case p of VA \<Rightarrow> a | VB \<Rightarrow> b) balance slot'"
  shows "\<exists>e2. hm_get (lc_pools c2) pool = Some e2
           \<and> reserve_of (ce_state e2) p = Some balance
           \<and> reserve_of (ce_state e2) (other_side p) = reserve_of (ce_state e) (other_side p)
           \<and> (\<forall>q. q \<noteq> pool \<longrightarrow> hm_get (lc_pools c2) q = hm_get (lc_pools c1) q)"
proof -
  have route: "hm_get (lc_vault_to_pool c1) (case p of VA \<Rightarrow> a | VB \<Rightarrow> b) = Some (pool, p)"
    using upsert_routes [OF assms(1-4)] by (cases p) simp_all
  have "\<not> (slot' > 0 \<and> slot' < ce_slot e)" using assms(5) by auto
  with route assms(2,6) show ?thesis
    using reserve_set_reserve [OF assms(3)] unchanged_reserve [OF assms(3)]
    by (cases "balance_changed (ce_state e) p balance")
      (auto simp: update_vault_balance_def update_conv')
qed

theorem vault_update_reaches_its_side_witness:
  "\<exists>e2. hm_get (lc_pools (update_vault_balance 8 example_cache 22 400 60)) 1 = Some e2
     \<and> reserve_of (ce_state e2) VB = Some 400
     \<and> reserve_of (ce_state e2) (other_side VB) = None
     \<and> (\<forall>q. q \<noteq> 1 \<longrightarrow> hm_get (lc_pools (update_vault_balance 8 example_cache 22 400 60)) q
                     = hm_get (lc_pools example_cache) q)"
  using vault_update_reaches_its_side
    [OF example_cache_upsert example_cache_row, of 21 22 60
        "update_vault_balance 8 example_cache 22 400 60" 8 VB 400]
  by (simp add: cache_entry_new_def)

subsection \<open>PumpSwap account lists\<close>

lemma normalize_complete:
  assumes "pump_amm_layer_c_complete pool accounts"
  shows "snd (pump_amm_normalize_v14_pool_accounts gc ea accounts) = accounts[1 := gc, 8 := ea]"
  using assms
  by (intro nth_equalityI)
    (auto simp: pump_amm_normalize_v14_pool_accounts_def pump_amm_layer_c_complete_def Let_def
      nth_list_update)

lemma get_accounts_after_put:
  assumes "hm_get (lc_pools c) pool = Some e" "is_pump_amm (ce_state e)" "accounts \<noteq> []"
  shows "get_pump_amm_pool_accounts (modify_row pool (put_pool_accounts accounts) c) pool = Some accounts"
  using assms
  by (cases "ce_state e") (auto simp: get_pump_amm_pool_accounts_def pools_modify_row update_conv')

text \<open>The outcome is determined by the list and by the row the pool has, if any.\<close>

definition pool_accounts_outcome ::
    "live_pool_cache \<Rightarrow> pubkey \<Rightarrow> pubkey list \<Rightarrow> set_pump_amm_pool_accounts_result" where
  "pool_accounts_outcome c pool accounts =
     (if \<not> (14 \<le> length accounts \<and> hd accounts = pool) then MissIncompleteAccounts
      else case hm_get (lc_pools c) pool of
             Some e \<Rightarrow> if is_pump_amm (ce_state e) then Written else MissNoCacheEntry
           | None \<Rightarrow> if pubkey_default \<in> {accounts ! 2, accounts ! 3, accounts ! 4, accounts ! 5}
                     then MissNoCacheEntry else Written)"

lemma layer_c_complete_iff:
  "pump_amm_layer_c_complete pool accounts \<longleftrightarrow> 14 \<le> length accounts \<and> hd accounts = pool"
  by (cases accounts) (auto simp: pump_amm_layer_c_complete_def)

lemma ensure_layout:
  assumes "hm_get (lc_pools c) pool = None" "6 \<le> length accounts"
  shows "ensure_pump_amm_tx_layout_from_accounts hash now c pool accounts slot =
    (if pubkey_default \<in> {accounts ! 2, accounts ! 3, accounts ! 4, accounts ! 5} then (False, c)
     else (True, snd (upsert hash now c pool
       (pump_amm_tx_layout_seed (accounts ! 2) (accounts ! 3) (accounts ! 4) (accounts ! 5)) slot)))"
  using assms by (auto simp: ensure_pump_amm_tx_layout_from_accounts_def account_at_def)

lemma seed_is_pump_amm [simp]:
  "is_pump_amm (fill_orca_programs c (pump_amm_tx_layout_seed a b d e))"
  by (simp add: pump_amm_tx_layout_seed_def)

text \<open>
  \<open>set_pump_amm_pool_accounts_at_slot\<close> writes exactly when the list is complete (at least 14
  accounts, the pool first) and the pool has a PumpSwap row or can be given one from the list; then
  the list is stored with the canonical global config and event authority in places 1 and 8. In every
  other case the result says why and the cache is unchanged.
\<close>

theorem set_pool_accounts_outcome:
  "let (r, c') = set_pump_amm_pool_accounts_at_slot hash gc ea now c pool accounts slot in
   r = pool_accounts_outcome c pool accounts
   \<and> (if r = Written
      then get_pump_amm_pool_accounts c' pool = Some (accounts[1 := gc, 8 := ea])
      else c' = c)"
proof (cases "pump_amm_layer_c_complete pool accounts")
  case False
  then show ?thesis
    by (simp add: set_pump_amm_pool_accounts_at_slot_def pool_accounts_outcome_def layer_c_complete_iff)
next
  case complete: True
  define as where "as = accounts[1 := gc, 8 := ea]"
  have as: "as \<noteq> []" "6 \<le> length as"
    and nth: "as ! 2 = accounts ! 2" "as ! 3 = accounts ! 3" "as ! 4 = accounts ! 4" "as ! 5 = accounts ! 5"
    using complete by (auto simp: layer_c_complete_iff as_def)
  note defs = set_pump_amm_pool_accounts_at_slot_def pool_accounts_outcome_def Let_def
    complete [unfolded layer_c_complete_iff] normalize_complete [OF complete, folded as_def]
    as_def [symmetric] layer_c_complete_iff
  show ?thesis
  proof (cases "hm_get (lc_pools c) pool")
    case (Some e)
    with complete show ?thesis
      using get_accounts_after_put [OF Some _ as(1)] by (auto simp only: defs) (auto split: if_splits)
  next
    case None
    have row: "hm_get (lc_pools (snd (upsert hash now c pool st slot))) pool
        = Some (cache_entry_new now (fill_orca_programs c st) slot)" for st
      by (simp add: upsert_fresh [OF None] update_conv')
    from None show ?thesis
      using get_accounts_after_put [OF row _ as(1)]
      by (simp add: defs nth ensure_layout [OF None as(2)] row cache_entry_new_def del: One_nat_def)
  qed
qed

subsection \<open>Sell layout\<close>

lemma hm_get_put_or_remove [simp]:
  "hm_get (put_or_remove pool v m) pool = non_default v"
  by (cases "non_default v") (simp_all add: put_or_remove_def update_conv' delete_conv')

lemma non_default_idem [simp]: "non_default (non_default v) = non_default v"
  by (auto simp: non_default_def split: option.splits)

lemma non_default_meta_pubkey [simp]: "non_default (meta_pubkey from_str m k) = meta_pubkey from_str m k"
  by (simp add: meta_pubkey_def)

lemma layout_ready_generation [simp]:
  "lc_sell_layout_ready (merge_pump_amm_layout_generation_from_metadata c pool meta) = lc_sell_layout_ready c"
  by (simp add: merge_pump_amm_layout_generation_from_metadata_def Let_def split: option.split)

text \<open>
  An authoritative metadata message decides the sell readiness of its pool alone: whatever
  fields earlier messages left behind, the gate afterwards is the layout of this message, together
  with the ready flag (the message's, or the stored one when it has none).
\<close>

theorem authoritative_layout_decides:
  assumes "meta_true m ''pump_amm_sell_layout_authoritative''"
  shows "pump_amm_sell_layout_complete_for_ready
           (merge_pump_amm_sell_layout_from_metadata from_str c pool (Some m)) pool
         = ((case hm_get m ''pump_amm_sell_layout_ready'' of
               Some v \<Rightarrow> v = ''true''
             | None \<Rightarrow> hm_get_or True (lc_sell_layout_ready c) pool)
            \<and> pump_amm_sell_extended_layout_ready (sell_layout_of_metadata from_str m))"
  using assms
  by (simp add: merge_pump_amm_sell_layout_from_metadata_def set_pump_amm_sell_layout_authoritative_def
      set_pump_amm_sell_layout_ready_def pump_amm_sell_layout_complete_for_ready_def
      pump_amm_sell_extended_layout_def sell_layout_of_metadata_def hm_get_or_put Let_def
      split: option.split)

definition example_sell_meta :: "(string, string) hashmap" where
  "example_sell_meta = [(''pump_amm_sell_layout_authoritative'', ''true''),
     (''pump_amm_sell_cashback_remaining'', ''true''), (''pump_amm_sell_cashback_third_meta'', ''k'')]"

theorem authoritative_layout_decides_witness:
  "pump_amm_sell_layout_complete_for_ready
     (merge_pump_amm_sell_layout_from_metadata (\<lambda>s. Some 9) live_pool_cache_new 1 (Some example_sell_meta)) 1"
  by (subst authoritative_layout_decides)
    (simp_all add: example_sell_meta_def meta_true_def meta_pubkey_def non_default_def pubkey_default_def
      sell_layout_of_metadata_def pump_amm_sell_extended_layout_ready_def live_pool_cache_new_def
      with_max_age_ms_def)

subsection \<open>Readiness\<close>

text \<open>The contract the per-venue readiness maps share: a merge raises one pool's level.\<close>

locale readiness_store =
  fixes level :: "'c \<Rightarrow> pubkey \<Rightarrow> dex_pool_readiness option"
    and raise :: "'c \<Rightarrow> pubkey \<Rightarrow> dex_pool_readiness \<Rightarrow> 'c"
  assumes level_raise: "level (raise c pool r) q =
    (if q = pool then Some (case level c pool of None \<Rightarrow> r | Some s \<Rightarrow> max s r) else level c q)"
begin

lemma level_deliver:
  "level (foldl (\<lambda>c (pool, r). raise c pool r) c msgs) q =
     (let rs = map snd (filter (\<lambda>m. fst m = q) msgs) in
      case level c q of
        Some s \<Rightarrow> Some (fold max rs s)
      | None \<Rightarrow> (case rs of [] \<Rightarrow> None | r # rs' \<Rightarrow> Some (fold max rs' r)))"
proof (induction msgs arbitrary: c)
  case Nil
  then show ?case by (simp split: option.split)
next
  case (Cons m msgs)
  obtain pool r where "m = (pool, r)" by (cases m)
  with Cons show ?case
    by (auto simp: Let_def level_raise max.commute split: option.split)
qed

lemma level_deliver_Max:
  "level (foldl (\<lambda>c (pool, r). raise c pool r) c msgs) q =
     (let rs = set_option (level c q) \<union> snd ` {m \<in> set msgs. fst m = q}
      in if rs = {} then None else Some (Max rs))"
proof -
  define rs where "rs = map snd (filter (\<lambda>m. fst m = q) msgs)"
  have set: "snd ` {m \<in> set msgs. fst m = q} = set rs" by (auto simp: rs_def)
  have fold: "fold max xs x = Max (set (x # xs))" for xs and x :: dex_pool_readiness
    by (rule Max.set_eq_fold [symmetric])
  show ?thesis
    unfolding level_deliver set rs_def [symmetric] fold Let_def
    by (cases "level c q"; cases rs) (simp_all add: insert_commute del: Max_insert)
qed

end

lemma hm_get_merge_readiness:
  "hm_get (merge_readiness pool r m) q =
     (if q = pool then Some (case hm_get m pool of None \<Rightarrow> r | Some s \<Rightarrow> max s r) else hm_get m q)"
  by (simp add: merge_readiness_def update_conv' readiness_merge_max split: option.split)

interpretation orca_ready: readiness_store "\<lambda>c. hm_get (lc_orca_readiness c)" merge_orca_pool_readiness
  by unfold_locales (simp add: merge_orca_pool_readiness_def hm_get_merge_readiness)

interpretation raydium_cpmm_ready: readiness_store
    "\<lambda>c. hm_get (lc_raydium_cpmm_readiness c)" merge_raydium_cpmm_pool_readiness
  by unfold_locales (simp add: merge_raydium_cpmm_pool_readiness_def hm_get_merge_readiness)

interpretation raydium_amm_ready: readiness_store
    "\<lambda>c. hm_get (lc_raydium_amm_readiness c)" merge_raydium_amm_pool_readiness
  by unfold_locales (simp add: merge_raydium_amm_pool_readiness_def hm_get_merge_readiness)

interpretation meteora_cpmm_ready: readiness_store
    "\<lambda>c. hm_get (lc_meteora_cpmm_readiness c)" merge_meteora_cpmm_pool_readiness
  by unfold_locales (simp add: merge_meteora_cpmm_pool_readiness_def hm_get_merge_readiness)

interpretation meteora_dlmm_ready: readiness_store
    "\<lambda>c. hm_get (lc_meteora_dlmm_readiness c)" merge_meteora_dlmm_pool_readiness
  by unfold_locales (simp add: merge_meteora_dlmm_pool_readiness_def hm_get_merge_readiness)

interpretation pumpfun_ready: readiness_store
    "\<lambda>c. hm_get (lc_pumpfun_bonding_readiness c)" merge_pumpfun_bonding_readiness
  by unfold_locales (simp add: merge_pumpfun_bonding_readiness_def hm_get_merge_readiness)

interpretation pump_amm_ready: readiness_store
    "\<lambda>c. hm_get (lc_pool_accounts_readiness c)" merge_pump_amm_pool_accounts_readiness
  by unfold_locales (simp add: merge_pump_amm_pool_accounts_readiness_def hm_get_merge_readiness)

lemma Max_eq_Ready_iff:
  "finite S \<Longrightarrow> S \<noteq> {} \<Longrightarrow> Max S = Ready \<longleftrightarrow> Ready \<in> S"
proof -
  assume S: "finite S" "S \<noteq> {}"
  have top: "r \<le> Ready" for r by (simp add: less_eq_dex_pool_readiness_def)
  show ?thesis
  proof
    assume "Max S = Ready" then show "Ready \<in> S" using Max_in [OF S] by simp
  next
    assume "Ready \<in> S" with S top show "Max S = Ready" by (intro Max_eqI) auto
  qed
qed

definition deliver_orca ::
    "live_pool_cache \<Rightarrow> (pubkey \<times> dex_pool_readiness) list \<Rightarrow> live_pool_cache" where
  "deliver_orca c msgs = foldl (\<lambda>c (pool, r). merge_orca_pool_readiness c pool r) c msgs"

definition reported_orca ::
    "live_pool_cache \<Rightarrow> (pubkey \<times> dex_pool_readiness) list \<Rightarrow> pubkey \<Rightarrow> dex_pool_readiness set" where
  "reported_orca c msgs q =
     set_option (hm_get (lc_orca_readiness c) q) \<union> snd ` {m \<in> set msgs. fst m = q}"

text \<open>
  Readiness does not depend on the order of delivery: after any sequence of readiness messages
  the level of an Orca pool is the strongest of the one it had and those that named it, so it is
  never lowered, and the explicit-ready gate of a mint opens exactly when a cached Orca row lists
  the mint and some message (or the earlier state) said \<open>Ready\<close> for that pool.
\<close>

theorem readiness_strongest_delivered:
  "hm_get (lc_orca_readiness (deliver_orca c msgs)) q
     = (if reported_orca c msgs q = {} then None else Some (Max (reported_orca c msgs q)))
   \<and> (base_mint_has_explicit_orca_ready_pool (deliver_orca c msgs) mint \<longleftrightarrow>
        (\<exists>(pool, e) \<in> set (lc_pools c). orca_lists mint (ce_state e) \<and> Ready \<in> reported_orca c msgs pool))"
proof
  have level: "hm_get (lc_orca_readiness (deliver_orca c msgs)) q
      = (if reported_orca c msgs q = {} then None else Some (Max (reported_orca c msgs q)))" for q
    unfolding deliver_orca_def reported_orca_def by (rule orca_ready.level_deliver_Max [unfolded Let_def])
  then show "hm_get (lc_orca_readiness (deliver_orca c msgs)) q
      = (if reported_orca c msgs q = {} then None else Some (Max (reported_orca c msgs q)))" .
  have "lc_pools (deliver_orca c msgs) = lc_pools c"
    unfolding deliver_orca_def by (induction msgs arbitrary: c) (auto simp: merge_orca_pool_readiness_def)
  moreover have "explicitly_ready (lc_orca_readiness (deliver_orca c msgs)) pool
      \<longleftrightarrow> Ready \<in> reported_orca c msgs pool" for pool
    using Max_eq_Ready_iff [of "reported_orca c msgs pool"]
    by (simp add: explicitly_ready_def level) (simp add: reported_orca_def)
  ultimately show "base_mint_has_explicit_orca_ready_pool (deliver_orca c msgs) mint \<longleftrightarrow>
      (\<exists>(pool, e) \<in> set (lc_pools c). orca_lists mint (ce_state e) \<and> Ready \<in> reported_orca c msgs pool)"
    by (simp add: base_mint_has_explicit_orca_ready_pool_def some_ready_row_def list_ex_iff)
qed

section \<open>Where the code departs from its comments\<close>

text \<open>
  A hydration (slot 0) that is interrupted between its two phases stores the entry it prepared from
  the old row: the newest slot seen goes back and the reserves the other update brought are lost.
\<close>

lemma interrupted_hydration_regresses:
  defines "h \<equiv> (\<lambda>_. 0) :: hash_input list \<Rightarrow> u64"
  defines "prepared \<equiv> the (upsert_prepare h 1 example_cache 1 (cpmm_row None None) 0)"
  defines "newer \<equiv> snd (upsert h 2 example_cache 1 (cpmm_row (Some 7) (Some 9)) 90)"
  defines "after \<equiv> snd (upsert_commit h 3 newer 1 0 prepared)"
  shows "get_last_seen_slot newer 1 = Some 90 \<and> get_last_seen_slot after 1 = Some 50
    \<and> map_option (\<lambda>e. reserve_of (ce_state e) VA) (hm_get (lc_pools newer) 1) = Some (Some 7)
    \<and> map_option (\<lambda>e. reserve_of (ce_state e) VA) (hm_get (lc_pools after) 1) = Some None"
proof -
  have newer: "hm_get (lc_pools newer) 1
      = Some (refreshed_entry h 2 (cache_entry_new 0 (cpmm_row None None) 50) (cpmm_row (Some 7) (Some 9)) 90)"
    by (simp add: newer_def upsert_existing [OF example_cache_row] update_conv' cache_entry_new_def)
  have prepared: "prepared
      = (refreshed_entry h 1 (cache_entry_new 0 (cpmm_row None None) 50) (cpmm_row None None) 0, False)"
    by (simp add: prepared_def upsert_prepare_def example_cache_row)
  have "hm_get (lc_pools after) 1 = Some (fst prepared)"
    by (simp add: after_def upsert_commit_def newer prepared update_conv')
  then show ?thesis
    by (simp add: newer prepared get_last_seen_slot_def refreshed_entry_def cache_entry_new_def h_def
        pool_state_material_fingerprint_def preserve_option_reserve_eq Let_def max_def)
qed

text \<open>
  \<open>update_vault_balance\<close> advances the quote slot but not \<open>last_seen_slot\<close>, which is the one that
  \<open>upsert\<close> compares with: a row whose reserve is of slot 100 accepts reserves of slot 60, and its
  quote slot goes back.
\<close>

lemma older_reserves_accepted_after_vault_update:
  defines "h \<equiv> (\<lambda>xs. if xs = [H_opt_u64 (Some 7), H_opt_u64 (Some 9)] then 1 else 0) :: hash_input list \<Rightarrow> u64"
  defines "ticked \<equiv> update_vault_balance 2 example_cache 21 500 100"
  shows "map_option ce_slot (hm_get (lc_pools ticked) 1) = Some 100
    \<and> fst (upsert h 3 ticked 1 (cpmm_row (Some 7) (Some 9)) 60)
    \<and> map_option ce_slot (hm_get (lc_pools (snd (upsert h 3 ticked 1 (cpmm_row (Some 7) (Some 9)) 60))) 1)
        = Some 60"
proof -
  have route: "hm_get (lc_vault_to_pool example_cache) 21 = Some (1, VA)"
    by (rule upsert_routes(1) [OF example_cache_upsert example_cache_row, of _ 22])
      (simp_all add: cache_entry_new_def)
  have row: "hm_get (lc_pools ticked) 1 = Some \<lparr> ce_state = cpmm_row (Some 500) None, ce_slot = 100,
      ce_updated_at = 2, ce_last_seen_slot = 50 \<rparr>"
    by (simp add: ticked_def update_vault_balance_def route example_cache_row update_conv' cache_entry_new_def)
  then show ?thesis
    by (simp add: upsert_existing [OF row] update_conv' refreshed_entry_def Let_def h_def
        pool_state_material_fingerprint_def preserve_layout_pubkey_def)
qed

text \<open>
  The extended-sell flag is documented as monotone, but the trade path stores whatever the last
  observation said.
\<close>

lemma sell_flag_is_cleared:
  "hm_get (lc_sell_extended_flag (merge_pump_amm_sell_extended_layout
     (merge_pump_amm_sell_extended_layout c pool (l\<lparr> sl_requires_extended := True \<rparr>)) pool
     (l\<lparr> sl_requires_extended := False \<rparr>))) pool = Some False"
  by (simp add: merge_pump_amm_sell_extended_layout_def update_conv')

end
