(* ===== verification/Quote_Calculator.thy ===== *)
theory Quote_Calculator
  imports Pool_Cache
begin

text \<open>
  \<open>execution/quote_calculator.rs\<close>: output amounts from cached reserves, per venue, in \<open>u128\<close>
  arithmetic that wraps (\<open>+\<close>, \<open>*\<close>, \<open>-\<close> in release builds), and the minimum output after slippage.

  The source writes each venue out twice: once for strategies, which know the input mint
  (\<open>quote_output_amount\<close>), and once for the execution engine, which reads it from the intent
  (\<open>calculate_*_quote\<close>). The arithmetic that several bodies repeat is stated once, in
  \<open>fee_product_quote\<close> and \<open>fee_invariant_quote\<close>. \<open>from_str\<close> is \<open>Pubkey::from_str\<close> of the SDK.
\<close>

datatype quote_error =
    NoPoolInIntent | InvalidPubkey
  | OrcaMissingVaultBalances | RaydiumAmmMissingReserves | RaydiumCpmmMissingReserves
  | MeteoraMissingReserves | MeteoraCpmmMissingReserves | MeteoraCpmmDenominatorZero
  | PumpAmmMissingReserves
  | PumpFunComplete | PumpFunSolReserveZero | PumpFunTokenReserveZero
  | PumpFunExceedsRealTokenReserves | PumpFunRealSolReservesZero | PumpFunExceedsRealSolReserves

definition wsol_mint_pk :: pubkey where
  \<comment> \<open>the 32 bytes that \<open>So11111111111111111111111111111111111111112\<close> encodes in base 58\<close>
  "wsol_mint_pk = 0x069b8857feab8184fb687f634618c035dac439dc1aeb3b5598a0f00000000001"

definition pumpfun_is_buy_input :: "pumpfun_state \<Rightarrow> pubkey \<Rightarrow> bool" where
  "pumpfun_is_buy_input s mint =
     (if pf_token_mint s \<noteq> pubkey_default then mint \<noteq> pf_token_mint s else mint = wsol_mint_pk)"

definition apply_slippage :: "u64 \<Rightarrow> u32 \<Rightarrow> u64" where
  "apply_slippage amount_out slippage_bps =
     (if slippage_bps \<ge> 10000 then 0
      else let keep = 10000 - (ucast slippage_bps :: u64)
           in as_u64 (as_u128 amount_out * as_u128 keep div 10000))"

section \<open>Arithmetic shared by the venues\<close>

definition oriented :: "bool \<Rightarrow> u64 \<Rightarrow> u64 \<Rightarrow> u128 \<times> u128" where
  \<comment> \<open>reserve in, reserve out\<close>
  "oriented forward a b =
     (if forward then (as_u128 a, as_u128 b) else (as_u128 b, as_u128 a))"

definition amount_after_fee :: "u64 \<Rightarrow> u128 \<Rightarrow> u128" where
  "amount_after_fee amount_in fee_bps = as_u128 amount_in * (10000 - fee_bps) div 10000"

definition fee_product_quote :: "quote_error \<Rightarrow> u128 \<Rightarrow> u64 \<Rightarrow> u128 \<times> u128 \<Rightarrow> quote_error + u64" where
  "fee_product_quote err fee_bps amount_in reserves =
     (let (reserve_in, reserve_out) = reserves in
      if reserve_in = 0 \<or> reserve_out = 0 then Inl err
      else let after_fee = amount_after_fee amount_in fee_bps
           in Inr (as_u64 (after_fee * reserve_out div (reserve_in + after_fee))))"

definition fee_invariant_quote :: "quote_error \<Rightarrow> u128 \<Rightarrow> u64 \<Rightarrow> u128 \<times> u128 \<Rightarrow> quote_error + u64" where
  "fee_invariant_quote err fee_bps amount_in reserves =
     (let (reserve_in, reserve_out) = reserves in
      if reserve_in = 0 \<or> reserve_out = 0 then Inl err
      else let after_fee = amount_after_fee amount_in fee_bps;
               k = reserve_in * reserve_out;
               new_reserve_in = reserve_in + after_fee
           in Inr (as_u64 (saturating_sub reserve_out (k div new_reserve_in))))"

definition meteora_cpmm_quote :: "u64 \<Rightarrow> u128 \<times> u128 \<Rightarrow> quote_error + u64" where
  "meteora_cpmm_quote amount_in reserves =
     (let (reserve_in, reserve_out) = reserves in
      if reserve_in = 0 \<or> reserve_out = 0 then Inl MeteoraCpmmMissingReserves
      else let fee_multiplier = 10000 - 25 :: u128;
               numerator = reserve_out * as_u128 amount_in * fee_multiplier;
               denominator = reserve_in * 10000 + as_u128 amount_in * fee_multiplier
           in if denominator = 0 then Inl MeteoraCpmmDenominatorZero
              else Inr (as_u64 (numerator div denominator)))"

definition calculate_pumpfun_quote :: "pumpfun_state \<Rightarrow> u64 \<Rightarrow> bool \<Rightarrow> quote_error + u64" where
  "calculate_pumpfun_quote s amount_in is_buy =
     (if pf_complete s then Inl PumpFunComplete
      else
        let a = as_u128 amount_in;
            sol_reserve = as_u128 (pf_virtual_sol_reserves s);
            token_reserve = as_u128 (pf_virtual_token_reserves s)
        in if is_buy
           then if sol_reserve = 0 then Inl PumpFunSolReserveZero
                else Inr (as_u64 (a * token_reserve div max (sol_reserve + a) 1))
           else
             let real_reserves_populated = (pf_real_token_reserves s > 0 \<or> pf_real_sol_reserves s > 0)
             in if real_reserves_populated \<and> amount_in > pf_real_token_reserves s
                then Inl PumpFunExceedsRealTokenReserves
                else if real_reserves_populated \<and> pf_real_sol_reserves s = 0
                then Inl PumpFunRealSolReservesZero
                else if token_reserve = 0 then Inl PumpFunTokenReserveZero
                else
                  let amount_out = a * sol_reserve div max (token_reserve + a) 1
                  in if real_reserves_populated \<and> as_u64 amount_out > pf_real_sol_reserves s
                     then Inl PumpFunExceedsRealSolReserves
                     else Inr (as_u64 amount_out))"

section \<open>Quotes for a known input mint\<close>

fun quote_output_amount :: "cached_pool_state \<Rightarrow> u64 \<Rightarrow> pubkey \<Rightarrow> quote_error + u64" where
  "quote_output_amount (PumpFun s) amount_in mint =
     calculate_pumpfun_quote s amount_in (pumpfun_is_buy_input s mint)"
| "quote_output_amount (PumpAmm s) amount_in mint =
     fee_product_quote PumpAmmMissingReserves 100 amount_in
       (oriented (mint = ps_base_mint s)
         (unwrap_or (ps_base_reserve s) 0) (unwrap_or (ps_quote_reserve s) 0))"
| "quote_output_amount (Orca s) amount_in mint =
     fee_product_quote OrcaMissingVaultBalances (ucast (ow_fee_rate s) div 100) amount_in
       (oriented (mint = ow_token_mint_a s)
         (unwrap_or (ow_vault_a_balance s) 0) (unwrap_or (ow_vault_b_balance s) 0))"
| "quote_output_amount (RaydiumAmm s) amount_in mint =
     fee_invariant_quote RaydiumAmmMissingReserves 25 amount_in
       (oriented (mint = ra_base_mint s)
         (unwrap_or (ra_coin_reserve s) 0) (unwrap_or (ra_pc_reserve s) 0))"
| "quote_output_amount (RaydiumCpmm s) amount_in mint =
     fee_invariant_quote RaydiumCpmmMissingReserves 25 amount_in
       (oriented (mint = rc_token_0_mint s)
         (unwrap_or (rc_reserve_0 s) 0) (unwrap_or (rc_reserve_1 s) 0))"
| "quote_output_amount (Meteora s) amount_in mint =
     fee_product_quote MeteoraMissingReserves (min (ucast (md_bin_step s)) 100) amount_in
       (oriented (mint = md_token_x_mint s)
         (unwrap_or (md_reserve_x_balance s) 0) (unwrap_or (md_reserve_y_balance s) 0))"
| "quote_output_amount (MeteoraCpmm s) amount_in mint =
     meteora_cpmm_quote amount_in (oriented (mint = mc_token_0_mint s) (mc_reserve_0 s) (mc_reserve_1 s))"

section \<open>Quotes for an intent\<close>

definition intent_mint :: "(string \<Rightarrow> pubkey option) \<Rightarrow> trade_intent \<Rightarrow> quote_error + pubkey" where
  \<comment> \<open>\<open>Pubkey::from_str(&intent.resources.input_mint)?\<close>\<close>
  "intent_mint from_str intent =
     (case from_str (input_mint (resources intent)) of None \<Rightarrow> Inl InvalidPubkey | Some m \<Rightarrow> Inr m)"

definition calculate_orca_quote ::
    "(string \<Rightarrow> pubkey option) \<Rightarrow> orca_whirlpool_state \<Rightarrow> u64 \<Rightarrow> trade_intent \<Rightarrow> bool \<Rightarrow> quote_error + u64" where
  "calculate_orca_quote from_str s amount_in intent is_buy =
     (case intent_mint from_str intent of
        Inl err \<Rightarrow> Inl err
      | Inr mint \<Rightarrow>
          fee_product_quote OrcaMissingVaultBalances (ucast (ow_fee_rate s) div 100) amount_in
            (oriented (mint = ow_token_mint_a s)
              (unwrap_or (ow_vault_a_balance s) 0) (unwrap_or (ow_vault_b_balance s) 0)))"

definition calculate_raydium_amm_quote ::
    "(string \<Rightarrow> pubkey option) \<Rightarrow> raydium_amm_state \<Rightarrow> u64 \<Rightarrow> trade_intent \<Rightarrow> bool \<Rightarrow> quote_error + u64" where
  "calculate_raydium_amm_quote from_str s amount_in intent is_buy =
     (case intent_mint from_str intent of
        Inl err \<Rightarrow> Inl err
      | Inr mint \<Rightarrow>
          fee_invariant_quote RaydiumAmmMissingReserves 25 amount_in
            (oriented (mint = ra_base_mint s)
              (unwrap_or (ra_coin_reserve s) 0) (unwrap_or (ra_pc_reserve s) 0)))"

definition calculate_raydium_cpmm_quote ::
    "(string \<Rightarrow> pubkey option) \<Rightarrow> raydium_cpmm_state \<Rightarrow> u64 \<Rightarrow> trade_intent \<Rightarrow> bool \<Rightarrow> quote_error + u64" where
  "calculate_raydium_cpmm_quote from_str s amount_in intent is_buy =
     (case intent_mint from_str intent of
        Inl err \<Rightarrow> Inl err
      | Inr mint \<Rightarrow>
          fee_invariant_quote RaydiumCpmmMissingReserves 25 amount_in
            (oriented (mint = rc_token_0_mint s)
              (unwrap_or (rc_reserve_0 s) 0) (unwrap_or (rc_reserve_1 s) 0)))"

definition calculate_meteora_quote ::
    "(string \<Rightarrow> pubkey option) \<Rightarrow> meteora_state \<Rightarrow> u64 \<Rightarrow> trade_intent \<Rightarrow> bool \<Rightarrow> quote_error + u64" where
  "calculate_meteora_quote from_str s amount_in intent is_buy =
     (case intent_mint from_str intent of
        Inl err \<Rightarrow> Inl err
      | Inr mint \<Rightarrow>
          fee_product_quote MeteoraMissingReserves (min (ucast (md_bin_step s)) 100) amount_in
            (oriented (mint = md_token_x_mint s)
              (unwrap_or (md_reserve_x_balance s) 0) (unwrap_or (md_reserve_y_balance s) 0)))"

definition calculate_meteora_cpmm_quote ::
    "(string \<Rightarrow> pubkey option) \<Rightarrow> meteora_cpmm_state \<Rightarrow> u64 \<Rightarrow> trade_intent \<Rightarrow> bool \<Rightarrow> quote_error + u64" where
  "calculate_meteora_cpmm_quote from_str s amount_in intent is_buy =
     (case intent_mint from_str intent of
        Inl err \<Rightarrow> Inl err
      | Inr mint \<Rightarrow>
          meteora_cpmm_quote amount_in
            (oriented (mint = mc_token_0_mint s) (mc_reserve_0 s) (mc_reserve_1 s)))"

definition calculate_pumpamm_quote ::
    "(string \<Rightarrow> pubkey option) \<Rightarrow> pump_amm_state \<Rightarrow> u64 \<Rightarrow> trade_intent \<Rightarrow> bool \<Rightarrow> quote_error + u64" where
  "calculate_pumpamm_quote from_str s amount_in intent is_buy =
     (case intent_mint from_str intent of
        Inl err \<Rightarrow> Inl err
      | Inr mint \<Rightarrow>
          fee_product_quote PumpAmmMissingReserves 100 amount_in
            (oriented (mint = ps_base_mint s)
              (unwrap_or (ps_base_reserve s) 0) (unwrap_or (ps_quote_reserve s) 0)))"

fun quote_for_intent ::
    "(string \<Rightarrow> pubkey option) \<Rightarrow> cached_pool_state \<Rightarrow> u64 \<Rightarrow> trade_intent \<Rightarrow> bool \<Rightarrow> quote_error + u64" where
  "quote_for_intent from_str (Orca s) a intent is_buy = calculate_orca_quote from_str s a intent is_buy"
| "quote_for_intent from_str (RaydiumAmm s) a intent is_buy =
     calculate_raydium_amm_quote from_str s a intent is_buy"
| "quote_for_intent from_str (RaydiumCpmm s) a intent is_buy =
     calculate_raydium_cpmm_quote from_str s a intent is_buy"
| "quote_for_intent from_str (Meteora s) a intent is_buy = calculate_meteora_quote from_str s a intent is_buy"
| "quote_for_intent from_str (MeteoraCpmm s) a intent is_buy =
     calculate_meteora_cpmm_quote from_str s a intent is_buy"
| "quote_for_intent from_str (PumpFun s) a intent is_buy = calculate_pumpfun_quote s a is_buy"
| "quote_for_intent from_str (PumpAmm s) a intent is_buy = calculate_pumpamm_quote from_str s a intent is_buy"

definition calculate_fresh_min_out ::
    "(string \<Rightarrow> pubkey option) \<Rightarrow> instant \<Rightarrow> live_pool_cache \<Rightarrow> trade_intent
      \<Rightarrow> (quote_error + u64 option) \<times> live_pool_cache" where
  "calculate_fresh_min_out from_str now c intent =
     (case pools (resources intent) of
        [] \<Rightarrow> (Inl NoPoolInIntent, c)
      | pool_str # _ \<Rightarrow>
          (case from_str pool_str of
             None \<Rightarrow> (Inl InvalidPubkey, c)
           | Some pool_id \<Rightarrow>
               (case get_with_metadata now c pool_id of
                  (None, c') \<Rightarrow> (Inr None, c')
                | (Some (state, slot, age), c') \<Rightarrow>
                    (case quote_for_intent from_str state (amt_raw (required_capital intent)) intent
                            (side intent = Buy) of
                       Inl err \<Rightarrow> (Inr None, c')
                     | Inr amount_out \<Rightarrow>
                         if amount_out = 0 then (Inr None, c')
                         else (Inr (Some (apply_slippage amount_out (max_slippage_bps intent))), c')))))"

end
