(* ===== verification/Quote_Properties.thy ===== *)
theory Quote_Properties
  imports Quote_Calculator
begin

text \<open>
  The quotes against exact arithmetic on natural numbers: two swap curves (the product formula,
  which rounds down, and the invariant formula, which rounds up), the laws both satisfy, stated as a
  locale, and the proof that the \<open>u128\<close> code computes them without wrapping. From there: a quote never
  exceeds the reserve it draws on, grows with the input, cannot be turned into a profit by swapping
  back, and the engine's minimum output is the strategy's quote less the slippage.
\<close>

section \<open>Swap curves\<close>

definition floor_out :: "nat \<Rightarrow> nat \<Rightarrow> nat \<Rightarrow> nat" where
  "floor_out ri ro a = a * ro div (ri + a)"

definition ceil_out :: "nat \<Rightarrow> nat \<Rightarrow> nat \<Rightarrow> nat" where
  "ceil_out ri ro a = ro - ri * ro div (ri + a)"

text \<open>What a swap curve promises, for a reserve \<open>ri\<close> of the input and \<open>ro\<close> of the output.\<close>

locale swap_curve =
  fixes out :: "nat \<Rightarrow> nat \<Rightarrow> nat \<Rightarrow> nat"
  assumes out_zero: "0 < ri \<Longrightarrow> out ri ro 0 = 0"
    and out_le: "0 < ri \<Longrightarrow> out ri ro a \<le> ro"
    and out_mono: "0 < ri \<Longrightarrow> a \<le> b \<Longrightarrow> out ri ro a \<le> out ri ro b"
begin

lemma out_fits: "0 < ri \<Longrightarrow> ro < n \<Longrightarrow> out ri ro a < n"
  using out_le [of ri ro a] by linarith

end

text \<open>A curve that rounds against the trader keeps the product of the reserves.\<close>

locale safe_curve = swap_curve +
  assumes out_product: "0 < ri \<Longrightarrow> out ri ro a * (ri + a) \<le> a * ro"
begin

lemma out_less:
  assumes "0 < ri" "0 < ro"
  shows "out ri ro a < ro"
proof -
  have "0 < ri * ro" using assms by simp
  then have "a * ro < ro * (ri + a)" by (simp add: algebra_simps)
  with out_product [OF assms(1), of ro a] have "out ri ro a * (ri + a) < ro * (ri + a)" by linarith
  then show ?thesis by simp
qed

lemma product_grows:
  assumes "0 < ri" shows "ri * ro \<le> (ri + a) * (ro - out ri ro a)"
proof -
  have "(ri + a) * (ro - out ri ro a) = (ri + a) * ro - out ri ro a * (ri + a)"
    by (simp add: diff_mult_distrib2 mult.commute)
  with out_product [OF assms, of ro a] show ?thesis by (simp add: algebra_simps)
qed

text \<open>
  Swapping back: of an input \<open>a\<close> only \<open>f\<close> counts (the rest is the fee, which stays in the pool), and
  of the output only \<open>g\<close> counts on the way back.
\<close>

lemma no_round_trip_profit:
  assumes "0 < ri" "0 < ro" "f \<le> a" "g \<le> out ri ro f"
  shows "out (ro - out ri ro f) (ri + a) g \<le> a"
proof -
  let ?x = "out ri ro f"
  have less: "?x < ro" using assms(1,2) by (rule out_less)
  have "out (ro - ?x) (ri + a) g \<le> out (ro - ?x) (ri + a) ?x"
    using less assms(4) by (intro out_mono) auto
  also have "\<dots> \<le> a"
  proof -
    have "out (ro - ?x) (ri + a) ?x * ro * (ri + f) \<le> ?x * (ri + a) * (ri + f)"
      using out_product [of "ro - ?x" "ri + a" ?x] less by (intro mult_right_mono) simp_all
    also have "\<dots> = ?x * (ri + f) * (ri + a)" by (simp add: mult.commute mult.left_commute)
    also have "\<dots> \<le> f * ro * (ri + a)" using out_product [OF assms(1)] by (intro mult_right_mono) auto
    also have "\<dots> \<le> a * ro * (ri + f)"
    proof -
      have "f * (ri + a) \<le> a * (ri + f)" using assms(3) by (simp add: algebra_simps)
      then show ?thesis by (simp add: mult.commute mult.left_commute)
    qed
    finally show ?thesis using assms(1,2) by (simp add: mult.assoc)
  qed
  finally show ?thesis .
qed

end

lemma div_le_div:
  assumes "0 < q" "0 < q'" "x * q' \<le> y * q"
  shows "x div q \<le> y div (q' :: nat)"
proof -
  have "x div q * q' * q \<le> x * q'" using div_times_less_eq_dividend [of x q] by (simp add: mult.commute mult.left_commute)
  also have "\<dots> \<le> y * q" by (rule assms)
  finally have "x div q * q' \<le> y" using assms by simp
  then show ?thesis using assms by (simp add: less_eq_div_iff_mult_less_eq)
qed

interpretation floor_curve: safe_curve floor_out
proof
  fix ri ro a b :: nat
  assume ri: "0 < ri"
  show "floor_out ri ro 0 = 0" by (simp add: floor_out_def)
  show product: "floor_out ri ro a * (ri + a) \<le> a * ro"
    by (simp add: floor_out_def div_times_less_eq_dividend)
  then have "floor_out ri ro a * (ri + a) \<le> ro * (ri + a)" by (simp add: algebra_simps)
  with ri show "floor_out ri ro a \<le> ro" by simp
  show "floor_out ri ro a \<le> floor_out ri ro b" if "a \<le> b"
    unfolding floor_out_def using ri that
    by (intro div_le_div) (auto simp: algebra_simps intro: mult_le_mono)
qed

interpretation ceil_curve: swap_curve ceil_out
proof
  fix ri ro a b :: nat
  assume ri: "0 < ri"
  show "ceil_out ri ro 0 = 0" using ri by (simp add: ceil_out_def)
  show "ceil_out ri ro a \<le> ro" by (simp add: ceil_out_def)
  show "ceil_out ri ro a \<le> ceil_out ri ro b" if "a \<le> b"
    unfolding ceil_out_def using ri that by (intro diff_le_mono2 div_le_mono2) auto
qed

text \<open>The invariant formula is the product formula rounded up.\<close>

lemma ceil_out_floor_out:
  assumes "0 < ri"
  shows "ceil_out ri ro a = floor_out ri ro a + (if (ri + a) dvd a * ro then 0 else 1)"
proof -
  let ?n = "ri + a" and ?q = "ri * ro div (ri + a)" and ?r = "ri * ro mod (ri + a)"
  have split: "ri * ro = ?q * ?n + ?r" and r: "?r < ?n" using assms by (simp_all add: div_mod_decomp)
  have q: "?q \<le> ro"
  proof -
    have "?q * ?n \<le> ro * ?n" using split by (simp add: algebra_simps)
    then show ?thesis using assms by simp
  qed
  have sum: "a * ro + ?r = (ro - ?q) * ?n"
  proof -
    have "?q * ?n \<le> ro * ?n" using q by simp
    moreover have "a * ro + ri * ro = ro * ?n" by (simp add: algebra_simps)
    ultimately show ?thesis using split by (simp add: diff_mult_distrib)
  qed
  show ?thesis
  proof (cases "?r = 0")
    case True
    with sum have "a * ro = (ro - ?q) * ?n" by simp
    then show ?thesis using assms by (simp add: ceil_out_def floor_out_def)
  next
    case False
    then have "?q < ro" using sum q r
      by (metis add_is_0 diff_is_0_eq le_neq_implies_less mult_is_0)
    then obtain d where d: "ro - ?q = Suc d" by (metis Suc_diff_Suc)
    with sum have e: "a * ro = d * ?n + (?n - ?r)" using r by simp
    have "t < m \<Longrightarrow> (d * m + t) div m = d" "t < m \<Longrightarrow> (d * m + t) mod m = t" for t m :: nat by simp_all
    moreover have "?n - ?r < ?n" "?n - ?r \<noteq> 0" using False r by auto
    ultimately have "a * ro div ?n = d" "a * ro mod ?n \<noteq> 0" unfolding e by metis+
    with d show ?thesis by (simp add: ceil_out_def floor_out_def dvd_eq_mod_eq_0)
  qed
qed

section \<open>The word arithmetic is exact\<close>

definition fee_amount :: "nat \<Rightarrow> nat \<Rightarrow> nat" where
  "fee_amount a fee_bps = a * (10000 - fee_bps) div 10000"

lemma fee_amount_le: "fee_amount a fee \<le> a"
proof -
  have "a * (10000 - fee) \<le> a * 10000" by (intro mult_le_mono2) simp
  then have "a * (10000 - fee) div 10000 \<le> a * 10000 div 10000" by (rule div_le_mono)
  then show ?thesis by (simp add: fee_amount_def)
qed

lemma fee_amount_mono: "a \<le> b \<Longrightarrow> fee_amount a fee \<le> fee_amount b fee"
  by (simp add: fee_amount_def div_le_mono)

lemma unat_10000: "unat (10000 :: u128) = 10000"
  by simp

lemma unat_mult_u64:
  assumes "unat (x :: u128) < 2 ^ 64" "unat (y :: u128) < 2 ^ 64"
  shows "unat (x * y) = unat x * unat y"
proof (rule unat_mult_small)
  have "unat x * unat y < 2 ^ 64 * 2 ^ 64" using assms by (intro mult_strict_mono) auto
  then show "unat x * unat y < 2 ^ LENGTH(128)" by simp
qed

lemma unat_add_u64:
  assumes "unat (x :: u128) < 2 ^ 64" "unat (y :: u128) < 2 ^ 64"
  shows "unat (x + y) = unat x + unat y"
  using assms by (intro unat_add_small) simp

lemma unat_after_fee:
  assumes "unat fee \<le> 10000"
  shows "unat (amount_after_fee a fee) = fee_amount (unat a) (unat fee)"
proof -
  have "unat (10000 - fee) = 10000 - unat fee"
    using assms by (simp add: unat_sub_small)
  moreover have "unat (as_u128 a * (10000 - fee)) = unat a * unat (10000 - fee)"
    using unat_lt_u64 [of a] calculation by (subst unat_mult_u64) simp_all
  ultimately show ?thesis
    by (simp add: amount_after_fee_def fee_amount_def unat_div_distrib)
qed

lemma after_fee_lt: "unat fee \<le> 10000 \<Longrightarrow> unat (amount_after_fee a fee) < 2 ^ 64"
  using fee_amount_le [of "unat a" "unat fee"] unat_lt_u64 [of a] by (simp add: unat_after_fee)

lemma as_u128_eq_0 [simp]: "as_u128 x = 0 \<longleftrightarrow> x = 0"
  by (metis unat_as_u128 unat_eq_zero)

lemma fee_product_quote_exact:
  assumes "unat fee \<le> 10000"
  shows "fee_product_quote err fee a (as_u128 x, as_u128 y) =
    (if x = 0 \<or> y = 0 then Inl err
     else Inr (of_nat (floor_out (unat x) (unat y) (fee_amount (unat a) (unat fee)))))"
proof (cases "x = 0 \<or> y = 0")
  case False
  let ?f = "amount_after_fee a fee"
  have "0 < unat x" using False by (simp add: unat_gt_0)
  then have "floor_out (unat x) (unat y) (unat ?f) < 2 ^ 64"
    using unat_lt_u64 [of y] by (rule floor_curve.out_fits)
  moreover have "unat (?f * as_u128 y div (as_u128 x + ?f)) = floor_out (unat x) (unat y) (unat ?f)"
    using after_fee_lt [OF assms, of a] unat_lt_u64 [of x] unat_lt_u64 [of y]
    by (simp add: floor_out_def unat_div_distrib unat_mult_u64 unat_add_u64)
  ultimately have "as_u64 (?f * as_u128 y div (as_u128 x + ?f)) = of_nat (floor_out (unat x) (unat y) (unat ?f))"
    by (rule as_u64_eq_of_nat [rotated])
  with False assms show ?thesis by (simp add: fee_product_quote_def Let_def unat_after_fee)
qed (auto simp: fee_product_quote_def)

lemma fee_invariant_quote_exact:
  assumes "unat fee \<le> 10000"
  shows "fee_invariant_quote err fee a (as_u128 x, as_u128 y) =
    (if x = 0 \<or> y = 0 then Inl err
     else Inr (of_nat (ceil_out (unat x) (unat y) (fee_amount (unat a) (unat fee)))))"
proof (cases "x = 0 \<or> y = 0")
  case False
  let ?f = "amount_after_fee a fee"
  let ?q = "saturating_sub (as_u128 y) (as_u128 x * as_u128 y div (as_u128 x + ?f))"
  have "0 < unat x" using False by (simp add: unat_gt_0)
  then have "ceil_out (unat x) (unat y) (unat ?f) < 2 ^ 64"
    using unat_lt_u64 [of y] by (rule ceil_curve.out_fits)
  moreover have "unat ?q = ceil_out (unat x) (unat y) (unat ?f)"
    using after_fee_lt [OF assms, of a] unat_lt_u64 [of x] unat_lt_u64 [of y]
    by (simp add: ceil_out_def unat_div_distrib unat_mult_u64 unat_add_u64 unat_saturating_sub)
  ultimately have "as_u64 ?q = of_nat (ceil_out (unat x) (unat y) (unat ?f))"
    by (rule as_u64_eq_of_nat [rotated])
  with False assms show ?thesis by (simp add: fee_invariant_quote_def Let_def unat_after_fee)
qed (auto simp: fee_invariant_quote_def)

text \<open>
  The DAMM formula divides a numerator taken modulo \<open>2 ^ 128\<close>: never more than the curve's output, and
  the curve's output when the product fits.
\<close>

definition damm_out :: "nat \<Rightarrow> nat \<Rightarrow> nat \<Rightarrow> nat" where
  "damm_out ri ro a = ro * a * 9975 mod 2 ^ 128 div (ri * 10000 + a * 9975)"

lemma damm_out_fits: "ro * a * 9975 < 2 ^ 128 \<Longrightarrow> damm_out ri ro a = floor_out (ri * 10000) ro (a * 9975)"
  unfolding damm_out_def floor_out_def by (simp only: mod_less mult.assoc mult.commute mult.left_commute)

lemma damm_out_le_floor: "damm_out ri ro a \<le> floor_out (ri * 10000) ro (a * 9975)"
proof -
  have "ro * a * 9975 mod 2 ^ 128 \<le> a * 9975 * ro"
    using mod_less_eq_dividend [of "ro * a * 9975" "2 ^ 128"] by (simp only: mult.assoc mult.commute mult.left_commute)
  then show ?thesis unfolding damm_out_def floor_out_def by (rule div_le_mono)
qed

lemma damm_out_le: "0 < ri \<Longrightarrow> damm_out ri ro a \<le> ro"
  using damm_out_le_floor [of ri ro a] floor_curve.out_le [of "ri * 10000" ro "a * 9975"] by simp


lemma meteora_cpmm_quote_exact:
  "meteora_cpmm_quote a (as_u128 x, as_u128 y) =
    (if x = 0 \<or> y = 0 then Inl MeteoraCpmmMissingReserves
     else Inr (of_nat (damm_out (unat x) (unat y) (unat a))))"
proof (cases "x = 0 \<or> y = 0")
  case False
  let ?num = "as_u128 y * as_u128 a * 9975" and ?den = "as_u128 x * 10000 + as_u128 a * 9975"
  have x: "0 < unat x" using False by (simp add: unat_gt_0)
  have num: "unat ?num = unat y * unat a * 9975 mod 2 ^ 128"
  proof -
    have "unat (as_u128 y * as_u128 a) = unat y * unat a"
      using unat_lt_u64 [of a] unat_lt_u64 [of y] by (simp add: unat_mult_u64)
    then show ?thesis by (simp only: unat_word_ariths(2)) simp
  qed
  have xa: "unat (as_u128 x * 10000) = unat x * 10000" "unat (as_u128 a * 9975) = unat a * 9975"
    using unat_lt_u64 [of a] unat_lt_u64 [of x] by (simp_all add: unat_mult_u64)
  then have den: "unat ?den = unat x * 10000 + unat a * 9975"
    using unat_lt_u64 [of a] unat_lt_u64 [of x] by (subst unat_add_small) simp_all
  then have "0 < unat ?den" using x by simp
  then have "?den \<noteq> 0" by (metis less_irrefl unat_0)
  moreover have "unat (?num div ?den) = damm_out (unat x) (unat y) (unat a)"
    by (simp only: unat_div_distrib num den damm_out_def)
  moreover have "damm_out (unat x) (unat y) (unat a) < 2 ^ 64"
    using damm_out_le [OF x, of "unat y" "unat a"] unat_lt_u64 [of y] by linarith
  ultimately show ?thesis using False
    by (simp add: meteora_cpmm_quote_def Let_def as_u64_eq_of_nat)
qed (auto simp: meteora_cpmm_quote_def)

lemma pumpfun_out_exact:
  assumes "x \<noteq> 0"
  shows "as_u64 (as_u128 a * as_u128 y div max (as_u128 x + as_u128 a) 1)
    = of_nat (floor_out (unat x) (unat y) (unat a))"
proof (rule as_u64_eq_of_nat)
  have x: "0 < unat x" using assms by (simp add: unat_gt_0)
  then show "floor_out (unat x) (unat y) (unat a) < 2 ^ 64"
    using unat_lt_u64 [of y] by (rule floor_curve.out_fits)
  have den: "unat (as_u128 x + as_u128 a) = unat x + unat a"
    using unat_lt_u64 [of a] unat_lt_u64 [of x] by (simp add: unat_add_u64)
  then have "1 \<le> as_u128 x + as_u128 a" using x by (simp add: word_le_nat_alt)
  then have "max (as_u128 x + as_u128 a) 1 = as_u128 x + as_u128 a" by (rule max_absorb1)
  then show "unat (as_u128 a * as_u128 y div max (as_u128 x + as_u128 a) 1)
      = floor_out (unat x) (unat y) (unat a)"
    using unat_lt_u64 [of a] unat_lt_u64 [of y]
    by (simp add: floor_out_def unat_div_distrib den unat_mult_u64)
qed

section \<open>The reference quote\<close>

text \<open>Reserve in and reserve out for an input mint, and the exact output of the venue's curve.\<close>

definition sides :: "bool \<Rightarrow> u64 \<Rightarrow> u64 \<Rightarrow> nat \<times> nat" where
  "sides forward a b = (if forward then (unat a, unat b) else (unat b, unat a))"

fun reserves_for :: "cached_pool_state \<Rightarrow> pubkey \<Rightarrow> nat \<times> nat" where
  "reserves_for (PumpFun s) m =
     sides (pumpfun_is_buy_input s m) (pf_virtual_sol_reserves s) (pf_virtual_token_reserves s)"
| "reserves_for (PumpAmm s) m = sides (m = ps_base_mint s)
     (unwrap_or (ps_base_reserve s) 0) (unwrap_or (ps_quote_reserve s) 0)"
| "reserves_for (Orca s) m = sides (m = ow_token_mint_a s)
     (unwrap_or (ow_vault_a_balance s) 0) (unwrap_or (ow_vault_b_balance s) 0)"
| "reserves_for (RaydiumAmm s) m = sides (m = ra_base_mint s)
     (unwrap_or (ra_coin_reserve s) 0) (unwrap_or (ra_pc_reserve s) 0)"
| "reserves_for (RaydiumCpmm s) m = sides (m = rc_token_0_mint s)
     (unwrap_or (rc_reserve_0 s) 0) (unwrap_or (rc_reserve_1 s) 0)"
| "reserves_for (Meteora s) m = sides (m = md_token_x_mint s)
     (unwrap_or (md_reserve_x_balance s) 0) (unwrap_or (md_reserve_y_balance s) 0)"
| "reserves_for (MeteoraCpmm s) m = sides (m = mc_token_0_mint s) (mc_reserve_0 s) (mc_reserve_1 s)"

fun curve_out :: "cached_pool_state \<Rightarrow> nat \<times> nat \<Rightarrow> nat \<Rightarrow> nat" where
  "curve_out (PumpFun s) r a = floor_out (fst r) (snd r) a"
| "curve_out (PumpAmm s) r a = floor_out (fst r) (snd r) (fee_amount a 100)"
| "curve_out (Orca s) r a = floor_out (fst r) (snd r) (fee_amount a (unat (ow_fee_rate s) div 100))"
| "curve_out (RaydiumAmm s) r a = ceil_out (fst r) (snd r) (fee_amount a 25)"
| "curve_out (RaydiumCpmm s) r a = ceil_out (fst r) (snd r) (fee_amount a 25)"
| "curve_out (Meteora s) r a = floor_out (fst r) (snd r) (fee_amount a (min (unat (md_bin_step s)) 100))"
| "curve_out (MeteoraCpmm s) r a = floor_out (fst r * 10000) (snd r) (a * 9975)"

definition pumpfun_refuses :: "pumpfun_state \<Rightarrow> nat \<Rightarrow> pubkey \<Rightarrow> bool" where
  "pumpfun_refuses s a m =
     (let (ri, ro) = reserves_for (PumpFun s) m;
          real_tokens = unat (pf_real_token_reserves s);
          real_sol = unat (pf_real_sol_reserves s)
      in pf_complete s \<or> ri = 0
         \<or> (\<not> pumpfun_is_buy_input s m \<and> (0 < real_tokens \<or> 0 < real_sol)
            \<and> (real_tokens < a \<or> real_sol = 0 \<or> real_sol < floor_out ri ro a)))"

fun refuses :: "cached_pool_state \<Rightarrow> nat \<Rightarrow> pubkey \<Rightarrow> bool" where
  "refuses (PumpFun s) a m = pumpfun_refuses s a m"
| "refuses st a m = (fst (reserves_for st m) = 0 \<or> snd (reserves_for st m) = 0)"

fun product_fits :: "cached_pool_state \<Rightarrow> nat \<Rightarrow> pubkey \<Rightarrow> bool" where
  "product_fits (MeteoraCpmm s) a m = (snd (reserves_for (MeteoraCpmm s) m) * a * 9975 < 2 ^ 128)"
| "product_fits st a m = True"

definition exact_quote :: "cached_pool_state \<Rightarrow> nat \<Rightarrow> pubkey \<Rightarrow> nat option" where
  "exact_quote st a m = (if refuses st a m then None else Some (curve_out st (reserves_for st m) a))"

definition quoted :: "quote_error + u64 \<Rightarrow> nat option" where
  "quoted q = (case q of Inl _ \<Rightarrow> None | Inr r \<Rightarrow> Some (unat r))"

lemma quoted_simps [simp]: "quoted (Inl e) = None" "quoted (Inr r) = Some (unat r)"
  by (simp_all add: quoted_def)

lemma unat_of_floor_out:
  "0 < x \<Longrightarrow> unat (of_nat (floor_out x (unat (y :: u64)) a) :: u64) = floor_out x (unat y) a"
  using floor_curve.out_fits [OF _ unat_lt_u64 [of y]] by (rule unat_of_nat_u64)

lemma unat_of_ceil_out:
  "0 < x \<Longrightarrow> unat (of_nat (ceil_out x (unat (y :: u64)) a) :: u64) = ceil_out x (unat y) a"
  using ceil_curve.out_fits [OF _ unat_lt_u64 [of y]] by (rule unat_of_nat_u64)

lemma unat_of_damm_out:
  assumes "0 < x"
  shows "unat (of_nat (damm_out x (unat (y :: u64)) a) :: u64) = damm_out x (unat y) a"
  using damm_out_le [OF assms, of "unat y" a] unat_lt_u64 [of y] by (intro unat_of_nat_u64) linarith

lemma quoted_fee_product:
  assumes "unat fee \<le> 10000"
  shows "quoted (fee_product_quote err fee a (oriented c x y)) =
    (if fst (sides c x y) = 0 \<or> snd (sides c x y) = 0 then None
     else Some (floor_out (fst (sides c x y)) (snd (sides c x y)) (fee_amount (unat a) (unat fee))))"
  by (auto simp: oriented_def sides_def fee_product_quote_exact [OF assms] unat_eq_0 unat_of_floor_out
      word_neq_0_conv unat_gt_0)

lemma quoted_fee_invariant:
  assumes "unat fee \<le> 10000"
  shows "quoted (fee_invariant_quote err fee a (oriented c x y)) =
    (if fst (sides c x y) = 0 \<or> snd (sides c x y) = 0 then None
     else Some (ceil_out (fst (sides c x y)) (snd (sides c x y)) (fee_amount (unat a) (unat fee))))"
  by (auto simp: oriented_def sides_def fee_invariant_quote_exact [OF assms] unat_eq_0 unat_of_ceil_out
      word_neq_0_conv unat_gt_0)

lemma quoted_meteora_cpmm:
  "quoted (meteora_cpmm_quote a (oriented c x y)) =
    (if fst (sides c x y) = 0 \<or> snd (sides c x y) = 0 then None
     else Some (damm_out (fst (sides c x y)) (snd (sides c x y)) (unat a)))"
  by (cases c) (auto simp: oriented_def sides_def meteora_cpmm_quote_exact unat_eq_0 unat_of_damm_out
      word_neq_0_conv unat_gt_0)

lemma unat_ucast_u16: "unat (ucast (w :: u16) :: u128) = unat w"
  using unsigned_less [of w, where ?'a = nat] by (simp add: unsigned_ucast_eq take_bit_eq_mod)

lemma orca_fee: "unat (ucast (w :: u16) div 100 :: u128) = unat w div 100" "unat w div 100 \<le> 10000"
  using unsigned_less [of w, where ?'a = nat]
  by (simp_all add: unat_div_distrib unat_ucast_u16)

lemma dlmm_fee: "unat (min (ucast (w :: u16)) 100 :: u128) = min (unat w) 100"
  by (simp add: min_def word_le_nat_alt unat_ucast_u16)

lemma quoted_pumpfun:
  "quoted (calculate_pumpfun_quote s a (pumpfun_is_buy_input s m)) = exact_quote (PumpFun s) (unat a) m"
proof (cases "pumpfun_is_buy_input s m")
  case True
  then show ?thesis
    by (auto simp: calculate_pumpfun_quote_def exact_quote_def pumpfun_refuses_def sides_def Let_def
        pumpfun_out_exact unat_of_floor_out unat_eq_0 unat_gt_0 word_neq_0_conv)
next
  case False
  then show ?thesis
    by (auto simp: calculate_pumpfun_quote_def exact_quote_def pumpfun_refuses_def sides_def Let_def
        pumpfun_out_exact unat_of_floor_out unat_eq_0 unat_gt_0 word_less_nat_alt)
qed

text \<open>What the code computes from the two reserves: the venue's curve, for DAMM on the wrapped product.\<close>

fun machine_out :: "cached_pool_state \<Rightarrow> nat \<times> nat \<Rightarrow> nat \<Rightarrow> nat" where
  "machine_out (MeteoraCpmm s) r a = damm_out (fst r) (snd r) a"
| "machine_out st r a = curve_out st r a"

lemma quote_computes:
  "quoted (quote_output_amount st a m)
     = (if refuses st (unat a) m then None else Some (machine_out st (reserves_for st m) (unat a)))"
  by (cases st) (simp_all add: quoted_pumpfun [unfolded exact_quote_def]
      quoted_fee_product quoted_fee_invariant quoted_meteora_cpmm orca_fee dlmm_fee)

lemma machine_out_fits:
  "product_fits st a m \<Longrightarrow> machine_out st (reserves_for st m) a = curve_out st (reserves_for st m) a"
  by (cases st) (simp_all add: damm_out_fits)

lemma quote_refines:
  "product_fits st (unat a) m \<Longrightarrow> quoted (quote_output_amount st a m) = exact_quote st (unat a) m"
  by (simp add: quote_computes exact_quote_def machine_out_fits)

section \<open>The properties\<close>


definition example_pump_amm :: pump_amm_state where
  "example_pump_amm = \<lparr> ps_base_mint = 1, ps_quote_mint = 2, ps_pool_base_token_account = 3,
     ps_pool_quote_token_account = 4, ps_base_reserve = Some 1000000, ps_quote_reserve = Some 500000,
     ps_pool_accounts = [], ps_creator = None \<rparr>"

definition example_damm :: "u64 \<Rightarrow> meteora_cpmm_state" where
  "example_damm r = \<lparr> mc_token_0_mint = 1, mc_token_1_mint = 2, mc_token_0_vault = 3, mc_token_1_vault = 4,
     mc_amm_config = 5, mc_observation_key = 6, mc_token_0_program = 7, mc_token_1_program = 8,
     mc_reserve_0 = r, mc_reserve_1 = r, mc_mint_0_decimals = 9, mc_mint_1_decimals = 9, mc_status = 0 \<rparr>"


lemma quote_SomeD:
  assumes "product_fits st (unat a) m" "quote_output_amount st a m = Inr r"
  shows "\<not> refuses st (unat a) m" "unat r = curve_out st (reserves_for st m) (unat a)"
  using quote_refines [OF assms(1)] assms(2) by (auto simp: exact_quote_def split: if_splits)

lemma not_refused_positive:
  "\<not> refuses st a m \<Longrightarrow> 0 < fst (reserves_for st m)"
  by (cases st) (auto simp: pumpfun_refuses_def Let_def split: prod.splits)

fun rounds_up :: "cached_pool_state \<Rightarrow> bool" where
  "rounds_up (RaydiumAmm s) = True"
| "rounds_up (RaydiumCpmm s) = True"
| "rounds_up _ = False"

lemma curve_out_le: "0 < fst r \<Longrightarrow> curve_out st r a \<le> snd r"
  by (cases st) (simp_all add: floor_curve.out_le ceil_curve.out_le)

lemma curve_out_less: "0 < fst r \<Longrightarrow> 0 < snd r \<Longrightarrow> \<not> rounds_up st \<Longrightarrow> curve_out st r a < snd r"
  by (cases st) (simp_all add: floor_curve.out_less)

lemma curve_out_mono: "0 < fst r \<Longrightarrow> a \<le> b \<Longrightarrow> curve_out st r a \<le> curve_out st r b"
  by (cases st)
    (simp_all add: floor_curve.out_mono ceil_curve.out_mono fee_amount_mono)





text \<open>
  Quotes grow with the input: on the same row and in the same direction, a larger input is
  never quoted a smaller output.
\<close>

theorem quote_monotone:
  assumes "product_fits st (unat b) m" "a \<le> b"
    and "quote_output_amount st a m = Inr r" "quote_output_amount st b m = Inr r'"
  shows "r \<le> r'"
proof -
  have ab: "unat a \<le> unat b" using assms(2) by (simp add: word_le_nat_alt)
  have fits: "product_fits st (unat a) m"
  proof (cases st)
    case (MeteoraCpmm s)
    let ?ro = "snd (reserves_for (MeteoraCpmm s) m)"
    have "?ro * unat a * 9975 \<le> ?ro * unat b * 9975" using ab by (intro mult_le_mono) auto
    also have "\<dots> < 2 ^ 128" using assms(1) unfolding MeteoraCpmm product_fits.simps .
    finally show ?thesis unfolding MeteoraCpmm product_fits.simps .
  qed simp_all
  have "curve_out st (reserves_for st m) (unat a) \<le> curve_out st (reserves_for st m) (unat b)"
    using not_refused_positive [OF quote_SomeD(1) [OF fits assms(3)]] ab by (rule curve_out_mono)
  then show ?thesis
    using quote_SomeD(2) [OF fits assms(3)] quote_SomeD(2) [OF assms(1,4)] by (simp add: word_le_nat_alt)
qed

lemma example_pump_amm_quote: "quote_output_amount (PumpAmm example_pump_amm) 1000 1 = Inr 494"
  by (simp add: example_pump_amm_def fee_product_quote_def oriented_def amount_after_fee_def Let_def
      as_u128_def as_u64_def)


theorem quote_monotone_witness:
  "quote_output_amount (PumpAmm example_pump_amm) 2000 1 = Inr 988 \<and> (494 :: u64) \<le> 988"
proof
  show larger: "quote_output_amount (PumpAmm example_pump_amm) 2000 1 = Inr 988"
    by (simp add: example_pump_amm_def fee_product_quote_def oriented_def amount_after_fee_def Let_def
        as_u128_def as_u64_def)
  show "(494 :: u64) \<le> 988"
    by (rule quote_monotone [OF _ _ example_pump_amm_quote larger]) simp_all
qed

text \<open>
  C35. No profit from a PumpSwap pool alone: sell \<open>a\<close> base tokens at the quoted \<open>r\<close>, move the row's
  reserves accordingly, and the quote for swapping \<open>r\<close> back is at most \<open>a\<close>.
\<close>

theorem pump_amm_no_round_trip_profit:
  assumes "ps_base_reserve s = Some b" "ps_quote_reserve s = Some q"
    and "ps_quote_mint s \<noteq> ps_base_mint s"
    and "unat b + unat a < 2 ^ 64"
    and "quote_output_amount (PumpAmm s) a (ps_base_mint s) = Inr r"
    and "quote_output_amount (PumpAmm (s\<lparr> ps_base_reserve := Some (b + a), ps_quote_reserve := Some (q - r) \<rparr>))
           r (ps_quote_mint s) = Inr r'"
  shows "r' \<le> a"
proof -
  let ?s' = "s\<lparr> ps_base_reserve := Some (b + a), ps_quote_reserve := Some (q - r) \<rparr>"
  let ?f = "fee_amount (unat a) 100"
  have pos: "0 < unat b" "0 < unat q" and r: "unat r = floor_out (unat b) (unat q) ?f"
    using quote_SomeD [OF _ assms(5)] assms(1,2) by (auto simp: sides_def)
  have "unat r \<le> unat q" using pos r by (simp add: floor_curve.out_le)
  then have q': "unat (q - r) = unat q - unat r" by (rule unat_sub_small)
  have b': "unat (b + a) = unat b + unat a" using assms(4) by (intro unat_add_small) simp
  have "unat r' = floor_out (unat q - unat r) (unat b + unat a) (fee_amount (unat r) 100)"
    using quote_SomeD(2) [OF _ assms(6)] assms(3) by (simp add: sides_def q' b')
  also have "\<dots> \<le> unat a"
    unfolding r using pos fee_amount_le by (intro floor_curve.no_round_trip_profit) auto
  finally show ?thesis by (simp add: word_le_nat_alt)
qed

theorem pump_amm_no_round_trip_profit_witness: "(978 :: u64) \<le> 1000"
proof (rule pump_amm_no_round_trip_profit [OF _ _ _ _ , where s = example_pump_amm and b = 1000000
      and q = 500000 and r = 494])
  show "quote_output_amount (PumpAmm example_pump_amm) 1000 (ps_base_mint example_pump_amm) = Inr 494"
    using example_pump_amm_quote by (simp add: example_pump_amm_def)
  show "quote_output_amount (PumpAmm (example_pump_amm\<lparr> ps_base_reserve := Some (1000000 + 1000),
      ps_quote_reserve := Some (500000 - 494) \<rparr>)) 494 (ps_quote_mint example_pump_amm) = Inr 978"
    by (simp add: example_pump_amm_def fee_product_quote_def oriented_def amount_after_fee_def Let_def
        as_u128_def as_u64_def)
qed (simp_all add: example_pump_amm_def)

text \<open>
  Slippage: the minimum output is the quote less the tolerance, rounded down and never wrapped;
  it is at most the quote, zero from 10000 basis points on, and a larger tolerance never asks for more.
\<close>

theorem apply_slippage_exact:
  "unat (apply_slippage out bps) = unat out * (10000 - unat bps) div 10000
   \<and> apply_slippage out bps \<le> out
   \<and> (\<forall>bps'. bps \<le> bps' \<longrightarrow> apply_slippage out bps' \<le> apply_slippage out bps)"
proof -
  have exact: "unat (apply_slippage out bps) = fee_amount (unat out) (unat bps)" for bps
  proof (cases "bps \<ge> 10000")
    case True
    then have "10000 \<le> unat bps" by (simp add: word_le_nat_alt)
    with True show ?thesis by (simp add: apply_slippage_def fee_amount_def)
  next
    case False
    then have bps: "unat bps < 10000" by (simp add: word_le_nat_alt)
    have keep: "unat (10000 - (ucast bps :: u64)) = 10000 - unat bps"
      using bps by (subst unat_sub_small) (simp_all add: unsigned_ucast_eq take_bit_eq_mod)
    have "unat (as_u128 out * as_u128 (10000 - ucast bps)) = unat out * (10000 - unat bps)"
      using unat_lt_u64 [of out] keep by (subst unat_mult_u64) simp_all
    then have "unat (as_u128 out * as_u128 (10000 - ucast bps) div 10000) = fee_amount (unat out) (unat bps)"
      by (simp add: unat_div_distrib fee_amount_def)
    moreover have "fee_amount (unat out) (unat bps) < 2 ^ 64"
      using fee_amount_le [of "unat out" "unat bps"] unat_lt_u64 [of out] by linarith
    ultimately show ?thesis using False
      by (simp add: apply_slippage_def Let_def unat_as_u64_small)
  qed
  have "fee_amount (unat out) (unat bps') \<le> fee_amount (unat out) (unat bps)" if "bps \<le> bps'" for bps'
    unfolding fee_amount_def using that
    by (intro div_le_mono mult_le_mono2 diff_le_mono2) (simp add: word_le_nat_alt)
  with exact fee_amount_le show ?thesis by (simp add: word_le_nat_alt fee_amount_def [symmetric])
qed

theorem apply_slippage_exact_witness:
  "unat (apply_slippage 988 100) = 978 \<and> apply_slippage 988 200 \<le> apply_slippage 988 100"
proof -
  have "(100 :: u32) \<le> 200" by simp
  with apply_slippage_exact [of 988 100] show ?thesis by auto
qed

text \<open>
  The engine and the strategies agree: for an intent whose first pool is cached and whose input
  mint parses, \<open>calculate_fresh_min_out\<close> is the strategy's quote less the intent's slippage, or no
  quote when that quote fails or is zero. (On a bonding curve the engine takes the direction from
  the intent's side, so the two agree when the side matches the mint.) Only the hit counter of the
  cache changes.
\<close>

theorem fresh_min_out_is_slipped_quote:
  assumes "pools (resources intent) = p # ps" "from_str p = Some pool"
    and "hm_get (lc_pools c) pool = Some e"
    and "from_str (input_mint (resources intent)) = Some m"
    and "\<And>s. ce_state e = PumpFun s \<Longrightarrow> (side intent = Buy) = pumpfun_is_buy_input s m"
  shows "calculate_fresh_min_out from_str now c intent =
    (Inr (case quote_output_amount (ce_state e) (amt_raw (required_capital intent)) m of
            Inl _ \<Rightarrow> None
          | Inr out \<Rightarrow> if out = 0 then None else Some (apply_slippage out (max_slippage_bps intent))),
     c\<lparr> lc_cache_hits := lc_cache_hits c + 1 \<rparr>)"
proof -
  have "quote_for_intent from_str (ce_state e) a intent (side intent = Buy)
      = quote_output_amount (ce_state e) a m" for a
    using assms(4,5)
    by (cases "ce_state e")
      (simp_all add: intent_mint_def calculate_orca_quote_def calculate_raydium_amm_quote_def
        calculate_raydium_cpmm_quote_def calculate_meteora_quote_def calculate_meteora_cpmm_quote_def
        calculate_pumpamm_quote_def)
  with assms(1-3) show ?thesis
    by (auto simp: calculate_fresh_min_out_def get_with_metadata_def split: sum.split)
qed

definition example_intent :: trade_intent where
  "example_intent = \<lparr> required_capital = \<lparr> amt_raw = 1000, amt_decimals = 6 \<rparr>,
     resources = \<lparr> input_mint = ''base'', output_mint = ''quote'', pools = [''pool''] \<rparr>,
     max_slippage_bps = 100, side = Sell \<rparr>"

definition example_from_str :: "string \<Rightarrow> pubkey option" where
  "example_from_str s = map_of [(''base'', 1), (''quote'', 2), (''pool'', 9)] s"

definition example_quote_cache :: live_pool_cache where
  "example_quote_cache = live_pool_cache_new\<lparr> lc_pools :=
     [(9, cache_entry_new 0 (PumpAmm example_pump_amm) 5)] \<rparr>"

theorem fresh_min_out_is_slipped_quote_witness:
  "fst (calculate_fresh_min_out example_from_str 0 example_quote_cache example_intent)
     = Inr (Some (apply_slippage 494 100))"
  by (subst fresh_min_out_is_slipped_quote [where p = "''pool''" and ps = "[]" and pool = 9 and m = 1
        and e = "cache_entry_new 0 (PumpAmm example_pump_amm) 5"])
    (simp_all add: example_intent_def example_from_str_def example_quote_cache_def cache_entry_new_def
      example_pump_amm_quote del: quote_output_amount.simps)

section \<open>Where the arithmetic goes wrong\<close>

text \<open>
  The DAMM formula multiplies reserve, amount and fee factor before dividing. A pool of a billion
  tokens with nine decimals a side and an input of a hundred million tokens exceeds \<open>u128\<close>, and the
  quote is a small fraction of the true output.
\<close>

lemma damm_quote_wraps:
  "quoted (quote_output_amount (MeteoraCpmm (example_damm 1000000000000000000)) 100000000000000000 1)
     = Some 28818846661343311
   \<and> exact_quote (MeteoraCpmm (example_damm 1000000000000000000)) 100000000000000000 1
     = Some 90702432370993407"
  by (simp add: example_damm_def meteora_cpmm_quote_def oriented_def Let_def as_u128_def as_u64_def
      exact_quote_def sides_def floor_out_def)

text \<open>
  The two Raydium formulas subtract a rounded-down remainder, so they promise one unit more than the
  rounded-down output whenever the division is not exact.
\<close>

lemma raydium_rounds_up:
  assumes "rounds_up st" "0 < fst r"
  shows "curve_out st r a = floor_out (fst r) (snd r) (fee_amount a 25)
    + (if (fst r + fee_amount a 25) dvd fee_amount a 25 * snd r then 0 else 1)"
  using assms by (cases st) (simp_all add: ceil_out_floor_out)

end
