(* ===== verification/Account_Layout.thy ===== *)
theory Account_Layout
  imports Pool_State
begin

text \<open>
  Parsing of on-chain pool accounts (\<open>execution/live_pool_cache.rs\<close>, the \<open>parse_*\<close> functions, with
  the layouts of \<open>solana/dex/orca_whirlpool_layout.rs\<close>, \<open>meteora_dlmm_layout.rs\<close> and
  \<open>meteora_cpmm_layout.rs\<close>). Indexing or slicing a byte slice out of range panics in Rust, so the
  parsers return an outcome, which is \<open>Panic\<close> or the value returned. The text form of a public key,
  by which the owner program is recognised, is the SDK's and the argument \<open>to_string\<close>.
\<close>

section \<open>Bytes\<close>

definition byte_slice :: "u8 list \<Rightarrow> nat \<Rightarrow> nat \<Rightarrow> u8 list outcome" where
  \<comment> \<open>\<open>&data[a..b]\<close>\<close>
  "byte_slice data a b =
     (if a \<le> b \<and> b \<le> length data then Done (take (b - a) (drop a data)) else Panic)"

definition byte_at :: "u8 list \<Rightarrow> nat \<Rightarrow> u8 outcome" where
  "byte_at data i = (if i < length data then Done (data ! i) else Panic)"

fun le_value :: "u8 list \<Rightarrow> nat" where
  "le_value [] = 0"
| "le_value (b # bs) = unat b + 256 * le_value bs"

definition from_le_bytes :: "u8 list \<Rightarrow> 'a::len word" where
  "from_le_bytes bs = of_nat (le_value bs)"

definition pubkey_from_bytes :: "u8 list \<Rightarrow> pubkey" where
  "pubkey_from_bytes bs = of_nat (le_value (rev bs))"

definition pubkey_at :: "u8 list \<Rightarrow> nat \<Rightarrow> pubkey outcome" where
  \<comment> \<open>\<open>Pubkey::new_from_array(data[o..o + 32].try_into()..)\<close>\<close>
  "pubkey_at data off = bind_outcome (byte_slice data off (off + 32)) (\<lambda>bs. Done (pubkey_from_bytes bs))"

definition word_at :: "u8 list \<Rightarrow> nat \<Rightarrow> nat \<Rightarrow> 'a::len word outcome" where
  "word_at data off n = bind_outcome (byte_slice data off (off + n)) (\<lambda>bs. Done (from_le_bytes bs))"

section \<open>Orca Whirlpool\<close>

record whirlpool_parsed =
  wp_token_mint_a :: pubkey
  wp_token_mint_b :: pubkey
  wp_token_vault_a :: pubkey
  wp_token_vault_b :: pubkey
  wp_fee_rate :: u16
  wp_protocol_fee_rate :: u16
  wp_tick_spacing :: u16
  wp_tick_current_index :: i32
  wp_liquidity :: u128
  wp_sqrt_price :: u128

definition checked_slice :: "u8 list \<Rightarrow> nat \<Rightarrow> nat \<Rightarrow> u8 list option" where
  \<comment> \<open>the closure \<open>slice\<close> of \<open>parse_whirlpool\<close>\<close>
  "checked_slice data off len = (if off + len \<le> length data then Some (take len (drop off data)) else None)"

definition opt_pubkey :: "u8 list \<Rightarrow> nat \<Rightarrow> pubkey option" where
  "opt_pubkey data off = map_option pubkey_from_bytes (checked_slice data off 32)"

definition opt_word :: "u8 list \<Rightarrow> nat \<Rightarrow> nat \<Rightarrow> 'a::len word option" where
  "opt_word data off n = map_option from_le_bytes (checked_slice data off n)"

definition parse_whirlpool :: "u8 list \<Rightarrow> whirlpool_parsed option" where
  "parse_whirlpool data =
     (if length data < 245 then None
      else
        Option.bind (opt_pubkey data 101) (\<lambda>mint_a.
        Option.bind (opt_pubkey data 181) (\<lambda>mint_b.
        if mint_a = mint_b \<or> mint_a = 0 \<or> mint_b = 0 then None
        else
        Option.bind (opt_pubkey data 133) (\<lambda>vault_a.
        Option.bind (opt_pubkey data 213) (\<lambda>vault_b.
        if vault_a = vault_b \<or> vault_a = 0 \<or> vault_b = 0 then None
        else
        Option.bind (opt_word data 45 2) (\<lambda>fee_rate.
        if fee_rate = 0 \<or> fee_rate > 10000 then None
        else
        Option.bind (opt_word data 47 2) (\<lambda>protocol_fee_rate.
        Option.bind (opt_word data 41 2) (\<lambda>tick_spacing.
        if tick_spacing = 0 then None
        else
        Option.bind (opt_word data 81 4) (\<lambda>tick_current_index.
        Option.bind (opt_word data 49 16) (\<lambda>liquidity.
        Option.bind (opt_word data 65 16) (\<lambda>sqrt_price.
        Some \<lparr> wp_token_mint_a = mint_a, wp_token_mint_b = mint_b,
               wp_token_vault_a = vault_a, wp_token_vault_b = vault_b,
               wp_fee_rate = fee_rate, wp_protocol_fee_rate = protocol_fee_rate,
               wp_tick_spacing = tick_spacing, wp_tick_current_index = tick_current_index,
               wp_liquidity = liquidity, wp_sqrt_price = sqrt_price \<rparr>)))))))))))"

definition orca_from_parsed :: "whirlpool_parsed \<Rightarrow> orca_whirlpool_state" where
  "orca_from_parsed p =
     \<lparr> ow_token_mint_a = wp_token_mint_a p, ow_token_mint_b = wp_token_mint_b p,
       ow_token_vault_a = wp_token_vault_a p, ow_token_vault_b = wp_token_vault_b p,
       ow_tick_current_index = wp_tick_current_index p, ow_sqrt_price = wp_sqrt_price p,
       ow_liquidity = wp_liquidity p, ow_fee_rate = wp_fee_rate p,
       ow_protocol_fee_rate = wp_protocol_fee_rate p, ow_tick_spacing = wp_tick_spacing p,
       ow_vault_a_balance = None, ow_vault_b_balance = None,
       ow_token_a_program = None, ow_token_b_program = None,
       ow_whirlpool_quote_account_seeded = True \<rparr>"

definition parse_orca_whirlpool :: "u8 list \<Rightarrow> cached_pool_state option outcome" where
  "parse_orca_whirlpool data = Done (map_option (\<lambda>p. Orca (orca_from_parsed p)) (parse_whirlpool data))"

section \<open>Raydium\<close>

definition parse_raydium_amm :: "u8 list \<Rightarrow> cached_pool_state option outcome" where
  "parse_raydium_amm data =
     (if length data \<noteq> 752 then Done None
      else
        bind_outcome (word_at data 0 8) (\<lambda>status :: u64.
        if status = 0 then Done None
        else
        bind_outcome (word_at data 32 8) (\<lambda>coin_decimals :: u64.
        bind_outcome (word_at data 40 8) (\<lambda>pc_decimals :: u64.
        bind_outcome (pubkey_at data 336) (\<lambda>coin_vault.
        bind_outcome (pubkey_at data 368) (\<lambda>pc_vault.
        bind_outcome (pubkey_at data 400) (\<lambda>base_mint.
        bind_outcome (pubkey_at data 432) (\<lambda>quote_mint.
        bind_outcome (pubkey_at data 528) (\<lambda>market_id.
        Done (Some (RaydiumAmm \<lparr>
          ra_base_mint = base_mint, ra_quote_mint = quote_mint,
          ra_coin_vault = coin_vault, ra_pc_vault = pc_vault,
          ra_base_decimals = ucast coin_decimals, ra_quote_decimals = ucast pc_decimals,
          ra_coin_reserve = None, ra_pc_reserve = None, ra_market_id = market_id,
          ra_serum_bids = None, ra_serum_asks = None, ra_serum_event_queue = None,
          ra_serum_base_vault = None, ra_serum_quote_vault = None \<rparr>)))))))))))"

definition parse_raydium_cpmm :: "u8 list \<Rightarrow> cached_pool_state option outcome" where
  "parse_raydium_cpmm data =
     (if length data \<noteq> 1024 then Done None
      else
        bind_outcome (byte_at data 8) (\<lambda>status.
        if status = 0 then Done None
        else
        bind_outcome (pubkey_at data 73) (\<lambda>token_0_mint.
        bind_outcome (pubkey_at data 105) (\<lambda>token_1_mint.
        bind_outcome (pubkey_at data 137) (\<lambda>token_0_vault.
        bind_outcome (pubkey_at data 169) (\<lambda>token_1_vault.
        Done (Some (RaydiumCpmm \<lparr>
          rc_token_0_mint = token_0_mint, rc_token_1_mint = token_1_mint,
          rc_token_0_vault = token_0_vault, rc_token_1_vault = token_1_vault,
          rc_reserve_0 = None, rc_reserve_1 = None \<rparr>))))))))"

section \<open>Meteora\<close>

definition parse_dlmm_pool :: "u8 list \<Rightarrow> meteora_state option outcome" where
  \<comment> \<open>\<open>DlmmPool::parse\<close> followed by \<open>MeteoraState::from\<close>; the discriminator and the token programs
     are dropped by the conversion\<close>
  "parse_dlmm_pool data =
     (if \<not> length data \<ge> 904 then Done None
      else
        bind_outcome (byte_slice data 0 8) (\<lambda>discriminator.
        bind_outcome (word_at data 0x4C 4) (\<lambda>active_id.
        bind_outcome (word_at data 0x50 2) (\<lambda>bin_step.
        bind_outcome (pubkey_at data 0x58) (\<lambda>token_x_mint.
        bind_outcome (pubkey_at data 0x78) (\<lambda>token_y_mint.
        bind_outcome (pubkey_at data 0x98) (\<lambda>reserve_x.
        bind_outcome (pubkey_at data 0xB8) (\<lambda>reserve_y.
        Done (Some \<lparr>
          md_token_x_mint = token_x_mint, md_token_y_mint = token_y_mint,
          md_reserve_x = reserve_x, md_reserve_y = reserve_y,
          md_active_id = active_id, md_bin_step = bin_step,
          md_reserve_x_balance = None, md_reserve_y_balance = None,
          md_dlmm_bin_params_account_seeded = True \<rparr>))))))))) "

definition parse_meteora_dlmm :: "u8 list \<Rightarrow> cached_pool_state option outcome" where
  "parse_meteora_dlmm data =
     (if length data \<noteq> 904 then Done None
      else bind_outcome (parse_dlmm_pool data) (\<lambda>p. Done (map_option Meteora p)))"

record cpmm_pool =
  cp_amm_config :: pubkey
  cp_pool_creator :: pubkey
  cp_token_0_vault :: pubkey
  cp_token_1_vault :: pubkey
  cp_lp_mint :: pubkey
  cp_token_0_mint :: pubkey
  cp_token_1_mint :: pubkey
  cp_token_0_program :: pubkey
  cp_token_1_program :: pubkey
  cp_observation_key :: pubkey
  cp_auth_bump :: u8
  cp_status :: u8
  cp_lp_mint_decimals :: u8
  cp_mint_0_decimals :: u8
  cp_mint_1_decimals :: u8
  cp_lp_supply :: u64
  cp_protocol_fees_token_0 :: u64
  cp_protocol_fees_token_1 :: u64
  cp_fund_fees_token_0 :: u64
  cp_fund_fees_token_1 :: u64
  cp_open_time :: "64 word"

definition parse_cpmm_pool :: "u8 list \<Rightarrow> cpmm_pool option outcome" where
  "parse_cpmm_pool data =
     (if length data < 397 then Done None
      else
        bind_outcome (byte_slice data 0 8) (\<lambda>discriminator.
        bind_outcome (pubkey_at data 8) (\<lambda>amm_config.
        bind_outcome (pubkey_at data 40) (\<lambda>pool_creator.
        bind_outcome (pubkey_at data 72) (\<lambda>token_0_vault.
        bind_outcome (pubkey_at data 104) (\<lambda>token_1_vault.
        bind_outcome (pubkey_at data 136) (\<lambda>lp_mint.
        bind_outcome (pubkey_at data 168) (\<lambda>token_0_mint.
        bind_outcome (pubkey_at data 200) (\<lambda>token_1_mint.
        bind_outcome (pubkey_at data 232) (\<lambda>token_0_program.
        bind_outcome (pubkey_at data 264) (\<lambda>token_1_program.
        bind_outcome (pubkey_at data 296) (\<lambda>observation_key.
        bind_outcome (byte_at data 328) (\<lambda>auth_bump.
        bind_outcome (byte_at data 329) (\<lambda>status.
        bind_outcome (byte_at data 330) (\<lambda>lp_mint_decimals.
        bind_outcome (byte_at data 331) (\<lambda>mint_0_decimals.
        bind_outcome (byte_at data 332) (\<lambda>mint_1_decimals.
        bind_outcome (word_at data 333 8) (\<lambda>lp_supply.
        bind_outcome (word_at data 341 8) (\<lambda>protocol_fees_token_0.
        bind_outcome (word_at data 349 8) (\<lambda>protocol_fees_token_1.
        bind_outcome (word_at data 357 8) (\<lambda>fund_fees_token_0.
        bind_outcome (word_at data 365 8) (\<lambda>fund_fees_token_1.
        bind_outcome (word_at data 373 8) (\<lambda>open_time.
        Done (Some \<lparr>
          cp_amm_config = amm_config, cp_pool_creator = pool_creator,
          cp_token_0_vault = token_0_vault, cp_token_1_vault = token_1_vault, cp_lp_mint = lp_mint,
          cp_token_0_mint = token_0_mint, cp_token_1_mint = token_1_mint,
          cp_token_0_program = token_0_program, cp_token_1_program = token_1_program,
          cp_observation_key = observation_key, cp_auth_bump = auth_bump, cp_status = status,
          cp_lp_mint_decimals = lp_mint_decimals, cp_mint_0_decimals = mint_0_decimals,
          cp_mint_1_decimals = mint_1_decimals, cp_lp_supply = lp_supply,
          cp_protocol_fees_token_0 = protocol_fees_token_0, cp_protocol_fees_token_1 = protocol_fees_token_1,
          cp_fund_fees_token_0 = fund_fees_token_0, cp_fund_fees_token_1 = fund_fees_token_1,
          cp_open_time = open_time \<rparr>))))))))))))))))))))))))"

definition is_active :: "cpmm_pool \<Rightarrow> bool" where
  "is_active p \<longleftrightarrow> cp_status p < 2"

definition parse_meteora_cpmm :: "u8 list \<Rightarrow> cached_pool_state option outcome" where
  "parse_meteora_cpmm data =
     (if length data < 397 then Done None
      else
        bind_outcome (parse_cpmm_pool data) (\<lambda>parsed.
        Done (case parsed of
                None \<Rightarrow> None
              | Some p \<Rightarrow>
                  if \<not> is_active p then None
                  else Some (MeteoraCpmm \<lparr>
                    mc_token_0_mint = cp_token_0_mint p, mc_token_1_mint = cp_token_1_mint p,
                    mc_token_0_vault = cp_token_0_vault p, mc_token_1_vault = cp_token_1_vault p,
                    mc_amm_config = cp_amm_config p, mc_observation_key = cp_observation_key p,
                    mc_token_0_program = cp_token_0_program p, mc_token_1_program = cp_token_1_program p,
                    mc_reserve_0 = 0, mc_reserve_1 = 0,
                    mc_mint_0_decimals = cp_mint_0_decimals p, mc_mint_1_decimals = cp_mint_1_decimals p,
                    mc_status = cp_status p \<rparr>))))"

section \<open>Pump\<close>

definition parse_pumpfun_bonding :: "u8 list \<Rightarrow> cached_pool_state option outcome" where
  "parse_pumpfun_bonding data =
     (if length data < 81 then Done None
      else
        bind_outcome (word_at data 8 8) (\<lambda>virtual_token_reserves.
        bind_outcome (word_at data 16 8) (\<lambda>virtual_sol_reserves.
        bind_outcome (word_at data 24 8) (\<lambda>real_token_reserves.
        bind_outcome (word_at data 32 8) (\<lambda>real_sol_reserves.
        let complete = (if 48 < length data then data ! 48 \<noteq> 0 else False) in
        bind_outcome (pubkey_at data 49) (\<lambda>creator.
        bind_outcome (if length data > 82 then bind_outcome (byte_at data 82) (\<lambda>b. Done (b \<noteq> 0))
                      else Done False) (\<lambda>cashback_enabled.
        Done (Some (PumpFun \<lparr>
          pf_token_mint = pubkey_default, pf_bonding_curve = pubkey_default,
          pf_associated_bonding_curve = pubkey_default,
          pf_virtual_sol_reserves = virtual_sol_reserves, pf_virtual_token_reserves = virtual_token_reserves,
          pf_real_sol_reserves = real_sol_reserves, pf_real_token_reserves = real_token_reserves,
          pf_complete = complete, pf_creator = creator, pf_cashback_enabled = cashback_enabled \<rparr>))))))))) "

definition parse_pumpamm_pool :: "u8 list \<Rightarrow> cached_pool_state option outcome" where
  "parse_pumpamm_pool data =
     (if length data < 200 then Done None
      else
        bind_outcome (pubkey_at data 11) (\<lambda>creator.
        bind_outcome (pubkey_at data 43) (\<lambda>base_mint.
        bind_outcome (pubkey_at data 75) (\<lambda>quote_mint.
        bind_outcome (pubkey_at data 139) (\<lambda>pool_base_token_account.
        bind_outcome (pubkey_at data 171) (\<lambda>pool_quote_token_account.
        Done (Some (PumpAmm \<lparr>
          ps_base_mint = base_mint, ps_quote_mint = quote_mint,
          ps_pool_base_token_account = pool_base_token_account,
          ps_pool_quote_token_account = pool_quote_token_account,
          ps_base_reserve = None, ps_quote_reserve = None, ps_pool_accounts = [],
          ps_creator = Some creator \<rparr>))))))))"

section \<open>Dispatch\<close>

definition parse_pool_account ::
    "(pubkey \<Rightarrow> string) \<Rightarrow> pubkey \<Rightarrow> u8 list \<Rightarrow> cached_pool_state option outcome" where
  "parse_pool_account to_string owner data =
     (let owner_str = to_string owner in
      if owner_str = ''whirLbMiicVdio4qvUfM5KAg6Ct8VwpYzGff3uctyCc'' then parse_orca_whirlpool data
      else if owner_str = ''675kPX9MHTjS2zt1qfr1NYHuzeLXfQM9H24wFSUt1Mp8'' then parse_raydium_amm data
      else if owner_str = ''CPMMoo8L3F4NbTegBCKVNunggL7H1ZpdTHKxQB5qKP1C'' then parse_raydium_cpmm data
      else if owner_str = ''LBUZKhRxPF3XUpBCjp4YzTKgLccjZhTSDM9YuVaPwxo'' then parse_meteora_dlmm data
      else if owner_str = ''cpmmpPFsKiR4eeYnGSuXgkhLLgGL1j5FUZoJBJU9t9D'' then parse_meteora_cpmm data
      else if owner_str = ''6EF8rrecthR5Dkzon8Nwu78hRvfCKubJ14M5uBEwF6P'' then parse_pumpfun_bonding data
      else if owner_str = ''pAMMBay6oceH9fJKBRHGP5D4bD4sWpmSwMn52FMfXEA'' then parse_pumpamm_pool data
      else Done None)"

end
