(* ===== verification/Account_Properties.thy ===== *)
theory Account_Properties
  imports Account_Layout Pool_Properties
begin

text \<open>
  When the account parsers return, and what a parsed row carries: layout and price parameters, but
  no reserves, so that merging it over a cached row cannot change what the vaults reported.
\<close>

lemma byte_slice_Done: "a \<le> b \<Longrightarrow> b \<le> length data \<Longrightarrow> byte_slice data a b = Done (take (b - a) (drop a data))"
  by (simp add: byte_slice_def)

lemma pubkey_at_eq:
  "pubkey_at data off = (if off + 32 \<le> length data then Done (pubkey_from_bytes (take 32 (drop off data))) else Panic)"
  by (simp add: pubkey_at_def byte_slice_def)

lemma word_at_eq:
  "word_at data off n = (if off + n \<le> length data then Done (from_le_bytes (take n (drop off data))) else Panic)"
  by (simp add: word_at_def byte_slice_def)

lemmas parse_simps = pubkey_at_eq word_at_eq byte_at_def byte_slice_def Let_def

lemma parse_raydium_amm_returns: "parse_raydium_amm data \<noteq> Panic"
  by (simp add: parse_raydium_amm_def parse_simps)

lemma parse_raydium_cpmm_returns: "parse_raydium_cpmm data \<noteq> Panic"
  by (simp add: parse_raydium_cpmm_def parse_simps)

lemma parse_meteora_dlmm_returns: "parse_meteora_dlmm data \<noteq> Panic"
  by (simp add: parse_meteora_dlmm_def parse_dlmm_pool_def parse_simps)

lemma parse_cpmm_pool_returns: "parse_cpmm_pool data \<noteq> Panic"
  by (simp add: parse_cpmm_pool_def parse_simps)

lemma parse_meteora_cpmm_returns: "parse_meteora_cpmm data \<noteq> Panic"
  using parse_cpmm_pool_returns [of data]
  by (cases "parse_cpmm_pool data") (simp_all add: parse_meteora_cpmm_def)

lemma parse_pumpfun_returns: "parse_pumpfun_bonding data \<noteq> Panic"
  by (simp add: parse_pumpfun_bonding_def parse_simps)

lemma parse_pumpamm_panics: "parse_pumpamm_pool data = Panic \<longleftrightarrow> 200 \<le> length data \<and> length data < 203"
  by (auto simp: parse_pumpamm_pool_def parse_simps)

text \<open>
  Parsing an account returns for every owner and every byte string, with one exception: data of
  200, 201 or 202 bytes owned by the PumpSwap program makes the parser slice past the end and panic
  (it checks for 200 bytes and reads 203).
\<close>

theorem parse_pool_account_panics_iff:
  "parse_pool_account to_string owner data = Panic \<longleftrightarrow>
     to_string owner = ''pAMMBay6oceH9fJKBRHGP5D4bD4sWpmSwMn52FMfXEA''
     \<and> 200 \<le> length data \<and> length data < 203"
  by (simp add: parse_pool_account_def parse_orca_whirlpool_def parse_raydium_amm_returns
      parse_raydium_cpmm_returns parse_meteora_dlmm_returns parse_meteora_cpmm_returns
      parse_pumpfun_returns parse_pumpamm_panics Let_def split: if_split)

section \<open>What a parsed row carries\<close>

fun no_reserves :: "cached_pool_state \<Rightarrow> bool" where
  "no_reserves (MeteoraCpmm s) \<longleftrightarrow> mc_reserve_0 s = 0 \<and> mc_reserve_1 s = 0"
| "no_reserves st \<longleftrightarrow> reserve_of st VA = None \<and> reserve_of st VB = None"

lemma no_reserves_carries: "no_reserves st \<Longrightarrow> slot > 0 \<Longrightarrow> \<not> carries_reserve st slot p"
  by (cases st; cases p) auto

lemma parse_raydium_amm_no_reserves: "parse_raydium_amm data = Done (Some st) \<Longrightarrow> no_reserves st"
  by (auto simp: parse_raydium_amm_def parse_simps split: if_splits)

lemma parse_raydium_cpmm_no_reserves: "parse_raydium_cpmm data = Done (Some st) \<Longrightarrow> no_reserves st"
  by (auto simp: parse_raydium_cpmm_def parse_simps split: if_splits)

lemma parse_meteora_dlmm_no_reserves: "parse_meteora_dlmm data = Done (Some st) \<Longrightarrow> no_reserves st"
  by (auto simp: parse_meteora_dlmm_def parse_dlmm_pool_def parse_simps split: if_splits)

lemma parse_meteora_cpmm_no_reserves: "parse_meteora_cpmm data = Done (Some st) \<Longrightarrow> no_reserves st"
  by (cases "parse_cpmm_pool data")
    (auto simp: parse_meteora_cpmm_def split: if_splits option.splits)

lemma parse_pumpfun_no_reserves: "parse_pumpfun_bonding data = Done (Some st) \<Longrightarrow> no_reserves st"
  by (auto simp: parse_pumpfun_bonding_def parse_simps split: if_splits)

lemma parse_pumpamm_no_reserves: "parse_pumpamm_pool data = Done (Some st) \<Longrightarrow> no_reserves st"
  by (auto simp: parse_pumpamm_pool_def parse_simps split: if_splits)

lemma parse_orca_no_reserves: "parse_orca_whirlpool data = Done (Some st) \<Longrightarrow> no_reserves st"
  by (auto simp: parse_orca_whirlpool_def orca_from_parsed_def)

lemma parsed_no_reserves:
  "parse_pool_account to_string owner data = Done (Some st) \<Longrightarrow> no_reserves st"
  by (auto simp: parse_pool_account_def Let_def
      intro: parse_orca_no_reserves parse_raydium_amm_no_reserves parse_raydium_cpmm_no_reserves
        parse_meteora_dlmm_no_reserves parse_meteora_cpmm_no_reserves parse_pumpfun_no_reserves
        parse_pumpamm_no_reserves
      split: if_splits)

lemma parse_whirlpool_sane:
  assumes "parse_whirlpool data = Some p"
  shows "wp_token_vault_a p \<noteq> wp_token_vault_b p" "wp_token_vault_a p \<noteq> 0" "wp_token_vault_b p \<noteq> 0"
    and "wp_tick_spacing p \<noteq> 0" "wp_fee_rate p \<le> 10000"
  using assms
  by (auto simp: parse_whirlpool_def Option.bind_eq_Some_conv not_less split: if_splits)

lemma parse_meteora_dlmm_venue: "parse_meteora_dlmm data \<noteq> Done (Some (Orca s))"
  by (simp add: parse_meteora_dlmm_def parse_dlmm_pool_def parse_simps)

lemma parsed_orca:
  assumes "parse_pool_account to_string owner data = Done (Some (Orca s))"
  shows "ow_token_vault_a s \<noteq> ow_token_vault_b s" "ow_token_vault_a s \<noteq> pubkey_default"
    "ow_token_vault_b s \<noteq> pubkey_default" "ow_tick_spacing s \<noteq> 0"
    "ow_whirlpool_quote_account_seeded s"
proof -
  obtain p where "parse_whirlpool data = Some p" "s = orca_from_parsed p"
    using assms
    by (auto simp: parse_pool_account_def parse_orca_whirlpool_def parse_raydium_amm_def
        parse_raydium_cpmm_def parse_meteora_dlmm_venue parse_meteora_cpmm_def parse_pumpfun_bonding_def
        parse_pumpamm_pool_def parse_simps bind_outcome.simps Let_def
        split: if_splits option.splits elim!: bind_outcome.elims)
  then show "ow_token_vault_a s \<noteq> ow_token_vault_b s" "ow_token_vault_a s \<noteq> pubkey_default"
    "ow_token_vault_b s \<noteq> pubkey_default" "ow_tick_spacing s \<noteq> 0"
    "ow_whirlpool_quote_account_seeded s"
    by (auto simp: orca_from_parsed_def pubkey_default_def dest: parse_whirlpool_sane)
qed

end
