(* ===== verification/Bundle_Auction.thy ===== *)
theory Bundle_Auction
  imports Iron_Prelude
begin

text \<open>
  The tip auction of cross-DEX bundles (\<open>execution/bundle_auction.rs\<close>): the tip that a given
  estimated profit can carry, the fee estimates, and the search for the least profit at which a
  bundle can land. \<open>u64::clamp\<close> panics when its bounds are crossed; an operation that may panic
  returns an option, \<open>None\<close> standing for no value.
\<close>

definition solana_tx_base_fee_lamports :: u64 where
  "solana_tx_base_fee_lamports = 5000"

record bundle_auction_params =
  tip_min_lamports :: u64
  tip_max_lamports :: u64
  tip_default_bps :: u64
  auction_max_spend_bps :: u64
  jito_tip_floor_lamports :: u64
  bundle_min_profit_override :: u64
  arb_compute_units :: u32
  default_priority_fee_micro_lamports :: u64
  config_jito_tip_lamports :: u64

datatype cross_dex_bundle_tip_outcome =
    TipOk u64
  | TipRejected u64 u64 u64 u64 \<comment> \<open>estimated profit, priority cost, max auction spend, computed tip\<close>

definition bps_share :: "u64 \<Rightarrow> u64 \<Rightarrow> u64" where
  \<comment> \<open>\<open>(amount as u128 * bps as u128 / 10_000) as u64\<close>\<close>
  "bps_share amount bps = as_u64 (as_u128 amount * as_u128 bps div 10000)"

definition max_auction_spend_lamports :: "u64 \<Rightarrow> u64 \<Rightarrow> u64" where
  "max_auction_spend_lamports estimated_profit max_spend_bps = bps_share estimated_profit max_spend_bps"

definition u64_clamp :: "u64 \<Rightarrow> u64 \<Rightarrow> u64 \<Rightarrow> u64 option" where
  "u64_clamp x lo hi = (if lo > hi then None else Some (if x < lo then lo else if x > hi then hi else x))"

definition cross_dex_effective_bundle_tip_lamports ::
    "u64 \<Rightarrow> u64 \<Rightarrow> u64 \<Rightarrow> bundle_auction_params \<Rightarrow> cross_dex_bundle_tip_outcome option" where
  "cross_dex_effective_bundle_tip_lamports estimated_profit tip_bps priority_cost params =
     (let max_auction_spend = max_auction_spend_lamports estimated_profit (auction_max_spend_bps params) in
      if jito_tip_floor_lamports params > max_auction_spend
      then Some (TipRejected estimated_profit priority_cost max_auction_spend 0)
      else
        let profit_tip = bps_share estimated_profit tip_bps;
            upper = min (tip_max_lamports params) max_auction_spend
        in case u64_clamp profit_tip (jito_tip_floor_lamports params) upper of
             None \<Rightarrow> None
           | Some tip \<Rightarrow>
               let total_cost = saturating_add (saturating_add solana_tx_base_fee_lamports priority_cost) tip
               in if total_cost > estimated_profit
                  then Some (TipRejected estimated_profit priority_cost max_auction_spend tip)
                  else Some (TipOk tip))"

definition estimate_priority_fee_lamports :: "u64 \<Rightarrow> u32 \<Rightarrow> u64" where
  "estimate_priority_fee_lamports micro_lamports_per_cu compute_units =
     as_u64 (as_u128 micro_lamports_per_cu * ucast compute_units div 1000000)"

definition estimate_tx_cost_lamports :: "u64 \<Rightarrow> u32 \<Rightarrow> u64" where
  "estimate_tx_cost_lamports priority_fee compute_units =
     solana_tx_base_fee_lamports + estimate_priority_fee_lamports priority_fee compute_units"

definition profitability_after_tx_fees_bps ::
    "u64 \<Rightarrow> u32 \<Rightarrow> u64 \<Rightarrow> i32 \<Rightarrow> i32 \<Rightarrow> bool \<times> i32" where
  "profitability_after_tx_fees_bps priority_fee compute_units required_capital expected_roi_bps min_bps =
     (if required_capital = 0 then (False, 0)
      else
        let total_cost = estimate_tx_cost_lamports priority_fee compute_units;
            cost_bps = ucast (as_u128 total_cost * 10000 div as_u128 required_capital) :: i32;
            profit_after_fees = expected_roi_bps - cost_bps
        in (sint min_bps \<le> sint profit_after_fees, profit_after_fees))"

definition assumed_min_tip_lamports :: "bundle_auction_params \<Rightarrow> u64" where
  "assumed_min_tip_lamports p =
     max (max (tip_min_lamports p) (config_jito_tip_lamports p)) (jito_tip_floor_lamports p)"

definition assumed_priority_lamports :: "bundle_auction_params \<Rightarrow> u64" where
  "assumed_priority_lamports p =
     estimate_priority_fee_lamports (default_priority_fee_micro_lamports p) (arb_compute_units p)"

section \<open>The search for the least profit\<close>

text \<open>
  \<open>gate\<close> is whether the tip computation accepts a profit (\<open>None\<close>: it panics). Doubling from zero would
  not end, so \<open>double_hi\<close> has no value there; the caller starts at a positive bound.
\<close>

function double_hi :: "(u64 \<Rightarrow> bool option) \<Rightarrow> u64 \<Rightarrow> u64 option" where
  "double_hi gate hi =
     (if hi < u64_max div 4
      then (case gate hi of
              None \<Rightarrow> None
            | Some True \<Rightarrow> Some hi
            | Some False \<Rightarrow> if hi = 0 then None else double_hi gate (saturating_mul hi 2))
      else Some hi)"
  by auto
termination
proof (relation "measure (\<lambda>(gate, hi). 2 ^ 64 - unat hi)")
  fix gate and hi :: u64
  assume less: "hi < u64_max div 4" and nz: "hi \<noteq> 0"
  then have "unat hi < (2 ^ 64 - 1) div 4"
    by (simp add: word_less_nat_alt unat_div_distrib unat_u64_max)
  moreover have "0 < unat hi" using nz by (simp add: unat_gt_0)
  ultimately show "((gate, saturating_mul hi 2), (gate, hi)) \<in> measure (\<lambda>(gate, hi). 2 ^ 64 - unat hi)"
    by (simp add: unat_saturating_mul)
qed simp

lemma unat_midpoint:
  assumes "lo < (hi :: u64)"
  shows "unat (lo + (hi - lo) div 2) = unat lo + (unat hi - unat lo) div 2"
    and "unat lo \<le> unat lo + (unat hi - unat lo) div 2"
    and "unat lo + (unat hi - unat lo) div 2 < unat hi"
proof -
  have less: "unat lo < unat hi" using assms by (simp add: word_less_nat_alt)
  then have half: "unat ((hi - lo) div 2) = (unat hi - unat lo) div 2"
    by (simp add: unat_div_distrib unat_sub_small)
  show lt: "unat lo + (unat hi - unat lo) div 2 < unat hi" using less by linarith
  then show "unat (lo + (hi - lo) div 2) = unat lo + (unat hi - unat lo) div 2"
    using unat_lt_u64 [of hi] by (subst unat_add_small) (simp_all add: half)
qed simp

function search_least :: "(u64 \<Rightarrow> bool option) \<Rightarrow> u64 \<Rightarrow> u64 \<Rightarrow> u64 option" where
  "search_least gate lo hi =
     (if lo < hi
      then let mid = lo + (hi - lo) div 2
           in case gate mid of
                None \<Rightarrow> None
              | Some True \<Rightarrow> search_least gate lo mid
              | Some False \<Rightarrow> search_least gate (mid + 1) hi
      else Some lo)"
  by auto
termination
proof (relation "measure (\<lambda>(gate, lo, hi). unat hi - unat lo)")
  fix gate and lo hi mid :: u64
  assume "lo < hi" and mid: "mid = lo + (hi - lo) div 2"
  note m = unat_midpoint [OF \<open>lo < hi\<close>, folded mid]
  show "((gate, lo, mid), (gate, lo, hi)) \<in> measure (\<lambda>(gate, lo, hi). unat hi - unat lo)"
    using m by simp
  have "unat (mid + 1) = unat mid + 1"
    using m unat_lt_u64 [of hi] by (subst unat_add_small) simp_all
  then have "unat hi - unat (mid + 1) < unat hi - unat lo" using m by linarith
  then show "((gate, mid + 1, hi), (gate, lo, hi)) \<in> measure (\<lambda>(gate, lo, hi). unat hi - unat lo)"
    by simp
qed simp

declare double_hi.simps [simp del] search_least.simps [simp del]

definition tip_accepted :: "bundle_auction_params \<Rightarrow> u64 \<Rightarrow> u64 \<Rightarrow> u64 \<Rightarrow> bool option" where
  \<comment> \<open>\<open>matches!(cross_dex_effective_bundle_tip_lamports(..), CrossDexBundleTipOutcome::Ok(_))\<close>\<close>
  "tip_accepted params tip_bps priority profit =
     map_option (\<lambda>r. case r of TipOk _ \<Rightarrow> True | TipRejected _ _ _ _ \<Rightarrow> False)
       (cross_dex_effective_bundle_tip_lamports profit tip_bps priority params)"

definition div_ceil :: "u64 \<Rightarrow> u64 \<Rightarrow> u64" where
  "div_ceil a b = (if a mod b > 0 then a div b + 1 else a div b)"

definition landing_params :: "u64 \<Rightarrow> u64 \<Rightarrow> u64 \<Rightarrow> u64 \<Rightarrow> bundle_auction_params" where
  "landing_params floor tip_bps max_spend_bps tip_max =
     \<lparr> tip_min_lamports = 100000, tip_max_lamports = tip_max, tip_default_bps = tip_bps,
       auction_max_spend_bps = max_spend_bps, jito_tip_floor_lamports = floor,
       bundle_min_profit_override = 0, arb_compute_units = 400000,
       default_priority_fee_micro_lamports = 100000, config_jito_tip_lamports = 0 \<rparr>"

definition min_profit_for_bundle_landing ::
    "u64 \<Rightarrow> u64 \<Rightarrow> u64 \<Rightarrow> u64 \<Rightarrow> u64 \<Rightarrow> u64 option" where
  "min_profit_for_bundle_landing floor priority tip_bps max_spend_bps tip_max =
     (if max_spend_bps = 0 then Some u64_max
      else
        let params = landing_params floor tip_bps max_spend_bps tip_max;
            gate = tip_accepted params tip_bps priority;
            floor_min_profit = div_ceil (saturating_mul floor 10000) max_spend_bps;
            cost_floor = saturating_add (saturating_add solana_tx_base_fee_lamports priority) floor;
            lo = max floor_min_profit cost_floor
        in case gate lo of
             None \<Rightarrow> None
           | Some True \<Rightarrow> Some lo
           | Some False \<Rightarrow>
               (case double_hi gate (max (saturating_mul lo 2) (lo + 1)) of
                  None \<Rightarrow> None
                | Some hi \<Rightarrow>
                    (case gate hi of
                       None \<Rightarrow> None
                     | Some False \<Rightarrow> Some u64_max
                     | Some True \<Rightarrow> search_least gate lo hi)))"

definition min_profit_for_landing :: "bundle_auction_params \<Rightarrow> u64 option" where
  "min_profit_for_landing p =
     (if bundle_min_profit_override p > 0 then Some (bundle_min_profit_override p)
      else min_profit_for_bundle_landing (jito_tip_floor_lamports p) (assumed_priority_lamports p)
             (tip_default_bps p) (auction_max_spend_bps p) (tip_max_lamports p))"

end
