(* ===== verification/Bundle_Properties.thy ===== *)
theory Bundle_Properties
  imports Bundle_Auction
begin

text \<open>
  The tip never leaves its bounds and never costs more than the profit it is paid from; the gate on
  the estimated profit is monotone; so the doubling and bisection of the search, proved correct for
  any monotone gate, return the least profit that can land.
\<close>

section \<open>Monotone gates\<close>

locale threshold_gate =
  fixes accept :: "u64 \<Rightarrow> bool"
  assumes accept_mono: "accept p \<Longrightarrow> p \<le> q \<Longrightarrow> accept q"
begin

lemma below_rejected: "\<not> accept q \<Longrightarrow> p \<le> q \<Longrightarrow> \<not> accept p"
  using accept_mono by blast

lemma double_hi_bound:
  "hi \<noteq> 0 \<Longrightarrow> \<exists>h. double_hi (\<lambda>p. Some (accept p)) hi = Some h \<and> hi \<le> h
     \<and> (accept h \<or> u64_max div 4 \<le> h)"
proof (induction "\<lambda>p. Some (accept p)" hi rule: double_hi.induct)
  case (1 hi)
  show ?case
  proof (cases "hi < u64_max div 4 \<and> \<not> accept hi")
    case True
    then have "unat hi < (2 ^ 64 - 1) div 4"
      by (simp add: word_less_nat_alt unat_div_distrib unat_u64_max)
    then have up: "unat (saturating_mul hi 2) = unat hi * 2" by (simp add: unat_saturating_mul)
    then have "saturating_mul hi 2 \<noteq> 0" "hi \<le> saturating_mul hi 2"
      using "1.prems" by (auto simp: word_le_nat_alt word_unat_eq_iff)
    with 1 True show ?thesis
      by (subst double_hi.simps) (auto intro: order_trans)
  qed (auto simp: double_hi.simps [of _ hi])
qed

lemma search_least_finds:
  "accept hi \<Longrightarrow> lo \<le> hi \<Longrightarrow> (\<And>p. p < lo \<Longrightarrow> \<not> accept p)
     \<Longrightarrow> \<exists>r. search_least (\<lambda>p. Some (accept p)) lo hi = Some r \<and> accept r \<and> (\<forall>p < r. \<not> accept p)"
proof (induction "\<lambda>p. Some (accept p)" lo hi rule: search_least.induct)
  case (1 lo hi)
  show ?case
  proof (cases "lo < hi")
    case False
    with "1.prems" show ?thesis by (subst search_least.simps) auto
  next
    case True
    define mid where "mid = lo + (hi - lo) div 2"
    note m = unat_midpoint [OF True, folded mid_def]
    have mid: "lo \<le> mid" "mid < hi" using m by (simp_all add: word_le_nat_alt word_less_nat_alt)
    have suc: "unat (mid + 1) = unat mid + 1"
      using m unat_lt_u64 [of hi] by (subst unat_add_small) simp_all
    show ?thesis
    proof (cases "accept mid")
      case acc: True
      with 1 True mid show ?thesis by (subst search_least.simps) (simp add: Let_def mid_def [symmetric])
    next
      case rej: False
      have "p < mid + 1 \<Longrightarrow> \<not> accept p" for p
        using below_rejected [OF rej, of p] suc by (simp add: word_le_nat_alt word_less_nat_alt)
      moreover have "mid + 1 \<le> hi" using m suc by (simp add: word_le_nat_alt)
      ultimately show ?thesis using 1 True rej
        by (subst search_least.simps) (simp add: Let_def mid_def [symmetric])
    qed
  qed
qed

end

section \<open>The tip on natural numbers\<close>

definition share :: "nat \<Rightarrow> nat \<Rightarrow> nat" where
  "share bps n = n * bps div 10000"

definition tip_for :: "nat \<Rightarrow> nat \<Rightarrow> nat \<Rightarrow> nat \<Rightarrow> nat \<Rightarrow> nat" where
  "tip_for floor tip_max tip_bps spend_bps n = max floor (min (share tip_bps n) (min tip_max (share spend_bps n)))"

lemma share_mono: "n \<le> m \<Longrightarrow> share b n \<le> share b m"
  by (simp add: share_def div_le_mono)

lemma share_lipschitz:
  assumes "b \<le> 10000" "n \<le> m"
  shows "share b m \<le> share b n + (m - n)"
proof -
  have "m * b = n * b + (m - n) * b" using assms(2) by (metis add_mult_distrib le_add_diff_inverse)
  also have "\<dots> \<le> n * b + (m - n) * 10000" using assms(1) by simp
  finally have "m * b div 10000 \<le> (n * b + (m - n) * 10000) div 10000" by (rule div_le_mono)
  then show ?thesis by (simp add: share_def)
qed

lemma tip_for_lipschitz:
  assumes "tb \<le> 10000" "sb \<le> 10000" "n \<le> m"
  shows "tip_for f t tb sb m \<le> tip_for f t tb sb n + (m - n)"
  using share_lipschitz [OF assms(1,3)] share_lipschitz [OF assms(2,3)]
  unfolding tip_for_def max_def min_def by auto

lemma unat_bps_share:
  assumes "unat b \<le> 10000"
  shows "unat (bps_share a b) = share (unat b) (unat a)"
proof -
  have prod: "unat a * unat b \<le> unat a * 10000" using assms by simp
  also have "\<dots> < 2 ^ 128" using unat_lt_u64 [of a] by simp
  finally have "unat (as_u128 a * as_u128 b) = unat a * unat b"
    by (subst unat_mult_small) simp_all
  then have eq: "unat (as_u128 a * as_u128 b div 10000) = share (unat b) (unat a)"
    by (simp add: unat_div_distrib share_def)
  have "share (unat b) (unat a) \<le> unat a * 10000 div 10000"
    unfolding share_def using prod by (rule div_le_mono)
  then show ?thesis
    using eq unat_lt_u64 [of a] by (simp add: bps_share_def unat_as_u64_small)
qed

text \<open>Total cost with the saturation of the code, and the gate it decides.\<close>

definition accepts :: "nat \<Rightarrow> nat \<Rightarrow> nat \<Rightarrow> nat \<Rightarrow> nat \<Rightarrow> nat \<Rightarrow> bool" where
  "accepts floor tip_max tip_bps spend_bps priority n \<longleftrightarrow>
     floor \<le> share spend_bps n
     \<and> min (5000 + priority + tip_for floor tip_max tip_bps spend_bps n) (2 ^ 64 - 1) \<le> n"

lemma accepts_mono:
  assumes "accepts f t tb sb pr n" "n \<le> m" "m < 2 ^ 64" "tb \<le> 10000" "sb \<le> 10000"
  shows "accepts f t tb sb pr m"
proof -
  have "f \<le> share sb m" using assms(1,2) share_mono [of n m sb] by (auto simp: accepts_def)
  moreover have "min (5000 + pr + tip_for f t tb sb m) (2 ^ 64 - 1) \<le> m"
    using assms(1,2,3) tip_for_lipschitz [OF assms(4,5,2), of f t] by (auto simp: accepts_def min_def split: if_splits)
  ultimately show ?thesis by (simp add: accepts_def)
qed

definition sane :: "u64 \<Rightarrow> bundle_auction_params \<Rightarrow> bool" where
  "sane tip_bps p \<longleftrightarrow> tip_bps \<le> 10000 \<and> auction_max_spend_bps p \<le> 10000
     \<and> jito_tip_floor_lamports p \<le> tip_max_lamports p"

lemma tip_accepted_exact:
  assumes "sane tip_bps p"
  shows "tip_accepted p tip_bps priority n =
    Some (accepts (unat (jito_tip_floor_lamports p)) (unat (tip_max_lamports p)) (unat tip_bps)
            (unat (auction_max_spend_bps p)) (unat priority) (unat n))"
proof -
  let ?floor = "jito_tip_floor_lamports p" and ?sb = "auction_max_spend_bps p"
  have bps: "unat tip_bps \<le> 10000" "unat ?sb \<le> 10000" and ft: "unat ?floor \<le> unat (tip_max_lamports p)"
    using assms by (simp_all add: sane_def word_le_nat_alt)
  have spend: "unat (max_auction_spend_lamports n ?sb) = share (unat ?sb) (unat n)"
    by (simp add: max_auction_spend_lamports_def unat_bps_share bps)
  show ?thesis
  proof (cases "?floor > max_auction_spend_lamports n ?sb")
    case True
    then show ?thesis
      by (simp add: tip_accepted_def cross_dex_effective_bundle_tip_lamports_def accepts_def
          word_less_nat_alt spend)
  next
    case False
    define upper where "upper = min (tip_max_lamports p) (max_auction_spend_lamports n ?sb)"
    have upper: "unat upper = min (unat (tip_max_lamports p)) (share (unat ?sb) (unat n))"
      by (simp add: upper_def min_def word_le_nat_alt spend)
    have le: "unat ?floor \<le> unat upper"
      using False ft by (simp add: upper word_less_nat_alt spend)
    then obtain tip where tip: "u64_clamp (bps_share n tip_bps) ?floor upper = Some tip"
      by (auto simp: u64_clamp_def word_less_nat_alt)
    have "unat tip = tip_for (unat ?floor) (unat (tip_max_lamports p)) (unat tip_bps) (unat ?sb) (unat n)"
      using tip le
      by (auto simp: u64_clamp_def tip_for_def word_less_nat_alt unat_bps_share bps upper [symmetric]
          min.assoc [symmetric] split: if_splits)
    moreover have "(n < saturating_add (saturating_add solana_tx_base_fee_lamports priority) tip)
        = (\<not> min (5000 + unat priority + unat tip) (2 ^ 64 - 1) \<le> unat n)"
      by (auto simp: word_less_nat_alt unat_saturating_add solana_tx_base_fee_lamports_def min_def)
    ultimately show ?thesis
      using False tip
      by (simp add: tip_accepted_def cross_dex_effective_bundle_tip_lamports_def accepts_def
          upper_def [symmetric] word_less_nat_alt spend Let_def)
  qed
qed

definition lands :: "bundle_auction_params \<Rightarrow> u64 \<Rightarrow> u64 \<Rightarrow> u64 \<Rightarrow> bool" where
  "lands p tip_bps priority profit \<longleftrightarrow>
     (\<exists>tip. cross_dex_effective_bundle_tip_lamports profit tip_bps priority p = Some (TipOk tip))"

lemma tip_accepted_lands: "tip_accepted p tip_bps priority profit = Some True \<longleftrightarrow> lands p tip_bps priority profit"
proof (cases "cross_dex_effective_bundle_tip_lamports profit tip_bps priority p")
  case (Some r)
  then show ?thesis by (cases r) (simp_all add: tip_accepted_def lands_def)
qed (simp add: tip_accepted_def lands_def)

lemma lands_accepts:
  "sane tip_bps p \<Longrightarrow> lands p tip_bps priority n \<longleftrightarrow>
     accepts (unat (jito_tip_floor_lamports p)) (unat (tip_max_lamports p)) (unat tip_bps)
       (unat (auction_max_spend_bps p)) (unat priority) (unat n)"
  by (simp add: tip_accepted_lands [symmetric] tip_accepted_exact)

lemma tip_accepted_gate: "sane tip_bps p \<Longrightarrow> tip_accepted p tip_bps priority = (\<lambda>n. Some (lands p tip_bps priority n))"
  by (simp add: fun_eq_iff tip_accepted_exact lands_accepts)

interpretation tip_gate: threshold_gate "\<lambda>n. sane tip_bps p \<and> lands p tip_bps priority n"
  for tip_bps p priority
proof
  fix n m :: u64
  assume n: "sane tip_bps p \<and> lands p tip_bps priority n" and "n \<le> m"
  then have "unat n \<le> unat m" by (simp add: word_le_nat_alt)
  with n accepts_mono [OF _ _ unat_lt_u64 [of m]] show "sane tip_bps p \<and> lands p tip_bps priority m"
    by (auto simp: lands_accepts) (auto simp: sane_def word_le_nat_alt)
qed

lemma unat_div_ceil:
  assumes "b \<noteq> 0"
  shows "unat (div_ceil a b) = unat a div unat b + (if unat a mod unat b > 0 then 1 else 0)"
proof -
  have b: "0 < unat b" using assms by (simp add: unat_gt_0)
  have "unat a div unat b + 1 < 2 ^ 64" if "unat a mod unat b > 0"
  proof -
    have "unat b \<noteq> 1" using that by auto
    then have "1 < unat b" using b by linarith
    then have "unat a div unat b \<le> unat a div 2" by (intro div_le_mono2) auto
    then show ?thesis using unat_lt_u64 [of a] by simp
  qed
  then show ?thesis
    by (auto simp: div_ceil_def unat_div_distrib unat_mod_distrib word_less_nat_alt unat_add_small)
qed

lemma below_ceil:
  assumes "0 < b" "p < x div b + (if x mod b > 0 then 1 else 0)"
  shows "p * b < (x :: nat)"
proof (cases "x mod b > 0")
  case True
  then have "p * b \<le> x div b * b" using assms(2) by (intro mult_le_mono1) simp
  also have "\<dots> < x" using True by (metis div_mod_decomp less_add_same_cancel1)
  finally show ?thesis .
next
  case False
  then have "p * b < x div b * b" using assms by (intro mult_strict_right_mono) simp_all
  also have "\<dots> \<le> x" by (rule div_times_less_eq_dividend)
  finally show ?thesis .
qed

lemma unat_total_cost:
  "unat (saturating_add (saturating_add solana_tx_base_fee_lamports priority) tip)
     = min (5000 + unat priority + unat tip) (2 ^ 64 - 1)"
  by (auto simp: unat_saturating_add solana_tx_base_fee_lamports_def min_def)

lemma below_lo_rejected:
  assumes "sb \<noteq> 0"
    and "p < max (div_ceil (saturating_mul floor 10000) sb)
                (saturating_add (saturating_add solana_tx_base_fee_lamports priority) floor)"
  shows "\<not> accepts (unat floor) t tb (unat sb) (unat priority) (unat p)"
proof -
  have sb: "0 < unat sb" using assms(1) by (simp add: unat_gt_0)
  consider "p < div_ceil (saturating_mul floor 10000) sb"
    | "p < saturating_add (saturating_add solana_tx_base_fee_lamports priority) floor"
    using assms(2) by (auto simp: max_def split: if_splits)
  then show ?thesis
  proof cases
    case 1
    then have "unat p * unat sb < unat (saturating_mul floor 10000)"
      using below_ceil [OF sb] by (simp add: word_less_nat_alt unat_div_ceil [OF assms(1)])
    then have "unat p * unat sb < unat floor * 10000" by (simp add: unat_saturating_mul)
    then have "share (unat sb) (unat p) < unat floor" by (simp add: share_def less_mult_imp_div_less)
    then show ?thesis by (simp add: accepts_def)
  next
    case 2
    then have "unat p < min (5000 + unat priority + unat floor) (2 ^ 64 - 1)"
      by (simp only: word_less_nat_alt unat_total_cost)
    moreover have "unat floor \<le> tip_for (unat floor) t tb (unat sb) (unat p)" by (simp add: tip_for_def)
    ultimately show ?thesis by (auto simp: accepts_def)
  qed
qed

lemma doubling_start:
  assumes "saturating_add (saturating_add solana_tx_base_fee_lamports priority) floor \<le> lo"
  shows "lo \<le> max (saturating_mul lo 2) (lo + 1)" and "max (saturating_mul lo 2) (lo + 1) \<noteq> 0"
proof -
  have "unat lo \<le> unat (saturating_mul lo 2)"
    using unat_lt_u64 [of lo] by (simp add: unat_saturating_mul)
  then show le: "lo \<le> max (saturating_mul lo 2) (lo + 1)" by (auto simp: word_le_nat_alt max_def)
  have "5000 \<le> unat lo"
    using assms unat_total_cost [of priority floor] by (auto simp: word_le_nat_alt simp del: unat_total_cost)
  with le show "max (saturating_mul lo 2) (lo + 1) \<noteq> 0" by (auto simp: word_le_nat_alt)
qed

section \<open>The properties\<close>

text \<open>
  C25. The search returns, and it returns the least profit: for a spend cap and tip share of at most
  100 percent and a floor within the maximal tip, \<open>min_profit_for_bundle_landing\<close> yields a profit at
  which the bundle's tip is accepted and below which it is refused; or \<open>u64::MAX\<close>, and then nothing up
  to a quarter of the range is accepted.
\<close>

theorem min_profit_is_least:
  assumes "tip_bps \<le> 10000" "0 < max_spend_bps" "max_spend_bps \<le> 10000" "floor \<le> tip_max"
  shows "\<exists>r. min_profit_for_bundle_landing floor priority tip_bps max_spend_bps tip_max = Some r
    \<and> (lands (landing_params floor tip_bps max_spend_bps tip_max) tip_bps priority r
         \<and> (\<forall>n < r. \<not> lands (landing_params floor tip_bps max_spend_bps tip_max) tip_bps priority n)
       \<or> r = u64_max
         \<and> (\<forall>n \<le> u64_max div 4. \<not> lands (landing_params floor tip_bps max_spend_bps tip_max) tip_bps priority n))"
proof -
  define p where "p = landing_params floor tip_bps max_spend_bps tip_max"
  let ?lands = "lands p tip_bps priority"
  have sane: "sane tip_bps p" using assms by (simp add: p_def sane_def landing_params_def)
  have sb: "max_spend_bps \<noteq> 0" using assms(2) by auto
  define lo where "lo = max (div_ceil (saturating_mul floor 10000) max_spend_bps)
    (saturating_add (saturating_add solana_tx_base_fee_lamports priority) floor)"
  have below: "\<not> ?lands n" if "n < lo" for n
    using below_lo_rejected [OF sb that [unfolded lo_def]] sane
    by (simp add: lands_accepts) (simp add: p_def landing_params_def)
  note gate = tip_accepted_gate [OF sane, of priority]
  note search = min_profit_for_bundle_landing_def sb Let_def p_def [symmetric] lo_def [symmetric] gate
  show ?thesis
  proof (cases "?lands lo")
    case True
    with below show ?thesis by (simp add: search)
  next
    case False
    define hi0 where "hi0 = max (saturating_mul lo 2) (lo + 1)"
    have lohi: "lo \<le> hi0" and nz: "hi0 \<noteq> 0"
      using doubling_start [of priority floor lo] by (simp_all add: hi0_def lo_def)
    have dbl: "double_hi (\<lambda>n. Some (?lands n)) hi0 = Some h \<Longrightarrow> hi0 \<le> h \<and> (?lands h \<or> u64_max div 4 \<le> h)"
      and ex: "\<exists>h. double_hi (\<lambda>n. Some (?lands n)) hi0 = Some h" for h
      using tip_gate.double_hi_bound [OF nz, of tip_bps p priority] sane by auto
    then obtain h where h: "double_hi (\<lambda>n. Some (?lands n)) hi0 = Some h" by blast
    show ?thesis
    proof (cases "?lands h")
      case True
      have "lo \<le> h" using dbl [OF h] lohi by auto
      with True show ?thesis
        using tip_gate.search_least_finds [of tip_bps p priority h lo] sane below False h
        by (auto simp: search hi0_def [symmetric])
    next
      case rej: False
      with dbl [OF h] have "\<forall>n \<le> u64_max div 4. \<not> ?lands n"
        using tip_gate.below_rejected [of tip_bps p priority h] sane by auto
      with rej h False show ?thesis by (simp add: search hi0_def [symmetric])
    qed
  qed
qed

lemma lands_example:
  "lands (landing_params 1000 1000 1500 2000000) 1000 40000 49999"
  "\<not> lands (landing_params 1000 1000 1500 2000000) 1000 40000 49998"
  by (simp_all add: lands_accepts sane_def landing_params_def accepts_def share_def tip_for_def)

theorem min_profit_is_least_witness: "min_profit_for_bundle_landing 1000 40000 1000 1500 2000000 = Some 49999"
proof -
  let ?lands = "lands (landing_params 1000 1000 1500 2000000) 1000 40000"
  obtain r where r: "min_profit_for_bundle_landing 1000 40000 1000 1500 2000000 = Some r"
    and least: "?lands r \<and> (\<forall>n < r. \<not> ?lands n) \<or> r = u64_max \<and> (\<forall>n \<le> u64_max div 4. \<not> ?lands n)"
    using min_profit_is_least [of 1000 1500 1000 2000000 40000] by auto
  have "(49999 :: u64) \<le> u64_max div 4" by (simp add: word_le_nat_alt unat_div_distrib unat_u64_max)
  with least lands_example(1) have lr: "?lands r" "\<forall>n < r. \<not> ?lands n" by auto
  then have "r \<le> 49999" using lands_example(1) by (meson not_less)
  moreover have "sane 1000 (landing_params 1000 1000 1500 2000000)"
    by (simp add: sane_def landing_params_def)
  then have "\<not> r \<le> 49998"
    using tip_gate.below_rejected [of 1000 "landing_params 1000 1000 1500 2000000" 40000 49998 r]
      lr(1) lands_example(2) by auto
  ultimately have "unat r = 49999" by (simp add: word_le_nat_alt)
  then have "r = 49999" by (simp add: word_unat_eq_iff)
  with r show ?thesis by simp
qed

text \<open>
  An accepted tip is within every limit: at least the protocol floor, at most the configured
  maximum and the share of the profit that may be spent, and together with the base and priority fee
  at most the profit (a profit of \<open>u64::MAX\<close> apart, where the sum saturates). The computation panics
  exactly when the floor fits the spend cap but exceeds the configured maximum.
\<close>

theorem tip_within_budget:
  "(\<forall>tip. cross_dex_effective_bundle_tip_lamports profit tip_bps priority p = Some (TipOk tip) \<longrightarrow>
      jito_tip_floor_lamports p \<le> tip \<and> tip \<le> tip_max_lamports p
      \<and> tip \<le> max_auction_spend_lamports profit (auction_max_spend_bps p)
      \<and> (5000 + unat priority + unat tip \<le> unat profit \<or> profit = u64_max))
   \<and> (cross_dex_effective_bundle_tip_lamports profit tip_bps priority p = None \<longleftrightarrow>
        tip_max_lamports p < jito_tip_floor_lamports p
        \<and> jito_tip_floor_lamports p \<le> max_auction_spend_lamports profit (auction_max_spend_bps p))"
proof -
  let ?floor = "jito_tip_floor_lamports p"
  let ?spend = "max_auction_spend_lamports profit (auction_max_spend_bps p)"
  show ?thesis
  proof (cases "?spend < ?floor")
    case True
    then show ?thesis by (auto simp: cross_dex_effective_bundle_tip_lamports_def Let_def)
  next
    case False
    have cost: "\<not> profit < saturating_add (saturating_add solana_tx_base_fee_lamports priority) tip
        \<Longrightarrow> 5000 + unat priority + unat tip \<le> unat profit \<or> profit = u64_max" for tip
      using unat_lt_u64 [of profit] unat_total_cost [of priority tip]
      by (auto simp: word_less_nat_alt word_unat_eq_iff unat_u64_max min_def split: if_splits)
    show ?thesis
    proof (cases "?floor \<le> tip_max_lamports p")
      case True
      with False show ?thesis
        using cost by (auto simp: cross_dex_effective_bundle_tip_lamports_def Let_def u64_clamp_def min_def
            split: if_splits)
    next
      case False2: False
      with False show ?thesis
        by (auto simp: cross_dex_effective_bundle_tip_lamports_def Let_def u64_clamp_def min_def
            split: if_splits)
    qed
  qed
qed

theorem tip_within_budget_witness:
  "5000 + unat (40000 :: u64) + unat (5000 :: u64) \<le> unat (50000 :: u64)"
proof -
  let ?p = "landing_params 1000 1000 1500 2000000"
  have "cross_dex_effective_bundle_tip_lamports 50000 1000 40000 ?p = Some (TipOk 5000)"
    by (simp add: cross_dex_effective_bundle_tip_lamports_def max_auction_spend_lamports_def bps_share_def
        landing_params_def u64_clamp_def Let_def as_u128_def as_u64_def saturating_add_def
        solana_tx_base_fee_lamports_def)
  with tip_within_budget [of 50000 1000 40000 ?p] show ?thesis by (auto simp: u64_max_def)
qed

text \<open>
  The fee gate casts the cost in basis points to \<open>i32\<close>: for a capital so small that the cost exceeds
  \<open>i32::MAX\<close> basis points of it, the cost reads as negative and the gate opens.
\<close>

lemma fee_gate_wraps:
  "profitability_after_tx_fees_bps 1000000 300000 1 0 0 = (True, 1244967296)"
  by (simp add: profitability_after_tx_fees_bps_def estimate_tx_cost_lamports_def
      estimate_priority_fee_lamports_def solana_tx_base_fee_lamports_def Let_def as_u128_def as_u64_def)

end
