(* ===== verification/Ownership.thy ===== *)
theory Ownership
  imports Iron_Prelude
begin

text \<open>
  Which consumer needs which account subscription (\<open>market_data/track/explicit_ownership.rs\<close>): owner
  groups of public keys, a reverse index from key to owners, and the physical changes each mutation
  reports to the subscription. The order of owners is the \<open>Ord\<close> implementation of the source.
\<close>

section \<open>Owners and their order\<close>

datatype explicit_consumer = CWallet | CMomentumPosition | CMomentum | CArb | CTracker

datatype explicit_owner_key = KWallet | KPool pubkey | KMint pubkey | KGeneric u64

datatype explicit_owner = ExplicitOwner (consumer: explicit_consumer) (owner_key: explicit_owner_key)

definition word_cmp :: "'a::len word \<Rightarrow> 'a word \<Rightarrow> ordering" where
  "word_cmp a b = (if a < b then Less else if a = b then Equal else Greater)"

fun owner_key_cmp :: "explicit_owner_key \<Rightarrow> explicit_owner_key \<Rightarrow> ordering" where
  "owner_key_cmp KWallet KWallet = Equal"
| "owner_key_cmp KWallet _ = Less"
| "owner_key_cmp _ KWallet = Greater"
| "owner_key_cmp (KPool a) (KPool b) = word_cmp a b"
| "owner_key_cmp (KPool _) _ = Less"
| "owner_key_cmp _ (KPool _) = Greater"
| "owner_key_cmp (KMint a) (KMint b) = word_cmp a b"
| "owner_key_cmp (KMint _) _ = Less"
| "owner_key_cmp _ (KMint _) = Greater"
| "owner_key_cmp (KGeneric a) (KGeneric b) = word_cmp a b"

text \<open>Owners are compared by consumer (in the order declared) and then by key; ranks encode both.\<close>

fun consumer_rank :: "explicit_consumer \<Rightarrow> nat" where
  "consumer_rank CWallet = 0"
| "consumer_rank CMomentumPosition = 1"
| "consumer_rank CMomentum = 2"
| "consumer_rank CArb = 3"
| "consumer_rank CTracker = 4"

fun key_rank :: "explicit_owner_key \<Rightarrow> nat list" where
  "key_rank KWallet = [0, 0]"
| "key_rank (KPool a) = [1, unat a]"
| "key_rank (KMint a) = [2, unat a]"
| "key_rank (KGeneric a) = [3, unat a]"

definition owner_rank :: "explicit_owner \<Rightarrow> nat list" where
  "owner_rank w = consumer_rank (consumer w) # key_rank (owner_key w)"

lemma consumer_rank_inject [simp]: "consumer_rank a = consumer_rank b \<longleftrightarrow> a = b"
  by (cases a; cases b) simp_all

lemma key_rank_inject [simp]: "key_rank a = key_rank b \<longleftrightarrow> a = b"
  by (cases a; cases b) (simp_all add: word_unat_eq_iff)

lemma owner_rank_inject [simp]: "owner_rank a = owner_rank b \<longleftrightarrow> a = b"
  by (cases a; cases b) (simp add: owner_rank_def)

lemma owner_key_cmp_rank:
  "owner_key_cmp a b = (if key_rank a < key_rank b then Less else if a = b then Equal else Greater)"
  by (cases a; cases b) (auto simp: word_cmp_def word_less_nat_alt)

instantiation explicit_owner :: linorder
begin

definition less_eq_explicit_owner :: "explicit_owner \<Rightarrow> explicit_owner \<Rightarrow> bool" where
  "less_eq_explicit_owner a b \<longleftrightarrow> owner_rank a \<le> owner_rank b"

definition less_explicit_owner :: "explicit_owner \<Rightarrow> explicit_owner \<Rightarrow> bool" where
  "less_explicit_owner a b \<longleftrightarrow> owner_rank a < owner_rank b"

instance
  by standard
    (auto simp: less_eq_explicit_owner_def less_explicit_owner_def dest: antisym)

end

section \<open>The store\<close>

record explicit_ownership =
  eo_groups :: "(explicit_owner, pubkey list) btreemap"
  eo_pubkey_owners :: "(pubkey, explicit_owner set) hashmap"

datatype group_change =
    NewGroup (physical_added: "pubkey list")
  | Unchanged
  | Replaced (physical_added: "pubkey list") (physical_removed: "pubkey list")

datatype empty_owner_group_error = EmptyOwnerGroupError

definition ownership_new :: explicit_ownership where
  "ownership_new = \<lparr> eo_groups = [], eo_pubkey_owners = [] \<rparr>"

definition ownership_len :: "explicit_ownership \<Rightarrow> nat" where
  "ownership_len s = assoc_count (\<lambda>owners. owners \<noteq> {}) (eo_pubkey_owners s)"

definition ownership_contains :: "explicit_ownership \<Rightarrow> pubkey \<Rightarrow> bool" where
  "ownership_contains s k =
     (case hm_get (eo_pubkey_owners s) k of None \<Rightarrow> False | Some owners \<Rightarrow> owners \<noteq> {})"

definition owner_group :: "explicit_ownership \<Rightarrow> explicit_owner \<Rightarrow> pubkey list option" where
  "owner_group s w = map_of (eo_groups s) w"

definition owner_refcount :: "explicit_ownership \<Rightarrow> pubkey \<Rightarrow> nat" where
  "owner_refcount s k = card (hm_get_or {} (eo_pubkey_owners s) k)"

definition snapshot_pubkeys :: "explicit_ownership \<Rightarrow> pubkey list" where
  "snapshot_pubkeys s = sort (map fst (filter (\<lambda>(k, owners). owners \<noteq> {}) (eo_pubkey_owners s)))"

definition snapshot_owner_groups :: "explicit_ownership \<Rightarrow> (explicit_owner \<times> pubkey list) list" where
  "snapshot_owner_groups s = eo_groups s"

definition ownership_clear :: "explicit_ownership \<Rightarrow> explicit_ownership" where
  "ownership_clear s = \<lparr> eo_groups = [], eo_pubkey_owners = [] \<rparr>"

definition normalize_pubkeys :: "pubkey list \<Rightarrow> pubkey list" where
  "normalize_pubkeys ks = remdups_adj (sort ks)"

fun attach_owner_pubkeys ::
    "explicit_owner \<Rightarrow> pubkey list \<Rightarrow> pubkey set \<Rightarrow> (pubkey, explicit_owner set) hashmap
      \<Rightarrow> pubkey list \<times> (pubkey, explicit_owner set) hashmap" where
  "attach_owner_pubkeys w [] previously_owned idx = ([], idx)"
| "attach_owner_pubkeys w (k # ks) previously_owned idx =
     (let owners = hm_get_or {} idx k;
          was_physical = (owners \<noteq> {});
          (added, idx') = attach_owner_pubkeys w ks previously_owned (hm_put k (insert w owners) idx)
      in (if \<not> was_physical \<and> k \<notin> previously_owned then k # added else added, idx'))"

fun detach_loop ::
    "explicit_owner \<Rightarrow> pubkey list \<Rightarrow> (pubkey, explicit_owner set) hashmap
      \<Rightarrow> pubkey list \<times> (pubkey, explicit_owner set) hashmap" where
  "detach_loop w [] idx = ([], idx)"
| "detach_loop w (k # ks) idx =
     (case hm_get idx k of
        None \<Rightarrow> detach_loop w ks idx
      | Some owners \<Rightarrow>
          if owners - {w} = {}
          then let (removed, idx') = detach_loop w ks (hm_del k idx) in (k # removed, idx')
          else detach_loop w ks (hm_put k (owners - {w}) idx))"

definition detach_owner_pubkeys ::
    "explicit_owner \<Rightarrow> pubkey list \<Rightarrow> (pubkey, explicit_owner set) hashmap
      \<Rightarrow> pubkey list \<times> (pubkey, explicit_owner set) hashmap" where
  "detach_owner_pubkeys w ks idx = (let (removed, idx') = detach_loop w ks idx in (sort removed, idx'))"

definition upsert_group ::
    "explicit_owner \<Rightarrow> pubkey list \<Rightarrow> explicit_ownership
      \<Rightarrow> (empty_owner_group_error + group_change) \<times> explicit_ownership" where
  "upsert_group w pubkeys s =
     (let normalized = normalize_pubkeys pubkeys in
      if normalized = [] then (Inl EmptyOwnerGroupError, s)
      else case map_of (eo_groups s) w of
        None \<Rightarrow>
          (let (added, idx) = attach_owner_pubkeys w normalized {} (eo_pubkey_owners s)
           in (Inr (NewGroup added),
               \<lparr> eo_groups = bt_put w normalized (eo_groups s), eo_pubkey_owners = idx \<rparr>))
      | Some existing \<Rightarrow>
          if existing = normalized then (Inr Unchanged, s)
          else
            let (removed, idx1) = detach_owner_pubkeys w existing (eo_pubkey_owners s);
                (added, idx2) = attach_owner_pubkeys w normalized (set existing) idx1
            in (Inr (Replaced added (filter (\<lambda>k. k \<notin> set normalized) removed)),
                \<lparr> eo_groups = bt_put w normalized (eo_groups s), eo_pubkey_owners = idx2 \<rparr>))"

definition remove_group ::
    "explicit_owner \<Rightarrow> explicit_ownership \<Rightarrow> (explicit_owner \<times> pubkey list) option \<times> explicit_ownership" where
  "remove_group w s =
     (case map_of (eo_groups s) w of
        None \<Rightarrow> (None, s)
      | Some pubkeys \<Rightarrow>
          (Some (w, pubkeys),
           \<lparr> eo_groups = AList.delete w (eo_groups s),
             eo_pubkey_owners = snd (detach_owner_pubkeys w pubkeys (eo_pubkey_owners s)) \<rparr>))"

section \<open>The reverse index\<close>

definition owners_of :: "explicit_ownership \<Rightarrow> pubkey \<Rightarrow> explicit_owner set" where
  "owners_of s k = {w. \<exists>g. map_of (eo_groups s) w = Some g \<and> k \<in> set g}"

definition physical :: "explicit_ownership \<Rightarrow> pubkey set" where
  "physical s = {k. owners_of s k \<noteq> {}}"

definition own_inv :: "explicit_ownership \<Rightarrow> bool" where
  "own_inv s \<longleftrightarrow> bt_wf (eo_groups s) \<and> hm_wf (eo_pubkey_owners s)
     \<and> (\<forall>w g. map_of (eo_groups s) w = Some g \<longrightarrow> g \<noteq> [] \<and> sorted_wrt (<) g)
     \<and> (\<forall>k. hm_get (eo_pubkey_owners s) k = (if owners_of s k = {} then None else Some (owners_of s k)))"

lemma own_inv_new: "own_inv ownership_new"
  by (simp add: own_inv_def ownership_new_def owners_of_def bt_wf_def)

lemma set_normalize [simp]: "set (normalize_pubkeys ks) = set ks"
  by (simp add: normalize_pubkeys_def)

lemma strict_sorted_remdups_adj: "sorted xs \<Longrightarrow> sorted_wrt (<) (remdups_adj xs)"
  by (induction xs rule: remdups_adj.induct) (auto simp: less_le)

lemma sorted_normalize: "sorted_wrt (<) (normalize_pubkeys ks)"
  by (simp add: normalize_pubkeys_def strict_sorted_remdups_adj)

lemma normalize_Nil [simp]: "normalize_pubkeys ks = [] \<longleftrightarrow> ks = []"
  by (metis set_empty set_normalize)

lemma attach_index:
  "hm_get (snd (attach_owner_pubkeys w ks prev idx)) k =
     (if k \<in> set ks then Some (insert w (hm_get_or {} idx k)) else hm_get idx k)"
  by (induction w ks prev idx rule: attach_owner_pubkeys.induct)
    (auto simp: Let_def update_conv' hm_get_or_put split: prod.splits)

lemma attach_added:
  "distinct ks \<Longrightarrow> fst (attach_owner_pubkeys w ks prev idx)
     = filter (\<lambda>k. hm_get_or {} idx k = {} \<and> k \<notin> prev) ks"
proof (induction w ks prev idx rule: attach_owner_pubkeys.induct)
  case (2 w k ks prev idx)
  have "filter (\<lambda>j. hm_get_or {} (hm_put k (insert w (hm_get_or {} idx k)) idx) j = {} \<and> j \<notin> prev) ks
      = filter (\<lambda>j. hm_get_or {} idx j = {} \<and> j \<notin> prev) ks"
    using "2.prems" by (intro filter_cong) (auto simp: hm_get_or_put)
  with 2 show ?case by (auto simp: Let_def split: prod.splits)
qed simp

lemma attach_wf: "hm_wf idx \<Longrightarrow> hm_wf (snd (attach_owner_pubkeys w ks prev idx))"
  by (induction w ks prev idx rule: attach_owner_pubkeys.induct)
    (auto simp: Let_def hm.invar_put split: prod.splits)

text \<open>The index holds a key exactly when it has an owner; \<open>indexed\<close> is what it stores for a set of owners.\<close>

definition indexed :: "explicit_owner set \<Rightarrow> explicit_owner set option" where
  "indexed ws = (if ws = {} then None else Some ws)"

lemma get_or_indexed: "hm_get idx k = indexed ws \<Longrightarrow> hm_get_or {} idx k = ws"
  by (simp add: indexed_def hm_get_or_def split: if_splits)

lemma indexed_insert [simp]: "indexed (insert w ws) = Some (insert w ws)"
  by (simp add: indexed_def)

lemma detach_index:
  assumes "\<And>j. hm_get idx j = indexed (f j)"
  shows "hm_get (snd (detach_owner_pubkeys w ks idx)) k = indexed (if k \<in> set ks then f k - {w} else f k)"
proof -
  have "hm_get (snd (detach_loop w ks idx)) k = indexed (if k \<in> set ks then f k - {w} else f k)"
    using assms
  proof (induction ks arbitrary: idx f)
    case (Cons j ks)
    show ?case
    proof (cases "f j = {}")
      case True
      then show ?thesis using Cons.prems [of j] Cons.IH [of idx f, OF Cons.prems] by (auto simp: indexed_def)
    next
      case False
      let ?f = "f(j := f j - {w})"
      have "hm_get (if f j - {w} = {} then hm_del j idx else hm_put j (f j - {w}) idx) i = indexed (?f i)" for i
        using Cons.prems [of i] by (auto simp: indexed_def delete_conv' update_conv')
      from Cons.IH [OF this] show ?thesis
        using False Cons.prems [of j] by (auto simp: indexed_def Let_def split: prod.splits if_splits)
    qed
  qed simp
  then show ?thesis by (simp add: detach_owner_pubkeys_def split_beta)
qed

lemma detach_wf: "hm_wf idx \<Longrightarrow> hm_wf (snd (detach_owner_pubkeys w ks idx))"
proof -
  have "hm_wf idx \<Longrightarrow> hm_wf (snd (detach_loop w ks idx))"
    by (induction w ks idx rule: detach_loop.induct)
      (auto simp: Let_def hm.invar_put hm.invar_del split: prod.splits option.splits)
  then show "hm_wf idx \<Longrightarrow> hm_wf (snd (detach_owner_pubkeys w ks idx))"
    by (simp add: detach_owner_pubkeys_def split_beta)
qed

lemma detach_removed:
  assumes "distinct ks" "\<And>j. hm_get idx j = indexed (f j)"
  shows "fst (detach_owner_pubkeys w ks idx) = sort (filter (\<lambda>k. f k = {w}) ks)"
proof -
  have "fst (detach_loop w ks idx) = filter (\<lambda>k. f k = {w}) ks"
    if "\<And>j. j \<in> set ks \<Longrightarrow> hm_get idx j = indexed (f j)" for idx
    using assms(1) that
  proof (induction ks arbitrary: idx)
    case (Cons j ks)
    let ?next = "if f j - {w} = {} then hm_del j idx else hm_put j (f j - {w}) idx"
    have next_iff: "fst (detach_loop w ks ?next) = filter (\<lambda>k. f k = {w}) ks"
      using Cons.prems by (intro Cons.IH) (auto simp: delete_conv' update_conv')
    have stay: "fst (detach_loop w ks idx) = filter (\<lambda>k. f k = {w}) ks"
      using Cons.prems by (intro Cons.IH) auto
    have here: "hm_get idx j = indexed (f j)" using Cons.prems by simp
    consider "f j = {}" | "f j = {w}" | "f j \<noteq> {}" "f j - {w} \<noteq> {}" by blast
    then show ?case
      using here next_iff stay by cases (auto simp: indexed_def split_beta Let_def)
  qed simp
  with assms(2) show ?thesis by (simp add: detach_owner_pubkeys_def split_beta)
qed

section \<open>What a mutation changes\<close>

fun reported_added :: "group_change \<Rightarrow> pubkey list" where
  "reported_added (NewGroup ks) = ks"
| "reported_added Unchanged = []"
| "reported_added (Replaced ks js) = ks"

fun reported_removed :: "group_change \<Rightarrow> pubkey list" where
  "reported_removed (NewGroup ks) = []"
| "reported_removed Unchanged = []"
| "reported_removed (Replaced ks js) = js"

lemma own_invD:
  assumes "own_inv s"
  shows "bt_wf (eo_groups s)" and "hm_wf (eo_pubkey_owners s)"
    and "map_of (eo_groups s) w = Some g \<Longrightarrow> g \<noteq> [] \<and> sorted_wrt (<) g"
    and "hm_get (eo_pubkey_owners s) k = indexed (owners_of s k)"
  using assms by (auto simp: own_inv_def indexed_def)

lemma own_invI:
  assumes "bt_wf (eo_groups s)" "hm_wf (eo_pubkey_owners s)"
    and "\<And>w g. map_of (eo_groups s) w = Some g \<Longrightarrow> g \<noteq> [] \<and> sorted_wrt (<) g"
    and "\<And>k. hm_get (eo_pubkey_owners s) k = indexed (owners_of s k)"
  shows "own_inv s"
  using assms by (auto simp: own_inv_def indexed_def)

lemma owners_of_put:
  "owners_of \<lparr> eo_groups = bt_put w g (eo_groups s), eo_pubkey_owners = idx \<rparr> k
     = (if k \<in> set g then insert w (owners_of s k) else owners_of s k - {w})"
  by (auto simp: owners_of_def map_of_bt_put)

lemma owners_of_delete:
  "owners_of \<lparr> eo_groups = AList.delete w (eo_groups s), eo_pubkey_owners = idx \<rparr> k = owners_of s k - {w}"
  by (auto simp: owners_of_def delete_conv')

lemma own_group_iff: "map_of (eo_groups s) w = Some g \<Longrightarrow> w \<in> owners_of s k \<longleftrightarrow> k \<in> set g"
  by (simp add: owners_of_def)

lemma own_group_none: "map_of (eo_groups s) w = None \<Longrightarrow> w \<notin> owners_of s k"
  by (simp add: owners_of_def)

lemma distinct_strict: "sorted_wrt (<) (ks :: pubkey list) \<Longrightarrow> distinct ks"
  by (simp add: strict_sorted_iff)

lemma own_inv_put:
  assumes "own_inv s" "ks \<noteq> []" "hm_wf idx"
    and "\<And>k. hm_get idx k = indexed (if k \<in> set ks then insert w (owners_of s k) else owners_of s k - {w})"
  shows "own_inv \<lparr> eo_groups = bt_put w (normalize_pubkeys ks) (eo_groups s), eo_pubkey_owners = idx \<rparr>"
    (is "own_inv ?s")
proof (rule own_invI)
  show "bt_wf (eo_groups ?s)" using own_invD(1) [OF assms(1)] by (simp add: bt_wf_put)
  show "hm_get (eo_pubkey_owners ?s) k = indexed (owners_of ?s k)" for k
    using assms(4) [of k] by (simp add: owners_of_put)
  show "g \<noteq> [] \<and> sorted_wrt (<) g" if "map_of (eo_groups ?s) v = Some g" for v g
    using that assms(2) sorted_normalize own_invD(3) [OF assms(1), of v g]
    by (auto simp: map_of_bt_put split: if_splits)
qed (simp add: assms(3))

lemma upsert_fresh_group:
  assumes "own_inv s" "ks \<noteq> []" "map_of (eo_groups s) w = None"
  defines "r \<equiv> attach_owner_pubkeys w (normalize_pubkeys ks) {} (eo_pubkey_owners s)"
  shows "upsert_group w ks s = (Inr (NewGroup (fst r)),
           \<lparr> eo_groups = bt_put w (normalize_pubkeys ks) (eo_groups s), eo_pubkey_owners = snd r \<rparr>)"
    and "fst r = filter (\<lambda>k. owners_of s k = {}) (normalize_pubkeys ks)"
    and "own_inv (snd (upsert_group w ks s))"
proof -
  show eq: "upsert_group w ks s = (Inr (NewGroup (fst r)),
           \<lparr> eo_groups = bt_put w (normalize_pubkeys ks) (eo_groups s), eo_pubkey_owners = snd r \<rparr>)"
    using assms by (simp add: upsert_group_def split_beta Let_def)
  have get: "hm_get_or {} (eo_pubkey_owners s) k = owners_of s k" for k
    by (rule get_or_indexed [OF own_invD(4) [OF assms(1)]])
  show "fst r = filter (\<lambda>k. owners_of s k = {}) (normalize_pubkeys ks)"
    by (simp add: r_def attach_added distinct_strict sorted_normalize get)
  show "own_inv (snd (upsert_group w ks s))"
    unfolding eq snd_conv
    by (rule own_inv_put [OF assms(1,2)])
      (simp_all add: r_def attach_wf attach_index own_invD [OF assms(1)] get own_group_none [OF assms(3)])
qed

lemma upsert_replaced_group:
  assumes "own_inv s" "ks \<noteq> []" "map_of (eo_groups s) w = Some old" "old \<noteq> normalize_pubkeys ks"
  shows "\<exists>idx. upsert_group w ks s =
      (Inr (Replaced (filter (\<lambda>k. owners_of s k = {}) (normalize_pubkeys ks))
                     (filter (\<lambda>k. owners_of s k = {w} \<and> k \<notin> set ks) old)),
       \<lparr> eo_groups = bt_put w (normalize_pubkeys ks) (eo_groups s), eo_pubkey_owners = idx \<rparr>)"
    and "own_inv (snd (upsert_group w ks s))"
proof -
  let ?d = "detach_owner_pubkeys w old (eo_pubkey_owners s)"
  let ?a = "attach_owner_pubkeys w (normalize_pubkeys ks) (set old) (snd ?d)"
  note inv = own_invD [OF assms(1)]
  have old: "sorted_wrt (<) old" using inv(3) [OF assms(3)] by simp
  have mem: "w \<in> owners_of s k \<longleftrightarrow> k \<in> set old" for k by (rule own_group_iff [OF assms(3)])
  have idx1: "hm_get (snd ?d) k = indexed (owners_of s k - {w})" for k
    using detach_index [OF inv(4), where w = w and ks = old and k = k] mem [of k] by (auto split: if_splits)
  have removed: "fst ?d = filter (\<lambda>k. owners_of s k = {w}) old"
    using old by (simp add: detach_removed [OF distinct_strict [OF old] inv(4)] sorted_sort_id strict_sorted_iff
      sorted_filter [of "\<lambda>k. k", simplified])
  have get: "hm_get_or {} (snd ?d) k = owners_of s k - {w}" for k
    by (rule get_or_indexed [OF idx1])
  have added: "fst ?a = filter (\<lambda>k. owners_of s k = {}) (normalize_pubkeys ks)"
    by (auto simp: attach_added distinct_strict sorted_normalize get mem [symmetric] intro!: filter_cong)
  have eq: "upsert_group w ks s =
      (Inr (Replaced (fst ?a) (filter (\<lambda>k. k \<notin> set ks) (fst ?d))),
       \<lparr> eo_groups = bt_put w (normalize_pubkeys ks) (eo_groups s), eo_pubkey_owners = snd ?a \<rparr>)"
    using assms by (simp add: upsert_group_def split_beta Let_def)
  then show "\<exists>idx. upsert_group w ks s =
      (Inr (Replaced (filter (\<lambda>k. owners_of s k = {}) (normalize_pubkeys ks))
                     (filter (\<lambda>k. owners_of s k = {w} \<and> k \<notin> set ks) old)),
       \<lparr> eo_groups = bt_put w (normalize_pubkeys ks) (eo_groups s), eo_pubkey_owners = idx \<rparr>)"
    by (simp add: added removed conj_commute)
  show "own_inv (snd (upsert_group w ks s))"
    unfolding eq snd_conv
    by (rule own_inv_put [OF assms(1,2)]) (simp_all add: attach_wf detach_wf inv attach_index idx1 get)
qed

lemma own_inv_remove: "own_inv s \<Longrightarrow> own_inv (snd (remove_group w s))"
proof (cases "map_of (eo_groups s) w")
  case (Some g)
  assume inv: "own_inv s"
  note i = own_invD [OF inv]
  have "hm_get (snd (detach_owner_pubkeys w g (eo_pubkey_owners s))) k = indexed (owners_of s k - {w})" for k
    using detach_index [OF i(4), where w = w and ks = g and k = k] own_group_iff [OF Some, of k]
    by (auto split: if_splits)
  then show ?thesis
    using Some i(1,2) i(3)
    by (simp add: remove_group_def own_inv_def owners_of_delete bt_wf_delete detach_wf delete_conv' indexed_def)
qed (simp add: remove_group_def)

lemma own_inv_upsert:
  assumes "own_inv s"
  shows "own_inv (snd (upsert_group w ks s))"
proof (cases "ks = []")
  case True
  then show ?thesis using assms by (simp add: upsert_group_def normalize_pubkeys_def)
next
  case False
  then show ?thesis
    using upsert_fresh_group(3) [OF assms False, of w] upsert_replaced_group(2) [OF assms False, of w] assms
    by (cases "map_of (eo_groups s) w") (auto simp: upsert_group_def Let_def split: if_splits)
qed

section \<open>Properties\<close>

datatype own_op = UpsertGroup explicit_owner "pubkey list" | RemoveGroup explicit_owner | ClearAll

fun own_step :: "own_op \<Rightarrow> explicit_ownership \<Rightarrow> explicit_ownership" where
  "own_step (UpsertGroup w ks) s = snd (upsert_group w ks s)"
| "own_step (RemoveGroup w) s = snd (remove_group w s)"
| "own_step ClearAll s = ownership_clear s"

lemma own_inv_step: "own_inv s \<Longrightarrow> own_inv (own_step op s)"
  by (cases op) (simp_all add: own_inv_upsert own_inv_remove ownership_clear_def own_inv_new
    [unfolded ownership_new_def])

lemma own_inv_run: "own_inv s \<Longrightarrow> own_inv (fold own_step ops s)"
  by (induction ops arbitrary: s) (simp_all add: own_inv_step)

lemma filter_physical:
  assumes "own_inv s"
  shows "filter (\<lambda>(k, owners). owners \<noteq> {}) (eo_pubkey_owners s) = eo_pubkey_owners s"
    and "set (map fst (eo_pubkey_owners s)) = physical s"
proof -
  note i = own_invD [OF assms]
  have "owners \<noteq> {}" if "(k, owners) \<in> set (eo_pubkey_owners s)" for k owners
    using that i(2) i(4) [of k] by (auto simp: hm_wf_def indexed_def split: if_splits)
  then show "filter (\<lambda>(k, owners). owners \<noteq> {}) (eo_pubkey_owners s) = eo_pubkey_owners s"
    by (auto simp: filter_id_conv)
  have "k \<in> dom (hm_get (eo_pubkey_owners s)) \<longleftrightarrow> k \<in> physical s" for k
    using i(4) [of k] by (simp add: domIff physical_def indexed_def)
  then show "set (map fst (eo_pubkey_owners s)) = physical s"
    unfolding dom_map_of_conv_image_fst by auto
qed

text \<open>Readings of a well-formed store.\<close>

lemma finite_physical: "own_inv s \<Longrightarrow> finite (physical s)"
  unfolding filter_physical(2) [symmetric] by simp

lemma snapshot_pubkeys_physical:
  assumes "own_inv s"
  shows "snapshot_pubkeys s = sorted_list_of_set (physical s)"
  using own_invD(2) [OF assms]
  unfolding snapshot_pubkeys_def filter_physical(1) [OF assms] filter_physical(2) [OF assms, symmetric]
  by (simp add: hm_wf_def sorted_list_of_set_sort_remdups distinct_remdups_id del: set_map)

lemma owner_refcount_owners: "own_inv s \<Longrightarrow> owner_refcount s k = card (owners_of s k)"
  by (simp add: owner_refcount_def get_or_indexed [OF own_invD(4)])

lemma ownership_len_snapshot: "ownership_len s = length (snapshot_pubkeys s)"
  by (simp add: ownership_len_def assoc_count_def snapshot_pubkeys_def)

lemma ownership_len_physical: "own_inv s \<Longrightarrow> ownership_len s = card (physical s)"
  by (simp add: ownership_len_snapshot snapshot_pubkeys_physical)

lemma distinct_groups: "own_inv s \<Longrightarrow> distinct (map fst (eo_groups s))"
  using bt_wf_hm_wf [OF own_invD(1)] by (simp add: hm_wf_def)

lemma finite_owners_of: "finite (owners_of s k)"
  by (rule finite_subset [of _ "fst ` set (eo_groups s)"]) (auto simp: owners_of_def dest: map_of_SomeD intro: rev_image_eqI)

text \<open>
  C27. Whatever groups are inserted, replaced, removed or cleared, the reverse index stays exact: the
  snapshot of tracked keys is the sorted union of the groups, their number, the membership test and
  the reference counts agree with the groups, and no key without an owner stays behind.
\<close>

theorem ownership_index_exact:
  fixes ops
  defines "s \<equiv> fold own_step ops ownership_new"
  shows "snapshot_pubkeys s = sorted_list_of_set (\<Union>(_, g) \<in> set (snapshot_owner_groups s). set g)
    \<and> ownership_len s = length (snapshot_pubkeys s)
    \<and> ownership_contains s k = (k \<in> set (snapshot_pubkeys s))
    \<and> owner_refcount s k = length (filter (\<lambda>(_, g). k \<in> set g) (snapshot_owner_groups s))
    \<and> sorted_wrt (<) (map fst (snapshot_owner_groups s))"
proof -
  have inv: "own_inv s" unfolding s_def by (rule own_inv_run [OF own_inv_new])
  note i = own_invD [OF inv]
  note d = distinct_groups [OF inv] and snap = snapshot_pubkeys_physical [OF inv] and fin = finite_physical [OF inv]
  have phys: "physical s = (\<Union>(_, g) \<in> set (snapshot_owner_groups s). set g)"
    using d by (force simp: physical_def owners_of_def snapshot_owner_groups_def)
  have "owners_of s k = fst ` set (filter (\<lambda>(_, g). k \<in> set g) (eo_groups s))"
    using d by (force simp: owners_of_def)
  moreover have "distinct (map fst (filter (\<lambda>(_, g). k \<in> set g) (eo_groups s)))"
    using d by (rule distinct_map_filter)
  ultimately have card: "card (owners_of s k) = length (filter (\<lambda>(_, g). k \<in> set g) (eo_groups s))"
    using distinct_card by (fastforce simp: distinct_card [symmetric])
  have "ownership_contains s k = (k \<in> set (snapshot_pubkeys s))"
    using i(4) [of k] fin by (auto simp: ownership_contains_def snap physical_def indexed_def)
  with ownership_len_snapshot card snap phys i(1) owner_refcount_owners [OF inv] show ?thesis
    by (simp add: snapshot_owner_groups_def bt_wf_def)
qed

lemma listing: "sorted_wrt (<) ls \<Longrightarrow> set ls = X \<Longrightarrow> ls = sorted_list_of_set (X :: 'a::linorder set)"
  by (metis sorted_list_of_set.idem_if_sorted_distinct strict_sorted_iff)

lemma added_listing:
  "filter (\<lambda>k. owners_of s k = {}) (normalize_pubkeys ks) = sorted_list_of_set (physical
     \<lparr> eo_groups = bt_put w (normalize_pubkeys ks) (eo_groups s), eo_pubkey_owners = idx \<rparr> - physical s)"
  by (intro listing sorted_wrt_filter sorted_normalize) (auto simp: physical_def owners_of_put)

lemma removed_listing:
  assumes "own_inv s" "map_of (eo_groups s) w = Some old"
  shows "filter (\<lambda>k. owners_of s k = {w} \<and> k \<notin> set ks) old = sorted_list_of_set (physical s - physical
     \<lparr> eo_groups = bt_put w (normalize_pubkeys ks) (eo_groups s), eo_pubkey_owners = idx \<rparr>)"
  using own_invD(3) [OF assms] own_group_iff [OF assms(2)]
  by (intro listing sorted_wrt_filter) (auto simp: physical_def owners_of_put)

text \<open>
  An insertion fails exactly on an empty list of keys and then changes nothing. Otherwise the owner
  holds the sorted keys, the other owners keep theirs, and the change reported to the subscription is
  exact: the keys added are those that had no owner before, the keys removed those that have none
  now, each once and in order.
\<close>

theorem upsert_reports_physical_changes:
  assumes "own_inv s"
  shows "case upsert_group w ks s of
      (Inl e, s') \<Rightarrow> ks = [] \<and> s' = s
    | (Inr c, s') \<Rightarrow> ks \<noteq> [] \<and> own_inv s'
        \<and> owner_group s' = (owner_group s)(w \<mapsto> normalize_pubkeys ks)
        \<and> reported_added c = sorted_list_of_set (physical s' - physical s)
        \<and> reported_removed c = sorted_list_of_set (physical s - physical s')"
proof (cases "ks = []")
  case True
  then show ?thesis by (simp add: upsert_group_def normalize_pubkeys_def)
next
  case False
  show ?thesis
  proof (cases "map_of (eo_groups s) w")
    case None
    note up = upsert_fresh_group [OF assms False None]
    let ?s = "snd (upsert_group w ks s)"
    have "[] = sorted_list_of_set (physical s - physical ?s)"
      using own_group_none [OF None] by (intro listing) (auto simp: up(1) physical_def owners_of_put)
    then show ?thesis
      using up False added_listing
      by (simp add: up(1) owner_group_def map_of_bt_put fun_eq_iff)
  next
    case (Some old)
    show ?thesis
    proof (cases "old = normalize_pubkeys ks")
      case True
      then show ?thesis
        using Some False assms by (auto simp: upsert_group_def Let_def owner_group_def)
    next
      case ne: False
      obtain idx where up: "upsert_group w ks s =
        (Inr (Replaced (filter (\<lambda>k. owners_of s k = {}) (normalize_pubkeys ks))
                     (filter (\<lambda>k. owners_of s k = {w} \<and> k \<notin> set ks) old)),
         \<lparr> eo_groups = bt_put w (normalize_pubkeys ks) (eo_groups s), eo_pubkey_owners = idx \<rparr>)"
        using upsert_replaced_group(1) [OF assms False Some ne] by blast
      then show ?thesis
        using False added_listing removed_listing [OF assms Some] upsert_replaced_group(2) [OF assms False Some ne]
        by (simp add: owner_group_def map_of_bt_put fun_eq_iff)
    qed
  qed
qed

theorem upsert_reports_physical_changes_witness:
  defines "a \<equiv> ExplicitOwner CArb (KPool 7)" and "b \<equiv> ExplicitOwner CMomentum (KPool 7)"
  defines "s \<equiv> fold own_step [UpsertGroup a [9, 4], UpsertGroup b [4]] ownership_new"
  shows "own_inv s \<and> fst (upsert_group a [5] s) = Inr (Replaced [5] [9])
    \<and> [5] = sorted_list_of_set (physical (snd (upsert_group a [5] s)) - physical s)
    \<and> [9] = sorted_list_of_set (physical s - physical (snd (upsert_group a [5] s)))"
proof -
  have inv: "own_inv s" unfolding s_def by (rule own_inv_run [OF own_inv_new])
  have "fst (upsert_group a [5] s) = Inr (Replaced [5] [9])"
    unfolding s_def a_def b_def by code_simp
  then show ?thesis
    using inv upsert_reports_physical_changes [OF inv, where w = a and ks = "[5]"]
    by (auto split: prod.splits)
qed

end
