(* ===== verification/Eviction_Planner.thy ===== *)
theory Eviction_Planner
  imports Ownership "HOL-Library.Product_Lexorder"
begin

text \<open>
  Planning which owner groups give way when the subscription is full
  (\<open>market_data/track/eviction_planner.rs\<close>): a validated snapshot of the ownership store with the
  last-touch stamps, the analysis of which protection tier has to be opened, and the selection of
  victims by priority and age. Nothing here changes the store.

  A \<open>usize\<close> is a natural number, and the checked operations on it fail at \<open>2 ^ 64\<close>. A \<open>BTreeSet\<close> is
  its elements in order. \<open>binary_search\<close> is the search for the entry, which is what it does on the
  sorted vectors a snapshot holds. The counters compiled only for tests are left out.
\<close>

section \<open>Counts and orders\<close>

type_synonym usize = nat

definition usize_checked_add :: "usize \<Rightarrow> usize \<Rightarrow> usize option" where
  "usize_checked_add a b = (if a + b < 2 ^ 64 then Some (a + b) else None)"

definition usize_checked_sub :: "usize \<Rightarrow> usize \<Rightarrow> usize option" where
  "usize_checked_sub a b = (if b \<le> a then Some (a - b) else None)"

definition ord_cmp :: "'a::linorder \<Rightarrow> 'a \<Rightarrow> ordering" where
  "ord_cmp a b = (if a < b then Less else if a = b then Equal else Greater)"

fun then_cmp :: "ordering \<Rightarrow> ordering \<Rightarrow> ordering" where
  "then_cmp Equal b = b"
| "then_cmp a b = a"

text \<open>\<open>Iterator::min_by\<close>: the first of the least elements.\<close>

fun min_by :: "('a \<Rightarrow> 'a \<Rightarrow> ordering) \<Rightarrow> 'a list \<Rightarrow> 'a option" where
  "min_by cmp [] = None"
| "min_by cmp (x # xs) = Some (fold (\<lambda>y m. if cmp m y = Greater then y else m) xs x)"

definition to_btreeset :: "'a::linorder list \<Rightarrow> 'a list" where
  "to_btreeset xs = remdups_adj (sort xs)"

section \<open>The snapshot\<close>

record owner_lru_entry =
  le_owner :: explicit_owner
  le_last_touch :: u64

record owner_planning_record =
  pr_owner :: explicit_owner
  pr_last_touch :: u64
  pr_pubkeys :: "pubkey list"

record pubkey_owner_index =
  pi_pubkey :: pubkey
  pi_refcount :: usize
  pi_owners :: "explicit_owner list"

record eviction_planning_snapshot =
  es_physical_len :: usize
  es_physical_pubkeys :: "pubkey list"
  es_owners :: "owner_planning_record list"
  es_pubkey_index :: "pubkey_owner_index list"

datatype snapshot_build_error =
    MissingLruEntry explicit_owner
  | UnknownLruOwner explicit_owner
  | DuplicateLruOwner explicit_owner
  | PhysicalLenMismatch usize usize \<comment> \<open>derived, canonical\<close>
  | PhysicalPubkeysMismatch
  | RefcountMismatch pubkey usize usize \<comment> \<open>key, derived, canonical\<close>

definition owner_set_from_groups :: "(explicit_owner \<times> pubkey list) list \<Rightarrow> explicit_owner list" where
  "owner_set_from_groups groups = to_btreeset (map fst groups)"

fun index_lru ::
    "explicit_owner list \<Rightarrow> owner_lru_entry list \<Rightarrow> (explicit_owner, u64) btreemap
      \<Rightarrow> snapshot_build_error + (explicit_owner, u64) btreemap" where
  "index_lru owners [] m = Inr m"
| "index_lru owners (e # es) m =
     (if map_of m (le_owner e) \<noteq> None then Inl (DuplicateLruOwner (le_owner e))
      else if le_owner e \<notin> set owners then Inl (UnknownLruOwner (le_owner e))
      else index_lru owners es (bt_put (le_owner e) (le_last_touch e) m))"

fun planning_records ::
    "(explicit_owner, u64) btreemap \<Rightarrow> (explicit_owner \<times> pubkey list) list
      \<Rightarrow> snapshot_build_error + owner_planning_record list" where
  "planning_records lru [] = Inr []"
| "planning_records lru ((w, ks) # gs) =
     (case map_of lru w of
        None \<Rightarrow> Inl (MissingLruEntry w)
      | Some t \<Rightarrow>
          (case planning_records lru gs of
             Inl err \<Rightarrow> Inl err
           | Inr rs \<Rightarrow> Inr (\<lparr> pr_owner = w, pr_last_touch = t, pr_pubkeys = ks \<rparr> # rs)))"

definition add_edge ::
    "explicit_owner \<Rightarrow> pubkey \<Rightarrow> (pubkey, explicit_owner list) btreemap
      \<Rightarrow> (pubkey, explicit_owner list) btreemap" where
  "add_edge w k m = bt_put k (insort_insert w (case map_of m k of None \<Rightarrow> [] | Some ws \<Rightarrow> ws)) m"

definition build_pubkey_index :: "owner_planning_record list \<Rightarrow> pubkey_owner_index list" where
  "build_pubkey_index owners =
     map (\<lambda>(k, ws). \<lparr> pi_pubkey = k, pi_refcount = length ws, pi_owners = ws \<rparr>)
       (fold (\<lambda>r. fold (add_edge (pr_owner r)) (pr_pubkeys r)) owners [])"

fun validate_refcounts ::
    "explicit_ownership \<Rightarrow> pubkey_owner_index list \<Rightarrow> snapshot_build_error + unit" where
  "validate_refcounts s [] = Inr ()"
| "validate_refcounts s (row # rows) =
     (if pi_refcount row \<noteq> owner_refcount s (pi_pubkey row)
      then Inl (RefcountMismatch (pi_pubkey row) (pi_refcount row) (owner_refcount s (pi_pubkey row)))
      else validate_refcounts s rows)"

definition validate_against_ownership ::
    "explicit_ownership \<Rightarrow> pubkey list \<Rightarrow> pubkey_owner_index list \<Rightarrow> snapshot_build_error + unit" where
  "validate_against_ownership s canonical_pubkeys index =
     (let derived = map pi_pubkey index in
      if derived \<noteq> canonical_pubkeys
      then if length derived \<noteq> length canonical_pubkeys
           then Inl (PhysicalLenMismatch (length derived) (length canonical_pubkeys))
           else Inl PhysicalPubkeysMismatch
      else validate_refcounts s index)"

definition from_ownership ::
    "explicit_ownership \<Rightarrow> owner_lru_entry list \<Rightarrow> snapshot_build_error + eviction_planning_snapshot" where
  "from_ownership s lru_entries =
     (let owner_groups = snapshot_owner_groups s;
          canonical_pubkeys = snapshot_pubkeys s;
          owners_in_ownership = owner_set_from_groups owner_groups
      in case index_lru owners_in_ownership lru_entries [] of
           Inl err \<Rightarrow> Inl err
         | Inr lru_by_owner \<Rightarrow>
             (case find (\<lambda>w. map_of lru_by_owner w = None) owners_in_ownership of
                Some w \<Rightarrow> Inl (MissingLruEntry w)
              | None \<Rightarrow>
                  (case planning_records lru_by_owner owner_groups of
                     Inl err \<Rightarrow> Inl err
                   | Inr records \<Rightarrow>
                       let owners = sort_key pr_owner records;
                           index = build_pubkey_index owners
                       in case validate_against_ownership s canonical_pubkeys index of
                            Inl err \<Rightarrow> Inl err
                          | Inr _ \<Rightarrow>
                              Inr \<lparr> es_physical_len = length (map pi_pubkey index),
                                    es_physical_pubkeys = map pi_pubkey index,
                                    es_owners = owners, es_pubkey_index = index \<rparr>)))"

definition owner_record :: "eviction_planning_snapshot \<Rightarrow> explicit_owner \<Rightarrow> owner_planning_record option" where
  "owner_record snap w = find (\<lambda>r. pr_owner r = w) (es_owners snap)"

definition index_row :: "eviction_planning_snapshot \<Rightarrow> pubkey \<Rightarrow> pubkey_owner_index option" where
  "index_row snap k = find (\<lambda>row. pi_pubkey row = k) (es_pubkey_index snap)"

definition snapshot_refcount :: "eviction_planning_snapshot \<Rightarrow> pubkey \<Rightarrow> usize" where
  "snapshot_refcount snap k = unwrap_or (map_option pi_refcount (index_row snap k)) 0"

definition snapshot_last_touch :: "eviction_planning_snapshot \<Rightarrow> explicit_owner \<Rightarrow> u64 option" where
  "snapshot_last_touch snap w = map_option pr_last_touch (owner_record snap w)"

section \<open>Tiers\<close>

text \<open>\<open>ConsumerProtectionRank\<close> and back; a lower rank is better protected.\<close>

fun protection_rank :: "explicit_consumer \<Rightarrow> u8" where
  "protection_rank CWallet = 0"
| "protection_rank CMomentumPosition = 1"
| "protection_rank CMomentum = 2"
| "protection_rank CArb = 3"
| "protection_rank CTracker = 4"

definition rank_consumer :: "u8 \<Rightarrow> explicit_consumer" where
  "rank_consumer r =
     (if r = 0 then CWallet else if r = 1 then CMomentumPosition else if r = 2 then CMomentum
      else if r = 3 then CArb else CTracker)"

lemma rank_consumer_rank [simp]: "rank_consumer (protection_rank c) = c"
  by (cases c) (simp_all add: rank_consumer_def)

datatype eviction_tier = TierTracker | TierArb | TierMomentum | TierMomentumPosition

fun cumulative_consumers :: "eviction_tier \<Rightarrow> explicit_consumer list" where
  "cumulative_consumers TierTracker = [CTracker]"
| "cumulative_consumers TierArb = [CTracker, CArb]"
| "cumulative_consumers TierMomentum = [CTracker, CArb, CMomentum]"
| "cumulative_consumers TierMomentumPosition = [CTracker, CArb, CMomentum, CMomentumPosition]"

fun allowed_for_incoming :: "explicit_consumer \<Rightarrow> eviction_tier list" where
  "allowed_for_incoming CTracker = [TierTracker]"
| "allowed_for_incoming CArb = [TierTracker, TierArb]"
| "allowed_for_incoming CMomentum = [TierTracker, TierArb, TierMomentum]"
| "allowed_for_incoming CMomentumPosition = [TierTracker, TierArb, TierMomentum, TierMomentumPosition]"
| "allowed_for_incoming CWallet = [TierTracker, TierArb, TierMomentum, TierMomentumPosition]"

definition cap_shrink_allowed_tiers :: "eviction_tier list" where
  "cap_shrink_allowed_tiers = [TierTracker, TierArb, TierMomentum, TierMomentumPosition]"

record victim_selection_request =
  rq_incoming_owner :: explicit_owner
  rq_incoming_pubkeys :: "pubkey list"
  rq_cap :: usize

datatype tier_feasibility_result =
    FNoEvictionNeeded usize usize \<comment> \<open>keys added, final length\<close>
  | FFeasible usize usize eviction_tier "pubkey list" \<comment> \<open>keys added, to free, tier, freeable keys\<close>
  | FRejectedProtected usize usize "pubkey list" \<comment> \<open>keys added, to free, freeable keys\<close>
  | FRejectedInvalidInput
  | FInternalInvariantViolation

text \<open>
  The two maps by tier that both analyses fill: the owners that may go when a tier is opened, and
  the keys that only such owners hold.
\<close>

definition evictable_owners :: "eviction_planning_snapshot \<Rightarrow> eviction_tier \<Rightarrow> explicit_owner list" where
  "evictable_owners snap tier = to_btreeset (map pr_owner
     (filter (\<lambda>r. consumer (pr_owner r) \<noteq> CWallet \<and> consumer (pr_owner r) \<in> set (cumulative_consumers tier))
       (es_owners snap)))"

definition freeable_by_tier ::
    "eviction_planning_snapshot \<Rightarrow> pubkey list \<Rightarrow> eviction_tier \<Rightarrow> pubkey list" where
  "freeable_by_tier snap incoming tier = to_btreeset (map pi_pubkey
     (filter (\<lambda>row. pi_pubkey row \<notin> set incoming \<and> (\<forall>w \<in> set (pi_owners row). w \<in> set (evictable_owners snap tier)))
       (es_pubkey_index snap)))"

definition open_tier ::
    "eviction_planning_snapshot \<Rightarrow> pubkey list \<Rightarrow> usize \<Rightarrow> eviction_tier list \<Rightarrow> eviction_tier option" where
  "open_tier snap incoming required tiers =
     find (\<lambda>tier. required \<le> length (freeable_by_tier snap incoming tier)) tiers"

definition analyze_tier_feasibility ::
    "eviction_planning_snapshot \<Rightarrow> victim_selection_request \<Rightarrow> tier_feasibility_result" where
  "analyze_tier_feasibility snap rq =
     (let incoming = to_btreeset (rq_incoming_pubkeys rq) in
      if incoming = [] then FRejectedInvalidInput
      else if owner_record snap (rq_incoming_owner rq) \<noteq> None then FRejectedInvalidInput
      else
        let added = length (filter (\<lambda>k. snapshot_refcount snap k = 0) incoming) in
        case usize_checked_add (es_physical_len snap) added of
          None \<Rightarrow> FInternalInvariantViolation
        | Some projected \<Rightarrow>
            if projected \<le> rq_cap rq then FNoEvictionNeeded added projected
            else case usize_checked_sub projected (rq_cap rq) of
              None \<Rightarrow> FInternalInvariantViolation
            | Some required \<Rightarrow>
                let tiers = allowed_for_incoming (consumer (rq_incoming_owner rq)) in
                case open_tier snap incoming required tiers of
                  Some tier \<Rightarrow> FFeasible added required tier (freeable_by_tier snap incoming tier)
                | None \<Rightarrow> FRejectedProtected added required (freeable_by_tier snap incoming (last tiers)))"

datatype cap_shrink_feasibility_outcome =
    SNoShrinkNeeded
  | SFeasible usize eviction_tier \<comment> \<open>keys to free, tier\<close>
  | SRejectedProtected usize
  | SInternalInvariantViolation

definition analyze_cap_shrink_feasibility ::
    "eviction_planning_snapshot \<Rightarrow> usize \<Rightarrow> cap_shrink_feasibility_outcome" where
  "analyze_cap_shrink_feasibility snap target_cap =
     (if es_physical_len snap \<le> target_cap then SNoShrinkNeeded
      else case usize_checked_sub (es_physical_len snap) target_cap of
        None \<Rightarrow> SInternalInvariantViolation
      | Some required \<Rightarrow>
          (case open_tier snap [] required cap_shrink_allowed_tiers of
             Some tier \<Rightarrow> SFeasible required tier
           | None \<Rightarrow> SRejectedProtected required))"

section \<open>Victim selection\<close>

fun consumer_eviction_priority :: "explicit_consumer \<Rightarrow> u8" where
  "consumer_eviction_priority CTracker = 0"
| "consumer_eviction_priority CArb = 1"
| "consumer_eviction_priority CMomentum = 2"
| "consumer_eviction_priority CMomentumPosition = 3"
| "consumer_eviction_priority CWallet = 255"

definition build_sorted_candidates ::
    "eviction_planning_snapshot \<Rightarrow> explicit_owner list \<Rightarrow> explicit_owner list" where
  "build_sorted_candidates snap allowed_owners = map pr_owner
     (sort_key (\<lambda>r. (consumer_eviction_priority (consumer (pr_owner r)), pr_last_touch r, pr_owner r))
       (filter (\<lambda>r. pr_owner r \<in> set allowed_owners) (es_owners snap)))"

definition owner_sort_tuple ::
    "eviction_planning_snapshot \<Rightarrow> explicit_owner \<Rightarrow> u8 \<times> u64 \<times> explicit_owner" where
  "owner_sort_tuple snap w =
     (consumer_eviction_priority (consumer w), unwrap_or (snapshot_last_touch snap w) 0, w)"

definition max_priority :: "explicit_owner list \<Rightarrow> u8" where
  "max_priority ws = fold max (map (\<lambda>w. consumer_eviction_priority (consumer w)) ws) 0"

definition compare_joint_packages ::
    "eviction_planning_snapshot \<Rightarrow> explicit_owner list \<Rightarrow> explicit_owner list \<Rightarrow> ordering" where
  "compare_joint_packages snap a b =
     then_cmp (ord_cmp (max_priority a) (max_priority b))
       (then_cmp (ord_cmp (sort (map (owner_sort_tuple snap) a)) (sort (map (owner_sort_tuple snap) b)))
         (then_cmp (ord_cmp (length a) (length b))
           (ord_cmp (sort a) (sort b))))"

record selector_workspace =
  ws_pubkey_index :: "pubkey_owner_index list"
  ws_owner_pubkey_indices :: "(explicit_owner, nat list) btreemap"
  ws_projected_refcounts :: "usize list"
  ws_incoming_set :: "pubkey list"
  ws_allowed_owners :: "explicit_owner list"
  ws_selected :: "explicit_owner list"
  ws_victims :: "explicit_owner list"
  ws_freed_pubkeys :: "pubkey list"

definition positive_marginal_count :: "selector_workspace \<Rightarrow> explicit_owner \<Rightarrow> usize" where
  "positive_marginal_count ws w =
     (case map_of (ws_owner_pubkey_indices ws) w of
        None \<Rightarrow> 0
      | Some indices \<Rightarrow>
          length (filter (\<lambda>i. pi_pubkey (ws_pubkey_index ws ! i) \<notin> set (ws_incoming_set ws)
            \<and> ws_projected_refcounts ws ! i = 1) indices))"

definition drop_reference :: "nat \<Rightarrow> selector_workspace \<Rightarrow> selector_workspace" where
  "drop_reference i ws =
     (let prev = ws_projected_refcounts ws ! i in
      if prev = 0 then ws
      else
        let ws' = ws\<lparr> ws_projected_refcounts := (ws_projected_refcounts ws)[i := prev - 1] \<rparr>;
            k = pi_pubkey (ws_pubkey_index ws ! i)
        in if prev - 1 = 0 \<and> k \<notin> set (ws_incoming_set ws)
           then ws'\<lparr> ws_freed_pubkeys := insort_insert k (ws_freed_pubkeys ws) \<rparr>
           else ws')"

definition select_owner :: "explicit_owner \<Rightarrow> selector_workspace \<Rightarrow> selector_workspace" where
  "select_owner w ws =
     (let ws' = ws\<lparr> ws_selected := insort_insert w (ws_selected ws), ws_victims := ws_victims ws @ [w] \<rparr>
      in case map_of (ws_owner_pubkey_indices ws) w of
           None \<Rightarrow> ws'
         | Some indices \<Rightarrow> fold drop_reference indices ws')"

definition remaining_owners :: "selector_workspace \<Rightarrow> pubkey_owner_index \<Rightarrow> explicit_owner list" where
  "remaining_owners ws row = to_btreeset
     (filter (\<lambda>w. w \<in> set (ws_allowed_owners ws) \<and> w \<notin> set (ws_selected ws)) (pi_owners row))"

definition collect_joint_packages :: "selector_workspace \<Rightarrow> explicit_owner list list" where
  "collect_joint_packages ws = to_btreeset
     (map (\<lambda>(i, row). remaining_owners ws row)
       (filter (\<lambda>(i, row). pi_pubkey row \<notin> set (ws_incoming_set ws) \<and> ws_projected_refcounts ws ! i \<noteq> 0
           \<and> remaining_owners ws row \<noteq> [] \<and> length (remaining_owners ws row) = ws_projected_refcounts ws ! i)
         (enumerate 0 (ws_pubkey_index ws))))"

definition select_package ::
    "explicit_owner list \<Rightarrow> explicit_owner list \<Rightarrow> selector_workspace \<Rightarrow> selector_workspace" where
  "select_package candidates package ws =
     fold (\<lambda>w ws. if w \<in> set package \<and> w \<notin> set (ws_selected ws) then select_owner w ws else ws) candidates ws"

text \<open>
  The selection loop. The outer \<open>None\<close> means that the loop does not end, the inner one that no
  package is left to choose from.
\<close>

partial_function (option) select_loop ::
    "eviction_planning_snapshot \<Rightarrow> explicit_owner list \<Rightarrow> usize \<Rightarrow> selector_workspace
      \<Rightarrow> selector_workspace option option" where
  "select_loop snap candidates required ws =
     (if required \<le> length (ws_freed_pubkeys ws) then Some (Some ws)
      else case find (\<lambda>w. w \<notin> set (ws_selected ws) \<and> 0 < positive_marginal_count ws w) candidates of
             Some w \<Rightarrow> select_loop snap candidates required (select_owner w ws)
           | None \<Rightarrow>
               (case min_by (compare_joint_packages snap) (collect_joint_packages ws) of
                  None \<Rightarrow> Some None
                | Some package \<Rightarrow>
                    select_loop snap candidates required (select_package candidates package ws)))"

definition add_index :: "nat \<Rightarrow> explicit_owner \<Rightarrow> (explicit_owner, nat list) btreemap
    \<Rightarrow> (explicit_owner, nat list) btreemap" where
  "add_index i w m = bt_put w ((case map_of m w of None \<Rightarrow> [] | Some is \<Rightarrow> is) @ [i]) m"

definition owner_pubkey_indices :: "pubkey_owner_index list \<Rightarrow> (explicit_owner, nat list) btreemap" where
  "owner_pubkey_indices index =
     map (\<lambda>(w, is). (w, remdups_adj (sort is)))
       (fold (\<lambda>(i, row). fold (add_index i) (pi_owners row)) (enumerate 0 index) [])"

definition selector_workspace_new ::
    "eviction_planning_snapshot \<Rightarrow> pubkey list \<Rightarrow> explicit_owner list \<Rightarrow> selector_workspace" where
  "selector_workspace_new snap incoming allowed_owners =
     \<lparr> ws_pubkey_index = es_pubkey_index snap,
       ws_owner_pubkey_indices = owner_pubkey_indices (es_pubkey_index snap),
       ws_projected_refcounts = map pi_refcount (es_pubkey_index snap),
       ws_incoming_set = incoming, ws_allowed_owners = allowed_owners,
       ws_selected = [], ws_victims = [], ws_freed_pubkeys = [] \<rparr>"

definition execute_victim_selection ::
    "eviction_planning_snapshot \<Rightarrow> pubkey list \<Rightarrow> usize \<Rightarrow> eviction_tier
      \<Rightarrow> (explicit_owner list \<times> pubkey list) option option" where
  "execute_victim_selection snap incoming required tier =
     (let allowed_owners = evictable_owners snap tier;
          candidates = build_sorted_candidates snap allowed_owners
      in map_option (map_option (\<lambda>ws. (ws_victims ws, ws_freed_pubkeys ws)))
           (select_loop snap candidates required (selector_workspace_new snap incoming allowed_owners)))"

record victim_selection_plan =
  vp_victims :: "explicit_owner list"
  vp_physical_freed :: "pubkey list"
  vp_incoming_physical_added :: usize
  vp_projected_final_len :: usize
  vp_opened_through :: eviction_tier

datatype victim_selection_result =
    VNoEvictionNeeded usize usize
  | VPlanned victim_selection_plan
  | VRejectedProtected usize usize
  | VRejectedInvalidInput
  | VInternalInvariantViolation

definition run_victim_selection ::
    "eviction_planning_snapshot \<Rightarrow> victim_selection_request \<Rightarrow> usize \<Rightarrow> usize \<Rightarrow> eviction_tier
      \<Rightarrow> victim_selection_result option" where
  "run_victim_selection snap rq added required tier =
     (case execute_victim_selection snap (to_btreeset (rq_incoming_pubkeys rq)) required tier of
        None \<Rightarrow> None
      | Some None \<Rightarrow> Some VInternalInvariantViolation
      | Some (Some (victims, freed)) \<Rightarrow>
          (case Option.bind (usize_checked_add (es_physical_len snap) added)
                  (\<lambda>v. usize_checked_sub v (length freed)) of
             None \<Rightarrow> Some VInternalInvariantViolation
           | Some projected \<Rightarrow>
               Some (VPlanned \<lparr> vp_victims = victims, vp_physical_freed = freed,
                 vp_incoming_physical_added = added, vp_projected_final_len = projected,
                 vp_opened_through = tier \<rparr>)))"

definition select_eviction_victims ::
    "eviction_planning_snapshot \<Rightarrow> victim_selection_request \<Rightarrow> victim_selection_result option" where
  "select_eviction_victims snap rq =
     (case analyze_tier_feasibility snap rq of
        FNoEvictionNeeded added projected \<Rightarrow> Some (VNoEvictionNeeded added projected)
      | FRejectedInvalidInput \<Rightarrow> Some VRejectedInvalidInput
      | FInternalInvariantViolation \<Rightarrow> Some VInternalInvariantViolation
      | FRejectedProtected added required _ \<Rightarrow> Some (VRejectedProtected added required)
      | FFeasible added required tier _ \<Rightarrow> run_victim_selection snap rq added required tier)"

record cap_shrink_selection_plan =
  cp_victims :: "explicit_owner list"
  cp_physical_freed :: "pubkey list"
  cp_projected_final_len :: usize
  cp_opened_through :: eviction_tier

datatype cap_shrink_selection_result =
    CNoShrinkNeeded
  | CPlanned cap_shrink_selection_plan
  | CRejectedProtected usize
  | CInternalInvariantViolation

definition select_cap_shrink_victims ::
    "eviction_planning_snapshot \<Rightarrow> usize \<Rightarrow> cap_shrink_selection_result option" where
  "select_cap_shrink_victims snap target_cap =
     (case analyze_cap_shrink_feasibility snap target_cap of
        SNoShrinkNeeded \<Rightarrow> Some CNoShrinkNeeded
      | SInternalInvariantViolation \<Rightarrow> Some CInternalInvariantViolation
      | SRejectedProtected required \<Rightarrow> Some (CRejectedProtected required)
      | SFeasible required tier \<Rightarrow>
          (case execute_victim_selection snap [] required tier of
             None \<Rightarrow> None
           | Some None \<Rightarrow> Some CInternalInvariantViolation
           | Some (Some (victims, freed)) \<Rightarrow>
               (case usize_checked_sub (es_physical_len snap) (length freed) of
                  None \<Rightarrow> Some CInternalInvariantViolation
                | Some projected \<Rightarrow>
                    Some (CPlanned \<lparr> cp_victims = victims, cp_physical_freed = freed,
                      cp_projected_final_len = projected, cp_opened_through = tier \<rparr>))))"

end
