(* ===== verification/Explicit_Admission.thy ===== *)
theory Explicit_Admission
  imports Eviction_Planner
begin

text \<open>
  Admission of owner groups under a cap on the number of subscribed keys
  (\<open>market_data/track/explicit_admission.rs\<close>): insertion, replacement and removal with planned deltas
  that are checked after the commit and rolled back when they differ, insertion with eviction and
  lowering of the cap through a validated candidate state, shedding under load, and the last-touch
  stamps. Hooks and counters that exist only in test builds are left out, and with them the counts of
  graph edges, which nothing else reads.

  \<open>None\<close> as the result of an operation that selects victims means that the selection does not return.
\<close>

section \<open>State\<close>

record fixed_cap_admission =
  ad_cap :: usize
  ad_physical_len :: usize
  ad_ownership :: explicit_ownership
  ad_owner_lru :: "(explicit_owner, u64) btreemap"
  ad_next_touch_stamp :: u64

definition admission_new :: "usize \<Rightarrow> fixed_cap_admission" where
  "admission_new cap = \<lparr> ad_cap = cap, ad_physical_len = 0, ad_ownership = ownership_new,
     ad_owner_lru = [], ad_next_touch_stamp = 1 \<rparr>"

definition clear_for_restore :: "fixed_cap_admission \<Rightarrow> fixed_cap_admission" where
  "clear_for_restore a = admission_new (ad_cap a)"

datatype invariant_violation_recovery = PreviousRestored | OwnerRemovedFailClosed | RecoveryFailed

datatype fixed_cap_admission_result =
    Inserted "pubkey list"
  | OwnerAddedNoNewPubkey
  | AdmitRejectedCap usize usize \<comment> \<open>required, available\<close>
  | AdmitRejectedInvalidGroup
  | AdmitRejectedExistingOwner
  | AdmitInternalInvariantViolation

datatype fixed_cap_remove_result =
    Removed "pubkey list"
  | RemoveNotFound
  | RemovePlanningInvariantViolation
  | RemoveInternalInvariantViolation invariant_violation_recovery

datatype evicting_admission_result =
    InsertedNoEviction "pubkey list"
  | InsertedWithEviction "pubkey list" "pubkey list" "explicit_owner list" eviction_tier
      \<comment> \<open>added, removed, victims, opened through\<close>
  | EvictRejectedExistingOwner
  | EvictRejectedProtected usize usize
  | EvictRejectedInvalidInput
  | EvictInternalInvariantViolation

datatype cap_shrink_result =
    Converged usize usize "pubkey list" "explicit_owner list" eviction_tier
      \<comment> \<open>old cap, new cap, removed, victims, opened through\<close>
  | NoOpAlreadyWithinCap usize usize
  | RejectedCapIncrease usize usize
  | ProtectedOverflow usize usize
  | ShrinkRejectedInvalidInput
  | ShrinkInternalInvariantViolation

record shed_owner_groups_result =
  sh_groups_evicted :: usize
  sh_pubkeys_evicted :: usize
  sh_groups_skipped_must_hot :: usize

datatype touch_result = Touched | TouchNotFound | TouchInternalInvariantViolation

datatype fixed_cap_replace_result =
    GroupReplaced "pubkey list" "pubkey list" \<comment> \<open>added, removed\<close>
  | ReplaceUnchanged
  | ReplaceRejectedCap usize usize
  | ReplaceRejectedInvalidGroup
  | ReplaceRejectedMissingOwner
  | ReplacePlanningInvariantViolation
  | ReplaceInternalInvariantViolation invariant_violation_recovery

section \<open>Stamps\<close>

record stamp_plan =
  sp_owner_lru :: "(explicit_owner, u64) btreemap"
  sp_next_touch_stamp :: u64

datatype stamp_plan_error = Overflow | MissingOwnerStamp

definition u64_checked_add :: "u64 \<Rightarrow> u64 \<Rightarrow> u64 option" where
  "u64_checked_add a b = (if unat a + unat b < 2 ^ 64 then Some (a + b) else None)"

definition u64_try_from :: "usize \<Rightarrow> u64 option" where
  "u64_try_from n = (if n < 2 ^ 64 then Some (of_nat n) else None)"

definition required_existing_stamp ::
    "(explicit_owner, u64) btreemap \<Rightarrow> explicit_owner \<Rightarrow> stamp_plan_error + u64" where
  "required_existing_stamp lru w = (case map_of lru w of None \<Rightarrow> Inl MissingOwnerStamp | Some t \<Rightarrow> Inr t)"

fun renormalize_from ::
    "usize \<Rightarrow> explicit_owner list \<Rightarrow> (explicit_owner, u64) btreemap
      \<Rightarrow> stamp_plan_error + (explicit_owner, u64) btreemap" where
  "renormalize_from idx [] m = Inr m"
| "renormalize_from idx (w # ws) m =
     (case Option.bind (u64_try_from idx) (\<lambda>rank. u64_checked_add rank 1) of
        None \<Rightarrow> Inl Overflow
      | Some stamp \<Rightarrow> renormalize_from (idx + 1) ws (bt_put w stamp m))"

definition renormalize_stamps_fallible ::
    "(explicit_owner, u64) btreemap \<Rightarrow> stamp_plan_error + (explicit_owner, u64) btreemap" where
  "renormalize_stamps_fallible lru =
     (if lru = [] then Inr []
      else renormalize_from 0 (map fst (sort_key (\<lambda>(w, stamp). (stamp, w)) lru)) [])"

definition prepare_stamp_base ::
    "(explicit_owner, u64) btreemap \<Rightarrow> u64 \<Rightarrow> stamp_plan_error + (explicit_owner, u64) btreemap \<times> u64" where
  "prepare_stamp_base lru next_touch =
     (if next_touch = u64_max
      then case renormalize_stamps_fallible lru of
             Inl err \<Rightarrow> Inl err
           | Inr m \<Rightarrow>
               (case Option.bind (u64_try_from (length m)) (\<lambda>base. u64_checked_add base 1) of
                  None \<Rightarrow> Inl Overflow
                | Some assign \<Rightarrow> Inr (m, assign))
      else Inr (lru, next_touch))"

definition plan_stamp_assign ::
    "(explicit_owner, u64) btreemap \<Rightarrow> u64 \<Rightarrow> explicit_owner \<Rightarrow> stamp_plan_error + stamp_plan" where
  "plan_stamp_assign lru next_touch w =
     (case prepare_stamp_base lru next_touch of
        Inl err \<Rightarrow> Inl err
      | Inr (m, assign) \<Rightarrow>
          (case u64_checked_add assign 1 of
             None \<Rightarrow> Inl Overflow
           | Some new_next \<Rightarrow> Inr \<lparr> sp_owner_lru = bt_put w assign m, sp_next_touch_stamp = new_next \<rparr>))"

definition plan_stamp_remove ::
    "(explicit_owner, u64) btreemap \<Rightarrow> u64 \<Rightarrow> explicit_owner \<Rightarrow> stamp_plan" where
  "plan_stamp_remove lru next_touch w =
     \<lparr> sp_owner_lru = AList.delete w lru, sp_next_touch_stamp = next_touch \<rparr>"

definition apply_stamp_plan :: "stamp_plan \<Rightarrow> fixed_cap_admission \<Rightarrow> fixed_cap_admission" where
  "apply_stamp_plan plan a = a\<lparr> ad_owner_lru := sp_owner_lru plan, ad_next_touch_stamp := sp_next_touch_stamp plan \<rparr>"

section \<open>Cold recovery\<close>

lemma length_delete_present: "map_of m k \<noteq> None \<Longrightarrow> length (AList.delete k m) < length m"
proof -
  assume "map_of m k \<noteq> None"
  then obtain v where "(k, v) \<in> set m" by (auto dest: map_of_SomeD)
  then show ?thesis unfolding AList.delete_eq by (rule length_filter_less) simp
qed

text \<open>\<open>while owner_group(owner).is_some() { if remove_group(owner).is_none() { break; } }\<close>\<close>

function remove_while_present :: "explicit_owner \<Rightarrow> explicit_ownership \<Rightarrow> explicit_ownership" where
  "remove_while_present w s =
     (if owner_group s w = None then s
      else case remove_group w s of
             (None, s') \<Rightarrow> s'
           | (Some _, s') \<Rightarrow> remove_while_present w s')"
  by auto
termination
  by (relation "measure (\<lambda>(w, s). length (eo_groups s))")
    (auto simp: remove_group_def owner_group_def length_delete_present split: option.splits)

declare remove_while_present.simps [simp del]

definition fail_closed_drop :: "explicit_owner \<Rightarrow> explicit_ownership \<Rightarrow> explicit_ownership" where
  "fail_closed_drop w s = remove_while_present w (snd (remove_group w s))"

definition reconcile_lru_cold :: "fixed_cap_admission \<Rightarrow> fixed_cap_admission" where
  "reconcile_lru_cold a =
     (let owners = owner_set_from_groups (snapshot_owner_groups (ad_ownership a));
          lru = filter (\<lambda>(w, _). w \<in> set owners) (ad_owner_lru a);
          owners_missing_stamp = filter (\<lambda>w. map_of lru w = None) owners
      in a\<lparr> ad_owner_lru := lru, ad_ownership := fold fail_closed_drop owners_missing_stamp (ad_ownership a) \<rparr>)"

definition reconcile_cold :: "fixed_cap_admission \<Rightarrow> fixed_cap_admission" where
  "reconcile_cold a =
     (let a' = reconcile_lru_cold a in a'\<lparr> ad_physical_len := ownership_len (ad_ownership a') \<rparr>)"

definition fail_closed_remove_owner_stamp_mismatch ::
    "explicit_owner \<Rightarrow> fixed_cap_admission \<Rightarrow> fixed_cap_admission" where
  "fail_closed_remove_owner_stamp_mismatch w a =
     reconcile_cold (a\<lparr> ad_ownership := fail_closed_drop w (ad_ownership a),
                        ad_owner_lru := AList.delete w (ad_owner_lru a) \<rparr>)"

section \<open>Touching a group\<close>

definition snapshot_lru_entries :: "fixed_cap_admission \<Rightarrow> owner_lru_entry list" where
  "snapshot_lru_entries a = map (\<lambda>(w, t). \<lparr> le_owner = w, le_last_touch = t \<rparr>) (ad_owner_lru a)"

definition last_touch :: "fixed_cap_admission \<Rightarrow> explicit_owner \<Rightarrow> u64 option" where
  "last_touch a w = map_of (ad_owner_lru a) w"

definition touch_group :: "explicit_owner \<Rightarrow> fixed_cap_admission \<Rightarrow> touch_result \<times> fixed_cap_admission" where
  "touch_group w a =
     (if owner_group (ad_ownership a) w = None then (TouchNotFound, a)
      else case map_of (ad_owner_lru a) w of
        None \<Rightarrow> (TouchInternalInvariantViolation, fail_closed_remove_owner_stamp_mismatch w a)
      | Some _ \<Rightarrow>
          (case plan_stamp_assign (ad_owner_lru a) (ad_next_touch_stamp a) w of
             Inl _ \<Rightarrow> (TouchInternalInvariantViolation, a)
           | Inr plan \<Rightarrow> (Touched, apply_stamp_plan plan a)))"

section \<open>Insertion\<close>

record insert_plan =
  ip_pre_len :: usize
  ip_projected_final_len :: usize
  ip_physical_added :: "pubkey list"

datatype insert_plan_outcome =
    InsertReady insert_plan
  | InsertRejectCap usize usize
  | InsertInternalInvariantViolation

definition plan_insert_readonly :: "fixed_cap_admission \<Rightarrow> pubkey list \<Rightarrow> insert_plan_outcome" where
  "plan_insert_readonly a normalized =
     (let pre_len = ad_physical_len a;
          added_keys = filter (\<lambda>k. owner_refcount (ad_ownership a) k = 0) normalized;
          required_unique = length added_keys;
          available_unique = ad_cap a - pre_len
      in if required_unique > available_unique then InsertRejectCap required_unique available_unique
         else case usize_checked_add pre_len required_unique of
           None \<Rightarrow> InsertInternalInvariantViolation
         | Some projected \<Rightarrow>
             if projected > ad_cap a then InsertInternalInvariantViolation
             else InsertReady \<lparr> ip_pre_len = pre_len, ip_projected_final_len = projected,
                                ip_physical_added = added_keys \<rparr>)"

fun new_group_matches_plan :: "group_change \<Rightarrow> pubkey list \<Rightarrow> bool" where
  "new_group_matches_plan (NewGroup added) expected = (added = expected)"
| "new_group_matches_plan _ expected = False"

definition rollback_failed_insert ::
    "explicit_owner \<Rightarrow> usize \<Rightarrow> pubkey list \<Rightarrow> fixed_cap_admission
      \<Rightarrow> fixed_cap_admission_result \<times> fixed_cap_admission" where
  "rollback_failed_insert w pre_len normalized a =
     (case remove_group w (ad_ownership a) of
        (removed, s) \<Rightarrow>
          let a = a\<lparr> ad_ownership := s \<rparr> in
          (AdmitInternalInvariantViolation,
           (case removed of
              Some (_, keys) \<Rightarrow>
                if keys = normalized
                then let a = a\<lparr> ad_physical_len := pre_len \<rparr>
                     in if owner_group (ad_ownership a) w \<noteq> None then reconcile_cold a else a
                else reconcile_cold a
            | None \<Rightarrow> reconcile_cold a)))"

definition try_admit_new_group ::
    "explicit_owner \<Rightarrow> pubkey list \<Rightarrow> fixed_cap_admission \<Rightarrow> fixed_cap_admission_result \<times> fixed_cap_admission" where
  "try_admit_new_group w pubkeys a =
     (let normalized = normalize_pubkeys pubkeys in
      if normalized = [] then (AdmitRejectedInvalidGroup, a)
      else if owner_group (ad_ownership a) w \<noteq> None then (AdmitRejectedExistingOwner, a)
      else case plan_insert_readonly a normalized of
        InsertRejectCap required available \<Rightarrow> (AdmitRejectedCap required available, a)
      | InsertInternalInvariantViolation \<Rightarrow> (AdmitInternalInvariantViolation, a)
      | InsertReady plan \<Rightarrow>
          (case plan_stamp_assign (ad_owner_lru a) (ad_next_touch_stamp a) w of
             Inl _ \<Rightarrow> (AdmitInternalInvariantViolation, a)
           | Inr stamp_plan \<Rightarrow>
               (case upsert_group w normalized (ad_ownership a) of
                  (Inl EmptyOwnerGroupError, s) \<Rightarrow> (AdmitRejectedInvalidGroup, a\<lparr> ad_ownership := s \<rparr>)
                | (Inr change, s) \<Rightarrow>
                    let a = a\<lparr> ad_ownership := s \<rparr> in
                    if \<not> new_group_matches_plan change (ip_physical_added plan)
                    then rollback_failed_insert w (ip_pre_len plan) normalized a
                    else
                      let a = apply_stamp_plan stamp_plan (a\<lparr> ad_physical_len := ip_projected_final_len plan \<rparr>)
                      in (if ip_physical_added plan = [] then OwnerAddedNoNewPubkey
                          else Inserted (ip_physical_added plan), a))))"

section \<open>Replacement\<close>

record replace_plan =
  rp_pre_len :: usize
  rp_projected_final_len :: usize
  rp_old_normalized :: "pubkey list"
  rp_physical_added :: "pubkey list"
  rp_physical_removed :: "pubkey list"

datatype replace_plan_outcome =
    ReplaceReady replace_plan
  | ReplaceNoChange
  | ReplaceRejectCapPlan usize usize
  | ReplaceInternal

text \<open>The merge of the old and the new group in \<open>plan_replace\<close>: keys removed, keys added.\<close>

fun merge_groups :: "explicit_ownership \<Rightarrow> pubkey list \<Rightarrow> pubkey list \<Rightarrow> pubkey list \<times> pubkey list" where
  "merge_groups s [] [] = ([], [])"
| "merge_groups s (old # olds) [] =
     (let (removed, added) = merge_groups s olds []
      in (if owner_refcount s old = 1 then old # removed else removed, added))"
| "merge_groups s [] (new # news) =
     (let (removed, added) = merge_groups s [] news
      in (removed, if owner_refcount s new = 0 then new # added else added))"
| "merge_groups s (old # olds) (new # news) =
     (if old = new then merge_groups s olds news
      else if old < new
      then let (removed, added) = merge_groups s olds (new # news)
           in (if owner_refcount s old = 1 then old # removed else removed, added)
      else let (removed, added) = merge_groups s (old # olds) news
           in (removed, if owner_refcount s new = 0 then new # added else added))"

definition saturating_usize_add :: "usize \<Rightarrow> usize \<Rightarrow> usize" where
  "saturating_usize_add a b = min (a + b) (2 ^ 64 - 1)"

definition plan_replace :: "fixed_cap_admission \<Rightarrow> pubkey list \<Rightarrow> pubkey list \<Rightarrow> replace_plan_outcome" where
  "plan_replace a old_normalized new_normalized =
     (if old_normalized = new_normalized then ReplaceNoChange
      else
        let pre_len = ad_physical_len a;
            (removed, added) = merge_groups (ad_ownership a) old_normalized new_normalized;
            required_unique = length added;
            available_unique = saturating_usize_add (ad_cap a - pre_len) (length removed)
        in if required_unique > available_unique then ReplaceRejectCapPlan required_unique available_unique
           else case usize_checked_sub pre_len (length removed) of
             None \<Rightarrow> ReplaceInternal
           | Some after_remove \<Rightarrow>
               (case usize_checked_add after_remove (length added) of
                  None \<Rightarrow> ReplaceInternal
                | Some projected \<Rightarrow>
                    if projected > ad_cap a then ReplaceInternal
                    else ReplaceReady \<lparr> rp_pre_len = pre_len, rp_projected_final_len = projected,
                           rp_old_normalized = old_normalized, rp_physical_added = added,
                           rp_physical_removed = removed \<rparr>))"

fun replaced_group_matches_plan :: "group_change \<Rightarrow> pubkey list \<Rightarrow> pubkey list \<Rightarrow> bool" where
  "replaced_group_matches_plan (Replaced added removed) expected_added expected_removed =
     (added = expected_added \<and> removed = expected_removed)"
| "replaced_group_matches_plan _ expected_added expected_removed = False"

definition fail_closed_remove_owner_after_replace ::
    "explicit_owner \<Rightarrow> fixed_cap_admission \<Rightarrow> fixed_cap_replace_result \<times> fixed_cap_admission" where
  "fail_closed_remove_owner_after_replace w a =
     (ReplaceInternalInvariantViolation OwnerRemovedFailClosed, fail_closed_remove_owner_stamp_mismatch w a)"

definition rollback_failed_replace ::
    "explicit_owner \<Rightarrow> replace_plan \<Rightarrow> u64 \<Rightarrow> fixed_cap_admission
      \<Rightarrow> fixed_cap_replace_result \<times> fixed_cap_admission" where
  "rollback_failed_replace w plan pre_touch_stamp a =
     (case upsert_group w (rp_old_normalized plan) (ad_ownership a) of
        (Inl EmptyOwnerGroupError, s) \<Rightarrow> fail_closed_remove_owner_after_replace w (a\<lparr> ad_ownership := s \<rparr>)
      | (Inr change, s) \<Rightarrow>
          let a = a\<lparr> ad_ownership := s \<rparr>;
              restored = (case change of
                            NewGroup _ \<Rightarrow> False
                          | _ \<Rightarrow> owner_group (ad_ownership a) w = Some (rp_old_normalized plan))
          in if restored
             then let a = a\<lparr> ad_owner_lru := bt_put w pre_touch_stamp (ad_owner_lru a) \<rparr>
                  in if owner_group (ad_ownership a) w = Some (rp_old_normalized plan)
                        \<and> last_touch a w = Some pre_touch_stamp
                     then (ReplaceInternalInvariantViolation PreviousRestored,
                           a\<lparr> ad_physical_len := rp_pre_len plan \<rparr>)
                     else fail_closed_remove_owner_after_replace w a
             else fail_closed_remove_owner_after_replace w a)"

definition try_replace_group ::
    "explicit_owner \<Rightarrow> pubkey list \<Rightarrow> fixed_cap_admission \<Rightarrow> fixed_cap_replace_result \<times> fixed_cap_admission" where
  "try_replace_group w pubkeys a =
     (let normalized = normalize_pubkeys pubkeys in
      if normalized = [] then (ReplaceRejectedInvalidGroup, a)
      else case owner_group (ad_ownership a) w of
        None \<Rightarrow> (ReplaceRejectedMissingOwner, a)
      | Some old_group \<Rightarrow>
          (case required_existing_stamp (ad_owner_lru a) w of
             Inl MissingOwnerStamp \<Rightarrow>
               (ReplaceInternalInvariantViolation OwnerRemovedFailClosed,
                fail_closed_remove_owner_stamp_mismatch w a)
           | Inl _ \<Rightarrow> (ReplacePlanningInvariantViolation, a)
           | Inr pre_touch_stamp \<Rightarrow>
               if old_group = normalized then (ReplaceUnchanged, a)
               else case plan_replace a old_group normalized of
                 ReplaceNoChange \<Rightarrow> (ReplaceUnchanged, a)
               | ReplaceRejectCapPlan required available \<Rightarrow> (ReplaceRejectedCap required available, a)
               | ReplaceInternal \<Rightarrow> (ReplacePlanningInvariantViolation, a)
               | ReplaceReady plan \<Rightarrow>
                   (case plan_stamp_assign (ad_owner_lru a) (ad_next_touch_stamp a) w of
                      Inl _ \<Rightarrow> (ReplacePlanningInvariantViolation, a)
                    | Inr stamp_plan \<Rightarrow>
                        (case upsert_group w normalized (ad_ownership a) of
                           (Inl EmptyOwnerGroupError, s) \<Rightarrow> (ReplaceRejectedInvalidGroup, a\<lparr> ad_ownership := s \<rparr>)
                         | (Inr change, s) \<Rightarrow>
                             let a = a\<lparr> ad_ownership := s \<rparr> in
                             if \<not> replaced_group_matches_plan change (rp_physical_added plan) (rp_physical_removed plan)
                             then rollback_failed_replace w plan pre_touch_stamp a
                             else (GroupReplaced (rp_physical_added plan) (rp_physical_removed plan),
                                   apply_stamp_plan stamp_plan
                                     (a\<lparr> ad_physical_len := rp_projected_final_len plan \<rparr>))))))"

section \<open>Removal\<close>

record remove_plan =
  mp_pre_len :: usize
  mp_projected_final_len :: usize
  mp_old_normalized :: "pubkey list"
  mp_physical_removed :: "pubkey list"
  mp_old_refcounts :: "(pubkey \<times> usize) list"

fun plan_remove_loop ::
    "explicit_ownership \<Rightarrow> pubkey list \<Rightarrow> (pubkey list \<times> (pubkey \<times> usize) list) option" where
  "plan_remove_loop s [] = Some ([], [])"
| "plan_remove_loop s (k # ks) =
     (let refcount = owner_refcount s k in
      if refcount = 0 then None
      else case plan_remove_loop s ks of
        None \<Rightarrow> None
      | Some (removed, refcounts) \<Rightarrow>
          Some (if refcount = 1 then k # removed else removed, (k, refcount) # refcounts))"

definition plan_remove :: "fixed_cap_admission \<Rightarrow> pubkey list \<Rightarrow> remove_plan option" where
  \<comment> \<open>\<open>None\<close> is \<open>RemovePlanOutcome::PlanningInvariantViolation\<close>\<close>
  "plan_remove a old_normalized =
     (case plan_remove_loop (ad_ownership a) old_normalized of
        None \<Rightarrow> None
      | Some (removed, refcounts) \<Rightarrow>
          (case usize_checked_sub (ad_physical_len a) (length removed) of
             None \<Rightarrow> None
           | Some projected \<Rightarrow>
               Some \<lparr> mp_pre_len = ad_physical_len a, mp_projected_final_len = projected,
                      mp_old_normalized = old_normalized, mp_physical_removed = removed,
                      mp_old_refcounts = refcounts \<rparr>))"

definition removed_group_matches_plan ::
    "(explicit_owner \<times> pubkey list) option \<Rightarrow> explicit_owner \<Rightarrow> remove_plan \<Rightarrow> pubkey list
      \<Rightarrow> explicit_ownership \<Rightarrow> bool" where
  "removed_group_matches_plan snapshot w plan expected_removed s =
     (case snapshot of
        None \<Rightarrow> False
      | Some (w', keys) \<Rightarrow>
          w' = w \<and> keys = mp_old_normalized plan \<and> owner_group s w = None
          \<and> (\<forall>(k, old_rc) \<in> set (mp_old_refcounts plan).
                case usize_checked_sub old_rc 1 of
                  None \<Rightarrow> False | Some expected_rc \<Rightarrow> owner_refcount s k = expected_rc)
          \<and> sort (map fst (filter (\<lambda>(_, old_rc). old_rc = 1) (mp_old_refcounts plan))) = sort expected_removed)"

definition fail_closed_remove_owner_after_remove ::
    "explicit_owner \<Rightarrow> fixed_cap_admission \<Rightarrow> fixed_cap_remove_result \<times> fixed_cap_admission" where
  "fail_closed_remove_owner_after_remove w a =
     (let a = a\<lparr> ad_ownership := snd (remove_group w (ad_ownership a)) \<rparr> in
      if owner_group (ad_ownership a) w \<noteq> None
      then (RemoveInternalInvariantViolation RecoveryFailed,
            a\<lparr> ad_physical_len := ownership_len (ad_ownership a) \<rparr>)
      else (RemoveInternalInvariantViolation OwnerRemovedFailClosed,
            reconcile_cold (a\<lparr> ad_owner_lru := AList.delete w (ad_owner_lru a) \<rparr>)))"

definition rollback_failed_remove ::
    "explicit_owner \<Rightarrow> remove_plan \<Rightarrow> u64 \<Rightarrow> fixed_cap_admission
      \<Rightarrow> fixed_cap_remove_result \<times> fixed_cap_admission" where
  "rollback_failed_remove w plan pre_touch_stamp a =
     (case upsert_group w (mp_old_normalized plan) (ad_ownership a) of
        (Inl EmptyOwnerGroupError, s) \<Rightarrow> fail_closed_remove_owner_after_remove w (a\<lparr> ad_ownership := s \<rparr>)
      | (Inr change, s) \<Rightarrow>
          let a = a\<lparr> ad_ownership := s \<rparr>;
              restored = (case change of
                            NewGroup _ \<Rightarrow> owner_group (ad_ownership a) w = Some (mp_old_normalized plan)
                          | _ \<Rightarrow> False)
          in if restored
             then let a = a\<lparr> ad_owner_lru := bt_put w pre_touch_stamp (ad_owner_lru a) \<rparr>
                  in if owner_group (ad_ownership a) w = Some (mp_old_normalized plan)
                        \<and> last_touch a w = Some pre_touch_stamp
                     then (RemoveInternalInvariantViolation PreviousRestored,
                           a\<lparr> ad_physical_len := mp_pre_len plan \<rparr>)
                     else fail_closed_remove_owner_after_remove w a
             else fail_closed_remove_owner_after_remove w a)"

definition admission_remove_group ::
    "explicit_owner \<Rightarrow> fixed_cap_admission \<Rightarrow> fixed_cap_remove_result \<times> fixed_cap_admission" where
  "admission_remove_group w a =
     (case owner_group (ad_ownership a) w of
        None \<Rightarrow> (RemoveNotFound, a)
      | Some old_group \<Rightarrow>
          (case required_existing_stamp (ad_owner_lru a) w of
             Inl MissingOwnerStamp \<Rightarrow>
               (RemoveInternalInvariantViolation OwnerRemovedFailClosed,
                fail_closed_remove_owner_stamp_mismatch w a)
           | Inl _ \<Rightarrow> (RemovePlanningInvariantViolation, a)
           | Inr pre_touch_stamp \<Rightarrow>
               (case plan_remove a old_group of
                  None \<Rightarrow> (RemovePlanningInvariantViolation, a)
                | Some plan \<Rightarrow>
                    let stamp_plan = plan_stamp_remove (ad_owner_lru a) (ad_next_touch_stamp a) w;
                        (snapshot, s) = remove_group w (ad_ownership a);
                        a = a\<lparr> ad_ownership := s \<rparr>
                    in if \<not> removed_group_matches_plan snapshot w plan (mp_physical_removed plan) s
                       then rollback_failed_remove w plan pre_touch_stamp a
                       else (Removed (mp_physical_removed plan),
                             apply_stamp_plan stamp_plan
                               (a\<lparr> ad_physical_len := mp_projected_final_len plan \<rparr>)))))"

section \<open>Shedding\<close>

definition count_removed ::
    "fixed_cap_remove_result \<Rightarrow> shed_owner_groups_result \<Rightarrow> shed_owner_groups_result" where
  "count_removed r acc =
     (case r of
        Removed keys \<Rightarrow> acc\<lparr> sh_groups_evicted := sh_groups_evicted acc + 1,
                             sh_pubkeys_evicted := sh_pubkeys_evicted acc + length keys \<rparr>
      | _ \<Rightarrow> acc)"

definition shed_none :: shed_owner_groups_result where
  "shed_none = \<lparr> sh_groups_evicted = 0, sh_pubkeys_evicted = 0, sh_groups_skipped_must_hot = 0 \<rparr>"

definition lru_order :: "(explicit_consumer \<Rightarrow> bool) \<Rightarrow> fixed_cap_admission \<Rightarrow> explicit_owner list" where
  "lru_order eligible a = map le_owner (sort_key le_last_touch
     (filter (\<lambda>e. eligible (consumer (le_owner e))) (snapshot_lru_entries a)))"

fun shed_group ::
    "explicit_owner \<Rightarrow> shed_owner_groups_result \<times> fixed_cap_admission
      \<Rightarrow> shed_owner_groups_result \<times> fixed_cap_admission" where
  "shed_group w (acc, a) = apfst (\<lambda>r. count_removed r acc) (admission_remove_group w a)"

definition shed_owner_groups_for_consumers ::
    "explicit_consumer list \<Rightarrow> usize \<Rightarrow> fixed_cap_admission \<Rightarrow> shed_owner_groups_result \<times> fixed_cap_admission" where
  "shed_owner_groups_for_consumers consumers max_groups a =
     (if max_groups = 0 \<or> consumers = [] then (shed_none, a)
      else fold shed_group (take max_groups (lru_order (\<lambda>c. c \<in> set consumers) a)) (shed_none, a))"

fun shed_arb_loop ::
    "(pubkey \<Rightarrow> bool) \<Rightarrow> usize \<Rightarrow> explicit_owner list \<Rightarrow> shed_owner_groups_result \<times> fixed_cap_admission
      \<Rightarrow> shed_owner_groups_result \<times> fixed_cap_admission" where
  "shed_arb_loop is_must_hot max_groups [] (acc, a) = (acc, a)"
| "shed_arb_loop is_must_hot max_groups (w # ws) (acc, a) =
     (if sh_groups_evicted acc \<ge> max_groups then (acc, a)
      else if (case owner_key w of KPool pool \<Rightarrow> is_must_hot pool | _ \<Rightarrow> False)
      then shed_arb_loop is_must_hot max_groups ws
             (acc\<lparr> sh_groups_skipped_must_hot := sh_groups_skipped_must_hot acc + 1 \<rparr>, a)
      else shed_arb_loop is_must_hot max_groups ws (shed_group w (acc, a)))"

definition shed_arb_owner_groups ::
    "usize \<Rightarrow> (pubkey \<Rightarrow> bool) \<Rightarrow> fixed_cap_admission \<Rightarrow> shed_owner_groups_result \<times> fixed_cap_admission" where
  "shed_arb_owner_groups max_groups is_must_hot a =
     (if max_groups = 0 then (shed_none, a)
      else shed_arb_loop is_must_hot max_groups (lru_order (\<lambda>c. c = CArb) a) (shed_none, a))"

definition shed_tracker_owner_groups ::
    "usize \<Rightarrow> fixed_cap_admission \<Rightarrow> shed_owner_groups_result \<times> fixed_cap_admission" where
  "shed_tracker_owner_groups max_groups a = shed_owner_groups_for_consumers [CTracker] max_groups a"

definition shed_momentum_owner_groups ::
    "usize \<Rightarrow> fixed_cap_admission \<Rightarrow> shed_owner_groups_result \<times> fixed_cap_admission" where
  "shed_momentum_owner_groups max_groups a = shed_owner_groups_for_consumers [CMomentum] max_groups a"

section \<open>Insertion with eviction\<close>

record evicting_candidate_state =
  ec_ownership :: explicit_ownership
  ec_owner_lru :: "(explicit_owner, u64) btreemap"
  ec_next_touch_stamp :: u64
  ec_physical_len :: usize

definition plan_admit_with_eviction ::
    "explicit_owner \<Rightarrow> pubkey list \<Rightarrow> fixed_cap_admission \<Rightarrow> victim_selection_result option" where
  "plan_admit_with_eviction w pubkeys a =
     (case from_ownership (ad_ownership a) (snapshot_lru_entries a) of
        Inl _ \<Rightarrow> Some VInternalInvariantViolation
      | Inr snap \<Rightarrow>
          select_eviction_victims snap
            \<lparr> rq_incoming_owner = w, rq_incoming_pubkeys = normalize_pubkeys pubkeys, rq_cap = ad_cap a \<rparr>)"

fun map_fast_path_result :: "fixed_cap_admission_result \<Rightarrow> evicting_admission_result" where
  "map_fast_path_result (Inserted keys) = InsertedNoEviction keys"
| "map_fast_path_result OwnerAddedNoNewPubkey = InsertedNoEviction []"
| "map_fast_path_result AdmitRejectedExistingOwner = EvictRejectedExistingOwner"
| "map_fast_path_result AdmitRejectedInvalidGroup = EvictRejectedInvalidInput"
| "map_fast_path_result (AdmitRejectedCap _ _) = EvictInternalInvariantViolation"
| "map_fast_path_result AdmitInternalInvariantViolation = EvictInternalInvariantViolation"

definition map_fast_path_admit ::
    "explicit_owner \<Rightarrow> pubkey list \<Rightarrow> fixed_cap_admission \<Rightarrow> evicting_admission_result \<times> fixed_cap_admission" where
  "map_fast_path_admit w normalized a = apfst map_fast_path_result (try_admit_new_group w normalized a)"

text \<open>The groups that stay, inserted one by one into a new store.\<close>

fun rebuild_groups ::
    "explicit_owner list \<Rightarrow> (explicit_owner \<times> pubkey list) list \<Rightarrow> explicit_ownership \<Rightarrow> explicit_ownership option" where
  "rebuild_groups victims [] s = Some s"
| "rebuild_groups victims ((w, ks) # gs) s =
     (if w \<in> set victims then rebuild_groups victims gs s
      else case upsert_group w ks s of
             (Inl _, _) \<Rightarrow> None
           | (Inr _, s') \<Rightarrow> rebuild_groups victims gs s')"

definition build_evicting_candidate ::
    "explicit_owner \<Rightarrow> pubkey list \<Rightarrow> victim_selection_plan \<Rightarrow> fixed_cap_admission
      \<Rightarrow> evicting_candidate_state option" where
  "build_evicting_candidate w pubkeys plan a =
     (if w \<in> set (vp_victims plan) then None
      else case rebuild_groups (vp_victims plan) (snapshot_owner_groups (ad_ownership a)) ownership_new of
        None \<Rightarrow> None
      | Some s \<Rightarrow>
          (case upsert_group w pubkeys s of
             (Inl _, _) \<Rightarrow> None
           | (Inr _, s') \<Rightarrow>
               let survivor_lru = fold AList.delete (vp_victims plan) (ad_owner_lru a) in
               case plan_stamp_assign survivor_lru (ad_next_touch_stamp a) w of
                 Inl _ \<Rightarrow> None
               | Inr stamp_plan \<Rightarrow>
                   Some \<lparr> ec_ownership = s', ec_owner_lru = sp_owner_lru stamp_plan,
                          ec_next_touch_stamp = sp_next_touch_stamp stamp_plan,
                          ec_physical_len = ownership_len s' \<rparr>))"

definition lru_sorted_owners :: "(explicit_owner, u64) btreemap \<Rightarrow> explicit_owner list \<Rightarrow> explicit_owner list" where
  "lru_sorted_owners lru ws = sort_key (\<lambda>w. (the (map_of lru w), w)) ws"

definition candidate_snapshot_ok :: "evicting_candidate_state \<Rightarrow> bool" where
  "candidate_snapshot_ok c =
     (case from_ownership (ec_ownership c) (map (\<lambda>(w, t). \<lparr> le_owner = w, le_last_touch = t \<rparr>) (ec_owner_lru c)) of
        Inl _ \<Rightarrow> False | Inr _ \<Rightarrow> True)"

definition owner_names :: "explicit_ownership \<Rightarrow> explicit_owner set" where
  "owner_names s = set (map fst (snapshot_owner_groups s))"

definition key_set :: "explicit_ownership \<Rightarrow> pubkey set" where
  "key_set s = set (snapshot_pubkeys s)"

definition validate_evicting_candidate ::
    "evicting_candidate_state \<Rightarrow> victim_selection_plan \<Rightarrow> explicit_owner \<Rightarrow> pubkey list \<Rightarrow> pubkey list
      \<Rightarrow> fixed_cap_admission \<Rightarrow> bool" where
  "validate_evicting_candidate c plan w pubkeys added_keys a \<longleftrightarrow>
     (let victims = set (vp_victims plan);
          live = ad_ownership a; cand = ec_ownership c
      in owner_names cand = insert w (owner_names live - victims)
         \<and> (\<forall>v \<in> victims. owner_group cand v = None \<and> map_of (ec_owner_lru c) v = None)
         \<and> owner_group cand w = Some pubkeys
         \<and> (\<forall>(v, _) \<in> set (snapshot_owner_groups live). v \<in> victims \<or> v = w \<or>
              owner_group live v = owner_group cand v
              \<and> (ad_next_touch_stamp a = u64_max \<or>
                 map_of (ad_owner_lru a) v \<noteq> None \<and> map_of (ad_owner_lru a) v = map_of (ec_owner_lru c) v))
         \<and> (ad_next_touch_stamp a = u64_max \<longrightarrow>
              (let order_live = filter (\<lambda>v. v \<notin> victims) (map fst (ad_owner_lru a));
                   order_cand = filter (\<lambda>v. v \<noteq> w) (map fst (ec_owner_lru c))
               in length order_live = length order_cand
                  \<and> lru_sorted_owners (ad_owner_lru a) order_live = lru_sorted_owners (ec_owner_lru c) order_cand))
         \<and> (case map_of (ec_owner_lru c) w of
              None \<Rightarrow> False
            | Some incoming_stamp \<Rightarrow>
                (\<forall>(v, stamp) \<in> set (ec_owner_lru c). v = w \<or> stamp < incoming_stamp)
                \<and> fold max (map snd (ec_owner_lru c)) 0 < ec_next_touch_stamp c
                \<and> ec_next_touch_stamp c = saturating_add incoming_stamp 1)
         \<and> sorted_list_of_set (key_set live - key_set cand) = sort (vp_physical_freed plan)
         \<and> sorted_list_of_set (key_set cand - key_set live) = sort added_keys
         \<and> length added_keys = vp_incoming_physical_added plan
         \<and> ec_physical_len c = vp_projected_final_len plan
         \<and> ec_physical_len c \<le> ad_cap a
         \<and> ec_physical_len c = ownership_len cand
         \<and> candidate_snapshot_ok c)"

definition commit_candidate :: "evicting_candidate_state \<Rightarrow> fixed_cap_admission \<Rightarrow> fixed_cap_admission" where
  "commit_candidate c a = a\<lparr> ad_ownership := ec_ownership c, ad_owner_lru := ec_owner_lru c,
     ad_next_touch_stamp := ec_next_touch_stamp c, ad_physical_len := ec_physical_len c \<rparr>"

definition try_admit_with_eviction ::
    "explicit_owner \<Rightarrow> pubkey list \<Rightarrow> fixed_cap_admission
      \<Rightarrow> (evicting_admission_result \<times> fixed_cap_admission) option" where
  "try_admit_with_eviction w pubkeys a =
     (let normalized = normalize_pubkeys pubkeys in
      if normalized = [] then Some (EvictRejectedInvalidInput, a)
      else if owner_group (ad_ownership a) w \<noteq> None then Some (EvictRejectedExistingOwner, a)
      else
        let added_keys = filter (\<lambda>k. owner_refcount (ad_ownership a) k = 0) normalized in
        case plan_insert_readonly a normalized of
          InsertReady _ \<Rightarrow> Some (map_fast_path_admit w normalized a)
        | InsertInternalInvariantViolation \<Rightarrow> Some (EvictInternalInvariantViolation, a)
        | InsertRejectCap _ _ \<Rightarrow>
            (case plan_admit_with_eviction w normalized a of
               None \<Rightarrow> None
             | Some (VNoEvictionNeeded _ _) \<Rightarrow> Some (EvictInternalInvariantViolation, a)
             | Some (VRejectedProtected added required) \<Rightarrow> Some (EvictRejectedProtected added required, a)
             | Some VRejectedInvalidInput \<Rightarrow> Some (EvictRejectedInvalidInput, a)
             | Some VInternalInvariantViolation \<Rightarrow> Some (EvictInternalInvariantViolation, a)
             | Some (VPlanned plan) \<Rightarrow>
                 Some (case build_evicting_candidate w normalized plan a of
                    None \<Rightarrow> (EvictInternalInvariantViolation, a)
                  | Some c \<Rightarrow>
                      if \<not> validate_evicting_candidate c plan w normalized added_keys a
                      then (EvictInternalInvariantViolation, a)
                      else (InsertedWithEviction added_keys (vp_physical_freed plan) (vp_victims plan)
                              (vp_opened_through plan), commit_candidate c a))))"

section \<open>Lowering the cap\<close>

definition wallet_physical_len :: "fixed_cap_admission \<Rightarrow> usize" where
  "wallet_physical_len a = card (\<Union>(w, ks) \<in> set (snapshot_owner_groups (ad_ownership a)).
     if consumer w = CWallet then set ks else {})"

definition wallet_demand_exceeds_cap :: "fixed_cap_admission \<Rightarrow> usize \<Rightarrow> bool" where
  "wallet_demand_exceeds_cap a cap \<longleftrightarrow> wallet_physical_len a > cap"

definition plan_cap_shrink :: "usize \<Rightarrow> fixed_cap_admission \<Rightarrow> cap_shrink_selection_result option" where
  "plan_cap_shrink target_cap a =
     (case from_ownership (ad_ownership a) (snapshot_lru_entries a) of
        Inl _ \<Rightarrow> Some CInternalInvariantViolation
      | Inr snap \<Rightarrow> select_cap_shrink_victims snap target_cap)"

definition build_shrink_candidate ::
    "cap_shrink_selection_plan \<Rightarrow> fixed_cap_admission \<Rightarrow> evicting_candidate_state option" where
  "build_shrink_candidate plan a =
     (case rebuild_groups (cp_victims plan) (snapshot_owner_groups (ad_ownership a)) ownership_new of
        None \<Rightarrow> None
      | Some s \<Rightarrow>
          Some \<lparr> ec_ownership = s, ec_owner_lru = fold AList.delete (cp_victims plan) (ad_owner_lru a),
                 ec_next_touch_stamp = ad_next_touch_stamp a, ec_physical_len = ownership_len s \<rparr>)"

definition validate_shrink_candidate ::
    "evicting_candidate_state \<Rightarrow> cap_shrink_selection_plan \<Rightarrow> usize \<Rightarrow> fixed_cap_admission \<Rightarrow> bool" where
  "validate_shrink_candidate c plan new_cap a \<longleftrightarrow>
     (let victims = set (cp_victims plan);
          live = ad_ownership a; cand = ec_ownership c
      in owner_names cand = owner_names live - victims
         \<and> (\<forall>v \<in> victims. owner_group cand v = None \<and> map_of (ec_owner_lru c) v = None)
         \<and> (\<forall>(v, _) \<in> set (snapshot_owner_groups live). v \<in> victims \<or>
              owner_group live v = owner_group cand v
              \<and> map_of (ad_owner_lru a) v \<noteq> None \<and> map_of (ad_owner_lru a) v = map_of (ec_owner_lru c) v)
         \<and> ec_next_touch_stamp c = ad_next_touch_stamp a
         \<and> sorted_list_of_set (key_set live - key_set cand) = sort (cp_physical_freed plan)
         \<and> key_set cand \<subseteq> key_set live
         \<and> ec_physical_len c = cp_projected_final_len plan
         \<and> ec_physical_len c \<le> new_cap
         \<and> ec_physical_len c = ownership_len cand
         \<and> candidate_snapshot_ok c)"

definition try_shrink_cap :: "usize \<Rightarrow> fixed_cap_admission \<Rightarrow> (cap_shrink_result \<times> fixed_cap_admission) option" where
  "try_shrink_cap new_cap a =
     (let old_cap = ad_cap a in
      if new_cap > old_cap then Some (RejectedCapIncrease old_cap new_cap, a)
      else if wallet_demand_exceeds_cap a new_cap
      then Some (ProtectedOverflow (wallet_physical_len a) new_cap, a)
      else if ad_physical_len a \<le> new_cap
      then Some (NoOpAlreadyWithinCap old_cap new_cap, a\<lparr> ad_cap := new_cap \<rparr>)
      else case plan_cap_shrink new_cap a of
        None \<Rightarrow> None
      | Some CNoShrinkNeeded \<Rightarrow> Some (NoOpAlreadyWithinCap old_cap new_cap, a\<lparr> ad_cap := new_cap \<rparr>)
      | Some (CRejectedProtected _) \<Rightarrow>
          Some (if wallet_demand_exceeds_cap a new_cap
                then (ProtectedOverflow (wallet_physical_len a) new_cap, a)
                else (ShrinkInternalInvariantViolation, a))
      | Some CInternalInvariantViolation \<Rightarrow> Some (ShrinkInternalInvariantViolation, a)
      | Some (CPlanned plan) \<Rightarrow>
          Some (case build_shrink_candidate plan a of
             None \<Rightarrow> (ShrinkInternalInvariantViolation, a)
           | Some c \<Rightarrow>
               if \<not> validate_shrink_candidate c plan new_cap a then (ShrinkInternalInvariantViolation, a)
               else (Converged old_cap new_cap (cp_physical_freed plan) (cp_victims plan) (cp_opened_through plan),
                     (commit_candidate c a)\<lparr> ad_cap := new_cap \<rparr>)))"

end
