(* ===== verification/Eviction_Properties.thy ===== *)
theory Eviction_Properties
  imports Eviction_Planner
begin

text \<open>
  A snapshot of a well-formed store always validates and is exact; the tier opened is the least
  protected one that suffices; the selection loop ends, chooses only owners the tier opens and frees
  exactly the keys its plan names.
\<close>

section \<open>Sorted sets\<close>

lemma to_btreeset_eq: "to_btreeset xs = sorted_list_of_set (set xs)"
  unfolding to_btreeset_def by (rule listing) (simp_all add: strict_sorted_remdups_adj)

lemma set_to_btreeset [simp]: "set (to_btreeset xs) = set xs"
  by (simp add: to_btreeset_eq)

lemma to_btreeset_Nil [simp]: "to_btreeset xs = [] \<longleftrightarrow> xs = []"
  by (metis set_empty set_to_btreeset)

lemma sorted_to_btreeset: "sorted_wrt (<) (to_btreeset xs)"
  by (simp add: to_btreeset_eq)

lemma distinct_to_btreeset [simp]: "distinct (to_btreeset xs)"
  by (simp add: to_btreeset_eq)

lemma length_to_btreeset: "length (to_btreeset xs) = card (set xs)"
  by (simp add: to_btreeset_eq)

lemma to_btreeset_id: "sorted_wrt (<) xs \<Longrightarrow> to_btreeset xs = xs"
  using listing [of xs "set xs"] by (simp add: to_btreeset_eq)

lemma insort_insert_listing:
  "finite A \<Longrightarrow> insort_insert x (sorted_list_of_set A) = sorted_list_of_set (insert x A)"
  by (cases "x \<in> A") (simp_all add: insort_insert_key_def insert_absorb)

lemma strict_insort_insert: "sorted_wrt (<) xs \<Longrightarrow> sorted_wrt (<) (insort_insert x xs)"
  by (metis List.finite_set insort_insert_listing listing strict_sorted_list_of_set)

lemma set_insort_insert' [simp]: "set (insort_insert x xs) = insert x (set xs)"
  by (auto simp: insort_insert_key_def set_insort_key)

section \<open>Exact snapshots\<close>

text \<open>What a snapshot of the store \<open>s\<close> with the stamps \<open>lru\<close> has to hold.\<close>

definition exact_snapshot ::
    "explicit_ownership \<Rightarrow> (explicit_owner \<rightharpoonup> u64) \<Rightarrow> eviction_planning_snapshot \<Rightarrow> bool" where
  "exact_snapshot s lru snap \<longleftrightarrow>
     es_owners snap = map (\<lambda>(w, ks). \<lparr> pr_owner = w, pr_last_touch = the (lru w), pr_pubkeys = ks \<rparr>) (eo_groups s)
     \<and> es_pubkey_index snap = map (\<lambda>k. \<lparr> pi_pubkey = k, pi_refcount = card (owners_of s k),
          pi_owners = sorted_list_of_set (owners_of s k) \<rparr>) (sorted_list_of_set (physical s))
     \<and> es_physical_pubkeys snap = sorted_list_of_set (physical s)
     \<and> es_physical_len snap = card (physical s)"

text \<open>The index under construction: each key with an owner so far, and its owners in order.\<close>

definition index_of ::
    "(pubkey, explicit_owner list) btreemap \<Rightarrow> (pubkey \<Rightarrow> explicit_owner set) \<Rightarrow> bool" where
  "index_of m f \<longleftrightarrow> bt_wf m \<and> (\<forall>k. finite (f k))
     \<and> (\<forall>k. map_of m k = (if f k = {} then None else Some (sorted_list_of_set (f k))))"

lemma index_of_add_edge: "index_of m f \<Longrightarrow> index_of (add_edge w k m) (f(k := insert w (f k)))"
  by (auto simp: index_of_def add_edge_def bt_wf_put map_of_bt_put insort_insert_listing
      insort_insert_listing [of "{}", simplified] split: option.split)

lemma index_of_add_edges:
  "index_of m f \<Longrightarrow> index_of (fold (add_edge w) ks m) (\<lambda>k. if k \<in> set ks then insert w (f k) else f k)"
proof (induction ks arbitrary: m f)
  case (Cons k ks)
  have "(\<lambda>j. if j \<in> set ks then insert w ((f(k := insert w (f k))) j) else (f(k := insert w (f k))) j)
      = (\<lambda>j. if j \<in> set (k # ks) then insert w (f j) else f j)"
    by (auto simp: fun_eq_iff)
  with Cons.IH [OF index_of_add_edge [OF Cons.prems, of w k]] show ?case by (simp only: fold_simps)
qed simp

lemma index_of_records:
  "index_of m f \<Longrightarrow> index_of (fold (\<lambda>r. fold (add_edge (pr_owner r)) (pr_pubkeys r)) rs m)
     (\<lambda>k. f k \<union> {pr_owner r | r. r \<in> set rs \<and> k \<in> set (pr_pubkeys r)})"
proof (induction rs arbitrary: m f)
  case (Cons r rs)
  have "(\<lambda>k. (if k \<in> set (pr_pubkeys r) then insert (pr_owner r) (f k) else f k)
        \<union> {pr_owner q | q. q \<in> set rs \<and> k \<in> set (pr_pubkeys q)})
      = (\<lambda>k. f k \<union> {pr_owner q | q. q \<in> set (r # rs) \<and> k \<in> set (pr_pubkeys q)})"
    by (auto simp: fun_eq_iff)
  with Cons.IH [OF index_of_add_edges [OF Cons.prems, of "pr_owner r" "pr_pubkeys r"]] show ?case
    by (simp only: fold_simps)
qed simp

lemma index_of_listing:
  assumes "index_of m f"
  shows "m = map (\<lambda>k. (k, sorted_list_of_set (f k))) (sorted_list_of_set {k. f k \<noteq> {}})"
proof -
  have wf: "bt_wf m" and get: "map_of m k = (if f k = {} then None else Some (sorted_list_of_set (f k)))" for k
    using assms by (auto simp: index_of_def)
  have "set (map fst m) = {k. f k \<noteq> {}}"
    using get by (simp add: dom_map_of_conv_image_fst [symmetric] dom_def)
  then have keys: "map fst m = sorted_list_of_set {k. f k \<noteq> {}}"
    using wf unfolding bt_wf_def by (intro listing)
  have "p = (fst p, sorted_list_of_set (f (fst p)))" if "p \<in> set m" for p
  proof -
    have "map_of m (fst p) = Some (snd p)" using that bt_wf_hm_wf [OF wf] by (simp add: hm_wf_def)
    with get [of "fst p"] show ?thesis by (auto simp: prod_eq_iff split: if_splits)
  qed
  then have "m = map (\<lambda>p. (fst p, sorted_list_of_set (f (fst p)))) m"
    by (metis (mono_tags, lifting) map_idI)
  also have "\<dots> = map (\<lambda>k. (k, sorted_list_of_set (f k))) (map fst m)" by simp
  finally show ?thesis unfolding keys .
qed

text \<open>The stamps: rows are accepted exactly when they name each owner once.\<close>

lemma index_lru_ok:
  assumes "bt_wf m" "distinct (map le_owner es)" "set (map le_owner es) \<subseteq> set owners"
    "set (map le_owner es) \<inter> dom (map_of m) = {}"
  shows "\<exists>m'. index_lru owners es m = Inr m' \<and> bt_wf m'
    \<and> map_of m' = map_of m ++ map_of (map (\<lambda>e. (le_owner e, le_last_touch e)) es)"
  using assms
proof (induction es arbitrary: m)
  case (Cons e es)
  let ?m = "bt_put (le_owner e) (le_last_touch e) m"
  have new: "map_of m (le_owner e) = None" using Cons.prems(4) by auto
  have free: "map_of (map (\<lambda>e. (le_owner e, le_last_touch e)) es) (le_owner e) = None"
    using Cons.prems(2) by (force simp: map_of_eq_None_iff)
  have "set (map le_owner es) \<inter> dom (map_of ?m) = {}"
    using Cons.prems(2,4) by (auto simp: map_of_bt_put)
  then obtain m' where "index_lru owners es ?m = Inr m'" "bt_wf m'"
    "map_of m' = map_of ?m ++ map_of (map (\<lambda>e. (le_owner e, le_last_touch e)) es)"
    using Cons.IH [of ?m] Cons.prems(1-3) by (auto simp: bt_wf_put)
  with new free Cons.prems(3) show ?case
    by (auto simp: map_of_bt_put map_add_def fun_eq_iff split: option.splits)
qed simp

lemma index_lru_ok_conv:
  "index_lru owners es m = Inr m' \<Longrightarrow> distinct (map le_owner es) \<and> set (map le_owner es) \<subseteq> set owners
     \<and> set (map le_owner es) \<inter> dom (map_of m) = {} \<and> dom (map_of m') = dom (map_of m) \<union> set (map le_owner es)"
proof (induction es arbitrary: m)
  case (Cons e es)
  then show ?case
    using Cons.IH [of "bt_put (le_owner e) (le_last_touch e) m"]
    by (auto simp: map_of_bt_put split: if_splits)
qed simp

lemma planning_records_ok:
  "fst ` set gs \<subseteq> dom (map_of lru) \<Longrightarrow> planning_records lru gs =
     Inr (map (\<lambda>(w, ks). \<lparr> pr_owner = w, pr_last_touch = the (map_of lru w), pr_pubkeys = ks \<rparr>) gs)"
  by (induction lru gs rule: planning_records.induct) auto

lemma validate_refcounts_ok:
  "\<forall>row \<in> set rows. pi_refcount row = owner_refcount s (pi_pubkey row) \<Longrightarrow> validate_refcounts s rows = Inr ()"
  by (induction rows) auto

lemma build_index_exact:
  assumes "own_inv s"
  shows "build_pubkey_index (map (\<lambda>(w, ks). \<lparr> pr_owner = w, pr_last_touch = f w, pr_pubkeys = ks \<rparr>) (eo_groups s))
    = map (\<lambda>k. \<lparr> pi_pubkey = k, pi_refcount = card (owners_of s k),
        pi_owners = sorted_list_of_set (owners_of s k) \<rparr>) (sorted_list_of_set (physical s))"
proof -
  let ?rs = "map (\<lambda>(w, ks). \<lparr> pr_owner = w, pr_last_touch = f w, pr_pubkeys = ks \<rparr>) (eo_groups s)"
  have "{pr_owner r | r. r \<in> set ?rs \<and> k \<in> set (pr_pubkeys r)} = owners_of s k" for k
    using distinct_groups [OF assms] by (force simp: owners_of_def)
  moreover have "index_of [] (\<lambda>_. {})" by (simp add: index_of_def bt_wf_def)
  ultimately have "index_of (fold (\<lambda>r. fold (add_edge (pr_owner r)) (pr_pubkeys r)) ?rs []) (owners_of s)"
    using index_of_records [of "[]" "\<lambda>_. {}" ?rs] by simp
  from index_of_listing [OF this] show ?thesis
    by (simp add: build_pubkey_index_def physical_def o_def)
qed

lemma validates:
  assumes "own_inv s"
  shows "validate_against_ownership s (snapshot_pubkeys s)
    (map (\<lambda>k. \<lparr> pi_pubkey = k, pi_refcount = card (owners_of s k),
        pi_owners = sorted_list_of_set (owners_of s k) \<rparr>) (sorted_list_of_set (physical s))) = Inr ()"
  using assms
  by (simp add: validate_against_ownership_def snapshot_pubkeys_physical o_def validate_refcounts_ok
    owner_refcount_owners)

lemma sort_key_sorted: "sorted (map f xs) \<Longrightarrow> sort_key f xs = xs"
  by (rule sort_key_id_if_sorted)

text \<open>
  A snapshot is built exactly when the stamps name every owner once and nothing else, and then it is
  exact: on a well-formed store no validation fails.
\<close>

lemma from_ownership_exact:
  assumes "own_inv s"
  shows "(\<exists>snap. from_ownership s es = Inr snap) \<longleftrightarrow>
      distinct (map le_owner es) \<and> set (map le_owner es) = dom (map_of (eo_groups s))"
    and "from_ownership s es = Inr snap \<Longrightarrow>
      exact_snapshot s (map_of (map (\<lambda>e. (le_owner e, le_last_touch e)) es)) snap"
proof -
  let ?owners = "owner_set_from_groups (snapshot_owner_groups s)"
  let ?lru = "map_of (map (\<lambda>e. (le_owner e, le_last_touch e)) es)"
  have owners: "set ?owners = fst ` set (eo_groups s)"
    by (simp add: owner_set_from_groups_def snapshot_owner_groups_def)
  have good: "\<exists>snap. from_ownership s es = Inr snap \<and> exact_snapshot s ?lru snap"
    if rows: "distinct (map le_owner es)" "set (map le_owner es) = fst ` set (eo_groups s)"
  proof -
    obtain m where m: "index_lru ?owners es [] = Inr m" "map_of m = ?lru"
      using index_lru_ok [of "[]" es ?owners] rows owners by (auto simp: bt_wf_def)
    have dom: "dom ?lru = fst ` set (eo_groups s)" using rows(2) by (simp add: dom_map_of_conv_image_fst image_image)
    have found: "find (\<lambda>w. ?lru w = None) ?owners = None"
      using dom owners by (auto simp: find_None_iff)
    have recs: "planning_records m (snapshot_owner_groups s) = Inr (map (\<lambda>(w, ks).
        \<lparr> pr_owner = w, pr_last_touch = the (?lru w), pr_pubkeys = ks \<rparr>) (eo_groups s))" (is "_ = Inr ?recs")
      using planning_records_ok [of "eo_groups s" m] dom m(2) by (simp add: snapshot_owner_groups_def)
    have keys: "map pr_owner ?recs = map fst (eo_groups s)" by (induction "eo_groups s") auto
    have "sort_key pr_owner ?recs = ?recs"
      by (rule sort_key_sorted, unfold keys)
        (use own_invD(1) [OF assms] in \<open>simp add: bt_wf_def strict_sorted_iff\<close>)
    with m found recs show ?thesis
      by (simp add: from_ownership_def build_index_exact [OF assms] validates [OF assms]
        exact_snapshot_def o_def)
  qed
  have bad: "distinct (map le_owner es) \<and> set (map le_owner es) = fst ` set (eo_groups s)"
    if "from_ownership s es = Inr snap" for snap
  proof -
    from that obtain m where m: "index_lru ?owners es [] = Inr m" "find (\<lambda>w. map_of m w = None) ?owners = None"
      by (auto simp: from_ownership_def Let_def split: sum.splits option.splits)
    with index_lru_ok_conv [OF m(1)] owners show ?thesis by (auto simp: find_None_iff)
  qed
  show "(\<exists>snap. from_ownership s es = Inr snap) \<longleftrightarrow>
      distinct (map le_owner es) \<and> set (map le_owner es) = dom (map_of (eo_groups s))"
    using good bad unfolding dom_map_of_conv_image_fst by metis
  show "exact_snapshot s ?lru snap" if "from_ownership s es = Inr snap"
    using good bad [OF that] that by auto
qed

section \<open>The selection workspace\<close>

definition rows_ok :: "pubkey_owner_index list \<Rightarrow> bool" where
  "rows_ok rows \<longleftrightarrow> distinct (map pi_pubkey rows)
     \<and> (\<forall>row \<in> set rows. distinct (pi_owners row) \<and> pi_owners row \<noteq> [] \<and> pi_refcount row = length (pi_owners row))"

text \<open>The keys that are freed when the owners in \<open>V\<close> go and the keys \<open>incoming\<close> come.\<close>

definition freed_by :: "pubkey_owner_index list \<Rightarrow> pubkey list \<Rightarrow> explicit_owner set \<Rightarrow> pubkey set" where
  "freed_by rows incoming V = pi_pubkey ` {row \<in> set rows. set (pi_owners row) \<subseteq> V \<and> pi_pubkey row \<notin> set incoming}"

definition indices_of :: "(explicit_owner, nat list) btreemap \<Rightarrow> explicit_owner \<Rightarrow> nat list" where
  "indices_of m w = (case map_of m w of None \<Rightarrow> [] | Some is \<Rightarrow> is)"

lemma indices_add_index: "set (indices_of (add_index i w m) v) = set (indices_of m v) \<union> (if v = w then {i} else {})"
  by (auto simp: indices_of_def add_index_def map_of_bt_put split: option.splits)

lemma indices_add_row:
  "set (indices_of (fold (add_index i) ws m) v) = set (indices_of m v) \<union> (if v \<in> set ws then {i} else {})"
  by (induction ws arbitrary: m) (auto simp: indices_add_index)

lemma indices_add_rows:
  "set (indices_of (fold (\<lambda>(i, row). fold (add_index i) (pi_owners row)) xs m) v)
     = set (indices_of m v) \<union> {i. \<exists>row. (i, row) \<in> set xs \<and> v \<in> set (pi_owners row)}"
  by (induction xs arbitrary: m) (auto simp: indices_add_row split: if_splits)

lemma indices_normalized:
  "indices_of (map (\<lambda>(w, is). (w, remdups_adj (sort is))) m) w = remdups_adj (sort (indices_of m w))"
  by (induction m) (auto simp: indices_of_def)

lemma indices_exact:
  "distinct (indices_of (owner_pubkey_indices rows) w)
   \<and> set (indices_of (owner_pubkey_indices rows) w) = {i. i < length rows \<and> w \<in> set (pi_owners (rows ! i))}"
proof -
  have "set (indices_of (owner_pubkey_indices rows) w)
      = {i. \<exists>row. (i, row) \<in> set (enumerate 0 rows) \<and> w \<in> set (pi_owners row)}"
    by (simp add: owner_pubkey_indices_def indices_normalized indices_add_rows) (simp add: indices_of_def)
  moreover have "distinct (indices_of (owner_pubkey_indices rows) w)"
    unfolding owner_pubkey_indices_def indices_normalized
    by (rule conjunct2 [OF iffD1 [OF strict_sorted_iff strict_sorted_remdups_adj [OF sorted_sort]]])
  ultimately show ?thesis by (auto simp: in_set_enumerate_eq)
qed

lemma drop_reference_frame [simp]:
  "ws_pubkey_index (drop_reference i ws) = ws_pubkey_index ws"
  "ws_owner_pubkey_indices (drop_reference i ws) = ws_owner_pubkey_indices ws"
  "ws_incoming_set (drop_reference i ws) = ws_incoming_set ws"
  "ws_allowed_owners (drop_reference i ws) = ws_allowed_owners ws"
  "ws_selected (drop_reference i ws) = ws_selected ws"
  "ws_victims (drop_reference i ws) = ws_victims ws"
  "length (ws_projected_refcounts (drop_reference i ws)) = length (ws_projected_refcounts ws)"
  by (simp_all add: drop_reference_def Let_def)

lemma fold_drop_frame [simp]:
  "ws_pubkey_index (fold drop_reference is ws) = ws_pubkey_index ws"
  "ws_owner_pubkey_indices (fold drop_reference is ws) = ws_owner_pubkey_indices ws"
  "ws_incoming_set (fold drop_reference is ws) = ws_incoming_set ws"
  "ws_allowed_owners (fold drop_reference is ws) = ws_allowed_owners ws"
  "ws_selected (fold drop_reference is ws) = ws_selected ws"
  "ws_victims (fold drop_reference is ws) = ws_victims ws"
  "length (ws_projected_refcounts (fold drop_reference is ws)) = length (ws_projected_refcounts ws)"
  by (induction "is" arbitrary: ws) simp_all

lemma drop_reference_counts:
  "i < length (ws_projected_refcounts ws) \<Longrightarrow> ws_projected_refcounts (drop_reference i ws) ! j
     = ws_projected_refcounts ws ! j - (if j = i then 1 else 0)"
  by (simp add: drop_reference_def Let_def nth_list_update)

lemma fold_drop_counts:
  "distinct is \<Longrightarrow> \<forall>i \<in> set is. i < length (ws_projected_refcounts ws) \<Longrightarrow>
    ws_projected_refcounts (fold drop_reference is ws) ! j
      = ws_projected_refcounts ws ! j - (if j \<in> set is then 1 else 0)"
  by (induction "is" arbitrary: ws) (auto simp: drop_reference_counts)

lemma drop_reference_freed:
  "sorted_wrt (<) (ws_freed_pubkeys ws) \<Longrightarrow> sorted_wrt (<) (ws_freed_pubkeys (drop_reference i ws))"
  "set (ws_freed_pubkeys (drop_reference i ws)) = set (ws_freed_pubkeys ws) \<union>
     (if ws_projected_refcounts ws ! i = 1 \<and> pi_pubkey (ws_pubkey_index ws ! i) \<notin> set (ws_incoming_set ws)
      then {pi_pubkey (ws_pubkey_index ws ! i)} else {})"
  by (auto simp: drop_reference_def Let_def strict_insort_insert)

lemma fold_drop_freed:
  "distinct is \<Longrightarrow> \<forall>i \<in> set is. i < length (ws_projected_refcounts ws) \<Longrightarrow>
    set (ws_freed_pubkeys (fold drop_reference is ws)) = set (ws_freed_pubkeys ws) \<union>
      {pi_pubkey (ws_pubkey_index ws ! i) | i. i \<in> set is \<and> ws_projected_refcounts ws ! i = 1
         \<and> pi_pubkey (ws_pubkey_index ws ! i) \<notin> set (ws_incoming_set ws)}"
proof (induction "is" arbitrary: ws)
  case (Cons i "is")
  have "ws_projected_refcounts (drop_reference i ws) ! j = ws_projected_refcounts ws ! j" if "j \<in> set is" for j
    using that Cons.prems by (auto simp: drop_reference_counts)
  with Cons.prems Cons.IH [of "drop_reference i ws"] show ?case by (auto simp: drop_reference_freed(2))
qed simp

lemma fold_drop_sorted:
  "sorted_wrt (<) (ws_freed_pubkeys ws) \<Longrightarrow> sorted_wrt (<) (ws_freed_pubkeys (fold drop_reference is ws))"
  by (induction "is" arbitrary: ws) (simp_all add: drop_reference_freed(1))

text \<open>
  The invariant of the loop: each projected count is the number of owners not selected, the freed
  keys are exactly those all of whose owners are selected, and only allowed owners are selected, once.
\<close>

definition selects ::
    "pubkey_owner_index list \<Rightarrow> pubkey list \<Rightarrow> explicit_owner list \<Rightarrow> selector_workspace \<Rightarrow> bool" where
  "selects rows incoming allowed ws \<longleftrightarrow>
     ws_pubkey_index ws = rows \<and> ws_owner_pubkey_indices ws = owner_pubkey_indices rows
     \<and> ws_incoming_set ws = incoming \<and> ws_allowed_owners ws = allowed
     \<and> length (ws_projected_refcounts ws) = length rows
     \<and> (\<forall>i < length rows. ws_projected_refcounts ws ! i = card (set (pi_owners (rows ! i)) - set (ws_selected ws)))
     \<and> sorted_wrt (<) (ws_freed_pubkeys ws)
     \<and> set (ws_freed_pubkeys ws) = freed_by rows incoming (set (ws_selected ws))
     \<and> distinct (ws_victims ws) \<and> set (ws_victims ws) = set (ws_selected ws)
     \<and> set (ws_selected ws) \<subseteq> set allowed"

lemma selects_new:
  assumes "rows_ok rows" "rows = es_pubkey_index snap"
  shows "selects rows incoming allowed (selector_workspace_new snap incoming allowed)"
proof -
  have "pi_refcount (rows ! i) = card (set (pi_owners (rows ! i)))" if "i < length rows" for i
    using that assms(1) by (auto simp: rows_ok_def distinct_card)
  moreover have "freed_by rows incoming {} = {}" using assms(1) by (auto simp: freed_by_def rows_ok_def)
  ultimately show ?thesis using assms(2) by (simp add: selects_def selector_workspace_new_def)
qed

lemma freed_by_nth:
  "freed_by rows incoming V
     = {pi_pubkey (rows ! i) | i. i < length rows \<and> set (pi_owners (rows ! i)) \<subseteq> V \<and> pi_pubkey (rows ! i) \<notin> set incoming}"
  unfolding freed_by_def set_conv_nth [of rows] by blast

lemma selectsD:
  assumes "selects rows incoming allowed ws"
  shows "ws_pubkey_index ws = rows" "ws_owner_pubkey_indices ws = owner_pubkey_indices rows"
    "ws_incoming_set ws = incoming" "ws_allowed_owners ws = allowed"
    "length (ws_projected_refcounts ws) = length rows"
    "i < length rows \<Longrightarrow> ws_projected_refcounts ws ! i = card (set (pi_owners (rows ! i)) - set (ws_selected ws))"
    "sorted_wrt (<) (ws_freed_pubkeys ws)"
    "set (ws_freed_pubkeys ws) = freed_by rows incoming (set (ws_selected ws))"
    "distinct (ws_victims ws)" "set (ws_victims ws) = set (ws_selected ws)" "set (ws_selected ws) \<subseteq> set allowed"
  using assms by (auto simp: selects_def)

lemma select_owner_selects:
  assumes "selects rows incoming allowed ws" "w \<in> set allowed" "w \<notin> set (ws_selected ws)"
  shows "selects rows incoming allowed (select_owner w ws)"
    and "set (ws_selected (select_owner w ws)) = insert w (set (ws_selected ws))"
proof -
  let ?is = "indices_of (owner_pubkey_indices rows) w"
  let ?ws = "ws\<lparr> ws_selected := insort_insert w (ws_selected ws), ws_victims := ws_victims ws @ [w] \<rparr>"
  let ?own = "\<lambda>i. set (pi_owners (rows ! i))" and ?V = "set (ws_selected ws)"
  note s = selectsD [OF assms(1)]
  have eq: "select_owner w ws = fold drop_reference ?is ?ws"
    by (cases "map_of (owner_pubkey_indices rows) w") (simp_all add: select_owner_def indices_of_def Let_def s(2))
  note ix = indices_exact [of rows w]
  have bound: "\<forall>i \<in> set ?is. i < length (ws_projected_refcounts ?ws)" using ix s(5) by simp
  show sel: "set (ws_selected (select_owner w ws)) = insert w ?V" by (simp add: eq)
  have minus: "card (?own i - insert w ?V) = card (?own i - ?V) - (if w \<in> ?own i then 1 else 0)" for i
  proof -
    have "?own i - insert w ?V = (?own i - ?V) - {w}" by blast
    then show ?thesis using assms(3) by (simp add: card_Diff_singleton_if)
  qed
  have counts: "ws_projected_refcounts (select_owner w ws) ! i = card (?own i - insert w ?V)" if "i < length rows" for i
    unfolding eq minus using fold_drop_counts [OF conjunct1 [OF ix] bound, of i] s(6) [OF that] that
      conjunct2 [OF ix] by simp
  have picked: "i \<in> set ?is \<and> ws_projected_refcounts ?ws ! i = 1 \<longleftrightarrow> i < length rows \<and> ?own i - ?V = {w}" for i
  proof -
    have one: "card A = 1 \<longleftrightarrow> A = {w}" if "w \<in> A" for A
    proof
      assume "card A = 1"
      then obtain x where "A = {x}" by (rule card_1_singletonE)
      with that show "A = {w}" by simp
    qed simp
    show ?thesis
    proof (cases "i < length rows \<and> w \<in> ?own i")
      case True
      then have "ws_projected_refcounts ?ws ! i = card (?own i - ?V)" using s(6) [of i] by simp
      with True one [of "?own i - ?V"] assms(3) conjunct2 [OF ix] show ?thesis by simp
    next
      case False
      then have "\<not> (i < length rows \<and> ?own i - ?V = {w})" by blast
      with False conjunct2 [OF ix] show ?thesis by blast
    qed
  qed
  have "set (ws_freed_pubkeys (select_owner w ws)) = set (ws_freed_pubkeys ws) \<union>
      {pi_pubkey (rows ! i) | i. (i \<in> set ?is \<and> ws_projected_refcounts ?ws ! i = 1) \<and> pi_pubkey (rows ! i) \<notin> set incoming}"
    unfolding eq using fold_drop_freed [OF conjunct1 [OF ix] bound] by (simp add: s(1,3) conj_assoc)
  also have "\<dots> = freed_by rows incoming (insert w ?V)"
    unfolding picked s(8) freed_by_nth by blast
  finally have freed: "set (ws_freed_pubkeys (select_owner w ws)) = freed_by rows incoming (insert w ?V)" .
  have "sorted_wrt (<) (ws_freed_pubkeys (select_owner w ws))"
    unfolding eq by (rule fold_drop_sorted) (simp add: s(7))
  with counts freed assms(2,3) show "selects rows incoming allowed (select_owner w ws)"
    unfolding selects_def sel by (simp add: eq s)
qed

lemma select_package_selects:
  assumes "selects rows incoming allowed ws" "set candidates \<subseteq> set allowed"
  shows "selects rows incoming allowed (select_package candidates package ws)
    \<and> set (ws_selected (select_package candidates package ws)) = set (ws_selected ws) \<union> (set package \<inter> set candidates)"
  using assms
proof (induction candidates arbitrary: ws)
  case (Cons w candidates)
  let ?ws = "if w \<in> set package \<and> w \<notin> set (ws_selected ws) then select_owner w ws else ws"
  have "selects rows incoming allowed ?ws"
    "set (ws_selected ?ws) = set (ws_selected ws) \<union> (set package \<inter> {w})"
    using Cons.prems select_owner_selects [OF Cons.prems(1), of w] by auto
  with Cons.IH [of ?ws] Cons.prems(2) show ?case by (auto simp: select_package_def)
qed (simp add: select_package_def)

section \<open>The loop ends with enough keys\<close>

lemma min_by_in: "xs \<noteq> [] \<Longrightarrow> \<exists>x \<in> set xs. min_by cmp xs = Some x"
proof (cases xs)
  case (Cons x ys)
  have "fold (\<lambda>y m. if cmp m y = Greater then y else m) ys x \<in> insert x (set ys)" for ys x
    by (induction ys arbitrary: x) (auto split: if_splits)
  then show ?thesis by (simp add: Cons)
qed simp

lemma set_remaining:
  "set (remaining_owners ws row) = set (pi_owners row) \<inter> set (ws_allowed_owners ws) - set (ws_selected ws)"
  by (auto simp: remaining_owners_def)

lemma package_members:
  assumes "selects rows incoming allowed ws" "p \<in> set (collect_joint_packages ws)"
  shows "p \<noteq> []" "set p \<subseteq> set allowed - set (ws_selected ws)"
proof -
  obtain row where "p = remaining_owners ws row" "p \<noteq> []"
    using assms(2) by (auto simp: collect_joint_packages_def)
  then show "p \<noteq> []" "set p \<subseteq> set allowed - set (ws_selected ws)"
    using selectsD(4) [OF assms(1)] by (auto simp: set_remaining)
qed

lemma package_exists:
  assumes "selects rows incoming allowed ws" "i < length rows" "set (pi_owners (rows ! i)) \<subseteq> set allowed"
    "pi_pubkey (rows ! i) \<notin> set incoming" "\<not> set (pi_owners (rows ! i)) \<subseteq> set (ws_selected ws)"
  shows "collect_joint_packages ws \<noteq> []"
proof -
  note s = selectsD [OF assms(1)]
  let ?p = "remaining_owners ws (rows ! i)"
  have p: "set ?p = set (pi_owners (rows ! i)) - set (ws_selected ws)"
    using assms(3) by (auto simp: set_remaining s(4))
  have "length ?p = card (set ?p)" by (simp only: remaining_owners_def length_to_btreeset set_to_btreeset)
  then have len: "length ?p = ws_projected_refcounts ws ! i" unfolding p using s(6) [OF assms(2)] by simp
  have ne: "?p \<noteq> []" using assms(5) p by auto
  then have "0 < ws_projected_refcounts ws ! i" unfolding len [symmetric] by simp
  with ne len assms(2,4) have "?p \<in> set (collect_joint_packages ws)"
    unfolding collect_joint_packages_def set_to_btreeset set_map
    by (intro image_eqI [of _ _ "(i, rows ! i)"]) (auto simp: s(1,3) in_set_enumerate_eq)
  then show ?thesis by auto
qed

lemma freed_by_mono: "V \<subseteq> W \<Longrightarrow> freed_by rows incoming V \<subseteq> freed_by rows incoming W"
  by (auto simp: freed_by_def)

lemma finite_freed_by [simp]: "finite (freed_by rows incoming V)"
  by (simp add: freed_by_def)

theorem select_loop_returns:
  assumes "selects rows incoming allowed ws" "set candidates = set allowed"
    "required \<le> card (freed_by rows incoming (set allowed))"
  shows "\<exists>ws'. select_loop snap candidates required ws = Some (Some ws')
    \<and> selects rows incoming allowed ws' \<and> required \<le> length (ws_freed_pubkeys ws')"
  using assms
proof (induction "card (set allowed - set (ws_selected ws))" arbitrary: ws rule: less_induct)
  case less
  note s = selectsD [OF less.prems(1)]
  have smaller: "card (set allowed - set (ws_selected ws')) < card (set allowed - set (ws_selected ws))"
    if "w \<in> set allowed" "w \<notin> set (ws_selected ws)" "insert w (set (ws_selected ws)) \<subseteq> set (ws_selected ws')" for ws' w
    using that by (intro psubset_card_mono) auto
  show ?case
  proof (cases "required \<le> length (ws_freed_pubkeys ws)")
    case True
    then show ?thesis using less.prems(1) by (simp add: select_loop.simps)
  next
    case more: False
    show ?thesis
    proof (cases "find (\<lambda>w. w \<notin> set (ws_selected ws) \<and> 0 < positive_marginal_count ws w) candidates")
      case (Some w)
      then have w: "w \<in> set allowed" "w \<notin> set (ws_selected ws)"
        using less.prems(2) by (auto simp: find_Some_iff)
      note sel = select_owner_selects [OF less.prems(1) w]
      from less.hyps [OF smaller [OF w] sel(1) less.prems(2,3)] sel(2) more Some show ?thesis
        by (simp add: select_loop.simps [of snap candidates required ws])
    next
      case None
      have "card (freed_by rows incoming (set (ws_selected ws))) < card (freed_by rows incoming (set allowed))"
        using more less.prems(3) s(7,8) distinct_card [of "ws_freed_pubkeys ws"] by (simp add: strict_sorted_iff)
      then have "\<not> freed_by rows incoming (set allowed) \<subseteq> freed_by rows incoming (set (ws_selected ws))"
        by (meson card_mono finite_freed_by not_less)
      then obtain i where "i < length rows" "set (pi_owners (rows ! i)) \<subseteq> set allowed"
        "pi_pubkey (rows ! i) \<notin> set incoming" "\<not> set (pi_owners (rows ! i)) \<subseteq> set (ws_selected ws)"
        unfolding freed_by_nth by blast
      from min_by_in [OF package_exists [OF less.prems(1) this], of "compare_joint_packages snap"]
      obtain p where p: "p \<in> set (collect_joint_packages ws)"
        "min_by (compare_joint_packages snap) (collect_joint_packages ws) = Some p" by blast
      note sel = select_package_selects [OF less.prems(1) eq_refl [OF less.prems(2)], of p]
      obtain w where w: "w \<in> set p" "w \<in> set allowed" "w \<notin> set (ws_selected ws)"
        using package_members [OF less.prems(1) p(1)] by (cases p) auto
      have "card (set allowed - set (ws_selected (select_package candidates p ws)))
          < card (set allowed - set (ws_selected ws))"
        using w sel less.prems(2) by (intro smaller [of w]) auto
      from less.hyps [OF this conjunct1 [OF sel] less.prems(2,3)] more None p(2) show ?thesis
        by (simp add: select_loop.simps [of snap candidates required ws])
    qed
  qed
qed

section \<open>Plans against the store\<close>

text \<open>The keys that still have an owner when the owners in \<open>V\<close> are gone, and the owners a tier opens.\<close>

definition kept :: "explicit_ownership \<Rightarrow> explicit_owner set \<Rightarrow> pubkey set" where
  "kept s V = {k. \<not> owners_of s k \<subseteq> V}"

definition opens :: "explicit_ownership \<Rightarrow> eviction_tier \<Rightarrow> explicit_owner set" where
  "opens s tier = {w. map_of (eo_groups s) w \<noteq> None \<and> consumer w \<in> set (cumulative_consumers tier)}"

lemma kept_physical: "kept s V \<subseteq> physical s"
  by (auto simp: kept_def physical_def)

lemma exact_rows:
  assumes "own_inv s" "exact_snapshot s lru snap"
  shows "rows_ok (es_pubkey_index snap)"
    and "freed_by (es_pubkey_index snap) incoming V = physical s - (kept s V \<union> set incoming)"
proof -
  have phys: "set (sorted_list_of_set (physical s)) = physical s"
    by (simp add: finite_physical [OF assms(1)])
  have ne: "owners_of s k \<noteq> {}" if "k \<in> physical s" for k using that by (simp add: physical_def)
  have owners: "set (sorted_list_of_set (owners_of s k)) = owners_of s k" for k by (simp add: finite_owners_of)
  show "rows_ok (es_pubkey_index snap)"
    using assms(2) ne phys owners unfolding exact_snapshot_def rows_ok_def
    by (auto simp: o_def finite_owners_of)
  have "freed_by (map f ls) incoming V = {k \<in> set ls. set (pi_owners (f k)) \<subseteq> V \<and> k \<notin> set incoming}"
    if "\<And>k. pi_pubkey (f k) = k" for f :: "pubkey \<Rightarrow> pubkey_owner_index" and ls
  proof -
    have "{row \<in> f ` set ls. set (pi_owners row) \<subseteq> V \<and> pi_pubkey row \<notin> set incoming}
        = f ` {k \<in> set ls. set (pi_owners (f k)) \<subseteq> V \<and> k \<notin> set incoming}"
      using that by auto
    then show ?thesis unfolding freed_by_def set_map by (simp add: image_image that)
  qed
  then show "freed_by (es_pubkey_index snap) incoming V = physical s - (kept s V \<union> set incoming)"
    using assms(2) phys owners unfolding exact_snapshot_def kept_def by auto
qed

lemma exact_lookups:
  assumes "own_inv s" "exact_snapshot s lru snap"
  shows "owner_record snap w \<noteq> None \<longleftrightarrow> map_of (eo_groups s) w \<noteq> None"
    and "snapshot_refcount snap k = card (owners_of s k)"
    and "set (evictable_owners snap tier) = opens s tier"
    and "set (build_sorted_candidates snap (evictable_owners snap tier)) = opens s tier"
proof -
  have es: "es_owners snap = map (\<lambda>(w, ks). \<lparr> pr_owner = w, pr_last_touch = the (lru w), pr_pubkeys = ks \<rparr>) (eo_groups s)"
    and ix: "es_pubkey_index snap = map (\<lambda>k. \<lparr> pi_pubkey = k, pi_refcount = card (owners_of s k),
          pi_owners = sorted_list_of_set (owners_of s k) \<rparr>) (sorted_list_of_set (physical s))"
    using assms(2) by (auto simp: exact_snapshot_def)
  have own: "pr_owner ` set (es_owners snap) = fst ` set (eo_groups s)"
    unfolding es by (force simp: image_image)
  show "owner_record snap w \<noteq> None \<longleftrightarrow> map_of (eo_groups s) w \<noteq> None"
  proof -
    have "owner_record snap w = None \<longleftrightarrow> w \<notin> pr_owner ` set (es_owners snap)"
      by (auto simp: owner_record_def find_None_iff)
    then show ?thesis unfolding own by (simp add: map_of_eq_None_iff)
  qed
  have "find (\<lambda>row. pi_pubkey row = k) (map f ls) = (if k \<in> set ls then Some (f k) else None)"
    if "\<And>j. pi_pubkey (f j) = j" for f :: "pubkey \<Rightarrow> pubkey_owner_index" and ls
    by (induction ls) (auto simp: that)
  moreover have "k \<notin> physical s \<Longrightarrow> owners_of s k = {}" by (simp add: physical_def)
  ultimately show "snapshot_refcount snap k = card (owners_of s k)"
    by (auto simp: snapshot_refcount_def index_row_def ix finite_physical [OF assms(1)])
  have "CWallet \<notin> set (cumulative_consumers tier)" by (cases tier) simp_all
  then have "set (evictable_owners snap tier) = {w \<in> pr_owner ` set (es_owners snap). consumer w \<in> set (cumulative_consumers tier)}"
    by (auto simp: evictable_owners_def)
  then show ev: "set (evictable_owners snap tier) = opens s tier"
    unfolding own opens_def by (auto simp: map_of_eq_None_iff)
  show "set (build_sorted_candidates snap (evictable_owners snap tier)) = opens s tier"
  proof -
    have "set (build_sorted_candidates snap (evictable_owners snap tier)) = pr_owner ` set (es_owners snap) \<inter> opens s tier"
      unfolding build_sorted_candidates_def ev by auto
    also have "\<dots> = opens s tier"
      unfolding own opens_def by (auto simp: map_of_eq_None_iff)
    finally show ?thesis .
  qed
qed

lemma freeable_exact:
  assumes "own_inv s" "exact_snapshot s lru snap"
  shows "freeable_by_tier snap incoming tier = sorted_list_of_set (physical s - (kept s (opens s tier) \<union> set incoming))"
proof -
  have "set (freeable_by_tier snap incoming tier) = freed_by (es_pubkey_index snap) incoming (opens s tier)"
    unfolding freeable_by_tier_def set_to_btreeset freed_by_def
    by (auto simp: exact_lookups(3) [OF assms])
  then show ?thesis
    unfolding exact_rows(2) [OF assms] by (intro listing) (simp_all add: freeable_by_tier_def sorted_to_btreeset)
qed

lemma card_kept:
  assumes "finite (P :: 'a set)" "finite I" "K \<subseteq> P"
  shows "card (P \<union> I) = card (K \<union> I) + card (P - (K \<union> I))"
proof -
  have "P \<union> I = (K \<union> I) \<union> (P - (K \<union> I))" using assms(3) by blast
  then show ?thesis using assms by (metis Diff_disjoint card_Un_disjoint finite_Diff finite_Un finite_subset)
qed

lemma enough_iff:
  assumes "own_inv s" "exact_snapshot s lru snap" "cap < card (physical s \<union> set incoming)"
  shows "card (physical s \<union> set incoming) - cap \<le> length (freeable_by_tier snap incoming tier)
    \<longleftrightarrow> card (kept s (opens s tier) \<union> set incoming) \<le> cap"
  using card_kept [OF finite_physical [OF assms(1)] _ kept_physical, of "set incoming" "opens s tier"] assms(3)
  by (simp add: freeable_exact [OF assms(1,2)]) linarith

lemma open_tier_least:
  assumes "open_tier snap incoming required (allowed_for_incoming c) = Some tier"
  shows "tier \<in> set (allowed_for_incoming c)" "required \<le> length (freeable_by_tier snap incoming tier)"
    and "set (cumulative_consumers t) \<subset> set (cumulative_consumers tier) \<Longrightarrow>
      \<not> required \<le> length (freeable_by_tier snap incoming t)"
proof -
  show "tier \<in> set (allowed_for_incoming c)" "required \<le> length (freeable_by_tier snap incoming tier)"
    using assms by (auto simp: open_tier_def find_Some_iff)
  show "set (cumulative_consumers t) \<subset> set (cumulative_consumers tier) \<Longrightarrow>
      \<not> required \<le> length (freeable_by_tier snap incoming t)"
    using assms by (cases c; cases t; cases tier) (auto simp: open_tier_def split: if_splits)
qed

lemma execute_exact:
  assumes "own_inv s" "exact_snapshot s lru snap" "required \<le> length (freeable_by_tier snap incoming tier)"
  obtains victims where "execute_victim_selection snap incoming required tier
      = Some (Some (victims, sorted_list_of_set (physical s - (kept s (set victims) \<union> set incoming))))"
    "distinct victims" "set victims \<subseteq> opens s tier"
    "required \<le> card (physical s - (kept s (set victims) \<union> set incoming))"
proof -
  let ?rows = "es_pubkey_index snap" and ?allowed = "evictable_owners snap tier"
  let ?cands = "build_sorted_candidates snap ?allowed"
  note look = exact_lookups [OF assms(1,2)] and rows = exact_rows [OF assms(1,2)]
  have "set ?cands = set ?allowed" by (simp add: look)
  moreover have "required \<le> card (freed_by ?rows incoming (set ?allowed))"
    using assms(3) by (simp add: rows(2) look freeable_exact [OF assms(1,2)])
  ultimately obtain ws where ws: "select_loop snap ?cands required (selector_workspace_new snap incoming ?allowed) = Some (Some ws)"
      "selects ?rows incoming ?allowed ws" "required \<le> length (ws_freed_pubkeys ws)"
    using select_loop_returns [OF selects_new [OF rows(1) refl], of ?cands ?allowed required incoming snap] by blast
  note s = selectsD [OF ws(2)]
  have freed: "ws_freed_pubkeys ws = sorted_list_of_set (physical s - (kept s (set (ws_victims ws)) \<union> set incoming))"
    using s(7,8) by (intro listing) (simp_all add: rows(2) s(10))
  show thesis
    using that [of "ws_victims ws"] ws(1,3) s(9-11) look(3) freed
    by (simp add: execute_victim_selection_def Let_def)
qed

lemma usize_checked_simps:
  "a + b < 2 ^ 64 \<Longrightarrow> usize_checked_add a b = Some (a + b)"
  "b \<le> a \<Longrightarrow> usize_checked_sub a b = Some (a - b)"
  by (simp_all add: usize_checked_add_def usize_checked_sub_def)

lemma added_count:
  assumes "own_inv s" "exact_snapshot s lru snap"
  shows "es_physical_len snap + length (filter (\<lambda>k. snapshot_refcount snap k = 0) (to_btreeset ks))
    = card (physical s \<union> set ks)"
proof -
  have "length (filter (\<lambda>k. snapshot_refcount snap k = 0) (to_btreeset ks)) = card (set ks - physical s)"
  proof -
    have "set (filter (\<lambda>k. snapshot_refcount snap k = 0) (to_btreeset ks)) = set ks - physical s"
      by (auto simp: exact_lookups(2) [OF assms] finite_owners_of physical_def)
    moreover have "distinct (filter (\<lambda>k. snapshot_refcount snap k = 0) (to_btreeset ks))" by simp
    ultimately show ?thesis by (metis distinct_card)
  qed
  then show ?thesis
    using assms finite_physical [OF assms(1)]
    by (simp add: exact_snapshot_def card_Un_disjoint [symmetric] Un_Diff_cancel)
qed

text \<open>What a plan has to say about the store, for an admission of \<open>ks\<close> under \<open>cap\<close> by the consumer \<open>c\<close>.\<close>

definition plan_for ::
    "explicit_ownership \<Rightarrow> explicit_consumer \<Rightarrow> pubkey set \<Rightarrow> usize \<Rightarrow> victim_selection_plan \<Rightarrow> bool" where
  "plan_for s c ks cap p \<longleftrightarrow>
     distinct (vp_victims p) \<and> set (vp_victims p) \<subseteq> opens s (vp_opened_through p)
     \<and> vp_opened_through p \<in> set (allowed_for_incoming c)
     \<and> vp_physical_freed p = sorted_list_of_set (physical s - (kept s (set (vp_victims p)) \<union> ks))
     \<and> vp_incoming_physical_added p = card (ks - physical s)
     \<and> vp_projected_final_len p = card (kept s (set (vp_victims p)) \<union> ks)
     \<and> vp_projected_final_len p \<le> cap
     \<and> (\<forall>t. set (cumulative_consumers t) \<subset> set (cumulative_consumers (vp_opened_through p))
          \<longrightarrow> cap < card (kept s (opens s t) \<union> ks))"

lemma added_length:
  assumes "own_inv s" "exact_snapshot s lru snap"
  shows "length (filter (\<lambda>k. snapshot_refcount snap k = 0) (to_btreeset ks)) = card (set ks - physical s)"
proof -
  have "card (physical s \<union> set ks) = card (physical s) + card (set ks - physical s)"
    using finite_physical [OF assms(1)] by (subst card_Un_disjoint [symmetric]) (auto simp: Un_Diff_cancel)
  with added_count [OF assms, of ks] assms(2) show ?thesis by (simp add: exact_snapshot_def)
qed

lemma run_selection_plans:
  assumes "own_inv s" "exact_snapshot s lru snap" "card (physical s \<union> set ks) < 2 ^ 64"
    and over: "cap < card (physical s \<union> set ks)"
    and rq: "rq = \<lparr> rq_incoming_owner = w, rq_incoming_pubkeys = ks, rq_cap = cap \<rparr>"
    and tier: "open_tier snap (to_btreeset ks) (card (physical s \<union> set ks) - cap) (allowed_for_incoming (consumer w)) = Some tier"
  shows "\<exists>p. run_victim_selection snap rq (card (set ks - physical s)) (card (physical s \<union> set ks) - cap) tier
      = Some (VPlanned p) \<and> plan_for s (consumer w) (set ks) cap p"
proof -
  let ?ks = "to_btreeset ks" and ?req = "card (physical s \<union> set ks) - cap"
  note least = open_tier_least [OF tier]
  have over': "cap < card (physical s \<union> set ?ks)" using over by simp
  obtain V where V: "execute_victim_selection snap ?ks ?req tier
      = Some (Some (V, sorted_list_of_set (physical s - (kept s (set V) \<union> set ks))))"
    "distinct V" "set V \<subseteq> opens s tier" "?req \<le> card (physical s - (kept s (set V) \<union> set ks))"
    using execute_exact [OF assms(1,2) least(2)] by auto
  have cards: "card (physical s \<union> set ks) = card (kept s (set V) \<union> set ks) + card (physical s - (kept s (set V) \<union> set ks))"
    by (rule card_kept [OF finite_physical [OF assms(1)] _ kept_physical]) simp
  have len: "es_physical_len snap + card (set ks - physical s) = card (physical s \<union> set ks)"
    using added_count [OF assms(1,2), of ks] by (simp add: added_length [OF assms(1,2)])
  have "run_victim_selection snap rq (card (set ks - physical s)) ?req tier = Some (VPlanned
      \<lparr> vp_victims = V, vp_physical_freed = sorted_list_of_set (physical s - (kept s (set V) \<union> set ks)),
        vp_incoming_physical_added = card (set ks - physical s),
        vp_projected_final_len = card (kept s (set V) \<union> set ks), vp_opened_through = tier \<rparr>)"
    using V(1) assms(3) cards by (simp add: run_victim_selection_def rq usize_checked_simps len)
  moreover have "cap < card (kept s (opens s t) \<union> set ks)"
    if "set (cumulative_consumers t) \<subset> set (cumulative_consumers tier)" for t
    using least(3) [OF that] enough_iff [OF assms(1,2) over', of t] by simp
  ultimately show ?thesis
    using V(2-4) least(1) cards over by (auto simp: plan_for_def)
qed

text \<open>
  Victim selection returns and never reports an internal violation. A request is refused as
  invalid exactly when it has no keys or names an owner that is present; it needs no eviction exactly
  when all keys fit the cap; it is refused as protected exactly when even the widest tier open to its
  consumer leaves too many keys. Otherwise the plan evicts only owners of the tier it names, once each,
  no cheaper tier would do, and it states the freed keys and the final count exactly, within the cap.
\<close>

lemma eviction_plan_exact:
  assumes "own_inv s" "exact_snapshot s lru snap" "card (physical s \<union> set ks) < 2 ^ 64"
  shows "\<exists>r. select_eviction_victims snap \<lparr> rq_incoming_owner = w, rq_incoming_pubkeys = ks, rq_cap = cap \<rparr> = Some r
    \<and> (if ks = [] \<or> map_of (eo_groups s) w \<noteq> None then r = VRejectedInvalidInput
       else if card (physical s \<union> set ks) \<le> cap
       then r = VNoEvictionNeeded (card (set ks - physical s)) (card (physical s \<union> set ks))
       else if \<forall>t \<in> set (allowed_for_incoming (consumer w)). cap < card (kept s (opens s t) \<union> set ks)
       then r = VRejectedProtected (card (set ks - physical s)) (card (physical s \<union> set ks) - cap)
       else \<exists>p. r = VPlanned p \<and> plan_for s (consumer w) (set ks) cap p)"
proof -
  let ?ks = "to_btreeset ks" and ?total = "card (physical s \<union> set ks)"
  let ?rq = "\<lparr> rq_incoming_owner = w, rq_incoming_pubkeys = ks, rq_cap = cap \<rparr>"
  note look = exact_lookups [OF assms(1,2)]
  have len: "es_physical_len snap + card (set ks - physical s) = ?total"
    using added_count [OF assms(1,2), of ks] by (simp add: added_length [OF assms(1,2)])
  show ?thesis
  proof (cases "ks = [] \<or> map_of (eo_groups s) w \<noteq> None")
    case True
    then have "analyze_tier_feasibility snap ?rq = FRejectedInvalidInput"
      using look(1) [of w] by (auto simp: analyze_tier_feasibility_def Let_def)
    with True show ?thesis by (simp add: select_eviction_victims_def)
  next
    case valid: False
    have analysis: "analyze_tier_feasibility snap ?rq =
        (if ?total \<le> cap then FNoEvictionNeeded (card (set ks - physical s)) ?total
         else case open_tier snap ?ks (?total - cap) (allowed_for_incoming (consumer w)) of
           Some tier \<Rightarrow> FFeasible (card (set ks - physical s)) (?total - cap) tier (freeable_by_tier snap ?ks tier)
         | None \<Rightarrow> FRejectedProtected (card (set ks - physical s)) (?total - cap)
                     (freeable_by_tier snap ?ks (last (allowed_for_incoming (consumer w)))))"
      using valid look(1) [of w] assms(3)
      by (simp add: analyze_tier_feasibility_def Let_def added_length [OF assms(1,2)] usize_checked_simps len)
    have enough: "(?total - cap \<le> length (freeable_by_tier snap ?ks t)) = (card (kept s (opens s t) \<union> set ks) \<le> cap)"
      if "cap < ?total" for t using enough_iff [OF assms(1,2), of cap ?ks t] that by simp
    show ?thesis
    proof (cases "open_tier snap ?ks (?total - cap) (allowed_for_incoming (consumer w))")
      case None
      then have "\<forall>t \<in> set (allowed_for_incoming (consumer w)). cap < card (kept s (opens s t) \<union> set ks)"
        if "cap < ?total" using enough [OF that] by (auto simp: open_tier_def find_None_iff not_le)
      then show ?thesis using None valid analysis by (auto simp: select_eviction_victims_def)
    next
      case (Some tier)
      note least = open_tier_least [OF Some]
      have "\<exists>t \<in> set (allowed_for_incoming (consumer w)). card (kept s (opens s t) \<union> set ks) \<le> cap" if "cap < ?total"
        using least(1,2) enough [OF that] by auto
      then show ?thesis
        using valid analysis Some run_selection_plans [OF assms _ refl Some]
        by (auto simp: select_eviction_victims_def not_le not_less split: if_splits)
    qed
  qed
qed

text \<open>The same for lowering the cap: refused as protected exactly when the wallet alone exceeds it.\<close>

definition shrink_plan_for :: "explicit_ownership \<Rightarrow> usize \<Rightarrow> cap_shrink_selection_plan \<Rightarrow> bool" where
  "shrink_plan_for s cap p \<longleftrightarrow>
     distinct (cp_victims p) \<and> set (cp_victims p) \<subseteq> opens s (cp_opened_through p)
     \<and> cp_physical_freed p = sorted_list_of_set (physical s - kept s (set (cp_victims p)))
     \<and> cp_projected_final_len p = card (kept s (set (cp_victims p)))
     \<and> cp_projected_final_len p \<le> cap
     \<and> (\<forall>t. set (cumulative_consumers t) \<subset> set (cumulative_consumers (cp_opened_through p))
          \<longrightarrow> cap < card (kept s (opens s t)))"

lemma shrink_tiers: "cap_shrink_allowed_tiers = allowed_for_incoming CWallet"
  by (simp add: cap_shrink_allowed_tiers_def)

lemma cap_shrink_plan_correct:
  assumes "own_inv s" "exact_snapshot s lru snap"
  shows "\<exists>r. select_cap_shrink_victims snap cap = Some r
    \<and> (if card (physical s) \<le> cap then r = CNoShrinkNeeded
       else if cap < card (kept s (opens s TierMomentumPosition)) then r = CRejectedProtected (card (physical s) - cap)
       else \<exists>p. r = CPlanned p \<and> shrink_plan_for s cap p)"
proof (cases "card (physical s) \<le> cap")
  case True
  then show ?thesis
    using assms(2) by (simp add: select_cap_shrink_victims_def analyze_cap_shrink_feasibility_def exact_snapshot_def)
next
  case False
  let ?req = "card (physical s) - cap"
  have over: "cap < card (physical s \<union> set [])" using False by simp
  have enough: "(?req \<le> length (freeable_by_tier snap [] t)) = (card (kept s (opens s t)) \<le> cap)" for t
    using enough_iff [OF assms over, of t] by simp
  have mono: "kept s (opens s TierMomentumPosition) \<subseteq> kept s (opens s t)" for t
    by (cases t) (auto simp: kept_def opens_def)
  have fin: "finite (kept s V)" for V using finite_subset [OF kept_physical finite_physical [OF assms(1)]] .
  have analysis: "analyze_cap_shrink_feasibility snap cap =
      (case open_tier snap [] ?req (allowed_for_incoming CWallet) of
         Some tier \<Rightarrow> SFeasible ?req tier | None \<Rightarrow> SRejectedProtected ?req)"
    using False assms(2)
    by (simp add: analyze_cap_shrink_feasibility_def exact_snapshot_def usize_checked_simps shrink_tiers)
  show ?thesis
  proof (cases "open_tier snap [] ?req (allowed_for_incoming CWallet)")
    case None
    then show ?thesis
      using False analysis enough [of TierMomentumPosition]
      by (auto simp: select_cap_shrink_victims_def open_tier_def split: if_splits)
  next
    case (Some tier)
    note least = open_tier_least [OF Some]
    have small: "card (kept s (opens s TierMomentumPosition)) \<le> cap"
      using card_mono [OF fin mono, of tier] least(2) enough [of tier] by simp
    obtain V where V: "execute_victim_selection snap [] ?req tier
        = Some (Some (V, sorted_list_of_set (physical s - kept s (set V))))"
      "distinct V" "set V \<subseteq> opens s tier" "?req \<le> card (physical s - kept s (set V))"
      using execute_exact [OF assms least(2)] by auto
    have cards: "card (physical s) = card (kept s (set V)) + card (physical s - kept s (set V))"
      using card_kept [OF finite_physical [OF assms(1)] _ kept_physical, of "{}" "set V"] by simp
    have "select_cap_shrink_victims snap cap = Some (CPlanned \<lparr> cp_victims = V,
        cp_physical_freed = sorted_list_of_set (physical s - kept s (set V)),
        cp_projected_final_len = card (kept s (set V)), cp_opened_through = tier \<rparr>)"
      using analysis Some V(1) cards assms(2)
      by (simp add: select_cap_shrink_victims_def exact_snapshot_def usize_checked_simps)
    moreover have "cap < card (kept s (opens s t))"
      if "set (cumulative_consumers t) \<subset> set (cumulative_consumers tier)" for t
      using least(3) [OF that] enough [of t] by simp
    ultimately show ?thesis using False small V cards by (auto simp: shrink_plan_for_def)
  qed
qed

end
