(* ===== verification/Admission_Safety.thy ===== *)
theory Admission_Safety
  imports Explicit_Admission Eviction_Properties
begin

text \<open>
  The stamps of the admission layer: assigning a stamp makes the owner the most recent one and keeps
  the order of the others, also when the counter reaches its end and all stamps are renumbered. The
  invariant of the admission state, and what each plan says about the store.
\<close>

section \<open>Stamps\<close>

definition lru_ok :: "(explicit_owner, u64) btreemap \<Rightarrow> u64 \<Rightarrow> bool" where
  "lru_ok lru next_stamp \<longleftrightarrow> bt_wf lru \<and> distinct (map snd lru) \<and> (\<forall>t \<in> snd ` set lru. t < next_stamp)"

lemma lru_okD:
  assumes "lru_ok lru n"
  shows "bt_wf lru" "distinct (map fst lru)" "map_of lru w = Some t \<Longrightarrow> t < n"
    and "map_of lru v = Some t \<Longrightarrow> map_of lru w = Some t \<Longrightarrow> v = w"
proof -
  show "bt_wf lru" using assms by (simp add: lru_ok_def)
  then show "distinct (map fst lru)" using bt_wf_hm_wf by (auto simp: hm_wf_def)
  show "map_of lru w = Some t \<Longrightarrow> t < n"
    using assms by (force simp: lru_ok_def dest: map_of_SomeD)
  show "v = w" if "map_of lru v = Some t" "map_of lru w = Some t"
  proof -
    have "(v, t) \<in> set lru" "(w, t) \<in> set lru" using that by (auto dest: map_of_SomeD)
    moreover have "inj_on snd (set lru)" using assms by (auto simp: lru_ok_def distinct_map)
    ultimately have "(v, t) = (w, t)" by (intro inj_onD [of snd "set lru"]) simp_all
    then show ?thesis by simp
  qed
qed

lemma lru_okI:
  assumes "bt_wf lru" "\<And>w t. map_of lru w = Some t \<Longrightarrow> t < n"
    and "\<And>v w t. map_of lru v = Some t \<Longrightarrow> map_of lru w = Some t \<Longrightarrow> v = w"
  shows "lru_ok lru n"
proof -
  have d: "distinct (map fst lru)" using bt_wf_hm_wf [OF assms(1)] by (simp add: hm_wf_def)
  then have get: "p \<in> set lru \<Longrightarrow> map_of lru (fst p) = Some (snd p)" for p by simp
  have "inj_on snd (set lru)"
    using get assms(3) by (intro inj_onI) (metis prod_eqI)
  then have "distinct (map snd lru)" using d by (simp add: distinct_map)
  then show ?thesis using assms(1,2) get by (auto simp: lru_ok_def)
qed

text \<open>\<open>lru'\<close> orders the owners other than \<open>w\<close> as \<open>lru\<close> does.\<close>

definition same_order ::
    "explicit_owner \<Rightarrow> (explicit_owner, u64) btreemap \<Rightarrow> (explicit_owner, u64) btreemap \<Rightarrow> bool" where
  "same_order w lru lru' \<longleftrightarrow>
     (\<forall>u v. u \<noteq> w \<longrightarrow> v \<noteq> w \<longrightarrow> map_of lru u \<noteq> None \<longrightarrow> map_of lru v \<noteq> None \<longrightarrow>
        (the (map_of lru' u) < the (map_of lru' v)) = (the (map_of lru u) < the (map_of lru v)))"

lemma renormalize_from_ok:
  assumes "distinct ws" "set ws \<inter> dom (map_of m) = {}" "bt_wf m" "idx + length ws < 2 ^ 64"
  shows "\<exists>m'. renormalize_from idx ws m = Inr m' \<and> bt_wf m'
    \<and> map_of m' = map_of m ++ map_of (zip ws (map (\<lambda>i. of_nat (i + 1)) [idx ..< idx + length ws]))"
  using assms
proof (induction ws arbitrary: idx m)
  case (Cons w ws)
  have stamp: "Option.bind (u64_try_from idx) (\<lambda>rank. u64_checked_add rank 1) = Some (of_nat (idx + 1))"
    using Cons.prems(4) by (simp add: u64_try_from_def u64_checked_add_def unat_of_nat_u64 add.commute)
  have disj: "set ws \<inter> dom (map_of (bt_put w (of_nat (idx + 1)) m)) = {}"
    using Cons.prems(1,2) by (auto simp: map_of_bt_put)
  obtain m' where m': "renormalize_from (idx + 1) ws (bt_put w (of_nat (idx + 1)) m) = Inr m'" "bt_wf m'"
    "map_of m' = map_of (bt_put w (of_nat (idx + 1)) m)
       ++ map_of (zip ws (map (\<lambda>i. of_nat (i + 1)) [idx + 1 ..< idx + 1 + length ws]))"
    using Cons.IH [OF _ disj, of "idx + 1"] Cons.prems(1,3,4) by (auto simp: bt_wf_put)
  have upt: "[idx ..< idx + length (w # ws)] = idx # [idx + 1 ..< idx + 1 + length ws]"
    using upt_conv_Cons [of idx "idx + length (w # ws)"] by (simp del: upt_Suc)
  have "w \<notin> dom (map_of (zip ws ls))" for ls :: "u64 list"
    using Cons.prems(1) by (auto simp: dom_map_of_conv_image_fst dest: set_zip_leftD)
  then have "map_of m' = map_of m ++ map_of (zip (w # ws) (map (\<lambda>i. of_nat (i + 1)) [idx ..< idx + length (w # ws)]))"
    unfolding m'(3) upt list.map(2) zip_Cons_Cons map_of.simps map_of_bt_put fst_conv snd_conv
      map_add_upd by (rule map_add_upd_left)
  with m'(1,2) stamp show ?case by simp
qed simp

lemma renormalize_ok:
  assumes "lru_ok lru n" "length lru + 1 < 2 ^ 64"
  shows "\<exists>m. renormalize_stamps_fallible lru = Inr m \<and> lru_ok m (of_nat (length lru + 1))
    \<and> dom (map_of m) = dom (map_of lru) \<and> length m = length lru
    \<and> (\<forall>u v. map_of lru u \<noteq> None \<longrightarrow> map_of lru v \<noteq> None \<longrightarrow>
         (the (map_of m u) < the (map_of m v)) = (the (map_of lru u) < the (map_of lru v)))"
proof -
  define es where "es = sort_key (\<lambda>(w, stamp). (stamp :: u64, w :: explicit_owner)) lru"
  define ws where "ws = map fst es"
  let ?n = "length lru"
  have es: "set es = set lru" "length es = ?n" "distinct (map fst es)"
    using lru_okD(2) [OF assms(1)] by (simp_all add: es_def distinct_map)
  have len: "length ws = ?n" "distinct ws" "set ws = dom (map_of lru)"
    using es by (simp_all add: ws_def dom_map_of_conv_image_fst)
  have "\<exists>m. renormalize_from 0 ws [] = Inr m \<and> bt_wf m
      \<and> map_of m = map_of (zip ws (map (\<lambda>i. of_nat (i + 1)) [0 ..< ?n]))"
    using renormalize_from_ok [of ws "[]" 0] len assms(2) by (simp add: bt_wf_def)
  then obtain m where m: "renormalize_from 0 ws [] = Inr m" "bt_wf m"
      "map_of m = map_of (zip ws (map (\<lambda>i. of_nat (i + 1)) [0 ..< ?n]))" by blast
  have at: "map_of m (ws ! i) = Some (of_nat (i + 1))" if "i < ?n" for i
    using map_of_zip_nth [of ws "map (\<lambda>i. of_nat (i + 1)) [0 ..< ?n]" i] len that by (simp add: m(3))
  have dom: "dom (map_of m) = dom (map_of lru)" using len by (simp add: m(3))
  have old: "map_of lru (ws ! i) = Some (snd (es ! i))" if "i < ?n" for i
    using that es lru_okD(2) [OF assms(1)] nth_mem [of i es] by (auto simp: ws_def intro: map_of_is_SomeI)
  have small: "unat (of_nat (i + 1) :: u64) = i + 1" if "i < ?n" for i
    using that assms(2) by (intro unat_of_nat_u64) simp
  have nth: "\<exists>i < ?n. u = ws ! i" if "map_of lru u \<noteq> None" for u
    using that len by (metis domI domIff in_set_conv_nth)
  have strict: "snd (es ! i) < snd (es ! j)" if "i < j" "j < ?n" for i j
  proof -
    have "sorted (map (\<lambda>(w, stamp). (stamp, w)) es)" by (simp add: es_def)
    then have "(\<lambda>(w, stamp). (stamp, w)) (es ! i) \<le> (\<lambda>(w, stamp). (stamp, w)) (es ! j)"
      using that es(2) sorted_nth_mono [of "map (\<lambda>(w, stamp). (stamp, w)) es" i j] by simp
    then have "snd (es ! i) \<le> snd (es ! j)" by (auto simp: split_beta)
    moreover have "snd (es ! i) \<noteq> snd (es ! j)"
      using that lru_okD(4) [OF assms(1), of "ws ! i" _ "ws ! j"] old len by (auto simp: nth_eq_iff_index_eq)
    ultimately show ?thesis by simp
  qed
  have order: "(of_nat (i + 1) < (of_nat (j + 1) :: u64)) = (snd (es ! i) < snd (es ! j))" if "i < ?n" "j < ?n" for i j
  proof (cases "i < j")
    case True
    then show ?thesis using small that strict by (simp add: word_less_nat_alt)
  next
    case False
    then have "\<not> snd (es ! i) < snd (es ! j)" using strict [of j i] that by (cases "i = j") auto
    then show ?thesis using False small that by (simp add: word_less_nat_alt)
  qed
  have "lru_ok m (of_nat (?n + 1))"
  proof (rule lru_okI [OF m(2)])
    fix w t assume "map_of m w = Some t"
    then obtain i where i: "i < ?n" "w = ws ! i" using nth dom by blast
    moreover have "unat (of_nat (?n + 1) :: u64) = ?n + 1" using assms(2) by (intro unat_of_nat_u64) simp
    ultimately show "t < of_nat (?n + 1)"
      using at \<open>map_of m w = Some t\<close> small by (auto simp: word_less_nat_alt)
  next
    fix v w t assume vw: "map_of m v = Some t" "map_of m w = Some t"
    then obtain i j where ij: "i < ?n" "v = ws ! i" "j < ?n" "w = ws ! j" using nth dom by blast
    then have "(of_nat (i + 1) :: u64) = of_nat (j + 1)" using vw at by simp
    then have "i + 1 = j + 1" using small ij by metis
    with ij show "v = w" by simp
  qed
  moreover have "length m = ?n"
    using bt_wf_hm_wf [OF m(2)] dom len(1,2,3) distinct_card [of "map fst m"] distinct_card [of ws]
    by (simp add: hm_wf_def dom_map_of_conv_image_fst)
  moreover have "(the (map_of m u) < the (map_of m v)) = (the (map_of lru u) < the (map_of lru v))"
    if "map_of lru u \<noteq> None" "map_of lru v \<noteq> None" for u v
    using nth [OF that(1)] nth [OF that(2)] at old order by auto
  moreover have "renormalize_stamps_fallible lru = Inr m"
    using m(1) by (cases "lru = []") (auto simp: renormalize_stamps_fallible_def ws_def es_def)
  ultimately show ?thesis using dom by blast
qed

text \<open>
  Assigning a stamp succeeds, makes \<open>w\<close> the most recent owner, keeps the order of the others, and keeps
  their stamps unless the counter is at its end.
\<close>

lemma plan_stamp_assign_ok:
  assumes "lru_ok lru n" "length lru + 2 < 2 ^ 64"
  shows "\<exists>plan t. plan_stamp_assign lru n w = Inr plan
    \<and> lru_ok (sp_owner_lru plan) (sp_next_touch_stamp plan)
    \<and> dom (map_of (sp_owner_lru plan)) = insert w (dom (map_of lru))
    \<and> map_of (sp_owner_lru plan) w = Some t \<and> unat (sp_next_touch_stamp plan) = unat t + 1
    \<and> (\<forall>v s. v \<noteq> w \<longrightarrow> map_of (sp_owner_lru plan) v = Some s \<longrightarrow> s < t)
    \<and> same_order w lru (sp_owner_lru plan)
    \<and> (n \<noteq> u64_max \<longrightarrow> (\<forall>v. v \<noteq> w \<longrightarrow> map_of (sp_owner_lru plan) v = map_of lru v))"
proof -
  have "\<exists>m. prepare_stamp_base lru n = Inr (m, t) \<and> lru_ok m t \<and> dom (map_of m) = dom (map_of lru)
      \<and> (\<forall>u v. map_of lru u \<noteq> None \<longrightarrow> map_of lru v \<noteq> None \<longrightarrow>
         (the (map_of m u) < the (map_of m v)) = (the (map_of lru u) < the (map_of lru v)))
      \<and> unat t + 1 < 2 ^ 64 \<and> (n \<noteq> u64_max \<longrightarrow> m = lru)"
    if t: "t = (if n = u64_max then of_nat (length lru + 1) else n)" for t
  proof (cases "n = u64_max")
    case True
    obtain m where m: "renormalize_stamps_fallible lru = Inr m" "lru_ok m (of_nat (length lru + 1))"
      "dom (map_of m) = dom (map_of lru)" "length m = length lru"
      "\<And>u v. map_of lru u \<noteq> None \<Longrightarrow> map_of lru v \<noteq> None \<Longrightarrow>
         (the (map_of m u) < the (map_of m v)) = (the (map_of lru u) < the (map_of lru v))"
      using renormalize_ok [OF assms(1)] assms(2) by fastforce
    have "unat (of_nat (length lru + 1) :: u64) = length lru + 1"
      using assms(2) by (intro unat_of_nat_u64) simp
    with m assms(2) True t show ?thesis
      by (simp add: prepare_stamp_base_def u64_try_from_def u64_checked_add_def unat_of_nat_u64 add.commute)
  next
    case False
    then have "unat n + 1 < 2 ^ 64"
      using unat_lt_u64 [of n] by (metis Suc_eq_plus1 Suc_lessI diff_Suc_1 unat_u64_max word_unat_eq_iff)
    with False t assms(1) show ?thesis by (simp add: prepare_stamp_base_def)
  qed
  then obtain m t where base: "prepare_stamp_base lru n = Inr (m, t)" "lru_ok m t" "dom (map_of m) = dom (map_of lru)"
    "\<And>u v. map_of lru u \<noteq> None \<Longrightarrow> map_of lru v \<noteq> None \<Longrightarrow>
       (the (map_of m u) < the (map_of m v)) = (the (map_of lru u) < the (map_of lru v))"
    "unat t + 1 < 2 ^ 64" "n \<noteq> u64_max \<longrightarrow> m = lru"
    by blast
  let ?plan = "\<lparr> sp_owner_lru = bt_put w t m, sp_next_touch_stamp = t + 1 \<rparr>"
  have next_stamp: "unat (t + 1) = unat t + 1" using base(5) by (subst unat_add_small) simp_all
  have "plan_stamp_assign lru n w = Inr ?plan"
    using base(1,5) by (simp add: plan_stamp_assign_def u64_checked_add_def)
  moreover have "lru_ok (bt_put w t m) (t + 1)"
  proof (rule lru_okI)
    show "bt_wf (bt_put w t m)" using lru_okD(1) [OF base(2)] by (rule bt_wf_put)
    show "s < t + 1" if "map_of (bt_put w t m) v = Some s" for v s
      using that lru_okD(3) [OF base(2), of v s] next_stamp
      by (auto simp: map_of_bt_put word_less_nat_alt split: if_splits)
    show "u = v" if "map_of (bt_put w t m) u = Some s" "map_of (bt_put w t m) v = Some s" for u v s
      using that lru_okD(3) [OF base(2), of u s] lru_okD(3) [OF base(2), of v s] lru_okD(4) [OF base(2), of u s v]
      by (auto simp: map_of_bt_put split: if_splits)
  qed
  moreover have "\<forall>v s. v \<noteq> w \<longrightarrow> map_of (bt_put w t m) v = Some s \<longrightarrow> s < t"
    using lru_okD(3) [OF base(2)] by (auto simp: map_of_bt_put)
  moreover have "same_order w lru (bt_put w t m)"
    using base(4) by (auto simp: same_order_def map_of_bt_put)
  ultimately show ?thesis
    using next_stamp base(3,6) by (intro exI [of _ ?plan] exI [of _ t]) (auto simp: map_of_bt_put)
qed

section \<open>The invariant\<close>

definition adm_inv :: "fixed_cap_admission \<Rightarrow> bool" where
  "adm_inv a \<longleftrightarrow> own_inv (ad_ownership a)
     \<and> ad_physical_len a = card (physical (ad_ownership a))
     \<and> ad_physical_len a \<le> ad_cap a \<and> ad_cap a < 2 ^ 64
     \<and> lru_ok (ad_owner_lru a) (ad_next_touch_stamp a)
     \<and> dom (map_of (ad_owner_lru a)) = dom (map_of (eo_groups (ad_ownership a)))"

lemma adm_invD:
  assumes "adm_inv a"
  shows "own_inv (ad_ownership a)" "ad_physical_len a = card (physical (ad_ownership a))"
    "ad_physical_len a \<le> ad_cap a" "ad_cap a < 2 ^ 64" "lru_ok (ad_owner_lru a) (ad_next_touch_stamp a)"
    "dom (map_of (ad_owner_lru a)) = dom (map_of (eo_groups (ad_ownership a)))"
  using assms by (auto simp: adm_inv_def)

lemma adm_inv_new: "cap < 2 ^ 64 \<Longrightarrow> adm_inv (admission_new cap)"
  using own_inv_new
  by (simp add: adm_inv_def admission_new_def lru_ok_def bt_wf_def ownership_new_def physical_def owners_of_def)

text \<open>
  The number of owners must leave room for one more stamp; a store of \<open>2 ^ 64\<close> groups does not fit in
  memory.
\<close>

definition roomy :: "fixed_cap_admission \<Rightarrow> bool" where
  "roomy a \<longleftrightarrow> length (ad_owner_lru a) + 2 < 2 ^ 64"

section \<open>Store updates seen through the groups\<close>

lemma normalize_idem [simp]: "normalize_pubkeys (normalize_pubkeys ks) = normalize_pubkeys ks"
  using to_btreeset_id [OF sorted_normalize [of ks]] by (simp add: normalize_pubkeys_def to_btreeset_def)

lemma normalize_eq: "normalize_pubkeys ks = to_btreeset ks"
  by (simp add: normalize_pubkeys_def to_btreeset_def)

lemma normalize_sorted: "sorted_wrt (<) ks \<Longrightarrow> normalize_pubkeys ks = ks"
  by (simp add: normalize_eq to_btreeset_id)

lemma upsert_groups:
  "ks \<noteq> [] \<Longrightarrow> map_of (eo_groups (snd (upsert_group w ks s))) = (map_of (eo_groups s))(w \<mapsto> normalize_pubkeys ks)"
  by (cases "map_of (eo_groups s) w")
    (auto simp: upsert_group_def Let_def map_of_bt_put split: prod.splits)

lemma upsert_Inr: "ks \<noteq> [] \<Longrightarrow> \<exists>c. fst (upsert_group w ks s) = Inr c"
  by (auto simp: upsert_group_def Let_def split: prod.splits option.splits)

lemma remove_groups: "map_of (eo_groups (snd (remove_group w s))) = (map_of (eo_groups s))(w := None)"
  by (auto simp: remove_group_def delete_conv' split: option.splits)

lemma owners_of_groups:
  "map_of (eo_groups s') = (map_of (eo_groups s))(w \<mapsto> g) \<Longrightarrow>
     owners_of s' k = (if k \<in> set g then insert w (owners_of s k) else owners_of s k - {w})"
  by (auto simp: owners_of_def)

lemma owners_of_removed:
  "map_of (eo_groups s') = (map_of (eo_groups s))(w := None) \<Longrightarrow> owners_of s' k = owners_of s k - {w}"
  by (auto simp: owners_of_def)

lemma physical_upsert:
  "ks \<noteq> [] \<Longrightarrow> physical (snd (upsert_group w ks s)) = kept s {w} \<union> set ks"
  by (auto simp: physical_def kept_def owners_of_groups [OF upsert_groups])

lemma physical_removed: "physical (snd (remove_group w s)) = kept s {w}"
  by (auto simp: physical_def kept_def owners_of_removed [OF remove_groups])

lemma kept_absent: "map_of (eo_groups s) w = None \<Longrightarrow> kept s {w} = physical s"
  using own_group_none [of s w] by (fastforce simp: kept_def physical_def)

lemma refcount_zero: "own_inv s \<Longrightarrow> owner_refcount s k = 0 \<longleftrightarrow> k \<notin> physical s"
  by (simp add: owner_refcount_owners finite_owners_of physical_def)

lemma refcount_one:
  assumes "own_inv s" "w \<in> owners_of s k"
  shows "owner_refcount s k = 1 \<longleftrightarrow> k \<notin> kept s {w}"
proof -
  have "card (owners_of s k) = 1 \<longleftrightarrow> owners_of s k \<subseteq> {w}"
  proof
    assume "card (owners_of s k) = 1"
    then obtain x where "owners_of s k = {x}" by (rule card_1_singletonE)
    with assms(2) show "owners_of s k \<subseteq> {w}" by simp
  next
    assume "owners_of s k \<subseteq> {w}"
    with assms(2) have "owners_of s k = {w}" by blast
    then show "card (owners_of s k) = 1" by simp
  qed
  with assms(1) show ?thesis by (simp add: owner_refcount_owners kept_def)
qed

lemma new_keys:
  assumes "own_inv s"
  shows "length (filter (\<lambda>k. owner_refcount s k = 0) (normalize_pubkeys ks)) = card (set ks - physical s)"
    and "filter (\<lambda>k. owner_refcount s k = 0) (normalize_pubkeys ks) = sorted_list_of_set (set ks - physical s)"
proof -
  show eq: "filter (\<lambda>k. owner_refcount s k = 0) (normalize_pubkeys ks) = sorted_list_of_set (set ks - physical s)"
    by (rule listing) (auto simp: refcount_zero [OF assms] sorted_wrt_filter sorted_normalize)
  then show "length (filter (\<lambda>k. owner_refcount s k = 0) (normalize_pubkeys ks)) = card (set ks - physical s)"
    by simp
qed

lemma card_union_new: "finite A \<Longrightarrow> finite B \<Longrightarrow> card (A \<union> B) = card A + card (B - A)"
  by (metis Un_Diff_cancel card_Un_disjoint Diff_disjoint finite_Diff)

end
