(* ===== verification/Admission_Properties.thy ===== *)
theory Admission_Properties
  imports Admission_Safety
begin

text \<open>
  What admission promises: every operation keeps the books exact and the cap respected, plans always
  match their commit, so that no rollback and no internal violation is ever reported, eviction takes
  only what the rank of the new owner allows, and lowering the cap converges whenever the wallet fits.
\<close>

section \<open>Touch and insertion\<close>

lemma touch_group_exact:
  assumes "adm_inv a" "roomy a"
  shows "adm_inv (snd (touch_group w a))
    \<and> ad_ownership (snd (touch_group w a)) = ad_ownership a \<and> ad_cap (snd (touch_group w a)) = ad_cap a
    \<and> fst (touch_group w a) = (if map_of (eo_groups (ad_ownership a)) w = None then TouchNotFound else Touched)"
proof (cases "map_of (eo_groups (ad_ownership a)) w = None")
  case True
  then show ?thesis using assms(1) by (simp add: touch_group_def owner_group_def)
next
  case False
  note i = adm_invD [OF assms(1)]
  obtain plan where plan: "plan_stamp_assign (ad_owner_lru a) (ad_next_touch_stamp a) w = Inr plan"
    "lru_ok (sp_owner_lru plan) (sp_next_touch_stamp plan)"
    "dom (map_of (sp_owner_lru plan)) = insert w (dom (map_of (ad_owner_lru a)))"
    using plan_stamp_assign_ok [OF i(5), of w] assms(2) unfolding roomy_def by blast
  have "w \<in> dom (map_of (ad_owner_lru a))" using False i(6) by blast
  then obtain t where "map_of (ad_owner_lru a) w = Some t" by blast
  with False plan i show ?thesis
    by (auto simp: touch_group_def owner_group_def apply_stamp_plan_def adm_inv_def insert_absorb)
qed

lemma plan_insert_exact:
  assumes "adm_inv a"
  shows "plan_insert_readonly a (normalize_pubkeys ks) =
    (if ad_cap a < card (physical (ad_ownership a) \<union> set ks)
     then InsertRejectCap (card (set ks - physical (ad_ownership a))) (ad_cap a - ad_physical_len a)
     else InsertReady \<lparr> ip_pre_len = ad_physical_len a,
       ip_projected_final_len = card (physical (ad_ownership a) \<union> set ks),
       ip_physical_added = sorted_list_of_set (set ks - physical (ad_ownership a)) \<rparr>)"
proof -
  note i = adm_invD [OF assms]
  have total: "card (physical (ad_ownership a) \<union> set ks) = ad_physical_len a + card (set ks - physical (ad_ownership a))"
    using card_union_new [OF finite_physical [OF i(1)]] i(2) by simp
  show ?thesis
    using i(3,4) by (simp add: plan_insert_readonly_def Let_def new_keys [OF i(1)] total usize_checked_add_def) linarith
qed

text \<open>The state after \<open>w\<close> was given the keys \<open>ks\<close>.\<close>

definition admitted :: "explicit_owner \<Rightarrow> pubkey list \<Rightarrow> fixed_cap_admission \<Rightarrow> fixed_cap_admission \<Rightarrow> bool" where
  "admitted w ks a a' \<longleftrightarrow> adm_inv a' \<and> ad_cap a' = ad_cap a
     \<and> map_of (eo_groups (ad_ownership a')) = (map_of (eo_groups (ad_ownership a)))(w \<mapsto> normalize_pubkeys ks)
     \<and> same_order w (ad_owner_lru a) (ad_owner_lru a')"

lemma admit_new_exact:
  fixes w :: explicit_owner and ks :: "pubkey list"
  assumes "adm_inv a" "roomy a"
  defines "s \<equiv> ad_ownership a" and "r \<equiv> try_admit_new_group w ks a"
  shows "if ks = [] then r = (AdmitRejectedInvalidGroup, a)
     else if map_of (eo_groups s) w \<noteq> None then r = (AdmitRejectedExistingOwner, a)
     else if ad_cap a < card (physical s \<union> set ks)
     then r = (AdmitRejectedCap (card (set ks - physical s)) (ad_cap a - ad_physical_len a), a)
     else fst r = (if set ks \<subseteq> physical s then OwnerAddedNoNewPubkey
                   else Inserted (sorted_list_of_set (set ks - physical s)))
       \<and> admitted w ks a (snd r)"
proof (cases "ks = [] \<or> map_of (eo_groups s) w \<noteq> None \<or> ad_cap a < card (physical s \<union> set ks)")
  case True
  then show ?thesis
    unfolding r_def s_def
    by (auto simp: try_admit_new_group_def Let_def owner_group_def plan_insert_exact [OF assms(1)])
next
  case False
  note i = adm_invD [OF assms(1), folded s_def]
  let ?n = "normalize_pubkeys ks"
  define s' where "s' = snd (upsert_group w ?n s)"
  have ne: "?n \<noteq> []" and none: "map_of (eo_groups s) w = None" using False by auto
  obtain plan where plan: "plan_stamp_assign (ad_owner_lru a) (ad_next_touch_stamp a) w = Inr plan"
    "lru_ok (sp_owner_lru plan) (sp_next_touch_stamp plan)"
    "dom (map_of (sp_owner_lru plan)) = insert w (dom (map_of (ad_owner_lru a)))"
    "same_order w (ad_owner_lru a) (sp_owner_lru plan)"
    using plan_stamp_assign_ok [OF i(5), of w] assms(2) unfolding roomy_def by blast
  have "upsert_group w ?n s = (Inr (NewGroup (sorted_list_of_set (set ks - physical s))), s')"
    using upsert_fresh_group(1,2) [OF i(1) ne none] added_listing [of s ks w] new_keys(2) [OF i(1), of ks]
    by (auto simp: prod_eq_iff refcount_zero [OF i(1)] physical_def s'_def)
  then have r: "r = (if set ks \<subseteq> physical s then OwnerAddedNoNewPubkey
                     else Inserted (sorted_list_of_set (set ks - physical s)),
      apply_stamp_plan plan (a\<lparr> ad_ownership := s', ad_physical_len := card (physical s \<union> set ks) \<rparr>))"
    using False plan(1) finite_physical [OF i(1)] unfolding r_def
    by (simp add: try_admit_new_group_def Let_def owner_group_def s_def [symmetric]
      plan_insert_exact [OF assms(1), folded s_def])
  have "physical s' = physical s \<union> set ks"
    using physical_upsert [OF ne, of w s] kept_absent [OF none] by (simp add: s'_def)
  then have "admitted w ks a (snd r)"
    using False plan i own_inv_upsert [OF i(1), of w ?n] upsert_groups [OF ne, of w s]
    by (auto simp: r admitted_def adm_inv_def apply_stamp_plan_def s_def s'_def)
  with False r show ?thesis by simp
qed

section \<open>Replacement and removal\<close>

lemma merge_groups_exact:
  "sorted_wrt (<) olds \<Longrightarrow> sorted_wrt (<) news \<Longrightarrow> merge_groups s olds news =
     (filter (\<lambda>k. owner_refcount s k = 1 \<and> k \<notin> set news) olds,
      filter (\<lambda>k. owner_refcount s k = 0 \<and> k \<notin> set olds) news)"
proof (induction s olds news rule: merge_groups.induct)
  case (4 s old olds new news)
  let ?R = "\<lambda>news. filter (\<lambda>k. owner_refcount s k = 1 \<and> k \<notin> set news)"
  let ?A = "\<lambda>olds. filter (\<lambda>k. owner_refcount s k = 0 \<and> k \<notin> set olds)"
  have later: "\<forall>k \<in> set olds. old < k" "\<forall>k \<in> set news. new < k"
    and sorted: "sorted_wrt (<) olds" "sorted_wrt (<) news" using "4.prems" by auto
  show ?case
  proof (cases old new rule: linorder_cases)
    case less
    define F where "F = ?R (new # news) olds"
    define G where "G = ?A olds (new # news)"
    have "merge_groups s olds (new # news) = (F, G)"
      unfolding F_def G_def by (rule "4.IH"(2) [OF _ less sorted(1) "4.prems"(2)]) (use less in simp)
    moreover have "?R (new # news) (old # olds) = (if owner_refcount s old = 1 then old # F else F)"
      unfolding F_def using less later by auto
    moreover have "?A (old # olds) (new # news) = G"
      unfolding G_def using less later by (intro filter_cong) auto
    ultimately show ?thesis using less by (simp only:) auto
  next
    case equal
    have "?R (new # news) (old # olds) = ?R news olds" "?A (old # olds) (new # news) = ?A olds news"
      using equal later by (auto intro!: filter_cong)
    moreover have "merge_groups s olds news = (?R news olds, ?A olds news)"
      by (rule "4.IH"(1) [OF equal sorted])
    ultimately show ?thesis using equal by (simp only:) simp
  next
    case greater
    define F where "F = ?R news (old # olds)"
    define G where "G = ?A (old # olds) news"
    have "merge_groups s (old # olds) news = (F, G)"
      unfolding F_def G_def by (rule "4.IH"(3) [OF _ _ "4.prems"(1) sorted(2)]) (use greater in auto)
    moreover have "?A (old # olds) (new # news) = (if owner_refcount s new = 0 then new # G else G)"
      unfolding G_def using greater later by auto
    moreover have "?R (new # news) (old # olds) = F"
      unfolding F_def using greater later by (intro filter_cong) auto
    ultimately show ?thesis using greater by (simp only:) auto
  qed
qed simp_all

lemma replaced_keys:
  assumes "own_inv s" "map_of (eo_groups s) w = Some old"
  shows "filter (\<lambda>k. owner_refcount s k = 1 \<and> k \<notin> set ks) old = sorted_list_of_set (physical s - (kept s {w} \<union> set ks))"
    and "filter (\<lambda>k. owner_refcount s k = 0 \<and> k \<notin> set old) (normalize_pubkeys ks) = sorted_list_of_set (set ks - physical s)"
proof -
  have mem: "w \<in> owners_of s k \<longleftrightarrow> k \<in> set old" for k by (rule own_group_iff [OF assms(2)])
  have one: "k \<in> set old \<Longrightarrow> owner_refcount s k = 1 \<longleftrightarrow> k \<notin> kept s {w}" for k
    using refcount_one [OF assms(1)] mem by blast
  have "k \<in> physical s \<Longrightarrow> k \<notin> kept s {w} \<Longrightarrow> k \<in> set old" for k
    using mem [of k] by (auto simp: kept_def physical_def)
  moreover have "k \<in> set old \<Longrightarrow> k \<in> physical s" for k using mem [of k] by (auto simp: physical_def)
  ultimately have "set (filter (\<lambda>k. owner_refcount s k = 1 \<and> k \<notin> set ks) old) = physical s - (kept s {w} \<union> set ks)"
    and sub: "set old \<subseteq> physical s"
    using one by auto
  then show "filter (\<lambda>k. owner_refcount s k = 1 \<and> k \<notin> set ks) old = sorted_list_of_set (physical s - (kept s {w} \<union> set ks))"
    using own_invD(3) [OF assms] by (intro listing sorted_wrt_filter) auto
  show "filter (\<lambda>k. owner_refcount s k = 0 \<and> k \<notin> set old) (normalize_pubkeys ks) = sorted_list_of_set (set ks - physical s)"
    using sub by (intro listing sorted_wrt_filter) (auto simp: refcount_zero [OF assms(1)] sorted_normalize)
qed

lemma replacement_count:
  assumes "own_inv s"
  shows "card (kept s {w} \<union> set ks) + card (physical s - (kept s {w} \<union> set ks))
    = card (physical s) + card (set ks - physical s)"
  using card_kept [OF finite_physical [OF assms] _ kept_physical, of "set ks" "{w}"]
    card_union_new [OF finite_physical [OF assms], of "set ks"] by simp

lemma plan_replace_exact:
  assumes "adm_inv a" "map_of (eo_groups (ad_ownership a)) w = Some old" "old \<noteq> normalize_pubkeys ks"
  defines "s \<equiv> ad_ownership a"
  shows "plan_replace a old (normalize_pubkeys ks) =
    (if ad_cap a < card (kept s {w} \<union> set ks)
     then ReplaceRejectCapPlan (card (set ks - physical s))
       (ad_cap a - ad_physical_len a + card (physical s - (kept s {w} \<union> set ks)))
     else ReplaceReady \<lparr> rp_pre_len = ad_physical_len a, rp_projected_final_len = card (kept s {w} \<union> set ks),
       rp_old_normalized = old, rp_physical_added = sorted_list_of_set (set ks - physical s),
       rp_physical_removed = sorted_list_of_set (physical s - (kept s {w} \<union> set ks)) \<rparr>)"
proof -
  note i = adm_invD [OF assms(1), folded s_def]
  let ?rem = "card (physical s - (kept s {w} \<union> set ks))" and ?add = "card (set ks - physical s)"
  have merge: "merge_groups s old (normalize_pubkeys ks) =
      (sorted_list_of_set (physical s - (kept s {w} \<union> set ks)), sorted_list_of_set (set ks - physical s))"
    using own_invD(3) [OF i(1) assms(2) [folded s_def]] replaced_keys [OF i(1) assms(2) [folded s_def], of ks]
    by (simp add: merge_groups_exact sorted_normalize)
  note count = replacement_count [OF i(1), of w ks, folded i(2)]
  have rem: "?rem \<le> ad_physical_len a"
    unfolding i(2) using finite_physical [OF i(1)] by (intro card_mono) auto
  have sat: "saturating_usize_add (ad_cap a - ad_physical_len a) ?rem = ad_cap a - ad_physical_len a + ?rem"
    using rem i(3,4) by (simp add: saturating_usize_add_def)
  show ?thesis
  proof (cases "ad_cap a < card (kept s {w} \<union> set ks)")
    case True
    then have "?add > ad_cap a - ad_physical_len a + ?rem" using count i(3) by linarith
    with True show ?thesis using assms(3) merge sat by (simp add: plan_replace_def s_def [symmetric])
  next
    case False
    then have "\<not> ?add > ad_cap a - ad_physical_len a + ?rem" using count i(3) by linarith
    moreover have "ad_physical_len a - ?rem + ?add = card (kept s {w} \<union> set ks)" using count rem by linarith
    ultimately show ?thesis
      using False assms(3) merge sat rem i(4)
      by (simp add: plan_replace_def s_def [symmetric] usize_checked_simps)
  qed
qed

lemma replace_exact:
  fixes w :: explicit_owner and ks :: "pubkey list"
  assumes "adm_inv a" "roomy a"
  defines "s \<equiv> ad_ownership a" and "r \<equiv> try_replace_group w ks a"
  shows "if ks = [] then r = (ReplaceRejectedInvalidGroup, a)
     else if map_of (eo_groups s) w = None then r = (ReplaceRejectedMissingOwner, a)
     else if map_of (eo_groups s) w = Some (normalize_pubkeys ks) then r = (ReplaceUnchanged, a)
     else if ad_cap a < card (kept s {w} \<union> set ks)
     then r = (ReplaceRejectedCap (card (set ks - physical s))
                (ad_cap a - ad_physical_len a + card (physical s - (kept s {w} \<union> set ks))), a)
     else fst r = GroupReplaced (sorted_list_of_set (set ks - physical s))
                    (sorted_list_of_set (physical s - (kept s {w} \<union> set ks)))
       \<and> admitted w ks a (snd r)"
proof (cases "ks = [] \<or> map_of (eo_groups s) w = None")
  case True
  then show ?thesis unfolding r_def s_def by (auto simp: try_replace_group_def Let_def owner_group_def)
next
  case False
  note i = adm_invD [OF assms(1), folded s_def]
  let ?n = "normalize_pubkeys ks"
  obtain old where old: "map_of (eo_groups s) w = Some old" using False by auto
  obtain t where t: "map_of (ad_owner_lru a) w = Some t" using old i(6) by blast
  have ne: "ks \<noteq> []" "?n \<noteq> []" using False by auto
  note unfold = try_replace_group_def Let_def owner_group_def s_def [symmetric] required_existing_stamp_def
  show ?thesis
  proof (cases "old = ?n \<or> ad_cap a < card (kept s {w} \<union> set ks)")
    case True
    then show ?thesis
      using False old t unfolding r_def
      by (auto simp: unfold plan_replace_exact [OF assms(1), folded s_def, OF old])
  next
    case small: False
    obtain plan where plan: "plan_stamp_assign (ad_owner_lru a) (ad_next_touch_stamp a) w = Inr plan"
      "lru_ok (sp_owner_lru plan) (sp_next_touch_stamp plan)"
      "dom (map_of (sp_owner_lru plan)) = insert w (dom (map_of (ad_owner_lru a)))"
      "same_order w (ad_owner_lru a) (sp_owner_lru plan)"
      using plan_stamp_assign_ok [OF i(5), of w] assms(2) unfolding roomy_def by blast
    define s' where "s' = snd (upsert_group w ?n s)"
    have "upsert_group w ?n s = (Inr (Replaced (sorted_list_of_set (set ks - physical s))
        (sorted_list_of_set (physical s - (kept s {w} \<union> set ks)))), s')"
    proof -
      have "filter (\<lambda>k. owners_of s k = {}) ?n = sorted_list_of_set (set ks - physical s)"
        by (intro listing sorted_wrt_filter sorted_normalize) (auto simp: physical_def)
      moreover have "filter (\<lambda>k. owners_of s k = {w} \<and> k \<notin> set ks) old
          = sorted_list_of_set (physical s - (kept s {w} \<union> set ks))"
        using own_invD(3) [OF i(1) old] own_group_iff [OF old]
        by (intro listing sorted_wrt_filter) (auto simp: physical_def kept_def)
      ultimately show ?thesis
        using upsert_replaced_group(1) [OF i(1) ne(2) old] small by (auto simp: s'_def)
    qed
    then have r: "r = (GroupReplaced (sorted_list_of_set (set ks - physical s))
        (sorted_list_of_set (physical s - (kept s {w} \<union> set ks))),
        apply_stamp_plan plan (a\<lparr> ad_ownership := s', ad_physical_len := card (kept s {w} \<union> set ks) \<rparr>))"
      using ne small old t plan(1) unfolding r_def
      by (simp add: unfold plan_replace_exact [OF assms(1), folded s_def, OF old])
    have "admitted w ks a (snd r)"
      using small plan i own_inv_upsert [OF i(1), of w ?n] upsert_groups [OF ne(2), of w s] physical_upsert [OF ne(2), of w s]
      by (auto simp: r admitted_def adm_inv_def apply_stamp_plan_def s_def s'_def)
    with False small old r show ?thesis by simp
  qed
qed

text \<open>The state after the owners in \<open>V\<close> were removed: the others keep their keys and stamps.\<close>

definition dropped :: "explicit_owner set \<Rightarrow> fixed_cap_admission \<Rightarrow> fixed_cap_admission \<Rightarrow> bool" where
  "dropped V a a' \<longleftrightarrow> adm_inv a' \<and> ad_next_touch_stamp a' = ad_next_touch_stamp a
     \<and> map_of (eo_groups (ad_ownership a')) = map_of (eo_groups (ad_ownership a)) |` (- V)
     \<and> map_of (ad_owner_lru a') = map_of (ad_owner_lru a) |` (- V)"

lemma dropped_none: "adm_inv a \<Longrightarrow> dropped {} a a"
  by (simp add: dropped_def restrict_map_def)

lemma dropped_trans: "dropped V a b \<Longrightarrow> dropped W b c \<Longrightarrow> dropped (V \<union> W) a c"
  by (auto simp: dropped_def Int_commute)

lemma owners_restricted:
  "map_of (eo_groups s') = map_of (eo_groups s) |` (- V) \<Longrightarrow> owners_of s' k = owners_of s k - V"
  by (auto simp: owners_of_def restrict_map_def split: if_splits)

lemma physical_restricted: "map_of (eo_groups s') = map_of (eo_groups s) |` (- V) \<Longrightarrow> physical s' = kept s V"
  by (auto simp: physical_def kept_def owners_restricted)

lemma lru_ok_delete: "lru_ok lru n \<Longrightarrow> lru_ok (AList.delete w lru) n"
  by (rule lru_okI) (auto simp: bt_wf_delete delete_conv' dest: lru_okD split: if_splits)

lemma plan_remove_loop_exact:
  "\<forall>k \<in> set ks. owner_refcount s k \<noteq> 0 \<Longrightarrow> plan_remove_loop s ks =
     Some (filter (\<lambda>k. owner_refcount s k = 1) ks, map (\<lambda>k. (k, owner_refcount s k)) ks)"
  by (induction ks) simp_all

lemma removed_keys:
  assumes "own_inv s" "map_of (eo_groups s) w = Some old"
  shows "filter (\<lambda>k. owner_refcount s k = 1) old = sorted_list_of_set (physical s - kept s {w})"
  using replaced_keys(1) [OF assms, of "[]"] by simp

lemma remove_group_store:
  assumes "own_inv s" "map_of (eo_groups s) w = Some old"
  shows "fst (remove_group w s) = Some (w, old)"
    and "k \<in> set old \<Longrightarrow> owner_refcount (snd (remove_group w s)) k = owner_refcount s k - 1"
proof -
  show "fst (remove_group w s) = Some (w, old)" using assms(2) by (simp add: remove_group_def split: prod.splits)
  assume "k \<in> set old"
  then have "w \<in> owners_of s k" using own_group_iff [OF assms(2)] by blast
  then show "owner_refcount (snd (remove_group w s)) k = owner_refcount s k - 1"
    by (simp add: owner_refcount_owners own_inv_remove assms(1) owners_of_removed [OF remove_groups])
qed

lemma remove_exact:
  fixes w :: explicit_owner
  assumes "adm_inv a"
  defines "s \<equiv> ad_ownership a" and "r \<equiv> admission_remove_group w a"
  shows "if map_of (eo_groups s) w = None then r = (RemoveNotFound, a)
     else fst r = Removed (sorted_list_of_set (physical s - kept s {w}))
       \<and> dropped {w} a (snd r) \<and> ad_cap (snd r) = ad_cap a"
proof (cases "map_of (eo_groups s) w")
  case None
  then show ?thesis unfolding r_def s_def by (simp add: admission_remove_group_def owner_group_def)
next
  case (Some old)
  note i = adm_invD [OF assms(1), folded s_def]
  obtain t where t: "map_of (ad_owner_lru a) w = Some t" using Some i(6) by blast
  let ?rem = "sorted_list_of_set (physical s - kept s {w})"
  define s' where "s' = snd (remove_group w s)"
  have fin: "finite (physical s - kept s {w})" using finite_physical [OF i(1)] by simp
  have pos: "\<forall>k \<in> set old. owner_refcount s k \<noteq> 0"
    using own_group_iff [OF Some] by (auto simp: refcount_zero [OF i(1)] physical_def)
  have total: "card (physical s) = card (kept s {w}) + card (physical s - kept s {w})"
    using card_kept [OF finite_physical [OF i(1)] _ kept_physical, of "{}" "{w}"] by simp
  have plan: "plan_remove a old = Some \<lparr> mp_pre_len = ad_physical_len a, mp_projected_final_len = card (kept s {w}),
      mp_old_normalized = old, mp_physical_removed = ?rem, mp_old_refcounts = map (\<lambda>k. (k, owner_refcount s k)) old \<rparr>"
    using total i(2)
    by (simp add: plan_remove_def s_def [symmetric] plan_remove_loop_exact [OF pos] removed_keys [OF i(1) Some, simplified]
      usize_checked_sub_def)
  have sort: "map fst (filter (\<lambda>(_, rc). rc = 1) (map (\<lambda>k. (k, owner_refcount s k)) old)) = ?rem"
    by (simp add: filter_map comp_def split_beta removed_keys [OF i(1) Some, simplified])
  have gone: "map_of (eo_groups s') w = None" by (simp add: remove_groups s'_def)
  have pair: "remove_group w s = (Some (w, old), s')"
    using remove_group_store(1) [OF i(1) Some] by (simp add: prod_eq_iff s'_def)
  have matches: "removed_group_matches_plan (Some (w, old)) w \<lparr> mp_pre_len = ad_physical_len a,
      mp_projected_final_len = card (kept s {w}), mp_old_normalized = old, mp_physical_removed = ?rem,
      mp_old_refcounts = map (\<lambda>k. (k, owner_refcount s k)) old \<rparr> ?rem s'"
    using gone sort pos remove_group_store(2) [OF i(1) Some, folded s'_def]
    by (simp add: removed_group_matches_plan_def owner_group_def usize_checked_sub_def Suc_le_eq)
  have r: "r = (Removed ?rem, apply_stamp_plan (plan_stamp_remove (ad_owner_lru a) (ad_next_touch_stamp a) w)
      (a\<lparr> ad_ownership := s', ad_physical_len := card (kept s {w}) \<rparr>))"
    using Some t plan matches unfolding r_def
    by (simp add: admission_remove_group_def owner_group_def s_def [symmetric] required_existing_stamp_def pair Let_def)
  have "map_of (eo_groups s') = map_of (eo_groups s) |` (- {w})"
    by (auto simp: s'_def remove_groups restrict_map_def)
  moreover have "map_of (AList.delete w (ad_owner_lru a)) = map_of (ad_owner_lru a) |` (- {w})"
    by (auto simp: delete_conv' restrict_map_def)
  ultimately have "dropped {w} a (snd r)"
    using i total
    by (auto simp: r dropped_def adm_inv_def apply_stamp_plan_def plan_stamp_remove_def own_inv_remove
      lru_ok_delete physical_removed s_def s'_def)
  with Some r show ?thesis by (simp add: apply_stamp_plan_def)
qed

section \<open>Shedding\<close>

text \<open>What a shed run that took the owners \<open>V\<close> has done, on top of the counts \<open>acc\<close>.\<close>

definition shed_took ::
    "explicit_owner list \<Rightarrow> shed_owner_groups_result \<Rightarrow> fixed_cap_admission
      \<Rightarrow> shed_owner_groups_result \<times> fixed_cap_admission \<Rightarrow> bool" where
  "shed_took V acc a r \<longleftrightarrow> dropped (set V) a (snd r) \<and> ad_cap (snd r) = ad_cap a
     \<and> sh_groups_evicted (fst r) = sh_groups_evicted acc + length V
     \<and> sh_pubkeys_evicted (fst r) + ad_physical_len (snd r) = sh_pubkeys_evicted acc + ad_physical_len a"

lemma shed_took_none: "adm_inv a \<Longrightarrow> shed_took [] acc a (acc, a)"
  by (simp add: shed_took_def dropped_none)

lemma shed_took_one:
  assumes "adm_inv a" "map_of (eo_groups (ad_ownership a)) w \<noteq> None"
  shows "shed_took [w] acc a (shed_group w (acc, a))"
proof -
  define x where "x = admission_remove_group w a"
  let ?s = "ad_ownership a"
  note i = adm_invD [OF assms(1)]
  have x: "fst x = Removed (sorted_list_of_set (physical ?s - kept ?s {w}))" "dropped {w} a (snd x)"
    "ad_cap (snd x) = ad_cap a" using remove_exact [OF assms(1), of w] assms(2) unfolding x_def by simp_all
  then have "ad_physical_len (snd x) = card (kept ?s {w})"
    using physical_restricted [of "ad_ownership (snd x)" ?s "{w}"] adm_invD(2) by (auto simp: dropped_def)
  moreover have "card (physical ?s) = card (kept ?s {w}) + card (physical ?s - kept ?s {w})"
    using card_kept [OF finite_physical [OF i(1)] _ kept_physical, of "{}" "{w}"] by simp
  ultimately show ?thesis using x i(2) by (simp add: shed_took_def count_removed_def x_def [symmetric])
qed

lemma shed_took_append:
  "shed_took V acc a r \<Longrightarrow> shed_took W (fst r) (snd r) r' \<Longrightarrow> shed_took (V @ W) acc a r'"
  using dropped_trans [of "set V" a "snd r" "set W" "snd r'"] by (simp add: shed_took_def)

lemma shed_took_present:
  "shed_took V acc a r \<Longrightarrow> map_of (eo_groups (ad_ownership a)) u \<noteq> None \<Longrightarrow> u \<notin> set V \<Longrightarrow>
     map_of (eo_groups (ad_ownership (snd r))) u \<noteq> None"
  by (simp add: shed_took_def dropped_def)

lemma shed_fold:
  assumes "adm_inv a" "distinct ws" "\<And>w. w \<in> set ws \<Longrightarrow> map_of (eo_groups (ad_ownership a)) w \<noteq> None"
  shows "shed_took ws acc a (fold shed_group ws (acc, a))"
  using assms
proof (induction ws arbitrary: acc a)
  case (Cons w ws)
  let ?x = "shed_group w (acc, a)"
  have one: "shed_took [w] acc a ?x"
    using Cons.prems by (intro shed_took_one) auto
  then have inv: "adm_inv (snd ?x)" by (simp add: shed_took_def dropped_def)
  have present: "map_of (eo_groups (ad_ownership (snd ?x))) u \<noteq> None" if "u \<in> set ws" for u
    using shed_took_present [OF one, of u] Cons.prems(2,3) that by auto
  have "shed_took ws (fst ?x) (snd ?x) (fold shed_group ws (fst ?x, snd ?x))"
    using Cons.prems(2) by (intro Cons.IH inv present) simp
  with shed_took_append [OF one] show ?case by (simp del: shed_group.simps)
qed (simp add: shed_took_none)

definition hot_owner :: "(pubkey \<Rightarrow> bool) \<Rightarrow> explicit_owner \<Rightarrow> bool" where
  "hot_owner is_must_hot w = (case owner_key w of KPool pool \<Rightarrow> is_must_hot pool | _ \<Rightarrow> False)"

lemma shed_arb_took:
  assumes "adm_inv a" "distinct ws" "\<And>w. w \<in> set ws \<Longrightarrow> map_of (eo_groups (ad_ownership a)) w \<noteq> None"
  shows "shed_took (take (n - sh_groups_evicted acc) (filter (\<lambda>w. \<not> hot_owner hot w) ws)) acc a
    (shed_arb_loop hot n ws (acc, a))"
  using assms
proof (induction ws arbitrary: acc a)
  case (Cons w ws)
  let ?x = "shed_group w (acc, a)" and ?rest = "filter (\<lambda>w. \<not> hot_owner hot w) ws"
  show ?case
  proof (cases "n \<le> sh_groups_evicted acc \<or> hot_owner hot w")
    case True
    have "shed_took (take (n - sh_groups_evicted acc) ?rest) acc a
        (shed_arb_loop hot n ws (acc\<lparr> sh_groups_skipped_must_hot := sh_groups_skipped_must_hot acc + 1 \<rparr>, a))"
      using Cons.IH [OF Cons.prems(1), of "acc\<lparr> sh_groups_skipped_must_hot := sh_groups_skipped_must_hot acc + 1 \<rparr>"]
        Cons.prems(2,3) by (auto simp: shed_took_def)
    with True show ?thesis
      using shed_took_none [OF Cons.prems(1)] by (auto simp: hot_owner_def [symmetric])
  next
    case False
    have one: "shed_took [w] acc a ?x"
      using Cons.prems by (intro shed_took_one) auto
    then have inv: "adm_inv (snd ?x)" and count: "sh_groups_evicted (fst ?x) = sh_groups_evicted acc + 1"
      by (simp_all add: shed_took_def dropped_def)
    have present: "map_of (eo_groups (ad_ownership (snd ?x))) u \<noteq> None" if "u \<in> set ws" for u
      using shed_took_present [OF one, of u] Cons.prems(2,3) that by auto
    have "distinct ws" using Cons.prems(2) by simp
    from Cons.IH [OF inv this present, of "fst ?x"]
    have "shed_took (take (n - (sh_groups_evicted acc + 1)) ?rest) (fst ?x) (snd ?x)
        (shed_arb_loop hot n ws ?x)"
      by (simp only: count prod.collapse)
    moreover have "sh_groups_evicted acc < n" using False by simp
    then have "n - sh_groups_evicted acc = Suc (n - (sh_groups_evicted acc + 1))" by simp
    ultimately show ?thesis
      using False shed_took_append [OF one] by (simp add: hot_owner_def [symmetric] del: shed_group.simps)
  qed
qed (simp add: shed_took_none)

lemma lru_order_facts:
  assumes "adm_inv a"
  shows "set (lru_order ok a) = {w. map_of (eo_groups (ad_ownership a)) w \<noteq> None \<and> ok (consumer w)}"
    and "distinct (lru_order ok a)"
    and "sorted_wrt (\<lambda>u v. the (last_touch a u) < the (last_touch a v)) (lru_order ok a)"
proof -
  note i = adm_invD [OF assms] and lru = lru_okD [OF adm_invD(5) [OF assms]]
  let ?es = "filter (\<lambda>e. ok (consumer (le_owner e))) (snapshot_lru_entries a)"
  show "set (lru_order ok a) = {w. map_of (eo_groups (ad_ownership a)) w \<noteq> None \<and> ok (consumer w)}"
  proof -
    have "set (lru_order ok a) = {w \<in> dom (map_of (ad_owner_lru a)). ok (consumer w)}"
      unfolding dom_map_of_conv_image_fst by (force simp: lru_order_def snapshot_lru_entries_def)
    then show ?thesis unfolding i(6) by blast
  qed
  have es: "map le_owner (snapshot_lru_entries a) = map fst (ad_owner_lru a)"
    by (simp add: snapshot_lru_entries_def split_beta comp_def)
  have "distinct (map le_owner (snapshot_lru_entries a))" unfolding es by (rule lru(2))
  then have d: "distinct (map le_owner ?es)" by (rule distinct_map_filter)
  then show dis: "distinct (lru_order ok a)" by (simp add: lru_order_def distinct_map)
  have stamp: "last_touch a (le_owner e) = Some (le_last_touch e)" if "e \<in> set (snapshot_lru_entries a)" for e
    using that lru(2) by (auto simp: snapshot_lru_entries_def last_touch_def)
  have "sorted (map le_last_touch (sort_key le_last_touch ?es))" by simp
  then have "sorted_wrt (\<lambda>e f. le_last_touch e \<le> le_last_touch f) (sort_key le_last_touch ?es)"
    by (simp only: sorted_wrt_map)
  moreover have "sorted_wrt (\<lambda>e f. le_owner e \<noteq> le_owner f) (sort_key le_last_touch ?es)"
    using dis unfolding lru_order_def distinct_conv_nth sorted_wrt_iff_nth_less by simp
  ultimately have "sorted_wrt (\<lambda>e f. le_last_touch e \<le> le_last_touch f \<and> le_owner e \<noteq> le_owner f) (sort_key le_last_touch ?es)"
    by (simp add: sorted_wrt_iff_nth_less)
  then have "sorted_wrt (\<lambda>e f. the (last_touch a (le_owner e)) < the (last_touch a (le_owner f))) (sort_key le_last_touch ?es)"
    by (rule sorted_wrt_mono_rel [rotated])
      (use stamp lru(4) in \<open>fastforce simp: last_touch_def order_le_less\<close>)
  then show "sorted_wrt (\<lambda>u v. the (last_touch a u) < the (last_touch a v)) (lru_order ok a)"
    by (simp add: lru_order_def sorted_wrt_map)
qed

text \<open>A run over the eligible owners \<open>ok\<close> that may take \<open>n\<close> of them takes the least recently used ones.\<close>

definition sheds_oldest ::
    "(explicit_owner \<Rightarrow> bool) \<Rightarrow> usize \<Rightarrow> fixed_cap_admission
      \<Rightarrow> shed_owner_groups_result \<times> fixed_cap_admission \<Rightarrow> bool" where
  "sheds_oldest ok n a r \<longleftrightarrow>
     (let eligible = {w. map_of (eo_groups (ad_ownership a)) w \<noteq> None \<and> ok w}
      in \<exists>V. shed_took V shed_none a r \<and> set V \<subseteq> eligible \<and> length V = min n (card eligible)
         \<and> (\<forall>v \<in> set V. \<forall>u \<in> eligible - set V. the (last_touch a v) < the (last_touch a u)))"

lemma prefix_oldest:
  assumes "shed_took (take n ws) shed_none a r" "distinct ws"
    and "set ws = {w. map_of (eo_groups (ad_ownership a)) w \<noteq> None \<and> ok w}"
    and "sorted_wrt (\<lambda>u v. the (last_touch a u) < the (last_touch a v)) ws"
  shows "sheds_oldest ok n a r"
proof -
  have "sorted_wrt (\<lambda>u v. the (last_touch a u) < the (last_touch a v)) (take n ws @ drop n ws)"
    using assms(4) by simp
  moreover have "set ws - set (take n ws) \<subseteq> set (drop n ws)"
    by (metis Diff_subset_conv append_take_drop_id order_refl set_append)
  ultimately have "\<forall>v \<in> set (take n ws). \<forall>u \<in> set ws - set (take n ws). the (last_touch a v) < the (last_touch a u)"
    unfolding sorted_wrt_append by blast
  then show ?thesis
    using assms(1) distinct_card [OF assms(2)] set_take_subset [of n ws]
    unfolding sheds_oldest_def Let_def assms(3) [symmetric] by (intro exI [of _ "take n ws"]) simp
qed

lemma shed_consumers_oldest:
  assumes "adm_inv a"
  shows "sheds_oldest (\<lambda>w. consumer w \<in> set cs) n a (shed_owner_groups_for_consumers cs n a)"
proof -
  note f = lru_order_facts [OF assms, of "\<lambda>c. c \<in> set cs"]
  let ?ws = "lru_order (\<lambda>c. c \<in> set cs) a"
  have "shed_took (take n ?ws) shed_none a (fold shed_group (take n ?ws) (shed_none, a))"
    using f(1) by (intro shed_fold assms distinct_take f(2)) (auto dest: in_set_takeD)
  moreover have "?ws = []" if "cs = []" using that f(1) by simp
  ultimately have "shed_took (take n ?ws) shed_none a (shed_owner_groups_for_consumers cs n a)"
    by (auto simp: shed_owner_groups_for_consumers_def)
  then show ?thesis by (rule prefix_oldest) (use f in simp_all)
qed

lemma shed_arb_oldest:
  assumes "adm_inv a"
  shows "sheds_oldest (\<lambda>w. consumer w = CArb \<and> \<not> hot_owner hot w) n a (shed_arb_owner_groups n hot a)"
proof -
  note f = lru_order_facts [OF assms, of "\<lambda>c. c = CArb"]
  let ?ws = "filter (\<lambda>w. \<not> hot_owner hot w) (lru_order (\<lambda>c. c = CArb) a)"
  have "shed_took (take n ?ws) shed_none a (shed_arb_loop hot n (lru_order (\<lambda>c. c = CArb) a) (shed_none, a))"
    using shed_arb_took [OF assms f(2), of n shed_none hot] f(1) by (simp add: shed_none_def)
  then have "shed_took (take n ?ws) shed_none a (shed_arb_owner_groups n hot a)"
    using shed_took_none [OF assms] by (cases "n = 0") (simp_all add: shed_arb_owner_groups_def)
  then show ?thesis by (rule prefix_oldest) (use f sorted_wrt_filter [OF f(3)] in auto)
qed

section \<open>Rebuilding without the victims\<close>

lemma rebuild_groups_exact:
  assumes "distinct (map fst gs)" "\<And>w g. (w, g) \<in> set gs \<Longrightarrow> g \<noteq> [] \<and> sorted_wrt (<) g" "own_inv s"
    and "fst ` set gs \<inter> dom (map_of (eo_groups s)) = {}"
  shows "\<exists>s'. rebuild_groups V gs s = Some s' \<and> own_inv s'
    \<and> map_of (eo_groups s') = map_of (eo_groups s) ++ (map_of gs |` (- set V))"
  using assms
proof (induction gs arbitrary: s)
  case (Cons p gs)
  obtain w g where p: "p = (w, g)" by (cases p)
  have g: "g \<noteq> []" "sorted_wrt (<) g" and fresh: "w \<notin> fst ` set gs" using Cons.prems(1,2) by (auto simp: p)
  have none: "map_of gs w = None" using fresh by (simp add: map_of_eq_None_iff)
  show ?case
  proof (cases "w \<in> set V")
    case True
    obtain s' where "rebuild_groups V gs s = Some s'" "own_inv s'"
      "map_of (eo_groups s') = map_of (eo_groups s) ++ (map_of gs |` (- set V))"
      using Cons.IH [of s] Cons.prems by (auto simp: p)
    with True none show ?thesis by (auto simp: p restrict_map_def fun_eq_iff map_add_def split: option.splits)
  next
    case False
    let ?u = "upsert_group w g s"
    obtain c where c: "fst ?u = Inr c" using upsert_Inr [OF g(1)] by blast
    have m: "map_of (eo_groups (snd ?u)) = (map_of (eo_groups s))(w \<mapsto> g)"
      by (simp add: upsert_groups [OF g(1)] normalize_sorted [OF g(2)])
    have gs: "distinct (map fst gs)" "\<And>v h. (v, h) \<in> set gs \<Longrightarrow> h \<noteq> [] \<and> sorted_wrt (<) h"
      using Cons.prems(1,2) by (auto simp: p)
    have "fst ` set gs \<inter> dom (map_of (eo_groups (snd ?u))) = {}"
      using Cons.prems(4) fresh unfolding m by (auto simp: p)
    from Cons.IH [OF gs(1) _ own_inv_upsert [OF Cons.prems(3)] this] gs(2)
    obtain s' where "rebuild_groups V gs (snd ?u) = Some s'" "own_inv s'"
      "map_of (eo_groups s') = map_of (eo_groups (snd ?u)) ++ (map_of gs |` (- set V))"
      by blast
    with False none c m show ?thesis
      by (cases ?u) (auto simp: p restrict_map_def fun_eq_iff map_add_def split: option.splits)
  qed
qed (simp add: restrict_map_def)

lemma rebuild_store:
  assumes "own_inv s"
  obtains s' where "rebuild_groups V (snapshot_owner_groups s) ownership_new = Some s'" "own_inv s'"
    "map_of (eo_groups s') = map_of (eo_groups s) |` (- set V)" "physical s' = kept s (set V)"
proof -
  have "\<exists>s'. rebuild_groups V (snapshot_owner_groups s) ownership_new = Some s' \<and> own_inv s'
    \<and> map_of (eo_groups s') = map_of (eo_groups ownership_new) ++ (map_of (eo_groups s) |` (- set V))"
    unfolding snapshot_owner_groups_def
  proof (rule rebuild_groups_exact)
    show "g \<noteq> [] \<and> sorted_wrt (<) g" if "(w, g) \<in> set (eo_groups s)" for w g
      using own_invD(3) [OF assms] map_of_is_SomeI [OF distinct_groups [OF assms] that] .
  qed (simp_all add: distinct_groups [OF assms] own_inv_new, simp add: ownership_new_def)
  then show thesis using that physical_restricted by (auto simp: ownership_new_def)
qed

lemma fold_delete:
  "map_of (fold AList.delete V lru) = map_of lru |` (- set V)
    \<and> (lru_ok lru n \<longrightarrow> lru_ok (fold AList.delete V lru) n) \<and> length (fold AList.delete V lru) \<le> length lru"
proof (induction V arbitrary: lru)
  case (Cons v V)
  have "map_of (AList.delete v lru) |` (- set V) = map_of lru |` (- set (v # V))"
    by (auto simp: delete_conv' restrict_map_def)
  with Cons [of "AList.delete v lru"] lru_ok_delete [of lru n v] length_delete_le [of v lru] show ?case by auto
qed (simp add: restrict_map_def)

end
