(* ===== verification/Eviction_Admission.thy ===== *)
theory Eviction_Admission
  imports Admission_Properties
begin

text \<open>
  Admission with eviction and the lowering of the cap: the candidate state built from a plan always
  passes its validation, so that both operations end in one of their regular results, and what the
  committed state holds. Then the invariant over all runs of the admission layer.
\<close>

section \<open>Orders and readings\<close>

lemma insort_key_order:
  "(\<And>y. y \<in> set ys \<Longrightarrow> (f x \<le> f y) = (g x \<le> g y)) \<Longrightarrow> insort_key f x ys = insort_key g x ys"
  by (induction ys) auto

lemma sort_key_order:
  "(\<And>x y. x \<in> set xs \<Longrightarrow> y \<in> set xs \<Longrightarrow> (f x \<le> f y) = (g x \<le> g y)) \<Longrightarrow> sort_key f xs = sort_key g xs"
proof (induction xs)
  case (Cons x xs)
  have "sort_key f xs = sort_key g xs" using Cons by auto
  moreover have "insort_key f x (sort_key g xs) = insort_key g x (sort_key g xs)"
    using Cons.prems by (intro insort_key_order) auto
  ultimately show ?case by simp
qed simp

lemma fold_max_less: "fold max xs z < n \<longleftrightarrow> z < n \<and> (\<forall>x \<in> set xs. x < (n :: 'a::linorder))"
  by (induction xs arbitrary: z) auto

lemma owner_names_dom: "owner_names s = dom (map_of (eo_groups s))"
  by (simp add: owner_names_def snapshot_owner_groups_def dom_map_of_conv_image_fst)

lemma key_set_physical: "own_inv s \<Longrightarrow> key_set s = physical s"
  by (simp add: key_set_def snapshot_pubkeys_physical finite_physical)

lemma lru_entries_dom:
  "set (map le_owner (map (\<lambda>(w, t). \<lparr> le_owner = w, le_last_touch = t \<rparr>) lru)) = dom (map_of lru)"
  "map le_owner (map (\<lambda>(w, t). \<lparr> le_owner = w, le_last_touch = t \<rparr>) lru) = map fst lru"
  by (simp_all add: dom_map_of_conv_image_fst split_beta comp_def image_image)

lemma snapshot_ok:
  assumes "own_inv s" "lru_ok lru n" "dom (map_of lru) = dom (map_of (eo_groups s))"
  shows "\<exists>snap. from_ownership s (map (\<lambda>(w, t). \<lparr> le_owner = w, le_last_touch = t \<rparr>) lru) = Inr snap"
  unfolding from_ownership_exact(1) [OF assms(1)] lru_entries_dom(1) assms(3)
  using lru_okD(2) [OF assms(2)] by (simp only: lru_entries_dom(2))

lemma live_snapshot:
  assumes "adm_inv a"
  obtains snap lru where "from_ownership (ad_ownership a) (snapshot_lru_entries a) = Inr snap"
    "exact_snapshot (ad_ownership a) lru snap"
  using snapshot_ok [OF adm_invD(1,5,6) [OF assms]] from_ownership_exact(2) [OF adm_invD(1) [OF assms]]
  unfolding snapshot_lru_entries_def by blast

lemma listed_stamp:
  assumes "adm_inv a" "(v, g) \<in> set (snapshot_owner_groups (ad_ownership a))"
  shows "map_of (ad_owner_lru a) v \<noteq> None"
proof -
  have "map_of (eo_groups (ad_ownership a)) v \<noteq> None"
    using assms(2) unfolding snapshot_owner_groups_def map_of_eq_None_iff by (metis fst_conv image_eqI)
  then show ?thesis using adm_invD(6) [OF assms(1)] by blast
qed

lemma bt_wf_names: "bt_wf m \<Longrightarrow> sorted_wrt (<) (map fst m)"
  by (simp add: bt_wf_def)

section \<open>The candidate of an eviction\<close>

text \<open>What a candidate for admitting \<open>w\<close> with \<open>n\<close> in place of the owners \<open>V\<close> holds.\<close>

definition candidate_for ::
    "explicit_owner \<Rightarrow> pubkey list \<Rightarrow> explicit_owner list \<Rightarrow> fixed_cap_admission \<Rightarrow> evicting_candidate_state \<Rightarrow> bool" where
  "candidate_for w n V a c \<longleftrightarrow> own_inv (ec_ownership c)
     \<and> map_of (eo_groups (ec_ownership c)) = (map_of (eo_groups (ad_ownership a)) |` (- set V))(w \<mapsto> n)
     \<and> physical (ec_ownership c) = kept (ad_ownership a) (set V) \<union> set n
     \<and> ec_physical_len c = card (kept (ad_ownership a) (set V) \<union> set n)
     \<and> lru_ok (ec_owner_lru c) (ec_next_touch_stamp c)
     \<and> dom (map_of (ec_owner_lru c)) = insert w (dom (map_of (ad_owner_lru a)) - set V)
     \<and> (\<exists>t. map_of (ec_owner_lru c) w = Some t \<and> unat (ec_next_touch_stamp c) = unat t + 1
          \<and> (\<forall>v s. v \<noteq> w \<longrightarrow> map_of (ec_owner_lru c) v = Some s \<longrightarrow> s < t))
     \<and> same_order w (fold AList.delete V (ad_owner_lru a)) (ec_owner_lru c)
     \<and> (ad_next_touch_stamp a \<noteq> u64_max \<longrightarrow>
          (\<forall>v. v \<noteq> w \<longrightarrow> map_of (ec_owner_lru c) v = (map_of (ad_owner_lru a) |` (- set V)) v))"

lemma build_candidate_exact:
  assumes "adm_inv a" "roomy a" "ks \<noteq> []" "map_of (eo_groups (ad_ownership a)) w = None" "w \<notin> set (vp_victims p)"
  shows "\<exists>c. build_evicting_candidate w (normalize_pubkeys ks) p a = Some c
    \<and> candidate_for w (normalize_pubkeys ks) (vp_victims p) a c"
proof -
  let ?V = "vp_victims p" and ?n = "normalize_pubkeys ks" and ?s = "ad_ownership a"
  note i = adm_invD [OF assms(1)]
  obtain s where s: "rebuild_groups ?V (snapshot_owner_groups ?s) ownership_new = Some s" "own_inv s"
    "map_of (eo_groups s) = map_of (eo_groups ?s) |` (- set ?V)" "physical s = kept ?s (set ?V)"
    by (rule rebuild_store [OF i(1)])
  have ne: "?n \<noteq> []" using assms(3) by simp
  define s' where "s' = snd (upsert_group w ?n s)"
  obtain change where "fst (upsert_group w ?n s) = Inr change" using upsert_Inr [OF ne] by blast
  then have up: "upsert_group w ?n s = (Inr change, s')" by (simp add: prod_eq_iff s'_def)
  have absent: "map_of (eo_groups s) w = None" using assms(4) by (simp add: s(3) restrict_map_def)
  have s': "own_inv s'" "map_of (eo_groups s') = (map_of (eo_groups ?s) |` (- set ?V))(w \<mapsto> ?n)"
    "physical s' = kept ?s (set ?V) \<union> set ?n"
    using own_inv_upsert [OF s(2)] upsert_groups [OF ne] physical_upsert [OF ne] kept_absent [OF absent] s(3,4)
    by (simp_all add: s'_def)
  let ?lru = "fold AList.delete ?V (ad_owner_lru a)"
  note lru = fold_delete [of ?V "ad_owner_lru a" "ad_next_touch_stamp a"]
  have room: "length ?lru + 2 < 2 ^ 64" using lru assms(2) unfolding roomy_def by linarith
  obtain plan t where plan: "plan_stamp_assign ?lru (ad_next_touch_stamp a) w = Inr plan"
    "lru_ok (sp_owner_lru plan) (sp_next_touch_stamp plan)"
    "dom (map_of (sp_owner_lru plan)) = insert w (dom (map_of ?lru))"
    "map_of (sp_owner_lru plan) w = Some t" "unat (sp_next_touch_stamp plan) = unat t + 1"
    "\<forall>v s. v \<noteq> w \<longrightarrow> map_of (sp_owner_lru plan) v = Some s \<longrightarrow> s < t"
    "same_order w ?lru (sp_owner_lru plan)"
    "ad_next_touch_stamp a \<noteq> u64_max \<longrightarrow> (\<forall>v. v \<noteq> w \<longrightarrow> map_of (sp_owner_lru plan) v = map_of ?lru v)"
    using plan_stamp_assign_ok [OF _ room, of "ad_next_touch_stamp a" w] lru i(5) by blast
  let ?c = "\<lparr> ec_ownership = s', ec_owner_lru = sp_owner_lru plan, ec_next_touch_stamp = sp_next_touch_stamp plan,
    ec_physical_len = ownership_len s' \<rparr>"
  have "build_evicting_candidate w ?n p a = Some ?c"
    using assms(5) s(1) up plan(1) by (simp add: build_evicting_candidate_def)
  moreover have "dom (map_of ?lru) = dom (map_of (ad_owner_lru a)) - set ?V" using lru by auto
  then have "candidate_for w ?n ?V a ?c"
    using plan s' lru ownership_len_physical [OF s'(1)] by (simp add: candidate_for_def)
  ultimately show ?thesis by blast
qed

lemma candidate_names:
  assumes "adm_inv a" "candidate_for w n V a c" "map_of (eo_groups (ad_ownership a)) w = None"
  shows "filter (\<lambda>v. v \<notin> set V) (map fst (ad_owner_lru a)) = filter (\<lambda>v. v \<noteq> w) (map fst (ec_owner_lru c))" (is "?l = ?r")
proof -
  have "sorted_wrt (<) ?l" "sorted_wrt (<) ?r"
    using bt_wf_names [OF lru_okD(1) [OF adm_invD(5) [OF assms(1)]]] bt_wf_names [OF lru_okD(1)] assms(2)
    by (auto simp: candidate_for_def intro!: sorted_wrt_filter)
  moreover have "set ?l = set ?r"
  proof -
    have "set (map fst (ec_owner_lru c)) = insert w (set (map fst (ad_owner_lru a)) - set V)"
      using assms(2) by (simp add: candidate_for_def dom_map_of_conv_image_fst)
    moreover have "w \<notin> set (map fst (ad_owner_lru a))"
      using adm_invD(6) [OF assms(1)] assms(3) by (auto simp: dom_map_of_conv_image_fst [symmetric] simp del: map_of_eq_None_iff)
    ultimately show ?thesis by auto
  qed
  ultimately show ?thesis using listing [of ?l "set ?r"] listing [of ?r "set ?r"] by simp
qed

lemma candidate_order:
  assumes "adm_inv a" "candidate_for w n V a c" "map_of (eo_groups (ad_ownership a)) w = None"
  shows "lru_sorted_owners (ad_owner_lru a) (filter (\<lambda>v. v \<notin> set V) (map fst (ad_owner_lru a)))
    = lru_sorted_owners (ec_owner_lru c) (filter (\<lambda>v. v \<noteq> w) (map fst (ec_owner_lru c)))"
  unfolding candidate_names [OF assms, symmetric] lru_sorted_owners_def
proof (rule sort_key_order)
  fix x y
  let ?l = "filter (\<lambda>v. v \<notin> set V) (map fst (ad_owner_lru a))"
  let ?old = "map_of (ad_owner_lru a)" and ?new = "map_of (ec_owner_lru c)"
  assume xy: "x \<in> set ?l" "y \<in> set ?l"
  have keep: "v \<noteq> w" "?old v \<noteq> None" "map_of (fold AList.delete V (ad_owner_lru a)) v = ?old v" if "v \<in> set ?l" for v
  proof -
    have "v \<in> set (filter (\<lambda>v. v \<noteq> w) (map fst (ec_owner_lru c)))" using that candidate_names [OF assms] by metis
    then show "v \<noteq> w" by simp
    show "?old v \<noteq> None" "map_of (fold AList.delete V (ad_owner_lru a)) v = ?old v"
      using that fold_delete [of V "ad_owner_lru a"] by (auto simp: map_of_eq_None_iff)
  qed
  have order: "(the (?new u) < the (?new v)) = (the (?old u) < the (?old v))" if "u \<in> set ?l" "v \<in> set ?l" for u v
    using assms(2) keep [OF that(1)] keep [OF that(2)] by (auto simp: candidate_for_def same_order_def)
  then have "(the (?new x) = the (?new y)) = (the (?old x) = the (?old y))"
    using xy by (metis linorder_neq_iff)
  then show "((the (?old x), x) \<le> (the (?old y), y)) = ((the (?new x), x) \<le> (the (?new y), y))"
    using order [OF xy] by (auto simp: less_eq_prod_simp)
qed

text \<open>The candidate of a plan that is exact passes the validation.\<close>

lemma candidate_validates:
  assumes "adm_inv a" "candidate_for w (normalize_pubkeys ks) (vp_victims p) a c"
    and "map_of (eo_groups (ad_ownership a)) w = None" "w \<notin> set (vp_victims p)"
    and "plan_for (ad_ownership a) (consumer w) (set ks) (ad_cap a) p"
  shows "validate_evicting_candidate c p w (normalize_pubkeys ks)
    (sorted_list_of_set (set ks - physical (ad_ownership a))) a"
proof -
  let ?s = "ad_ownership a" and ?V = "set (vp_victims p)" and ?n = "normalize_pubkeys ks"
  note i = adm_invD [OF assms(1)]
  have c: "own_inv (ec_ownership c)" "map_of (eo_groups (ec_ownership c)) = (map_of (eo_groups ?s) |` (- ?V))(w \<mapsto> ?n)"
    "physical (ec_ownership c) = kept ?s ?V \<union> set ks" "ec_physical_len c = card (kept ?s ?V \<union> set ks)"
    "lru_ok (ec_owner_lru c) (ec_next_touch_stamp c)"
    "dom (map_of (ec_owner_lru c)) = insert w (dom (map_of (ad_owner_lru a)) - ?V)"
    "ad_next_touch_stamp a \<noteq> u64_max \<Longrightarrow> v \<noteq> w \<Longrightarrow> map_of (ec_owner_lru c) v = (map_of (ad_owner_lru a) |` (- ?V)) v" for v
    using assms(2) by (simp_all add: candidate_for_def)
  obtain t where t: "map_of (ec_owner_lru c) w = Some t" "unat (ec_next_touch_stamp c) = unat t + 1"
    "\<And>v s. v \<noteq> w \<Longrightarrow> map_of (ec_owner_lru c) v = Some s \<Longrightarrow> s < t"
    using assms(2) unfolding candidate_for_def by blast
  note p = assms(5) [unfolded plan_for_def]
  have names: "owner_names (ec_ownership c) = insert w (owner_names ?s - ?V)"
    by (auto simp: owner_names_dom c(2))
  have gone: "\<forall>v \<in> ?V. owner_group (ec_ownership c) v = None \<and> map_of (ec_owner_lru c) v = None"
    using assms(4) c(6) by (auto simp: owner_group_def c(2) restrict_map_def)
  have "owner_group ?s v = owner_group (ec_ownership c) v
      \<and> (ad_next_touch_stamp a = u64_max \<or>
         map_of (ad_owner_lru a) v \<noteq> None \<and> map_of (ad_owner_lru a) v = map_of (ec_owner_lru c) v)"
    if "(v, g) \<in> set (snapshot_owner_groups ?s)" "v \<notin> ?V" "v \<noteq> w" for v g
    using that c(7) [of v] listed_stamp [OF assms(1) that(1)]
    by (cases "ad_next_touch_stamp a = u64_max") (simp_all add: owner_group_def c(2))
  then have survivors: "\<forall>(v, _) \<in> set (snapshot_owner_groups ?s). v \<in> ?V \<or> v = w \<or>
      owner_group ?s v = owner_group (ec_ownership c) v
      \<and> (ad_next_touch_stamp a = u64_max \<or>
         map_of (ad_owner_lru a) v \<noteq> None \<and> map_of (ad_owner_lru a) v = map_of (ec_owner_lru c) v)"
    by blast
  have mem: "map_of (ec_owner_lru c) v = Some s" if "(v, s) \<in> set (ec_owner_lru c)" for v s
    using that lru_okD(2) [OF c(5)] by simp
  have recent: "\<forall>(v, stamp) \<in> set (ec_owner_lru c). v = w \<or> stamp < t" using t(3) mem by blast
  have top: "fold max (map snd (ec_owner_lru c)) 0 < ec_next_touch_stamp c"
  proof -
    have "0 < ec_next_touch_stamp c" using t(2) by (simp add: word_less_nat_alt)
    then show ?thesis using c(5) by (auto simp: fold_max_less lru_ok_def)
  qed
  have next_stamp: "ec_next_touch_stamp c = saturating_add t 1"
    using t(2) unat_lt_u64 [of "ec_next_touch_stamp c"]
    by (intro word_unat_eq_iff [THEN iffD2]) (simp add: unat_saturating_add)
  have keys: "key_set ?s - key_set (ec_ownership c) = physical ?s - (kept ?s ?V \<union> set ks)"
    "key_set (ec_ownership c) - key_set ?s = set ks - physical ?s"
    using kept_physical [of ?s ?V] by (auto simp: key_set_physical i(1) c(1,3))
  have lists: "sort (vp_physical_freed p) = sorted_list_of_set (physical ?s - (kept ?s ?V \<union> set ks))"
    "sort (sorted_list_of_set (set ks - physical ?s)) = sorted_list_of_set (set ks - physical ?s)"
    using p by (simp_all add: sorted_sort_id)
  have snap: "candidate_snapshot_ok c"
  proof -
    have "dom (map_of (ec_owner_lru c)) = dom (map_of (eo_groups (ec_ownership c)))"
      by (simp add: c(2,6) i(6) Diff_eq)
    from snapshot_ok [OF c(1,5) this] show ?thesis by (auto simp: candidate_snapshot_ok_def)
  qed
  show ?thesis
    unfolding validate_evicting_candidate_def Let_def
    using names gone survivors recent top next_stamp keys lists snap p c(4) t(1)
      candidate_order [OF assms(1-3)] candidate_names [OF assms(1-3)] ownership_len_physical [OF c(1)] c(3)
    by (simp add: owner_group_def c(2))
qed

section \<open>Admission with eviction\<close>

text \<open>The state after \<open>w\<close> was given the keys \<open>ks\<close> in place of the owners \<open>V\<close>.\<close>

definition admitted_for ::
    "explicit_owner list \<Rightarrow> explicit_owner \<Rightarrow> pubkey list \<Rightarrow> fixed_cap_admission \<Rightarrow> fixed_cap_admission \<Rightarrow> bool" where
  "admitted_for V w ks a a' \<longleftrightarrow> adm_inv a' \<and> ad_cap a' = ad_cap a
     \<and> map_of (eo_groups (ad_ownership a')) =
         (map_of (eo_groups (ad_ownership a)) |` (- set V))(w \<mapsto> normalize_pubkeys ks)
     \<and> same_order w (fold AList.delete V (ad_owner_lru a)) (ad_owner_lru a')"

lemma fast_path_exact:
  assumes "adm_inv a" "roomy a" "ks \<noteq> []" "map_of (eo_groups (ad_ownership a)) w = None"
    and "card (physical (ad_ownership a) \<union> set ks) \<le> ad_cap a"
  shows "fst (map_fast_path_admit w (normalize_pubkeys ks) a)
      = InsertedNoEviction (sorted_list_of_set (set ks - physical (ad_ownership a)))
    \<and> admitted w ks a (snd (map_fast_path_admit w (normalize_pubkeys ks) a))"
  using admit_new_exact [OF assms(1,2), of "normalize_pubkeys ks" w] assms(3-5)
  by (auto simp: map_fast_path_admit_def admitted_def Diff_eq_empty_iff [THEN iffD2])

lemma commit_admitted:
  assumes "adm_inv a" "candidate_for w (normalize_pubkeys ks) V a c" "map_of (eo_groups (ad_ownership a)) w = None"
    and "card (kept (ad_ownership a) (set V) \<union> set ks) \<le> ad_cap a"
  shows "admitted_for V w ks a (commit_candidate c a)"
  using assms adm_invD [OF assms(1)]
  by (auto simp: candidate_for_def admitted_for_def adm_inv_def commit_candidate_def)

lemma evict_exact:
  fixes w :: explicit_owner and ks :: "pubkey list"
  assumes "adm_inv a" "roomy a" "card (physical (ad_ownership a) \<union> set ks) < 2 ^ 64"
  defines "s \<equiv> ad_ownership a"
  shows "\<exists>r. try_admit_with_eviction w ks a = Some r
    \<and> (if ks = [] then r = (EvictRejectedInvalidInput, a)
       else if map_of (eo_groups s) w \<noteq> None then r = (EvictRejectedExistingOwner, a)
       else if card (physical s \<union> set ks) \<le> ad_cap a
       then fst r = InsertedNoEviction (sorted_list_of_set (set ks - physical s)) \<and> admitted w ks a (snd r)
       else if \<forall>t \<in> set (allowed_for_incoming (consumer w)). ad_cap a < card (kept s (opens s t) \<union> set ks)
       then r = (EvictRejectedProtected (card (set ks - physical s)) (card (physical s \<union> set ks) - ad_cap a), a)
       else \<exists>p. plan_for s (consumer w) (set ks) (ad_cap a) p
         \<and> fst r = InsertedWithEviction (sorted_list_of_set (set ks - physical s))
                     (vp_physical_freed p) (vp_victims p) (vp_opened_through p)
         \<and> admitted_for (vp_victims p) w ks a (snd r))"
proof -
  let ?n = "normalize_pubkeys ks"
  note i = adm_invD [OF assms(1), folded s_def]
  note insert = plan_insert_exact [OF assms(1), folded s_def, of ks]
  note unfold = try_admit_with_eviction_def Let_def owner_group_def s_def [symmetric]
  show ?thesis
  proof (cases "ks = [] \<or> map_of (eo_groups s) w \<noteq> None \<or> card (physical s \<union> set ks) \<le> ad_cap a")
    case True
    then show ?thesis
      using fast_path_exact [OF assms(1,2), folded s_def, of ks w] insert
      by (cases "map_fast_path_admit w ?n a") (auto simp: unfold)
  next
    case False
    then have over: "ad_cap a < card (physical s \<union> set ks)" and ne: "ks \<noteq> []" "?n \<noteq> []"
      and none: "map_of (eo_groups s) w = None" by auto
    have keys: "set ?n = set ks" by simp
    obtain snap lru where snap: "from_ownership s (snapshot_lru_entries a) = Inr snap" "exact_snapshot s lru snap"
      using live_snapshot [OF assms(1)] unfolding s_def by blast
    obtain v where v: "select_eviction_victims snap
        \<lparr> rq_incoming_owner = w, rq_incoming_pubkeys = ?n, rq_cap = ad_cap a \<rparr> = Some v"
      "if \<forall>t \<in> set (allowed_for_incoming (consumer w)). ad_cap a < card (kept s (opens s t) \<union> set ks)
       then v = VRejectedProtected (card (set ks - physical s)) (card (physical s \<union> set ks) - ad_cap a)
       else \<exists>p. v = VPlanned p \<and> plan_for s (consumer w) (set ks) (ad_cap a) p"
      using eviction_plan_exact [OF i(1) snap(2), of ?n w "ad_cap a", unfolded keys] assms(3) over ne none
      by (auto simp: s_def [symmetric])
    have plan: "plan_admit_with_eviction w ?n a = Some v"
      using snap(1) v(1) by (simp add: plan_admit_with_eviction_def s_def)
    have step: "try_admit_with_eviction w ks a = (case v of
        VNoEvictionNeeded _ _ \<Rightarrow> Some (EvictInternalInvariantViolation, a)
      | VRejectedProtected added required \<Rightarrow> Some (EvictRejectedProtected added required, a)
      | VRejectedInvalidInput \<Rightarrow> Some (EvictRejectedInvalidInput, a)
      | VInternalInvariantViolation \<Rightarrow> Some (EvictInternalInvariantViolation, a)
      | VPlanned plan \<Rightarrow> Some (case build_evicting_candidate w ?n plan a of
          None \<Rightarrow> (EvictInternalInvariantViolation, a)
        | Some c \<Rightarrow>
            if \<not> validate_evicting_candidate c plan w ?n (sorted_list_of_set (set ks - physical s)) a
            then (EvictInternalInvariantViolation, a)
            else (InsertedWithEviction (sorted_list_of_set (set ks - physical s)) (vp_physical_freed plan)
                    (vp_victims plan) (vp_opened_through plan), commit_candidate c a)))"
      using ne none over plan insert by (simp add: unfold new_keys(2) [OF i(1), simplified])
    show ?thesis
    proof (cases "\<forall>t \<in> set (allowed_for_incoming (consumer w)). ad_cap a < card (kept s (opens s t) \<union> set ks)")
      case True
      with v(2) step False show ?thesis by simp
    next
      case False': False
      then obtain p where p: "v = VPlanned p" "plan_for s (consumer w) (set ks) (ad_cap a) p"
        using v(2) by (subst (asm) if_not_P) auto
      have w: "w \<notin> set (vp_victims p)" using p(2) none by (auto simp: plan_for_def opens_def)
      obtain c where c: "build_evicting_candidate w ?n p a = Some c" "candidate_for w ?n (vp_victims p) a c"
        using build_candidate_exact [OF assms(1,2) ne(1) _ w] none unfolding s_def by blast
      have "validate_evicting_candidate c p w ?n (sorted_list_of_set (set ks - physical s)) a"
        using candidate_validates [OF assms(1) c(2) _ w] none p(2) by (simp add: s_def)
      moreover have "admitted_for (vp_victims p) w ks a (commit_candidate c a)"
        using commit_admitted [OF assms(1) c(2)] none p(2) by (simp add: s_def plan_for_def)
      ultimately show ?thesis using False False' p c(1) step by auto
    qed
  qed
qed

section \<open>Lowering the cap\<close>

lemma wallet_keys:
  assumes "adm_inv a"
  shows "wallet_physical_len a = card (kept (ad_ownership a) (opens (ad_ownership a) TierMomentumPosition))"
proof -
  let ?s = "ad_ownership a"
  have tiers: "consumer w \<in> set (cumulative_consumers TierMomentumPosition) \<longleftrightarrow> consumer w \<noteq> CWallet" for w
    by (cases "consumer w") simp_all
  have own: "w \<in> owners_of ?s k \<longleftrightarrow> (\<exists>g. (w, g) \<in> set (eo_groups ?s) \<and> k \<in> set g)" for w k
    using distinct_groups [OF adm_invD(1) [OF assms]] by (auto simp: owners_of_def)
  have "k \<in> kept ?s (opens ?s TierMomentumPosition) \<longleftrightarrow> (\<exists>w \<in> owners_of ?s k. consumer w = CWallet)" for k
    unfolding kept_def opens_def tiers by (auto simp: owners_of_def)
  then have "(\<Union>(w, ks) \<in> set (snapshot_owner_groups ?s). if consumer w = CWallet then set ks else {})
      = kept ?s (opens ?s TierMomentumPosition)"
    unfolding snapshot_owner_groups_def by (fastforce simp: own split: if_splits)
  then show ?thesis by (simp add: wallet_physical_len_def)
qed

lemma shrink_candidate_exact:
  assumes "adm_inv a" "shrink_plan_for (ad_ownership a) cap p"
  shows "\<exists>c. build_shrink_candidate p a = Some c \<and> validate_shrink_candidate c p cap a
    \<and> (cap < 2 ^ 64 \<longrightarrow> dropped (set (cp_victims p)) a ((commit_candidate c a)\<lparr> ad_cap := cap \<rparr>))"
proof -
  let ?s = "ad_ownership a" and ?V = "cp_victims p"
  let ?lru = "fold AList.delete ?V (ad_owner_lru a)"
  note i = adm_invD [OF assms(1)] and p = assms(2) [unfolded shrink_plan_for_def]
  obtain s where s: "rebuild_groups ?V (snapshot_owner_groups ?s) ownership_new = Some s" "own_inv s"
    "map_of (eo_groups s) = map_of (eo_groups ?s) |` (- set ?V)" "physical s = kept ?s (set ?V)"
    by (rule rebuild_store [OF i(1)])
  have lru: "map_of ?lru = map_of (ad_owner_lru a) |` (- set ?V)" "lru_ok ?lru (ad_next_touch_stamp a)"
    using fold_delete [of ?V "ad_owner_lru a" "ad_next_touch_stamp a"] i(5) by auto
  have dom: "dom (map_of ?lru) = dom (map_of (eo_groups s))" by (simp add: lru(1) s(3) i(6))
  let ?c = "\<lparr> ec_ownership = s, ec_owner_lru = ?lru, ec_next_touch_stamp = ad_next_touch_stamp a,
    ec_physical_len = ownership_len s \<rparr>"
  have len: "ownership_len s = card (kept ?s (set ?V))" using ownership_len_physical [OF s(2)] s(4) by simp
  have same: "owner_group ?s v = owner_group s v \<and> map_of (ad_owner_lru a) v \<noteq> None
      \<and> map_of (ad_owner_lru a) v = map_of ?lru v"
    if "(v, g) \<in> set (snapshot_owner_groups ?s)" "v \<notin> set ?V" for v g
    using that(2) listed_stamp [OF assms(1) that(1)] by (simp add: owner_group_def s(3) lru(1))
  have keys: "key_set ?s = physical ?s" "key_set s = kept ?s (set ?V)"
    by (simp_all add: key_set_physical i(1) s(2,4))
  have "validate_shrink_candidate ?c p cap a"
    unfolding validate_shrink_candidate_def Let_def
    using p same keys kept_physical [of ?s "set ?V"] len snapshot_ok [OF s(2) lru(2) dom]
    by (auto simp: owner_names_dom s(3) lru(1) owner_group_def restrict_map_def sorted_sort_id
      candidate_snapshot_ok_def split: sum.splits if_splits)
  moreover have "dropped (set ?V) a ((commit_candidate ?c a)\<lparr> ad_cap := cap \<rparr>)" if "cap < 2 ^ 64"
    using that p s lru dom len by (simp add: dropped_def adm_inv_def commit_candidate_def)
  ultimately show ?thesis using s(1) by (simp add: build_shrink_candidate_def)
qed

lemma shrink_exact:
  fixes cap :: usize
  assumes "adm_inv a"
  defines "s \<equiv> ad_ownership a"
  shows "\<exists>r. try_shrink_cap cap a = Some r
    \<and> (if ad_cap a < cap then r = (RejectedCapIncrease (ad_cap a) cap, a)
       else if cap < wallet_physical_len a then r = (ProtectedOverflow (wallet_physical_len a) cap, a)
       else if card (physical s) \<le> cap then r = (NoOpAlreadyWithinCap (ad_cap a) cap, a\<lparr> ad_cap := cap \<rparr>)
       else \<exists>p. shrink_plan_for s cap p
         \<and> fst r = Converged (ad_cap a) cap (cp_physical_freed p) (cp_victims p) (cp_opened_through p)
         \<and> dropped (set (cp_victims p)) a (snd r) \<and> ad_cap (snd r) = cap)"
proof (cases "ad_cap a < cap \<or> cap < wallet_physical_len a \<or> card (physical s) \<le> cap")
  case True
  then show ?thesis
    using adm_invD(2) [OF assms(1)] by (auto simp: try_shrink_cap_def Let_def wallet_demand_exceeds_cap_def s_def)
next
  case False
  note i = adm_invD [OF assms(1), folded s_def]
  obtain snap lru where snap: "from_ownership s (snapshot_lru_entries a) = Inr snap" "exact_snapshot s lru snap"
    using live_snapshot [OF assms(1)] unfolding s_def by blast
  obtain p where p: "select_cap_shrink_victims snap cap = Some (CPlanned p)" "shrink_plan_for s cap p"
    using cap_shrink_plan_correct [OF i(1) snap(2), of cap] False wallet_keys [OF assms(1), folded s_def] by auto
  then obtain c where c: "build_shrink_candidate p a = Some c" "validate_shrink_candidate c p cap a"
    "cap < 2 ^ 64 \<longrightarrow> dropped (set (cp_victims p)) a ((commit_candidate c a)\<lparr> ad_cap := cap \<rparr>)"
    using shrink_candidate_exact [OF assms(1)] unfolding s_def by blast
  have "cap < 2 ^ 64" using False i(4) by linarith
  then show ?thesis
    using False c p snap(1) i(2)
    by (auto simp: try_shrink_cap_def Let_def wallet_demand_exceeds_cap_def plan_cap_shrink_def s_def)
qed

section \<open>Runs of the admission layer\<close>

datatype adm_op =
    AdmitNew explicit_owner "pubkey list"
  | AdmitEvicting explicit_owner "pubkey list"
  | ReplaceKeys explicit_owner "pubkey list"
  | RemoveOwner explicit_owner
  | TouchOwner explicit_owner
  | ShedConsumers "explicit_consumer list" usize
  | ShedArb usize "pubkey \<Rightarrow> bool"
  | ShrinkCap usize
  | Restore

datatype adm_outcome =
    OAdmit fixed_cap_admission_result
  | OEvict evicting_admission_result
  | OReplace fixed_cap_replace_result
  | ORemove fixed_cap_remove_result
  | OTouch touch_result
  | OShed shed_owner_groups_result
  | OShrink cap_shrink_result
  | ORestored

fun adm_step :: "adm_op \<Rightarrow> fixed_cap_admission \<Rightarrow> (adm_outcome \<times> fixed_cap_admission) option" where
  "adm_step (AdmitNew w ks) a = Some (apfst OAdmit (try_admit_new_group w ks a))"
| "adm_step (AdmitEvicting w ks) a = map_option (apfst OEvict) (try_admit_with_eviction w ks a)"
| "adm_step (ReplaceKeys w ks) a = Some (apfst OReplace (try_replace_group w ks a))"
| "adm_step (RemoveOwner w) a = Some (apfst ORemove (admission_remove_group w a))"
| "adm_step (TouchOwner w) a = Some (apfst OTouch (touch_group w a))"
| "adm_step (ShedConsumers cs n) a = Some (apfst OShed (shed_owner_groups_for_consumers cs n a))"
| "adm_step (ShedArb n hot) a = Some (apfst OShed (shed_arb_owner_groups n hot a))"
| "adm_step (ShrinkCap cap) a = map_option (apfst OShrink) (try_shrink_cap cap a)"
| "adm_step Restore a = Some (ORestored, clear_for_restore a)"

text \<open>Outcomes other than a report of a broken invariant.\<close>

fun regular :: "adm_outcome \<Rightarrow> bool" where
  "regular (OAdmit r) = (r \<noteq> AdmitInternalInvariantViolation)"
| "regular (OEvict r) = (r \<noteq> EvictInternalInvariantViolation)"
| "regular (OReplace r) = (case r of ReplacePlanningInvariantViolation \<Rightarrow> False
     | ReplaceInternalInvariantViolation _ \<Rightarrow> False | _ \<Rightarrow> True)"
| "regular (ORemove r) = (case r of RemovePlanningInvariantViolation \<Rightarrow> False
     | RemoveInternalInvariantViolation _ \<Rightarrow> False | _ \<Rightarrow> True)"
| "regular (OTouch r) = (r \<noteq> TouchInternalInvariantViolation)"
| "regular (OShed _) = True"
| "regular (OShrink r) = (r \<noteq> ShrinkInternalInvariantViolation)"
| "regular ORestored = True"

fun op_keys :: "adm_op \<Rightarrow> pubkey list" where
  "op_keys (AdmitEvicting w ks) = ks"
| "op_keys _ = []"

fun op_owner :: "adm_op \<Rightarrow> explicit_owner set" where
  "op_owner (AdmitNew w _) = {w}"
| "op_owner (AdmitEvicting w _) = {w}"
| "op_owner _ = {}"

definition owners_in :: "fixed_cap_admission \<Rightarrow> explicit_owner set" where
  "owners_in a = dom (map_of (eo_groups (ad_ownership a)))"

definition step_keeps :: "adm_op \<Rightarrow> fixed_cap_admission \<Rightarrow> adm_outcome \<times> fixed_cap_admission \<Rightarrow> bool" where
  "step_keeps op a r \<longleftrightarrow> regular (fst r) \<and> adm_inv (snd r) \<and> ad_cap (snd r) \<le> ad_cap a
     \<and> owners_in (snd r) \<subseteq> owners_in a \<union> op_owner op"

lemma kept_facts:
  "admitted w ks a b \<Longrightarrow> adm_inv b \<and> ad_cap b = ad_cap a \<and> owners_in b = insert w (owners_in a)"
  "admitted_for V w ks a b \<Longrightarrow> adm_inv b \<and> ad_cap b = ad_cap a \<and> owners_in b \<subseteq> insert w (owners_in a)"
  "dropped W a b \<Longrightarrow> adm_inv b \<and> owners_in b \<subseteq> owners_in a"
  "shed_took V acc a r \<Longrightarrow> adm_inv (snd r) \<and> ad_cap (snd r) = ad_cap a \<and> owners_in (snd r) \<subseteq> owners_in a"
  by (auto simp: admitted_def admitted_for_def shed_took_def dropped_def owners_in_def)

lemma keys_bound:
  assumes "adm_inv a" "ad_cap a + length ks < 2 ^ 64"
  shows "card (physical (ad_ownership a) \<union> set ks) < 2 ^ 64"
proof -
  note i = adm_invD [OF assms(1)]
  have "card (physical (ad_ownership a) \<union> set ks) \<le> card (physical (ad_ownership a)) + card (set ks)"
    by (rule card_Un_le)
  with i(2,3) card_length [of ks] assms(2) show ?thesis by linarith
qed

lemma keeps_admit:
  assumes "adm_inv a" "roomy a"
  shows "step_keeps (AdmitNew w ks) a (apfst OAdmit (try_admit_new_group w ks a))"
  using admit_new_exact [OF assms, of ks w] assms(1)
  by (cases "try_admit_new_group w ks a") (auto simp: step_keeps_def dest!: kept_facts split: if_splits)

lemma keeps_replace:
  assumes "adm_inv a" "roomy a"
  shows "step_keeps (ReplaceKeys w ks) a (apfst OReplace (try_replace_group w ks a))"
proof -
  have "w \<in> owners_in a" if "map_of (eo_groups (ad_ownership a)) w = Some g" for g
    using that by (auto simp: owners_in_def)
  then show ?thesis
    using replace_exact [OF assms, of ks w] assms(1)
    by (cases "try_replace_group w ks a") (auto simp: step_keeps_def dest!: kept_facts split: if_splits)
qed

lemma keeps_remove:
  assumes "adm_inv a"
  shows "step_keeps (RemoveOwner w) a (apfst ORemove (admission_remove_group w a))"
  using remove_exact [OF assms, of w] assms
  by (cases "admission_remove_group w a") (auto simp: step_keeps_def dest!: kept_facts split: if_splits)

lemma keeps_touch:
  assumes "adm_inv a" "roomy a"
  shows "step_keeps (TouchOwner w) a (apfst OTouch (touch_group w a))"
  using touch_group_exact [OF assms, of w] by (simp add: step_keeps_def owners_in_def split: if_splits)

lemma keeps_shed:
  assumes "sheds_oldest ok n a r"
  shows "step_keeps op a (apfst OShed r)"
  using assms by (auto simp: sheds_oldest_def Let_def step_keeps_def dest!: kept_facts(4))

lemma keeps_evict:
  assumes "adm_inv a" "roomy a" "ad_cap a + length ks < 2 ^ 64"
  shows "\<exists>r. try_admit_with_eviction w ks a = Some r \<and> step_keeps (AdmitEvicting w ks) a (apfst OEvict r)"
proof -
  obtain x b where r: "try_admit_with_eviction w ks a = Some (x, b)"
    using evict_exact [OF assms(1,2) keys_bound [OF assms(1,3)], of w] by fastforce
  then have "step_keeps (AdmitEvicting w ks) a (OEvict x, b)"
    using evict_exact [OF assms(1,2) keys_bound [OF assms(1,3)], of w] assms(1)
    by (auto simp: step_keeps_def dest!: kept_facts split: if_splits)
  with r show ?thesis by simp
qed

lemma keeps_shrink:
  assumes "adm_inv a"
  shows "\<exists>r. try_shrink_cap cap a = Some r \<and> step_keeps (ShrinkCap cap) a (apfst OShrink r)"
proof -
  obtain x b where r: "try_shrink_cap cap a = Some (x, b)" using shrink_exact [OF assms, of cap] by fastforce
  have "adm_inv (a\<lparr> ad_cap := cap \<rparr>)" if "card (physical (ad_ownership a)) \<le> cap" "\<not> ad_cap a < cap"
    using assms that by (auto simp: adm_inv_def)
  with r have "step_keeps (ShrinkCap cap) a (OShrink x, b)"
    using shrink_exact [OF assms, of cap] assms
    by (auto simp: step_keeps_def owners_in_def [of "a\<lparr> ad_cap := cap \<rparr>"] owners_in_def [of a] dest!: kept_facts(3) split: if_splits)
  with r show ?thesis by simp
qed

lemma adm_step_keeps:
  assumes "adm_inv a" "roomy a" "ad_cap a + length (op_keys op) < 2 ^ 64"
  shows "\<exists>r. adm_step op a = Some r \<and> step_keeps op a r"
proof (cases op)
  case Restore
  then show ?thesis
    using adm_inv_new [of "ad_cap a"] assms(3)
    by (simp add: step_keeps_def clear_for_restore_def owners_in_def) (simp add: admission_new_def ownership_new_def)
next
  case (AdmitEvicting w ks)
  then show ?thesis using keeps_evict [OF assms(1,2), of ks w] assms(3) by auto
next
  case (ShrinkCap cap)
  then show ?thesis using keeps_shrink [OF assms(1), of cap] by auto
qed (simp_all add: assms keeps_admit keeps_replace keeps_remove keeps_touch keeps_shed [OF shed_consumers_oldest]
       keeps_shed [OF shed_arb_oldest])

fun adm_run :: "adm_op list \<Rightarrow> fixed_cap_admission \<Rightarrow> (adm_outcome list \<times> fixed_cap_admission) option" where
  "adm_run [] a = Some ([], a)"
| "adm_run (op # ops) a =
     (case adm_step op a of
        None \<Rightarrow> None
      | Some (r, b) \<Rightarrow> map_option (apfst ((#) r)) (adm_run ops b))"

lemma owners_count: "adm_inv a \<Longrightarrow> length (ad_owner_lru a) = card (owners_in a)"
  using lru_okD(2) [OF adm_invD(5)] adm_invD(6) [of a] distinct_card [of "map fst (ad_owner_lru a)"]
  by (simp add: owners_in_def dom_map_of_conv_image_fst)

lemma owners_grow:
  assumes "adm_inv a" "step_keeps op a r"
  shows "length (ad_owner_lru (snd r)) \<le> length (ad_owner_lru a) + 1"
proof -
  have fin: "finite (owners_in a)" by (simp add: owners_in_def finite_dom_map_of)
  have one: "finite (op_owner op)" "card (op_owner op) \<le> 1" by (cases op; simp)+
  have "card (owners_in (snd r)) \<le> card (owners_in a \<union> op_owner op)"
    using assms(2) fin one(1) by (intro card_mono) (auto simp: step_keeps_def)
  also have "\<dots> \<le> card (owners_in a) + 1" using card_Un_le [of "owners_in a" "op_owner op"] one(2) by linarith
  finally show ?thesis using assms by (simp add: owners_count step_keeps_def)
qed

lemma adm_run_keeps:
  assumes "adm_inv a" "length (ad_owner_lru a) + length ops + 2 < 2 ^ 64"
    and "\<forall>op \<in> set ops. ad_cap a + length (op_keys op) < 2 ^ 64"
  shows "\<exists>rs b. adm_run ops a = Some (rs, b) \<and> length rs = length ops \<and> list_all regular rs
    \<and> adm_inv b \<and> ad_cap b \<le> ad_cap a \<and> length (ad_owner_lru b) \<le> length (ad_owner_lru a) + length ops"
  using assms
proof (induction ops arbitrary: a)
  case (Cons op ops)
  have "roomy a" using Cons.prems(2) by (simp add: roomy_def)
  then obtain r where r: "adm_step op a = Some r" "step_keeps op a r"
    using adm_step_keeps [OF Cons.prems(1), of op] Cons.prems(3) by auto
  note grow = owners_grow [OF Cons.prems(1) r(2)]
  have b: "adm_inv (snd r)" "ad_cap (snd r) \<le> ad_cap a" "regular (fst r)" using r(2) by (simp_all add: step_keeps_def)
  have "\<forall>op \<in> set ops. ad_cap (snd r) + length (op_keys op) < 2 ^ 64"
  proof
    fix o' assume "o' \<in> set ops"
    then have "ad_cap a + length (op_keys o') < 2 ^ 64" using Cons.prems(3) by simp
    with b(2) show "ad_cap (snd r) + length (op_keys o') < 2 ^ 64" by linarith
  qed
  moreover have "length (ad_owner_lru (snd r)) + length ops + 2 < 2 ^ 64" using grow Cons.prems(2) by simp
  ultimately obtain rs c where "adm_run ops (snd r) = Some (rs, c)" "length rs = length ops" "list_all regular rs"
    "adm_inv c" "ad_cap c \<le> ad_cap (snd r)" "length (ad_owner_lru c) \<le> length (ad_owner_lru (snd r)) + length ops"
    using Cons.IH [OF b(1)] by blast
  with r(1) b grow show ?case by (auto simp: split_beta)
qed simp

end
