(* ===== verification/Admission_Claims.thy ===== *)
theory Admission_Claims
  imports Eviction_Admission
begin

text \<open>
  The promises of the admission layer as claims about its operations, each with an instance on a small
  run: a tracker that holds two keys and an arbitrage owner that shares one of them, under a cap of
  three.
\<close>

section \<open>A run to instantiate the claims\<close>

definition tracker1 :: explicit_owner where
  "tracker1 = ExplicitOwner CTracker (KPool 1)"

definition arb2 :: explicit_owner where
  "arb2 = ExplicitOwner CArb (KPool 2)"

definition wallet :: explicit_owner where
  "wallet = ExplicitOwner CWallet KWallet"

definition demo_ops :: "adm_op list" where
  "demo_ops = [AdmitNew tracker1 [6, 5], AdmitNew arb2 [7, 6]]"

definition demo_state :: fixed_cap_admission where
  "demo_state = \<lparr> ad_cap = 3, ad_physical_len = 3,
     ad_ownership = \<lparr> eo_groups = [(arb2, [6, 7]), (tracker1, [5, 6])],
       eo_pubkey_owners = [(5, {tracker1}), (6, {arb2, tracker1}), (7, {arb2})] \<rparr>,
     ad_owner_lru = [(arb2, 2), (tracker1, 1)], ad_next_touch_stamp = 3 \<rparr>"

lemmas adm_eval = tracker1_def arb2_def wallet_def
  try_admit_new_group_def plan_insert_readonly_def plan_stamp_assign_def prepare_stamp_base_def u64_checked_add_def
  apply_stamp_plan_def admission_new_def owner_group_def owner_refcount_def usize_checked_add_def
  ownership_new_def normalize_pubkeys_def upsert_group_def hm_get_or_def u64_max_def
  less_explicit_owner_def owner_rank_def

lemma demo_run: "adm_run demo_ops (admission_new 3) = Some ([OAdmit (Inserted [5, 6]), OAdmit (Inserted [7])], demo_state)"
  by (simp add: adm_eval demo_ops_def demo_state_def Let_def)

lemma demo_ok: "adm_inv demo_state" "roomy demo_state"
proof -
  have "adm_inv (admission_new 3)" by (rule adm_inv_new) simp
  from adm_run_keeps [OF this, of demo_ops] show "adm_inv demo_state"
    by (simp add: demo_run) (simp add: admission_new_def demo_ops_def)
  show "roomy demo_state" by (simp add: roomy_def demo_state_def)
qed

lemma demo_owners:
  "owners_of (ad_ownership demo_state) k =
     (if k = 5 then {tracker1} else if k = 6 then {arb2, tracker1} else if k = 7 then {arb2} else {})"
  by (auto simp: owners_of_def demo_state_def tracker1_def arb2_def split: if_splits)

lemma demo_physical: "physical (ad_ownership demo_state) = {5, 6, 7}"
  by (auto simp: physical_def demo_owners)

lemma demo_kept: "kept (ad_ownership demo_state) {tracker1} = {6, 7}" "kept (ad_ownership demo_state) {arb2} = {5, 6}"
  by (auto simp: kept_def demo_owners tracker1_def arb2_def)

lemma demo_opens: "opens (ad_ownership demo_state) TierTracker = {tracker1}"
  by (auto simp: opens_def demo_state_def tracker1_def arb2_def split: if_splits)

lemma demo_cap: "ad_cap demo_state = 3"
  by (simp add: demo_state_def)

lemma demo_wallet: "map_of (eo_groups (ad_ownership demo_state)) wallet = None" "consumer wallet = CWallet"
  by (simp_all add: demo_state_def tracker1_def arb2_def wallet_def)

lemma demo_tier:
  "\<not> (\<forall>t \<in> set (allowed_for_incoming CWallet).
      3 < card (kept (ad_ownership demo_state) (opens (ad_ownership demo_state) t) \<union> set [8]))"
proof -
  have "\<not> 3 < card (kept (ad_ownership demo_state) (opens (ad_ownership demo_state) TierTracker) \<union> set [8])"
    by (simp add: demo_opens demo_kept)
  moreover have "TierTracker \<in> set (allowed_for_incoming CWallet)" by simp
  ultimately show ?thesis by blast
qed

section \<open>Properties\<close>

text \<open>
  C12. From a new admission state, any sequence of admissions, evictions, replacements, removals, touches,
  sheds, cap reductions and restores runs to its end (the victim searches return), no operation
  reports a broken invariant or a rollback, and afterwards the count is the number of distinct
  subscribed keys, within the cap, and exactly the present owners carry stamps, all distinct.
\<close>

theorem admission_runs_sound:
  assumes "length ops + 2 < 2 ^ 64" "\<forall>op \<in> set ops. cap + length (op_keys op) < 2 ^ 64" "cap < 2 ^ 64"
  shows "\<exists>rs a. adm_run ops (admission_new cap) = Some (rs, a)
    \<and> length rs = length ops \<and> list_all regular rs
    \<and> ad_physical_len a = length (snapshot_pubkeys (ad_ownership a))
    \<and> ad_physical_len a \<le> ad_cap a \<and> ad_cap a \<le> cap
    \<and> map le_owner (snapshot_lru_entries a) = map fst (snapshot_owner_groups (ad_ownership a))
    \<and> distinct (map le_last_touch (snapshot_lru_entries a))"
proof -
  obtain rs a where run: "adm_run ops (admission_new cap) = Some (rs, a)" "length rs = length ops" "list_all regular rs"
    "adm_inv a" "ad_cap a \<le> cap"
    using adm_run_keeps [OF adm_inv_new [OF assms(3)], of ops] assms(1,2) by (auto simp: admission_new_def)
  note i = adm_invD [OF run(4)]
  have "ad_physical_len a = length (snapshot_pubkeys (ad_ownership a))"
    by (simp add: i(2) snapshot_pubkeys_physical [OF i(1)])
  moreover have "map fst (ad_owner_lru a) = map fst (eo_groups (ad_ownership a))"
    using bt_wf_names [OF lru_okD(1) [OF i(5)]] bt_wf_names [OF own_invD(1) [OF i(1)]] i(6)
      listing [of "map fst (ad_owner_lru a)" "dom (map_of (ad_owner_lru a))"]
      listing [of "map fst (eo_groups (ad_ownership a))" "dom (map_of (ad_owner_lru a))"]
    by (simp add: dom_map_of_conv_image_fst)
  moreover have "map le_owner (snapshot_lru_entries a) = map fst (ad_owner_lru a)"
    "map le_last_touch (snapshot_lru_entries a) = map snd (ad_owner_lru a)"
    by (simp_all add: snapshot_lru_entries_def split_beta comp_def)
  moreover have "distinct (map snd (ad_owner_lru a))" using i(5) by (simp add: lru_ok_def)
  ultimately show ?thesis using run(1-3,5) i(3) by (simp add: snapshot_owner_groups_def)
qed

theorem admission_runs_sound_witness:
  "\<exists>rs a. adm_run (demo_ops @ [AdmitEvicting wallet [8], ShrinkCap 2]) (admission_new 3) = Some (rs, a)
    \<and> length rs = 4 \<and> list_all regular rs \<and> ad_physical_len a \<le> ad_cap a"
  using admission_runs_sound [of "demo_ops @ [AdmitEvicting wallet [8], ShrinkCap 2]" 3]
  by (auto simp: demo_ops_def)

text \<open>
  C13. Admission with eviction always returns. It refuses a group without keys and an owner that is
  present, inserts without eviction exactly when the keys fit, and refuses as protected exactly when
  the widest tier open to the consumer would still leave too many keys. Otherwise the victims are
  owners of the opened tier, which is allowed to the consumer and the cheapest that suffices, the keys
  reported as added and removed are the exact physical changes, the new owner holds its keys, every
  other owner keeps its keys and its place in the order of use, and the state is within the cap.
\<close>

theorem evicting_admission_exact:
  assumes "adm_inv a" "roomy a" "card (physical (ad_ownership a) \<union> set ks) < 2 ^ 64"
  shows "\<exists>r. try_admit_with_eviction w ks a = Some r
    \<and> (if ks = [] then r = (EvictRejectedInvalidInput, a)
       else if map_of (eo_groups (ad_ownership a)) w \<noteq> None then r = (EvictRejectedExistingOwner, a)
       else if card (physical (ad_ownership a) \<union> set ks) \<le> ad_cap a
       then fst r = InsertedNoEviction (sorted_list_of_set (set ks - physical (ad_ownership a)))
         \<and> admitted w ks a (snd r)
       else if \<forall>t \<in> set (allowed_for_incoming (consumer w)).
                 ad_cap a < card (kept (ad_ownership a) (opens (ad_ownership a) t) \<union> set ks)
       then r = (EvictRejectedProtected (card (set ks - physical (ad_ownership a)))
                   (card (physical (ad_ownership a) \<union> set ks) - ad_cap a), a)
       else \<exists>p. plan_for (ad_ownership a) (consumer w) (set ks) (ad_cap a) p
         \<and> fst r = InsertedWithEviction (sorted_list_of_set (set ks - physical (ad_ownership a)))
                     (vp_physical_freed p) (vp_victims p) (vp_opened_through p)
         \<and> admitted_for (vp_victims p) w ks a (snd r))"
  using assms by (rule evict_exact)

theorem evicting_admission_exact_witness:
  "\<exists>r p. try_admit_with_eviction wallet [8] demo_state = Some r
    \<and> plan_for (ad_ownership demo_state) CWallet {8} 3 p
    \<and> fst r = InsertedWithEviction [8] (vp_physical_freed p) (vp_victims p) (vp_opened_through p)
    \<and> admitted_for (vp_victims p) wallet [8] demo_state (snd r)"
  using evicting_admission_exact [OF demo_ok, of "[8]" wallet, unfolded demo_wallet demo_cap demo_physical if_not_P [OF demo_tier]]
  by auto

text \<open>
  C14. Victim selection returns and never reports an internal violation. A request is refused as
  invalid exactly when it has no keys or names an owner that is present; it needs no eviction exactly
  when all keys fit the cap; it is refused as protected exactly when even the widest tier open to its
  consumer leaves too many keys. Otherwise the plan evicts only owners of the tier it names, once each,
  no cheaper tier would do, and it states the freed keys and the final count exactly, within the cap.
\<close>

theorem eviction_plan_correct:
  assumes "own_inv s" "exact_snapshot s lru snap" "card (physical s \<union> set ks) < 2 ^ 64"
  shows "\<exists>r. select_eviction_victims snap \<lparr> rq_incoming_owner = w, rq_incoming_pubkeys = ks, rq_cap = cap \<rparr> = Some r
    \<and> (if ks = [] \<or> map_of (eo_groups s) w \<noteq> None then r = VRejectedInvalidInput
       else if card (physical s \<union> set ks) \<le> cap
       then r = VNoEvictionNeeded (card (set ks - physical s)) (card (physical s \<union> set ks))
       else if \<forall>t \<in> set (allowed_for_incoming (consumer w)). cap < card (kept s (opens s t) \<union> set ks)
       then r = VRejectedProtected (card (set ks - physical s)) (card (physical s \<union> set ks) - cap)
       else \<exists>p. r = VPlanned p \<and> plan_for s (consumer w) (set ks) cap p)"
  using assms by (rule eviction_plan_exact)

theorem eviction_plan_correct_witness:
  "\<exists>snap p. from_ownership (ad_ownership demo_state) (snapshot_lru_entries demo_state) = Inr snap
    \<and> select_eviction_victims snap \<lparr> rq_incoming_owner = wallet, rq_incoming_pubkeys = [8], rq_cap = 3 \<rparr> = Some (VPlanned p)
    \<and> plan_for (ad_ownership demo_state) CWallet {8} 3 p"
proof -
  obtain snap lru where snap: "from_ownership (ad_ownership demo_state) (snapshot_lru_entries demo_state) = Inr snap"
    "exact_snapshot (ad_ownership demo_state) lru snap"
    by (rule live_snapshot [OF demo_ok(1)])
  from eviction_plan_correct [OF adm_invD(1) [OF demo_ok(1)] snap(2), of "[8]" wallet 3,
      unfolded demo_wallet demo_cap demo_physical if_not_P [OF demo_tier]] snap(1)
  show ?thesis by auto
qed



text \<open>
  Shedding under load takes only owners of the consumers it was asked for, and an arbitrage shed never
  a pool that must stay hot; it takes as many as were requested or as there are, the least recently
  used first, counts the owners and the keys that left exactly, and leaves the others untouched.
\<close>

theorem shedding_takes_oldest:
  assumes "adm_inv a"
  shows "sheds_oldest (\<lambda>w. consumer w = CTracker) n a (shed_tracker_owner_groups n a)
    \<and> sheds_oldest (\<lambda>w. consumer w = CMomentum) n a (shed_momentum_owner_groups n a)
    \<and> sheds_oldest (\<lambda>w. consumer w = CArb \<and> \<not> hot_owner hot w) n a (shed_arb_owner_groups n hot a)"
  using shed_consumers_oldest [OF assms, of "[CTracker]" n] shed_consumers_oldest [OF assms, of "[CMomentum]" n]
    shed_arb_oldest [OF assms]
  by (simp add: shed_tracker_owner_groups_def shed_momentum_owner_groups_def)

theorem shedding_takes_oldest_witness:
  "adm_inv demo_state \<and> sheds_oldest (\<lambda>w. consumer w = CArb \<and> \<not> hot_owner (\<lambda>k. k = 2) w) 1 demo_state
     (shed_arb_owner_groups 1 (\<lambda>k. k = 2) demo_state)"
  using shedding_takes_oldest [OF demo_ok(1), of 1 "\<lambda>k. k = 2"] demo_ok(1) by blast

text \<open>
  Replacing a group is refused without effect for an empty group, for an owner that is absent, and
  exactly when the keys of the other owners and the new keys exceed the cap; an equal group is
  reported as unchanged. Otherwise the reported keys are the exact physical changes, keys shared with
  other owners stay, and the owner becomes the most recent one without changing the order of the rest.
\<close>

theorem replacement_exact:
  assumes "adm_inv a" "roomy a"
  shows "if ks = [] then try_replace_group w ks a = (ReplaceRejectedInvalidGroup, a)
     else if map_of (eo_groups (ad_ownership a)) w = None then try_replace_group w ks a = (ReplaceRejectedMissingOwner, a)
     else if map_of (eo_groups (ad_ownership a)) w = Some (normalize_pubkeys ks)
     then try_replace_group w ks a = (ReplaceUnchanged, a)
     else if ad_cap a < card (kept (ad_ownership a) {w} \<union> set ks)
     then try_replace_group w ks a = (ReplaceRejectedCap (card (set ks - physical (ad_ownership a)))
            (ad_cap a - ad_physical_len a + card (physical (ad_ownership a) - (kept (ad_ownership a) {w} \<union> set ks))), a)
     else fst (try_replace_group w ks a) = GroupReplaced (sorted_list_of_set (set ks - physical (ad_ownership a)))
            (sorted_list_of_set (physical (ad_ownership a) - (kept (ad_ownership a) {w} \<union> set ks)))
       \<and> admitted w ks a (snd (try_replace_group w ks a))"
  using assms by (rule replace_exact)

theorem replacement_exact_witness:
  "fst (try_replace_group arb2 [8] demo_state) = GroupReplaced [8] [7]
    \<and> admitted arb2 [8] demo_state (snd (try_replace_group arb2 [8] demo_state))"
proof -
  have "map_of (eo_groups (ad_ownership demo_state)) arb2 = Some [6, 7]" by (simp add: demo_state_def)
  moreover have "{5, 6, 7} - ({5, 6} \<union> {8}) = {7 :: pubkey}" by auto
  ultimately show ?thesis
    using replacement_exact [OF demo_ok, of "[8]" arb2, unfolded demo_cap demo_physical demo_kept]
    by (simp add: normalize_pubkeys_def)
qed

text \<open>
  Assigning a stamp never fails while another owner fits in memory: the owner becomes the most recent
  one, the counter stays above every stamp, the other owners keep their order, and their stamps too
  unless the counter is at the end of 64 bits, where all are renumbered.
\<close>

theorem stamp_order_survives_overflow:
  assumes "lru_ok lru n" "length lru + 2 < 2 ^ 64"
  shows "\<exists>plan t. plan_stamp_assign lru n w = Inr plan
    \<and> lru_ok (sp_owner_lru plan) (sp_next_touch_stamp plan)
    \<and> dom (map_of (sp_owner_lru plan)) = insert w (dom (map_of lru))
    \<and> map_of (sp_owner_lru plan) w = Some t \<and> unat (sp_next_touch_stamp plan) = unat t + 1
    \<and> (\<forall>v s. v \<noteq> w \<longrightarrow> map_of (sp_owner_lru plan) v = Some s \<longrightarrow> s < t)
    \<and> same_order w lru (sp_owner_lru plan)
    \<and> (n \<noteq> u64_max \<longrightarrow> (\<forall>v. v \<noteq> w \<longrightarrow> map_of (sp_owner_lru plan) v = map_of lru v))"
  using assms by (rule plan_stamp_assign_ok)

theorem stamp_order_survives_overflow_witness:
  "\<exists>plan. plan_stamp_assign [(arb2, 9), (tracker1, 1)] u64_max wallet = Inr plan
    \<and> same_order wallet [(arb2, 9), (tracker1, 1)] (sp_owner_lru plan)"
proof -
  have "lru_ok [(arb2, 9), (tracker1, 1)] u64_max"
    by (simp add: lru_ok_def bt_wf_def arb2_def tracker1_def less_explicit_owner_def owner_rank_def
      word_less_nat_alt unat_u64_max)
  from stamp_order_survives_overflow [OF this, of wallet] show ?thesis by auto
qed

end
