(* ===== verification/In_Flight.thy ===== *)
theory In_Flight
  imports Ipc_Schema "HOL-Library.Monad_Syntax"
begin

text \<open>
  The registry of arbitrage intents in flight (\<open>arbitrage/in_flight.rs\<close>): one intent per mint and
  route until the execution engine reports a terminal outcome or the time to live and a grace period
  have passed. \<open>route_gate\<close> and \<open>register_published\<close> are the two places where the strategy uses it
  (\<open>bin/arb_strategy.rs\<close>). An operation that reads the clock takes the instant as an argument.
\<close>

section \<open>The registry\<close>















section \<open>Its use by the strategy\<close>



section \<open>Entries under one operation\<close>


























section \<open>One intent per route\<close>



end
