(* ===== verification/Bin_Walker.thy ===== *)
theory Bin_Walker
  imports Account_Layout
begin

text \<open>
  Quotes of Meteora DLMM pools by walking over price bins (\<open>solana/dex/meteora_bin_walker.rs\<close>) and the
  layout of the bin arrays (\<open>solana/dex/meteora_bin_array_layout.rs\<close>). Prices are 64.64 fixed-point numbers
  in \<open>u128\<close>. The floating-point price of a bin is for diagnostics only and left out, with the price
  impact that reads it; error texts are constructors.

  \<open>quote_exact_in\<close> returns \<open>None\<close> when its loop does not end.
\<close>

unbundle bit_operations_syntax

section \<open>Fixed-point prices\<close>

definition basis_point_max :: u128 where
  "basis_point_max = 10000"

definition scale_offset :: nat where
  "scale_offset = 64"

definition fixed_one :: u128 where
  "fixed_one = push_bit scale_offset 1"

definition max_exponential :: u32 where
  "max_exponential = 0x80000"

text \<open>One \<open>pow_step!\<close>: multiply when the bit of the exponent is set, then square.\<close>

definition pow_multiply :: "u32 \<Rightarrow> nat \<Rightarrow> u128 \<Rightarrow> u128 \<Rightarrow> u128 option" where
  "pow_multiply e n result squared =
     (if bit e n then map_option (drop_bit scale_offset) (u128_checked_mul result squared) else Some result)"

definition pow_step :: "u32 \<Rightarrow> nat \<Rightarrow> u128 \<times> u128 \<Rightarrow> (u128 \<times> u128) option" where
  "pow_step e n = (\<lambda>(result, squared).
     Option.bind (pow_multiply e n result squared) (\<lambda>result'.
     Option.bind (u128_checked_mul squared squared) (\<lambda>square.
     Some (result', drop_bit scale_offset square))))"

fun pow_steps :: "u32 \<Rightarrow> nat list \<Rightarrow> u128 \<times> u128 \<Rightarrow> (u128 \<times> u128) option" where
  "pow_steps e [] s = Some s"
| "pow_steps e (n # ns) s = Option.bind (pow_step e n s) (pow_steps e ns)"

definition fixed_pow :: "u128 \<Rightarrow> i32 \<Rightarrow> u128 option" where
  "fixed_pow base e =
     (if e = 0 then Some fixed_one
      else
        let negative = sint e < 0;
            n = (if negative then - e else e)
        in if max_exponential \<le> n then None
           else
             Option.bind
               (if fixed_one \<le> base
                then map_option (\<lambda>q. (q, \<not> negative)) (u128_checked_div (- 1) base)
                else Some (base, negative)) (\<lambda>(squared_base, invert).
             Option.bind (pow_steps n [0 ..< 18] (fixed_one, squared_base)) (\<lambda>(result, squared).
             Option.bind (pow_multiply n 18 result squared) (\<lambda>result.
             if result = 0 then None
             else if invert then u128_checked_div (- 1) result else Some result))))"

definition get_price_from_id :: "i32 \<Rightarrow> u16 \<Rightarrow> u128 option" where
  "get_price_from_id active_id bin_step =
     Option.bind (u128_checked_shl (ucast bin_step) scale_offset) (\<lambda>shifted.
     Option.bind (u128_checked_add fixed_one (shifted div basis_point_max)) (\<lambda>base.
     fixed_pow base active_id))"

section \<open>Amounts at a price\<close>

definition mul_shr :: "u128 \<Rightarrow> u128 \<Rightarrow> u128 option" where
  "mul_shr a b = map_option (drop_bit scale_offset) (u128_checked_mul a b)"

definition mul_shr_ceil :: "u128 \<Rightarrow> u128 \<Rightarrow> u128 option" where
  "mul_shr_ceil a b = map_option (\<lambda>product. drop_bit scale_offset (product + (push_bit scale_offset 1 - 1)))
     (u128_checked_mul a b)"

definition shl_div :: "u128 \<Rightarrow> u128 \<Rightarrow> u128 option" where
  "shl_div a b = (if b = 0 then None else map_option (\<lambda>n. n div b) (u128_checked_shl a scale_offset))"

definition u128_div_ceil :: "u128 \<Rightarrow> u128 \<Rightarrow> u128" where
  "u128_div_ceil a b = (if a mod b > 0 then a div b + 1 else a div b)"

definition shl_div_ceil :: "u128 \<Rightarrow> u128 \<Rightarrow> u128 option" where
  "shl_div_ceil a b = (if b = 0 then None else map_option (\<lambda>n. u128_div_ceil n b) (u128_checked_shl a scale_offset))"

datatype dlmm_error =
    AmountNotPositive
  | PriceOverflow i32
  | AmountOutOverflow
  | AmountOutExceedsU64
  | AmountInOverflow
  | AmountInExceedsU64

definition get_amount_out :: "u64 \<Rightarrow> u128 \<Rightarrow> bool \<Rightarrow> dlmm_error + u64" where
  "get_amount_out amount_in price swap_for_y =
     (case (if swap_for_y then mul_shr (as_u128 amount_in) price else shl_div (as_u128 amount_in) price) of
        None \<Rightarrow> Inl AmountOutOverflow
      | Some out \<Rightarrow> (case u64_try_from_u128 out of None \<Rightarrow> Inl AmountOutExceedsU64 | Some v \<Rightarrow> Inr v))"

definition get_amount_in :: "u64 \<Rightarrow> u128 \<Rightarrow> bool \<Rightarrow> dlmm_error + u64" where
  "get_amount_in amount_out price swap_for_y =
     (case (if swap_for_y then shl_div_ceil (as_u128 amount_out) price else mul_shr_ceil (as_u128 amount_out) price) of
        None \<Rightarrow> Inl AmountInOverflow
      | Some inp \<Rightarrow> (case u64_try_from_u128 inp of None \<Rightarrow> Inl AmountInExceedsU64 | Some v \<Rightarrow> Inr v))"

section \<open>The walker\<close>

record bin =
  bn_id :: i32
  bn_amount_x :: u64
  bn_amount_y :: u64

record bin_walker =
  bw_active_id :: i32
  bw_bin_step :: u16
  bw_bins :: "bin list"

definition walker_new :: "i32 \<Rightarrow> u16 \<Rightarrow> bin_walker" where
  "walker_new active_id bin_step = \<lparr> bw_active_id = active_id, bw_bin_step = bin_step, bw_bins = [] \<rparr>"

definition add_bin :: "i32 \<Rightarrow> u64 \<Rightarrow> u64 \<Rightarrow> bin_walker \<Rightarrow> bin_walker" where
  "add_bin i amount_x amount_y w = w\<lparr> bw_bins := sort_key (\<lambda>b. sint (bn_id b))
     (bw_bins w @ [\<lparr> bn_id = i, bn_amount_x = amount_x, bn_amount_y = amount_y \<rparr>]) \<rparr>"

definition walker_from_bins :: "i32 \<Rightarrow> u16 \<Rightarrow> (i32 \<times> u64 \<times> u64) list \<Rightarrow> bin_walker" where
  "walker_from_bins active_id bin_step bins =
     fold (\<lambda>(i, x, y) w. if x > 0 \<or> y > 0 then add_bin i x y w else w) bins (walker_new active_id bin_step)"

definition dlmm_fee_bps :: "u16 \<Rightarrow> u32" where
  "dlmm_fee_bps bin_step = 10 + min (ucast bin_step) 100"

definition bin_map :: "bin list \<Rightarrow> (i32, u64 \<times> u64) hashmap" where
  "bin_map bins = fold (\<lambda>b. hm_put (bn_id b) (bn_amount_x b, bn_amount_y b)) bins []"

text \<open>What the bin \<open>id\<close> gives for \<open>remaining\<close>: the output and the input it takes, if it gives anything.\<close>

definition fill_bin ::
    "(i32, u64 \<times> u64) hashmap \<Rightarrow> u16 \<Rightarrow> bool \<Rightarrow> u64 \<Rightarrow> i32 \<Rightarrow> dlmm_error + (u64 \<times> u64) option" where
  "fill_bin bins bin_step swap_for_y remaining i =
     (case hm_get bins i of
        None \<Rightarrow> Inr None
      | Some (amount_x, amount_y) \<Rightarrow>
          let max_out = (if swap_for_y then amount_y else amount_x) in
          if max_out = 0 then Inr None
          else case get_price_from_id i bin_step of
            None \<Rightarrow> Inl (PriceOverflow i)
          | Some price \<Rightarrow>
              (case get_amount_out remaining price swap_for_y of
                 Inl err \<Rightarrow> Inl err
               | Inr ideal_out \<Rightarrow>
                   let actual_out = min ideal_out max_out in
                   if actual_out = 0 then Inr None
                   else if actual_out = ideal_out then Inr (Some (actual_out, remaining))
                   else case get_amount_in actual_out price swap_for_y of
                     Inl err \<Rightarrow> Inl err
                   | Inr consumed_in \<Rightarrow> Inr (Some (actual_out, consumed_in))))"

definition out_of_range :: "bool \<Rightarrow> i32 \<Rightarrow> i32 \<Rightarrow> i32 \<Rightarrow> bool" where
  "out_of_range swap_for_y min_id max_id i \<longleftrightarrow>
     swap_for_y \<and> sint i < sint min_id \<or> \<not> swap_for_y \<and> sint max_id < sint i"

partial_function (option) walk_bins ::
    "(i32, u64 \<times> u64) hashmap \<Rightarrow> u16 \<Rightarrow> bool \<Rightarrow> i32 \<Rightarrow> i32 \<Rightarrow> u64 \<Rightarrow> u64 \<Rightarrow> nat \<Rightarrow> i32
      \<Rightarrow> (dlmm_error + u64 \<times> nat) option" where
  "walk_bins bins bin_step swap_for_y min_id max_id remaining total_out crossed i =
     (if remaining = 0 \<or> out_of_range swap_for_y min_id max_id i then Some (Inr (total_out, crossed))
      else case fill_bin bins bin_step swap_for_y remaining i of
        Inl err \<Rightarrow> Some (Inl err)
      | Inr None \<Rightarrow>
          walk_bins bins bin_step swap_for_y min_id max_id remaining total_out crossed
            (i + (if swap_for_y then - 1 else 1))
      | Inr (Some (out, consumed)) \<Rightarrow>
          (let remaining' = saturating_sub remaining consumed;
               total_out' = saturating_add total_out out
           in if remaining' = 0 then Some (Inr (total_out', crossed + 1))
              else walk_bins bins bin_step swap_for_y min_id max_id remaining' total_out' (crossed + 1)
                     (i + (if swap_for_y then - 1 else 1))))"

definition amount_after_fee :: "u64 \<Rightarrow> u32 \<Rightarrow> u64" where
  "amount_after_fee amount_in fee_bps = saturating_sub amount_in (as_u64 (as_u128 amount_in * ucast fee_bps div 10000))"

definition quote_exact_in ::
    "bin_walker \<Rightarrow> u64 \<Rightarrow> u32 \<Rightarrow> bool \<Rightarrow> (dlmm_error + u64 \<times> nat \<times> u32) option" where
  "quote_exact_in w amount_in fee_bps swap_for_y =
     (if amount_in = 0 then Some (Inl AmountNotPositive)
      else if amount_after_fee amount_in fee_bps = 0 \<or> bw_bins w = [] then Some (Inr (0, 0, fee_bps))
      else map_option (map_sum id (\<lambda>(out, crossed). (out, crossed, fee_bps)))
        (walk_bins (bin_map (bw_bins w)) (bw_bin_step w) swap_for_y
          (bn_id (hd (bw_bins w))) (bn_id (last (bw_bins w)))
          (amount_after_fee amount_in fee_bps) 0 0 (bw_active_id w)))"

definition quote_x_to_y :: "bin_walker \<Rightarrow> u64 \<Rightarrow> u32 \<Rightarrow> (dlmm_error + u64 \<times> nat \<times> u32) option" where
  "quote_x_to_y w amount_in fee_bps = quote_exact_in w amount_in fee_bps True"

definition quote_y_to_x :: "bin_walker \<Rightarrow> u64 \<Rightarrow> u32 \<Rightarrow> (dlmm_error + u64 \<times> nat \<times> u32) option" where
  "quote_y_to_x w amount_in fee_bps = quote_exact_in w amount_in fee_bps False"

section \<open>Bin arrays\<close>

record bin_array =
  ba_discriminator :: "u8 list"
  ba_index :: u64 \<comment> \<open>\<open>i64\<close>, read by \<open>sint\<close>\<close>
  ba_version :: u8
  ba_padding :: "u8 list"
  ba_lb_pair :: pubkey
  ba_bins :: "(u64 \<times> u64) list" \<comment> \<open>amounts of X and Y\<close>

definition bins_per_array :: nat where
  "bins_per_array = 70"

definition bin_array_account_size :: nat where
  "bin_array_account_size = 8 + 8 + 1 + 7 + 32 + (bins_per_array * 24)"

fun parse_bins :: "u8 list \<Rightarrow> nat list \<Rightarrow> (u64 \<times> u64) list outcome" where
  "parse_bins data [] = Done []"
| "parse_bins data (i # is) =
     (let bin_offset = 56 + (i * 32) in
      if bin_offset + 32 > length data then Done []
      else
        bind_outcome (word_at data bin_offset 8) (\<lambda>amount_x.
        bind_outcome (word_at data (bin_offset + 16) 8) (\<lambda>amount_y.
        bind_outcome (parse_bins data is) (\<lambda>bins.
        Done ((amount_x, amount_y) # bins)))))"

definition parse_bin_array :: "u8 list \<Rightarrow> bin_array option outcome" where
  \<comment> \<open>\<open>None\<close> is the error of \<open>ensure!\<close>\<close>
  "parse_bin_array data =
     (if length data < 56 then Done None
      else
        bind_outcome (byte_slice data 0 8) (\<lambda>discriminator.
        bind_outcome (word_at data 8 8) (\<lambda>index.
        bind_outcome (byte_at data 16) (\<lambda>version.
        bind_outcome (byte_slice data 17 24) (\<lambda>padding.
        bind_outcome (pubkey_at data 24) (\<lambda>lb_pair.
        bind_outcome (parse_bins data [0 ..< bins_per_array]) (\<lambda>bins.
        Done (Some \<lparr> ba_discriminator = discriminator, ba_index = index, ba_version = version,
          ba_padding = padding, ba_lb_pair = lb_pair, ba_bins = bins \<rparr>))))))))"

definition get_bin :: "bin_array \<Rightarrow> nat \<Rightarrow> (u64 \<times> u64) option" where
  "get_bin a off = (if off < length (ba_bins a) then Some (ba_bins a ! off) else None)"

definition offset_to_bin_id :: "bin_array \<Rightarrow> u64 \<Rightarrow> u64" where
  "offset_to_bin_id a off = ba_index a * of_nat bins_per_array + off"

end
