(* ===== verification/Bin_Properties.thy ===== *)
theory Bin_Properties
  imports Bin_Walker
begin

text \<open>
  The fixed-point power equals a square-and-multiply on natural numbers, fails only out of range or
  by underflow, and errs only downwards. A bin never gives more than its liquidity nor more than its
  price allows, and never takes more than is left. The walk returns and its quote is the sum of such
  fills over the bins in order, none skipped.
\<close>

section \<open>Words as natural numbers\<close>

lemma unat_fixed_one: "unat fixed_one = 2 ^ 64"
  by (simp add: fixed_one_def scale_offset_def unsigned_push_bit_eq push_bit_eq_mult take_bit_eq_mod)

lemma unat_shl: "unat a < 2 ^ 64 \<Longrightarrow> \<exists>c. u128_checked_shl a scale_offset = Some c \<and> unat c = unat a * 2 ^ 64"
proof -
  assume "unat a < 2 ^ 64"
  moreover have "unat (push_bit 64 a) = take_bit 128 (push_bit 64 (unat a))" by (simp only: unsigned_push_bit_eq) simp
  ultimately have "unat (push_bit 64 a) = unat a * 2 ^ 64" by (simp only: take_bit_eq_mod push_bit_eq_mult) simp
  then show ?thesis by (simp add: u128_checked_shl_def scale_offset_def)
qed

section \<open>The power\<close>

definition fx_step :: "nat \<Rightarrow> nat \<Rightarrow> nat \<times> nat \<Rightarrow> nat \<times> nat" where
  "fx_step e n = (\<lambda>(r, s). (if bit e n then r * s div 2 ^ 64 else r, s * s div 2 ^ 64))"

definition fx_pow :: "nat \<Rightarrow> nat \<Rightarrow> nat" where
  "fx_pow q e = fst (fold (fx_step e) [0 ..< 19] (2 ^ 64, q))"

definition fx_small :: "nat \<times> nat \<Rightarrow> bool" where
  "fx_small = (\<lambda>(r, s). r \<le> 2 ^ 64 \<and> s < 2 ^ 64)"

lemma product_small: "a \<le> 2 ^ 64 \<Longrightarrow> b < 2 ^ 64 \<Longrightarrow> a * b < (2::nat) ^ 128"
  using mult_mono [of a "2 ^ 64" b "2 ^ 64 - 1"] by simp

lemma fx_small_step: "fx_small p \<Longrightarrow> fx_small (fx_step e n p)"
proof (cases p)
  case (Pair r s)
  assume "fx_small p"
  then have rs: "r \<le> 2 ^ 64" "s < 2 ^ 64" by (simp_all add: fx_small_def Pair)
  then have "r * s \<le> 2 ^ 64 * s" "s * s < 2 ^ 128" using product_small [of s s] by simp_all
  then have "r * s div 2 ^ 64 \<le> s" "s * s div 2 ^ 64 < 2 ^ 64"
    using div_le_mono [of "r * s" "2 ^ 64 * s" "2 ^ 64"] by (simp_all add: div_less_iff_less_mult)
  with rs show ?thesis by (simp add: fx_small_def fx_step_def Pair)
qed

lemma pow_multiply_exact:
  assumes "fx_small (unat r, unat s)"
  shows "\<exists>r'. pow_multiply e n r s = Some r' \<and> unat r' = fst (fx_step (unat e) n (unat r, unat s))"
  using unat_checked_mul [of r s] product_small assms
  by (auto simp: pow_multiply_def fx_step_def fx_small_def unat_drop_bit scale_offset_def bit_unsigned_iff)

lemma pow_step_exact:
  assumes "fx_small (unat r, unat s)"
  shows "\<exists>r' s'. pow_step e n (r, s) = Some (r', s') \<and> (unat r', unat s') = fx_step (unat e) n (unat r, unat s)"
proof -
  obtain r' where r': "pow_multiply e n r s = Some r'" "unat r' = fst (fx_step (unat e) n (unat r, unat s))"
    using pow_multiply_exact [OF assms] by blast
  have "unat s \<le> 2 ^ 64" "unat s < 2 ^ 64" using assms by (simp_all add: fx_small_def)
  then obtain c where "u128_checked_mul s s = Some c" "unat c = unat s * unat s"
    using unat_checked_mul [of s s] product_small by blast
  with r' show ?thesis by (auto simp: pow_step_def fx_step_def unat_drop_bit scale_offset_def)
qed

lemma pow_steps_exact:
  assumes "fx_small (unat r, unat s)"
  shows "\<exists>r' s'. pow_steps e ns (r, s) = Some (r', s') \<and> (unat r', unat s') = fold (fx_step (unat e)) ns (unat r, unat s)
    \<and> fx_small (unat r', unat s')"
  using assms
proof (induction ns arbitrary: r s)
  case (Cons n ns)
  obtain r1 s1 where one: "pow_step e n (r, s) = Some (r1, s1)" "(unat r1, unat s1) = fx_step (unat e) n (unat r, unat s)"
    using pow_step_exact [OF Cons.prems] by blast
  have "fx_small (unat r1, unat s1)" unfolding one(2) by (rule fx_small_step [OF Cons.prems])
  from Cons.IH [OF this] one show ?case by auto
qed simp

lemma sint_bounds: "- (2 ^ 31) \<le> sint (e :: i32)" "sint (e :: i32) < 2 ^ 31"
  using sint_range_size [of e] by (simp_all add: word_size)

lemma unat_abs:
  assumes "sint (e :: i32) \<noteq> 0"
  shows "unat (if sint e < 0 then - e else e) = nat \<bar>sint e\<bar>"
proof -
  have u: "uint e = sint e mod 2 ^ 32" using uint_sint [of e] by (simp add: take_bit_eq_mod)
  show ?thesis
  proof (cases "sint e < 0")
    case True
    have "uint (- e) = - uint e mod 2 ^ 32" using uint_word_ariths(4) [of e] by simp
    also have "\<dots> = - sint e mod 2 ^ 32" unfolding u by (rule mod_minus_eq)
    finally have "uint (- e) = - sint e" using True sint_bounds [of e] by simp
    with True show ?thesis by (simp add: unat_eq_nat_uint)
  next
    case False
    with u sint_bounds [of e] show ?thesis by (simp add: unat_eq_nat_uint)
  qed
qed

lemma fixed_pow_exact:
  assumes "2 ^ 64 \<le> unat base" "sint e \<noteq> 0"
  defines "r \<equiv> fx_pow ((2 ^ 128 - 1) div unat base) (nat \<bar>sint e\<bar>)"
  shows "map_option unat (fixed_pow base e) =
    (if 2 ^ 19 \<le> nat \<bar>sint e\<bar> \<or> r = 0 then None else Some (if sint e < 0 then r else (2 ^ 128 - 1) div r))"
proof -
  let ?n = "if sint e < 0 then - e else e"
  define q where "q = (- 1 :: u128) div base"
  have n: "unat ?n = nat \<bar>sint e\<bar>" by (rule unat_abs [OF assms(2)])
  have q: "unat q = (2 ^ 128 - 1) div unat base"
    by (simp add: q_def unat_div unat_minus_1)
  have "(2 ^ 128 - 1) div unat base \<le> (2 ^ 128 - 1) div 2 ^ 64" by (rule div_le_mono2) (use assms(1) in simp_all)
  then have small: "fx_small (unat fixed_one, unat q)" by (simp add: fx_small_def unat_fixed_one q)
  obtain r1 s1 where steps: "pow_steps ?n [0 ..< 18] (fixed_one, q) = Some (r1, s1)"
    "(unat r1, unat s1) = fold (fx_step (nat \<bar>sint e\<bar>)) [0 ..< 18] (2 ^ 64, unat q)" "fx_small (unat r1, unat s1)"
    using pow_steps_exact [OF small, of ?n "[0 ..< 18]"] unfolding n unat_fixed_one by blast
  obtain r2 where r2: "pow_multiply ?n 18 r1 s1 = Some r2" "unat r2 = fst (fx_step (nat \<bar>sint e\<bar>) 18 (unat r1, unat s1))"
    using pow_multiply_exact [OF steps(3), of ?n 18] unfolding n by blast
  have upt: "[0 ..< 19] = [0 ..< 18] @ [18 :: nat]" by (simp add: upt_rec)
  have r: "r = unat r2" by (simp only: r_def fx_pow_def upt fold_append fold_simps comp_def steps(2) [symmetric] q [symmetric] r2(2) id_apply)
  have one: "fixed_one \<le> base" using assms(1) by (simp add: word_le_nat_alt unat_fixed_one)
  have ne: "e \<noteq> 0" "base \<noteq> 0" using assms by auto
  have big: "max_exponential \<le> ?n \<longleftrightarrow> 2 ^ 19 \<le> nat \<bar>sint e\<bar>"
    unfolding word_le_nat_alt n by (simp add: max_exponential_def)
  have zero: "r2 = 0 \<longleftrightarrow> unat r2 = 0" by (simp add: unat_eq_0)
  show ?thesis
    using ne one steps(1) r2(1) big zero
    by (simp add: fixed_pow_def Let_def u128_checked_div_def q_def [symmetric] r unat_div unat_minus_1)
qed

text \<open>Rounding only ever lowers the result.\<close>

lemma fx_step_bound:
  assumes "s * 2 ^ (64 * (2 ^ k - 1)) \<le> q ^ (2 ^ k)" "r * 2 ^ (64 * m) \<le> 2 ^ 64 * q ^ m"
  shows "s * s div 2 ^ 64 * 2 ^ (64 * (2 ^ Suc k - 1)) \<le> (q :: nat) ^ (2 ^ Suc k)"
    and "r * s div 2 ^ 64 * 2 ^ (64 * (m + 2 ^ k)) \<le> 2 ^ 64 * q ^ (m + 2 ^ k)"
proof -
  define K :: nat where "K = 2 ^ k - 1"
  have k: "2 ^ k = K + 1" "2 ^ Suc k - 1 = K + K + 1"
  proof -
    show "2 ^ k = K + 1" by (simp add: K_def)
    then show "2 ^ Suc k - 1 = K + K + 1" by simp
  qed
  have drop: "x div 2 ^ 64 * 2 ^ (64 * (a + 1)) \<le> x * 2 ^ (64 * a)" for x a :: nat
  proof -
    have "x div 2 ^ 64 * 2 ^ (64 * (a + 1)) = (x div 2 ^ 64 * 2 ^ 64) * 2 ^ (64 * a)"
      by (simp add: power_add algebra_simps)
    also have "\<dots> \<le> x * 2 ^ (64 * a)" by (rule mult_right_mono) simp_all
    finally show ?thesis .
  qed
  have s: "s * 2 ^ (64 * K) \<le> q ^ (2 ^ k)" using assms(1) by (simp add: K_def)
  have "s * s div 2 ^ 64 * 2 ^ (64 * (K + K + 1)) \<le> s * s * 2 ^ (64 * (K + K))" by (rule drop)
  also have "\<dots> = (s * 2 ^ (64 * K)) * (s * 2 ^ (64 * K))" by (simp only: distrib_left distrib_right power_add mult_ac)
  also have "\<dots> \<le> q ^ (2 ^ k) * q ^ (2 ^ k)" using s by (intro mult_mono) simp_all
  finally show "s * s div 2 ^ 64 * 2 ^ (64 * (2 ^ Suc k - 1)) \<le> q ^ (2 ^ Suc k)"
    unfolding k(2) by (simp add: mult_2 power_add)
  have "r * s div 2 ^ 64 * 2 ^ (64 * (m + K + 1)) \<le> r * s * 2 ^ (64 * (m + K))" by (rule drop)
  also have "\<dots> = (r * 2 ^ (64 * m)) * (s * 2 ^ (64 * K))" by (simp only: distrib_left distrib_right power_add mult_ac)
  also have "\<dots> \<le> (2 ^ 64 * q ^ m) * q ^ (2 ^ k)" by (rule mult_mono [OF assms(2) s]) simp_all
  also have "\<dots> = 2 ^ 64 * q ^ (m + 2 ^ k)" by (simp add: power_add algebra_simps)
  finally show "r * s div 2 ^ 64 * 2 ^ (64 * (m + 2 ^ k)) \<le> 2 ^ 64 * q ^ (m + 2 ^ k)"
    unfolding k(1) by (simp add: add.assoc)
qed

lemma fx_fold_bound:
  "case fold (fx_step e) [0 ..< k] (2 ^ 64, q) of (r, s) \<Rightarrow>
     s * 2 ^ (64 * (2 ^ k - 1)) \<le> q ^ (2 ^ k) \<and> r * 2 ^ (64 * (e mod 2 ^ k)) \<le> 2 ^ 64 * q ^ (e mod 2 ^ k)"
proof (induction k)
  case (Suc k)
  obtain r s where rs: "fold (fx_step e) [0 ..< k] (2 ^ 64, q) = (r, s)" by force
  have bound: "s * 2 ^ (64 * (2 ^ k - 1)) \<le> q ^ (2 ^ k)" "r * 2 ^ (64 * (e mod 2 ^ k)) \<le> 2 ^ 64 * q ^ (e mod 2 ^ k)"
    using Suc rs by simp_all
  have "e mod 2 ^ Suc k = (if bit e k then e mod 2 ^ k + 2 ^ k else e mod 2 ^ k)"
    using take_bit_Suc_from_most [of k e] by (simp add: take_bit_eq_mod)
  moreover have step: "fold (fx_step e) [0 ..< Suc k] (2 ^ 64, q) = fx_step e k (r, s)"
    by (simp only: upt_Suc le0 if_True fold_append comp_apply rs fold_simps id_apply)
  ultimately show ?case
    using fx_step_bound [OF bound] bound
    by (subst step, cases "bit e k") (simp_all only: fx_step_def if_True if_False split_conv simp_thms)
qed simp

lemma fx_pow_bound:
  assumes "e < 2 ^ 19"
  shows "fx_pow q e * 2 ^ (64 * e) \<le> 2 ^ 64 * q ^ e"
proof -
  have "e mod 2 ^ 19 = e" using assms by simp
  with fx_fold_bound [where e = e and q = q and k = 19] show ?thesis
    unfolding fx_pow_def by (simp only: split_beta)
qed

section \<open>Bin prices\<close>

text \<open>The ratio of one bin step, and the price of a bin, on natural numbers.\<close>

definition step_ratio :: "u16 \<Rightarrow> nat" where
  "step_ratio bin_step = (2 ^ 128 - 1) div (2 ^ 64 + unat bin_step * 2 ^ 64 div 10000)"

definition bin_price :: "int \<Rightarrow> u16 \<Rightarrow> nat option" where
  "bin_price i bin_step =
     (if i = 0 then Some (2 ^ 64)
      else
        let r = fx_pow (step_ratio bin_step) (nat \<bar>i\<bar>)
        in if 2 ^ 19 \<le> nat \<bar>i\<bar> \<or> r = 0 then None else Some (if i < 0 then r else (2 ^ 128 - 1) div r))"

lemma get_price_exact: "map_option unat (get_price_from_id i bin_step) = bin_price (sint i) bin_step"
proof -
  have step: "unat (ucast bin_step :: u128) = unat bin_step" "unat bin_step < 2 ^ 16"
    using unsigned_less [of bin_step, where ?'a = nat] by (simp_all add: unsigned_ucast_eq take_bit_eq_mod)
  then obtain c where c: "u128_checked_shl (ucast bin_step) scale_offset = Some c" "unat c = unat bin_step * 2 ^ 64"
    using unat_shl [of "ucast bin_step"] by auto
  let ?bps = "c div basis_point_max"
  have bps: "unat ?bps = unat bin_step * 2 ^ 64 div 10000" by (simp add: unat_div basis_point_max_def c(2))
  have small: "unat fixed_one + unat ?bps < 2 ^ 128"
    using step(2) by (simp add: bps unat_fixed_one div_less_iff_less_mult)
  have base: "unat (fixed_one + ?bps) = 2 ^ 64 + unat bin_step * 2 ^ 64 div 10000"
    using small by (simp add: unat_add_small bps unat_fixed_one)
  have get: "get_price_from_id i bin_step = fixed_pow (fixed_one + ?bps) i"
    using c(1) small by (simp add: get_price_from_id_def u128_checked_add_def)
  show ?thesis
  proof (cases "sint i = 0")
    case True
    then have "i = 0" by (metis signed_0 signed_word_eqI)
    with get show ?thesis by (simp add: fixed_pow_def bin_price_def unat_fixed_one)
  next
    case False
    have "2 ^ 64 \<le> unat (fixed_one + ?bps)" unfolding base by simp
    from fixed_pow_exact [OF this False] show ?thesis
      unfolding get bin_price_def step_ratio_def base using False by (simp only: Let_def if_False)
  qed
qed

lemma fx_pow_below:
  assumes "q < 2 ^ 64" "0 < e" "e < 2 ^ 19"
  shows "fx_pow q e < 2 ^ 64"
proof -
  have "q ^ e < (2 ^ 64) ^ e" using assms(1,2) by (intro power_strict_mono) simp_all
  then have "2 ^ 64 * q ^ e < 2 ^ 64 * 2 ^ (64 * e)" by (simp add: power_mult)
  with fx_pow_bound [OF assms(3), of q] have "fx_pow q e * 2 ^ (64 * e) < 2 ^ 64 * 2 ^ (64 * e)" by linarith
  then show ?thesis by simp
qed

lemma step_ratio_below: "step_ratio bin_step < 2 ^ 64"
proof -
  have "(2 ^ 128 - 1) div (2 ^ 64 + unat bin_step * 2 ^ 64 div 10000) \<le> (2 ^ 128 - 1) div (2 ^ 64 :: nat)"
    by (rule div_le_mono2) simp_all
  then show ?thesis by (simp add: step_ratio_def)
qed

lemma bin_price_sides:
  assumes "bin_price i bin_step = Some p"
  shows "0 < p" "i = 0 \<Longrightarrow> p = 2 ^ 64" "i < 0 \<Longrightarrow> p < 2 ^ 64" "0 < i \<Longrightarrow> 2 ^ 64 < p"
proof -
  let ?r = "fx_pow (step_ratio bin_step) (nat \<bar>i\<bar>)"
  show "i = 0 \<Longrightarrow> p = 2 ^ 64" using assms by (simp add: bin_price_def)
  have r: "0 < ?r" "?r < 2 ^ 64" "p = (if i < 0 then ?r else (2 ^ 128 - 1) div ?r)" if "i \<noteq> 0"
    using assms that fx_pow_below [OF step_ratio_below, of "nat \<bar>i\<bar>" bin_step]
    by (auto simp: bin_price_def Let_def split: if_splits)
  show "i < 0 \<Longrightarrow> p < 2 ^ 64" using r by auto
  have large: "2 ^ 64 < (2 ^ 128 - 1) div ?r" if "i \<noteq> 0"
  proof -
    have "(2 ^ 64 + 1) * ?r \<le> (2 ^ 64 + 1) * (2 ^ 64 - 1)" using r(2) [OF that] by (intro mult_le_mono2) simp
    also have "\<dots> = 2 ^ 128 - (1 :: nat)" by simp
    finally show ?thesis using r(1) [OF that] by (simp add: less_eq_div_iff_mult_less_eq Suc_le_eq [symmetric])
  qed
  then show "0 < i \<Longrightarrow> 2 ^ 64 < p" using r by auto
  show "0 < p" using assms r large by (cases "i = 0") (auto simp: bin_price_def)
qed

section \<open>One bin\<close>

text \<open>\<open>out\<close> for \<open>inp\<close> is no better than the price \<open>p\<close> of Y per X in 64.64 fixed point.\<close>

definition within_price :: "bool \<Rightarrow> nat \<Rightarrow> nat \<Rightarrow> nat \<Rightarrow> bool" where
  "within_price swap_for_y p inp out \<longleftrightarrow> (if swap_for_y then out * 2 ^ 64 \<le> inp * p else out * p \<le> inp * 2 ^ 64)"

definition ideal :: "bool \<Rightarrow> nat \<Rightarrow> nat \<Rightarrow> nat" where
  "ideal swap_for_y p inp = (if swap_for_y then inp * p div 2 ^ 64 else inp * 2 ^ 64 div p)"

lemma try_from_u128: "u64_try_from_u128 x = (if unat x < 2 ^ 64 then Some (of_nat (unat x)) else None)"
  by (simp add: u64_try_from_u128_def as_u64_eq_of_nat)

lemma amount_out_exact:
  "get_amount_out r price dir =
     (if dir \<and> 2 ^ 128 \<le> unat r * unat price \<or> \<not> dir \<and> price = 0 then Inl AmountOutOverflow
      else if 2 ^ 64 \<le> ideal dir (unat price) (unat r) then Inl AmountOutExceedsU64
      else Inr (of_nat (ideal dir (unat price) (unat r))))"
proof (cases dir)
  case True
  then show ?thesis
    using unat_checked_mul [of "as_u128 r" price]
    by (auto simp: get_amount_out_def mul_shr_def ideal_def try_from_u128 unat_drop_bit scale_offset_def u128_checked_mul_def
      unat_mult_small not_le not_less)
next
  case False
  then show ?thesis
    using unat_shl [of "as_u128 r"] unat_lt_u64 [of r]
    by (auto simp: get_amount_out_def shl_div_def ideal_def try_from_u128 unat_div)
qed

lemma div_ceil_nat:
  assumes "b \<noteq> 0" "unat a div unat b + 1 < 2 ^ 128"
  shows "unat (u128_div_ceil a b) = (unat a + unat b - 1) div unat b"
proof -
  have b: "0 < unat b" using assms(1) by (simp add: unat_gt_0)
  have "unat (a div b + 1) = unat a div unat b + 1"
    using assms(2) by (subst unat_add_small) (simp_all add: unat_div)
  moreover have "(unat a + unat b - 1) div unat b =
      (if 0 < unat a mod unat b then unat a div unat b + 1 else unat a div unat b)"
  proof -
    have eq: "unat a + unat b - 1 = (unat a div unat b) * unat b + (unat a mod unat b + unat b - 1)"
      using div_mult_mod_eq [of "unat a" "unat b"] b by linarith
    have "(unat a + unat b - 1) div unat b = unat a div unat b + (unat a mod unat b + unat b - 1) div unat b"
      unfolding eq using b by (simp only: div_mult_self3 neq0_conv)
    moreover have "(unat a mod unat b + unat b - 1) div unat b = (if 0 < unat a mod unat b then 1 else 0)"
      using b mod_less_divisor [OF b, of "unat a"] by (auto simp: div_nat_eqI)
    ultimately show ?thesis by simp
  qed
  moreover have "a mod b > 0 \<longleftrightarrow> 0 < unat a mod unat b" by (simp add: word_less_nat_alt unat_mod)
  ultimately show ?thesis by (simp add: u128_div_ceil_def unat_div)
qed

lemma ceil_div_bounds:
  assumes "0 < (b :: nat)" "a < c * b"
  shows "(a + b - 1) div b \<le> c" "a \<le> (a + b - 1) div b * b"
proof -
  have "a + b - 1 < (c + 1) * b" using assms by (simp add: algebra_simps)
  then show "(a + b - 1) div b \<le> c" using assms(1) by (simp add: div_less_iff_less_mult less_Suc_eq_le [symmetric])
  have "(a + b - 1) div b * b + (a + b - 1) mod b = a + b - 1" by simp
  moreover have "(a + b - 1) mod b \<le> b - 1" using mod_less_divisor [OF assms(1), of "a + b - 1"] by linarith
  ultimately show "a \<le> (a + b - 1) div b * b" using assms(1) by linarith
qed

text \<open>The input for an output below the ideal one never fails and is never more than what is left.\<close>

definition input_for :: "bool \<Rightarrow> nat \<Rightarrow> nat \<Rightarrow> nat" where
  \<comment> \<open>the least input whose output at the price \<open>p\<close> is \<open>out\<close>: rounded up\<close>
  "input_for swap_for_y p out = (if swap_for_y then (out * 2 ^ 64 + p - 1) div p else (out * p + 2 ^ 64 - 1) div 2 ^ 64)"

lemma amount_in_exact:
  fixes r out :: u64
  assumes "unat out < ideal dir (unat price) (unat r)"
  shows "\<exists>c. get_amount_in out price dir = Inr c \<and> unat c \<le> unat r \<and> within_price dir (unat price) (unat c) (unat out)
    \<and> unat c = input_for dir (unat price) (unat out)"
proof -
  note r = unat_lt_u64 [of r] unat_lt_u64 [of out]
  have p: "0 < unat price" using assms by (cases "unat price = 0") (auto simp: ideal_def split: if_splits)
  then have p0: "price \<noteq> 0" by auto
  show ?thesis
  proof (cases dir)
    case True
    then have "unat out + 1 \<le> unat r * unat price div 2 ^ 64" using assms by (simp add: ideal_def)
    then have lt: "unat out * 2 ^ 64 < unat r * unat price"
      by (simp add: less_eq_div_iff_mult_less_eq)
    obtain n where n: "u128_checked_shl (as_u128 out) scale_offset = Some n" "unat n = unat out * 2 ^ 64"
      using unat_shl [of "as_u128 out"] r(2) by auto
    have "unat n div unat price + 1 < 2 ^ 128"
    proof -
      have "unat n div unat price \<le> unat n" by (rule div_le_dividend)
      moreover have "unat n + 1 < 2 ^ 128" using r(2) by (simp add: n(2))
      ultimately show ?thesis by linarith
    qed
    then have c: "unat (u128_div_ceil n price) = (unat out * 2 ^ 64 + unat price - 1) div unat price"
      using div_ceil_nat [OF p0] n(2) by simp
    note b = ceil_div_bounds [OF p lt]
    have "unat (u128_div_ceil n price) < 2 ^ 64" using b(1) r(1) c by simp
    with True n(1) p0 b c show ?thesis
      by (auto simp: get_amount_in_def shl_div_ceil_def try_from_u128 within_price_def input_for_def unat_of_nat_u64)
  next
    case False
    then have "unat out + 1 \<le> unat r * 2 ^ 64 div unat price" using assms by (simp add: ideal_def)
    then have lt: "unat out * unat price < unat r * 2 ^ 64"
      using p by (simp add: less_eq_div_iff_mult_less_eq)
    have top: "unat out * unat price + (2 ^ 64 - 1) < 2 ^ 128"
      using lt mult_le_mono1 [of "unat r" "2 ^ 64 - 1" "2 ^ 64"] r(1) by simp
    then obtain m where m: "u128_checked_mul (as_u128 out) price = Some m" "unat m = unat out * unat price"
      using unat_checked_mul [of "as_u128 out" price] by auto
    have mask: "unat (push_bit scale_offset 1 - 1 :: u128) = 2 ^ 64 - 1"
      using unat_sub_small [of 1 fixed_one] unat_fixed_one by (simp add: fixed_one_def)
    let ?c = "drop_bit scale_offset (m + (push_bit scale_offset 1 - 1))"
    have c: "unat ?c = (unat out * unat price + 2 ^ 64 - 1) div 2 ^ 64"
      using top by (simp add: unat_drop_bit unat_add_small mask m(2) scale_offset_def)
    note b = ceil_div_bounds [of "2 ^ 64", OF _ lt]
    have "unat ?c < 2 ^ 64" using b(1) r(1) c by simp
    with False m(1) b c show ?thesis
      by (auto simp: get_amount_in_def mul_shr_ceil_def try_from_u128 within_price_def input_for_def unat_of_nat_u64)
  qed
qed

section \<open>The walk\<close>

definition out_side :: "bool \<Rightarrow> u64 \<times> u64 \<Rightarrow> u64" where
  "out_side swap_for_y = (\<lambda>(x, y). if swap_for_y then y else x)"

text \<open>What a bin with liquidity may do with \<open>r\<close>, and the errors a walk may end with.\<close>

definition fill_ok :: "(i32, u64 \<times> u64) hashmap \<Rightarrow> u16 \<Rightarrow> bool \<Rightarrow> i32 \<Rightarrow> u64 \<Rightarrow> u64 \<Rightarrow> bool" where
  "fill_ok bins bin_step dir i c out \<longleftrightarrow>
     (\<exists>l p. hm_get bins i = Some l \<and> bin_price (sint i) bin_step = Some p \<and> 0 < out \<and> out \<le> out_side dir l
        \<and> within_price dir p (unat c) (unat out))"

definition walk_error :: "dlmm_error \<Rightarrow> bool" where
  "walk_error err \<longleftrightarrow> (\<exists>i. err = PriceOverflow i) \<or> err = AmountOutOverflow \<or> err = AmountOutExceedsU64"

lemma ideal_within: "within_price dir p inp (ideal dir p inp)"
  by (simp add: within_price_def ideal_def)

lemma ideal_mono: "a \<le> b \<Longrightarrow> ideal dir p a \<le> ideal dir p b"
  by (simp add: ideal_def div_le_mono mult_le_mono1)

lemma fill_bin_exact:
  "case fill_bin bins bin_step dir r i of
     Inl err \<Rightarrow> walk_error err
   | Inr None \<Rightarrow> (\<forall>l. hm_get bins i = Some l \<longrightarrow> out_side dir l = 0
       \<or> (\<exists>p. bin_price (sint i) bin_step = Some p \<and> ideal dir p (unat r) = 0))
   | Inr (Some (out, c)) \<Rightarrow> fill_ok bins bin_step dir i c out \<and> c \<le> r
       \<and> (c = r \<or> (\<exists>l. hm_get bins i = Some l \<and> out = out_side dir l))"
proof (cases "hm_get bins i")
  case None
  then show ?thesis by (simp add: fill_bin_def)
next
  case (Some l)
  define m where "m = out_side dir l"
  have m: "(if dir then snd l else fst l) = m" by (simp add: m_def out_side_def split_beta)
  show ?thesis
  proof (cases "m = 0")
    case True
    then show ?thesis using Some m by (simp add: fill_bin_def split_beta m_def)
  next
    case liquid: False
    show ?thesis
    proof (cases "get_price_from_id i bin_step")
      case None
      then show ?thesis using Some m liquid by (simp add: fill_bin_def split_beta walk_error_def)
    next
      case (Some price)
      have p: "bin_price (sint i) bin_step = Some (unat price)" using get_price_exact [of i bin_step] Some by simp
      show ?thesis
      proof (cases "get_amount_out r price dir")
        case (Inl err)
        then have "walk_error err" by (auto simp: amount_out_exact walk_error_def split: if_splits)
        with Inl Some \<open>hm_get bins i = Some l\<close> m liquid show ?thesis by (simp add: fill_bin_def split_beta)
      next
        case (Inr ideal_out)
        then have out: "unat ideal_out = ideal dir (unat price) (unat r)"
          by (auto simp: amount_out_exact unat_of_nat_u64 split: if_splits)
        consider "ideal_out = 0" | "ideal_out \<noteq> 0" "ideal_out \<le> m" | "m < ideal_out" by fastforce
        then show ?thesis
        proof cases
          case 1
          with Inr Some \<open>hm_get bins i = Some l\<close> m liquid p out show ?thesis by (simp add: fill_bin_def split_beta)
        next
          case 2
          then have "fill_ok bins bin_step dir i r ideal_out"
            using \<open>hm_get bins i = Some l\<close> p out ideal_within [of dir "unat price" "unat r"]
            by (auto simp: fill_ok_def m_def word_gt_0)
          with 2 Inr Some \<open>hm_get bins i = Some l\<close> m liquid show ?thesis by (simp add: fill_bin_def split_beta min_absorb1)
        next
          case 3
          then have "unat m < ideal dir (unat price) (unat r)" by (simp add: out [symmetric] word_less_nat_alt)
          from amount_in_exact [OF this] obtain c where c: "get_amount_in m price dir = Inr c" "unat c \<le> unat r"
            "within_price dir (unat price) (unat c) (unat m)" by blast
          then have "fill_ok bins bin_step dir i c m"
            using \<open>hm_get bins i = Some l\<close> p liquid by (auto simp: fill_ok_def m_def word_gt_0)
          with 3 c Inr Some \<open>hm_get bins i = Some l\<close> m liquid show ?thesis
            by (auto simp: fill_bin_def split_beta Let_def min_absorb2 word_le_nat_alt m_def)
        qed
      qed
    qed
  qed
qed

lemma sint_next:
  "- (2 ^ 31) < sint i \<Longrightarrow> sint (i + - 1 :: i32) = sint i - 1"
  "sint i < 2 ^ 31 - 1 \<Longrightarrow> sint (i + 1 :: i32) = sint i + 1"
  using sint_bounds [of i]
  by (simp_all add: sint_word_ariths signed_take_bit_int_eq_self)

text \<open>The bins that a walk from \<open>i\<close> may meet, and a complete record of what it did.\<close>

definition ahead :: "bool \<Rightarrow> i32 \<Rightarrow> i32 \<Rightarrow> bool" where
  "ahead dir i j \<longleftrightarrow> (if dir then sint j \<le> sint i else sint i \<le> sint j)"

definition walked ::
    "(i32, u64 \<times> u64) hashmap \<Rightarrow> u16 \<Rightarrow> bool \<Rightarrow> i32 \<Rightarrow> nat \<Rightarrow> (i32 \<times> u64 \<times> u64) list \<Rightarrow> nat \<Rightarrow> bool" where
  "walked bins bin_step dir i r fills left \<longleftrightarrow>
     (\<forall>(j, c, out) \<in> set fills. fill_ok bins bin_step dir j c out \<and> ahead dir i j)
     \<and> sorted_wrt (\<lambda>a b. fst a \<noteq> fst b \<and> ahead dir (fst a) (fst b)) fills
     \<and> (\<Sum>(j, c, out) \<leftarrow> fills. unat c) + left = r
     \<and> (left = 0 \<or> (\<forall>j l. hm_get bins j = Some l \<longrightarrow> ahead dir i j \<longrightarrow>
          out_side dir l = 0 \<or> (\<exists>c. (j, c, out_side dir l) \<in> set fills)
          \<or> (\<exists>p. bin_price (sint j) bin_step = Some p \<and> ideal dir p left = 0)))"

definition walk_result ::
    "(i32, u64 \<times> u64) hashmap \<Rightarrow> u16 \<Rightarrow> bool \<Rightarrow> i32 \<Rightarrow> u64 \<Rightarrow> u64 \<Rightarrow> nat \<Rightarrow> dlmm_error + u64 \<times> nat \<Rightarrow> bool" where
  "walk_result bins bin_step dir i r t n res \<longleftrightarrow>
     (case res of
        Inl err \<Rightarrow> walk_error err
      | Inr (t', n') \<Rightarrow> \<exists>fills left. walked bins bin_step dir i (unat r) fills left
          \<and> unat t' = min (unat t + (\<Sum>(j, c, out) \<leftarrow> fills. unat out)) (2 ^ 64 - 1) \<and> n' = n + length fills)"

lemma ahead_next:
  assumes "if dir then - (2 ^ 31) < sint i else sint i < 2 ^ 31 - 1"
  shows "ahead dir i j \<longleftrightarrow> j = i \<or> ahead dir (i + (if dir then - 1 else 1)) j"
proof -
  have "j = i \<longleftrightarrow> sint j = sint i" by (metis signed_word_eqI)
  then show ?thesis using assms sint_next [of i] by (auto simp: ahead_def split: if_splits)
qed

lemma walked_skip:
  assumes "if dir then - (2 ^ 31) < sint i else sint i < 2 ^ 31 - 1"
    and "walked bins bin_step dir (i + (if dir then - 1 else 1)) r fills left"
    and "\<forall>l. hm_get bins i = Some l \<longrightarrow> out_side dir l = 0
       \<or> (\<exists>p. bin_price (sint i) bin_step = Some p \<and> ideal dir p r = 0)"
  shows "walked bins bin_step dir i r fills left"
proof -
  have "left \<le> r" using assms(2) by (auto simp: walked_def)
  then have "ideal dir p left = 0" if "ideal dir p r = 0" for p using ideal_mono [of left r dir p] that by simp
  with assms(2,3) show ?thesis unfolding walked_def ahead_next [OF assms(1)] by blast
qed

lemma walked_fill:
  assumes "if dir then - (2 ^ 31) < sint i else sint i < 2 ^ 31 - 1"
    and "walked bins bin_step dir (i + (if dir then - 1 else 1)) (r - unat c) fills left"
    and "fill_ok bins bin_step dir i c out" "unat c \<le> r" "\<forall>l. hm_get bins i = Some l \<longrightarrow> out = out_side dir l"
  shows "walked bins bin_step dir i r ((i, c, out) # fills) left"
proof -
  let ?next = "i + (if dir then - 1 else 1)"
  have apart: "\<not> ahead dir ?next i" using assms(1) sint_next [of i] by (auto simp: ahead_def split: if_splits)
  have step: "ahead dir i j \<longleftrightarrow> j = i \<or> ahead dir ?next j" for j by (rule ahead_next [OF assms(1)])
  have w: "\<And>j c out. (j, c, out) \<in> set fills \<Longrightarrow> fill_ok bins bin_step dir j c out \<and> ahead dir ?next j"
    "sorted_wrt (\<lambda>a b. fst a \<noteq> fst b \<and> ahead dir (fst a) (fst b)) fills"
    "(\<Sum>(j, c, out) \<leftarrow> fills. unat c) + left = r - unat c"
    "left = 0 \<or> (\<forall>j l. hm_get bins j = Some l \<longrightarrow> ahead dir ?next j \<longrightarrow>
          out_side dir l = 0 \<or> (\<exists>c. (j, c, out_side dir l) \<in> set fills)
          \<or> (\<exists>p. bin_price (sint j) bin_step = Some p \<and> ideal dir p left = 0))"
    using assms(2) unfolding walked_def by blast+
  have "\<forall>(j, c, out) \<in> set ((i, c, out) # fills). fill_ok bins bin_step dir j c out \<and> ahead dir i j"
    using w(1) assms(3) step by auto
  moreover have "i \<noteq> fst b \<and> ahead dir i (fst b)" if "b \<in> set fills" for b
    using w(1) [of "fst b" "fst (snd b)" "snd (snd b)"] that apart step by auto
  then have "sorted_wrt (\<lambda>a b. fst a \<noteq> fst b \<and> ahead dir (fst a) (fst b)) ((i, c, out) # fills)"
    using w(2) by simp
  moreover have "(\<Sum>(j, c, out) \<leftarrow> (i, c, out) # fills. unat c) + left = r" using w(3) assms(4) by simp
  moreover have "left = 0 \<or> (\<forall>j l. hm_get bins j = Some l \<longrightarrow> ahead dir i j \<longrightarrow>
          out_side dir l = 0 \<or> (\<exists>c'. (j, c', out_side dir l) \<in> set ((i, c, out) # fills))
          \<or> (\<exists>p. bin_price (sint j) bin_step = Some p \<and> ideal dir p left = 0))"
    using w(4) assms(5) step by (metis list.set_intros)
  ultimately show ?thesis unfolding walked_def by blast
qed

lemma walk_result_skip:
  assumes "\<And>fills left. walked bins bin_step dir j (unat r) fills left \<Longrightarrow> walked bins bin_step dir i (unat r) fills left"
    and "walk_result bins bin_step dir j r t n res"
  shows "walk_result bins bin_step dir i r t n res"
proof (cases res)
  case (Inl err)
  then show ?thesis using assms(2) by (simp add: walk_result_def)
next
  case (Inr p)
  then show ?thesis using assms unfolding walk_result_def by (cases p) (simp only: sum.case split_conv, blast)
qed

lemma walk_result_fill:
  assumes "\<And>fills left. walked bins bin_step dir j (unat r - unat c) fills left \<Longrightarrow>
      walked bins bin_step dir i (unat r) ((i, c, out) # fills) left"
    and "unat r' = unat r - unat c" "unat t' = min (unat t + unat out) (2 ^ 64 - 1)"
    and "walk_result bins bin_step dir j r' t' (n + 1) res"
  shows "walk_result bins bin_step dir i r t n res"
proof (cases res)
  case (Inl err)
  then show ?thesis using assms(4) by (simp add: walk_result_def)
next
  case (Inr p)
  obtain fills left where w: "walked bins bin_step dir j (unat r - unat c) fills left"
    "unat (fst p) = min (unat t' + (\<Sum>(j, c, out) \<leftarrow> fills. unat out)) (2 ^ 64 - 1)" "snd p = n + 1 + length fills"
    using assms(2,4) Inr by (auto simp: walk_result_def split_beta)
  have "unat (fst p) = min (unat t + (\<Sum>(j, c, out) \<leftarrow> (i, c, out) # fills. unat out)) (2 ^ 64 - 1)"
    unfolding w(2) assms(3) by simp
  with assms(1) [OF w(1)] w(3) Inr show ?thesis
    unfolding walk_result_def by (auto simp: split_beta intro!: exI [of _ "(i, c, out) # fills"])
qed

lemma walk_exact:
  assumes "\<And>j. hm_get bins j \<noteq> None \<Longrightarrow> sint lo \<le> sint j \<and> sint j \<le> sint hi"
    and "if dir then - (2 ^ 31) < sint lo else sint hi < 2 ^ 31 - 1"
  shows "\<exists>res. walk_bins bins bin_step dir lo hi r t n i = Some res \<and> walk_result bins bin_step dir i r t n res"
proof (induction "if dir then nat (sint i - sint lo + 1) else nat (sint hi - sint i + 1)" arbitrary: r t n i rule: less_induct)
  case less
  let ?next = "i + (if dir then - 1 else 1)"
  show ?case
  proof (cases "r = 0 \<or> out_of_range dir lo hi i")
    case True
    have "\<not> ahead dir i j" if "hm_get bins j = Some l" "out_of_range dir lo hi i" for j l
      using that assms(1) [of j] by (auto simp: ahead_def out_of_range_def)
    with True have "walked bins bin_step dir i (unat r) [] (unat r)" by (auto simp: walked_def)
    moreover have "unat t = min (unat t) (2 ^ 64 - 1)" using unat_lt_u64 [of t] by simp
    ultimately have "walk_result bins bin_step dir i r t n (Inr (t, n))"
      unfolding walk_result_def by (auto intro!: exI [of _ "[]"])
    with True show ?thesis by (subst walk_bins.simps) simp
  next
    case False
    have room: "if dir then - (2 ^ 31) < sint i else sint i < 2 ^ 31 - 1"
      using False assms(2) by (auto simp: out_of_range_def split: if_splits)
    have closer: "(if dir then nat (sint ?next - sint lo + 1) else nat (sint hi - sint ?next + 1))
        < (if dir then nat (sint i - sint lo + 1) else nat (sint hi - sint i + 1))"
      using False room sint_next [of i] by (auto simp: out_of_range_def)
    note fill = fill_bin_exact [where bins = bins and bin_step = bin_step and dir = dir and r = r and i = i]
    show ?thesis
    proof (cases "fill_bin bins bin_step dir r i")
      case (Inl err)
      with False fill show ?thesis by (subst walk_bins.simps) (simp add: walk_result_def)
    next
      case (Inr f)
      show ?thesis
      proof (cases f)
        case None
        obtain res where res: "walk_bins bins bin_step dir lo hi r t n ?next = Some res"
          "walk_result bins bin_step dir ?next r t n res" using less [OF closer] by blast
        have "walked bins bin_step dir i (unat r) fills left"
          if "walked bins bin_step dir ?next (unat r) fills left" for fills left
          using walked_skip [OF room that] fill Inr None by simp
        then have "walk_result bins bin_step dir i r t n res"
          using res(2) by (rule walk_result_skip)
        with res(1) False Inr None show ?thesis by (subst walk_bins.simps) simp
      next
        case (Some oc)
        obtain out c where oc: "oc = (out, c)" by (cases oc)
        then have f: "fill_ok bins bin_step dir i c out" "c \<le> r"
          "c = r \<or> (\<exists>l. hm_get bins i = Some l \<and> out = out_side dir l)" using fill Inr Some by simp_all
        let ?t = "saturating_add t out"
        have t: "unat ?t = min (unat t + unat out) (2 ^ 64 - 1)" by (simp add: unat_saturating_add)
        have sub: "saturating_sub r c = r - c" "unat (r - c) = unat r - unat c" "unat c \<le> unat r"
          using f(2) by (simp_all add: saturating_sub_def not_less unat_sub_small word_le_nat_alt [symmetric] leD)
        show ?thesis
        proof (cases "r - c = 0")
          case True
          then have "walked bins bin_step dir i (unat r) [(i, c, out)] 0" using f by (auto simp: walked_def ahead_def)
          then have "walk_result bins bin_step dir i r t n (Inr (?t, n + 1))"
            unfolding walk_result_def by (auto simp: t intro!: exI [of _ "[(i, c, out)]"])
          with True False Inr Some oc sub(1) show ?thesis by (subst walk_bins.simps) (simp add: Let_def)
        next
          case more: False
          obtain res where res: "walk_bins bins bin_step dir lo hi (r - c) ?t (n + 1) ?next = Some res"
            "walk_result bins bin_step dir ?next (r - c) ?t (n + 1) res" using less [OF closer] by blast
          have "walked bins bin_step dir i (unat r) ((i, c, out) # fills) left"
            if "walked bins bin_step dir ?next (unat r - unat c) fills left" for fills left
            using walked_fill [OF room that f(1) sub(3)] f(3) more by auto
          then have "walk_result bins bin_step dir i r t n res"
            using res(2) by (rule walk_result_fill [OF _ sub(2) t])
          with res(1) more False Inr Some oc sub(1) show ?thesis by (subst walk_bins.simps) (simp add: Let_def)
        qed
      qed
    qed
  qed
qed

section \<open>The exact walk\<close>

text \<open>
  The walk on natural numbers, over the ids of the bins in walking order: a bin with liquidity gives the
  output of the whole rest at its price, rounded down, up to its liquidity; when it is emptied, it takes the input
  that this output costs, rounded up, and otherwise the whole rest.
\<close>

fun exact_walk :: "(i32 \<Rightarrow> nat) \<Rightarrow> u16 \<Rightarrow> bool \<Rightarrow> i32 list \<Rightarrow> nat \<Rightarrow> dlmm_error + nat \<times> nat" where
  "exact_walk liquidity bin_step dir [] r = Inr (0, 0)"
| "exact_walk liquidity bin_step dir (j # js) r =
     (if r = 0 then Inr (0, 0)
      else if liquidity j = 0 then exact_walk liquidity bin_step dir js r
      else case bin_price (sint j) bin_step of
        None \<Rightarrow> Inl (PriceOverflow j)
      | Some p \<Rightarrow>
          if dir \<and> 2 ^ 128 \<le> r * p then Inl AmountOutOverflow
          else if 2 ^ 64 \<le> ideal dir p r then Inl AmountOutExceedsU64
          else if ideal dir p r = 0 then exact_walk liquidity bin_step dir js r
          else if ideal dir p r \<le> liquidity j then Inr (ideal dir p r, 1)
          else map_sum id (\<lambda>(t, n). (liquidity j + t, n + 1))
            (exact_walk liquidity bin_step dir js (r - input_for dir p (liquidity j))))"

lemma exact_walk_nothing [simp]: "exact_walk liquidity bin_step dir js 0 = Inr (0, 0)"
  by (cases js) simp_all

definition side_liquidity :: "(i32, u64 \<times> u64) hashmap \<Rightarrow> bool \<Rightarrow> i32 \<Rightarrow> nat" where
  "side_liquidity bins dir j = (case hm_get bins j of None \<Rightarrow> 0 | Some l \<Rightarrow> unat (out_side dir l))"

lemma fill_bin_value:
  "fill_bin bins bin_step dir r i =
    (let m = side_liquidity bins dir i in
     if m = 0 then Inr None
     else case bin_price (sint i) bin_step of
       None \<Rightarrow> Inl (PriceOverflow i)
     | Some p \<Rightarrow>
         if dir \<and> 2 ^ 128 \<le> unat r * p then Inl AmountOutOverflow
         else if 2 ^ 64 \<le> ideal dir p (unat r) then Inl AmountOutExceedsU64
         else if ideal dir p (unat r) = 0 then Inr None
         else if ideal dir p (unat r) \<le> m then Inr (Some (of_nat (ideal dir p (unat r)), r))
         else Inr (Some (of_nat m, of_nat (input_for dir p m))))"
proof (cases "side_liquidity bins dir i = 0")
  case True
  then show ?thesis
    by (auto simp: fill_bin_def side_liquidity_def out_side_def unat_eq_0 Let_def split: option.splits prod.splits if_splits)
next
  case liquid: False
  then obtain l where l: "hm_get bins i = Some l" by (auto simp: side_liquidity_def split: option.splits)
  define m where "m = out_side dir l"
  have m: "side_liquidity bins dir i = unat m" "(if dir then snd l else fst l) = m" "m \<noteq> 0" "0 < unat m"
    using liquid l by (auto simp: side_liquidity_def m_def out_side_def split_beta unat_gt_0)
  show ?thesis
  proof (cases "get_price_from_id i bin_step")
    case None
    then have "bin_price (sint i) bin_step = None" using get_price_exact [of i bin_step] by simp
    with None l m show ?thesis by (simp add: fill_bin_def split_beta Let_def unat_gt_0)
  next
    case (Some price)
    then have p: "bin_price (sint i) bin_step = Some (unat price)" using get_price_exact [of i bin_step] by simp
    then have price0: "price \<noteq> 0" using bin_price_sides(1) by fastforce
    let ?ideal = "ideal dir (unat price) (unat r)"
    consider (err) err where "get_amount_out r price dir = Inl err"
      | (zero) "get_amount_out r price dir = Inr 0" "?ideal = 0"
      | (all) out where "get_amount_out r price dir = Inr out" "unat out = ?ideal" "out \<noteq> 0" "out \<le> m"
      | (some) out where "get_amount_out r price dir = Inr out" "unat out = ?ideal" "m < out"
    proof (cases "get_amount_out r price dir")
      case (Inr out)
      then have "unat out = ?ideal" by (auto simp: amount_out_exact unat_of_nat_u64 split: if_splits)
      with Inr that(2-4) show ?thesis by (cases "out = 0") (auto simp: not_le [symmetric])
    qed (rule that(1))
    then show ?thesis
    proof cases
      case err
      then show ?thesis using l m p Some price0
        by (auto simp: fill_bin_def split_beta Let_def amount_out_exact split: if_splits)
    next
      case zero
      then show ?thesis using l m p Some price0
        by (auto simp: fill_bin_def split_beta Let_def amount_out_exact split: if_splits)
    next
      case all
      then have "?ideal \<noteq> 0" "?ideal \<le> unat m" "?ideal < 2 ^ 64"
        using unat_lt_u64 [of out] by (metis unat_eq_0, simp_all add: word_le_nat_alt)
      moreover have "\<not> (dir \<and> 2 ^ 128 \<le> unat r * unat price)"
        using all(1) by (simp only: amount_out_exact sum.distinct if_True split: if_splits) auto
      moreover have "of_nat ?ideal = out" unfolding all(2) [symmetric] by simp
      ultimately show ?thesis using all l m p Some
        by (simp add: fill_bin_def split_beta Let_def min_absorb1)
    next
      case some
      then have less: "unat m < ?ideal" by (simp add: word_less_nat_alt)
      from amount_in_exact [OF less] obtain c where
        c: "get_amount_in m price dir = Inr c" "unat c = input_for dir (unat price) (unat m)" by blast
      have "\<not> (dir \<and> 2 ^ 128 \<le> unat r * unat price)" "?ideal < 2 ^ 64" "?ideal \<noteq> 0"
        using some unat_lt_u64 [of out] less by (auto simp: amount_out_exact split: if_splits)
      moreover have "of_nat (input_for dir (unat price) (unat m)) = c" unfolding c(2) [symmetric] by simp
      ultimately show ?thesis using some l m p Some c(1) less
        by (auto simp: fill_bin_def split_beta Let_def min_absorb2)
    qed
  qed
qed

definition walk_order :: "bool \<Rightarrow> i32 list \<Rightarrow> bool" where
  "walk_order dir js \<longleftrightarrow> sorted_wrt (\<lambda>a b. a \<noteq> b \<and> ahead dir a b) js"

definition walk_value :: "u64 \<Rightarrow> nat \<Rightarrow> dlmm_error + nat \<times> nat \<Rightarrow> dlmm_error + u64 \<times> nat" where
  "walk_value t n = map_sum id (\<lambda>(t', n'). (of_nat (min (unat t + t') (2 ^ 64 - 1)), n + n'))"

lemma walk_value_more:
  assumes "unat t' = min (unat t + out) (2 ^ 64 - 1)"
  shows "walk_value t' (n + 1) res = walk_value t n (map_sum id (\<lambda>(t, n). (out + t, n + 1)) res)"
proof (cases res)
  case (Inr p)
  have "min (min (unat t + out) (2 ^ 64 - 1) + fst p) (2 ^ 64 - 1) = min (unat t + (out + fst p)) (2 ^ 64 - 1 :: nat)"
    by (simp add: min_def)
  then show ?thesis using assms Inr by (cases p) (simp add: walk_value_def)
qed (simp add: walk_value_def)

lemma walk_bins_exact:
  assumes "\<And>j. hm_get bins j \<noteq> None \<Longrightarrow> sint lo \<le> sint j \<and> sint j \<le> sint hi"
    and "if dir then - (2 ^ 31) < sint lo else sint hi < 2 ^ 31 - 1"
  shows "walk_order dir js \<Longrightarrow> (\<And>j. j \<in> set js \<longleftrightarrow> hm_get bins j \<noteq> None \<and> ahead dir i j) \<Longrightarrow>
    walk_bins bins bin_step dir lo hi r t n i
      = Some (walk_value t n (exact_walk (side_liquidity bins dir) bin_step dir js (unat r)))"
proof (induction "if dir then nat (sint i - sint lo + 1) else nat (sint hi - sint i + 1)" arbitrary: r t n i js rule: less_induct)
  case less
  let ?next = "i + (if dir then - 1 else 1)"
  have same: "walk_value t n (Inr (0, 0)) = Inr (t, n)"
    using unat_lt_u64 [of t] by (simp add: walk_value_def)
  show ?case
  proof (cases "r = 0 \<or> out_of_range dir lo hi i")
    case True
    have "js = []" if "out_of_range dir lo hi i"
    proof (rule ccontr)
      assume "js \<noteq> []"
      then obtain j where "j \<in> set js" by fastforce
      then show False using less.prems(2) [of j] assms(1) [of j] that by (auto simp: ahead_def out_of_range_def split: if_splits)
    qed
    with True same show ?thesis by (subst walk_bins.simps) auto
  next
    case False
    have room: "if dir then - (2 ^ 31) < sint i else sint i < 2 ^ 31 - 1"
      using False assms(2) by (auto simp: out_of_range_def split: if_splits)
    have closer: "(if dir then nat (sint ?next - sint lo + 1) else nat (sint hi - sint ?next + 1))
        < (if dir then nat (sint i - sint lo + 1) else nat (sint hi - sint i + 1))"
      using False room sint_next [of i] by (auto simp: out_of_range_def)
    have step: "ahead dir i j \<longleftrightarrow> j = i \<or> ahead dir ?next j" for j by (rule ahead_next [OF room])
    have apart: "\<not> ahead dir ?next i" using room sint_next [of i] by (auto simp: ahead_def split: if_splits)
    have r: "unat r \<noteq> 0" using False by (simp add: unat_eq_0)
    show ?thesis
    proof (cases "hm_get bins i")
      case None
      then have "j \<in> set js \<longleftrightarrow> hm_get bins j \<noteq> None \<and> ahead dir ?next j" for j
        using less.prems(2) [of j] step by auto
      from less.hyps [OF closer less.prems(1) this]
      show ?thesis using None False by (subst walk_bins.simps) (simp add: fill_bin_def)
    next
      case (Some l)
      have "i \<in> set js" using less.prems(2) [of i] Some step by simp
      then obtain j js' where js: "js = j # js'" by (cases js) auto
      have "j = i"
      proof (rule ccontr)
        assume "j \<noteq> i"
        then have "ahead dir j i" using \<open>i \<in> set js\<close> less.prems(1) by (auto simp: js walk_order_def)
        moreover have "ahead dir i j" using less.prems(2) [of j] by (simp add: js)
        ultimately have "sint i = sint j" by (auto simp: ahead_def split: if_splits)
        then show False using \<open>j \<noteq> i\<close> by (metis signed_word_eqI)
      qed
      note js = js [unfolded this]
      have rest: "walk_order dir js'" using less.prems(1) by (simp add: js walk_order_def)
      have "i \<notin> set js'" using less.prems(1) by (auto simp: js walk_order_def)
      then have mem: "k \<in> set js' \<longleftrightarrow> hm_get bins k \<noteq> None \<and> ahead dir ?next k" for k
        using less.prems(2) [of k] step [of k] apart Some by (auto simp: js)
      note IH = less.hyps [OF closer rest mem]
      let ?m = "side_liquidity bins dir i"
      consider (skip) "fill_bin bins bin_step dir r i = Inr None"
          "exact_walk (side_liquidity bins dir) bin_step dir js (unat r) = exact_walk (side_liquidity bins dir) bin_step dir js' (unat r)"
        | (err) e where "fill_bin bins bin_step dir r i = Inl e"
          "exact_walk (side_liquidity bins dir) bin_step dir js (unat r) = Inl e"
        | (last) out where "fill_bin bins bin_step dir r i = Inr (Some (of_nat out, r))" "out < 2 ^ 64"
          "exact_walk (side_liquidity bins dir) bin_step dir js (unat r) = Inr (out, 1)"
        | (emptied) p where "fill_bin bins bin_step dir r i = Inr (Some (of_nat ?m, of_nat (input_for dir p ?m)))"
          "bin_price (sint i) bin_step = Some p" "?m < ideal dir p (unat r)" "ideal dir p (unat r) < 2 ^ 64"
          "exact_walk (side_liquidity bins dir) bin_step dir js (unat r) = map_sum id (\<lambda>(t, n). (?m + t, n + 1))
            (exact_walk (side_liquidity bins dir) bin_step dir js' (unat r - input_for dir p ?m))"
      proof (cases "?m = 0")
        case True
        then show ?thesis using r by (intro that(1)) (auto simp: fill_bin_value js Let_def)
      next
        case liquid: False
        show ?thesis
        proof (cases "bin_price (sint i) bin_step")
          case None
          then show ?thesis using r liquid by (intro that(2) [of "PriceOverflow i"]) (auto simp: fill_bin_value js Let_def)
        next
          case price: (Some p)
          consider "dir \<and> 2 ^ 128 \<le> unat r * p" | "\<not> (dir \<and> 2 ^ 128 \<le> unat r * p)" "2 ^ 64 \<le> ideal dir p (unat r)"
            | "\<not> (dir \<and> 2 ^ 128 \<le> unat r * p)" "ideal dir p (unat r) < 2 ^ 64" by linarith
          then show ?thesis
          proof cases
            case 1
            then show ?thesis using r liquid price
              by (intro that(2) [of AmountOutOverflow]) (auto simp: fill_bin_value js Let_def)
          next
            case 2
            then show ?thesis using r liquid price
              by (intro that(2) [of AmountOutExceedsU64]) (auto simp: fill_bin_value js Let_def)
          next
            case 3
            consider "ideal dir p (unat r) = 0" | "ideal dir p (unat r) \<noteq> 0" "ideal dir p (unat r) \<le> ?m" | "?m < ideal dir p (unat r)"
              by linarith
            then show ?thesis
            proof cases
              case 1
              with 3 show ?thesis using r liquid price by (intro that(1)) (auto simp: fill_bin_value js Let_def)
            next
              case 2
              with 3 show ?thesis using r liquid price
                by (intro that(3) [of "ideal dir p (unat r)"]) (auto simp: fill_bin_value js Let_def)
            next
              case over: 3
              with 3 show ?thesis using r liquid price
                by (intro that(4) [of p]) (auto simp: fill_bin_value js Let_def)
            qed
          qed
        qed
      qed
      then show ?thesis
      proof cases
        case skip
        then show ?thesis using False IH by (subst walk_bins.simps) simp
      next
        case err
        then show ?thesis using False by (subst walk_bins.simps) (simp add: walk_value_def)
      next
        case last
        have "saturating_add t (of_nat out) = of_nat (min (unat t + out) (2 ^ 64 - 1))"
          using last(2) by (simp add: word_unat_eq_iff unat_saturating_add unat_of_nat_u64)
        then show ?thesis using False last
          by (subst walk_bins.simps) (simp add: walk_value_def saturating_sub_def Let_def)
      next
        case emptied
        obtain price where price: "get_price_from_id i bin_step = Some price" "p = unat price"
          using get_price_exact [of i bin_step] emptied(2) by auto
        define m where "m = out_side dir l"
        then have m: "?m = unat m" using Some by (simp add: side_liquidity_def)
        obtain c :: u64 where c: "unat c \<le> unat r" "unat c = input_for dir p ?m"
          using amount_in_exact [of m dir price r] emptied(3) by (auto simp: m price(2))
        let ?r = "saturating_sub r c" and ?t = "saturating_add t m"
        have fill: "fill_bin bins bin_step dir r i = Inr (Some (m, c))"
          using emptied(1) by (simp add: m c(2) [unfolded m, symmetric])
        have r': "unat ?r = unat r - input_for dir p ?m" by (simp add: unat_saturating_sub c(2))
        have t': "unat ?t = min (unat t + ?m) (2 ^ 64 - 1)" by (simp add: unat_saturating_add m)
        have answer: "walk_value t n (exact_walk (side_liquidity bins dir) bin_step dir js (unat r))
            = walk_value ?t (n + 1) (exact_walk (side_liquidity bins dir) bin_step dir js' (unat ?r))"
          unfolding emptied(5) r' by (rule walk_value_more [OF t', symmetric])
        show ?thesis
        proof (cases "?r = 0")
          case True
          then have "walk_value ?t (n + 1) (exact_walk (side_liquidity bins dir) bin_step dir js' (unat ?r)) = Inr (?t, n + 1)"
            using unat_lt_u64 [of ?t] by (simp add: walk_value_def)
          then show ?thesis unfolding answer using True False fill by (subst walk_bins.simps) (simp add: Let_def)
        next
          case more: False
          show ?thesis unfolding answer using more False fill IH [of ?r ?t "n + 1"]
            by (subst walk_bins.simps) (simp add: Let_def)
        qed
      qed
    qed
  qed
qed

section \<open>The walker\<close>

lemma after_fee_exact:
  assumes "fee \<le> 10000"
  shows "unat (amount_after_fee a fee) = unat a - unat a * unat fee div 10000"
proof -
  have fee: "unat fee \<le> 10000" "unat (ucast fee :: u128) = unat fee"
    using assms unsigned_less [of fee, where ?'a = nat] by (simp_all add: word_le_nat_alt unsigned_ucast_eq take_bit_eq_mod)
  have "unat a * unat fee \<le> unat a * 10000" using fee(1) by (rule mult_le_mono2)
  moreover have "unat a * 10000 < 2 ^ 128" using unat_lt_u64 [of a] by simp
  ultimately have "unat a * unat fee < 2 ^ 128" by (rule order_le_less_trans)
  then have "unat (as_u128 a * ucast fee) = unat a * unat fee"
    using unat_mult_small [of "as_u128 a" "ucast fee :: u128"] fee(2) by simp
  moreover have "unat a * unat fee div 10000 \<le> unat a"
    using div_le_mono [OF \<open>unat a * unat fee \<le> unat a * 10000\<close>, of 10000] by simp
  then have "unat a * unat fee div 10000 < 2 ^ 64" using unat_lt_u64 [of a] by (rule order_le_less_trans)
  ultimately show ?thesis
    by (simp add: amount_after_fee_def unat_saturating_sub unat_as_u64 unat_div)
qed

text \<open>A walker built from a list of bins holds the non-empty ones, sorted by id.\<close>

lemma walker_from_bins_facts:
  fixes active :: i32 and bin_step :: u16
  defines "w bins \<equiv> walker_from_bins active bin_step bins"
  shows "bw_active_id (w bins) = active" "bw_bin_step (w bins) = bin_step"
    "sorted (map (\<lambda>b. sint (bn_id b)) (bw_bins (w bins)))"
    "set (bw_bins (w bins)) = set (map (\<lambda>(i, x, y). \<lparr> bn_id = i, bn_amount_x = x, bn_amount_y = y \<rparr>)
       (filter (\<lambda>(i, x, y). x > 0 \<or> y > 0) bins))"
proof -
  let ?step = "\<lambda>(i, x, y) w. if x > 0 \<or> y > 0 then add_bin i x y w else w"
  let ?bin = "\<lambda>(i, x, y). \<lparr> bn_id = i, bn_amount_x = x, bn_amount_y = y \<rparr>"
  have "bw_active_id v = active \<and> bw_bin_step v = bin_step \<and> sorted (map (\<lambda>b. sint (bn_id b)) (bw_bins v)) \<Longrightarrow>
      (let u = fold ?step bins v in
       bw_active_id u = active \<and> bw_bin_step u = bin_step \<and> sorted (map (\<lambda>b. sint (bn_id b)) (bw_bins u))
       \<and> set (bw_bins u) = set (bw_bins v) \<union> set (map ?bin (filter (\<lambda>(i, x, y). x > 0 \<or> y > 0) bins)))" for v
  proof (induction bins arbitrary: v)
    case (Cons p bins)
    obtain i x y where p: "p = (i, x, y)" by (cases p)
    show ?case
      using Cons.IH [of "?step p v"] Cons.prems
      by (cases "x > 0 \<or> y > 0") (simp_all add: p add_bin_def Let_def del: set_map set_filter)
  qed simp
  from this [of "walker_new active bin_step"]
  show "bw_active_id (w bins) = active" "bw_bin_step (w bins) = bin_step"
    "sorted (map (\<lambda>b. sint (bn_id b)) (bw_bins (w bins)))"
    "set (bw_bins (w bins)) = set (map ?bin (filter (\<lambda>(i, x, y). x > 0 \<or> y > 0) bins))"
    unfolding w_def walker_from_bins_def by (simp_all add: walker_new_def Let_def)
qed

lemma bin_map_dom: "hm_get (bin_map bins) j \<noteq> None \<longleftrightarrow> j \<in> bn_id ` set bins"
proof -
  have "hm_get (fold (\<lambda>b. hm_put (bn_id b) (bn_amount_x b, bn_amount_y b)) bins m) j \<noteq> None
      \<longleftrightarrow> j \<in> bn_id ` set bins \<or> hm_get m j \<noteq> None" for m
    by (induction bins arbitrary: m) (auto simp: update_conv')
  from this [of "[]"] show ?thesis by (simp add: bin_map_def)
qed

lemma sorted_ends:
  assumes "sorted (map f bs)" "b \<in> set bs"
  shows "f (hd bs) \<le> f b" "f b \<le> f (last bs)"
proof -
  have ne: "bs \<noteq> []" using assms(2) by auto
  then show "f (hd bs) \<le> f b" using assms by (cases bs) auto
  show "f b \<le> f (last bs)"
    using assms ne by (induction bs rule: rev_induct) (auto simp: sorted_append)
qed

lemma walked_nothing: "walked bins bin_step dir i 0 [] 0"
  by (simp add: walked_def)

lemma quote_walks:
  assumes "sorted (map (\<lambda>b. sint (bn_id b)) (bw_bins w))"
    and "\<forall>b \<in> set (bw_bins w). - (2 ^ 31) < sint (bn_id b) \<and> sint (bn_id b) < 2 ^ 31 - 1" "0 < a"
  shows "\<exists>res. quote_exact_in w a fee dir = Some res
    \<and> (case res of
         Inl err \<Rightarrow> walk_error err
       | Inr (out, n, f) \<Rightarrow> f = fee \<and> (\<exists>fills left.
           walked (bin_map (bw_bins w)) (bw_bin_step w) dir (bw_active_id w) (unat (amount_after_fee a fee)) fills left
           \<and> unat out = min (\<Sum>(j, c, o') \<leftarrow> fills. unat o') (2 ^ 64 - 1) \<and> n = length fills))"
proof -
  let ?bins = "bin_map (bw_bins w)" and ?r = "amount_after_fee a fee"
  have a: "a \<noteq> 0" using assms(3) by simp
  show ?thesis
  proof (cases "?r = 0 \<or> bw_bins w = []")
    case True
    then have "walked ?bins (bw_bin_step w) dir (bw_active_id w) (unat ?r) [] (unat ?r)"
      using walked_nothing by (auto simp: walked_def bin_map_def)
    with True a show ?thesis by (auto simp: quote_exact_in_def intro!: exI [of _ "[]"])
  next
    case False
    let ?lo = "bn_id (hd (bw_bins w))" and ?hi = "bn_id (last (bw_bins w))"
    have "sint ?lo \<le> sint j \<and> sint j \<le> sint ?hi" if "hm_get ?bins j \<noteq> None" for j
      using that sorted_ends [OF assms(1)] unfolding bin_map_dom by auto
    moreover have "if dir then - (2 ^ 31) < sint ?lo else sint ?hi < 2 ^ 31 - 1" using assms(2) False by simp
    ultimately obtain res where res: "walk_bins ?bins (bw_bin_step w) dir ?lo ?hi ?r 0 0 (bw_active_id w) = Some res"
      "walk_result ?bins (bw_bin_step w) dir (bw_active_id w) ?r 0 0 res"
      using walk_exact [of ?bins ?lo ?hi dir "bw_bin_step w" ?r 0 0 "bw_active_id w"] by blast
    show ?thesis
    proof (cases res)
      case (Inl err)
      with res False a show ?thesis by (simp add: quote_exact_in_def walk_result_def)
    next
      case (Inr p)
      then have "quote_exact_in w a fee dir = Some (Inr (fst p, snd p, fee))"
        using res(1) False a by (simp add: quote_exact_in_def split_beta)
      with res(2) Inr show ?thesis by (cases p) (simp add: walk_result_def)
    qed
  qed
qed

end
