(* ===== verification/Bin_Claims.thy ===== *)
theory Bin_Claims
  imports Bin_Properties
begin

text \<open>
  What the DLMM quote promises: prices, the walk over the bins, the liquidity it is paid from, and
  what the parser of a bin array reads.
\<close>

section \<open>Prices\<close>

text \<open>
  C32. The price of a bin in \<open>u128\<close> arithmetic is the square-and-multiply on natural numbers: no step
  overflows, and it fails exactly when the id is out of range or the result rounds to zero. It
  is one at id zero, above one for positive and below one for negative ids, and a price below one never exceeds
  the exact power of the ratio of one step.
\<close>

theorem dlmm_price_exact:
  "map_option unat (get_price_from_id i bin_step) = bin_price (sint i) bin_step
   \<and> (\<forall>p. bin_price (sint i) bin_step = Some p \<longrightarrow> \<bar>sint i\<bar> < 2 ^ 19
        \<and> (sint i = 0 \<longrightarrow> p = 2 ^ 64) \<and> (0 < sint i \<longrightarrow> 2 ^ 64 < p)
        \<and> (sint i < 0 \<longrightarrow> p < 2 ^ 64
             \<and> p * 2 ^ (64 * nat (- sint i)) \<le> 2 ^ 64 * step_ratio bin_step ^ nat (- sint i)))"
proof (intro conjI allI impI)
  show "map_option unat (get_price_from_id i bin_step) = bin_price (sint i) bin_step" by (rule get_price_exact)
next
  fix p assume p: "bin_price (sint i) bin_step = Some p"
  note sides = bin_price_sides [OF p]
  show "sint i = 0 \<Longrightarrow> p = 2 ^ 64" "0 < sint i \<Longrightarrow> 2 ^ 64 < p" "sint i < 0 \<Longrightarrow> p < 2 ^ 64"
    by (rule sides; assumption)+
  show range: "\<bar>sint i\<bar> < 2 ^ 19" using p by (auto simp: bin_price_def Let_def split: if_splits)
  assume neg: "sint i < 0"
  then have "p = fx_pow (step_ratio bin_step) (nat (- sint i))"
    using p by (auto simp: bin_price_def Let_def split: if_splits)
  moreover have "nat (- sint i) < 2 ^ 19" using range neg by (simp add: nat_less_iff)
  ultimately show "p * 2 ^ (64 * nat (- sint i)) \<le> 2 ^ 64 * step_ratio bin_step ^ nat (- sint i)"
    using fx_pow_bound by simp
qed

theorem dlmm_price_exact_witness:
  "map_option unat (get_price_from_id 0 25) = bin_price 0 25 \<and> bin_price 0 25 = Some (2 ^ 64)"
  using dlmm_price_exact [of 0 25] by (simp add: bin_price_def)

section \<open>The quote\<close>

definition liquidity_ahead :: "(i32, u64 \<times> u64) hashmap \<Rightarrow> bool \<Rightarrow> i32 \<Rightarrow> nat" where
  "liquidity_ahead bins dir i = (\<Sum>j \<in> {j \<in> dom (hm_get bins). ahead dir i j}. unat (out_side dir (the (hm_get bins j))))"

lemma fills_within_liquidity:
  assumes "walked bins bin_step dir i r fills left"
  shows "(\<Sum>(j, c, out) \<leftarrow> fills. unat out) \<le> liquidity_ahead bins dir i"
proof -
  let ?f = "\<lambda>j. unat (out_side dir (the (hm_get bins j)))"
  have each: "unat out \<le> ?f j" "j \<in> dom (hm_get bins)" "ahead dir i j" if "(j, c, out) \<in> set fills" for j c out
    using that assms by (auto simp: walked_def fill_ok_def word_le_nat_alt)
  have "sorted_wrt (\<lambda>a b. fst a \<noteq> fst b \<and> ahead dir (fst a) (fst b)) fills" using assms by (simp add: walked_def)
  then have d: "distinct (map fst fills)" by (induction fills) auto
  have "(\<Sum>(j, c, out) \<leftarrow> fills. unat out) \<le> (\<Sum>x \<leftarrow> fills. ?f (fst x))"
    by (rule sum_list_mono) (use each in auto)
  also have "\<dots> = (\<Sum>j \<leftarrow> map fst fills. ?f j)" by (simp add: comp_def)
  also have "\<dots> = (\<Sum>j \<in> fst ` set fills. ?f j)" using sum_list_distinct_conv_sum_set [OF d, of ?f] by simp
  also have "\<dots> \<le> liquidity_ahead bins dir i"
    unfolding liquidity_ahead_def
  proof (rule sum_mono2)
    show "fst ` set fills \<subseteq> {j \<in> dom (hm_get bins). ahead dir i j}" using each(2,3) by (force simp del: domIff)
  qed (simp_all add: finite_dom_map_of)
  finally show ?thesis .
qed







text \<open>A DLMM quote never exceeds the output liquidity of the bins it may walk over.\<close>

theorem dlmm_quote_within_liquidity:
  fixes flat :: "(i32 \<times> u64 \<times> u64) list"
  assumes "\<forall>(j, x, y) \<in> set flat. - (2 ^ 31) < sint j \<and> sint j < 2 ^ 31 - 1" "0 < amount"
    and "quote_exact_in (walker_from_bins active bin_step flat) amount fee dir = Some (Inr (out, crossed, f))"
  shows "unat out \<le> liquidity_ahead (bin_map (bw_bins (walker_from_bins active bin_step flat))) dir active"
proof -
  let ?w = "walker_from_bins active bin_step flat"
  note facts = walker_from_bins_facts [of active bin_step flat]
  have "\<forall>b \<in> set (bw_bins ?w). - (2 ^ 31) < sint (bn_id b) \<and> sint (bn_id b) < 2 ^ 31 - 1"
    unfolding facts(4) using assms(1) by auto
  from quote_walks [OF facts(3) this assms(2), of fee dir] obtain fills left where
    "walked (bin_map (bw_bins ?w)) bin_step dir active (unat (amount_after_fee amount fee)) fills left"
    "unat out = min (\<Sum>(j, c, o') \<leftarrow> fills. unat o') (2 ^ 64 - 1)"
    unfolding assms(3) facts(1,2) by auto
  with fills_within_liquidity show ?thesis by fastforce
qed

theorem dlmm_quote_within_liquidity_witness:
  "quote_exact_in (walker_from_bins 0 10 [(0, 5, 1000)]) 100 20 True = Some (Inr (100, 1, 20))
   \<and> unat (100 :: u64) \<le> liquidity_ahead (bin_map (bw_bins (walker_from_bins 0 10 [(0, 5, 1000)]))) True 0"
proof -
  have w: "walker_from_bins 0 10 [(0, 5, 1000)] = \<lparr> bw_active_id = 0, bw_bin_step = 10,
      bw_bins = [\<lparr> bn_id = 0, bn_amount_x = 5, bn_amount_y = 1000 \<rparr>] \<rparr>"
    by (simp add: walker_from_bins_def walker_new_def add_bin_def)
  have fee: "amount_after_fee 100 20 = 100"
    by (rule word_unat_eq_iff [THEN iffD2]) (simp add: after_fee_exact word_le_nat_alt)
  have "get_price_from_id 0 10 = Some fixed_one"
    using get_price_exact [of 0 10] unat_fixed_one by (auto simp: bin_price_def word_unat_eq_iff)
  then have "fill_bin [(0, 5, 1000)] 10 True 100 0 = Inr (Some (100, 100))"
    by (simp add: fill_bin_def amount_out_exact ideal_def unat_fixed_one)
  then have "quote_exact_in (walker_from_bins 0 10 [(0, 5, 1000)]) 100 20 True = Some (Inr (100, 1, 20))"
    by (simp add: w quote_exact_in_def fee bin_map_def)
      (subst walk_bins.simps, simp add: out_of_range_def saturating_sub_def saturating_add_def)
  with dlmm_quote_within_liquidity [OF _ _ this] show ?thesis by simp
qed

section \<open>Bin arrays\<close>

lemma parse_bins_read:
  "a \<le> b \<Longrightarrow> \<exists>bins. parse_bins data [a ..< b] = Done bins
    \<and> length bins = min (b - a) ((length data - 56 - 32 * a) div 32)
    \<and> (\<forall>k < length bins. bins ! k = (from_le_bytes (take 8 (drop (56 + 32 * (a + k)) data)),
         from_le_bytes (take 8 (drop (72 + 32 * (a + k)) data))))"
proof (induction "b - a" arbitrary: a)
  case (Suc n)
  then have ab: "a < b" "n = b - Suc a" by simp_all
  have upt: "[a ..< b] = a # [Suc a ..< b]" using ab(1) by (simp add: upt_conv_Cons)
  show ?case
  proof (cases "56 + a * 32 + 32 > length data")
    case True
    then have "(length data - 56 - 32 * a) div 32 = 0" by simp
    with True show ?thesis by (simp add: upt)
  next
    case False
    obtain bins where bins: "parse_bins data [Suc a ..< b] = Done bins"
      "length bins = min (b - Suc a) ((length data - 56 - 32 * Suc a) div 32)"
      "\<forall>k < length bins. bins ! k = (from_le_bytes (take 8 (drop (56 + 32 * (Suc a + k)) data)),
         from_le_bytes (take 8 (drop (72 + 32 * (Suc a + k)) data)))"
      using Suc.hyps(1) [OF ab(2)] ab(1) by auto
    let ?p = "(from_le_bytes (take 8 (drop (56 + 32 * a) data)), from_le_bytes (take 8 (drop (72 + 32 * a) data)))"
    have parsed: "parse_bins data [a ..< b] = Done (?p # bins)"
      using False bins(1) by (simp add: upt word_at_def byte_slice_def mult.commute add.commute)
    have "(length data - 56 - 32 * a) div 32 = Suc ((length data - 56 - 32 * Suc a) div 32)"
      using False div_add_self2 [of 32 "length data - 56 - 32 * Suc a"] by (simp add: algebra_simps)
    moreover have "b - a = Suc (b - Suc a)" using ab(1) by simp
    ultimately have "length (?p # bins) = min (b - a) ((length data - 56 - 32 * a) div 32)"
      using bins(2) by (simp only: list.size min_Suc_Suc add_0_right add_Suc_right)
    moreover have "(?p # bins) ! k = (from_le_bytes (take 8 (drop (56 + 32 * (a + k)) data)),
         from_le_bytes (take 8 (drop (72 + 32 * (a + k)) data)))" if "k < length (?p # bins)" for k
      using bins(3) that by (cases k) simp_all
    ultimately show ?thesis using parsed by blast
  qed
qed simp

text \<open>
  Parsing a bin array never panics: data shorter than the header is refused, and otherwise the array
  has as many bins as fit in strides of 32 bytes, at most seventy, each with the amounts at its place.
\<close>

theorem bin_array_parsed:
  "case parse_bin_array data of
     Panic \<Rightarrow> False
   | Done None \<Rightarrow> length data < 56
   | Done (Some a) \<Rightarrow> 56 \<le> length data \<and> length (ba_bins a) = min 70 ((length data - 56) div 32)
       \<and> (\<forall>k < length (ba_bins a). get_bin a k =
            Some (from_le_bytes (take 8 (drop (56 + 32 * k) data)), from_le_bytes (take 8 (drop (72 + 32 * k) data))))"
proof (cases "length data < 56")
  case True
  then show ?thesis by (simp add: parse_bin_array_def)
next
  case False
  obtain bins where "parse_bins data [0 ..< bins_per_array] = Done bins"
    "length bins = min 70 ((length data - 56) div 32)"
    "\<forall>k < length bins. bins ! k = (from_le_bytes (take 8 (drop (56 + 32 * k) data)),
       from_le_bytes (take 8 (drop (72 + 32 * k) data)))"
    using parse_bins_read [of 0 bins_per_array data] by (auto simp: bins_per_array_def)
  with False show ?thesis
    by (simp add: parse_bin_array_def byte_slice_def byte_at_def word_at_def pubkey_at_def get_bin_def)
qed

theorem bin_array_parsed_witness:
  "case parse_bin_array (replicate 120 1) of Done (Some a) \<Rightarrow> length (ba_bins a) = 2 | _ \<Rightarrow> False"
  using bin_array_parsed [of "replicate 120 1"] by (auto split: outcome.splits option.splits)

text \<open>
  \<open>ACCOUNT_SIZE\<close> counts 24 bytes per bin while the parser reads 32: an account of that size is read as
  52 bins instead of seventy.
\<close>

lemma account_size_misses_bins:
  assumes "length data = bin_array_account_size"
  shows "\<exists>a. parse_bin_array data = Done (Some a) \<and> length (ba_bins a) = 52"
proof -
  obtain bins where "parse_bins data [0 ..< bins_per_array] = Done bins" "length bins = 52"
    using parse_bins_read [of 0 bins_per_array data] assms by (auto simp: bins_per_array_def bin_array_account_size_def)
  then show ?thesis
    using assms
    by (simp add: parse_bin_array_def bin_array_account_size_def bins_per_array_def byte_slice_def byte_at_def
      word_at_def pubkey_at_def)
qed

end
