(* ===== verification/Rust_Collections.thy ===== *)
theory Rust_Collections
  imports Iron_Prelude "HOL-Library.Multiset"
begin

text \<open>
  What the arbitrage search uses of the Rust standard library: the arithmetic of \<open>f64\<close> as a record of
  operations, the stable sort of slices, and \<open>BinaryHeap\<close> with the sifting of its implementation.
  The heap provides the interface \<open>multiset_queue\<close>, in which the measure of a work list is shown
  to decrease.
\<close>

section \<open>Floating point\<close>

text \<open>
  Double-precision numbers are a type parameter \<open>'f\<close> with the operations that the sources apply to
  them; nothing is assumed of rounding. \<open>f_lit m e\<close> is the number that the decimal literal
  \<open>m / 10 ^ e\<close> denotes. Comparisons are those of IEEE 754: with a NaN on a side \<open>f_lt\<close> and \<open>f_eq\<close> are false.
\<close>

record 'f f64_ops =
  f_lt :: "'f \<Rightarrow> 'f \<Rightarrow> bool"
  f_eq :: "'f \<Rightarrow> 'f \<Rightarrow> bool"
  f_add :: "'f \<Rightarrow> 'f \<Rightarrow> 'f"
  f_sub :: "'f \<Rightarrow> 'f \<Rightarrow> 'f"
  f_mul :: "'f \<Rightarrow> 'f \<Rightarrow> 'f"
  f_div :: "'f \<Rightarrow> 'f \<Rightarrow> 'f"
  f_powi :: "'f \<Rightarrow> i32 \<Rightarrow> 'f"
  f_abs :: "'f \<Rightarrow> 'f"
  f_round :: "'f \<Rightarrow> 'f"
  f_minimum :: "'f \<Rightarrow> 'f \<Rightarrow> 'f"
  f_finite :: "'f \<Rightarrow> bool"
  f_of_u64 :: "u64 \<Rightarrow> 'f"
  f_of_i32 :: "i32 \<Rightarrow> 'f"
  f_to_i32 :: "'f \<Rightarrow> i32"
  f_lit :: "int \<Rightarrow> nat \<Rightarrow> 'f"
  f_MAX :: "'f"
  f_MIN :: "'f"
  f_EPSILON :: "'f"

definition f_partial_cmp :: "'f f64_ops \<Rightarrow> 'f \<Rightarrow> 'f \<Rightarrow> ordering option" where
  "f_partial_cmp F a b =
     (if f_lt F a b then Some Less else if f_eq F a b then Some Equal
      else if f_lt F b a then Some Greater else None)"

definition f_cmp :: "'f f64_ops \<Rightarrow> 'f \<Rightarrow> 'f \<Rightarrow> ordering" where
  \<comment> \<open>\<open>a.partial_cmp(&b).unwrap_or(Ordering::Equal)\<close>\<close>
  "f_cmp F a b = unwrap_or (f_partial_cmp F a b) Equal"

definition f_within :: "'f f64_ops \<Rightarrow> 'f \<Rightarrow> 'f \<Rightarrow> 'f \<Rightarrow> 'f" where
  "f_within F x lo hi = (let x = (if f_lt F x lo then lo else x) in if f_lt F hi x then hi else x)"

definition f_clamp :: "'f f64_ops \<Rightarrow> 'f \<Rightarrow> 'f \<Rightarrow> 'f \<Rightarrow> 'f outcome" where
  \<comment> \<open>\<open>f64::clamp\<close> asserts \<open>min <= max\<close>; between constants that satisfy it \<open>f_within\<close> is the result\<close>
  "f_clamp F x lo hi = (if f_lt F lo hi \<or> f_eq F lo hi then Done (f_within F x lo hi) else Panic)"

text \<open>The comparison of the values in a list is total, which excludes NaN.\<close>

definition f_comparable :: "'f f64_ops \<Rightarrow> 'f set \<Rightarrow> bool" where
  "f_comparable F xs \<longleftrightarrow>
     (\<forall>x \<in> xs. \<forall>y \<in> xs. f_lt F x y \<longrightarrow> \<not> f_lt F y x)
     \<and> (\<forall>x \<in> xs. \<forall>y \<in> xs. \<forall>z \<in> xs. f_lt F x y \<longrightarrow> f_lt F x z \<or> f_lt F z y)"

lemma f_cmp_Less [simp]: "f_cmp F a b = Less \<longleftrightarrow> f_lt F a b"
  by (simp add: f_cmp_def f_partial_cmp_def)

section \<open>Stable sorting\<close>

text \<open>
  \<open>slice::sort_by\<close>. Each element moves to the left past those that it is less than, as the insertion
  sort that the library runs on short slices does it. For a comparison that is a total preorder every stable
  sort returns this list; for others the library leaves the order open.
\<close>

fun sift_left :: "('a \<Rightarrow> 'a \<Rightarrow> ordering) \<Rightarrow> 'a \<Rightarrow> 'a list \<Rightarrow> 'a list" where
  "sift_left cmp x [] = [x]"
| "sift_left cmp x (y # ys) = (if cmp x y = Less then y # sift_left cmp x ys else x # y # ys)"

definition sort_by :: "('a \<Rightarrow> 'a \<Rightarrow> ordering) \<Rightarrow> 'a list \<Rightarrow> 'a list" where
  "sort_by cmp xs = rev (fold (sift_left cmp) xs [])"

lemma mset_sift_left [simp]: "mset (sift_left cmp x ys) = add_mset x (mset ys)"
  by (induction ys) auto

lemma mset_sort_by [simp]: "mset (sort_by cmp xs) = mset xs"
proof -
  have "mset (fold (sift_left cmp) xs ys) = mset xs + mset ys" for ys
    by (induction xs arbitrary: ys) simp_all
  then show ?thesis by (simp add: sort_by_def)
qed

lemma set_sort_by [simp]: "set (sort_by cmp xs) = set xs"
  by (metis mset_sort_by set_mset_mset)

lemma length_sort_by [simp]: "length (sort_by cmp xs) = length xs"
  by (metis mset_sort_by size_mset)

lemma sort_by_Nil [simp]: "sort_by cmp [] = []"
  by (simp add: sort_by_def)

lemma sort_by_eq_Nil [simp]: "sort_by cmp xs = [] \<longleftrightarrow> xs = []"
  by (metis length_0_conv length_sort_by)

text \<open>A comparison whose \<open>Less\<close> is a strict weak order on the elements sorts them.\<close>

definition weak_order_on :: "('a \<Rightarrow> 'a \<Rightarrow> ordering) \<Rightarrow> 'a set \<Rightarrow> bool" where
  "weak_order_on cmp A \<longleftrightarrow> (\<forall>a \<in> A. \<forall>b \<in> A. cmp a b = Less \<longrightarrow> cmp b a \<noteq> Less)
     \<and> (\<forall>a \<in> A. \<forall>b \<in> A. \<forall>c \<in> A. cmp a b = Less \<longrightarrow> cmp a c = Less \<or> cmp c b = Less)"

lemma weak_order_asym: "weak_order_on cmp A \<Longrightarrow> a \<in> A \<Longrightarrow> b \<in> A \<Longrightarrow> cmp a b = Less \<Longrightarrow> cmp b a \<noteq> Less"
  by (simp add: weak_order_on_def)

lemma weak_order_trans:
  "weak_order_on cmp A \<Longrightarrow> a \<in> A \<Longrightarrow> b \<in> A \<Longrightarrow> c \<in> A \<Longrightarrow> cmp a c \<noteq> Less \<Longrightarrow> cmp c b \<noteq> Less \<Longrightarrow> cmp a b \<noteq> Less"
  unfolding weak_order_on_def by blast

lemma set_sift_left [simp]: "set (sift_left cmp x ys) = insert x (set ys)"
  by (metis mset_sift_left set_mset_add_mset_insert set_mset_mset)

lemma sift_left_sorted:
  assumes "weak_order_on cmp A" "x \<in> A" "set ys \<subseteq> A" "sorted_wrt (\<lambda>a b. cmp a b \<noteq> Less) ys"
  shows "sorted_wrt (\<lambda>a b. cmp a b \<noteq> Less) (sift_left cmp x ys)"
  using assms(3,4)
proof (induction ys)
  case (Cons y ys)
  show ?case
  proof (cases "cmp x y = Less")
    case True
    with Cons assms(1,2) show ?thesis using weak_order_asym [OF assms(1,2), of y] by auto
  next
    case False
    then have "cmp x b \<noteq> Less" if "b \<in> set ys" for b
      using weak_order_trans [OF assms(1,2), of b y] Cons.prems that by auto
    with False Cons.prems show ?thesis by auto
  qed
qed simp

lemma sort_by_sorted:
  assumes "weak_order_on cmp (set xs)"
  shows "sorted_wrt (\<lambda>a b. cmp b a \<noteq> Less) (sort_by cmp xs)"
proof -
  have "sorted_wrt (\<lambda>a b. cmp a b \<noteq> Less) (fold (sift_left cmp) zs ys)"
    if "set zs \<subseteq> set xs" "set ys \<subseteq> set xs" "sorted_wrt (\<lambda>a b. cmp a b \<noteq> Less) ys" for zs ys
    using that
  proof (induction zs arbitrary: ys)
    case (Cons z zs)
    then show ?case
      using sift_left_sorted [OF assms, of z ys] Cons.IH [of "sift_left cmp z ys"] by simp
  qed simp
  from this [of xs "[]"] show ?thesis by (simp add: sort_by_def sorted_wrt_rev)
qed

section \<open>Binary heap\<close>

text \<open>
  \<open>BinaryHeap\<close>: \<open>push\<close> appends and sifts up; \<open>pop\<close> moves the last element to the root, sifts it down to a
  leaf along the greater children and up again. \<open>le\<close> is the \<open><=\<close> of the elements.
\<close>

function sift_up :: "('a \<Rightarrow> 'a \<Rightarrow> bool) \<Rightarrow> nat \<Rightarrow> 'a list \<Rightarrow> 'a list" where
  "sift_up le pos h =
     (if pos = 0 then h
      else let parent = (pos - 1) div 2 in
        if le (h ! pos) (h ! parent) then h
        else sift_up le parent (h[pos := h ! parent, parent := h ! pos]))"
  by auto
termination
  by (relation "measure (\<lambda>(le, pos, h). pos)") auto

function sift_down :: "('a \<Rightarrow> 'a \<Rightarrow> bool) \<Rightarrow> nat \<Rightarrow> 'a list \<Rightarrow> nat \<times> 'a list" where
  "sift_down le pos h =
     (let child = 2 * pos + 1 in
      if child \<le> length h - 2 then
        (let child = (if le (h ! child) (h ! (child + 1)) then child + 1 else child)
         in sift_down le child (h[pos := h ! child, child := h ! pos]))
      else if child + 1 = length h then (child, h[pos := h ! child, child := h ! pos])
      else (pos, h))"
  by auto
termination
  by (relation "measure (\<lambda>(le, pos, h). length h - pos)") auto

definition sift_down_to_bottom :: "('a \<Rightarrow> 'a \<Rightarrow> bool) \<Rightarrow> 'a list \<Rightarrow> 'a list" where
  "sift_down_to_bottom le h = (case sift_down le 0 h of (pos, h) \<Rightarrow> sift_up le pos h)"

definition heap_push :: "('a \<Rightarrow> 'a \<Rightarrow> bool) \<Rightarrow> 'a \<Rightarrow> 'a list \<Rightarrow> 'a list" where
  "heap_push le x h = sift_up le (length h) (h @ [x])"

definition heap_pop :: "('a \<Rightarrow> 'a \<Rightarrow> bool) \<Rightarrow> 'a list \<Rightarrow> ('a \<times> 'a list) option" where
  "heap_pop le h =
     (if h = [] then None
      else let item = last h; rest = butlast h in
        if rest = [] then Some (item, rest)
        else Some (rest ! 0, sift_down_to_bottom le (rest[0 := item])))"

declare sift_up.simps [simp del] sift_down.simps [simp del]

lemma mset_sift_up [simp]: "pos < length h \<Longrightarrow> mset (sift_up le pos h) = mset h"
proof (induction le pos h rule: sift_up.induct)
  case (1 le pos h)
  show ?case
  proof (cases "pos = 0 \<or> le (h ! pos) (h ! ((pos - 1) div 2))")
    case True
    then show ?thesis by (auto simp: sift_up.simps [of le pos h] Let_def)
  next
    case False
    have "(pos - 1) div 2 < length h" using "1.prems" by linarith
    with False "1.IH" "1.prems" show ?thesis
      by (simp add: sift_up.simps [of le pos h] Let_def mset_swap)
  qed
qed

lemma mset_sift_down:
  "pos < length h \<Longrightarrow> sift_down le pos h = (p, h') \<Longrightarrow> mset h' = mset h \<and> p < length h"
proof (induction le pos h rule: sift_down.induct)
  case (1 le pos h)
  let ?c = "if le (h ! (2 * pos + 1)) (h ! (2 * pos + 1 + 1)) then 2 * pos + 1 + 1 else 2 * pos + 1"
  show ?case
  proof (cases "2 * pos + 1 \<le> length h - 2")
    case True
    then have "?c < length h" by auto
    with "1.IH" [OF refl True refl] "1.prems" True show ?thesis
      by (simp add: sift_down.simps [of le pos h] Let_def mset_swap split: if_splits)
  next
    case False
    with "1.prems" show ?thesis
      by (auto simp: sift_down.simps [of le pos h] Let_def mset_swap split: if_splits)
  qed
qed

lemma mset_sift_down_to_bottom:
  assumes "h \<noteq> []"
  shows "mset (sift_down_to_bottom le h) = mset h"
proof (cases "sift_down le 0 h")
  case (Pair p h')
  then have "mset h' = mset h" "p < length h'"
    using mset_sift_down [of 0 h le p h'] assms by (auto dest: mset_eq_length)
  with Pair show ?thesis by (simp add: sift_down_to_bottom_def)
qed

lemma mset_heap_push [simp]: "mset (heap_push le x h) = add_mset x (mset h)"
  by (simp add: heap_push_def)

lemma heap_pop_None [simp]: "heap_pop le h = None \<longleftrightarrow> h = []"
  by (simp add: heap_pop_def Let_def)

lemma heap_pop_Nil [simp]: "heap_pop le [] = None"
  by simp

lemma mset_heap_pop: "heap_pop le h = Some (x, h') \<Longrightarrow> mset h = add_mset x (mset h')"
proof -
  assume pop: "heap_pop le h = Some (x, h')"
  then have "h \<noteq> []" by (auto simp: heap_pop_def)
  then have "mset h = mset (butlast h @ [last h])" by simp
  then have ms: "mset h = add_mset (last h) (mset (butlast h))" by simp
  show ?thesis
  proof (cases "butlast h")
    case Nil
    with pop ms show ?thesis by (auto simp: heap_pop_def Let_def split: if_splits)
  next
    case (Cons y ys)
    with pop ms show ?thesis
      by (auto simp: heap_pop_def Let_def mset_sift_down_to_bottom add_mset_commute split: if_splits)
  qed
qed

section \<open>Work lists\<close>

text \<open>
  A loop that takes an element out of a queue and puts elements of smaller rank in terminates; the queue
  may give the elements back in any order.
\<close>

locale multiset_queue =
  fixes push :: "'a \<Rightarrow> 'q \<Rightarrow> 'q"
    and pop :: "'q \<Rightarrow> ('a \<times> 'q) option"
    and elems :: "'q \<Rightarrow> 'a multiset"
  assumes elems_push: "elems (push x q) = add_mset x (elems q)"
    and elems_pop: "pop q = Some (x, q') \<Longrightarrow> elems q = add_mset x (elems q')"
begin

lemma pop_push_less:
  assumes "pop q = Some (x, q')" "elems q'' = elems q' + new" "\<forall>y \<in># new. rank y < (rank x :: nat)"
  shows "(image_mset rank (elems q''), image_mset rank (elems q)) \<in> mult less_than"
proof -
  have "(image_mset rank (elems q') + image_mset rank new, image_mset rank (elems q') + {#rank x#}) \<in> mult less_than"
    using assms(3) by (intro one_step_implies_mult) auto
  with assms(1,2) show ?thesis by (simp add: elems_pop)
qed

end

interpretation heap: multiset_queue "heap_push le" "heap_pop le" mset
  by unfold_locales (simp_all add: mset_heap_pop)

end
