(* ===== verification/Arb_Types.thy ===== *)
theory Arb_Types
  imports Rust_Collections
begin

text \<open>
  The data of the multi-hop arbitrage search (\<open>arbitrage/types.rs\<close>): pool edges, ranked pools, cycles and
  search nodes, with the arithmetic of profits over an arbitrary \<open>f64\<close>.
\<close>

section \<open>Venues\<close>

datatype dex_type = DRaydiumAmmV4 | DRaydiumCpmm | DOrca | DMeteoraDlmm | DMeteoraCpmm | DPumpSwapAmm

datatype parse_dex_type_error = ParseDexTypeError string

text \<open>
  \<open>str::to_lowercase\<close> on the ASCII letters. Other characters never lower to one of the letters that the
  venue names are made of, so a string with such characters matches none of them.
\<close>

definition lower_char :: "char \<Rightarrow> char" where
  "lower_char c = (let n = of_char c :: nat in if 65 \<le> n \<and> n \<le> 90 then char_of (n + 32) else c)"

definition to_lowercase :: "string \<Rightarrow> string" where
  "to_lowercase s = map lower_char s"

definition dex_from_str :: "string \<Rightarrow> parse_dex_type_error + dex_type" where
  "dex_from_str s =
     (let l = to_lowercase s in
      if l \<in> {''raydium'', ''raydium_amm'', ''raydium_amm_v4''} then Inr DRaydiumAmmV4
      else if l = ''raydium_cpmm'' then Inr DRaydiumCpmm
      else if l \<in> {''orca'', ''orca_whirlpool''} then Inr DOrca
      else if l \<in> {''meteora_dlmm'', ''meteora''} then Inr DMeteoraDlmm
      else if l = ''meteora_cpmm'' then Inr DMeteoraCpmm
      else if l \<in> {''pump_amm'', ''pumpswap'', ''pump_swap_amm''} then Inr DPumpSwapAmm
      else Inl (ParseDexTypeError s))"

fun dex_as_str :: "dex_type \<Rightarrow> string" where
  "dex_as_str DRaydiumAmmV4 = ''raydium''"
| "dex_as_str DRaydiumCpmm = ''raydium_cpmm''"
| "dex_as_str DOrca = ''orca''"
| "dex_as_str DMeteoraDlmm = ''meteora_dlmm''"
| "dex_as_str DMeteoraCpmm = ''meteora_cpmm''"
| "dex_as_str DPumpSwapAmm = ''pump_amm''"

lemma dex_str_roundtrip: "dex_from_str (dex_as_str d) = Inr d"
  by (cases d) (simp_all add: dex_from_str_def to_lowercase_def lower_char_def Let_def)

section \<open>Pools\<close>

record 'f pool_edge =
  pe_pool_address :: pubkey
  pe_dex :: dex_type
  pe_mint_a :: pubkey
  pe_mint_b :: pubkey
  pe_liquidity_usd :: 'f
  pe_fee_bps :: u16
  pe_updated_at :: u64

definition pool_edge_new :: "u64 \<Rightarrow> pubkey \<Rightarrow> dex_type \<Rightarrow> pubkey \<Rightarrow> pubkey \<Rightarrow> 'f \<Rightarrow> u16 \<Rightarrow> 'f pool_edge" where
  \<comment> \<open>\<open>PoolEdge::new\<close>; the first argument is the wall clock in milliseconds\<close>
  "pool_edge_new now_ms pool_address dex mint_a mint_b liquidity_usd fee_bps =
     (let (mint_a, mint_b) = (if mint_a < mint_b then (mint_a, mint_b) else (mint_b, mint_a))
      in \<lparr> pe_pool_address = pool_address, pe_dex = dex, pe_mint_a = mint_a, pe_mint_b = mint_b,
           pe_liquidity_usd = liquidity_usd, pe_fee_bps = fee_bps, pe_updated_at = now_ms \<rparr>)"

definition other_mint :: "'f pool_edge \<Rightarrow> pubkey \<Rightarrow> pubkey option" where
  "other_mint e mint =
     (if mint = pe_mint_a e then Some (pe_mint_b e)
      else if mint = pe_mint_b e then Some (pe_mint_a e) else None)"

record 'f ranked_pool =
  rp_edge :: "'f pool_edge"
  rp_edge_ratio :: 'f
  rp_liquidity_score :: 'f

definition max_cycle_profit_multiplier :: "'f f64_ops \<Rightarrow> 'f" where
  "max_cycle_profit_multiplier F = f_lit F 10 0"

definition min_edge_ratio :: "'f f64_ops \<Rightarrow> 'f" where
  "min_edge_ratio F = f_lit F 1 2"

definition max_edge_ratio :: "'f f64_ops \<Rightarrow> 'f" where
  "max_edge_ratio F = f_lit F 105 2"

definition min_return_bps :: i32 where
  "min_return_bps = - 10000"

definition max_return_bps :: i32 where
  "max_return_bps = 50000"

definition clamp_edge_ratio :: "'f f64_ops \<Rightarrow> 'f \<Rightarrow> 'f" where
  "clamp_edge_ratio F r = f_within F r (min_edge_ratio F) (max_edge_ratio F)"

definition combined_score :: "'f f64_ops \<Rightarrow> 'f ranked_pool \<Rightarrow> 'f" where
  "combined_score F p = f_mul F (clamp_edge_ratio F (rp_edge_ratio p)) (rp_liquidity_score p)"

definition profit_to_return_bps :: "'f f64_ops \<Rightarrow> 'f \<Rightarrow> i32 \<times> bool" where
  "profit_to_return_bps F profit =
     (let raw = f_mul F (f_sub F profit (f_lit F 1 0)) (f_lit F 10000 0) in
      if \<not> f_finite F raw then (max_return_bps, True)
      else let lo = f_of_i32 F min_return_bps; hi = f_of_i32 F max_return_bps in
        (f_to_i32 F (f_within F (f_round F raw) lo hi), f_lt F raw lo \<or> f_lt F hi raw))"

section \<open>Cycles and search nodes\<close>

record 'f arb_cycle =
  ac_path :: "pubkey list"
  ac_pools :: "'f pool_edge list list"
  ac_estimated_return_bps :: i32
  ac_min_liquidity_usd :: 'f
  ac_profit_multiplier_capped :: bool
  ac_return_bps_saturated :: bool
  ac_edge_ratio_clamped :: bool

definition is_trustworthy_profit_estimate :: "'f arb_cycle \<Rightarrow> bool" where
  "is_trustworthy_profit_estimate c \<longleftrightarrow>
     \<not> ac_return_bps_saturated c \<and> \<not> ac_profit_multiplier_capped c \<and> \<not> ac_edge_ratio_clamped c"

definition hop_count :: "'f arb_cycle \<Rightarrow> nat" where
  "hop_count c = length (ac_pools c)"

definition first_of :: "'a list \<Rightarrow> 'a option" where
  \<comment> \<open>\<open>slice::first\<close>\<close>
  "first_of xs = (case xs of [] \<Rightarrow> None | x # _ \<Rightarrow> Some x)"

definition last_of :: "'a list \<Rightarrow> 'a option" where
  "last_of xs = (if xs = [] then None else Some (last xs))"

definition primary_pools :: "'f arb_cycle \<Rightarrow> 'f pool_edge list" where
  "primary_pools c = List.map_filter first_of (ac_pools c)"

definition cycle_is_valid :: "'f arb_cycle \<Rightarrow> bool" where
  "cycle_is_valid c \<longleftrightarrow>
     length (ac_path c) \<ge> 3 \<and> first_of (ac_path c) = last_of (ac_path c)
     \<and> length (ac_pools c) = length (ac_path c) - 1"

record 'f search_node =
  sn_token :: pubkey
  sn_path :: "pubkey list"
  sn_pools :: "'f pool_edge list list"
  sn_profit :: 'f
  sn_score :: 'f
  sn_depth :: nat
  sn_min_liquidity :: 'f
  sn_visited :: "pubkey list" \<comment> \<open>a \<open>HashSet\<close>\<close>
  sn_profit_multiplier_capped :: bool
  sn_edge_ratio_clamped :: bool

definition search_start :: "'f f64_ops \<Rightarrow> pubkey \<Rightarrow> 'f search_node" where
  "search_start F base_mint =
     \<lparr> sn_token = base_mint, sn_path = [base_mint], sn_pools = [], sn_profit = f_lit F 1 0,
       sn_score = f_lit F 1 0, sn_depth = 0, sn_min_liquidity = f_MAX F, sn_visited = [base_mint],
       sn_profit_multiplier_capped = False, sn_edge_ratio_clamped = False \<rparr>"

definition expand ::
    "'f f64_ops \<Rightarrow> 'f search_node \<Rightarrow> pubkey \<Rightarrow> 'f pool_edge list \<Rightarrow> 'f \<Rightarrow> 'f \<Rightarrow> 'f \<Rightarrow> 'f search_node" where
  "expand F n next_token pool_alternatives edge_ratio liquidity_score liquidity_usd =
     (let clamped_ratio = clamp_edge_ratio F edge_ratio;
          edge_clamped = f_lt F (f_EPSILON F) (f_abs F (f_sub F clamped_ratio edge_ratio));
          uncapped_profit = f_mul F (sn_profit n) clamped_ratio;
          profit_hit_cap = f_lt F (max_cycle_profit_multiplier F) uncapped_profit;
          new_profit = f_minimum F uncapped_profit (max_cycle_profit_multiplier F)
      in \<lparr> sn_token = next_token, sn_path = sn_path n @ [next_token], sn_pools = sn_pools n @ [pool_alternatives],
           sn_profit = new_profit, sn_score = f_mul F new_profit liquidity_score, sn_depth = sn_depth n + 1,
           sn_min_liquidity = f_minimum F (sn_min_liquidity n) liquidity_usd,
           sn_visited = List.insert next_token (sn_visited n),
           sn_profit_multiplier_capped = (sn_profit_multiplier_capped n \<or> profit_hit_cap),
           sn_edge_ratio_clamped = (sn_edge_ratio_clamped n \<or> edge_clamped) \<rparr>)"

definition has_visited :: "'f search_node \<Rightarrow> pubkey \<Rightarrow> bool" where
  "has_visited n token \<longleftrightarrow> token \<in> set (sn_visited n)"

definition to_arb_cycle :: "'f f64_ops \<Rightarrow> 'f search_node \<Rightarrow> 'f arb_cycle option" where
  "to_arb_cycle F n =
     (if length (sn_path n) < 3 \<or> first_of (sn_path n) \<noteq> last_of (sn_path n) then None
      else let (return_bps, return_saturated) = profit_to_return_bps F (sn_profit n) in
        Some \<lparr> ac_path = sn_path n, ac_pools = sn_pools n, ac_estimated_return_bps = return_bps,
               ac_min_liquidity_usd = sn_min_liquidity n,
               ac_profit_multiplier_capped = sn_profit_multiplier_capped n,
               ac_return_bps_saturated = (return_saturated \<or> sn_profit_multiplier_capped n),
               ac_edge_ratio_clamped = sn_edge_ratio_clamped n \<rparr>)"

definition node_cmp :: "'f f64_ops \<Rightarrow> 'f search_node \<Rightarrow> 'f search_node \<Rightarrow> ordering" where
  \<comment> \<open>\<open>Ord for SearchNode\<close>\<close>
  "node_cmp F a b = f_cmp F (sn_score a) (sn_score b)"

definition node_le :: "'f f64_ops \<Rightarrow> 'f search_node \<Rightarrow> 'f search_node \<Rightarrow> bool" where
  \<comment> \<open>the \<open><=\<close> that \<open>PartialOrd\<close> derives from it\<close>
  "node_le F a b \<longleftrightarrow> node_cmp F a b \<noteq> Greater"

lemma expand_fields [simp]:
  "sn_token (expand F n t ps r s l) = t"
  "sn_path (expand F n t ps r s l) = sn_path n @ [t]"
  "sn_pools (expand F n t ps r s l) = sn_pools n @ [ps]"
  "sn_depth (expand F n t ps r s l) = Suc (sn_depth n)"
  "set (sn_visited (expand F n t ps r s l)) = insert t (set (sn_visited n))"
  by (simp_all add: expand_def Let_def)

lemma search_start_fields [simp]:
  "sn_token (search_start F b) = b" "sn_path (search_start F b) = [b]" "sn_pools (search_start F b) = []"
  "sn_depth (search_start F b) = 0" "sn_visited (search_start F b) = [b]"
  by (simp_all add: search_start_def)

lemma first_of_simps [simp]: "first_of [] = None" "first_of (x # xs) = Some x"
  by (simp_all add: first_of_def)

lemma first_of_hd: "xs \<noteq> [] \<Longrightarrow> first_of xs = Some (hd xs)"
  by (cases xs) simp_all

lemma last_of_simps [simp]: "last_of [] = None" "last_of (xs @ [x]) = Some x"
  by (simp_all add: last_of_def)

lemma other_mint_new:
  "other_mint (pool_edge_new now p d a b l f) a = Some b"
  "other_mint (pool_edge_new now p d a b l f) b = Some a"
  by (auto simp: other_mint_def pool_edge_new_def Let_def)

end
