(* ===== verification/Pool_Graph.thy ===== *)
theory Pool_Graph
  imports Arb_Types
begin

text \<open>
  The pool graph of the arbitrage search (\<open>arbitrage/pool_graph.rs\<close>): for each pair of mints the list of
  at most three pools between them, kept in both directions, with an index from pool to mints and
  statistics. \<open>graph_inv\<close> is the invariant; \<open>graph_step\<close> is one call. \<open>clear\<close> takes its three locks one
  after the other, so its parts are definitions of their own.
\<close>

section \<open>State and operations\<close>

type_synonym 'f adjacency = "(pubkey, (pubkey, 'f pool_edge list) hashmap) hashmap"

record graph_stats =
  gs_total_vertices :: nat
  gs_total_edges :: nat
  gs_total_pools :: nat
  gs_last_update_ts :: u64

record 'f pool_graph =
  pg_adj :: "'f adjacency"
  pg_pool_index :: "(pubkey, pubkey \<times> pubkey) hashmap"
  pg_stats :: graph_stats

definition max_pools_per_pair :: nat where
  "max_pools_per_pair = 3"

definition graph_stats_default :: graph_stats where
  "graph_stats_default = \<lparr> gs_total_vertices = 0, gs_total_edges = 0, gs_total_pools = 0, gs_last_update_ts = 0 \<rparr>"

definition pool_graph_new :: "'f pool_graph" where
  "pool_graph_new = \<lparr> pg_adj = [], pg_pool_index = [], pg_stats = graph_stats_default \<rparr>"

definition by_liquidity :: "'f f64_ops \<Rightarrow> 'f pool_edge \<Rightarrow> 'f pool_edge \<Rightarrow> ordering" where
  \<comment> \<open>\<open>b.liquidity_usd.partial_cmp(&a.liquidity_usd).unwrap_or(Equal)\<close>\<close>
  "by_liquidity F a b = f_cmp F (pe_liquidity_usd b) (pe_liquidity_usd a)"

fun replace_pool :: "'f pool_edge \<Rightarrow> 'f pool_edge list \<Rightarrow> 'f pool_edge list option" where
  \<comment> \<open>\<open>position\<close> of the first pool with this address, and \<open>pools[idx] = edge\<close>\<close>
  "replace_pool e [] = None"
| "replace_pool e (p # ps) =
     (if pe_pool_address p = pe_pool_address e then Some (e # ps) else map_option ((#) p) (replace_pool e ps))"

definition add_pool :: "'f f64_ops \<Rightarrow> 'f pool_edge \<Rightarrow> 'f pool_edge list \<Rightarrow> 'f pool_edge list" where
  "add_pool F e pools =
     (case replace_pool e pools of
        Some pools' \<Rightarrow> pools'
      | None \<Rightarrow>
          let pools = pools @ [e] in
          if length pools > max_pools_per_pair then take max_pools_per_pair (sort_by (by_liquidity F) pools)
          else pools)"

definition add_edge_to_adj ::
    "'f f64_ops \<Rightarrow> pubkey \<Rightarrow> pubkey \<Rightarrow> 'f pool_edge \<Rightarrow> 'f adjacency \<Rightarrow> 'f adjacency" where
  "add_edge_to_adj F from to edge adj =
     (let neighbors = hm_get_or [] adj from; pools = hm_get_or [] neighbors to
      in hm_put from (hm_put to (add_pool F edge pools) neighbors) adj)"

definition remove_direction :: "pubkey \<Rightarrow> pubkey \<Rightarrow> pubkey \<Rightarrow> 'f adjacency \<Rightarrow> 'f adjacency" where
  "remove_direction pool_address from to adj =
     (case hm_get adj from of
        None \<Rightarrow> adj
      | Some neighbors \<Rightarrow>
          let neighbors =
            (case hm_get neighbors to of
               None \<Rightarrow> neighbors
             | Some pools \<Rightarrow>
                 let pools = filter (\<lambda>p. pe_pool_address p \<noteq> pool_address) pools in
                 if pools = [] then hm_del to neighbors else hm_put to pools neighbors)
          in if neighbors = [] then hm_del from adj else hm_put from neighbors adj)"

definition remove_pool_from_adj :: "pubkey \<Rightarrow> pubkey \<Rightarrow> pubkey \<Rightarrow> 'f adjacency \<Rightarrow> 'f adjacency" where
  "remove_pool_from_adj pool_address mint_a mint_b adj =
     remove_direction pool_address mint_b mint_a (remove_direction pool_address mint_a mint_b adj)"

definition refresh_stats_locked :: "u64 \<Rightarrow> 'f adjacency \<Rightarrow> graph_stats" where
  "refresh_stats_locked now_ms adj =
     (let edge_count = sum_list (map (\<lambda>(_, neighbors). length neighbors) adj);
          pool_count = sum_list (map (\<lambda>(_, neighbors). sum_list (map (\<lambda>(_, pools). length pools) neighbors)) adj)
      in \<lparr> gs_total_vertices = length adj, gs_total_edges = edge_count div 2, gs_total_pools = pool_count div 2,
           gs_last_update_ts = now_ms \<rparr>)"

type_synonym 'f graph_maps = "'f adjacency \<times> (pubkey, pubkey \<times> pubkey) hashmap"

definition upsert_edge :: "'f f64_ops \<Rightarrow> 'f pool_edge \<Rightarrow> 'f graph_maps \<Rightarrow> 'f graph_maps" where
  \<comment> \<open>the common part of \<open>upsert_pool\<close> and of one turn of \<open>bulk_upsert\<close>\<close>
  "upsert_edge F edge = (\<lambda>(adj, pool_index).
     let adj = (case hm_get pool_index (pe_pool_address edge) of
                  None \<Rightarrow> adj
                | Some (old_mint_a, old_mint_b) \<Rightarrow>
                    if old_mint_a \<noteq> pe_mint_a edge \<or> old_mint_b \<noteq> pe_mint_b edge
                    then remove_pool_from_adj (pe_pool_address edge) old_mint_a old_mint_b adj else adj);
         adj = add_edge_to_adj F (pe_mint_a edge) (pe_mint_b edge) edge adj;
         adj = add_edge_to_adj F (pe_mint_b edge) (pe_mint_a edge) edge adj
     in (adj, hm_put (pe_pool_address edge) (pe_mint_a edge, pe_mint_b edge) pool_index))"

definition graph_upsert_pool :: "'f f64_ops \<Rightarrow> u64 \<Rightarrow> 'f pool_edge \<Rightarrow> 'f pool_graph \<Rightarrow> 'f pool_graph" where
  "graph_upsert_pool F now_ms edge g =
     (case upsert_edge F edge (pg_adj g, pg_pool_index g) of
        (adj, pool_index) \<Rightarrow>
          \<lparr> pg_adj = adj, pg_pool_index = pool_index, pg_stats = refresh_stats_locked now_ms adj \<rparr>)"

definition bulk_upsert :: "'f f64_ops \<Rightarrow> u64 \<Rightarrow> 'f pool_edge list \<Rightarrow> 'f pool_graph \<Rightarrow> 'f pool_graph" where
  "bulk_upsert F now_ms edges g =
     (case fold (upsert_edge F) edges (pg_adj g, pg_pool_index g) of
        (adj, pool_index) \<Rightarrow>
          \<lparr> pg_adj = adj, pg_pool_index = pool_index, pg_stats = refresh_stats_locked now_ms adj \<rparr>)"

definition graph_remove_pool :: "u64 \<Rightarrow> pubkey \<Rightarrow> 'f pool_graph \<Rightarrow> 'f pool_graph" where
  "graph_remove_pool now_ms pool_address g =
     (case hm_get (pg_pool_index g) pool_address of
        None \<Rightarrow> g
      | Some (mint_a, mint_b) \<Rightarrow>
          let adj = remove_pool_from_adj pool_address mint_a mint_b (pg_adj g) in
          \<lparr> pg_adj = adj, pg_pool_index = hm_del pool_address (pg_pool_index g),
            pg_stats = refresh_stats_locked now_ms adj \<rparr>)"

definition clear_adj :: "'f pool_graph \<Rightarrow> 'f pool_graph" where
  "clear_adj g = g\<lparr> pg_adj := [] \<rparr>"

definition clear_pool_index :: "'f pool_graph \<Rightarrow> 'f pool_graph" where
  "clear_pool_index g = g\<lparr> pg_pool_index := [] \<rparr>"

definition clear_stats :: "'f pool_graph \<Rightarrow> 'f pool_graph" where
  "clear_stats g = g\<lparr> pg_stats := graph_stats_default \<rparr>"

definition graph_clear :: "'f pool_graph \<Rightarrow> 'f pool_graph" where
  "graph_clear g = clear_stats (clear_pool_index (clear_adj g))"

definition graph_neighbors :: "'f f64_ops \<Rightarrow> 'f pool_graph \<Rightarrow> pubkey \<Rightarrow> (pubkey \<times> 'f pool_edge list) list" where
  "graph_neighbors F g mint =
     (case hm_get (pg_adj g) mint of
        None \<Rightarrow> []
      | Some neighbors \<Rightarrow> map (\<lambda>(neighbor, pools). (neighbor, sort_by (by_liquidity F) pools)) neighbors)"

definition pools_between :: "'f pool_graph \<Rightarrow> pubkey \<Rightarrow> pubkey \<Rightarrow> 'f pool_edge list" where
  "pools_between g mint_a mint_b =
     (case hm_get (pg_adj g) mint_a of
        None \<Rightarrow> []
      | Some neighbors \<Rightarrow> hm_get_or [] neighbors mint_b)"

definition has_token :: "'f pool_graph \<Rightarrow> pubkey \<Rightarrow> bool" where
  "has_token g mint \<longleftrightarrow> hm_get (pg_adj g) mint \<noteq> None"

definition all_tokens :: "'f pool_graph \<Rightarrow> pubkey list" where
  "all_tokens g = map fst (pg_adj g)"

definition degree :: "'f pool_graph \<Rightarrow> pubkey \<Rightarrow> nat" where
  "degree g mint = (case hm_get (pg_adj g) mint of None \<Rightarrow> 0 | Some n \<Rightarrow> length n)"

section \<open>The list of a pair\<close>

lemma replace_pool_None: "replace_pool e ps = None \<longleftrightarrow> pe_pool_address e \<notin> pe_pool_address ` set ps"
  by (induction ps) auto

lemma replace_pool_Some:
  "replace_pool e ps = Some ps' \<Longrightarrow> map pe_pool_address ps' = map pe_pool_address ps
     \<and> set ps' \<subseteq> insert e (set ps) \<and> e \<in> set ps'"
  by (induction ps arbitrary: ps') (auto split: if_splits)

lemma replace_pool_drops:
  "replace_pool e ps = Some ps' \<Longrightarrow> distinct (map pe_pool_address ps) \<Longrightarrow> p \<in> set ps'
     \<Longrightarrow> p = e \<or> p \<in> set ps \<and> pe_pool_address p \<noteq> pe_pool_address e"
  by (induction ps arbitrary: ps') (fastforce simp: image_iff split: if_splits)+

definition pair_list_ok :: "'f pool_edge list \<Rightarrow> bool" where
  "pair_list_ok ps \<longleftrightarrow> length ps \<le> max_pools_per_pair \<and> distinct (map pe_pool_address ps)"

lemma distinct_sort_by [simp]: "distinct (map f (sort_by cmp xs)) = distinct (map f xs)"
  by (metis mset_eq_imp_distinct_iff mset_map mset_sort_by)

lemma add_pool_new:
  "replace_pool e ps = None \<Longrightarrow> add_pool F e ps =
     (if length ps < 3 then ps @ [e] else take 3 (sort_by (by_liquidity F) (ps @ [e])))"
  by (simp add: add_pool_def Let_def max_pools_per_pair_def)

lemma add_pool_ok: "pair_list_ok ps \<Longrightarrow> pair_list_ok (add_pool F e ps)"
proof (cases "replace_pool e ps")
  case None
  assume ok: "pair_list_ok ps"
  with None have "distinct (map pe_pool_address (ps @ [e]))"
    by (auto simp: pair_list_ok_def replace_pool_None)
  then have "distinct (map pe_pool_address (sort_by (by_liquidity F) (ps @ [e])))" by simp
  then have "distinct (map pe_pool_address (take 3 (sort_by (by_liquidity F) (ps @ [e]))))"
    by (simp only: take_map [symmetric] distinct_take)
  moreover have "pe_pool_address e \<notin> pe_pool_address ` set ps" using None by (simp add: replace_pool_None)
  ultimately show ?thesis
    using ok by (simp add: pair_list_ok_def add_pool_new [OF None] max_pools_per_pair_def)
next
  case (Some ps')
  assume "pair_list_ok ps"
  moreover have "length ps' = length ps" using replace_pool_Some [OF Some] by (metis length_map)
  ultimately show ?thesis
    using replace_pool_Some [OF Some] Some by (simp add: pair_list_ok_def add_pool_def)
qed

lemma set_add_pool:
  assumes "pair_list_ok ps" "p \<in> set (add_pool F e ps)"
  shows "p = e \<or> p \<in> set ps \<and> pe_pool_address p \<noteq> pe_pool_address e"
proof (cases "replace_pool e ps")
  case None
  have "set (take 3 (sort_by (by_liquidity F) (ps @ [e]))) \<subseteq> set (ps @ [e])"
    using set_take_subset by (metis set_sort_by)
  moreover have "pe_pool_address e \<notin> pe_pool_address ` set ps" using None by (simp add: replace_pool_None)
  ultimately show ?thesis
    using assms(2) by (fastforce simp: add_pool_new [OF None] image_iff split: if_splits)
next
  case (Some ps')
  with assms show ?thesis
    using replace_pool_drops by (fastforce simp: add_pool_def pair_list_ok_def)
qed

lemma add_pool_nonempty [simp]: "add_pool F e ps \<noteq> []"
  by (cases "replace_pool e ps")
    (auto simp: add_pool_def Let_def max_pools_per_pair_def dest: replace_pool_Some)

text \<open>
  A pool that is in the list is replaced in place; a new one is appended while there is room; otherwise
  the least liquid of the four is left out, and the list is in descending order.
\<close>

lemma by_liquidity_weak_order:
  assumes "f_comparable F (pe_liquidity_usd ` A)"
  shows "weak_order_on (by_liquidity F) A"
  unfolding weak_order_on_def by_liquidity_def f_cmp_Less
proof (intro conjI ballI impI)
  fix a b assume "a \<in> A" "b \<in> A" "f_lt F (pe_liquidity_usd b) (pe_liquidity_usd a)"
  with assms show "\<not> f_lt F (pe_liquidity_usd a) (pe_liquidity_usd b)"
    by (simp add: f_comparable_def)
next
  fix a b c assume "a \<in> A" "b \<in> A" "c \<in> A" "f_lt F (pe_liquidity_usd b) (pe_liquidity_usd a)"
  with assms show "f_lt F (pe_liquidity_usd c) (pe_liquidity_usd a) \<or> f_lt F (pe_liquidity_usd b) (pe_liquidity_usd c)"
    unfolding f_comparable_def by blast
qed

lemma add_pool_outcome:
  assumes "pair_list_ok ps"
  shows "if pe_pool_address e \<in> pe_pool_address ` set ps
         then map pe_pool_address (add_pool F e ps) = map pe_pool_address ps \<and> e \<in> set (add_pool F e ps)
         else if length ps < 3 then add_pool F e ps = ps @ [e]
         else length (add_pool F e ps) = 3 \<and> set (add_pool F e ps) \<subseteq> insert e (set ps)
           \<and> (f_comparable F (pe_liquidity_usd ` insert e (set ps)) \<longrightarrow>
                (\<forall>p \<in> set (add_pool F e ps). \<forall>q \<in> insert e (set ps) - set (add_pool F e ps).
                   \<not> f_lt F (pe_liquidity_usd p) (pe_liquidity_usd q)))"
proof (cases "replace_pool e ps")
  case (Some ps')
  then have "pe_pool_address e \<in> pe_pool_address ` set ps" by (metis option.distinct(1) replace_pool_None)
  with Some replace_pool_Some [OF Some] show ?thesis by (simp add: add_pool_def)
next
  case None
  then have new: "pe_pool_address e \<notin> pe_pool_address ` set ps" by (simp add: replace_pool_None)
  show ?thesis
  proof (cases "length ps < 3")
    case True
    with None new show ?thesis by (simp add: add_pool_def max_pools_per_pair_def)
  next
    case False
    let ?s = "sort_by (by_liquidity F) (ps @ [e])"
    have "length ps = 3" using False assms by (simp add: pair_list_ok_def max_pools_per_pair_def)
    then have add: "add_pool F e ps = take 3 ?s"
      using None by (simp add: add_pool_def max_pools_per_pair_def)
    have set_s: "set ?s = insert e (set ps)" by simp
    have split: "set ?s = set (take 3 ?s) \<union> set (drop 3 ?s)" by (metis append_take_drop_id set_append)
    have "\<not> f_lt F (pe_liquidity_usd p) (pe_liquidity_usd q)"
      if cmp: "f_comparable F (pe_liquidity_usd ` insert e (set ps))"
        and p: "p \<in> set (take 3 ?s)" and q: "q \<in> insert e (set ps) - set (take 3 ?s)" for p q
    proof -
      have "weak_order_on (by_liquidity F) (set (ps @ [e]))"
        by (rule by_liquidity_weak_order) (use cmp in simp)
      then have "sorted_wrt (\<lambda>a b. by_liquidity F b a \<noteq> Less) (take 3 ?s @ drop 3 ?s)"
        by (simp only: append_take_drop_id sort_by_sorted)
      moreover have "q \<in> set (drop 3 ?s)" using q split set_s by blast
      ultimately have "by_liquidity F q p \<noteq> Less"
        using p unfolding sorted_wrt_append by blast
      then show ?thesis by (simp add: by_liquidity_def)
    qed
    moreover have "set (take 3 ?s) \<subseteq> insert e (set ps)" using split set_s by blast
    ultimately show ?thesis
      using False new \<open>length ps = 3\<close> by (simp add: add)
  qed
qed

end
