(* ===== verification/Graph_Properties.thy ===== *)
theory Graph_Properties
  imports Pool_Graph
begin

text \<open>
  Correctness of the pool graph. The abstract view of a graph is the function that gives the list of pools
  between two mints. Every operation is an update of this view, and the invariant \<open>maps_inv\<close> says that
  the view is symmetric, that lists are short and free of duplicates, that a stored pool joins
  the two mints it is filed under, and that the index knows it.
\<close>

section \<open>The abstract view\<close>

definition adj_pools :: "'f adjacency \<Rightarrow> pubkey \<Rightarrow> pubkey \<Rightarrow> 'f pool_edge list" where
  "adj_pools adj a b = (case hm_get adj a of None \<Rightarrow> [] | Some n \<Rightarrow> hm_get_or [] n b)"

lemma pools_between_adj: "pools_between g a b = adj_pools (pg_adj g) a b"
  by (simp add: pools_between_def adj_pools_def)

definition neighbors_ok :: "(pubkey, 'f pool_edge list) hashmap \<Rightarrow> bool" where
  "neighbors_ok n \<longleftrightarrow> hm_wf n \<and> (\<forall>b ps. hm_get n b = Some ps \<longrightarrow> ps \<noteq> [] \<and> pair_list_ok ps)"

definition adj_ok :: "'f adjacency \<Rightarrow> bool" where
  "adj_ok adj \<longleftrightarrow> hm_wf adj \<and> (\<forall>a n. hm_get adj a = Some n \<longrightarrow> n \<noteq> [] \<and> neighbors_ok n)"

lemma pair_list_ok_Nil [simp]: "pair_list_ok []"
  by (simp add: pair_list_ok_def)

lemma pair_list_ok_filter: "pair_list_ok ps \<Longrightarrow> pair_list_ok (filter P ps)"
  using le_trans [OF length_filter_le [of P ps]] by (auto simp: pair_list_ok_def distinct_map_filter)

lemma neighbors_ok_Nil [simp]: "neighbors_ok []"
  by (simp add: neighbors_ok_def)

lemma neighbors_ok_put:
  "neighbors_ok n \<Longrightarrow> ps \<noteq> [] \<Longrightarrow> pair_list_ok ps \<Longrightarrow> neighbors_ok (hm_put b ps n)"
  by (auto simp: neighbors_ok_def hm.invar_put update_conv' split: if_splits)

lemma neighbors_ok_del: "neighbors_ok n \<Longrightarrow> neighbors_ok (hm_del b n)"
  by (auto simp: neighbors_ok_def hm.invar_del delete_conv' split: if_splits)

lemma adj_ok_put: "adj_ok adj \<Longrightarrow> n \<noteq> [] \<Longrightarrow> neighbors_ok n \<Longrightarrow> adj_ok (hm_put a n adj)"
  by (auto simp: adj_ok_def hm.invar_put update_conv' split: if_splits)

lemma adj_ok_del: "adj_ok adj \<Longrightarrow> adj_ok (hm_del a adj)"
  by (auto simp: adj_ok_def hm.invar_del delete_conv' split: if_splits)

lemma neighbors_of_ok: "adj_ok adj \<Longrightarrow> neighbors_ok (hm_get_or [] adj a)"
  by (cases "hm_get adj a") (simp_all add: adj_ok_def)

lemma adj_pools_alt: "adj_pools adj a b = hm_get_or [] (hm_get_or [] adj a) b"
  by (cases "hm_get adj a") (simp_all add: adj_pools_def)

lemma adj_pools_pair_ok: "adj_ok adj \<Longrightarrow> pair_list_ok (adj_pools adj a b)"
  using neighbors_of_ok [of adj a]
  by (cases "hm_get (hm_get_or [] adj a) b") (auto simp: adj_pools_alt neighbors_ok_def)

lemma hm_put_not_Nil [simp]: "hm_put k v m \<noteq> []"
  by (cases m) auto

lemma adj_ok_add: "adj_ok adj \<Longrightarrow> adj_ok (add_edge_to_adj F a b e adj)"
proof -
  assume ok: "adj_ok adj"
  then have "pair_list_ok (hm_get_or [] (hm_get_or [] adj a) b)"
    using adj_pools_pair_ok [of adj a b] by (simp add: adj_pools_alt)
  with ok show ?thesis
    unfolding add_edge_to_adj_def Let_def
    by (intro adj_ok_put neighbors_ok_put add_pool_ok neighbors_of_ok) simp_all
qed

lemma adj_pools_add:
  "adj_pools (add_edge_to_adj F a b e adj) x y =
     (if x = a \<and> y = b then add_pool F e (adj_pools adj a b) else adj_pools adj x y)"
  by (auto simp: adj_pools_alt add_edge_to_adj_def Let_def hm_get_or_put)

lemma adj_ok_remove: "adj_ok adj \<Longrightarrow> adj_ok (remove_direction p a b adj)"
proof (cases "hm_get adj a")
  case None
  assume "adj_ok adj"
  with None show ?thesis by (simp add: remove_direction_def)
next
  case (Some n)
  assume ok: "adj_ok adj"
  with Some have n: "neighbors_ok n" by (simp add: adj_ok_def)
  have "neighbors_ok (hm_del b n)" using n by (rule neighbors_ok_del)
  moreover have "neighbors_ok (hm_put b (filter Q ps) n)" if "hm_get n b = Some ps" "filter Q ps \<noteq> []" for ps Q
    using n that by (intro neighbors_ok_put pair_list_ok_filter) (auto simp: neighbors_ok_def)
  ultimately show ?thesis
    using ok n Some by (auto simp: remove_direction_def Let_def intro: adj_ok_put adj_ok_del split: option.splits)
qed

lemma adj_pools_remove:
  assumes "adj_ok adj"
  shows "adj_pools (remove_direction p a b adj) x y =
     (if x = a \<and> y = b then filter (\<lambda>q. pe_pool_address q \<noteq> p) (adj_pools adj a b) else adj_pools adj x y)"
proof (cases "hm_get adj a")
  case None
  then show ?thesis by (simp add: remove_direction_def adj_pools_def)
next
  case (Some n)
  define n' where "n' = (case hm_get n b of None \<Rightarrow> n | Some ps \<Rightarrow>
    let ps = filter (\<lambda>q. pe_pool_address q \<noteq> p) ps in if ps = [] then hm_del b n else hm_put b ps n)"
  have n': "hm_get_or [] n' y = (if y = b then filter (\<lambda>q. pe_pool_address q \<noteq> p) (hm_get_or [] n b) else hm_get_or [] n y)" for y
    by (cases "hm_get n b") (simp_all add: n'_def Let_def hm_get_or_put hm_get_or_del)
  have "remove_direction p a b adj = (if n' = [] then hm_del a adj else hm_put a n' adj)"
    using Some by (simp add: remove_direction_def n'_def Let_def)
  then have "hm_get_or [] (remove_direction p a b adj) x = (if x = a then n' else hm_get_or [] adj x)"
    by (simp add: hm_get_or_put hm_get_or_del)
  with n' Some show ?thesis by (simp add: adj_pools_alt)
qed

lemma has_pools_iff:
  assumes "adj_ok adj"
  shows "hm_get adj a \<noteq> None \<longleftrightarrow> (\<exists>b. adj_pools adj a b \<noteq> [])"
proof
  assume "hm_get adj a \<noteq> None"
  then obtain n where n: "hm_get adj a = Some n" by auto
  with assms have "n \<noteq> []" "neighbors_ok n" by (auto simp: adj_ok_def)
  then obtain b ps m where "n = (b, ps) # m" by (cases n) auto
  then have "hm_get n b = Some ps" by simp
  with \<open>neighbors_ok n\<close> n show "\<exists>b. adj_pools adj a b \<noteq> []"
    by (intro exI [of _ b]) (simp add: adj_pools_def neighbors_ok_def)
qed (auto simp: adj_pools_def split: option.splits)

section \<open>The invariant\<close>

definition filed_right :: "'f graph_maps \<Rightarrow> pubkey \<Rightarrow> pubkey \<Rightarrow> 'f pool_edge \<Rightarrow> bool" where
  "filed_right s a b e \<longleftrightarrow> (a = pe_mint_a e \<and> b = pe_mint_b e \<or> a = pe_mint_b e \<and> b = pe_mint_a e)
     \<and> hm_get (snd s) (pe_pool_address e) = Some (pe_mint_a e, pe_mint_b e)"

definition maps_inv :: "'f graph_maps \<Rightarrow> bool" where
  "maps_inv s \<longleftrightarrow> adj_ok (fst s) \<and> hm_wf (snd s)
     \<and> (\<forall>a b. adj_pools (fst s) a b = adj_pools (fst s) b a)
     \<and> (\<forall>a b. \<forall>e \<in> set (adj_pools (fst s) a b). filed_right s a b e)"

lemma maps_inv_Nil: "maps_inv ([], [])"
  by (simp add: maps_inv_def adj_ok_def adj_pools_def)

lemma maps_inv_filed: "maps_inv s \<Longrightarrow> e \<in> set (adj_pools (fst s) a b) \<Longrightarrow> filed_right s a b e"
  by (simp add: maps_inv_def)

lemma maps_inv_indexed:
  "maps_inv (adj, ix) \<Longrightarrow> q \<in> set (adj_pools adj x y) \<Longrightarrow> hm_get ix (pe_pool_address q) = Some (pe_mint_a q, pe_mint_b q)"
  using maps_inv_filed [of "(adj, ix)"] by (simp add: filed_right_def)

text \<open>Removing a pool that is filed under its indexed mints removes it everywhere.\<close>

lemma adj_pools_remove_pool:
  assumes "maps_inv (adj, ix)" "hm_get ix p = Some (a, b)"
  shows "adj_pools (remove_pool_from_adj p a b adj) x y = filter (\<lambda>q. pe_pool_address q \<noteq> p) (adj_pools adj x y)"
proof -
  have ok: "adj_ok adj" using assms(1) by (simp add: maps_inv_def)
  have "pe_pool_address q \<noteq> p" if "q \<in> set (adj_pools adj x y)" "\<not> (x = a \<and> y = b \<or> x = b \<and> y = a)" for q
    using maps_inv_filed [OF assms(1), of q x y] that assms(2) by (auto simp: filed_right_def)
  then have other: "filter (\<lambda>q. pe_pool_address q \<noteq> p) (adj_pools adj x y) = adj_pools adj x y"
    if "\<not> (x = a \<and> y = b \<or> x = b \<and> y = a)"
    using that by (simp add: filter_id_conv)
  have "adj_pools (remove_pool_from_adj p a b adj) x y =
      (if x = a \<and> y = b \<or> x = b \<and> y = a then filter (\<lambda>q. pe_pool_address q \<noteq> p) (adj_pools adj x y)
       else adj_pools adj x y)"
    unfolding remove_pool_from_adj_def adj_pools_remove [OF adj_ok_remove [OF ok]] adj_pools_remove [OF ok]
    by (auto simp only: filter_filter conj_absorb split: if_split)
  with other show ?thesis by (cases "x = a \<and> y = b \<or> x = b \<and> y = a") simp_all
qed

lemma maps_inv_remove:
  assumes "maps_inv (adj, ix)" "hm_get ix p = Some (a, b)"
  shows "maps_inv (remove_pool_from_adj p a b adj, hm_del p ix)"
proof -
  note pools = adj_pools_remove_pool [OF assms]
  have "adj_ok (remove_pool_from_adj p a b adj)"
    using assms(1) by (simp add: maps_inv_def remove_pool_from_adj_def adj_ok_remove)
  with assms(1) show ?thesis
    by (auto simp: maps_inv_def pools hm.invar_del filed_right_def delete_conv')
qed

text \<open>What an upsert does to the view: the pool is taken out everywhere else and added to its pair.\<close>

definition pair_of :: "'f pool_edge \<Rightarrow> pubkey \<Rightarrow> pubkey \<Rightarrow> bool" where
  "pair_of e x y \<longleftrightarrow> x = pe_mint_a e \<and> y = pe_mint_b e \<or> x = pe_mint_b e \<and> y = pe_mint_a e"

lemma pair_of_sym: "pair_of e x y = pair_of e y x"
  by (auto simp: pair_of_def)

definition add_pair :: "'f f64_ops \<Rightarrow> 'f pool_edge \<Rightarrow> 'f pool_edge list \<Rightarrow> 'f pool_edge list" where
  "add_pair F e ps = (if pe_mint_a e = pe_mint_b e then add_pool F e (add_pool F e ps) else add_pool F e ps)"

definition kept_elsewhere :: "'f graph_maps \<Rightarrow> 'f pool_edge \<Rightarrow> pubkey \<Rightarrow> pubkey \<Rightarrow> 'f pool_edge list" where
  "kept_elsewhere s e x y =
     (if hm_get (snd s) (pe_pool_address e) = Some (pe_mint_a e, pe_mint_b e) then adj_pools (fst s) x y
      else filter (\<lambda>q. pe_pool_address q \<noteq> pe_pool_address e) (adj_pools (fst s) x y))"

lemma upsert_edge_view:
  assumes "maps_inv s" "upsert_edge F e s = (adj', ix')"
  shows "adj_ok adj'" "ix' = hm_put (pe_pool_address e) (pe_mint_a e, pe_mint_b e) (snd s)"
    and "adj_pools adj' x y = (if pair_of e x y then add_pair F e (kept_elsewhere s e x y) else kept_elsewhere s e x y)"
proof -
  obtain adj ix where s: "s = (adj, ix)" by (cases s)
  let ?p = "pe_pool_address e" and ?a = "pe_mint_a e" and ?b = "pe_mint_b e"
  define adj1 where "adj1 = (case hm_get ix ?p of None \<Rightarrow> adj | Some (a, b) \<Rightarrow>
    if a \<noteq> ?a \<or> b \<noteq> ?b then remove_pool_from_adj ?p a b adj else adj)"
  have up: "adj' = add_edge_to_adj F ?b ?a e (add_edge_to_adj F ?a ?b e adj1)"
    "ix' = hm_put ?p (?a, ?b) ix"
    using assms(2) by (simp_all add: upsert_edge_def s adj1_def Let_def)
  have ok: "adj_ok adj" using assms(1) by (simp add: s maps_inv_def)
  have absent: "hm_get ix ?p = None \<Longrightarrow> q \<in> set (adj_pools adj x y) \<Longrightarrow> pe_pool_address q \<noteq> ?p" for x y q
    using maps_inv_indexed [OF assms(1) [unfolded s], of q] by force
  have adj1: "adj_ok adj1" "adj_pools adj1 x y = kept_elsewhere s e x y" for x y
    using ok adj_pools_remove_pool [OF assms(1) [unfolded s]] absent
    by (auto simp: adj1_def kept_elsewhere_def s remove_pool_from_adj_def adj_ok_remove filter_id_conv
        split: option.splits)
  show "adj_ok adj'" by (simp add: up(1) adj_ok_add adj1(1))
  show "ix' = hm_put ?p (?a, ?b) (snd s)" by (simp add: up(2) s)
  show "adj_pools adj' x y = (if pair_of e x y then add_pair F e (kept_elsewhere s e x y) else kept_elsewhere s e x y)"
    by (auto simp: up(1) adj_pools_add adj1(2) pair_of_def add_pair_def)
qed

lemma add_pair_props:
  assumes "pair_list_ok ps"
  shows "pair_list_ok (add_pair F e ps)"
    and "q \<in> set (add_pair F e ps) \<Longrightarrow> q = e \<or> q \<in> set ps \<and> pe_pool_address q \<noteq> pe_pool_address e"
proof -
  have ok: "pair_list_ok (add_pool F e ps)" using assms by (rule add_pool_ok)
  then show "pair_list_ok (add_pair F e ps)" by (simp add: add_pair_def assms add_pool_ok)
  assume "q \<in> set (add_pair F e ps)"
  then show "q = e \<or> q \<in> set ps \<and> pe_pool_address q \<noteq> pe_pool_address e"
    using set_add_pool [OF ok, of q F e] set_add_pool [OF assms, of q F e] by (auto simp: add_pair_def split: if_splits)
qed

lemma maps_inv_upsert:
  assumes "maps_inv s"
  shows "maps_inv (upsert_edge F e s)"
proof (cases "upsert_edge F e s")
  case (Pair adj' ix')
  note view = upsert_edge_view [OF assms Pair]
  let ?k = "kept_elsewhere s e"
  have k_ok: "pair_list_ok (?k x y)" and k_sym: "?k x y = ?k y x" for x y
    using assms by (auto simp: maps_inv_def kept_elsewhere_def adj_pools_pair_ok pair_list_ok_filter)
  have k_filed: "filed_right s x y q" if "q \<in> set (?k x y)" for x y q
    using assms that by (auto simp: maps_inv_def kept_elsewhere_def split: if_splits)
  have k_pair: "pair_of e x y" if "q \<in> set (?k x y)" "pe_pool_address q = pe_pool_address e" for x y q
    using k_filed [OF that(1)] that
    by (auto simp: kept_elsewhere_def filed_right_def pair_of_def split: if_splits)
  have "filed_right (adj', ix') x y q" if q: "q \<in> set (adj_pools adj' x y)" for x y q
  proof (cases "q = e \<and> pair_of e x y")
    case True
    then show ?thesis by (auto simp: filed_right_def view(2) update_conv' pair_of_def)
  next
    case False
    with q have "q \<in> set (?k x y) \<and> pe_pool_address q \<noteq> pe_pool_address e"
      using add_pair_props(2) [OF k_ok] k_pair by (fastforce simp: view(3) split: if_splits)
    with k_filed show ?thesis by (auto simp: filed_right_def view(2) update_conv')
  qed
  moreover have "adj_pools adj' x y = adj_pools adj' y x" for x y
    using k_sym pair_of_sym by (metis view(3))
  ultimately show ?thesis
    using assms view(1,2) by (auto simp: maps_inv_def Pair hm.invar_put)
qed

section \<open>Runs\<close>

datatype 'f graph_op = Upsert_Pool u64 "'f pool_edge" | Bulk_Upsert u64 "'f pool_edge list"
  | Remove_Pool u64 pubkey | Clear

fun graph_apply :: "'f f64_ops \<Rightarrow> 'f graph_op \<Rightarrow> 'f pool_graph \<Rightarrow> 'f pool_graph" where
  "graph_apply F (Upsert_Pool now_ms e) g = graph_upsert_pool F now_ms e g"
| "graph_apply F (Bulk_Upsert now_ms es) g = bulk_upsert F now_ms es g"
| "graph_apply F (Remove_Pool now_ms p) g = graph_remove_pool now_ms p g"
| "graph_apply F Clear g = graph_clear g"

definition graph_run :: "'f f64_ops \<Rightarrow> 'f graph_op list \<Rightarrow> 'f pool_graph" where
  "graph_run F ops = fold (graph_apply F) ops pool_graph_new"

definition graph_inv :: "'f pool_graph \<Rightarrow> bool" where
  "graph_inv g \<longleftrightarrow> maps_inv (pg_adj g, pg_pool_index g) \<and> (\<exists>ts. pg_stats g = refresh_stats_locked ts (pg_adj g))"

lemma graph_inv_empty: "graph_inv \<lparr> pg_adj = [], pg_pool_index = [], pg_stats = graph_stats_default \<rparr>"
  by (simp add: graph_inv_def maps_inv_Nil refresh_stats_locked_def graph_stats_default_def)

lemma maps_inv_fold: "maps_inv s \<Longrightarrow> maps_inv (fold (upsert_edge F) es s)"
  by (induction es arbitrary: s) (simp_all add: maps_inv_upsert)

lemma graph_inv_apply:
  assumes "graph_inv g"
  shows "graph_inv (graph_apply F x g)"
proof -
  have inv: "maps_inv (pg_adj g, pg_pool_index g)" using assms by (simp add: graph_inv_def)
  show ?thesis
  proof (cases x)
    case (Upsert_Pool now e)
    then show ?thesis
      using maps_inv_upsert [OF inv, of F e] by (auto simp: graph_upsert_pool_def graph_inv_def split: prod.splits)
  next
    case (Bulk_Upsert now es)
    then show ?thesis
      using maps_inv_fold [OF inv, of F es] by (auto simp: bulk_upsert_def graph_inv_def split: prod.splits)
  next
    case (Remove_Pool now p)
    then show ?thesis
      using maps_inv_remove [OF inv] assms
      by (auto simp: graph_remove_pool_def Let_def graph_inv_def split: option.splits)
  next
    case Clear
    then show ?thesis
      using graph_inv_empty by (simp add: graph_clear_def clear_adj_def clear_pool_index_def clear_stats_def graph_inv_def)
  qed
qed

lemma graph_inv_run: "graph_inv (graph_run F ops)"
proof -
  have "graph_inv g \<Longrightarrow> graph_inv (fold (graph_apply F) ops g)" for g
    by (induction ops arbitrary: g) (simp_all add: graph_inv_apply)
  then show ?thesis by (simp add: graph_run_def pool_graph_new_def graph_inv_empty)
qed

section \<open>Counting\<close>

lemma distinct_map_length: "hm_wf m \<Longrightarrow> length m = card (dom (hm_get m))"
  by (metis distinct_card dom_map_of_conv_image_fst hm_wf_def length_map set_map)

lemma adj_edge_count:
  assumes "adj_ok adj"
  shows "assoc_total length adj = card {(a, b). adj_pools adj a b \<noteq> []}"
    and "assoc_total (assoc_total length) adj = (\<Sum>(a, b) \<in> {(a, b). adj_pools adj a b \<noteq> []}. length (adj_pools adj a b))"
    and "finite {(a, b). adj_pools adj a b \<noteq> []}"
proof -
  let ?B = "\<lambda>a. {b. adj_pools adj a b \<noteq> []}"
  have wf: "hm_wf adj" using assms by (simp add: adj_ok_def)
  have n: "dom (hm_get (the (hm_get adj a))) = ?B a \<and> hm_wf (the (hm_get adj a))" if "a \<in> dom (hm_get adj)" for a
  proof -
    from that obtain n where n: "hm_get adj a = Some n" by auto
    with assms have "neighbors_ok n" by (auto simp: adj_ok_def)
    with n show ?thesis by (auto simp: adj_pools_def neighbors_ok_def hm_get_or_def split: option.splits)
  qed
  have Sig: "{(a, b). adj_pools adj a b \<noteq> []} = Sigma (dom (hm_get adj)) ?B"
    using has_pools_iff [OF assms] by (auto simp: dom_def)
  have fin: "finite (dom (hm_get adj))" "\<And>a. a \<in> dom (hm_get adj) \<Longrightarrow> finite (?B a)"
    using n by (simp add: finite_dom_map_of, metis finite_dom_map_of)
  show "finite {(a, b). adj_pools adj a b \<noteq> []}" unfolding Sig using fin by (intro finite_SigmaI) auto
  have "length (the (hm_get adj a)) = card (?B a)" if "a \<in> dom (hm_get adj)" for a
    using n [OF that] by (simp add: distinct_map_length)
  then show "assoc_total length adj = card {(a, b). adj_pools adj a b \<noteq> []}"
    unfolding Sig using fin by (simp add: hm.total_dom [OF wf] card_SigmaI)
  have "assoc_total length (the (hm_get adj a)) = (\<Sum>b \<in> ?B a. length (adj_pools adj a b))" if a: "a \<in> dom (hm_get adj)" for a
  proof -
    from a obtain m where m: "hm_get adj a = Some m" by auto
    then have "length (the (hm_get m b)) = length (adj_pools adj a b)" if "b \<in> dom (hm_get m)" for b
      using that by (auto simp: adj_pools_def)
    then have "(\<Sum>b \<in> dom (hm_get m). length (the (hm_get m b))) = (\<Sum>b \<in> dom (hm_get m). length (adj_pools adj a b))"
      by (intro sum.cong) simp_all
    with n [OF a] m show ?thesis by (simp add: hm.total_dom)
  qed
  then show "assoc_total (assoc_total length) adj = (\<Sum>(a, b) \<in> {(a, b). adj_pools adj a b \<noteq> []}. length (adj_pools adj a b))"
    unfolding Sig using fin by (simp add: hm.total_dom [OF wf] sum.Sigma)
qed

text \<open>A quantity that does not depend on the direction counts every pair of different mints twice.\<close>

lemma sum_both_directions:
  fixes f :: "'a::linorder \<Rightarrow> 'a \<Rightarrow> nat"
  assumes "finite D" "\<And>a b. (a, b) \<in> D \<longleftrightarrow> (b, a) \<in> D" "\<And>a. (a, a) \<notin> D" "\<And>a b. f a b = f b a"
  shows "(\<Sum>(a, b) \<in> D. f a b) = 2 * (\<Sum>(a, b) \<in> {(a, b) \<in> D. a < b}. f a b)"
proof -
  let ?U = "{(a, b) \<in> D. a < b}" and ?L = "{(a, b) \<in> D. b < a}"
  have "a < b \<or> b < a" if "(a, b) \<in> D" for a b using assms(3) [of a] that by (cases a b rule: linorder_cases) auto
  then have "D = ?U \<union> ?L" by auto
  moreover have "?U \<inter> ?L = {}" by auto
  moreover have fin: "finite ?U" "finite ?L" using assms(1) by (auto intro: finite_subset [OF _ assms(1)])
  ultimately have "(\<Sum>(a, b) \<in> D. f a b) = (\<Sum>(a, b) \<in> ?U. f a b) + (\<Sum>(a, b) \<in> ?L. f a b)"
    by (metis (no_types, lifting) sum.union_disjoint)
  moreover have "(\<Sum>(a, b) \<in> ?L. f a b) = (\<Sum>(a, b) \<in> ?U. f a b)"
    by (rule sum.reindex_bij_witness [of _ prod.swap prod.swap]) (use assms(2,4) in auto)
  ultimately show ?thesis by simp
qed

lemma stats_exact:
  assumes "maps_inv (adj, ix)" "\<And>a. adj_pools adj a a = []"
  shows "gs_total_vertices (refresh_stats_locked ts adj) = card {a. \<exists>b. adj_pools adj a b \<noteq> []}"
    and "gs_total_edges (refresh_stats_locked ts adj) = card {(a, b). a < b \<and> adj_pools adj a b \<noteq> []}"
    and "gs_total_pools (refresh_stats_locked ts adj) = card {p. \<exists>a b. p \<in> pe_pool_address ` set (adj_pools adj a b)}"
proof -
  let ?D = "{(a, b). adj_pools adj a b \<noteq> []}" and ?U = "{(a, b). a < b \<and> adj_pools adj a b \<noteq> []}"
  have ok: "adj_ok adj" and sym: "\<And>a b. adj_pools adj a b = adj_pools adj b a"
    using assms(1) by (simp_all add: maps_inv_def)
  note cnt = adj_edge_count [OF ok]
  have half: "(\<Sum>(a, b) \<in> ?D. f a b) = 2 * (\<Sum>(a, b) \<in> ?U. f a b)"
    if "\<And>a b. f a b = f b a" for f :: "pubkey \<Rightarrow> pubkey \<Rightarrow> nat"
  proof -
    have "{(a, b) \<in> ?D. a < b} = ?U" by auto
    with sum_both_directions [OF cnt(3), of f] that show ?thesis
      using sym assms(2) by (metis (mono_tags, lifting) case_prodD case_prodI mem_Collect_eq)
  qed
  have finU: "finite ?U" using cnt(3) by (rule rev_finite_subset) auto
  have "hm_wf adj" using ok by (simp add: adj_ok_def)
  then show "gs_total_vertices (refresh_stats_locked ts adj) = card {a. \<exists>b. adj_pools adj a b \<noteq> []}"
    using has_pools_iff [OF ok] by (simp add: refresh_stats_locked_def distinct_map_length dom_def)
  have "card ?D = 2 * card ?U" using half [of "\<lambda>_ _. 1"] by simp
  then show "gs_total_edges (refresh_stats_locked ts adj) = card ?U"
    using cnt(1) by (simp add: refresh_stats_locked_def Let_def assoc_total_def)
  let ?A = "\<lambda>(a, b). pe_pool_address ` set (adj_pools adj a b)"
  have disj: "x = y" if "x \<in> ?U" "y \<in> ?U" "?A x \<inter> ?A y \<noteq> {}" for x y
  proof -
    obtain a b c d where xy: "x = (a, b)" "y = (c, d)" by (cases x; cases y)
    with that(3) obtain q r where q: "q \<in> set (adj_pools adj a b)" "r \<in> set (adj_pools adj c d)"
      "pe_pool_address q = pe_pool_address r" by auto
    from q maps_inv_filed [OF assms(1)] have "filed_right (adj, ix) a b q" "filed_right (adj, ix) c d r" by auto
    with q(3) that xy show ?thesis by (auto simp: filed_right_def)
  qed
  have "(\<Sum>(a, b) \<in> ?U. length (adj_pools adj a b)) = (\<Sum>x \<in> ?U. card (?A x))"
  proof (rule sum.cong)
    fix x assume "x \<in> ?U"
    obtain a b where "x = (a, b)" by (cases x)
    moreover have "distinct (map pe_pool_address (adj_pools adj a b))"
      using adj_pools_pair_ok [OF ok, of a b] by (simp add: pair_list_ok_def)
    ultimately show "(case x of (a, b) \<Rightarrow> length (adj_pools adj a b)) = card (?A x)"
      using distinct_card by fastforce
  qed simp
  also have "\<dots> = card (\<Union>x \<in> ?U. ?A x)"
  proof (rule card_UN_disjoint [symmetric])
    show "finite ?U" by (rule finU)
    show "\<forall>x \<in> ?U. finite (?A x)" by (simp add: split_def)
    show "\<forall>x \<in> ?U. \<forall>y \<in> ?U. x \<noteq> y \<longrightarrow> ?A x \<inter> ?A y = {}" using disj by meson
  qed
  also have "(\<Union>x \<in> ?U. ?A x) = {p. \<exists>a b. p \<in> pe_pool_address ` set (adj_pools adj a b)}"
  proof (intro equalityI subsetI)
    fix p assume "p \<in> {p. \<exists>a b. p \<in> pe_pool_address ` set (adj_pools adj a b)}"
    then obtain a b where p: "p \<in> pe_pool_address ` set (adj_pools adj a b)" by blast
    then have ne: "adj_pools adj a b \<noteq> []" by auto
    then have "a \<noteq> b" using assms(2) by blast
    then consider "a < b" | "b < a" by (meson linorder_less_linear)
    then show "p \<in> (\<Union>x \<in> ?U. ?A x)"
    proof cases
      case 1
      with p ne show ?thesis by (intro UN_I [of "(a, b)"]) auto
    next
      case 2
      with p ne sym [of a b] show ?thesis by (intro UN_I [of "(b, a)"]) auto
    qed
  qed auto
  finally show "gs_total_pools (refresh_stats_locked ts adj) = card {p. \<exists>a b. p \<in> pe_pool_address ` set (adj_pools adj a b)}"
    using cnt(2) half [of "\<lambda>a b. length (adj_pools adj a b)"] sym
    by (simp add: refresh_stats_locked_def Let_def assoc_total_def)
qed

end
