(* ===== verification/Cycle_Finder.thy ===== *)
theory Cycle_Finder
  imports Graph_Properties
begin

text \<open>
  The pool ranker (\<open>arbitrage/pool_ranker.rs\<close>) and the beam search for arbitrage cycles
  (\<open>arbitrage/cycle_finder.rs\<close>). The quote provider is the implementation of a trait and may answer differently
  from one turn of the search loop to the next, so it is a function of the turn. A search returns
  an outcome because the ranker clamps between configured bounds and the quote gate indexes the path.
\<close>

section \<open>The ranker\<close>

record quote_provider =
  qp_is_pool_quote_ready :: "pubkey \<Rightarrow> bool"
  qp_get_cached_probe_quote :: "pubkey \<Rightarrow> dex_type \<Rightarrow> pubkey \<Rightarrow> pubkey \<Rightarrow> u64 \<Rightarrow> u64 option"

record 'f ranker_config =
  rk_probe_amount :: u64
  rk_liquidity_baseline_usd :: 'f
  rk_min_liquidity_score :: 'f
  rk_max_liquidity_score :: 'f

definition ranker_config_default :: "'f f64_ops \<Rightarrow> 'f ranker_config" where
  "ranker_config_default F =
     \<lparr> rk_probe_amount = 10000000, rk_liquidity_baseline_usd = f_lit F 100000 0,
       rk_min_liquidity_score = f_lit F 3 1, rk_max_liquidity_score = f_lit F 15 1 \<rparr>"

record 'f pool_ranker =
  pr_config :: "'f ranker_config"
  pr_max_edge_ratio :: "(pubkey, 'f) hashmap"

definition pool_ranker_with_config :: "'f ranker_config \<Rightarrow> 'f pool_ranker" where
  "pool_ranker_with_config cfg = \<lparr> pr_config = cfg, pr_max_edge_ratio = [] \<rparr>"

definition rank_single_pool ::
    "'f f64_ops \<Rightarrow> 'f ranker_config \<Rightarrow> quote_provider \<Rightarrow> 'f pool_edge \<Rightarrow> pubkey \<Rightarrow> pubkey \<Rightarrow> 'f ranked_pool option outcome" where
  "rank_single_pool F cfg q edge input_mint output_mint =
     (case qp_get_cached_probe_quote q (pe_pool_address edge) (pe_dex edge) input_mint output_mint (rk_probe_amount cfg) of
        None \<Rightarrow> Done None
      | Some quote_out \<Rightarrow>
          let edge_ratio = f_div F (f_of_u64 F quote_out) (f_of_u64 F (rk_probe_amount cfg)) in
          bind_outcome
            (f_clamp F (f_div F (pe_liquidity_usd edge) (rk_liquidity_baseline_usd cfg))
               (rk_min_liquidity_score cfg) (rk_max_liquidity_score cfg))
            (\<lambda>liquidity_score. Done (Some \<lparr> rp_edge = edge, rp_edge_ratio = edge_ratio,
                                            rp_liquidity_score = liquidity_score \<rparr>)))"

fun rank_edges ::
    "'f f64_ops \<Rightarrow> 'f ranker_config \<Rightarrow> quote_provider \<Rightarrow> pubkey \<Rightarrow> pubkey \<Rightarrow> 'f pool_edge list \<Rightarrow> 'f ranked_pool list outcome" where
  "rank_edges F cfg q input_mint output_mint [] = Done []"
| "rank_edges F cfg q input_mint output_mint (edge # edges) =
     (if \<not> qp_is_pool_quote_ready q (pe_pool_address edge) then rank_edges F cfg q input_mint output_mint edges
      else bind_outcome (rank_single_pool F cfg q edge input_mint output_mint) (\<lambda>ranked.
        bind_outcome (rank_edges F cfg q input_mint output_mint edges) (\<lambda>rest.
          Done (case ranked of None \<Rightarrow> rest | Some r \<Rightarrow> r # rest))))"

definition by_combined_score :: "'f f64_ops \<Rightarrow> 'f ranked_pool \<Rightarrow> 'f ranked_pool \<Rightarrow> ordering" where
  "by_combined_score F a b = f_cmp F (combined_score F b) (combined_score F a)"

fun rank_neighbors ::
    "'f f64_ops \<Rightarrow> 'f ranker_config \<Rightarrow> quote_provider \<Rightarrow> pubkey \<Rightarrow> (pubkey \<times> 'f pool_edge list) list
     \<Rightarrow> ((pubkey \<times> 'f ranked_pool list) list \<times> (pubkey \<times> 'f) list) outcome" where
  "rank_neighbors F cfg q input_mint [] = Done ([], [])"
| "rank_neighbors F cfg q input_mint ((output_mint, pools) # neighbors) =
     bind_outcome (rank_edges F cfg q input_mint output_mint pools) (\<lambda>ranked.
     bind_outcome (rank_neighbors F cfg q input_mint neighbors) (\<lambda>(results, updates).
       let ranked_pools = sort_by (by_combined_score F) ranked in
       Done (if ranked_pools = [] then results else (output_mint, ranked_pools) # results,
             map (\<lambda>r. (input_mint, clamp_edge_ratio F (rp_edge_ratio r))) ranked @ updates)))"

definition update_max_edge_ratios :: "'f f64_ops \<Rightarrow> (pubkey \<times> 'f) list \<Rightarrow> (pubkey, 'f) hashmap \<Rightarrow> (pubkey, 'f) hashmap" where
  "update_max_edge_ratios F updates m =
     fold (\<lambda>(token, ratio) m.
       let entry = hm_get_or (f_lit F 0 0) m token in hm_put token (if f_lt F entry ratio then ratio else entry) m) updates m"

definition best_score :: "'f f64_ops \<Rightarrow> pubkey \<times> 'f ranked_pool list \<Rightarrow> 'f" where
  "best_score F r = (case snd r of [] \<Rightarrow> f_lit F 0 0 | p # _ \<Rightarrow> combined_score F p)"

definition rank_pools_from ::
    "'f f64_ops \<Rightarrow> quote_provider \<Rightarrow> 'f pool_graph \<Rightarrow> pubkey \<Rightarrow> 'f pool_ranker
     \<Rightarrow> ((pubkey \<times> 'f ranked_pool list) list \<times> 'f pool_ranker) outcome" where
  "rank_pools_from F q graph input_mint rk =
     bind_outcome (rank_neighbors F (pr_config rk) q input_mint (graph_neighbors F graph input_mint)) (\<lambda>(results, updates).
       Done (sort_by (\<lambda>a b. f_cmp F (best_score F b) (best_score F a)) results,
             rk\<lparr> pr_max_edge_ratio := update_max_edge_ratios F updates (pr_max_edge_ratio rk) \<rparr>))"

definition max_edge_ratio_for :: "'f f64_ops \<Rightarrow> 'f pool_ranker \<Rightarrow> pubkey \<Rightarrow> 'f" where
  "max_edge_ratio_for F rk token = hm_get_or (f_lit F 15 1) (pr_max_edge_ratio rk) token"

definition compute_upper_bound :: "'f f64_ops \<Rightarrow> 'f pool_ranker \<Rightarrow> 'f \<Rightarrow> pubkey \<Rightarrow> nat \<Rightarrow> 'f" where
  "compute_upper_bound F rk current_profit current_token remaining_hops =
     f_mul F current_profit (f_powi F (max_edge_ratio_for F rk current_token) (of_nat remaining_hops))"

definition ranker_clear_cache :: "'f pool_ranker \<Rightarrow> 'f pool_ranker" where
  "ranker_clear_cache rk = rk\<lparr> pr_max_edge_ratio := [] \<rparr>"

definition hop_has_cached_quote ::
    "'f ranker_config \<Rightarrow> quote_provider \<Rightarrow> pubkey \<Rightarrow> dex_type \<Rightarrow> pubkey \<Rightarrow> pubkey \<Rightarrow> bool" where
  "hop_has_cached_quote cfg q pool_address dex input_mint output_mint \<longleftrightarrow>
     qp_get_cached_probe_quote q pool_address dex input_mint output_mint (rk_probe_amount cfg) \<noteq> None"

section \<open>The search\<close>

record cycle_finder_config =
  cf_beam_width :: nat
  cf_max_hops :: nat
  cf_min_profit_bps :: i32
  cf_max_results :: nat
  cf_base_mint :: pubkey
  cf_pool_alternatives :: nat

subsection \<open>The subgraph around the seeds\<close>

definition visit_neighbor :: "nat \<Rightarrow> pubkey \<Rightarrow> pubkey list \<times> (pubkey \<times> nat) list \<Rightarrow> pubkey list \<times> (pubkey \<times> nat) list" where
  "visit_neighbor depth neighbor = (\<lambda>(allowed, queue).
     if neighbor \<in> set allowed then (allowed, queue) else (neighbor # allowed, queue @ [(neighbor, depth + 1)]))"

definition pop_front :: "'a list \<Rightarrow> ('a \<times> 'a list) option" where
  "pop_front q = (case q of [] \<Rightarrow> None | x # xs \<Rightarrow> Some (x, xs))"

interpretation fifo: multiset_queue "\<lambda>x q. q @ [x]" pop_front mset
  by unfold_locales (auto simp: pop_front_def split: list.splits)

lemma visit_neighbors_queue:
  "\<exists>new. mset (snd (fold (\<lambda>(nb, _). visit_neighbor d nb) ns s)) = mset (snd s) + new \<and> (\<forall>x \<in># new. snd x = Suc d)"
proof (induction ns arbitrary: s)
  case Nil
  then show ?case by (intro exI [of _ "{#}"]) simp
next
  case (Cons n ns)
  have "mset (snd (visit_neighbor d (fst n) s))
      = mset (snd s) + (if fst n \<in> set (fst s) then {#} else {#(fst n, Suc d)#})"
    by (simp add: visit_neighbor_def split_def)
  moreover obtain new where "mset (snd (fold (\<lambda>(nb, _). visit_neighbor d nb) ns (visit_neighbor d (fst n) s)))
      = mset (snd (visit_neighbor d (fst n) s)) + new" "\<forall>x \<in># new. snd x = Suc d"
    using Cons by blast
  ultimately show ?case
    by (intro exI [of _ "(if fst n \<in> set (fst s) then {#} else {#(fst n, Suc d)#}) + new"])
      (simp add: split_def ac_simps)
qed

lemma bfs_measure:
  assumes "pop_front q = Some ((token, depth), queue)" "\<not> m \<le> depth"
  shows "(image_mset (\<lambda>x. Suc m - snd x) (mset (snd (fold (\<lambda>(nb, _). visit_neighbor depth nb) ns (a, queue)))),
          image_mset (\<lambda>x. Suc m - snd x) (mset q)) \<in> mult less_than"
proof -
  obtain new where "mset (snd (fold (\<lambda>(nb, _). visit_neighbor depth nb) ns (a, queue))) = mset queue + new"
    "\<forall>x \<in># new. snd x = Suc depth"
    using visit_neighbors_queue [of depth ns "(a, queue)"] by auto
  with assms show ?thesis
    by (intro fifo.pop_push_less [of q "(token, depth)" queue _ new]) auto
qed

lemma bfs_measure_skip:
  "pop_front q = Some (x, queue) \<Longrightarrow>
     (image_mset (\<lambda>x. Suc m - snd x) (mset queue), image_mset (\<lambda>x. Suc m - snd x) (mset q)) \<in> mult less_than"
  by (intro fifo.pop_push_less [of q x queue queue "{#}"]) auto

function bfs_loop ::
    "'f f64_ops \<Rightarrow> 'f pool_graph \<Rightarrow> nat \<Rightarrow> pubkey list \<times> (pubkey \<times> nat) list \<Rightarrow> pubkey list" where
  "bfs_loop F graph max_hops s =
     (case pop_front (snd s) of
        None \<Rightarrow> fst s
      | Some ((token, depth), queue) \<Rightarrow>
          if depth \<ge> max_hops then bfs_loop F graph max_hops (fst s, queue)
          else bfs_loop F graph max_hops
                 (fold (\<lambda>(neighbor, _). visit_neighbor depth neighbor) (graph_neighbors F graph token) (fst s, queue)))"
  by auto
termination
  by (relation "inv_image (mult less_than) (\<lambda>(F, g, m, s). image_mset (\<lambda>x. Suc m - snd x) (mset (snd s)))")
    (auto simp: wf_mult bfs_measure_skip bfs_measure)

definition build_search_subgraph ::
    "'f f64_ops \<Rightarrow> cycle_finder_config \<Rightarrow> 'f pool_graph \<Rightarrow> pubkey list \<Rightarrow> pubkey list" where
  "build_search_subgraph F cf graph seeds =
     (let seeds = filter (has_token graph) seeds
      in bfs_loop F graph (cf_max_hops cf)
           (List.insert (cf_base_mint cf) (remdups seeds), map (\<lambda>seed. (seed, 0)) seeds))"

subsection \<open>The beam search\<close>

definition f_ge :: "'f f64_ops \<Rightarrow> 'f \<Rightarrow> 'f \<Rightarrow> bool" where
  "f_ge F a b \<longleftrightarrow> f_lt F b a \<or> f_eq F a b"

fun hops_quoted :: "'f ranker_config \<Rightarrow> quote_provider \<Rightarrow> pubkey list \<Rightarrow> nat \<Rightarrow> 'f pool_edge list list \<Rightarrow> bool outcome" where
  "hops_quoted cfg q path hop_idx [] = Done True"
| "hops_quoted cfg q path hop_idx (pool_options # rest) =
     (if Suc hop_idx < length path then
        (case pool_options of
           [] \<Rightarrow> Done False
         | primary # _ \<Rightarrow>
             if hop_has_cached_quote cfg q (pe_pool_address primary) (pe_dex primary) (path ! hop_idx) (path ! Suc hop_idx)
             then hops_quoted cfg q path (Suc hop_idx) rest else Done False)
      else Panic)"

definition cycle_all_hops_quoted :: "'f ranker_config \<Rightarrow> quote_provider \<Rightarrow> 'f arb_cycle \<Rightarrow> bool outcome" where
  "cycle_all_hops_quoted cfg q cycle = hops_quoted cfg q (ac_path cycle) 0 (ac_pools cycle)"

record 'f search_state =
  ss_results :: "'f arb_cycle list"
  ss_pq :: "'f search_node list"
  ss_min_score_at_depth :: "(nat, 'f) hashmap"
  ss_count_at_depth :: "(nat, nat) hashmap"
  ss_ranker :: "'f pool_ranker"
  ss_turn :: nat \<comment> \<open>which turn of the loop this is\<close>

definition beam_push :: "'f f64_ops \<Rightarrow> cycle_finder_config \<Rightarrow> 'f search_node \<Rightarrow> 'f search_state \<Rightarrow> 'f search_state" where
  "beam_push F cf expanded st =
     (let depth = sn_depth expanded;
          count = hm_get_or 0 (ss_count_at_depth st) depth;
          min_score = hm_get_or (f_MIN F) (ss_min_score_at_depth st) depth;
          st = st\<lparr> ss_count_at_depth := hm_put depth count (ss_count_at_depth st),
                   ss_min_score_at_depth := hm_put depth min_score (ss_min_score_at_depth st) \<rparr>
      in if count < cf_beam_width cf then
           st\<lparr> ss_pq := heap_push (node_le F) expanded (ss_pq st),
               ss_count_at_depth := hm_put depth (count + 1) (ss_count_at_depth st),
               ss_min_score_at_depth :=
                 (if f_lt F (sn_score expanded) min_score \<or> f_eq F min_score (f_MIN F)
                  then hm_put depth (sn_score expanded) (ss_min_score_at_depth st) else ss_min_score_at_depth st) \<rparr>
         else if f_lt F min_score (sn_score expanded) then
           st\<lparr> ss_pq := heap_push (node_le F) expanded (ss_pq st) \<rparr>
         else st)"

definition expand_to ::
    "'f f64_ops \<Rightarrow> cycle_finder_config \<Rightarrow> pubkey list option \<Rightarrow> 'f search_node \<Rightarrow> pubkey \<times> 'f ranked_pool list
     \<Rightarrow> 'f search_state \<Rightarrow> 'f search_state" where
  "expand_to F cf allowed_tokens node = (\<lambda>(next_token, ranked_pools) st.
     let is_return_to_base = (next_token = cf_base_mint cf \<and> sn_depth node > 0) in
     if \<not> is_return_to_base \<and> has_visited node next_token then st
     else if (case allowed_tokens of None \<Rightarrow> False | Some allowed \<Rightarrow> \<not> is_return_to_base \<and> next_token \<notin> set allowed) then st
     else case map rp_edge (take (cf_pool_alternatives cf) ranked_pools) of
            [] \<Rightarrow> st
          | pool_alternatives \<Rightarrow>
              let best = hd ranked_pools in
              beam_push F cf
                (expand F node next_token pool_alternatives (rp_edge_ratio best) (rp_liquidity_score best)
                   (pe_liquidity_usd (rp_edge best))) st)"

datatype 'f search_turn = Search_Next "'f search_state" | Search_End "'f search_state" | Search_Panic

definition take_cycle ::
    "'f f64_ops \<Rightarrow> cycle_finder_config \<Rightarrow> quote_provider \<Rightarrow> pubkey list option \<Rightarrow> 'f pool_ranker \<Rightarrow> 'f search_node
     \<Rightarrow> 'f arb_cycle option outcome" where
  \<comment> \<open>the cycle that a node back at the base contributes\<close>
  "take_cycle F cf q required rk node =
     (let min_profit_multiplier = f_add F (f_lit F 1 0) (f_div F (f_of_i32 F (cf_min_profit_bps cf)) (f_lit F 10000 0)) in
      if \<not> f_ge F (sn_profit node) min_profit_multiplier then Done None
      else if (case required of None \<Rightarrow> False | Some ts \<Rightarrow> \<not> list_ex (\<lambda>t. t \<in> set ts) (sn_path node)) then Done None
      else case to_arb_cycle F node of
             None \<Rightarrow> Done None
           | Some cycle \<Rightarrow>
               bind_outcome (cycle_all_hops_quoted (pr_config rk) q cycle) (\<lambda>quoted.
                 Done (if quoted then Some cycle else None)))"

definition search_step ::
    "'f f64_ops \<Rightarrow> cycle_finder_config \<Rightarrow> (nat \<Rightarrow> quote_provider) \<Rightarrow> 'f pool_graph \<Rightarrow> pubkey list option \<Rightarrow> pubkey list option
     \<Rightarrow> 'f search_state \<Rightarrow> 'f search_turn" where
  "search_step F cf prov graph allowed_tokens required st =
     (let q = prov (ss_turn st);
          min_profit_multiplier = f_add F (f_lit F 1 0) (f_div F (f_of_i32 F (cf_min_profit_bps cf)) (f_lit F 10000 0)) in
      case heap_pop (node_le F) (ss_pq st) of
        None \<Rightarrow> Search_End st
      | Some (node, pq) \<Rightarrow>
          let st = st\<lparr> ss_pq := pq, ss_turn := Suc (ss_turn st) \<rparr> in
          if sn_depth node > 0 \<and> sn_token node = cf_base_mint cf then
            (case take_cycle F cf q required (ss_ranker st) node of
               Panic \<Rightarrow> Search_Panic
             | Done None \<Rightarrow> Search_Next st
             | Done (Some cycle) \<Rightarrow>
                 let st = st\<lparr> ss_results := ss_results st @ [cycle] \<rparr> in
                 if length (ss_results st) \<ge> cf_max_results cf then Search_End st else Search_Next st)
          else if sn_depth node \<ge> cf_max_hops cf then Search_Next st
          else if f_lt F (compute_upper_bound F (ss_ranker st) (sn_profit node) (sn_token node) (cf_max_hops cf - sn_depth node))
                    min_profit_multiplier then Search_Next st
          else case rank_pools_from F q graph (sn_token node) (ss_ranker st) of
                 Panic \<Rightarrow> Search_Panic
               | Done (neighbors, rk) \<Rightarrow>
                   Search_Next (fold (expand_to F cf allowed_tokens node) neighbors (st\<lparr> ss_ranker := rk \<rparr>)))"

lemma beam_push_pq:
  "mset (ss_pq (beam_push F cf n st)) \<in> {mset (ss_pq st), add_mset n (mset (ss_pq st))}"
  by (simp add: beam_push_def Let_def)

lemma beam_push_rest [simp]:
  "ss_results (beam_push F cf n st) = ss_results st" "ss_ranker (beam_push F cf n st) = ss_ranker st"
  "ss_turn (beam_push F cf n st) = ss_turn st"
  by (simp_all add: beam_push_def Let_def)

text \<open>What an expanded neighbour may add to the queue.\<close>

definition may_enter :: "cycle_finder_config \<Rightarrow> pubkey list option \<Rightarrow> 'f search_node \<Rightarrow> pubkey \<Rightarrow> bool" where
  "may_enter cf allowed node t \<longleftrightarrow> t = cf_base_mint cf \<and> sn_depth node > 0
     \<or> t \<notin> set (sn_visited node) \<and> (\<forall>ts. allowed = Some ts \<longrightarrow> t \<in> set ts)"

definition successor ::
    "'f f64_ops \<Rightarrow> cycle_finder_config \<Rightarrow> pubkey list option \<Rightarrow> 'f search_node \<Rightarrow> (pubkey \<times> 'f ranked_pool list) set
     \<Rightarrow> 'f search_node \<Rightarrow> bool" where
  "successor F cf allowed node nbs n \<longleftrightarrow> (\<exists>(t, ps) \<in> nbs. may_enter cf allowed node t
     \<and> take (cf_pool_alternatives cf) ps \<noteq> []
     \<and> (\<exists>r s l. n = expand F node t (map rp_edge (take (cf_pool_alternatives cf) ps)) r s l))"

lemma successor_mono: "successor F cf allowed node A n \<Longrightarrow> A \<subseteq> B \<Longrightarrow> successor F cf allowed node B n"
  unfolding successor_def by blast

lemma expand_to_cases:
  "expand_to F cf allowed node nb st = st
   \<or> (\<exists>n. successor F cf allowed node {nb} n \<and> expand_to F cf allowed node nb st = beam_push F cf n st)"
proof -
  obtain t ps where nb: "nb = (t, ps)" by (cases nb)
  let ?n = "expand F node t (map rp_edge (take (cf_pool_alternatives cf) ps)) (rp_edge_ratio (hd ps))
    (rp_liquidity_score (hd ps)) (pe_liquidity_usd (rp_edge (hd ps)))"
  show ?thesis
  proof (cases "may_enter cf allowed node t \<and> take (cf_pool_alternatives cf) ps \<noteq> []")
    case True
    then have "expand_to F cf allowed node nb st = beam_push F cf ?n st"
      by (cases "map rp_edge (take (cf_pool_alternatives cf) ps)")
        (auto simp: expand_to_def nb may_enter_def has_visited_def Let_def split: option.splits)
    moreover have "successor F cf allowed node {nb} ?n" using True by (auto simp: successor_def nb)
    ultimately show ?thesis by blast
  next
    case False
    then have "expand_to F cf allowed node nb st = st"
      by (cases "map rp_edge (take (cf_pool_alternatives cf) ps)")
        (auto simp: expand_to_def nb may_enter_def has_visited_def Let_def split: option.splits)
    then show ?thesis ..
  qed
qed

lemma expand_all:
  "ss_results (fold (expand_to F cf allowed node) nbs st) = ss_results st
   \<and> ss_ranker (fold (expand_to F cf allowed node) nbs st) = ss_ranker st
   \<and> ss_turn (fold (expand_to F cf allowed node) nbs st) = ss_turn st
   \<and> (\<exists>new. mset (ss_pq (fold (expand_to F cf allowed node) nbs st)) = mset (ss_pq st) + new
        \<and> (\<forall>n \<in># new. successor F cf allowed node (set nbs) n))"
proof (induction nbs arbitrary: st)
  case Nil
  then show ?case by (auto intro: exI [of _ "{#}"])
next
  case (Cons nb nbs)
  let ?st = "expand_to F cf allowed node nb st"
  have mono: "successor F cf allowed node (set nbs) n \<Longrightarrow> successor F cf allowed node (set (nb # nbs)) n" for n
    by (erule successor_mono) auto
  have one: "successor F cf allowed node {nb} n \<Longrightarrow> successor F cf allowed node (set (nb # nbs)) n" for n
    by (erule successor_mono) auto
  from Cons.IH [of ?st] obtain new where new:
    "mset (ss_pq (fold (expand_to F cf allowed node) nbs ?st)) = mset (ss_pq ?st) + new"
    "\<forall>n \<in># new. successor F cf allowed node (set nbs) n" by blast
  have "\<exists>add. mset (ss_pq ?st) = mset (ss_pq st) + add \<and> (\<forall>n \<in># add. successor F cf allowed node {nb} n)"
    using expand_to_cases [of F cf allowed node nb st]
  proof (elim disjE exE conjE)
    fix n assume n: "successor F cf allowed node {nb} n" "?st = beam_push F cf n st"
    then show ?thesis
      using beam_push_pq [of F cf n st] by (elim insertE emptyE) (auto intro: exI [of _ "{#}"] exI [of _ "{#n#}"])
  qed (auto intro: exI [of _ "{#}"])
  then obtain add where "mset (ss_pq ?st) = mset (ss_pq st) + add" "\<forall>n \<in># add. successor F cf allowed node {nb} n"
    by blast
  with new mono one have "mset (ss_pq (fold (expand_to F cf allowed node) nbs ?st)) = mset (ss_pq st) + (add + new)
      \<and> (\<forall>n \<in># add + new. successor F cf allowed node (set (nb # nbs)) n)"
    by (auto simp: ac_simps)
  moreover have "ss_results ?st = ss_results st" "ss_ranker ?st = ss_ranker st" "ss_turn ?st = ss_turn st"
    using expand_to_cases [of F cf allowed node nb st] by auto
  ultimately show ?case using Cons.IH [of ?st] by auto
qed

lemma successor_depth: "successor F cf allowed node nbs n \<Longrightarrow> sn_depth n = Suc (sn_depth node)"
  by (auto simp: successor_def)

text \<open>Every turn that goes on shortens the work that is left.\<close>

definition nodes_left :: "cycle_finder_config \<Rightarrow> 'f search_state \<Rightarrow> nat multiset" where
  "nodes_left cf st = image_mset (\<lambda>n. Suc (cf_max_hops cf) - sn_depth n) (mset (ss_pq st))"

lemma search_step_decreases:
  assumes "search_step F cf prov graph allowed required st = Search_Next st'"
  shows "(nodes_left cf st', nodes_left cf st) \<in> mult less_than"
proof -
  from assms obtain node pq where pop: "heap_pop (node_le F) (ss_pq st) = Some (node, pq)"
    by (cases "heap_pop (node_le F) (ss_pq st)") (auto simp: search_step_def Let_def)
  have "\<exists>new. mset (ss_pq st') = mset pq + new
      \<and> (\<forall>n \<in># new. sn_depth n = Suc (sn_depth node) \<and> sn_depth node < cf_max_hops cf)"
  proof (cases "ss_pq st' = pq")
    case True
    then show ?thesis by (auto intro: exI [of _ "{#}"])
  next
    case False
    with assms obtain nbs rk where d: "sn_depth node < cf_max_hops cf" and st': "st' = fold (expand_to F cf allowed node) nbs
        (st\<lparr> ss_pq := pq, ss_turn := Suc (ss_turn st), ss_ranker := rk \<rparr>)"
      by (auto simp: search_step_def Let_def pop split: if_splits outcome.splits option.splits)
    from expand_all [of F cf allowed node nbs "st\<lparr> ss_pq := pq, ss_turn := Suc (ss_turn st), ss_ranker := rk \<rparr>"]
    obtain new where "mset (ss_pq st') = mset pq + new" "\<forall>n \<in># new. successor F cf allowed node (set nbs) n"
      by (auto simp: st')
    with d successor_depth show ?thesis by fast
  qed
  then obtain new where "mset (ss_pq st') = mset pq + new"
    "\<forall>n \<in># new. sn_depth n = Suc (sn_depth node) \<and> sn_depth node < cf_max_hops cf" by blast
  then show ?thesis
    unfolding nodes_left_def by (intro heap.pop_push_less [OF pop, of "ss_pq st'" new]) auto
qed

function search_loop ::
    "'f f64_ops \<Rightarrow> cycle_finder_config \<Rightarrow> (nat \<Rightarrow> quote_provider) \<Rightarrow> 'f pool_graph \<Rightarrow> pubkey list option \<Rightarrow> pubkey list option
     \<Rightarrow> 'f search_state \<Rightarrow> 'f search_state outcome" where
  "search_loop F cf prov graph allowed_tokens required st =
     (case search_step F cf prov graph allowed_tokens required st of
        Search_Panic \<Rightarrow> Panic
      | Search_End st \<Rightarrow> Done st
      | Search_Next st \<Rightarrow> search_loop F cf prov graph allowed_tokens required st)"
  by auto
termination
  by (relation "inv_image (mult less_than) (\<lambda>(F, cf, prov, graph, a, r, st). nodes_left cf st)")
    (auto simp: wf_mult search_step_decreases)

declare bfs_loop.simps [simp del] search_loop.simps [simp del]

definition by_return :: "'f arb_cycle \<Rightarrow> 'f arb_cycle \<Rightarrow> ordering" where
  \<comment> \<open>\<open>b.estimated_return_bps.cmp(&a.estimated_return_bps)\<close> on \<open>i32\<close>\<close>
  "by_return a b =
     (let x = sint (ac_estimated_return_bps b); y = sint (ac_estimated_return_bps a)
      in if x < y then Less else if x = y then Equal else Greater)"

definition find_cycles_inner ::
    "'f f64_ops \<Rightarrow> cycle_finder_config \<Rightarrow> (nat \<Rightarrow> quote_provider) \<Rightarrow> 'f pool_graph \<Rightarrow> pubkey list option \<Rightarrow> 'f pool_ranker
     \<Rightarrow> ('f arb_cycle list \<times> 'f pool_ranker) outcome" where
  "find_cycles_inner F cf prov graph through_tokens rk =
     (let allowed_tokens = map_option (build_search_subgraph F cf graph) through_tokens;
          st = \<lparr> ss_results = [], ss_pq = heap_push (node_le F) (search_start F (cf_base_mint cf)) [],
                 ss_min_score_at_depth = [], ss_count_at_depth = [], ss_ranker = rk, ss_turn = 0 \<rparr>
      in bind_outcome (search_loop F cf prov graph allowed_tokens through_tokens st) (\<lambda>st.
           Done (sort_by by_return (ss_results st), ss_ranker st)))"

definition find_cycles ::
    "'f f64_ops \<Rightarrow> cycle_finder_config \<Rightarrow> (nat \<Rightarrow> quote_provider) \<Rightarrow> 'f pool_graph \<Rightarrow> 'f pool_ranker
     \<Rightarrow> ('f arb_cycle list \<times> 'f pool_ranker) outcome" where
  "find_cycles F cf prov graph rk = find_cycles_inner F cf prov graph None rk"

definition find_cycles_through ::
    "'f f64_ops \<Rightarrow> cycle_finder_config \<Rightarrow> (nat \<Rightarrow> quote_provider) \<Rightarrow> 'f pool_graph \<Rightarrow> pubkey list \<Rightarrow> 'f pool_ranker
     \<Rightarrow> ('f arb_cycle list \<times> 'f pool_ranker) outcome" where
  "find_cycles_through F cf prov graph through_tokens rk =
     (let seeds = filter (has_token graph) through_tokens
      in if through_tokens = [] \<or> seeds = [] then Done ([], rk)
         else find_cycles_inner F cf prov graph (Some seeds) rk)"

definition has_profitable_cycle ::
    "'f f64_ops \<Rightarrow> cycle_finder_config \<Rightarrow> (nat \<Rightarrow> quote_provider) \<Rightarrow> 'f pool_graph \<Rightarrow> 'f pool_ranker \<Rightarrow> bool outcome" where
  "has_profitable_cycle F cf prov graph rk =
     bind_outcome (find_cycles F cf prov graph rk) (\<lambda>(cycles, _). Done (cycles \<noteq> []))"

end
