(* ===== verification/Cycle_Properties.thy ===== *)
theory Cycle_Properties
  imports Cycle_Finder
begin

text \<open>
  Invariants of the cycle search: what the ranker returns, which nodes are in the queue and which cycles are
  in the results, and that the search does not panic.
\<close>

section \<open>The ranker\<close>

definition ranked_hop :: "'f ranker_config \<Rightarrow> quote_provider \<Rightarrow> pubkey \<Rightarrow> pubkey \<Rightarrow> 'f pool_edge \<Rightarrow> bool" where
  \<comment> \<open>the pool is in the ready set and has a quote for this direction\<close>
  "ranked_hop cfg q a b e \<longleftrightarrow> qp_is_pool_quote_ready q (pe_pool_address e)
     \<and> hop_has_cached_quote cfg q (pe_pool_address e) (pe_dex e) a b"

lemma rank_single_pool_Done:
  "rank_single_pool F cfg q e a b = Done (Some r) \<Longrightarrow>
     rp_edge r = e \<and> hop_has_cached_quote cfg q (pe_pool_address e) (pe_dex e) a b"
  by (auto simp: rank_single_pool_def hop_has_cached_quote_def bind_outcome_Done Let_def split: option.splits)

lemma rank_edges_sound:
  "rank_edges F cfg q a b es = Done rs \<Longrightarrow> \<forall>r \<in> set rs. rp_edge r \<in> set es \<and> ranked_hop cfg q a b (rp_edge r)"
proof (induction es arbitrary: rs)
  case (Cons e es)
  show ?case
  proof (cases "qp_is_pool_quote_ready q (pe_pool_address e)")
    case False
    with Cons show ?thesis by simp
  next
    case True
    with Cons.prems obtain r rest where r: "rank_single_pool F cfg q e a b = Done r"
      "rank_edges F cfg q a b es = Done rest" "rs = (case r of None \<Rightarrow> rest | Some r \<Rightarrow> r # rest)"
      by (auto simp: bind_outcome_Done)
    with Cons.IH [OF r(2)] True rank_single_pool_Done show ?thesis
      by (cases r) (fastforce simp: ranked_hop_def)+
  qed
qed simp

lemma rank_neighbors_sound:
  "rank_neighbors F cfg q a ns = Done (res, ups) \<Longrightarrow> (t, rs) \<in> set res \<Longrightarrow>
     rs \<noteq> [] \<and> (\<exists>es. (t, es) \<in> set ns \<and> (\<forall>r \<in> set rs. rp_edge r \<in> set es \<and> ranked_hop cfg q a t (rp_edge r)))"
proof (induction ns arbitrary: res ups)
  case (Cons n ns)
  obtain u es where n: "n = (u, es)" by (cases n)
  with Cons.prems(1) obtain ranked res' ups' where r: "rank_edges F cfg q a u es = Done ranked"
    "rank_neighbors F cfg q a ns = Done (res', ups')"
    "res = (if sort_by (by_combined_score F) ranked = [] then res' else (u, sort_by (by_combined_score F) ranked) # res')"
    by (auto simp: bind_outcome_Done Let_def split: prod.splits)
  have old: "(t, rs) \<in> set res' \<Longrightarrow> ?case" using Cons.IH [OF r(2)] by auto
  have new: "rs \<noteq> [] \<and> u = t \<and> (\<forall>x \<in> set rs. rp_edge x \<in> set es \<and> ranked_hop cfg q a t (rp_edge x))"
    if "(t, rs) \<notin> set res'"
  proof -
    have "t = u" "rs = sort_by (by_combined_score F) ranked" "ranked \<noteq> []"
      using Cons.prems(2) r(3) that by (auto split: if_splits)
    with rank_edges_sound [OF r(1)] show ?thesis by simp
  qed
  show ?case
  proof (cases "(t, rs) \<in> set res'")
    case False
    with new have "rs \<noteq> []" "u = t" "\<forall>x \<in> set rs. rp_edge x \<in> set es \<and> ranked_hop cfg q a t (rp_edge x)" by blast+
    then show ?thesis by (intro conjI exI [of _ es]) (simp_all add: n)
  qed (rule old)
qed simp

lemma rank_pools_from_sound:
  assumes "rank_pools_from F q g a rk = Done (ns, rk')"
  shows "pr_config rk' = pr_config rk"
    and "(t, rs) \<in> set ns \<Longrightarrow> rs \<noteq> [] \<and> (\<exists>es. (t, es) \<in> set (graph_neighbors F g a)
           \<and> (\<forall>r \<in> set rs. rp_edge r \<in> set es \<and> ranked_hop (pr_config rk) q a t (rp_edge r)))"
  using assms rank_neighbors_sound
  by (fastforce simp: rank_pools_from_def bind_outcome_Done split: prod.splits)+

text \<open>The ranker panics only when the configured bounds of the liquidity score are crossed.\<close>

definition score_bounds_ok :: "'f f64_ops \<Rightarrow> 'f ranker_config \<Rightarrow> bool" where
  "score_bounds_ok F cfg \<longleftrightarrow> f_lt F (rk_min_liquidity_score cfg) (rk_max_liquidity_score cfg)
     \<or> f_eq F (rk_min_liquidity_score cfg) (rk_max_liquidity_score cfg)"

lemma rank_edges_returns: "score_bounds_ok F cfg \<Longrightarrow> \<exists>rs. rank_edges F cfg q a b es = Done rs"
proof (induction es)
  case (Cons e es)
  have "\<exists>r. rank_single_pool F cfg q e a b = Done r"
    using Cons.prems by (auto simp: rank_single_pool_def f_clamp_def score_bounds_ok_def Let_def split: option.splits)
  with Cons show ?case by auto
qed simp

lemma rank_neighbors_returns: "score_bounds_ok F cfg \<Longrightarrow> \<exists>x. rank_neighbors F cfg q a ns = Done x"
proof (induction ns)
  case (Cons n ns)
  obtain u es where n: "n = (u, es)" by (cases n)
  obtain rs where "rank_edges F cfg q a u es = Done rs" using rank_edges_returns [OF Cons.prems] by blast
  moreover obtain res ups where "rank_neighbors F cfg q a ns = Done (res, ups)" using Cons by fastforce
  ultimately show ?case by (simp add: n Let_def)
qed simp

lemma rank_pools_from_returns:
  "score_bounds_ok F (pr_config rk) \<Longrightarrow> rank_pools_from F q g a rk \<noteq> Panic"
  using rank_neighbors_returns [of F "pr_config rk" q a "graph_neighbors F g a"]
  by (auto simp: rank_pools_from_def)

section \<open>Nodes and cycles\<close>

text \<open>A walk from the base: consecutive tokens with the pools that may carry each hop.\<close>

definition hop_ok :: "'f f64_ops \<Rightarrow> 'f pool_graph \<Rightarrow> nat \<Rightarrow> pubkey \<Rightarrow> pubkey \<Rightarrow> 'f pool_edge list \<Rightarrow> bool" where
  "hop_ok F g k a b ps \<longleftrightarrow> ps \<noteq> [] \<and> length ps \<le> k
     \<and> (\<exists>es. (b, es) \<in> set (graph_neighbors F g a) \<and> set ps \<subseteq> set es)"

definition node_inv :: "'f f64_ops \<Rightarrow> cycle_finder_config \<Rightarrow> 'f pool_graph \<Rightarrow> pubkey list option \<Rightarrow> 'f search_node \<Rightarrow> bool" where
  "node_inv F cf g allowed n \<longleftrightarrow>
     length (sn_path n) = Suc (sn_depth n) \<and> length (sn_pools n) = sn_depth n
     \<and> sn_path n ! 0 = cf_base_mint cf \<and> last (sn_path n) = sn_token n
     \<and> set (sn_visited n) = set (sn_path n) \<and> sn_depth n \<le> cf_max_hops cf
     \<and> distinct (butlast (sn_path n))
     \<and> (sn_depth n > 0 \<and> sn_token n = cf_base_mint cf \<or> distinct (sn_path n))
     \<and> (\<forall>ts. allowed = Some ts \<longrightarrow> set (sn_path n) \<subseteq> insert (cf_base_mint cf) (set ts))
     \<and> (\<forall>i < sn_depth n. hop_ok F g (cf_pool_alternatives cf) (sn_path n ! i) (sn_path n ! Suc i) (sn_pools n ! i))"

lemma node_inv_start: "node_inv F cf g allowed (search_start F (cf_base_mint cf))"
  by (simp add: node_inv_def)

lemma node_inv_expand:
  assumes inv: "node_inv F cf g allowed n" and open': "\<not> (sn_depth n > 0 \<and> sn_token n = cf_base_mint cf)"
    and depth: "sn_depth n < cf_max_hops cf" and enter: "may_enter cf allowed n t"
    and hop: "hop_ok F g (cf_pool_alternatives cf) (sn_token n) t ps"
  shows "node_inv F cf g allowed (expand F n t ps r s l)"
proof -
  let ?p = "sn_path n"
  have len: "length ?p = Suc (sn_depth n)" "length (sn_pools n) = sn_depth n" and dist: "distinct ?p"
    and vis: "set (sn_visited n) = set ?p" and tok: "last ?p = sn_token n"
    using inv open' by (auto simp: node_inv_def)
  have ne: "?p \<noteq> []" using len(1) by auto
  then have last: "?p ! sn_depth n = sn_token n" using tok len(1) by (simp add: last_conv_nth)
  have hops: "hop_ok F g (cf_pool_alternatives cf) ((?p @ [t]) ! i) ((?p @ [t]) ! Suc i) ((sn_pools n @ [ps]) ! i)"
    if "i < Suc (sn_depth n)" for i
  proof (cases "i = sn_depth n")
    case True
    with hop len last show ?thesis by (simp add: nth_append)
  next
    case False
    with that len inv show ?thesis by (auto simp: node_inv_def nth_append)
  qed
  moreover have "Suc (sn_depth n) > 0 \<and> t = cf_base_mint cf \<or> distinct (?p @ [t])"
    using enter dist vis by (auto simp: may_enter_def)
  moreover have "t \<in> insert (cf_base_mint cf) (set ts)" if "allowed = Some ts" for ts
    using enter that by (auto simp: may_enter_def)
  ultimately show ?thesis
    using inv len ne depth dist by (auto simp: node_inv_def nth_append)
qed

definition good_cycle ::
    "'f f64_ops \<Rightarrow> cycle_finder_config \<Rightarrow> 'f pool_graph \<Rightarrow> pubkey list option \<Rightarrow> pubkey list option \<Rightarrow> 'f arb_cycle \<Rightarrow> bool" where
  "good_cycle F cf g allowed required c \<longleftrightarrow>
     cycle_is_valid c \<and> hop_count c \<le> cf_max_hops cf \<and> hd (ac_path c) = cf_base_mint cf
     \<and> distinct (butlast (ac_path c))
     \<and> (\<forall>ts. allowed = Some ts \<longrightarrow> set (ac_path c) \<subseteq> insert (cf_base_mint cf) (set ts))
     \<and> (\<forall>ts. required = Some ts \<longrightarrow> set (ac_path c) \<inter> set ts \<noteq> {})
     \<and> (\<forall>i < hop_count c. hop_ok F g (cf_pool_alternatives cf) (ac_path c ! i) (ac_path c ! Suc i) (ac_pools c ! i))"

definition all_hops_quoted :: "'f ranker_config \<Rightarrow> quote_provider \<Rightarrow> 'f arb_cycle \<Rightarrow> bool" where
  "all_hops_quoted cfg q c \<longleftrightarrow> (\<forall>i < hop_count c. ac_pools c ! i \<noteq> []
     \<and> hop_has_cached_quote cfg q (pe_pool_address (hd (ac_pools c ! i))) (pe_dex (hd (ac_pools c ! i)))
         (ac_path c ! i) (ac_path c ! Suc i))"

lemma hops_quoted_spec:
  assumes "k + length pss < length path"
  shows "hops_quoted cfg q path k pss = Done (\<forall>i < length pss. pss ! i \<noteq> []
     \<and> hop_has_cached_quote cfg q (pe_pool_address (hd (pss ! i))) (pe_dex (hd (pss ! i))) (path ! (k + i)) (path ! Suc (k + i)))"
  using assms
proof (induction pss arbitrary: k)
  case (Cons ps pss)
  then have "Suc k + length pss < length path" by simp
  from Cons.IH [OF this] Cons.prems show ?case
    by (cases ps) (auto simp: less_Suc_eq_0_disj)
qed simp

lemma cycle_quoted_spec:
  "length (ac_path c) = Suc (hop_count c) \<Longrightarrow> cycle_all_hops_quoted cfg q c = Done (all_hops_quoted cfg q c)"
  by (simp add: cycle_all_hops_quoted_def all_hops_quoted_def hop_count_def hops_quoted_spec)

lemma to_arb_cycle_fields:
  "to_arb_cycle F n = Some c \<Longrightarrow> ac_path c = sn_path n \<and> ac_pools c = sn_pools n
     \<and> 3 \<le> length (sn_path n) \<and> first_of (sn_path n) = last_of (sn_path n)"
  by (auto simp: to_arb_cycle_def split: if_splits prod.splits)

lemma take_cycle_sound:
  assumes "node_inv F cf g allowed n" "sn_token n = cf_base_mint cf"
  shows "take_cycle F cf q required rk n \<noteq> Panic"
    and "take_cycle F cf q required rk n = Done (Some c) \<Longrightarrow>
           good_cycle F cf g allowed required c \<and> all_hops_quoted (pr_config rk) q c"
proof -
  have quoted: "cycle_all_hops_quoted (pr_config rk) q c = Done (all_hops_quoted (pr_config rk) q c)"
    if "to_arb_cycle F n = Some c" for c
    using to_arb_cycle_fields [OF that] assms(1) by (intro cycle_quoted_spec) (simp add: node_inv_def hop_count_def)
  then show "take_cycle F cf q required rk n \<noteq> Panic"
    by (auto simp: take_cycle_def Let_def split: option.splits)
  assume "take_cycle F cf q required rk n = Done (Some c)"
  then have c: "to_arb_cycle F n = Some c" and q: "all_hops_quoted (pr_config rk) q c"
    and req: "\<forall>ts. required = Some ts \<longrightarrow> set (sn_path n) \<inter> set ts \<noteq> {}"
    using quoted by (auto simp: take_cycle_def Let_def list_ex_iff split: option.splits if_splits)
  note f = to_arb_cycle_fields [OF c]
  have "sn_path n \<noteq> []" using f by auto
  with f req assms(1) have "good_cycle F cf g allowed required c"
    by (auto simp: good_cycle_def cycle_is_valid_def node_inv_def hop_count_def hd_conv_nth)
  with q show "good_cycle F cf g allowed required c \<and> all_hops_quoted (pr_config rk) q c" by simp
qed

section \<open>The search\<close>

definition results_ok ::
    "'f f64_ops \<Rightarrow> cycle_finder_config \<Rightarrow> (nat \<Rightarrow> quote_provider) \<Rightarrow> 'f pool_graph \<Rightarrow> pubkey list option \<Rightarrow> pubkey list option
     \<Rightarrow> 'f ranker_config \<Rightarrow> 'f arb_cycle list \<Rightarrow> bool" where
  "results_ok F cf prov g allowed required cfg cs \<longleftrightarrow>
     (\<forall>c \<in> set cs. good_cycle F cf g allowed required c \<and> (\<exists>k. all_hops_quoted cfg (prov k) c))"

definition search_inv ::
    "'f f64_ops \<Rightarrow> cycle_finder_config \<Rightarrow> (nat \<Rightarrow> quote_provider) \<Rightarrow> 'f pool_graph \<Rightarrow> pubkey list option \<Rightarrow> pubkey list option
     \<Rightarrow> 'f ranker_config \<Rightarrow> 'f search_state \<Rightarrow> bool" where
  "search_inv F cf prov g allowed required cfg st \<longleftrightarrow>
     pr_config (ss_ranker st) = cfg \<and> (\<forall>n \<in> set (ss_pq st). node_inv F cf g allowed n)
     \<and> results_ok F cf prov g allowed required cfg (ss_results st)
     \<and> (ss_results st = [] \<or> length (ss_results st) < cf_max_results cf)"

definition search_done ::
    "'f f64_ops \<Rightarrow> cycle_finder_config \<Rightarrow> (nat \<Rightarrow> quote_provider) \<Rightarrow> 'f pool_graph \<Rightarrow> pubkey list option \<Rightarrow> pubkey list option
     \<Rightarrow> 'f ranker_config \<Rightarrow> 'f search_state \<Rightarrow> bool" where
  "search_done F cf prov g allowed required cfg st \<longleftrightarrow>
     pr_config (ss_ranker st) = cfg \<and> results_ok F cf prov g allowed required cfg (ss_results st)
     \<and> length (ss_results st) \<le> max 1 (cf_max_results cf)"

lemma search_inv_done: "search_inv F cf prov g allowed required cfg st \<Longrightarrow> search_done F cf prov g allowed required cfg st"
  by (auto simp: search_inv_def search_done_def)

lemma hop_ok_ranked:
  assumes "rank_pools_from F q g a rk = Done (ns, rk')" "(t, rs) \<in> set ns" "take k rs \<noteq> []"
  shows "hop_ok F g k a t (map rp_edge (take k rs))"
proof -
  obtain es where "(t, es) \<in> set (graph_neighbors F g a)" "\<forall>r \<in> set rs. rp_edge r \<in> set es"
    using rank_pools_from_sound(2) [OF assms(1,2)] by blast
  then show ?thesis
    using assms(3) set_take_subset [of k rs] by (auto simp: hop_ok_def)
qed

lemma node_inv_successor:
  assumes "node_inv F cf g allowed n" "\<not> (sn_depth n > 0 \<and> sn_token n = cf_base_mint cf)" "sn_depth n < cf_max_hops cf"
    and "rank_pools_from F q g (sn_token n) rk = Done (ns, rk')" "successor F cf allowed n (set ns) m"
  shows "node_inv F cf g allowed m"
proof -
  from assms(5) obtain t rs r s l where "(t, rs) \<in> set ns" "may_enter cf allowed n t"
    "take (cf_pool_alternatives cf) rs \<noteq> []"
    "m = expand F n t (map rp_edge (take (cf_pool_alternatives cf) rs)) r s l"
    by (auto simp: successor_def)
  then show ?thesis using hop_ok_ranked [OF assms(4)] assms(1-3) by (auto intro: node_inv_expand)
qed

lemma expand_turn_inv:
  assumes inv: "search_inv F cf prov g allowed required cfg st" and pop: "set (ss_pq st) = insert n (set pq)"
    and go: "\<not> (sn_depth n > 0 \<and> sn_token n = cf_base_mint cf)" "sn_depth n < cf_max_hops cf"
    and rank: "rank_pools_from F q g (sn_token n) (ss_ranker st) = Done (ns, rk)"
  shows "search_inv F cf prov g allowed required cfg
    (fold (expand_to F cf allowed n) ns (st\<lparr> ss_pq := pq, ss_turn := k, ss_ranker := rk \<rparr>))"
proof -
  let ?st = "st\<lparr> ss_pq := pq, ss_turn := k, ss_ranker := rk \<rparr>" and ?f = "fold (expand_to F cf allowed n) ns"
  have n: "node_inv F cf g allowed n" using inv pop by (simp add: search_inv_def)
  from expand_all [of F cf allowed n ns ?st] obtain new where
    new: "mset (ss_pq (?f ?st)) = mset pq + new" "\<forall>m \<in># new. successor F cf allowed n (set ns) m" by auto
  have "node_inv F cf g allowed m" if "m \<in> set (ss_pq (?f ?st))" for m
  proof -
    from that have "m \<in># mset pq + new" by (metis new(1) set_mset_mset)
    then show ?thesis
      using inv pop new(2) node_inv_successor [OF n go rank] by (auto simp: search_inv_def)
  qed
  with inv expand_all [of F cf allowed n ns ?st] rank_pools_from_sound(1) [OF rank] show ?thesis
    by (simp add: search_inv_def)
qed

lemma search_step_inv:
  assumes inv: "search_inv F cf prov g allowed required cfg st"
  shows "search_step F cf prov g allowed required st = Search_Next st' \<Longrightarrow> search_inv F cf prov g allowed required cfg st'"
    and "search_step F cf prov g allowed required st = Search_End st' \<Longrightarrow> search_done F cf prov g allowed required cfg st'"
    and "score_bounds_ok F cfg \<Longrightarrow> search_step F cf prov g allowed required st \<noteq> Search_Panic"
proof -
  have "(search_step F cf prov g allowed required st = Search_Next st' \<longrightarrow> search_inv F cf prov g allowed required cfg st')
    \<and> (search_step F cf prov g allowed required st = Search_End st' \<longrightarrow> search_done F cf prov g allowed required cfg st')
    \<and> (score_bounds_ok F cfg \<longrightarrow> search_step F cf prov g allowed required st \<noteq> Search_Panic)"
    (is ?thesis')
  proof (cases "heap_pop (node_le F) (ss_pq st)")
    case None
    with inv show ?thesis' by (auto simp: search_step_def intro: search_inv_done)
  next
    case (Some np)
    obtain n pq where np: "np = (n, pq)" by (cases np)
    with Some have pop: "heap_pop (node_le F) (ss_pq st) = Some (n, pq)" by simp
    let ?q = "prov (ss_turn st)" and ?st = "st\<lparr> ss_pq := pq, ss_turn := Suc (ss_turn st) \<rparr>"
    have sets: "set (ss_pq st) = insert n (set pq)"
      using mset_heap_pop [OF pop] by (metis set_mset_add_mset_insert set_mset_mset)
    then have n: "node_inv F cf g allowed n" and skip: "search_inv F cf prov g allowed required cfg ?st"
      using inv by (auto simp: search_inv_def)
    show ?thesis'
    proof (cases "sn_depth n > 0 \<and> sn_token n = cf_base_mint cf")
      case True
      note tc = take_cycle_sound [OF n conjunct2 [OF True], of ?q required "ss_ranker st"]
      have good: "results_ok F cf prov g allowed required cfg (ss_results st @ [c])"
        if "take_cycle F cf ?q required (ss_ranker st) n = Done (Some c)" for c
        using tc(2) [OF that] inv by (auto simp: results_ok_def search_inv_def)
      have "length (ss_results st @ [c]) \<le> max 1 (cf_max_results cf)" for c
        using inv by (auto simp: search_inv_def)
      with True good tc(1) skip show ?thesis'
        by (auto simp: search_step_def pop Let_def search_inv_def search_done_def split: outcome.splits option.splits)
    next
      case False
      note turn = expand_turn_inv [OF inv sets False]
      have "rank_pools_from F ?q g (sn_token n) (ss_ranker st) \<noteq> Panic" if "score_bounds_ok F cfg"
        using that inv rank_pools_from_returns [of F "ss_ranker st"] by (simp add: search_inv_def)
      with False skip turn show ?thesis'
        by (auto simp: search_step_def pop Let_def split: outcome.splits)
    qed
  qed
  then show "search_step F cf prov g allowed required st = Search_Next st' \<Longrightarrow> search_inv F cf prov g allowed required cfg st'"
    and "search_step F cf prov g allowed required st = Search_End st' \<Longrightarrow> search_done F cf prov g allowed required cfg st'"
    and "score_bounds_ok F cfg \<Longrightarrow> search_step F cf prov g allowed required st \<noteq> Search_Panic"
    by blast+
qed

lemma search_loop_sound:
  "search_inv F cf prov g allowed required cfg st \<Longrightarrow>
     (search_loop F cf prov g allowed required st = Done st' \<longrightarrow> search_done F cf prov g allowed required cfg st')
     \<and> (score_bounds_ok F cfg \<longrightarrow> search_loop F cf prov g allowed required st \<noteq> Panic)"
proof (induction F cf prov g allowed required st rule: search_loop.induct)
  case (1 F cf prov g allowed required st)
  note step = search_step_inv [OF "1.prems"]
  show ?case
  proof (cases "search_step F cf prov g allowed required st")
    case (Search_Next st'')
    with "1.IH" step(1) show ?thesis by (simp add: search_loop.simps [of F cf prov g allowed required st])
  next
    case (Search_End st'')
    with step(2) show ?thesis by (auto simp: search_loop.simps [of F cf prov g allowed required st])
  next
    case Search_Panic
    with step(3) show ?thesis by (auto simp: search_loop.simps [of F cf prov g allowed required st])
  qed
qed

lemma find_cycles_inner_sound:
  fixes through :: "pubkey list option"
  assumes "allowed = map_option (build_search_subgraph F cf g) through"
  shows "find_cycles_inner F cf prov g through rk = Done (cs, rk') \<Longrightarrow>
           results_ok F cf prov g allowed through (pr_config rk) cs \<and> length cs \<le> max 1 (cf_max_results cf)
           \<and> sorted_wrt (\<lambda>a b. sint (ac_estimated_return_bps a) \<ge> sint (ac_estimated_return_bps b)) cs"
    and "score_bounds_ok F (pr_config rk) \<Longrightarrow> find_cycles_inner F cf prov g through rk \<noteq> Panic"
proof -
  let ?st = "\<lparr> ss_results = [], ss_pq = heap_push (node_le F) (search_start F (cf_base_mint cf)) [],
    ss_min_score_at_depth = [], ss_count_at_depth = [], ss_ranker = rk, ss_turn = 0 \<rparr>"
  have "set (heap_push (node_le F) x []) = {x}" for x :: "'a search_node"
    using mset_heap_push [of "node_le F" x "[]"] by (metis mset.simps(1) set_mset_mset set_mset_single)
  then have "search_inv F cf prov g allowed through (pr_config rk) ?st"
    by (simp add: search_inv_def results_ok_def node_inv_start)
  note loop = search_loop_sound [OF this]
  have order: "weak_order_on by_return A" for A :: "'a arb_cycle set"
    by (auto simp: weak_order_on_def by_return_def Let_def split: if_splits)
  have less: "by_return b a \<noteq> Less \<longleftrightarrow> sint (ac_estimated_return_bps a) \<ge> sint (ac_estimated_return_bps b)" for a b :: "'a arb_cycle"
    by (simp add: by_return_def Let_def)
  {
    assume "find_cycles_inner F cf prov g through rk = Done (cs, rk')"
    then obtain st where st: "search_loop F cf prov g allowed through ?st = Done st" "cs = sort_by by_return (ss_results st)"
      by (auto simp: find_cycles_inner_def Let_def assms bind_outcome_Done)
    with loop have "search_done F cf prov g allowed through (pr_config rk) st" by blast
    then show "results_ok F cf prov g allowed through (pr_config rk) cs \<and> length cs \<le> max 1 (cf_max_results cf)
        \<and> sorted_wrt (\<lambda>a b. sint (ac_estimated_return_bps a) \<ge> sint (ac_estimated_return_bps b)) cs"
      using sort_by_sorted [OF order, of "ss_results st"] by (simp add: st(2) search_done_def results_ok_def less)
  }
  assume "score_bounds_ok F (pr_config rk)"
  with loop have "search_loop F cf prov g allowed through ?st \<noteq> Panic" by blast
  then show "find_cycles_inner F cf prov g through rk \<noteq> Panic"
    by (cases "search_loop F cf prov g allowed through ?st") (auto simp: find_cycles_inner_def Let_def assms)
qed

end
