(* ===== verification/Graph_Claims.thy ===== *)
theory Graph_Claims
  imports Graph_Properties
begin

text \<open>
  Properties of the pool graph over any sequence of calls: the graph refines a function from pairs of mints to
  lists of pools, stays symmetric and small, and counts itself exactly.
\<close>

section \<open>The graph as a function on pairs\<close>

definition view_upsert ::
    "'f f64_ops \<Rightarrow> 'f pool_edge \<Rightarrow> (pubkey \<Rightarrow> pubkey \<Rightarrow> 'f pool_edge list) \<Rightarrow> pubkey \<Rightarrow> pubkey \<Rightarrow> 'f pool_edge list" where
  \<comment> \<open>versions of the pool with other mints leave, and the pool is added to its pair\<close>
  "view_upsert F e v x y =
     (let qs = filter (\<lambda>q. pe_pool_address q \<noteq> pe_pool_address e
                          \<or> pe_mint_a q = pe_mint_a e \<and> pe_mint_b q = pe_mint_b e) (v x y)
      in if pair_of e x y then add_pair F e qs else qs)"

definition view_remove :: "pubkey \<Rightarrow> (pubkey \<Rightarrow> pubkey \<Rightarrow> 'f pool_edge list) \<Rightarrow> pubkey \<Rightarrow> pubkey \<Rightarrow> 'f pool_edge list" where
  "view_remove p v x y = filter (\<lambda>q. pe_pool_address q \<noteq> p) (v x y)"

lemma kept_elsewhere_view:
  assumes "maps_inv s"
  shows "kept_elsewhere s e x y =
    filter (\<lambda>q. pe_pool_address q \<noteq> pe_pool_address e \<or> pe_mint_a q = pe_mint_a e \<and> pe_mint_b q = pe_mint_b e)
      (adj_pools (fst s) x y)"
proof -
  have ix: "hm_get (snd s) (pe_pool_address q) = Some (pe_mint_a q, pe_mint_b q)"
    if "q \<in> set (adj_pools (fst s) x y)" for q
    using maps_inv_filed [OF assms that] by (simp add: filed_right_def)
  show ?thesis
  proof (cases "hm_get (snd s) (pe_pool_address e) = Some (pe_mint_a e, pe_mint_b e)")
    case True
    then have "pe_mint_a q = pe_mint_a e \<and> pe_mint_b q = pe_mint_b e"
      if "q \<in> set (adj_pools (fst s) x y)" "pe_pool_address q = pe_pool_address e" for q
      using ix [OF that(1)] that(2) by simp
    with True show ?thesis by (auto simp: kept_elsewhere_def filter_id_conv)
  next
    case False
    then have "\<not> (pe_mint_a q = pe_mint_a e \<and> pe_mint_b q = pe_mint_b e)"
      if "q \<in> set (adj_pools (fst s) x y)" "pe_pool_address q = pe_pool_address e" for q
      using ix [OF that(1)] that(2) by auto
    with False show ?thesis by (simp add: kept_elsewhere_def) (metis (mono_tags, lifting) filter_cong)
  qed
qed

lemma upsert_edge_refines:
  "maps_inv s \<Longrightarrow> adj_pools (fst (upsert_edge F e s)) = view_upsert F e (adj_pools (fst s))"
  by (cases "upsert_edge F e s")
    (simp add: fun_eq_iff view_upsert_def Let_def upsert_edge_view(3) kept_elsewhere_view)

lemma bulk_refines:
  "maps_inv s \<Longrightarrow> adj_pools (fst (fold (upsert_edge F) es s)) = fold (view_upsert F) es (adj_pools (fst s))"
  by (induction es arbitrary: s) (simp_all add: maps_inv_upsert upsert_edge_refines)

lemma remove_refines:
  assumes "maps_inv (pg_adj g, pg_pool_index g)"
  shows "pools_between (graph_remove_pool now p g) x y = view_remove p (pools_between g) x y"
proof (cases "hm_get (pg_pool_index g) p")
  case None
  then have "pe_pool_address q \<noteq> p" if "q \<in> set (pools_between g x y)" for q
    using maps_inv_indexed [OF assms, of q x y] that by (auto simp: pools_between_adj)
  with None show ?thesis by (simp add: graph_remove_pool_def view_remove_def filter_id_conv)
next
  case (Some ab)
  obtain a b where "ab = (a, b)" by (cases ab)
  with Some show ?thesis
    by (simp add: graph_remove_pool_def Let_def view_remove_def pools_between_adj adj_pools_remove_pool [OF assms])
qed

lemma adj_pools_Nil: "adj_pools [] = (\<lambda>_ _. [])"
  by (simp add: fun_eq_iff adj_pools_def)

lemma single_upsert_view:
  "adj_pools (fst (upsert_edge F e ([], []))) = view_upsert F e (\<lambda>_ _. [])"
  using upsert_edge_refines [OF maps_inv_Nil, of F e] by (simp add: adj_pools_Nil)

lemma view_upsert_empty:
  "pe_mint_a e \<noteq> pe_mint_b e \<Longrightarrow> view_upsert F e (\<lambda>_ _. []) x y = (if pair_of e x y then [e] else [])"
  by (simp add: view_upsert_def add_pair_def add_pool_new)

section \<open>Consistency\<close>

text \<open>
  C38. After any sequence of calls the pools between two mints are the same in both directions, at most three
  and of different addresses; a stored pool joins the two mints, is indexed under them and is stored in one version only;
  and a mint is known exactly when it has a pool.
\<close>

theorem graph_runs_consistent:
  "pools_between (graph_run F ops) a b = pools_between (graph_run F ops) b a
   \<and> length (pools_between (graph_run F ops) a b) \<le> 3
   \<and> distinct (map pe_pool_address (pools_between (graph_run F ops) a b))
   \<and> (has_token (graph_run F ops) a \<longleftrightarrow> (\<exists>b. pools_between (graph_run F ops) a b \<noteq> []))
   \<and> (\<forall>e \<in> set (pools_between (graph_run F ops) a b). other_mint e a = Some b
        \<and> hm_get (pg_pool_index (graph_run F ops)) (pe_pool_address e) = Some (pe_mint_a e, pe_mint_b e)
        \<and> (\<forall>c d. \<forall>e' \<in> set (pools_between (graph_run F ops) c d). pe_pool_address e' = pe_pool_address e \<longrightarrow> e' = e))"
proof -
  let ?g = "graph_run F ops"
  have inv: "maps_inv (pg_adj ?g, pg_pool_index ?g)" using graph_inv_run by (auto simp: graph_inv_def)
  then have ok: "adj_ok (pg_adj ?g)" and sym: "\<And>a b. pools_between ?g a b = pools_between ?g b a"
    by (simp_all add: maps_inv_def pools_between_adj)
  have pair: "pair_list_ok (pools_between ?g a b)" for a b
    using adj_pools_pair_ok [OF ok] by (simp add: pools_between_adj)
  have filed: "filed_right (pg_adj ?g, pg_pool_index ?g) a b e" if "e \<in> set (pools_between ?g a b)" for a b e
    using maps_inv_filed [OF inv] that by (simp add: pools_between_adj)
  have one: "e' = e" if e: "e \<in> set (pools_between ?g a b)" "e' \<in> set (pools_between ?g c d)"
    "pe_pool_address e' = pe_pool_address e" for a b c d e e'
  proof -
    from filed [OF e(1)] filed [OF e(2)] e(3) have "c = a \<and> d = b \<or> c = b \<and> d = a"
      by (auto simp: filed_right_def)
    with e sym [of a b] have "e' \<in> set (pools_between ?g a b)" by auto
    with e pair [of a b] show ?thesis
      by (auto simp: pair_list_ok_def distinct_map inj_on_def)
  qed
  have "has_token ?g a \<longleftrightarrow> (\<exists>b. pools_between ?g a b \<noteq> [])"
    using has_pools_iff [OF ok, of a] by (simp only: has_token_def pools_between_adj)
  moreover have "other_mint e a = Some b \<and> hm_get (pg_pool_index ?g) (pe_pool_address e) = Some (pe_mint_a e, pe_mint_b e)"
    if "e \<in> set (pools_between ?g a b)" for e
    using filed [OF that] by (auto simp: filed_right_def other_mint_def)
  ultimately show ?thesis
    using sym [of a b] pair [of a b] one by (auto simp: pair_list_ok_def max_pools_per_pair_def)
qed

definition example_edge :: "pubkey \<Rightarrow> pubkey \<Rightarrow> pubkey \<Rightarrow> int pool_edge" where
  "example_edge p a b = pool_edge_new 5 p DOrca a b (of_nat (unat p)) 30"

definition fixed_ops :: "int f64_ops" where
  \<comment> \<open>fixed-point numbers with six decimals in place of \<open>f64\<close>, to evaluate examples\<close>
  "fixed_ops = \<lparr> f_lt = (<), f_eq = (=), f_add = (+), f_sub = (-), f_mul = (\<lambda>a b. a * b div 10 ^ 6),
     f_div = (\<lambda>a b. a * 10 ^ 6 div b), f_powi = (\<lambda>x n. ((\<lambda>y. y * x div 10 ^ 6) ^^ unat n) (10 ^ 6)),
     f_abs = abs, f_round = (\<lambda>x. (x + 500000) div 10 ^ 6 * 10 ^ 6), f_minimum = min, f_finite = (\<lambda>_. True),
     f_of_u64 = (\<lambda>x. uint x * 10 ^ 6), f_of_i32 = (\<lambda>x. sint x * 10 ^ 6),
     f_to_i32 = (\<lambda>x. of_int (x div 10 ^ 6)), f_lit = (\<lambda>m e. m * 10 ^ 6 div 10 ^ e), f_MAX = 10 ^ 30,
     f_MIN = - (10 ^ 30), f_EPSILON = 0 \<rparr>"

lemma example_edge_fields [simp]:
  "pe_mint_a (example_edge p 1 2) = 1" "pe_mint_b (example_edge p 1 2) = 2"
  "pe_pool_address (example_edge p 1 2) = p"
  by (simp_all add: example_edge_def pool_edge_new_def)

lemma example_run:
  "pools_between (graph_run fixed_ops [Upsert_Pool 9 (example_edge 7 1 2)]) x y
     = (if pair_of (example_edge 7 1 2) x y then [example_edge 7 1 2] else [])"
proof -
  have "pg_adj (graph_run fixed_ops [Upsert_Pool 9 (example_edge 7 1 2)]) = fst (upsert_edge fixed_ops (example_edge 7 1 2) ([], []))"
    by (simp add: graph_run_def pool_graph_new_def graph_upsert_pool_def split: prod.splits)
  then show ?thesis by (simp add: pools_between_adj single_upsert_view view_upsert_empty)
qed

theorem graph_runs_consistent_witness:
  "other_mint (example_edge 7 1 2) 2 = Some 1
   \<and> pools_between (graph_run fixed_ops [Upsert_Pool 9 (example_edge 7 1 2)]) 1 2 = [example_edge 7 1 2]"
  using graph_runs_consistent [of fixed_ops "[Upsert_Pool 9 (example_edge 7 1 2)]" 2 1]
  by (simp add: example_run pair_of_def)

section \<open>Refinement\<close>

text \<open>
  C36. The graph implements a function from pairs of mints to pools: an upsert drops versions of the pool with
  other mints and adds it to its pair, a removal drops the pool from every pair, a bulk upsert is the sequence of
  its upserts, and clearing leaves no pool.
\<close>

theorem graph_refines_pair_lists:
  "pools_between (graph_upsert_pool F now e (graph_run F ops)) = view_upsert F e (pools_between (graph_run F ops))
   \<and> pools_between (graph_remove_pool now p (graph_run F ops)) = view_remove p (pools_between (graph_run F ops))
   \<and> pools_between (bulk_upsert F now es (graph_run F ops)) = fold (view_upsert F) es (pools_between (graph_run F ops))
   \<and> pools_between (graph_clear (graph_run F ops)) = (\<lambda>_ _. [])"
proof -
  let ?g = "graph_run F ops"
  have inv: "maps_inv (pg_adj ?g, pg_pool_index ?g)" using graph_inv_run by (auto simp: graph_inv_def)
  have v: "pools_between ?g = adj_pools (pg_adj ?g)" by (simp add: fun_eq_iff pools_between_adj)
  show ?thesis
    using upsert_edge_refines [OF inv, of F e] bulk_refines [OF inv, of F es] remove_refines [OF inv, of now p]
    by (auto simp: fun_eq_iff v pools_between_adj graph_upsert_pool_def bulk_upsert_def graph_clear_def clear_adj_def
        clear_pool_index_def clear_stats_def adj_pools_def [of "[]"] split: prod.splits)
qed

text \<open>The two ways to store pools leave the same graph.\<close>

lemma bulk_upsert_is_fold:
  assumes "es \<noteq> []"
  shows "bulk_upsert F now es g = fold (graph_upsert_pool F now) es g"
proof -
  have "fold (graph_upsert_pool F now) es g =
      (case fold (upsert_edge F) es (pg_adj g, pg_pool_index g) of (adj, ix) \<Rightarrow>
         \<lparr> pg_adj = adj, pg_pool_index = ix, pg_stats = refresh_stats_locked now adj \<rparr>)"
    using assms
  proof (induction es arbitrary: g)
    case (Cons e es)
    show ?case
    proof (cases "es = []")
      case True
      then show ?thesis by (simp add: graph_upsert_pool_def)
    next
      case False
      have "(pg_adj (graph_upsert_pool F now e g), pg_pool_index (graph_upsert_pool F now e g))
          = upsert_edge F e (pg_adj g, pg_pool_index g)"
        by (simp add: graph_upsert_pool_def split: prod.splits)
      with Cons.IH [OF False, of "graph_upsert_pool F now e g"] show ?thesis by simp
    qed
  qed simp
  then show ?thesis by (simp add: bulk_upsert_def)
qed

section \<open>Which pools stay\<close>

text \<open>
  Storing a pool whose mints did not change: a pool that is present is replaced in place, a new one is
  appended while its pair has fewer than three, and otherwise the pair keeps three of the four pools such that
  none left out is more liquid than one kept.
\<close>

theorem graph_keeps_most_liquid:
  assumes "pe_mint_a e \<noteq> pe_mint_b e" "a = pe_mint_a e" "b = pe_mint_b e"
    and "hm_get (pg_pool_index (graph_run F ops)) (pe_pool_address e) \<in> {None, Some (a, b)}"
    and "old = pools_between (graph_run F ops) a b"
    and "kept = pools_between (graph_upsert_pool F now e (graph_run F ops)) a b"
    and "f_comparable F (pe_liquidity_usd ` insert e (set old))"
  shows "if pe_pool_address e \<in> pe_pool_address ` set old
         then map pe_pool_address kept = map pe_pool_address old \<and> e \<in> set kept
         else if length old < 3 then kept = old @ [e]
         else length kept = 3 \<and> set kept \<subseteq> insert e (set old)
           \<and> (\<forall>p \<in> set kept. \<forall>q \<in> insert e (set old) - set kept. \<not> f_lt F (pe_liquidity_usd p) (pe_liquidity_usd q))"
proof -
  let ?g = "graph_run F ops"
  have inv: "maps_inv (pg_adj ?g, pg_pool_index ?g)" using graph_inv_run by (auto simp: graph_inv_def)
  then have "pair_list_ok old" by (simp add: assms(5) pools_between_adj maps_inv_def adj_pools_pair_ok)
  have "kept_elsewhere (pg_adj ?g, pg_pool_index ?g) e a b = old"
    using assms(2,3,4,5) maps_inv_indexed [OF inv, of _ a b]
    by (fastforce simp: kept_elsewhere_def pools_between_adj filter_id_conv)
  then have "kept = add_pool F e old"
    using assms(1,2,3,6) upsert_edge_view(3) [OF inv, of F e]
    by (auto simp: pools_between_adj graph_upsert_pool_def pair_of_def add_pair_def split: prod.splits)
  with add_pool_outcome [OF \<open>pair_list_ok old\<close>, of e F] assms(7) show ?thesis by (auto split: if_splits)
qed

theorem graph_keeps_most_liquid_witness:
  "pools_between (graph_upsert_pool fixed_ops 9 (example_edge 8 1 2)
      (graph_run fixed_ops [Upsert_Pool 9 (example_edge 7 1 2)])) 1 2 = [example_edge 7 1 2, example_edge 8 1 2]"
proof -
  let ?g = "graph_run fixed_ops [Upsert_Pool 9 (example_edge 7 1 2)]"
  have "hm_get (pg_pool_index ?g) (8 :: pubkey) = None"
    by (simp add: graph_run_def pool_graph_new_def graph_upsert_pool_def upsert_edge_def)
  moreover have "f_comparable fixed_ops A" for A
    by (auto simp: f_comparable_def fixed_ops_def)
  ultimately show ?thesis
    using graph_keeps_most_liquid [of "example_edge 8 1 2" 1 2 fixed_ops "[Upsert_Pool 9 (example_edge 7 1 2)]" _ _ 9, OF _ _ _ _ refl refl]
    by (simp add: example_run pair_of_def)
qed

section \<open>Statistics\<close>

fun op_edges :: "'f graph_op \<Rightarrow> 'f pool_edge set" where
  "op_edges (Upsert_Pool now e) = {e}"
| "op_edges (Bulk_Upsert now es) = set es"
| "op_edges _ = {}"

definition stored :: "'f adjacency \<Rightarrow> 'f pool_edge set" where
  "stored adj = {e. \<exists>a b. e \<in> set (adj_pools adj a b)}"

lemma stored_upsert:
  assumes "maps_inv s"
  shows "stored (fst (upsert_edge F e s)) \<subseteq> insert e (stored (fst s))"
proof -
  have "q = e \<or> q \<in> set (adj_pools (fst s) x y)" if "q \<in> set (view_upsert F e (adj_pools (fst s)) x y)" for q x y
  proof -
    have "pair_list_ok (filter P (adj_pools (fst s) x y))" for P
      using assms by (simp add: maps_inv_def adj_pools_pair_ok pair_list_ok_filter)
    from add_pair_props(2) [OF this] that show ?thesis
      by (fastforce simp: view_upsert_def Let_def split: if_splits)
  qed
  then show ?thesis by (simp add: stored_def upsert_edge_refines [OF assms] subset_iff) blast
qed

lemma stored_fold: "maps_inv s \<Longrightarrow> stored (fst (fold (upsert_edge F) es s)) \<subseteq> set es \<union> stored (fst s)"
proof (induction es arbitrary: s)
  case (Cons e es)
  then show ?case using Cons.IH [OF maps_inv_upsert, of s F e] stored_upsert [of s F e] by auto
qed simp

lemma stored_apply:
  assumes "graph_inv g"
  shows "stored (pg_adj (graph_apply F x g)) \<subseteq> op_edges x \<union> stored (pg_adj g)"
proof -
  have inv: "maps_inv (pg_adj g, pg_pool_index g)" using assms by (simp add: graph_inv_def)
  show ?thesis
  proof (cases x)
    case (Upsert_Pool now e)
    then show ?thesis
      using stored_upsert [OF inv, of F e] by (auto simp: graph_upsert_pool_def split: prod.splits)
  next
    case (Bulk_Upsert now es)
    then show ?thesis
      using stored_fold [OF inv, of F es] by (auto simp: bulk_upsert_def split: prod.splits)
  next
    case (Remove_Pool now p)
    have "stored (pg_adj (graph_remove_pool now p g)) = {e. \<exists>a b. e \<in> set (view_remove p (pools_between g) a b)}"
      unfolding stored_def pools_between_adj [symmetric] remove_refines [OF inv] ..
    with Remove_Pool show ?thesis by (auto simp: stored_def view_remove_def pools_between_adj)
  next
    case Clear
    then show ?thesis
      by (auto simp: graph_clear_def clear_adj_def clear_pool_index_def clear_stats_def stored_def adj_pools_def)
  qed
qed

lemma stored_run: "stored (pg_adj (graph_run F ops)) \<subseteq> (\<Union>x \<in> set ops. op_edges x)"
proof -
  have "stored (pg_adj (fold (graph_apply F) ops g)) \<subseteq> (\<Union>x \<in> set ops. op_edges x) \<union> stored (pg_adj g)"
    if "graph_inv g" for g
    using that
  proof (induction ops arbitrary: g)
    case (Cons x ops)
    then show ?case using Cons.IH [OF graph_inv_apply, of g F x] stored_apply [of g F x] by auto
  qed simp
  from this [OF graph_inv_empty] show ?thesis
    by (simp add: graph_run_def pool_graph_new_def stored_def adj_pools_def)
qed

text \<open>
  The statistics are exact after every call, although the counts are halves of sums over both directions:
  the number of mints with a pool, of pairs of mints with a pool and of different pools. (A pool
  between a mint and itself would be stored once and counted as a half.)
\<close>

theorem graph_stats_exact:
  assumes "\<forall>x \<in> set ops. \<forall>e \<in> op_edges x. pe_mint_a e \<noteq> pe_mint_b e"
  shows "gs_total_vertices (pg_stats (graph_run F ops)) = card {a. has_token (graph_run F ops) a}
    \<and> gs_total_edges (pg_stats (graph_run F ops)) = card {(a, b). a < b \<and> pools_between (graph_run F ops) a b \<noteq> []}
    \<and> gs_total_pools (pg_stats (graph_run F ops))
        = card {p. \<exists>a b. p \<in> pe_pool_address ` set (pools_between (graph_run F ops) a b)}"
proof -
  let ?g = "graph_run F ops"
  obtain ts where inv: "maps_inv (pg_adj ?g, pg_pool_index ?g)"
    and st: "pg_stats ?g = refresh_stats_locked ts (pg_adj ?g)"
    using graph_inv_run [of F ops] by (auto simp: graph_inv_def)
  have loop: "adj_pools (pg_adj ?g) a a = []" for a
  proof (rule ccontr)
    assume "adj_pools (pg_adj ?g) a a \<noteq> []"
    then obtain e where e: "e \<in> set (adj_pools (pg_adj ?g) a a)" by (meson last_in_set)
    then have "pe_mint_a e \<noteq> pe_mint_b e" using stored_run [of F ops] assms by (auto simp: stored_def)
    with maps_inv_filed [OF inv, of e a a] e show False by (auto simp: filed_right_def)
  qed
  have "has_token ?g a \<longleftrightarrow> (\<exists>b. adj_pools (pg_adj ?g) a b \<noteq> [])" for a
    using has_pools_iff [of "pg_adj ?g" a] inv by (simp add: has_token_def maps_inv_def)
  with stats_exact [OF inv loop, of ts] show ?thesis by (simp only: st pools_between_adj)
qed

theorem graph_stats_exact_witness:
  "gs_total_pools (pg_stats (graph_run fixed_ops [Upsert_Pool 9 (example_edge 7 1 2)]))
     = card {p. \<exists>a b. p \<in> pe_pool_address ` set (pools_between (graph_run fixed_ops [Upsert_Pool 9 (example_edge 7 1 2)]) a b)}"
  using graph_stats_exact [of "[Upsert_Pool 9 (example_edge 7 1 2)]" fixed_ops] by simp

section \<open>Clearing under concurrency\<close>

text \<open>
  \<open>clear\<close> drops its first lock before it takes the second. A pool stored in between stays in the graph
  without an index entry, and \<open>remove_pool\<close> no longer removes it.
\<close>

lemma clear_race:
  assumes "pe_mint_a e \<noteq> pe_mint_b e"
    and g_def: "g = clear_stats (clear_pool_index (graph_upsert_pool F now e (clear_adj pool_graph_new)))"
  shows "pools_between (graph_remove_pool now' (pe_pool_address e) g) (pe_mint_a e) (pe_mint_b e) = [e]"
proof -
  have "pg_pool_index g = []" by (simp add: g_def clear_stats_def clear_pool_index_def)
  moreover have "pg_adj g = fst (upsert_edge F e ([], []))"
    by (simp add: g_def clear_stats_def clear_pool_index_def clear_adj_def pool_graph_new_def graph_upsert_pool_def
        split: prod.splits)
  then have "pools_between g (pe_mint_a e) (pe_mint_b e) = [e]"
    using assms(1) by (simp add: pools_between_adj single_upsert_view view_upsert_empty pair_of_def)
  ultimately show ?thesis by (simp add: graph_remove_pool_def)
qed

end
