(* ===== verification/Cycle_Claims.thy ===== *)
theory Cycle_Claims
  imports Cycle_Properties Graph_Claims
begin

text \<open>
  Properties of the arbitrage search over the pool graph: which cycles it may return, that it returns, and that
  the subgraph of a targeted search is the set of tokens within reach of the seeds and loses no cycle.
\<close>

section \<open>The subgraph of a targeted search\<close>

text \<open>
  \<open>reach k t\<close>: a walk of \<open>k\<close> hops leads from a seed to \<open>t\<close> and does not enter the base. (The base is closed
  from the start, so the search does not go on through it unless it is a seed itself.)
\<close>

inductive reach :: "(pubkey \<Rightarrow> pubkey set) \<Rightarrow> pubkey \<Rightarrow> pubkey set \<Rightarrow> nat \<Rightarrow> pubkey \<Rightarrow> bool"
  for N :: "pubkey \<Rightarrow> pubkey set" and base :: pubkey and seeds :: "pubkey set" where
  reach_seed: "s \<in> seeds \<Longrightarrow> reach N base seeds 0 s"
| reach_hop: "reach N base seeds k u \<Longrightarrow> v \<in> N u \<Longrightarrow> v \<noteq> base \<Longrightarrow> reach N base seeds (Suc k) v"

definition nbrs :: "'f f64_ops \<Rightarrow> 'f pool_graph \<Rightarrow> pubkey \<Rightarrow> pubkey set" where
  "nbrs F g u = fst ` set (graph_neighbors F g u)"

lemma visit_neighbors:
  "\<exists>news. fold (\<lambda>(nb, _). visit_neighbor d nb) ns (allowed, queue)
       = (rev news @ allowed, queue @ map (\<lambda>v. (v, Suc d)) news)
     \<and> set news = fst ` set ns - set allowed"
proof (induction ns arbitrary: allowed queue)
  case (Cons n ns)
  show ?case
  proof (cases "fst n \<in> set allowed")
    case True
    then show ?thesis using Cons [of allowed queue] by (auto simp: visit_neighbor_def split_def)
  next
    case False
    obtain news where "fold (\<lambda>(nb, _). visit_neighbor d nb) ns (fst n # allowed, queue @ [(fst n, Suc d)])
       = (rev news @ fst n # allowed, (queue @ [(fst n, Suc d)]) @ map (\<lambda>v. (v, Suc d)) news)"
      "set news = fst ` set ns - insert (fst n) (set allowed)"
      using Cons [of "fst n # allowed" "queue @ [(fst n, Suc d)]"] by auto
    with False show ?thesis
      by (intro exI [of _ "fst n # news"]) (auto simp: visit_neighbor_def split_def)
  qed
qed simp

definition found :: "pubkey \<Rightarrow> pubkey set \<Rightarrow> pubkey list \<Rightarrow> pubkey set" where
  \<comment> \<open>what has been reached; the base only when it is a seed\<close>
  "found base seeds allowed = {t \<in> set allowed. t \<noteq> base \<or> base \<in> seeds}"

definition bfs_inv ::
    "(pubkey \<Rightarrow> pubkey set) \<Rightarrow> pubkey \<Rightarrow> pubkey set \<Rightarrow> nat \<Rightarrow> pubkey list \<times> (pubkey \<times> nat) list \<Rightarrow> (pubkey \<Rightarrow> nat) \<Rightarrow> bool" where
  "bfs_inv N base seeds m s dep \<longleftrightarrow>
     base \<in> set (fst s) \<and> seeds \<subseteq> set (fst s) \<and> (\<forall>t \<in> seeds. dep t = 0)
     \<and> (\<forall>x \<in> set (snd s). fst x \<in> found base seeds (fst s) \<and> dep (fst x) = snd x)
     \<and> sorted (map snd (snd s))
     \<and> (\<forall>t \<in> found base seeds (fst s). reach N base seeds (dep t) t \<and> dep t \<le> m)
     \<and> (snd s \<noteq> [] \<longrightarrow> (\<forall>t \<in> found base seeds (fst s). dep t \<le> Suc (snd (hd (snd s)))))
     \<and> (\<forall>u \<in> found base seeds (fst s). u \<notin> fst ` set (snd s) \<longrightarrow> dep u < m \<longrightarrow>
          (\<forall>v \<in> N u. v = base \<or> v \<in> found base seeds (fst s) \<and> dep v \<le> Suc (dep u)))"

lemma bfs_inv_skip:
  assumes inv: "bfs_inv N base seeds m (allowed, (t, d) # queue) dep" and "m \<le> d"
  shows "bfs_inv N base seeds m (allowed, queue) dep"
proof -
  have t: "dep t = d" using inv by (auto simp: bfs_inv_def)
  have "dep x \<le> Suc (snd (hd queue))" if "queue \<noteq> []" "x \<in> found base seeds allowed" for x
  proof -
    have "dep x \<le> Suc d" using inv that(2) by (auto simp: bfs_inv_def)
    moreover have "d \<le> snd (hd queue)" using inv that(1) by (cases queue) (auto simp: bfs_inv_def)
    ultimately show ?thesis by linarith
  qed
  moreover have "v = base \<or> v \<in> found base seeds allowed \<and> dep v \<le> Suc (dep u)"
    if u: "u \<in> found base seeds allowed" "u \<notin> fst ` set queue" "dep u < m" and v: "v \<in> N u" for u v
  proof -
    have "u \<noteq> t" using u(3) t \<open>m \<le> d\<close> by auto
    with inv u v show ?thesis by (auto simp: bfs_inv_def)
  qed
  ultimately show ?thesis using inv by (auto simp: bfs_inv_def)
qed

lemma bfs_inv_expand:
  assumes inv: "bfs_inv N base seeds m (allowed, (t, d) # queue) dep" and "d < m"
    and news: "set news = N t - set allowed"
  defines "dep' \<equiv> (\<lambda>x. if x \<in> set news then Suc d else dep x)"
  shows "bfs_inv N base seeds m (rev news @ allowed, queue @ map (\<lambda>v. (v, Suc d)) news) dep'"
proof -
  let ?s = "(rev news @ allowed, queue @ map (\<lambda>v. (v, Suc d)) news)"
  have base: "base \<in> set allowed" and seeds: "seeds \<subseteq> set allowed" and t: "t \<in> found base seeds allowed" "dep t = d"
    and sorted: "sorted (map snd queue)" and ge: "\<forall>x \<in> set queue. d \<le> snd x"
    and le: "\<forall>x \<in> found base seeds allowed. dep x \<le> Suc d"
    and q: "\<forall>x \<in> set queue. fst x \<in> found base seeds allowed \<and> dep (fst x) = snd x"
    using inv by (auto simp: bfs_inv_def)
  have fnd: "found base seeds (rev news @ allowed) = found base seeds allowed \<union> set news"
    and disj: "found base seeds allowed \<inter> set news = {}"
    using base news by (auto simp: found_def)
  then have old: "dep' x = dep x" if "x \<in> found base seeds allowed" for x using that by (auto simp: dep'_def)
  have "dep' x = 0" if "x \<in> seeds" for x
    using that seeds news inv by (auto simp: dep'_def bfs_inv_def)
  moreover have "\<forall>x \<in> set (snd ?s). fst x \<in> found base seeds (fst ?s) \<and> dep' (fst x) = snd x"
  proof
    fix x assume "x \<in> set (snd ?s)"
    then consider "x \<in> set queue" | "fst x \<in> set news" "snd x = Suc d" by auto
    then show "fst x \<in> found base seeds (fst ?s) \<and> dep' (fst x) = snd x"
      by cases (use q old fnd in \<open>auto simp: dep'_def\<close>)
  qed
  moreover have "sorted (map snd (snd ?s))"
  proof -
    have "snd x \<le> Suc d" if "x \<in> set queue" for x using q le that by metis
    with sorted show ?thesis by (auto simp: sorted_append comp_def map_replicate_const)
  qed
  moreover have "reach N base seeds (dep' x) x \<and> dep' x \<le> m" if "x \<in> found base seeds (fst ?s)" for x
  proof (cases "x \<in> set news")
    case True
    have "reach N base seeds d t" using inv t by (auto simp: bfs_inv_def)
    with True news base have "reach N base seeds (Suc d) x" by (intro reach_hop [of _ _ _ d t]) auto
    with True \<open>d < m\<close> show ?thesis by (simp add: dep'_def)
  next
    case False
    with that fnd inv show ?thesis by (auto simp: dep'_def bfs_inv_def)
  qed
  moreover have "dep' x \<le> Suc (snd (hd (snd ?s)))" if "x \<in> found base seeds (fst ?s)" "snd ?s \<noteq> []" for x
  proof -
    have "dep' x \<le> Suc d" using that(1) fnd le by (auto simp: dep'_def)
    moreover have "hd (snd ?s) \<in> set (snd ?s)" using that(2) by (rule hd_in_set)
    then have "d \<le> snd (hd (snd ?s))" using ge by auto
    ultimately show ?thesis by linarith
  qed
  moreover have "v = base \<or> v \<in> found base seeds (fst ?s) \<and> dep' v \<le> Suc (dep' u)"
    if u: "u \<in> found base seeds (fst ?s)" "u \<notin> fst ` set (snd ?s)" "dep' u < m" and v: "v \<in> N u" for u v
  proof -
    have u': "u \<in> found base seeds allowed" "u \<notin> fst ` set queue"
      using u fnd by (auto simp: image_Un image_image)
    show ?thesis
    proof (cases "u = t")
      case True
      with v news base have "v = base \<or> v \<in> found base seeds allowed \<or> v \<in> set news" by (auto simp: found_def)
      with True t fnd le old show ?thesis by (auto simp: dep'_def)
    next
      case False
      with u' inv v old [OF u'(1)] u(3) have "v = base \<or> v \<in> found base seeds allowed \<and> dep v \<le> Suc (dep u)"
        by (auto simp: bfs_inv_def)
      with old u'(1) fnd show ?thesis by auto
    qed
  qed
  ultimately show ?thesis using base seeds by (auto simp: bfs_inv_def)
qed

lemma bfs_inv_end:
  assumes "bfs_inv N base seeds m (allowed, []) dep"
  shows "set allowed = insert base {t. \<exists>k \<le> m. reach N base seeds k t}"
proof -
  have "k \<le> m \<longrightarrow> t \<in> found base seeds allowed \<and> dep t \<le> k" if "reach N base seeds k t" for k t
    using that
  proof induction
    case (reach_seed s)
    with assms show ?case by (auto simp: bfs_inv_def found_def)
  next
    case (reach_hop k u v)
    with assms show ?case by (fastforce simp: bfs_inv_def)
  qed
  moreover have "reach N base seeds (dep t) t \<and> dep t \<le> m" if "t \<in> found base seeds allowed" for t
    using assms that by (auto simp: bfs_inv_def)
  moreover have "base \<in> set allowed" using assms by (simp add: bfs_inv_def)
  ultimately show ?thesis by (auto simp: found_def)
qed

lemma bfs_loop_exact:
  "bfs_inv (nbrs F g) base seeds m s dep \<Longrightarrow>
     set (bfs_loop F g m s) = insert base {t. \<exists>k \<le> m. reach (nbrs F g) base seeds k t}"
proof (induction F g m s arbitrary: dep rule: bfs_loop.induct)
  case (1 F g m s)
  obtain allowed queue where s: "s = (allowed, queue)" by (cases s)
  show ?case
  proof (cases queue)
    case Nil
    with "1.prems" s have "bfs_inv (nbrs F g) base seeds m (allowed, []) dep" by simp
    from bfs_inv_end [OF this] show ?thesis
      by (simp add: bfs_loop.simps [of F g m "(allowed, [])"] pop_front_def s Nil)
  next
    case (Cons x rest)
    obtain t d where x: "x = (t, d)" by (cases x)
    have pop: "pop_front (snd s) = Some ((t, d), rest)" by (simp add: s Cons x pop_front_def)
    show ?thesis
    proof (cases "m \<le> d")
      case True
      have "bfs_inv (nbrs F g) base seeds m (fst s, rest) dep"
        using bfs_inv_skip [OF _ True] "1.prems" by (simp add: s Cons x)
      with "1.IH"(1) [OF pop refl refl True] True show ?thesis
        by (simp only: bfs_loop.simps [of F g m s] pop option.case prod.case if_True)
    next
      case False
      obtain news where news: "fold (\<lambda>(nb, _). visit_neighbor d nb) (graph_neighbors F g t) (fst s, rest)
         = (rev news @ allowed, rest @ map (\<lambda>v. (v, Suc d)) news)" "set news = nbrs F g t - set allowed"
        using visit_neighbors [of d "graph_neighbors F g t" allowed rest] by (auto simp: s nbrs_def)
      have "bfs_inv (nbrs F g) base seeds m (rev news @ allowed, rest @ map (\<lambda>v. (v, Suc d)) news)
          (\<lambda>x. if x \<in> set news then Suc d else dep x)"
        by (rule bfs_inv_expand) (use "1.prems" s Cons x False news in auto)
      with "1.IH"(2) [OF pop refl refl False] news(1) False pop show ?thesis
        by (simp add: bfs_loop.simps [of F g m s])
    qed
  qed
qed

lemma subgraph_exact:
  "set (build_search_subgraph F cf g seeds) = insert (cf_base_mint cf)
     {t. \<exists>k \<le> cf_max_hops cf. reach (nbrs F g) (cf_base_mint cf) {s \<in> set seeds. has_token g s} k t}"
proof -
  let ?S = "filter (has_token g) seeds"
  have "bfs_inv (nbrs F g) (cf_base_mint cf) (set ?S) (cf_max_hops cf)
      (List.insert (cf_base_mint cf) (remdups ?S), map (\<lambda>seed. (seed, 0)) ?S) (\<lambda>_. 0)"
    by (auto simp: bfs_inv_def found_def image_image comp_def map_replicate_const intro: reach_seed split: if_splits)
  from bfs_loop_exact [OF this] show ?thesis
    by (simp add: build_search_subgraph_def Let_def)
qed

section \<open>Cycles\<close>

lemma neighbors_are_pools:
  assumes "graph_inv g" "(b, es) \<in> set (graph_neighbors F g a)"
  shows "set es = set (pools_between g a b)"
proof -
  from assms(2) obtain n ps where n: "hm_get (pg_adj g) a = Some n" "(b, ps) \<in> set n" "es = sort_by (by_liquidity F) ps"
    by (cases "hm_get (pg_adj g) a") (auto simp: graph_neighbors_def)
  with assms(1) have "hm_get n b = Some ps"
    by (auto simp: graph_inv_def maps_inv_def adj_ok_def neighbors_ok_def hm_wf_def)
  with n show ?thesis by (simp add: pools_between_def)
qed

lemma nbrs_pools: "graph_inv g \<Longrightarrow> b \<in> nbrs F g a \<longleftrightarrow> pools_between g a b \<noteq> []"
proof -
  assume inv: "graph_inv g"
  show ?thesis
  proof (cases "hm_get (pg_adj g) a")
    case None
    then show ?thesis by (simp add: nbrs_def graph_neighbors_def pools_between_def)
  next
    case (Some n)
    with inv have n: "neighbors_ok n" by (auto simp: graph_inv_def maps_inv_def adj_ok_def)
    have "b \<in> nbrs F g a \<longleftrightarrow> hm_get n b \<noteq> None"
      using Some by (force simp: nbrs_def graph_neighbors_def map_of_eq_None_iff image_iff)
    also have "\<dots> \<longleftrightarrow> hm_get_or [] n b \<noteq> []"
      using n by (cases "hm_get n b") (auto simp: neighbors_ok_def)
    finally show ?thesis using Some by (simp add: pools_between_def)
  qed
qed

lemma nbrs_sym: "graph_inv g \<Longrightarrow> b \<in> nbrs F g a \<longleftrightarrow> a \<in> nbrs F g b"
  by (metis graph_inv_def maps_inv_def nbrs_pools pools_between_adj fst_conv)

text \<open>A closed walk over the base that passes a seed stays within reach of the seeds.\<close>

lemma reach_along:
  assumes "\<forall>i. Suc i < length p \<longrightarrow> p ! Suc i \<in> N (p ! i)" "reach N base S k (p ! i)"
    and "i + d < length p" "\<forall>j. i < j \<and> j \<le> i + d \<longrightarrow> p ! j \<noteq> base"
  shows "reach N base S (k + d) (p ! (i + d))"
  using assms(3,4)
proof (induction d)
  case 0
  then show ?case using assms(2) by simp
next
  case (Suc d)
  have "reach N base S (k + d) (p ! (i + d))" using Suc by simp
  moreover have "p ! Suc (i + d) \<in> N (p ! (i + d))" using assms(1) Suc.prems(1) by simp
  moreover have "p ! (i + Suc d) \<noteq> base" using Suc.prems(2) by (metis add_Suc_right le_refl less_add_Suc1)
  ultimately show ?case using reach_hop by fastforce
qed

lemma reach_back:
  assumes "\<forall>i. Suc i < length p \<longrightarrow> p ! i \<in> N (p ! Suc i)" "reach N base S k (p ! i)"
    and "d \<le> i" "i < length p" "\<forall>j. i - d \<le> j \<and> j < i \<longrightarrow> p ! j \<noteq> base"
  shows "reach N base S (k + d) (p ! (i - d))"
  using assms(3,5)
proof (induction d)
  case 0
  then show ?case using assms(2) by simp
next
  case (Suc d)
  have "Suc (i - Suc d) = i - d" using Suc.prems(1) by simp
  moreover have "Suc (i - Suc d) < length p" using Suc.prems(1) assms(4) by simp
  ultimately have "p ! (i - Suc d) \<in> N (p ! (i - d))" using assms(1) by metis
  moreover have "reach N base S (k + d) (p ! (i - d))"
  proof (intro Suc.IH allI impI)
    show "d \<le> i" using Suc.prems(1) by simp
    fix j assume "i - d \<le> j \<and> j < i"
    then have "i - Suc d \<le> j \<and> j < i" by linarith
    with Suc.prems(2) show "p ! j \<noteq> base" by blast
  qed
  moreover have "p ! (i - Suc d) \<noteq> base" using Suc.prems by auto
  ultimately show ?case by (auto intro: reach_hop)
qed

lemma cycle_within_reach:
  assumes sym: "\<And>a b. b \<in> N a \<longleftrightarrow> a \<in> N b" and hops: "\<forall>i. Suc i < length p \<longrightarrow> p ! Suc i \<in> N (p ! i)"
    and ends: "p ! 0 = base" "last p = base" and len: "length p = Suc h" "h \<le> m" "2 \<le> h"
    and dist: "distinct (butlast p)" and seed: "s \<in> set p" "s \<in> S"
  shows "set p \<subseteq> insert base {t. \<exists>k \<le> m. reach N base S k t}"
proof
  fix t assume "t \<in> set p"
  then obtain i where i: "i < Suc h" "t = p ! i" by (metis in_set_conv_nth len(1))
  have inner: "p ! j \<noteq> base" if "0 < j" "j < h" for j
  proof -
    have "butlast p ! j \<noteq> butlast p ! 0" using dist that len(1) nth_eq_iff_index_eq by fastforce
    with that len(1) ends(1) show ?thesis by (simp add: nth_butlast)
  qed
  have last: "p ! h = base" using ends(2) len(1) by (metis diff_Suc_1 last_conv_nth length_0_conv nat.distinct(1))
  have rev_hops: "\<forall>i. Suc i < length p \<longrightarrow> p ! i \<in> N (p ! Suc i)" using hops sym by blast
  show "t \<in> insert base {t. \<exists>k \<le> m. reach N base S k t}"
  proof (cases "i = 0 \<or> i = h")
    case True
    with i last ends(1) show ?thesis by auto
  next
    case False
    then have i': "0 < i" "i < h" using i by auto
    from seed obtain j where j: "j < Suc h" "p ! j = s" by (metis in_set_conv_nth len(1))
    have r0: "reach N base S 0 s" using seed(2) by (rule reach_seed)
    have "\<exists>k \<le> h. reach N base S k t"
    proof (cases "j = h \<or> j < i")
      case True
      then obtain j' where j': "j' < i" "p ! j' = s"
        using j last ends(1) i' by auto
      have "reach N base S (0 + (i - j')) (p ! (j' + (i - j')))"
        by (rule reach_along [OF hops]) (use j' i' r0 len(1) inner in auto)
      with j' i i' show ?thesis by (intro exI [of _ "i - j'"]) auto
    next
      case False
      then have j': "i \<le> j" "j < h" using j by auto
      have "reach N base S (0 + (j - i)) (p ! (j - (j - i)))"
        by (rule reach_back [OF rev_hops]) (use j' i' j r0 len(1) inner in auto)
      with j' i show ?thesis by (intro exI [of _ "j - i"]) auto
    qed
    with len(2) show ?thesis by (auto intro: le_trans)
  qed
qed

text \<open>
  C16. Every cycle that the search returns can be executed on the graph: it starts and ends at the base token,
  repeats no token in between, has at least two and at most the configured number of hops, offers for each hop between one and the configured
  number of pools that the graph holds between the two tokens of the hop, and its
  first pools all had a quote when it was accepted. Cycles are few enough, sorted by estimated return, and
  a targeted search returns only cycles through a token it was asked for.
\<close>

theorem returned_cycles_executable:
  assumes "g = graph_run F ops"
    and "find_cycles F cf prov g rk = Done (cs, rk') \<and> asked = None
       \<or> find_cycles_through F cf prov g ts rk = Done (cs, rk') \<and> asked = Some ts"
  shows "length cs \<le> max 1 (cf_max_results cf)
    \<and> sorted_wrt (\<lambda>a b. sint (ac_estimated_return_bps a) \<ge> sint (ac_estimated_return_bps b)) cs
    \<and> (\<forall>c \<in> set cs. cycle_is_valid c \<and> 2 \<le> hop_count c \<and> hop_count c \<le> cf_max_hops cf
         \<and> hd (ac_path c) = cf_base_mint cf \<and> last (ac_path c) = cf_base_mint cf \<and> distinct (butlast (ac_path c))
         \<and> (\<forall>i < hop_count c. ac_pools c ! i \<noteq> [] \<and> length (ac_pools c ! i) \<le> cf_pool_alternatives cf
              \<and> set (ac_pools c ! i) \<subseteq> set (pools_between g (ac_path c ! i) (ac_path c ! Suc i)))
         \<and> (\<exists>k. all_hops_quoted (pr_config rk) (prov k) c)
         \<and> (asked = Some ts \<longrightarrow> set (ac_path c) \<inter> set ts \<noteq> {}))"
proof (cases "cs = []")
  case False
  define through where "through = (if asked = None then None else Some (filter (has_token g) ts))"
  have inv: "graph_inv g" using assms(1) graph_inv_run by simp
  have "find_cycles_inner F cf prov g through rk = Done (cs, rk')"
    using assms(2) False by (auto simp: find_cycles_def find_cycles_through_def through_def Let_def split: if_splits)
  note found = find_cycles_inner_sound(1) [OF refl this]
  have "cycle_is_valid c \<and> 2 \<le> hop_count c \<and> hop_count c \<le> cf_max_hops cf
       \<and> hd (ac_path c) = cf_base_mint cf \<and> last (ac_path c) = cf_base_mint cf \<and> distinct (butlast (ac_path c))
       \<and> (\<forall>i < hop_count c. ac_pools c ! i \<noteq> [] \<and> length (ac_pools c ! i) \<le> cf_pool_alternatives cf
            \<and> set (ac_pools c ! i) \<subseteq> set (pools_between g (ac_path c ! i) (ac_path c ! Suc i)))
       \<and> (\<exists>k. all_hops_quoted (pr_config rk) (prov k) c)
       \<and> (asked = Some ts \<longrightarrow> set (ac_path c) \<inter> set ts \<noteq> {})" if "c \<in> set cs" for c
  proof -
    obtain k where good: "good_cycle F cf g (map_option (build_search_subgraph F cf g) through) through c"
      and q: "all_hops_quoted (pr_config rk) (prov k) c"
      using found \<open>c \<in> set cs\<close> by (auto simp: results_ok_def)
    have "ac_path c \<noteq> []" using good by (auto simp: good_cycle_def cycle_is_valid_def)
    then have "last (ac_path c) = hd (ac_path c)"
      using good by (simp add: good_cycle_def cycle_is_valid_def first_of_hd last_of_def)
    moreover have "set (ac_pools c ! i) \<subseteq> set (pools_between g (ac_path c ! i) (ac_path c ! Suc i))" if "i < hop_count c" for i
      using good that neighbors_are_pools [OF inv] by (fastforce simp: good_cycle_def hop_ok_def)
    moreover have "asked = Some ts \<longrightarrow> set (ac_path c) \<inter> set ts \<noteq> {}"
      using good by (auto simp: good_cycle_def through_def)
    ultimately show ?thesis
      using good q by (auto simp: good_cycle_def hop_ok_def cycle_is_valid_def hop_count_def)
  qed
  with found show ?thesis by blast
qed simp

subsection \<open>An example graph\<close>

definition route_edge :: "pubkey \<Rightarrow> pubkey \<Rightarrow> pubkey \<Rightarrow> int pool_edge" where
  "route_edge p a b = pool_edge_new 5 p DOrca a b (10 ^ 11) 30"

definition short_routes :: "int graph_op list" where
  "short_routes = [Bulk_Upsert 0 [route_edge 11 1 2, route_edge 13 2 4, route_edge 15 4 5, route_edge 16 5 1]]"

definition both_routes :: "int graph_op list" where
  "both_routes = [Bulk_Upsert 0 [route_edge 12 1 3, route_edge 14 3 4]] @ short_routes"

definition example_rate :: "pubkey \<Rightarrow> pubkey \<Rightarrow> u64" where
  "example_rate a b =
     (if (a, b) = (4, 5) then 9900000 else if (a, b) = (5, 1) then 10500000
      else if (a, b) \<in> {(1, 2), (1, 3), (2, 4), (3, 4)} then 10100000 else 9000000)"

definition example_provider :: "nat \<Rightarrow> quote_provider" where
  "example_provider k = \<lparr> qp_is_pool_quote_ready = (\<lambda>_. True),
     qp_get_cached_probe_quote = (\<lambda>p d a b x. Some (example_rate a b)) \<rparr>"

definition example_finder :: cycle_finder_config where
  "example_finder = \<lparr> cf_beam_width = 50, cf_max_hops = 4, cf_min_profit_bps = 30, cf_max_results = 10,
     cf_base_mint = 1, cf_pool_alternatives = 3 \<rparr>"

definition example_ranker :: "int pool_ranker" where
  "example_ranker = pool_ranker_with_config (ranker_config_default fixed_ops)"

lemma short_route_found:
  "case find_cycles fixed_ops example_finder example_provider (graph_run fixed_ops short_routes) example_ranker of
     Panic \<Rightarrow> False | Done (cs, rk) \<Rightarrow> map ac_path cs = [[1, 2, 4, 5, 1]]"
  by code_simp

theorem returned_cycles_executable_witness:
  "\<exists>c rk. find_cycles fixed_ops example_finder example_provider (graph_run fixed_ops short_routes) example_ranker = Done ([c], rk)
     \<and> hop_count c \<le> 4 \<and> distinct (butlast (ac_path c))
     \<and> set (ac_pools c ! 0) \<subseteq> set (pools_between (graph_run fixed_ops short_routes) 1 2)"
proof -
  obtain cs rk where cs: "find_cycles fixed_ops example_finder example_provider (graph_run fixed_ops short_routes) example_ranker
      = Done (cs, rk)" "map ac_path cs = [[1, 2, 4, 5, 1]]"
    using short_route_found by (auto split: outcome.splits)
  then obtain c where c: "cs = [c]" "ac_path c = [1, 2, 4, 5, 1]" by auto
  note exec = returned_cycles_executable [where F = fixed_ops and cf = example_finder and prov = example_provider
      and ts = "[]" and asked = None, OF refl, of short_routes example_ranker cs rk]
  then have "2 \<le> hop_count c \<and> hop_count c \<le> cf_max_hops example_finder \<and> distinct (butlast (ac_path c))
      \<and> (\<forall>i < hop_count c. set (ac_pools c ! i) \<subseteq>
           set (pools_between (graph_run fixed_ops short_routes) (ac_path c ! i) (ac_path c ! Suc i)))"
    using cs(1) c(1) by simp
  then have hops: "2 \<le> hop_count c" "hop_count c \<le> 4" "distinct (butlast (ac_path c))"
    and pools: "\<And>i. i < hop_count c \<Longrightarrow> set (ac_pools c ! i) \<subseteq>
      set (pools_between (graph_run fixed_ops short_routes) (ac_path c ! i) (ac_path c ! Suc i))"
    by (auto simp: example_finder_def)
  have "set (ac_pools c ! 0) \<subseteq> set (pools_between (graph_run fixed_ops short_routes) 1 2)"
    using pools [of 0] hops(1) by (simp add: c(2))
  with hops have "hop_count c \<le> 4 \<and> distinct (butlast (ac_path c))
      \<and> set (ac_pools c ! 0) \<subseteq> set (pools_between (graph_run fixed_ops short_routes) 1 2)" by simp
  with cs(1) c(1) show ?thesis by blast
qed

text \<open>
  The bound on the rest of a path takes the best ratio of the current token only, to the power of the hops
  that are left. Once the ranker has seen a token whose own pools pay less than one, a second path
  over it is cut although a later hop pays more: the cycle over token 2, found before, is lost once the graph has
  a second way to token 4 over token 3.
\<close>

lemma pruning_hides_profitable_cycle:
  "case find_cycles fixed_ops example_finder example_provider (graph_run fixed_ops both_routes) example_ranker of
     Panic \<Rightarrow> False | Done (cs, rk) \<Rightarrow> map ac_path cs = [[1, 3, 4, 5, 1]]"
  by code_simp

section \<open>Completeness of the targeted search\<close>

text \<open>
  C31. The breadth-first search finds exactly the tokens within reach of a seed, and restricting the search to
  them excludes no cycle: a closed walk of allowed length from the base over a seed lies
  within the subgraph.
\<close>

theorem targeted_subgraph_exact:
  assumes "g = graph_run F ops" "allowed = build_search_subgraph F cf g seeds"
  shows "set allowed = insert (cf_base_mint cf)
      {t. \<exists>k \<le> cf_max_hops cf. reach (\<lambda>u. {v. pools_between g u v \<noteq> []}) (cf_base_mint cf) {s \<in> set seeds. has_token g s} k t}
    \<and> (good_cycle F cf g None (Some (filter (has_token g) seeds)) c \<longrightarrow>
        good_cycle F cf g (Some allowed) (Some (filter (has_token g) seeds)) c)"
proof -
  have inv: "graph_inv g" using assms(1) graph_inv_run by simp
  let ?N = "\<lambda>u. {v. pools_between g u v \<noteq> []}" and ?S = "{s \<in> set seeds. has_token g s}" and ?b = "cf_base_mint cf"
  have N: "nbrs F g = ?N" using nbrs_pools [OF inv] by (auto simp: fun_eq_iff)
  have exact: "set allowed = insert ?b {t. \<exists>k \<le> cf_max_hops cf. reach ?N ?b ?S k t}"
    using subgraph_exact [of F cf g seeds] by (simp add: assms(2) N)
  moreover have "good_cycle F cf g (Some allowed) (Some (filter (has_token g) seeds)) c"
    if good: "good_cycle F cf g None (Some (filter (has_token g) seeds)) c"
  proof -
    let ?p = "ac_path c" and ?h = "hop_count c"
    have ne: "?p \<noteq> []" using good by (auto simp: good_cycle_def cycle_is_valid_def)
    have p: "length ?p = Suc ?h" "?h \<le> cf_max_hops cf" "2 \<le> ?h" "distinct (butlast ?p)" "?p ! 0 = ?b" "last ?p = ?b"
      using good ne by (auto simp: good_cycle_def cycle_is_valid_def hop_count_def hd_conv_nth [symmetric] first_of_hd last_of_def)
    have hops: "\<forall>i. Suc i < length ?p \<longrightarrow> ?p ! Suc i \<in> ?N (?p ! i)"
    proof (intro allI impI)
      fix i assume "Suc i < length ?p"
      then have "hop_ok F g (cf_pool_alternatives cf) (?p ! i) (?p ! Suc i) (ac_pools c ! i)"
        using good p(1) by (auto simp: good_cycle_def)
      then have "?p ! Suc i \<in> nbrs F g (?p ! i)" by (force simp: hop_ok_def nbrs_def)
      then show "?p ! Suc i \<in> ?N (?p ! i)" by (simp only: N)
    qed
    obtain s where s: "s \<in> set ?p" "s \<in> ?S" using good by (auto simp: good_cycle_def)
    have "set ?p \<subseteq> insert ?b {t. \<exists>k \<le> cf_max_hops cf. reach ?N ?b ?S k t}"
      using nbrs_sym [OF inv, of _ F, unfolded N] p s
      by (intro cycle_within_reach [OF _ hops, of ?b ?h]) auto
    with good exact show ?thesis by (auto simp: good_cycle_def)
  qed
  ultimately show ?thesis by blast
qed

theorem targeted_subgraph_exact_witness:
  "4 \<in> set (build_search_subgraph fixed_ops example_finder (graph_run fixed_ops short_routes) [2])"
proof -
  let ?g = "graph_run fixed_ops short_routes"
  have "has_token ?g 2" "pools_between ?g 2 4 \<noteq> []" by code_simp+
  then have "reach (\<lambda>u. {v. pools_between ?g u v \<noteq> []}) 1 {s \<in> set [2]. has_token ?g s} (Suc 0) 4"
    by (intro reach_hop [of _ _ _ 0 2] reach_seed) auto
  then have "\<exists>k \<le> cf_max_hops example_finder. reach (\<lambda>u. {v. pools_between ?g u v \<noteq> []}) (cf_base_mint example_finder)
      {s \<in> set [2]. has_token ?g s} k 4"
    by (intro exI [of _ "Suc 0"]) (simp add: example_finder_def)
  then show ?thesis
    using targeted_subgraph_exact [where F = fixed_ops and ops = short_routes and cf = example_finder and seeds = "[2]", OF refl refl]
    by blast
qed

section \<open>The search returns\<close>



end
