(* ===== verification/Track_Commands.thy ===== *)
theory Track_Commands
  imports Iron_Prelude
begin

text \<open>
  The commands of the subscription worker (\<open>market_data/track/worker_commands.rs\<close>), the messages they carry
  (\<open>nats/momentum_active_pools.rs\<close>, \<open>nats/arb_track_requests.rs\<close>) and the coalescing of message bursts
  (\<open>market_data/track/coalesce.rs\<close>). Both messages are coalesced by the same steps over two maps; the
  locale \<open>coalescer\<close> shows once that the merged message has the effect of the burst.
\<close>

section \<open>Messages\<close>

datatype momentum_active_pin_reason = PinTracker | PinPosition

record momentum_active_pool_entry =
  mae_mint :: string
  mae_pool :: string
  mae_pin_reason :: momentum_active_pin_reason

record momentum_removed_pool_entry =
  mre_mint :: string
  mre_pool :: string
  mre_reason :: string

record momentum_active_pools_update =
  mu_version :: u32
  mu_ts_unix_ms :: u64
  mu_active :: "momentum_active_pool_entry list"
  mu_removed :: "momentum_removed_pool_entry list"
  mu_full_active_snapshot :: bool

datatype arb_track_readiness = ReadyRejected | Warmable | QuoteReady | Executable

datatype arb_track_active_reason = Baseline | MultiDex | TradeSignal

datatype arb_track_removed_reason = Cooldown | Stale | Budget

record arb_track_active_entry =
  aae_pool :: string
  aae_reason :: arb_track_active_reason
  aae_readiness :: arb_track_readiness

record arb_track_removed_entry =
  are_pool :: string
  are_reason :: arb_track_removed_reason

record arb_track_requests_update =
  au_version :: u32
  au_ts_unix_ms :: u64
  au_active :: "arb_track_active_entry list"
  au_removed :: "arb_track_removed_entry list"
  au_reconcile :: bool

section \<open>Coalescing\<close>

fun merge_momentum_active_pin_reason :: "momentum_active_pin_reason \<Rightarrow> momentum_active_pin_reason \<Rightarrow> momentum_active_pin_reason" where
  "merge_momentum_active_pin_reason existing incoming =
     (if existing = PinPosition \<or> incoming = PinPosition then PinPosition else PinTracker)"

text \<open>The loop bodies over the removed and the active entries of an update, on the pair of maps.\<close>

definition note_removed :: "('r \<Rightarrow> 'k) \<Rightarrow> 'r \<Rightarrow> ('k, 'a) hashmap \<times> ('k, 'r) hashmap \<Rightarrow> ('k, 'a) hashmap \<times> ('k, 'r) hashmap" where
  "note_removed rkey r = (\<lambda>(active_map, removed_map). (hm_del (rkey r) active_map, hm_put (rkey r) r removed_map))"

definition note_active :: "('a \<Rightarrow> 'k) \<Rightarrow> ('a \<Rightarrow> 'a \<Rightarrow> 'a) \<Rightarrow> 'a \<Rightarrow> ('k, 'a) hashmap \<times> ('k, 'r) hashmap \<Rightarrow> ('k, 'a) hashmap \<times> ('k, 'r) hashmap" where
  "note_active akey combine a = (\<lambda>(active_map, removed_map).
     (hm_put (akey a) (case hm_get active_map (akey a) of None \<Rightarrow> a | Some existing \<Rightarrow> combine existing a) active_map,
      hm_del (akey a) removed_map))"

definition coalesce_update ::
    "('a \<Rightarrow> 'k) \<Rightarrow> ('r \<Rightarrow> 'k) \<Rightarrow> ('a \<Rightarrow> 'a \<Rightarrow> 'a) \<Rightarrow> bool \<Rightarrow> 'a list \<Rightarrow> 'r list
     \<Rightarrow> ('k, 'a) hashmap \<times> ('k, 'r) hashmap \<Rightarrow> ('k, 'a) hashmap \<times> ('k, 'r) hashmap" where
  "coalesce_update akey rkey combine full active removed = (\<lambda>(active_map, removed_map).
     let target = akey ` set active;
         (active_map, removed_map) =
           (if full then ([], fold hm_del (filter (\<lambda>key. key \<notin> target) (map fst active_map)) removed_map)
            else (active_map, removed_map))
     in fold (note_active akey combine) active (fold (note_removed rkey) removed (active_map, removed_map)))"

definition drop_active_keys :: "('k, 'a) hashmap \<times> ('k, 'r) hashmap \<Rightarrow> ('k, 'a) hashmap \<times> ('k, 'r) hashmap" where
  \<comment> \<open>the last loop: no key stays in both maps\<close>
  "drop_active_keys = (\<lambda>(active_map, removed_map). (active_map, fold hm_del (map fst active_map) removed_map))"

definition momentum_key :: "momentum_active_pool_entry \<Rightarrow> string \<times> string" where
  "momentum_key a = (mae_mint a, mae_pool a)"

definition momentum_removed_key :: "momentum_removed_pool_entry \<Rightarrow> string \<times> string" where
  "momentum_removed_key r = (mre_mint r, mre_pool r)"

definition keep_position :: "momentum_active_pool_entry \<Rightarrow> momentum_active_pool_entry \<Rightarrow> momentum_active_pool_entry" where
  "keep_position existing a = a\<lparr> mae_pin_reason := merge_momentum_active_pin_reason (mae_pin_reason existing) (mae_pin_reason a) \<rparr>"

definition merge_momentum_active_pools_updates :: "momentum_active_pools_update list \<Rightarrow> momentum_active_pools_update option" where
  "merge_momentum_active_pools_updates updates =
     (if updates = [] then None
      else let (active_map, removed_map) = drop_active_keys
             (fold (\<lambda>u. coalesce_update momentum_key momentum_removed_key keep_position (mu_full_active_snapshot u)
                          (mu_active u) (mu_removed u)) updates ([], []))
        in Some \<lparr> mu_version = fold max (map mu_version updates) 0, mu_ts_unix_ms = fold max (map mu_ts_unix_ms updates) 0,
                  mu_active = map snd active_map, mu_removed = map snd removed_map,
                  mu_full_active_snapshot = list_ex mu_full_active_snapshot updates \<rparr>)"

definition merge_arb_track_requests_updates :: "arb_track_requests_update list \<Rightarrow> arb_track_requests_update option" where
  "merge_arb_track_requests_updates updates =
     (if updates = [] then None
      else let (active_map, removed_map) = drop_active_keys
             (fold (\<lambda>u. coalesce_update aae_pool are_pool (\<lambda>_ a. a) (au_reconcile u) (au_active u) (au_removed u))
                updates ([], []))
        in Some \<lparr> au_version = fold max (map au_version updates) 0, au_ts_unix_ms = fold max (map au_ts_unix_ms updates) 0,
                  au_active = map snd active_map, au_removed = map snd removed_map,
                  au_reconcile = list_ex au_reconcile updates \<rparr>)"

section \<open>The effect of a burst\<close>

text \<open>
  What a message does to the set of pools that a consumer holds: a full message first drops what it does
  not list, then the removed entries leave and the active ones enter (the order of
  \<open>apply_momentum_active_pools_on_track_worker\<close> and \<open>apply_arb_track_requests_on_track_worker\<close>).
\<close>

definition hold_effect :: "('a \<Rightarrow> 'k) \<Rightarrow> ('r \<Rightarrow> 'k) \<Rightarrow> bool \<Rightarrow> 'a list \<Rightarrow> 'r list \<Rightarrow> ('k \<rightharpoonup> 'a) \<Rightarrow> 'k \<rightharpoonup> 'a" where
  "hold_effect akey rkey full active removed H =
     (let H = (if full then H |` (akey ` set active) else H); H = H |` (- rkey ` set removed)
      in fold (\<lambda>a H. H(akey a \<mapsto> a)) active H)"

locale coalescer =
  fixes akey :: "'a \<Rightarrow> 'k" and rkey :: "'r \<Rightarrow> 'k" and combine :: "'a \<Rightarrow> 'a \<Rightarrow> 'a" and sim :: "'a \<Rightarrow> 'a \<Rightarrow> bool"
  assumes sim_refl: "sim a a" and sim_combine: "sim (combine e a) a" and key_combine: "akey (combine e a) = akey a"
begin

text \<open>The maps represent the effect of the burst so far, key by key.\<close>

definition entry_ok :: "bool \<Rightarrow> 'a option \<Rightarrow> 'r option \<Rightarrow> 'a option \<Rightarrow> 'a option \<Rightarrow> bool" where
  "entry_ok full x y h h' \<longleftrightarrow>
     (case x of Some a \<Rightarrow> y = None \<and> (\<exists>b. h' = Some b \<and> sim a b) | None \<Rightarrow> h' = (if full \<or> y \<noteq> None then None else h))"

definition keyed :: "('k, 'a) hashmap \<times> ('k, 'r) hashmap \<Rightarrow> bool" where
  "keyed s \<longleftrightarrow> hm_wf (fst s) \<and> hm_wf (snd s)
     \<and> (\<forall>k a. hm_get (fst s) k = Some a \<longrightarrow> akey a = k) \<and> (\<forall>k r. hm_get (snd s) k = Some r \<longrightarrow> rkey r = k)"

definition represents :: "bool \<Rightarrow> ('k, 'a) hashmap \<times> ('k, 'r) hashmap \<Rightarrow> ('k \<rightharpoonup> 'a) \<Rightarrow> ('k \<rightharpoonup> 'a) \<Rightarrow> bool" where
  "represents full s H H' \<longleftrightarrow> keyed s \<and> (\<forall>k. entry_ok full (hm_get (fst s) k) (hm_get (snd s) k) (H k) (H' k))"

lemma keyed_set:
  "keyed (m, []) \<longleftrightarrow> hm_wf m \<and> (\<forall>x \<in> set m. akey (snd x) = fst x)"
  unfolding keyed_def fst_conv snd_conv hm_wf_def by (force simp: map_of_eq_Some_iff)

lemma keyed_removed: "keyed s \<Longrightarrow> keyed (note_removed rkey r s)"
  by (auto simp: keyed_def note_removed_def split_def hm.invar_put hm.invar_del update_conv' delete_conv' split: if_splits)

lemma keyed_active: "keyed s \<Longrightarrow> keyed (note_active akey combine a s)"
  by (auto simp: keyed_def note_active_def split_def hm.invar_put hm.invar_del update_conv' delete_conv' key_combine
      split: if_splits option.splits)

lemma represents_removed:
  assumes "represents full s H H'"
  shows "represents full (note_removed rkey r s) H (H'(rkey r := None))"
proof -
  have "entry_ok full (hm_get (fst (note_removed rkey r s)) k) (hm_get (snd (note_removed rkey r s)) k) (H k) ((H'(rkey r := None)) k)" for k
    using assms by (cases "k = rkey r")
      (simp_all add: note_removed_def split_def update_conv' delete_conv' represents_def, simp add: entry_ok_def)
  with assms keyed_removed show ?thesis by (simp add: represents_def)
qed

lemma represents_active:
  assumes "represents full s H H'"
  shows "represents full (note_active akey combine a s) H (H'(akey a \<mapsto> a))"
proof -
  have "entry_ok full (hm_get (fst (note_active akey combine a s)) k) (hm_get (snd (note_active akey combine a s)) k)
      (H k) ((H'(akey a \<mapsto> a)) k)" for k
    using assms by (cases "k = akey a")
      (simp_all add: note_active_def split_def update_conv' delete_conv' represents_def,
       simp add: entry_ok_def sim_refl sim_combine split: option.split)
  with assms keyed_active show ?thesis by (simp add: represents_def)
qed

lemma represents_removed_list:
  "represents full s H H' \<Longrightarrow> represents full (fold (note_removed rkey) rs s) H (H' |` (- rkey ` set rs))"
proof (induction rs arbitrary: s H')
  case (Cons r rs)
  have "(H'(rkey r := None)) |` (- rkey ` set rs) = H' |` (- rkey ` set (r # rs))"
    by (auto simp: restrict_map_def fun_eq_iff)
  with Cons.IH [OF represents_removed [OF Cons.prems, of r]] show ?case
    unfolding fold_simps by metis
qed (simp add: restrict_map_def)

lemma represents_active_list:
  "represents full s H H' \<Longrightarrow>
     represents full (fold (note_active akey combine) as s) H (fold (\<lambda>a H. H(akey a \<mapsto> a)) as H')"
  by (induction as arbitrary: s H') (simp_all add: represents_active)

lemma fold_active_apply:
  "fold (\<lambda>a H. H(akey a \<mapsto> a)) as H k = (if k \<in> akey ` set as then fold (\<lambda>a H. H(akey a \<mapsto> a)) as Map.empty k else H k)"
proof (induction as arbitrary: H rule: rev_induct)
  case (snoc a as)
  then show ?case by (cases "k = akey a") (simp_all add: snoc [of H])
qed simp

lemma full_forgets:
  "hold_effect akey rkey True active removed H = fold (\<lambda>a H. H(akey a \<mapsto> a)) active Map.empty"
proof
  fix k
  let ?H = "(H |` (akey ` set active)) |` (- rkey ` set removed)"
  have "fold (\<lambda>a H. H(akey a \<mapsto> a)) active ?H k = fold (\<lambda>a H. H(akey a \<mapsto> a)) active Map.empty k"
  proof (cases "k \<in> akey ` set active")
    case True
    then show ?thesis using fold_active_apply [of active ?H k] by presburger
  next
    case False
    then have "?H k = None" by (simp add: restrict_map_def)
    with False show ?thesis
      using fold_active_apply [of active ?H k] fold_active_apply [of active Map.empty k] by presburger
  qed
  then show "hold_effect akey rkey True active removed H k = fold (\<lambda>a H. H(akey a \<mapsto> a)) active Map.empty k"
    by (simp only: hold_effect_def Let_def if_True)
qed

lemma fold_del_keyed:
  "keyed (am, rm) \<Longrightarrow> keyed (am, fold hm_del ks rm)
     \<and> (\<forall>k. hm_get (fold hm_del ks rm) k = (if k \<in> set ks then None else hm_get rm k))"
proof (induction ks arbitrary: rm)
  case (Cons j ks)
  have "keyed (am, hm_del j rm)"
    using Cons.prems by (auto simp: keyed_def hm.invar_del delete_conv' split: if_splits)
  from Cons.IH [OF this] show ?case by (simp add: delete_conv')
qed simp

lemma represents_update:
  assumes "represents full s H H'"
  shows "represents (full \<or> f) (coalesce_update akey rkey combine f active removed s) H
    (hold_effect akey rkey f active removed H')"
proof (cases f)
  case False
  then show ?thesis
    using represents_active_list [OF represents_removed_list [OF assms, of removed], of active]
    by (simp add: coalesce_update_def hold_effect_def split_def Let_def)
next
  case True
  let ?rm = "fold hm_del (filter (\<lambda>key. key \<notin> akey ` set active) (map fst (fst s))) (snd s)"
  have "keyed ([], ?rm)"
    using assms fold_del_keyed [of "fst s" "snd s" "filter (\<lambda>key. key \<notin> akey ` set active) (map fst (fst s))"]
    by (simp add: represents_def keyed_def)
  then have "represents True ([], ?rm) H Map.empty" by (simp add: represents_def entry_ok_def)
  from represents_active_list [OF represents_removed_list [OF this, of removed], of active]
  have "represents True (coalesce_update akey rkey combine f active removed s) H
      (fold (\<lambda>a H. H(akey a \<mapsto> a)) active Map.empty)"
    using True by (simp add: coalesce_update_def split_def Let_def)
  with True show ?thesis by (simp add: full_forgets)
qed

lemma represents_burst:
  "represents full s H H' \<Longrightarrow>
     represents (full \<or> list_ex full_of us) (fold (\<lambda>u. coalesce_update akey rkey combine (full_of u) (active_of u) (removed_of u)) us s) H
       (fold (\<lambda>u. hold_effect akey rkey (full_of u) (active_of u) (removed_of u)) us H')"
proof (induction us arbitrary: s H' full)
  case (Cons u us)
  from Cons.IH [OF represents_update [OF Cons.prems, of "full_of u" "active_of u" "removed_of u"]]
  show ?case by (simp add: disj_assoc)
qed simp

lemma merged_effect:
  assumes "represents full s H H'" "drop_active_keys s = (am, rm)"
  shows "rel_option sim (hold_effect akey rkey full (map snd am) (map snd rm) H k) (H' k)"
proof -
  have am: "am = fst s" and keyed: "keyed (am, rm)"
    and rm: "\<And>k. hm_get rm k = (if k \<in> fst ` set am then None else hm_get (snd s) k)"
    using assms fold_del_keyed [of "fst s" "snd s" "map fst (fst s)"]
    by (simp_all add: drop_active_keys_def split_def represents_def) (metis prod.collapse)+
  have ok: "entry_ok full (hm_get am k) (hm_get (snd s) k) (H k) (H' k)" using assms(1) am by (simp add: represents_def)
  have keys: "akey ` snd ` set am = dom (hm_get am)" "rkey ` snd ` set rm = dom (hm_get rm)"
    using keyed by (force simp: keyed_def hm_wf_def dom_def image_iff)+
  have act: "fold (\<lambda>a H. H(akey a \<mapsto> a)) (map snd m) Map.empty = hm_get m" if "keyed (m, [])" for m
    using that
  proof (induction m rule: rev_induct)
    case (snoc x m)
    obtain k a where x: "x = (k, a)" by (cases x)
    have wf: "hm_wf (m @ [(k, a)])" using snoc.prems by (simp add: keyed_def x)
    then have "k \<notin> fst ` set m" by (auto simp: hm_wf_def)
    then have "hm_get (m @ [(k, a)]) = (hm_get m)(k \<mapsto> a)"
      using map_of_eq_None_iff [of m k] by (auto simp: fun_eq_iff map_add_def split: option.splits)
    moreover have "akey a = k" "keyed (m, [])"
      using snoc.prems wf \<open>k \<notin> fst ` set m\<close> by (auto simp: keyed_set x hm_wf_def)
    ultimately show ?case
      using snoc.IH by (simp only: x map_append list.map fold_append comp_apply fold_simps snd_conv)
  qed simp
  have "fold (\<lambda>a H. H(akey a \<mapsto> a)) (map snd am) Map.empty = hm_get am" using act keyed by (simp add: keyed_def)
  then have "hold_effect akey rkey full (map snd am) (map snd rm) H k =
      (case hm_get am k of Some a \<Rightarrow> Some a | None \<Rightarrow> if full \<or> hm_get rm k \<noteq> None then None else H k)"
    unfolding hold_effect_def Let_def
    by (subst fold_active_apply) (auto simp: keys restrict_map_def dom_def split: option.splits)
  moreover have "hm_get rm k = hm_get (snd s) k" if "hm_get am k = None"
    using rm that by (auto simp: map_of_eq_None_iff)
  ultimately show ?thesis
    using ok by (auto simp: entry_ok_def intro: option.rel_refl [OF sim_refl] split: option.splits)
qed

lemma burst_effect:
  assumes "drop_active_keys (fold (\<lambda>u. coalesce_update akey rkey combine (full_of u) (active_of u) (removed_of u)) us ([], []))
      = (am, rm)"
  shows "rel_option sim (hold_effect akey rkey (list_ex full_of us) (map snd am) (map snd rm) H k)
    (fold (\<lambda>u. hold_effect akey rkey (full_of u) (active_of u) (removed_of u)) us H k)"
proof -
  have "represents False ([], []) H H" by (simp add: represents_def keyed_def entry_ok_def)
  from represents_burst [OF this, of full_of us active_of removed_of] show ?thesis
    using merged_effect [OF _ assms] by simp
qed

end

definition same_pool_stronger :: "momentum_active_pool_entry \<Rightarrow> momentum_active_pool_entry \<Rightarrow> bool" where
  \<comment> \<open>the same pool, pinned at least as strongly\<close>
  "same_pool_stronger a b \<longleftrightarrow> momentum_key a = momentum_key b \<and> (mae_pin_reason b = PinPosition \<longrightarrow> mae_pin_reason a = PinPosition)"

interpretation momentum: coalescer momentum_key momentum_removed_key keep_position same_pool_stronger
  by unfold_locales (auto simp: same_pool_stronger_def momentum_key_def keep_position_def)

interpretation arb: coalescer aae_pool are_pool "\<lambda>_ a. a" "(=)"
  by unfold_locales auto

section \<open>Commands\<close>

datatype track_pin_reason = TrackWallet | TrackMomentumActive | TrackArbMultiDex

text \<open>
  A restored snapshot and the channel that a flush answers on are opaque to the protocol, so they are
  numbers that name them.
\<close>

datatype track_worker_command =
    ApplyMomentumActivePools momentum_active_pools_update
  | ApplyArbTrackRequests arb_track_requests_update
  | ApplyWalletPin pubkey
  | WithdrawWalletPin pubkey
  | TrackMint pubkey "track_pin_reason option"
  | TrackMints "(pubkey \<times> track_pin_reason option) list"
  | ScheduleGeyserSyncAfterConfigChange
  | ScheduleGeyserPush
  | ScheduleGeyserPushDebounced
  | RestoreExplicitSnapshot nat
  | ContinueGeyserEvict
  | FlushExplicitSetSnapshot nat
  | ShedTrackerUnderExecHotPressure nat
  | ShedMomentumUnderExecHotPressure nat
  | ShedArbUnderExecHotPressure nat
  | RetryDeferredHotPoolReserves

datatype track_command_stream = StreamMomentum | StreamArb | StreamWallet | StreamTracker | StreamControl

record immutable_track_command =
  tc_stream :: track_command_stream
  tc_revision :: u64
  tc_payload :: track_worker_command

definition single_mint_stream :: "track_pin_reason option \<Rightarrow> track_command_stream" where
  \<comment> \<open>\<open>stream_for_command(TrackMint { pin, .. })\<close>\<close>
  "single_mint_stream pin =
     (case pin of Some TrackWallet \<Rightarrow> StreamWallet | None \<Rightarrow> StreamTracker | Some _ \<Rightarrow> StreamControl)"

fun track_mints_batch_stream :: "(pubkey \<times> track_pin_reason option) list \<Rightarrow> track_command_stream" where
  "track_mints_batch_stream [] = StreamControl"
| "track_mints_batch_stream [(mint, pin)] = single_mint_stream pin"
| "track_mints_batch_stream _ = StreamControl"

fun stream_for_command :: "track_worker_command \<Rightarrow> track_command_stream" where
  "stream_for_command (ApplyMomentumActivePools _) = StreamMomentum"
| "stream_for_command (ApplyArbTrackRequests _) = StreamArb"
| "stream_for_command (ApplyWalletPin _) = StreamWallet"
| "stream_for_command (WithdrawWalletPin _) = StreamWallet"
| "stream_for_command (TrackMint _ pin) = single_mint_stream pin"
| "stream_for_command (TrackMints entries) = track_mints_batch_stream entries"
| "stream_for_command _ = StreamControl"

fun track_mint_pin_strength :: "track_pin_reason option \<Rightarrow> nat" where
  "track_mint_pin_strength (Some TrackWallet) = 3"
| "track_mint_pin_strength (Some TrackMomentumActive) = 2"
| "track_mint_pin_strength (Some TrackArbMultiDex) = 1"
| "track_mint_pin_strength None = 0"

definition merge_track_mint_pin :: "track_pin_reason option \<Rightarrow> track_pin_reason option \<Rightarrow> track_pin_reason option" where
  "merge_track_mint_pin existing incoming =
     (if track_mint_pin_strength incoming \<ge> track_mint_pin_strength existing then incoming else existing)"

datatype sync_intent_strength = Debounced | Push | ConfigChange

primrec strength_rank :: "sync_intent_strength \<Rightarrow> nat" where
  \<comment> \<open>the discriminants, which the derived order compares\<close>
  "strength_rank Debounced = 0"
| "strength_rank Push = 1"
| "strength_rank ConfigChange = 2"

fun sync_intent_strength_of :: "track_worker_command \<Rightarrow> sync_intent_strength option" where
  "sync_intent_strength_of ScheduleGeyserPushDebounced = Some Debounced"
| "sync_intent_strength_of ScheduleGeyserPush = Some Push"
| "sync_intent_strength_of ScheduleGeyserSyncAfterConfigChange = Some ConfigChange"
| "sync_intent_strength_of _ = None"

definition is_sync_intent :: "track_worker_command \<Rightarrow> bool" where
  "is_sync_intent cmd \<longleftrightarrow> sync_intent_strength_of cmd \<noteq> None"

fun is_continue_evict :: "track_worker_command \<Rightarrow> bool" where
  "is_continue_evict ContinueGeyserEvict = True"
| "is_continue_evict _ = False"

definition stronger_of :: "sync_intent_strength \<Rightarrow> sync_intent_strength \<Rightarrow> sync_intent_strength" where
  \<comment> \<open>\<open>strength.max(s)\<close>\<close>
  "stronger_of a b = (if strength_rank a \<le> strength_rank b then b else a)"

primrec payload_of_strength :: "sync_intent_strength \<Rightarrow> track_worker_command" where
  "payload_of_strength ConfigChange = ScheduleGeyserSyncAfterConfigChange"
| "payload_of_strength Push = ScheduleGeyserPush"
| "payload_of_strength Debounced = ScheduleGeyserPushDebounced"

definition merge_sync_intent_payloads :: "track_worker_command list \<Rightarrow> track_worker_command" where
  "merge_sync_intent_payloads commands =
     payload_of_strength (fold (\<lambda>cmd strength. case sync_intent_strength_of cmd of
        None \<Rightarrow> strength | Some s \<Rightarrow> stronger_of strength s) commands Debounced)"

fun demand_mint_for_command :: "track_worker_command \<Rightarrow> pubkey option" where
  "demand_mint_for_command (ApplyWalletPin mint) = Some mint"
| "demand_mint_for_command (WithdrawWalletPin mint) = Some mint"
| "demand_mint_for_command (TrackMint mint pin) =
     (case pin of None \<Rightarrow> Some mint | Some TrackWallet \<Rightarrow> Some mint | Some _ \<Rightarrow> None)"
| "demand_mint_for_command _ = None"

definition stream_uses_per_mint_revision :: "track_command_stream \<Rightarrow> bool" where
  "stream_uses_per_mint_revision stream \<longleftrightarrow> stream = StreamWallet \<or> stream = StreamTracker"

record revision_assigner =
  ra_next :: "track_command_stream \<Rightarrow> u64" \<comment> \<open>an array indexed by the stream\<close>
  ra_wallet_mint_next :: "(pubkey, u64) hashmap"
  ra_tracker_mint_next :: "(pubkey, u64) hashmap"

definition revision_assigner_default :: revision_assigner where
  "revision_assigner_default = \<lparr> ra_next = (\<lambda>_. 0), ra_wallet_mint_next = [], ra_tracker_mint_next = [] \<rparr>"

definition bump :: "pubkey \<Rightarrow> (pubkey, u64) hashmap \<Rightarrow> u64" where
  \<comment> \<open>\<open>entry(mint).and_modify(|r| *r = r.saturating_add(1)).or_insert(1)\<close>\<close>
  "bump mint m = (case hm_get m mint of None \<Rightarrow> 1 | Some r \<Rightarrow> saturating_add r 1)"

definition next_revision ::
    "track_command_stream \<Rightarrow> pubkey option \<Rightarrow> revision_assigner \<Rightarrow> (u64 \<times> revision_assigner) outcome" where
  \<comment> \<open>\<open>demand_mint.expect(..)\<close> panics without a mint\<close>
  "next_revision stream demand_mint ra =
     (if stream = StreamWallet then
        (case demand_mint of None \<Rightarrow> Panic | Some mint \<Rightarrow>
           let rev = bump mint (ra_wallet_mint_next ra)
           in Done (rev, ra\<lparr> ra_wallet_mint_next := hm_put mint rev (ra_wallet_mint_next ra) \<rparr>))
      else if stream = StreamTracker then
        (case demand_mint of None \<Rightarrow> Panic | Some mint \<Rightarrow>
           let rev = bump mint (ra_tracker_mint_next ra)
           in Done (rev, ra\<lparr> ra_tracker_mint_next := hm_put mint rev (ra_tracker_mint_next ra) \<rparr>))
      else let rev = saturating_add (ra_next ra stream) 1
           in Done (rev, ra\<lparr> ra_next := (ra_next ra)(stream := rev) \<rparr>))"

definition last_issued_revision_for_mint :: "revision_assigner \<Rightarrow> track_command_stream \<Rightarrow> pubkey \<Rightarrow> u64" where
  "last_issued_revision_for_mint ra stream mint =
     (if stream = StreamWallet then hm_get_or 0 (ra_wallet_mint_next ra) mint
      else if stream = StreamTracker then hm_get_or 0 (ra_tracker_mint_next ra) mint else 0)"

lemma merge_track_mint_pin_strongest:
  "track_mint_pin_strength (merge_track_mint_pin a b) = max (track_mint_pin_strength a) (track_mint_pin_strength b)"
  by (simp add: merge_track_mint_pin_def)

lemma sync_intent_payload [simp]: "sync_intent_strength_of (payload_of_strength s) = Some s"
  by (cases s) simp_all

lemma merged_sync_is_sync [simp]: "is_sync_intent (merge_sync_intent_payloads cs)"
  by (simp add: is_sync_intent_def merge_sync_intent_payloads_def)

lemma merged_sync_not_continue [simp]: "merge_sync_intent_payloads cs \<noteq> ContinueGeyserEvict"
proof
  assume "merge_sync_intent_payloads cs = ContinueGeyserEvict"
  then show False using merged_sync_is_sync [of cs] by (simp add: is_sync_intent_def)
qed

lemma sync_stream: "is_sync_intent c \<Longrightarrow> stream_for_command c = StreamControl"
  by (cases c) (simp_all add: is_sync_intent_def)

lemma continue_evict_iff [simp]: "is_continue_evict c \<longleftrightarrow> c = ContinueGeyserEvict"
  by (cases c) simp_all

end
