(* ===== verification/Track_Protocol.thy ===== *)
theory Track_Protocol
  imports Track_Commands
begin

text \<open>
  The bounded protocol between the producers of subscription commands and the worker thread:
  \<open>market_data/track/pending.rs\<close> (revisions, pending store, deduplication) and the enqueue and apply paths of
  \<open>market_data/track/worker.rs\<close>. A panic of an \<open>expect\<close> is the outcome \<open>Panic\<close>. The methods of the store
  run under one mutex; \<open>track_step\<close> interleaves their calls by any number of senders with
  the worker. What a handler does is the argument \<open>process\<close>.
\<close>

section \<open>The store\<close>

record protocol_store =
  ps_pending :: "immutable_track_command list"
  ps_pending_cap :: nat
  ps_inflight :: u64
  ps_inflight_cap :: nat
  ps_revision :: revision_assigner
  ps_last_applied :: "track_command_stream \<Rightarrow> u64"
  ps_last_applied_wallet_mint :: "(pubkey, u64) hashmap"
  ps_last_applied_tracker_mint :: "(pubkey, u64) hashmap"
  ps_inflight_sync_intent :: u32
  ps_inflight_sync_strength_counts :: "sync_intent_strength \<Rightarrow> u32"
  ps_inflight_continue_evict :: u32
  ps_evicted :: "immutable_track_command list" \<comment> \<open>what the eviction counter of the metrics counts\<close>

definition protocol_store_new :: "nat \<Rightarrow> nat \<Rightarrow> protocol_store" where
  "protocol_store_new pending_cap inflight_cap =
     \<lparr> ps_pending = [], ps_pending_cap = pending_cap, ps_inflight = 0, ps_inflight_cap = inflight_cap,
       ps_revision = revision_assigner_default, ps_last_applied = (\<lambda>_. 0), ps_last_applied_wallet_mint = [],
       ps_last_applied_tracker_mint = [], ps_inflight_sync_intent = 0,
       ps_inflight_sync_strength_counts = (\<lambda>_. 0), ps_inflight_continue_evict = 0, ps_evicted = [] \<rparr>"

definition protocol_store_default_caps :: protocol_store where
  "protocol_store_default_caps = protocol_store_new 512 1024"

definition command_new :: "track_command_stream \<Rightarrow> u64 \<Rightarrow> track_worker_command \<Rightarrow> immutable_track_command" where
  "command_new stream revision payload = \<lparr> tc_stream = stream, tc_revision = revision, tc_payload = payload \<rparr>"

definition wrap_command :: "track_worker_command \<Rightarrow> protocol_store \<Rightarrow> (immutable_track_command \<times> protocol_store) outcome" where
  "wrap_command payload s =
     (let stream = stream_for_command payload in
      bind_outcome (next_revision stream (demand_mint_for_command payload) (ps_revision s)) (\<lambda>(revision, ra).
        Done (command_new stream revision payload, s\<lparr> ps_revision := ra \<rparr>)))"

definition last_applied_for_cmd :: "protocol_store \<Rightarrow> immutable_track_command \<Rightarrow> u64 outcome" where
  "last_applied_for_cmd s cmd =
     (if stream_uses_per_mint_revision (tc_stream cmd) then
        (case demand_mint_for_command (tc_payload cmd) of
           None \<Rightarrow> Panic
         | Some mint \<Rightarrow>
             Done (hm_get_or 0 (if tc_stream cmd = StreamWallet then ps_last_applied_wallet_mint s
                                else ps_last_applied_tracker_mint s) mint))
      else Done (ps_last_applied s (tc_stream cmd)))"

definition is_applicable :: "protocol_store \<Rightarrow> immutable_track_command \<Rightarrow> bool outcome" where
  "is_applicable s cmd = bind_outcome (last_applied_for_cmd s cmd) (\<lambda>applied. Done (applied < tc_revision cmd))"

definition raise_entry :: "pubkey \<Rightarrow> u64 \<Rightarrow> (pubkey, u64) hashmap \<Rightarrow> (pubkey, u64) hashmap" where
  \<comment> \<open>\<open>let entry = map.entry(mint).or_insert(0); if revision > *entry { *entry = revision }\<close>\<close>
  "raise_entry mint revision m =
     (let entry = hm_get_or 0 m mint in hm_put mint (if entry < revision then revision else entry) m)"

definition mark_applied :: "immutable_track_command \<Rightarrow> protocol_store \<Rightarrow> protocol_store outcome" where
  "mark_applied cmd s =
     (if stream_uses_per_mint_revision (tc_stream cmd) then
        (case demand_mint_for_command (tc_payload cmd) of
           None \<Rightarrow> Panic
         | Some mint \<Rightarrow>
             Done (if tc_stream cmd = StreamWallet
                   then s\<lparr> ps_last_applied_wallet_mint := raise_entry mint (tc_revision cmd) (ps_last_applied_wallet_mint s) \<rparr>
                   else s\<lparr> ps_last_applied_tracker_mint := raise_entry mint (tc_revision cmd) (ps_last_applied_tracker_mint s) \<rparr>))
      else Done (if ps_last_applied s (tc_stream cmd) < tc_revision cmd
                 then s\<lparr> ps_last_applied := (ps_last_applied s)(tc_stream cmd := tc_revision cmd) \<rparr> else s))"

definition supersede_tracker_demand_for_mint :: "pubkey \<Rightarrow> protocol_store \<Rightarrow> protocol_store" where
  "supersede_tracker_demand_for_mint mint s =
     (let watermark = hm_get_or 0 (ps_last_applied_tracker_mint s) mint;
          watermark = max watermark (last_issued_revision_for_mint (ps_revision s) StreamTracker mint);
          watermark = fold (\<lambda>cmd w. if tc_stream cmd = StreamTracker \<and> demand_mint_for_command (tc_payload cmd) = Some mint
                                    then max w (tc_revision cmd) else w) (ps_pending s) watermark
      in if watermark > 0
         then s\<lparr> ps_last_applied_tracker_mint := raise_entry mint watermark (ps_last_applied_tracker_mint s) \<rparr> else s)"

definition mark_applied_wallet_demand :: "immutable_track_command \<Rightarrow> protocol_store \<Rightarrow> protocol_store outcome" where
  "mark_applied_wallet_demand cmd s =
     bind_outcome (mark_applied cmd s) (\<lambda>s.
       Done (case demand_mint_for_command (tc_payload cmd) of
               None \<Rightarrow> s | Some mint \<Rightarrow> supersede_tracker_demand_for_mint mint s))"

definition begin_inflight :: "protocol_store \<Rightarrow> protocol_store" where
  "begin_inflight s = s\<lparr> ps_inflight := saturating_add (ps_inflight s) 1 \<rparr>"

definition end_inflight :: "protocol_store \<Rightarrow> protocol_store" where
  "end_inflight s = s\<lparr> ps_inflight := saturating_sub (ps_inflight s) 1 \<rparr>"

definition has_pending_sync_intent :: "protocol_store \<Rightarrow> bool" where
  "has_pending_sync_intent s \<longleftrightarrow> list_ex (\<lambda>c. is_sync_intent (tc_payload c)) (ps_pending s)"

definition has_pending_continue_evict :: "protocol_store \<Rightarrow> bool" where
  "has_pending_continue_evict s \<longleftrightarrow> list_ex (\<lambda>c. is_continue_evict (tc_payload c)) (ps_pending s)"

definition inflight_sync_strength_max :: "protocol_store \<Rightarrow> sync_intent_strength option" where
  "inflight_sync_strength_max s = find (\<lambda>i. ps_inflight_sync_strength_counts s i > 0) [ConfigChange, Push, Debounced]"

definition note_inflight_enqueued :: "immutable_track_command \<Rightarrow> protocol_store \<Rightarrow> protocol_store" where
  "note_inflight_enqueued cmd s =
     (let s = (case sync_intent_strength_of (tc_payload cmd) of
                 None \<Rightarrow> s
               | Some strength \<Rightarrow>
                   s\<lparr> ps_inflight_sync_intent := saturating_add (ps_inflight_sync_intent s) 1,
                      ps_inflight_sync_strength_counts := (ps_inflight_sync_strength_counts s)
                        (strength := saturating_add (ps_inflight_sync_strength_counts s strength) 1) \<rparr>)
      in if is_continue_evict (tc_payload cmd)
         then s\<lparr> ps_inflight_continue_evict := saturating_add (ps_inflight_continue_evict s) 1 \<rparr> else s)"

definition note_inflight_dequeued :: "immutable_track_command \<Rightarrow> protocol_store \<Rightarrow> protocol_store" where
  "note_inflight_dequeued cmd s =
     (let s = (case sync_intent_strength_of (tc_payload cmd) of
                 None \<Rightarrow> s
               | Some strength \<Rightarrow>
                   s\<lparr> ps_inflight_sync_intent := saturating_sub (ps_inflight_sync_intent s) 1,
                      ps_inflight_sync_strength_counts := (ps_inflight_sync_strength_counts s)
                        (strength := saturating_sub (ps_inflight_sync_strength_counts s strength) 1) \<rparr>)
      in if is_continue_evict (tc_payload cmd)
         then s\<lparr> ps_inflight_continue_evict := saturating_sub (ps_inflight_continue_evict s) 1 \<rparr> else s)"

section \<open>Staging\<close>

definition next_control_revision :: "protocol_store \<Rightarrow> (u64 \<times> protocol_store) outcome" where
  "next_control_revision s =
     bind_outcome (next_revision StreamControl None (ps_revision s)) (\<lambda>(rev, ra). Done (rev, s\<lparr> ps_revision := ra \<rparr>))"

definition merge_sync_into_pending :: "track_worker_command \<Rightarrow> protocol_store \<Rightarrow> protocol_store outcome" where
  "merge_sync_into_pending job s =
     (let syncs = filter (\<lambda>c. is_sync_intent (tc_payload c)) (ps_pending s);
          payloads = map tc_payload syncs @ [job] in
      bind_outcome (next_control_revision s) (\<lambda>(rev, s).
        let max_rev = max (fold max (map tc_revision syncs) 0) rev
        in Done (s\<lparr> ps_pending := filter (\<lambda>c. \<not> is_sync_intent (tc_payload c)) (ps_pending s)
                     @ [command_new StreamControl max_rev (merge_sync_intent_payloads payloads)] \<rparr>)))"

definition coalesce_sync :: "immutable_track_command \<Rightarrow> protocol_store \<Rightarrow> immutable_track_command \<times> protocol_store" where
  "coalesce_sync cmd s =
     (let existing_sync = filter (\<lambda>c. is_sync_intent (tc_payload c)) (ps_pending s) in
      if existing_sync = [] then (cmd, s)
      else (command_new StreamControl (fold max (map tc_revision existing_sync) (tc_revision cmd))
              (merge_sync_intent_payloads (map tc_payload existing_sync @ [tc_payload cmd])),
            s\<lparr> ps_pending := filter (\<lambda>c. \<not> is_sync_intent (tc_payload c)) (ps_pending s) \<rparr>))"

fun remove_first :: "('a \<Rightarrow> bool) \<Rightarrow> 'a list \<Rightarrow> 'a list" where
  "remove_first P [] = []"
| "remove_first P (x # xs) = (if P x then xs else x # remove_first P xs)"

definition coalesce_continue :: "immutable_track_command \<Rightarrow> protocol_store \<Rightarrow> immutable_track_command \<times> protocol_store" where
  "coalesce_continue cmd s =
     (case find (\<lambda>c. is_continue_evict (tc_payload c)) (ps_pending s) of
        None \<Rightarrow> (cmd, s)
      | Some old \<Rightarrow>
          if tc_revision old < tc_revision cmd
          then (cmd, s\<lparr> ps_pending := remove_first (\<lambda>c. is_continue_evict (tc_payload c)) (ps_pending s) \<rparr>)
          else (cmd, s))"

definition coalesce_mint :: "immutable_track_command \<Rightarrow> protocol_store \<Rightarrow> immutable_track_command \<times> protocol_store" where
  "coalesce_mint cmd s =
     (case demand_mint_for_command (tc_payload cmd) of
        None \<Rightarrow> (cmd, s)
      | Some mint \<Rightarrow>
          (cmd, s\<lparr> ps_pending := filter (\<lambda>c. \<not> (tc_stream c = tc_stream cmd
              \<and> demand_mint_for_command (tc_payload c) = Some mint \<and> tc_revision c < tc_revision cmd)) (ps_pending s) \<rparr>))"

definition momentum_updates :: "immutable_track_command list \<Rightarrow> momentum_active_pools_update list" where
  "momentum_updates cs = List.map_filter (\<lambda>c. case tc_payload c of ApplyMomentumActivePools u \<Rightarrow> Some u | _ \<Rightarrow> None) cs"

definition arb_updates :: "immutable_track_command list \<Rightarrow> arb_track_requests_update list" where
  "arb_updates cs = List.map_filter (\<lambda>c. case tc_payload c of ApplyArbTrackRequests u \<Rightarrow> Some u | _ \<Rightarrow> None) cs"

definition coalesce_burst :: "immutable_track_command \<Rightarrow> protocol_store \<Rightarrow> (immutable_track_command \<times> protocol_store) outcome" where
  "coalesce_burst cmd s =
     (let older = filter (\<lambda>c. tc_stream c = tc_stream cmd \<and> tc_revision c < tc_revision cmd) (ps_pending s);
          s' = s\<lparr> ps_pending := filter (\<lambda>c. \<not> (tc_stream c = tc_stream cmd \<and> tc_revision c < tc_revision cmd)) (ps_pending s) \<rparr>
      in if older = [] then Done (cmd, s)
         else if tc_stream cmd = StreamMomentum then
           (case merge_momentum_active_pools_updates (momentum_updates (older @ [cmd])) of
              None \<Rightarrow> Panic
            | Some u \<Rightarrow> Done (command_new (tc_stream cmd) (tc_revision cmd) (ApplyMomentumActivePools u), s'))
         else
           (case merge_arb_track_requests_updates (arb_updates (older @ [cmd])) of
              None \<Rightarrow> Panic
            | Some u \<Rightarrow> Done (command_new (tc_stream cmd) (tc_revision cmd) (ApplyArbTrackRequests u), s')))"

definition coalesce_with_pending ::
    "immutable_track_command \<Rightarrow> protocol_store \<Rightarrow> (immutable_track_command \<times> protocol_store) outcome" where
  "coalesce_with_pending cmd s =
     (if is_sync_intent (tc_payload cmd) then Done (coalesce_sync cmd s)
      else if is_continue_evict (tc_payload cmd) then Done (coalesce_continue cmd s)
      else if stream_uses_per_mint_revision (tc_stream cmd) then Done (coalesce_mint cmd s)
      else if tc_stream cmd = StreamMomentum \<or> tc_stream cmd = StreamArb then coalesce_burst cmd s
      else Done (cmd, s))"

definition push_pending :: "immutable_track_command \<Rightarrow> protocol_store \<Rightarrow> protocol_store" where
  \<comment> \<open>the oldest slot makes room when the store is full\<close>
  "push_pending cmd s =
     (if length (ps_pending s) < ps_pending_cap s then s\<lparr> ps_pending := ps_pending s @ [cmd] \<rparr>
      else s\<lparr> ps_pending := tl (ps_pending s) @ [cmd], ps_evicted := ps_evicted s @ take 1 (ps_pending s) \<rparr>)"

definition stage_on_queue_full :: "immutable_track_command \<Rightarrow> protocol_store \<Rightarrow> protocol_store outcome" where
  \<comment> \<open>the result \<open>StageResult\<close> is always \<open>Staged\<close>\<close>
  "stage_on_queue_full cmd s =
     bind_outcome (coalesce_with_pending cmd s) (\<lambda>(cmd, s).
       Done (if is_continue_evict (tc_payload cmd) \<and> has_pending_continue_evict s then s else push_pending cmd s))"

definition stage_stronger_sync_intent_while_inflight :: "track_worker_command \<Rightarrow> protocol_store \<Rightarrow> protocol_store outcome" where
  "stage_stronger_sync_intent_while_inflight job s =
     (if has_pending_sync_intent s then merge_sync_into_pending job s
      else bind_outcome (next_control_revision s) (\<lambda>(revision, s).
        let cmd = command_new StreamControl revision job in
        if length (ps_pending s) < ps_pending_cap s then Done (s\<lparr> ps_pending := ps_pending s @ [cmd] \<rparr>)
        else bind_outcome (coalesce_with_pending cmd s) (\<lambda>(merged, s). Done (push_pending merged s))))"

fun replace_first :: "('a \<Rightarrow> bool) \<Rightarrow> ('a \<Rightarrow> 'a) \<Rightarrow> 'a list \<Rightarrow> 'a list" where
  "replace_first P f [] = []"
| "replace_first P f (x # xs) = (if P x then f x # xs else x # replace_first P f xs)"

definition try_dedupe_enqueue :: "track_worker_command \<Rightarrow> protocol_store \<Rightarrow> (bool \<times> protocol_store) outcome" where
  "try_dedupe_enqueue job s =
     (case sync_intent_strength_of job of
        Some new_strength \<Rightarrow>
          if ps_inflight_sync_intent s > 0 then
            (let inflight_strength = unwrap_or (inflight_sync_strength_max s) Debounced in
             if strength_rank new_strength \<le> strength_rank inflight_strength then Done (True, s)
             else bind_outcome (stage_stronger_sync_intent_while_inflight job s) (\<lambda>s. Done (True, s)))
          else if has_pending_sync_intent s then
            bind_outcome (merge_sync_into_pending job s) (\<lambda>s. Done (True, s))
          else Done (False, s)
      | None \<Rightarrow>
          if is_continue_evict job then
            (if ps_inflight_continue_evict s > 0 then Done (True, s)
             else if has_pending_continue_evict s then
               bind_outcome (next_control_revision s) (\<lambda>(rev, s).
                 Done (True, s\<lparr> ps_pending := replace_first (\<lambda>c. is_continue_evict (tc_payload c))
                   (\<lambda>old. command_new StreamControl (max rev (tc_revision old)) ContinueGeyserEvict) (ps_pending s) \<rparr>))
             else Done (False, s))
          else Done (False, s))"

section \<open>Replay\<close>

definition stream_order :: "immutable_track_command list \<Rightarrow> track_command_stream list" where
  \<comment> \<open>the streams in the order of their first command\<close>
  "stream_order cs = rev (fold (\<lambda>c acc. if tc_stream c \<in> set acc then acc else tc_stream c # acc) cs [])"

fun applicable_only :: "protocol_store \<Rightarrow> immutable_track_command list \<Rightarrow> immutable_track_command list outcome" where
  "applicable_only s [] = Done []"
| "applicable_only s (c # cs) =
     bind_outcome (is_applicable s c) (\<lambda>ok. bind_outcome (applicable_only s cs) (\<lambda>rest. Done (if ok then c # rest else rest)))"

definition take_applicable_pending_sorted :: "protocol_store \<Rightarrow> (immutable_track_command list \<times> protocol_store) outcome" where
  "take_applicable_pending_sorted s =
     (let drained = ps_pending s; s = s\<lparr> ps_pending := [] \<rparr> in
      bind_outcome (applicable_only s (concat (map (\<lambda>stream. sort_key tc_revision (filter (\<lambda>c. tc_stream c = stream) drained))
                      (stream_order drained)))) (\<lambda>applicable. Done (applicable, s)))"

section \<open>Worker\<close>

definition enqueue_begin :: "track_worker_command \<Rightarrow> protocol_store \<Rightarrow> (immutable_track_command option \<times> protocol_store) outcome" where
  \<comment> \<open>the first critical section of \<open>track_worker_try_enqueue\<close>; no command means that the demand is already held\<close>
  "enqueue_begin job s =
     bind_outcome (try_dedupe_enqueue job s) (\<lambda>(deduped, s).
       if deduped then Done (None, s)
       else bind_outcome (wrap_command job s) (\<lambda>(cmd, s). Done (Some cmd, s)))"

definition enqueue_note :: "immutable_track_command \<Rightarrow> protocol_store \<Rightarrow> protocol_store" where
  \<comment> \<open>the last critical section, after the command has been sent\<close>
  "enqueue_note cmd s = begin_inflight (note_inflight_enqueued cmd s)"

definition track_worker_try_enqueue ::
    "track_worker_command \<Rightarrow> nat \<Rightarrow> protocol_store \<times> immutable_track_command list \<times> nat
     \<Rightarrow> (protocol_store \<times> immutable_track_command list \<times> nat) outcome" where
  \<comment> \<open>without interruption; the channel holds at most \<open>capacity\<close> commands\<close>
  "track_worker_try_enqueue job capacity = (\<lambda>(s, channel, queue_depth).
     bind_outcome (enqueue_begin job s) (\<lambda>(cmd, s).
       case cmd of
         None \<Rightarrow> Done (s, channel, queue_depth)
       | Some cmd \<Rightarrow>
           if queue_depth \<ge> capacity \<or> length channel \<ge> capacity
           then bind_outcome (stage_on_queue_full cmd s) (\<lambda>s. Done (s, channel, queue_depth))
           else Done (enqueue_note cmd s, channel @ [cmd], queue_depth + 1)))"

definition track_protocol_should_advance_revision :: "track_command_stream \<Rightarrow> bool \<Rightarrow> bool" where
  "track_protocol_should_advance_revision stream handler_succeeded =
     (if stream = StreamWallet \<or> stream = StreamTracker then handler_succeeded else True)"

fun track_mints_batch_requires_replay_on_failure :: "track_worker_command \<Rightarrow> bool" where
  "track_mints_batch_requires_replay_on_failure (TrackMints _) = True"
| "track_mints_batch_requires_replay_on_failure _ = False"

definition command_advances :: "immutable_track_command \<Rightarrow> bool \<Rightarrow> bool" where
  \<comment> \<open>\<open>should_advance\<close> of \<open>track_worker_apply_protocol_command\<close>\<close>
  "command_advances cmd handler_succeeded =
     (if track_mints_batch_requires_replay_on_failure (tc_payload cmd) then handler_succeeded
      else track_protocol_should_advance_revision (tc_stream cmd) handler_succeeded)"

definition finish_command :: "immutable_track_command \<Rightarrow> bool \<Rightarrow> protocol_store \<Rightarrow> protocol_store outcome" where
  \<comment> \<open>the part of \<open>track_worker_apply_protocol_command\<close> after the handler\<close>
  "finish_command cmd handler_succeeded s =
     (if command_advances cmd handler_succeeded then
        (if tc_stream cmd = StreamWallet then mark_applied_wallet_demand cmd s else mark_applied cmd s)
      else if tc_stream cmd = StreamWallet \<or> tc_stream cmd = StreamTracker
        \<or> track_mints_batch_requires_replay_on_failure (tc_payload cmd) then stage_on_queue_full cmd s
      else Done s)"

definition track_worker_apply_protocol_command ::
    "('w \<Rightarrow> track_worker_command \<Rightarrow> bool \<times> 'w) \<Rightarrow> immutable_track_command \<Rightarrow> protocol_store \<times> 'w \<Rightarrow> (protocol_store \<times> 'w) outcome" where
  "track_worker_apply_protocol_command process cmd = (\<lambda>(s, w).
     bind_outcome (is_applicable s cmd) (\<lambda>applicable.
       if \<not> applicable then Done (s, w)
       else case process w (tc_payload cmd) of
              (handler_succeeded, w) \<Rightarrow> bind_outcome (finish_command cmd handler_succeeded s) (\<lambda>s. Done (s, w))))"

end
