(* ===== verification/Track_Properties.thy ===== *)
theory Track_Properties
  imports Track_Protocol
begin

text \<open>
  What the operations of the protocol store keep: well-formed commands never panic, staging keeps the
  newest command of every demand key or counts it as evicted, and only applying a command raises the
  applied revision of a key.
\<close>

named_theorems store_simps \<open>reading the fields of a store after an operation\<close>

section \<open>Demand keys\<close>

definition demand_key :: "immutable_track_command \<Rightarrow> track_command_stream \<times> pubkey option" where
  "demand_key c = (tc_stream c, if stream_uses_per_mint_revision (tc_stream c) then demand_mint_for_command (tc_payload c) else None)"

definition applied_revision :: "protocol_store \<Rightarrow> track_command_stream \<times> pubkey option \<Rightarrow> u64" where
  "applied_revision s = (\<lambda>(stream, mint). case mint of
     None \<Rightarrow> ps_last_applied s stream
   | Some m \<Rightarrow> hm_get_or 0 (if stream = StreamWallet then ps_last_applied_wallet_mint s else ps_last_applied_tracker_mint s) m)"

definition command_wf :: "immutable_track_command \<Rightarrow> bool" where
  "command_wf c \<longleftrightarrow> tc_stream c = stream_for_command (tc_payload c)
     \<and> (stream_uses_per_mint_revision (tc_stream c) \<longrightarrow> demand_mint_for_command (tc_payload c) \<noteq> None)"

definition covers :: "immutable_track_command \<Rightarrow> immutable_track_command \<Rightarrow> bool" where
  \<comment> \<open>the first command stands for the demand of the second one, or for a newer one of its key\<close>
  "covers c' c \<longleftrightarrow> demand_key c' = demand_key c \<and> tc_revision c \<le> tc_revision c'
     \<and> (stream_uses_per_mint_revision (tc_stream c) \<longrightarrow> c' = c \<or> tc_revision c < tc_revision c')"

lemma covers_refl [simp, intro]: "covers c c"
  by (simp add: covers_def)

lemma demand_key_stream: "demand_key c = demand_key d \<Longrightarrow> tc_stream c = tc_stream d"
  by (simp add: demand_key_def)

lemma covers_trans [trans]: "covers a b \<Longrightarrow> covers b c \<Longrightarrow> covers a c"
  unfolding covers_def using demand_key_stream [of b c] by auto

lemma covers_control:
  "tc_stream c = StreamControl \<Longrightarrow> tc_stream c' = StreamControl \<Longrightarrow> tc_revision c \<le> tc_revision c' \<Longrightarrow> covers c' c"
  by (simp add: covers_def demand_key_def stream_uses_per_mint_revision_def)

lemma command_new_sel [simp]:
  "tc_stream (command_new st r p) = st" "tc_revision (command_new st r p) = r" "tc_payload (command_new st r p) = p"
  by (simp_all add: command_new_def)

lemma command_wf_sync: "is_sync_intent (tc_payload c) \<Longrightarrow> command_wf c \<Longrightarrow> tc_stream c = StreamControl"
  by (simp add: command_wf_def sync_stream)

lemma command_wf_continue: "is_continue_evict (tc_payload c) \<Longrightarrow> command_wf c \<Longrightarrow> tc_stream c = StreamControl"
  by (simp add: command_wf_def)

lemma wf_control_new [simp]:
  "stream_for_command p = StreamControl \<Longrightarrow> command_wf (command_new StreamControl r p)"
  by (simp add: command_wf_def stream_uses_per_mint_revision_def)

lemma merged_sync_control [simp]: "stream_for_command (merge_sync_intent_payloads ps) = StreamControl"
  by (rule sync_stream) simp

lemma last_applied_for_cmd_wf [simp]:
  "command_wf c \<Longrightarrow> last_applied_for_cmd s c = Done (applied_revision s (demand_key c))"
  by (auto simp: last_applied_for_cmd_def command_wf_def applied_revision_def demand_key_def stream_uses_per_mint_revision_def)

lemma is_applicable_wf [simp]:
  "command_wf c \<Longrightarrow> is_applicable s c = Done (applied_revision s (demand_key c) < tc_revision c)"
  by (simp add: is_applicable_def)

section \<open>Issuing\<close>

definition panicking_job :: "track_worker_command \<Rightarrow> bool" where
  "panicking_job job \<longleftrightarrow> (case job of TrackMints [(mint, pin)] \<Rightarrow> pin = None \<or> pin = Some TrackWallet | _ \<Rightarrow> False)"

lemma next_revision_panic:
  "next_revision stream mint ra = Panic \<longleftrightarrow> stream_uses_per_mint_revision stream \<and> mint = None"
  by (auto simp: next_revision_def stream_uses_per_mint_revision_def Let_def split: option.splits)

lemma panicking_job_cases:
  assumes "panicking_job job"
  shows "\<exists>mint pin. job = TrackMints [(mint, pin)] \<and> (pin = None \<or> pin = Some TrackWallet)"
proof (cases job)
  case (TrackMints entries)
  then show ?thesis
    using assms by (cases entries rule: track_mints_batch_stream.cases) (auto simp: panicking_job_def)
qed (use assms in \<open>simp_all add: panicking_job_def\<close>)

lemma panicking_job_iff:
  "panicking_job job \<longleftrightarrow> stream_uses_per_mint_revision (stream_for_command job) \<and> demand_mint_for_command job = None"
proof (cases job)
  case (TrackMints entries)
  then show ?thesis
    by (cases entries rule: track_mints_batch_stream.cases)
      (auto simp: panicking_job_def stream_uses_per_mint_revision_def single_mint_stream_def
        split: option.splits track_pin_reason.splits)
qed (auto simp: panicking_job_def stream_uses_per_mint_revision_def single_mint_stream_def
      split: option.splits track_pin_reason.splits)

lemma wrap_command_panic: "wrap_command job s = Panic \<longleftrightarrow> panicking_job job"
proof (cases "next_revision (stream_for_command job) (demand_mint_for_command job) (ps_revision s)")
  case Panic
  then show ?thesis using next_revision_panic [of "stream_for_command job" "demand_mint_for_command job" "ps_revision s"]
    by (simp add: wrap_command_def panicking_job_iff)
next
  case (Done x)
  then show ?thesis using next_revision_panic [of "stream_for_command job" "demand_mint_for_command job" "ps_revision s"]
    by (simp add: wrap_command_def panicking_job_iff split_def)
qed

lemma wrap_command_Done:
  assumes "wrap_command job s = Done (c, s')"
  shows "command_wf c" "\<exists>ra. s' = s\<lparr> ps_revision := ra \<rparr>" "tc_payload c = job"
proof -
  have "\<not> panicking_job job" using assms wrap_command_panic [of job s] by auto
  moreover obtain r ra where "next_revision (stream_for_command job) (demand_mint_for_command job) (ps_revision s) = Done (r, ra)"
    "c = command_new (stream_for_command job) r job" "s' = s\<lparr> ps_revision := ra \<rparr>"
    using assms by (cases "next_revision (stream_for_command job) (demand_mint_for_command job) (ps_revision s)")
      (auto simp: wrap_command_def split_def)
  ultimately show "command_wf c" "\<exists>ra. s' = s\<lparr> ps_revision := ra \<rparr>" "tc_payload c = job"
    by (auto simp: command_wf_def panicking_job_iff)
qed

lemma next_control_revision_Done:
  "\<exists>r ra. next_control_revision s = Done (r, s\<lparr> ps_revision := ra \<rparr>)"
proof (cases "next_revision StreamControl None (ps_revision s)")
  case Panic
  then show ?thesis using next_revision_panic [of StreamControl None "ps_revision s"]
    by (simp add: stream_uses_per_mint_revision_def)
qed (auto simp: next_control_revision_def split_def)

section \<open>Staging\<close>

definition is_cont :: "immutable_track_command \<Rightarrow> bool" where
  "is_cont c \<longleftrightarrow> is_continue_evict (tc_payload c)"

definition pending_ok :: "protocol_store \<Rightarrow> bool" where
  "pending_ok s \<longleftrightarrow> (\<forall>c \<in> set (ps_pending s). command_wf c) \<and> length (ps_pending s) \<le> max 1 (ps_pending_cap s)
     \<and> length (filter is_cont (ps_pending s)) \<le> 1"

definition same_applied :: "protocol_store \<Rightarrow> protocol_store \<Rightarrow> bool" where
  "same_applied s s' \<longleftrightarrow> applied_revision s' = applied_revision s \<and> ps_pending_cap s' = ps_pending_cap s"

definition retained :: "protocol_store \<Rightarrow> immutable_track_command set" where
  \<comment> \<open>what the store holds, and what it has counted as evicted\<close>
  "retained s = set (ps_pending s) \<union> set (ps_evicted s)"

definition covered_by :: "immutable_track_command set \<Rightarrow> immutable_track_command set \<Rightarrow> bool" where
  "covered_by A B \<longleftrightarrow> (\<forall>c \<in> A. \<exists>c' \<in> B. covers c' c)"

lemma covered_by_trans: "covered_by A B \<Longrightarrow> covered_by B C \<Longrightarrow> covered_by A C"
  unfolding covered_by_def by (meson covers_trans)

lemma covered_by_subset: "A \<subseteq> B \<Longrightarrow> covered_by A B"
  unfolding covered_by_def by blast

lemma covered_by_Un: "covered_by (A \<union> B) C \<longleftrightarrow> covered_by A C \<and> covered_by B C"
  unfolding covered_by_def by blast

lemma same_applied_refl [simp]: "same_applied s s"
  by (simp add: same_applied_def)

lemma same_applied_trans: "same_applied a b \<Longrightarrow> same_applied b c \<Longrightarrow> same_applied a c"
  by (simp add: same_applied_def)

lemma applied_revision_update [simp]:
  "applied_revision (s\<lparr> ps_pending := p \<rparr>) = applied_revision s"
  "applied_revision (s\<lparr> ps_evicted := e \<rparr>) = applied_revision s"
  "applied_revision (s\<lparr> ps_revision := ra \<rparr>) = applied_revision s"
  "applied_revision (s\<lparr> ps_inflight := n \<rparr>) = applied_revision s"
  "applied_revision (s\<lparr> ps_inflight_sync_intent := m \<rparr>) = applied_revision s"
  "applied_revision (s\<lparr> ps_inflight_sync_strength_counts := f \<rparr>) = applied_revision s"
  "applied_revision (s\<lparr> ps_inflight_continue_evict := m \<rparr>) = applied_revision s"
  by (auto simp: applied_revision_def fun_eq_iff split: option.split)

lemma push_pending_kept:
  assumes "pending_ok s" "command_wf c" "is_cont c \<longrightarrow> (\<forall>d \<in> set (ps_pending s). \<not> is_cont d)"
  shows "pending_ok (push_pending c s)" "same_applied s (push_pending c s)"
    "retained (push_pending c s) = insert c (retained s)"
proof -
  have tl: "set (tl xs) \<union> set (take 1 xs) = set xs" "length (filter P (tl xs)) \<le> length (filter P xs)" for xs :: "'a list" and P
    by (cases xs; auto)+
  have len: "length (tl (ps_pending s) @ [c]) \<le> max 1 (ps_pending_cap s)"
    using assms(1) by (auto simp: pending_ok_def)
  have cont: "length (filter is_cont (tl (ps_pending s) @ [c])) \<le> 1"
  proof (cases "is_cont c")
    case True
    then have "filter is_cont (ps_pending s) = []" using assms(3) by (simp add: filter_empty_conv)
    then have "filter is_cont (tl (ps_pending s)) = []" using tl(2) [of is_cont "ps_pending s"] by simp
    then show ?thesis by simp
  next
    case False
    then show ?thesis using assms(1) tl(2) [of is_cont "ps_pending s"] by (simp add: pending_ok_def)
  qed
  have room: "length (filter is_cont (ps_pending s @ [c])) \<le> 1"
  proof (cases "is_cont c")
    case True
    then have "filter is_cont (ps_pending s) = []" using assms(3) by (simp add: filter_empty_conv)
    then show ?thesis by simp
  next
    case False
    then show ?thesis using assms(1) by (simp add: pending_ok_def)
  qed
  have wf: "\<forall>d \<in> set (tl (ps_pending s) @ [c]). command_wf d" "\<forall>d \<in> set (ps_pending s @ [c]). command_wf d"
    using assms tl(1) [of "ps_pending s"] by (auto simp: pending_ok_def)
  have "length (ps_pending s @ [c]) \<le> max 1 (ps_pending_cap s)" if "length (ps_pending s) < ps_pending_cap s"
    using that by simp
  with wf len cont room show "pending_ok (push_pending c s)" by (simp add: pending_ok_def push_pending_def)
  show "same_applied s (push_pending c s)" by (simp add: same_applied_def push_pending_def)
  show "retained (push_pending c s) = insert c (retained s)"
    using tl(1) [of "ps_pending s"] by (auto simp: retained_def push_pending_def)
qed

lemma filter_pending_ok:
  assumes "pending_ok s"
  shows "pending_ok (s\<lparr> ps_pending := filter P (ps_pending s) \<rparr>)"
proof -
  have "length (filter is_cont (filter P xs)) \<le> length (filter is_cont xs)" for xs
    by (induction xs) auto
  from this [of "ps_pending s"] have "length (filter is_cont (filter P (ps_pending s))) \<le> 1"
    using assms unfolding pending_ok_def by linarith
  moreover have "length (filter P (ps_pending s)) \<le> max 1 (ps_pending_cap s)"
    using assms length_filter_le [of P "ps_pending s"] unfolding pending_ok_def by linarith
  ultimately show ?thesis using assms by (simp add: pending_ok_def)
qed

lemma filter_single:
  "length (filter P xs) \<le> 1 \<Longrightarrow> x \<in> set xs \<Longrightarrow> P x \<Longrightarrow> y \<in> set xs \<Longrightarrow> P y \<Longrightarrow> x = y"
  by (induction xs) (auto simp: filter_empty_conv split: if_splits)

lemma remove_first_unique:
  "length (filter P xs) \<le> 1 \<Longrightarrow> remove_first P xs = filter (\<lambda>x. \<not> P x) xs"
proof (induction xs)
  case (Cons x xs)
  show ?case
  proof (cases "P x")
    case True
    then have "filter P xs = []" using Cons.prems by simp
    then show ?thesis using True by (simp add: filter_empty_conv)
  next
    case False
    then show ?thesis using Cons by simp
  qed
qed simp

lemma fold_max_ge: "x \<in> insert a (set xs) \<Longrightarrow> (x :: 'a::linorder) \<le> fold max xs a"
  using Max_ge [of "set (a # xs)" x] by (simp only: Max.set_eq_fold) simp

text \<open>What coalescing returns: the command to push and the store without what it stands for.\<close>

definition coalesced :: "immutable_track_command \<Rightarrow> protocol_store \<Rightarrow> immutable_track_command \<times> protocol_store \<Rightarrow> bool" where
  "coalesced c s = (\<lambda>(c', s'). (\<exists>P. s' = s\<lparr> ps_pending := filter P (ps_pending s) \<rparr>) \<and> command_wf c'
     \<and> covered_by (insert c (set (ps_pending s))) (insert c' (set (ps_pending s')))
     \<and> (is_cont c' \<longrightarrow> (\<forall>d \<in> set (ps_pending s'). is_cont d \<longrightarrow> covers d c')))"

lemma coalesced_self:
  "command_wf c \<Longrightarrow> is_cont c \<longrightarrow> (\<forall>d \<in> set (ps_pending s). is_cont d \<longrightarrow> covers d c) \<Longrightarrow> coalesced c s (c, s)"
  using filter_True [of "ps_pending s" "\<lambda>_. True"]
  by (auto simp: coalesced_def intro: covered_by_subset intro!: exI [of _ "\<lambda>_. True"])

lemma coalesced_filter:
  assumes "command_wf c'" "\<not> is_cont c' \<or> (\<forall>d. is_cont d \<longrightarrow> Q d)"
    "covers c' c" "\<And>d. d \<in> set (ps_pending s) \<Longrightarrow> Q d \<Longrightarrow> covers c' d"
  shows "coalesced c s (c', s\<lparr> ps_pending := filter (\<lambda>d. \<not> Q d) (ps_pending s) \<rparr>)"
proof -
  have "covered_by (insert c (set (ps_pending s))) (insert c' {d \<in> set (ps_pending s). \<not> Q d})"
    unfolding covered_by_def using assms(3,4) by blast
  then show ?thesis using assms(1,2) by (auto simp: coalesced_def intro: exI [of _ "\<lambda>d. \<not> Q d"])
qed

lemma coalesce_sync_kept:
  assumes "pending_ok s" "command_wf c" "is_sync_intent (tc_payload c)"
  shows "coalesced c s (coalesce_sync c s)"
proof (cases "filter (\<lambda>c. is_sync_intent (tc_payload c)) (ps_pending s) = []")
  case True
  have "\<not> is_cont c" using assms(3) by (auto simp: is_cont_def is_sync_intent_def)
  then show ?thesis using True assms coalesced_self by (simp add: coalesce_sync_def)
next
  case False
  let ?ex = "filter (\<lambda>c. is_sync_intent (tc_payload c)) (ps_pending s)"
  let ?c = "command_new StreamControl (fold max (map tc_revision ?ex) (tc_revision c))
      (merge_sync_intent_payloads (map tc_payload ?ex @ [tc_payload c]))"
  have "tc_revision d \<le> tc_revision ?c" if "d \<in> insert c (set ?ex)" for d
    using that fold_max_ge [of "tc_revision d" "tc_revision c" "map tc_revision ?ex"] by auto
  moreover have "tc_stream d = StreamControl" if "d \<in> insert c (set ?ex)" for d
    using that assms command_wf_sync [of d] by (auto simp: pending_ok_def)
  ultimately have "covers ?c d" if "d \<in> insert c (set ?ex)" for d
    using that covers_control [of d ?c] by simp
  then have "coalesced c s (?c, s\<lparr> ps_pending := filter (\<lambda>d. \<not> is_sync_intent (tc_payload d)) (ps_pending s) \<rparr>)"
    by (intro coalesced_filter) (auto simp: is_cont_def)
  then show ?thesis using False by (simp add: coalesce_sync_def Let_def)
qed

lemma coalesce_continue_kept:
  assumes "pending_ok s" "command_wf c" "is_cont c"
  shows "coalesced c s (coalesce_continue c s)"
proof -
  have one: "length (filter is_cont (ps_pending s)) \<le> 1" using assms(1) by (simp add: pending_ok_def)
  have ctrl: "tc_stream d = StreamControl" if "d \<in> insert c (set (ps_pending s))" "is_cont d" for d
    using that assms command_wf_continue [of d] by (auto simp: pending_ok_def is_cont_def)
  show ?thesis
  proof (cases "find is_cont (ps_pending s)")
    case None
    then have "\<forall>d \<in> set (ps_pending s). \<not> is_cont d" by (auto simp: find_None_iff)
    then show ?thesis using None assms(2) coalesced_self by (simp add: coalesce_continue_def is_cont_def [abs_def])
  next
    case (Some old)
    then have old: "old \<in> set (ps_pending s)" "is_cont old" by (auto simp: find_Some_iff)
    have only: "d = old" if "d \<in> set (ps_pending s)" "is_cont d" for d
      using filter_single [OF one] that old by blast
    show ?thesis
    proof (cases "tc_revision old < tc_revision c")
      case True
      have "covers c old" using ctrl old assms(3) True by (intro covers_control) auto
      then have "coalesced c s (c, s\<lparr> ps_pending := filter (\<lambda>d. \<not> is_cont d) (ps_pending s) \<rparr>)"
        using assms only by (intro coalesced_filter) auto
      then show ?thesis
        using True Some one by (simp add: coalesce_continue_def is_cont_def [abs_def] remove_first_unique)
    next
      case False
      have "covers old c" using ctrl old assms(3) False by (intro covers_control) auto
      then show ?thesis
        using False Some only assms(2) coalesced_self by (fastforce simp: coalesce_continue_def is_cont_def [abs_def])
    qed
  qed
qed

lemma coalesce_mint_kept:
  assumes "command_wf c" "stream_uses_per_mint_revision (tc_stream c)"
  shows "coalesced c s (coalesce_mint c s)"
proof -
  obtain mint where m: "demand_mint_for_command (tc_payload c) = Some mint" using assms by (auto simp: command_wf_def)
  have "\<not> is_cont c" using m by (auto simp: is_cont_def)
  then show ?thesis
    unfolding coalesce_mint_def m option.case using assms m
    by (intro coalesced_filter) (auto simp: covers_def demand_key_def)
qed

lemma momentum_payload: "stream_for_command p = StreamMomentum \<Longrightarrow> \<exists>u. p = ApplyMomentumActivePools u"
  and arb_payload: "stream_for_command p = StreamArb \<Longrightarrow> \<exists>u. p = ApplyArbTrackRequests u"
proof -
  have ne: "single_mint_stream pin \<noteq> StreamMomentum" "single_mint_stream pin \<noteq> StreamArb" for pin
    by (auto simp: single_mint_stream_def split: option.splits track_pin_reason.splits)
  have "track_mints_batch_stream es \<noteq> StreamMomentum" "track_mints_batch_stream es \<noteq> StreamArb" for es
    by (cases es rule: track_mints_batch_stream.cases; simp add: ne)+
  with ne show "stream_for_command p = StreamMomentum \<Longrightarrow> \<exists>u. p = ApplyMomentumActivePools u"
    "stream_for_command p = StreamArb \<Longrightarrow> \<exists>u. p = ApplyArbTrackRequests u"
    by (cases p; simp)+
qed

lemma coalesce_burst_kept:
  assumes "command_wf c" "tc_stream c = StreamMomentum \<or> tc_stream c = StreamArb"
  obtains r where "coalesce_burst c s = Done r" "coalesced c s r"
proof (cases "filter (\<lambda>d. tc_stream d = tc_stream c \<and> tc_revision d < tc_revision c) (ps_pending s) = []")
  case True
  have "\<not> is_cont c" using assms by (auto simp: is_cont_def command_wf_def)
  then show ?thesis using that True coalesced_self assms(1) by (simp add: coalesce_burst_def)
next
  case False
  let ?older = "filter (\<lambda>d. tc_stream d = tc_stream c \<and> tc_revision d < tc_revision c) (ps_pending s)"
  let ?s = "s\<lparr> ps_pending := filter (\<lambda>d. \<not> (tc_stream d = tc_stream c \<and> tc_revision d < tc_revision c)) (ps_pending s) \<rparr>"
  have kept: "coalesced c s (command_new (tc_stream c) (tc_revision c) p, ?s)"
    if "stream_for_command p = tc_stream c" for p
    using that assms by (intro coalesced_filter)
      (auto simp: is_cont_def covers_def demand_key_def stream_uses_per_mint_revision_def command_wf_def)
  show ?thesis
  proof (cases "tc_stream c = StreamMomentum")
    case True
    then obtain u where "tc_payload c = ApplyMomentumActivePools u"
      using assms(1) momentum_payload by (force simp: command_wf_def)
    then have "momentum_updates (?older @ [c]) \<noteq> []" by (simp add: momentum_updates_def List.map_filter_def)
    then obtain v where "merge_momentum_active_pools_updates (momentum_updates (?older @ [c])) = Some v"
      by (simp add: merge_momentum_active_pools_updates_def split_def Let_def)
    then show ?thesis using that True False kept [of "ApplyMomentumActivePools v"] by (simp add: coalesce_burst_def Let_def)
  next
    case arb: False
    then obtain u where "tc_payload c = ApplyArbTrackRequests u"
      using assms arb_payload by (force simp: command_wf_def)
    then have "arb_updates (?older @ [c]) \<noteq> []" by (simp add: arb_updates_def List.map_filter_def)
    then obtain v where "merge_arb_track_requests_updates (arb_updates (?older @ [c])) = Some v"
      by (simp add: merge_arb_track_requests_updates_def split_def Let_def)
    then show ?thesis
      using that arb False assms(2) kept [of "ApplyArbTrackRequests v"] by (simp add: coalesce_burst_def Let_def)
  qed
qed

lemma coalesce_with_pending_kept:
  assumes "pending_ok s" "command_wf c"
  obtains c' s' where "coalesce_with_pending c s = Done (c', s')" "coalesced c s (c', s')"
proof -
  consider "is_sync_intent (tc_payload c)" | "\<not> is_sync_intent (tc_payload c)" "is_cont c"
    | "\<not> is_sync_intent (tc_payload c)" "\<not> is_cont c" "stream_uses_per_mint_revision (tc_stream c)"
    | "\<not> is_sync_intent (tc_payload c)" "\<not> is_cont c" "\<not> stream_uses_per_mint_revision (tc_stream c)"
      "tc_stream c = StreamMomentum \<or> tc_stream c = StreamArb"
    | "\<not> is_sync_intent (tc_payload c)" "\<not> is_cont c" "\<not> stream_uses_per_mint_revision (tc_stream c)"
      "\<not> (tc_stream c = StreamMomentum \<or> tc_stream c = StreamArb)" by blast
  then obtain r where "coalesce_with_pending c s = Done r" "coalesced c s r"
  proof cases
    case 1
    then show ?thesis using that coalesce_sync_kept [OF assms 1] by (simp add: coalesce_with_pending_def)
  next
    case 2
    then show ?thesis using that coalesce_continue_kept [OF assms 2(2)] by (simp add: coalesce_with_pending_def is_cont_def)
  next
    case 3
    then show ?thesis using that coalesce_mint_kept [OF assms(2) 3(3)] by (simp add: coalesce_with_pending_def is_cont_def)
  next
    case 4
    then show ?thesis using that coalesce_burst_kept [OF assms(2) 4(4)] by (auto simp: coalesce_with_pending_def is_cont_def)
  next
    case 5
    then show ?thesis using that [of "(c, s)"] coalesced_self [OF assms(2), of s]
      by (simp add: coalesce_with_pending_def is_cont_def)
  qed
  then show ?thesis using that by (cases r) simp
qed

text \<open>A staging operation keeps the store in order, raises no applied revision and loses nothing silently.\<close>

definition stages :: "immutable_track_command set \<Rightarrow> protocol_store \<Rightarrow> protocol_store \<Rightarrow> bool" where
  "stages C s s' \<longleftrightarrow> pending_ok s' \<and> same_applied s s' \<and> covered_by (C \<union> retained s) (retained s')"

lemma coalesced_retained:
  assumes "coalesced c s (c', s')" "pending_ok s"
  shows "pending_ok s'" "same_applied s s'" "covered_by (insert c (retained s)) (insert c' (retained s'))"
proof -
  obtain P where s': "s' = s\<lparr> ps_pending := filter P (ps_pending s) \<rparr>" using assms(1) by (auto simp: coalesced_def)
  show "pending_ok s'" using filter_pending_ok [OF assms(2)] s' by simp
  show "same_applied s s'" using s' by (simp add: same_applied_def)
  have "insert c (retained s) = insert c (set (ps_pending s)) \<union> set (ps_evicted s)" by (simp add: retained_def)
  moreover have "insert c' (retained s') = insert c' (set (ps_pending s')) \<union> set (ps_evicted s)"
    by (simp add: retained_def s')
  ultimately show "covered_by (insert c (retained s)) (insert c' (retained s'))"
    using assms(1) by (auto simp: coalesced_def covered_by_def)
qed

lemma stage_on_queue_full_keeps:
  assumes "pending_ok s" "command_wf c"
  obtains s' where "stage_on_queue_full c s = Done s'" "stages {c} s s'"
proof -
  obtain c' s1 where r: "coalesce_with_pending c s = Done (c', s1)" and co: "coalesced c s (c', s1)"
    using coalesce_with_pending_kept assms by metis
  note kept = coalesced_retained [OF co assms(1)]
  show ?thesis
  proof (cases "is_cont c' \<and> has_pending_continue_evict s1")
    case True
    then obtain d where "d \<in> set (ps_pending s1)" "covers d c'"
      using co by (auto simp: coalesced_def has_pending_continue_evict_def is_cont_def list_ex_iff)
    then have "covered_by (insert c' (retained s1)) (retained s1)" by (auto simp: covered_by_def retained_def)
    then show ?thesis
      using that [of s1] True r kept covered_by_trans by (auto simp: stage_on_queue_full_def is_cont_def stages_def)
  next
    case False
    have "command_wf c'" using co by (simp add: coalesced_def)
    moreover have "is_cont c' \<longrightarrow> (\<forall>d \<in> set (ps_pending s1). \<not> is_cont d)"
      using False by (auto simp: has_pending_continue_evict_def is_cont_def list_ex_iff)
    ultimately have "stages {c} s (push_pending c' s1)"
      using push_pending_kept [OF kept(1)] kept same_applied_trans by (auto simp: stages_def)
    then show ?thesis using that False r by (auto simp: stage_on_queue_full_def is_cont_def)
  qed
qed

lemma stages_refl: "pending_ok s \<Longrightarrow> stages {} s s"
  by (simp add: stages_def covered_by_subset)

lemma stages_issue [simp]: "stages C (s\<lparr> ps_revision := ra \<rparr>) s' \<longleftrightarrow> stages C s s'"
  by (simp add: stages_def retained_def same_applied_def)

lemma pending_ok_issue [simp]: "pending_ok (s\<lparr> ps_revision := ra \<rparr>) \<longleftrightarrow> pending_ok s"
  by (simp add: pending_ok_def)

lemma stages_weaken: "stages C s s' \<Longrightarrow> C' \<subseteq> C \<Longrightarrow> stages C' s s'"
  by (auto simp: stages_def covered_by_def)

lemma merge_sync_into_pending_keeps:
  assumes "pending_ok s" "has_pending_sync_intent s"
  obtains s' where "merge_sync_into_pending job s = Done s'" "stages {} s s'"
proof -
  obtain r ra where rev: "next_control_revision s = Done (r, s\<lparr> ps_revision := ra \<rparr>)"
    using next_control_revision_Done by blast
  let ?sync = "\<lambda>c. is_sync_intent (tc_payload c)"
  let ?syncs = "filter ?sync (ps_pending s)"
  let ?c = "command_new StreamControl (max (fold max (map tc_revision ?syncs) 0) r)
      (merge_sync_intent_payloads (map tc_payload ?syncs @ [job]))"
  let ?rest = "filter (\<lambda>c. \<not> ?sync c) (ps_pending s)"
  have "length ?syncs > 0" using assms(2) by (auto simp: has_pending_sync_intent_def list_ex_iff filter_empty_conv)
  moreover have "length ?syncs + length ?rest = length (ps_pending s)" by (rule sum_length_filter_compl)
  ultimately have "length (?rest @ [?c]) \<le> length (ps_pending s)" unfolding length_append list.size by linarith
  moreover have "length (filter is_cont (?rest @ [?c])) \<le> 1"
    using filter_pending_ok [OF assms(1), of "\<lambda>c. \<not> ?sync c"] by (simp add: pending_ok_def is_cont_def)
  ultimately have ok: "pending_ok (s\<lparr> ps_pending := ?rest @ [?c], ps_revision := ra \<rparr>)"
    using assms(1) unfolding pending_ok_def by auto
  have "covers ?c d" if "d \<in> set ?syncs" for d
  proof (rule covers_control)
    show "tc_stream d = StreamControl" using that assms(1) command_wf_sync by (auto simp: pending_ok_def)
    show "tc_revision d \<le> tc_revision ?c"
      using that fold_max_ge [of "tc_revision d" 0 "map tc_revision ?syncs"] by (auto simp: le_max_iff_disj)
  qed simp
  then have "covered_by (retained s) (set (?rest @ [?c]) \<union> set (ps_evicted s))"
    by (auto simp: covered_by_def retained_def)
  then show ?thesis
    using that [of "s\<lparr> ps_pending := ?rest @ [?c], ps_revision := ra \<rparr>"] rev ok
    by (simp add: merge_sync_into_pending_def Let_def stages_def same_applied_def retained_def)
qed

lemma stage_stronger_keeps:
  assumes "pending_ok s" "is_sync_intent job"
  obtains s' where "stage_stronger_sync_intent_while_inflight job s = Done s'" "stages {} s s'"
proof (cases "has_pending_sync_intent s")
  case True
  then show ?thesis using that merge_sync_into_pending_keeps [OF assms(1) True]
    by (auto simp: stage_stronger_sync_intent_while_inflight_def)
next
  case False
  obtain r ra where rev: "next_control_revision s = Done (r, s\<lparr> ps_revision := ra \<rparr>)"
    using next_control_revision_Done by blast
  let ?s = "s\<lparr> ps_revision := ra \<rparr>" and ?c = "command_new StreamControl r job"
  have ok: "pending_ok ?s" "command_wf ?c" using assms sync_stream by simp_all
  have nc: "\<not> is_cont ?c" using assms(2) by (auto simp: is_cont_def is_sync_intent_def)
  note push = push_pending_kept [OF ok(1) ok(2)]
  show ?thesis
  proof (cases "length (ps_pending s) < ps_pending_cap s")
    case True
    have "stages {?c} ?s (push_pending ?c ?s)" using push nc by (auto simp: stages_def intro: covered_by_subset)
    then show ?thesis using that [of "push_pending ?c ?s"] False rev True stages_weaken [of "{?c}" s _ "{}"]
      by (simp add: stage_stronger_sync_intent_while_inflight_def push_pending_def Let_def)
  next
    case full: False
    obtain c' s1 where co: "coalesce_with_pending ?c ?s = Done (c', s1)" "coalesced ?c ?s (c', s1)"
      using coalesce_with_pending_kept ok by metis
    have c': "command_wf c'" "\<not> is_cont c'"
      using co assms(2) nc by (auto simp: coalesced_def coalesce_with_pending_def coalesce_sync_def Let_def is_cont_def split: if_splits)
    note kept = coalesced_retained [OF co(2) ok(1)]
    have "stages {?c} ?s (push_pending c' s1)"
      using push_pending_kept [OF kept(1) c'(1)] c'(2) kept same_applied_trans by (auto simp: stages_def)
    then show ?thesis using that [of "push_pending c' s1"] False full rev co(1) stages_weaken [of "{?c}" s _ "{}"]
      by (simp add: stage_stronger_sync_intent_while_inflight_def Let_def)
  qed
qed

lemma replace_first_continue:
  assumes "pending_ok s" "has_pending_continue_evict s"
  shows "stages {} s (s\<lparr> ps_pending := replace_first (\<lambda>c. is_continue_evict (tc_payload c))
    (\<lambda>old. command_new StreamControl (max r (tc_revision old)) ContinueGeyserEvict) (ps_pending s) \<rparr>)"
proof -
  let ?f = "\<lambda>old. command_new StreamControl (max r (tc_revision old)) ContinueGeyserEvict"
  have shape: "length (replace_first is_cont ?f xs) = length xs"
    "length (filter is_cont (replace_first is_cont ?f xs)) = length (filter is_cont xs)"
    "(\<forall>c \<in> set xs. command_wf c) \<Longrightarrow> (\<forall>c \<in> set (replace_first is_cont ?f xs). command_wf c)"
    "(\<forall>c \<in> set xs. command_wf c) \<Longrightarrow> covered_by (set xs) (set (replace_first is_cont ?f xs))" for xs
  proof (induction xs)
    case (Cons x xs)
    { case 1 show ?case using Cons by simp }
    { case 2 show ?case using Cons by (simp add: is_cont_def) }
    { case 3 then show ?case using Cons by auto }
    { case 4
      have "covers (?f x) x" if "is_cont x"
        using 4 that command_wf_continue [of x] by (intro covers_control) (auto simp: is_cont_def)
      with Cons 4 show ?case by (auto simp: covered_by_def) }
  qed (simp_all add: covered_by_def)
  have cont: "(\<lambda>c. is_continue_evict (tc_payload c)) = is_cont" by (simp add: is_cont_def fun_eq_iff)
  show ?thesis
    unfolding cont using assms(1) shape [of "ps_pending s"]
    by (auto simp: stages_def pending_ok_def same_applied_def retained_def covered_by_def)
qed

lemma try_dedupe_enqueue_keeps:
  assumes "pending_ok s"
  obtains b s' where "try_dedupe_enqueue job s = Done (b, s')" "stages {} s s'"
proof (cases "sync_intent_strength_of job")
  case (Some strength)
  then have sync: "is_sync_intent job" by (simp add: is_sync_intent_def)
  obtain s1 where s1: "stage_stronger_sync_intent_while_inflight job s = Done s1" "stages {} s s1"
    using stage_stronger_keeps [OF assms sync] by metis
  show ?thesis
  proof (cases "ps_inflight_sync_intent s > 0")
    case True
    then show ?thesis
      using that [of True s] that [of True s1] s1 Some stages_refl [OF assms]
      by (cases "strength_rank strength \<le> strength_rank (unwrap_or (inflight_sync_strength_max s) Debounced)")
        (simp_all add: try_dedupe_enqueue_def)
  next
    case False
    show ?thesis
    proof (cases "has_pending_sync_intent s")
      case True
      then obtain s2 where "merge_sync_into_pending job s = Done s2" "stages {} s s2"
        using merge_sync_into_pending_keeps [OF assms True] by metis
      then show ?thesis using that [of True s2] False Some True by (simp add: try_dedupe_enqueue_def)
    next
      case none: False
      then show ?thesis using that False Some stages_refl [OF assms] by (simp add: try_dedupe_enqueue_def)
    qed
  qed
next
  case None
  show ?thesis
  proof (cases "is_continue_evict job \<and> \<not> ps_inflight_continue_evict s > 0 \<and> has_pending_continue_evict s")
    case True
    obtain r ra where rev: "next_control_revision s = Done (r, s\<lparr> ps_revision := ra \<rparr>)"
      using next_control_revision_Done by blast
    have "pending_ok (s\<lparr> ps_revision := ra \<rparr>)" "has_pending_continue_evict (s\<lparr> ps_revision := ra \<rparr>)"
      using assms True by (simp_all add: has_pending_continue_evict_def)
    from replace_first_continue [OF this, of r] show ?thesis
      using that None True rev by (simp add: try_dedupe_enqueue_def)
  next
    case False
    then have "try_dedupe_enqueue job s = Done (is_continue_evict job \<and> ps_inflight_continue_evict s > 0, s)"
      using None by (auto simp: try_dedupe_enqueue_def)
    then show ?thesis using that stages_refl [OF assms] by blast
  qed
qed

section \<open>Applying and replaying\<close>

definition raises_to :: "protocol_store \<Rightarrow> protocol_store \<Rightarrow> bool" where
  \<comment> \<open>applied revisions only rise; nothing else of the store changes\<close>
  "raises_to s s' \<longleftrightarrow> (\<forall>k. applied_revision s k \<le> applied_revision s' k) \<and> ps_pending s' = ps_pending s
     \<and> ps_pending_cap s' = ps_pending_cap s \<and> ps_evicted s' = ps_evicted s \<and> ps_revision s' = ps_revision s"

lemma raise_entry_get:
  "hm_get_or 0 (raise_entry m r h) k = (if k = m then max (hm_get_or 0 h m) r else hm_get_or 0 h k)"
  by (auto simp: raise_entry_def hm_get_or_def update_conv' Let_def)

lemma applied_revision_raise:
  "applied_revision (s\<lparr> ps_last_applied_wallet_mint := raise_entry m r (ps_last_applied_wallet_mint s) \<rparr>) (st, mint)
     = (if st = StreamWallet \<and> mint = Some m then max (applied_revision s (st, mint)) r else applied_revision s (st, mint))"
  "applied_revision (s\<lparr> ps_last_applied_tracker_mint := raise_entry m r (ps_last_applied_tracker_mint s) \<rparr>) (st, mint)
     = (if st \<noteq> StreamWallet \<and> mint = Some m then max (applied_revision s (st, mint)) r else applied_revision s (st, mint))"
  "applied_revision (s\<lparr> ps_last_applied := (ps_last_applied s)(st' := r) \<rparr>) (st, mint)
     = (if st = st' \<and> mint = None then r else applied_revision s (st, mint))"
  by (auto simp: applied_revision_def raise_entry_get split: option.split)

lemma mark_applied_wf:
  assumes "command_wf c"
  obtains s' where "mark_applied c s = Done s'" "raises_to s s'" "tc_revision c \<le> applied_revision s' (demand_key c)"
proof (cases "stream_uses_per_mint_revision (tc_stream c)")
  case True
  then obtain m where m: "demand_mint_for_command (tc_payload c) = Some m" using assms by (auto simp: command_wf_def)
  show ?thesis
    using that True m by (cases "tc_stream c = StreamWallet")
      (simp_all add: mark_applied_def raises_to_def demand_key_def applied_revision_raise split_paired_all)
next
  case False
  have "raises_to s (s\<lparr> ps_last_applied := (ps_last_applied s)(tc_stream c := tc_revision c) \<rparr>)"
    if "ps_last_applied s (tc_stream c) < tc_revision c"
    using that by (auto simp: raises_to_def applied_revision_raise) (simp add: applied_revision_def)
  moreover have "raises_to s s" by (simp add: raises_to_def)
  moreover have "applied_revision s (tc_stream c, None) = ps_last_applied s (tc_stream c)" by (simp add: applied_revision_def)
  ultimately show ?thesis
    using that False by (cases "ps_last_applied s (tc_stream c) < tc_revision c")
      (simp_all add: mark_applied_def demand_key_def applied_revision_raise not_less)
qed

lemma supersede_raises:
  "raises_to s (supersede_tracker_demand_for_mint m s)"
  "last_issued_revision_for_mint (ps_revision s) StreamTracker m
     \<le> applied_revision (supersede_tracker_demand_for_mint m s) (StreamTracker, Some m)"
proof -
  let ?w0 = "max (hm_get_or 0 (ps_last_applied_tracker_mint s) m) (last_issued_revision_for_mint (ps_revision s) StreamTracker m)"
  let ?f = "\<lambda>cmd w. if tc_stream cmd = StreamTracker \<and> demand_mint_for_command (tc_payload cmd) = Some m
      then max w (tc_revision cmd) else w"
  have "w \<le> fold ?f cs w" for w cs
    by (induction cs arbitrary: w) (auto simp: max_def dest: order_trans)
  from this [of ?w0 "ps_pending s"]
  have w: "last_issued_revision_for_mint (ps_revision s) StreamTracker m \<le> fold ?f (ps_pending s) ?w0" by simp
  show "raises_to s (supersede_tracker_demand_for_mint m s)"
    by (simp add: supersede_tracker_demand_for_mint_def raises_to_def Let_def applied_revision_raise split_paired_all)
  show "last_issued_revision_for_mint (ps_revision s) StreamTracker m
     \<le> applied_revision (supersede_tracker_demand_for_mint m s) (StreamTracker, Some m)"
  proof (cases "fold ?f (ps_pending s) ?w0 > 0")
    case True
    then show ?thesis using w
      by (simp add: supersede_tracker_demand_for_mint_def applied_revision_raise Let_def le_max_iff_disj)
  next
    case False
    then have "fold ?f (ps_pending s) ?w0 = 0" by (simp add: word_neq_0_conv [symmetric] word_gt_0)
    then show ?thesis using w by simp
  qed
qed

lemma raises_to_trans: "raises_to a b \<Longrightarrow> raises_to b c \<Longrightarrow> raises_to a c"
  unfolding raises_to_def by (metis order_trans)

lemma finish_command_advances:
  assumes "command_wf c" "command_advances c ok"
  obtains s' where "finish_command c ok s = Done s'" "raises_to s s'" "tc_revision c \<le> applied_revision s' (demand_key c)"
    "\<And>m. demand_key c = (StreamWallet, Some m) \<Longrightarrow>
       last_issued_revision_for_mint (ps_revision s) StreamTracker m \<le> applied_revision s' (StreamTracker, Some m)"
proof -
  obtain s1 where s1: "mark_applied c s = Done s1" "raises_to s s1" "tc_revision c \<le> applied_revision s1 (demand_key c)"
    using mark_applied_wf [OF assms(1)] by metis
  show ?thesis
  proof (cases "tc_stream c = StreamWallet")
    case True
    then obtain m where m: "demand_mint_for_command (tc_payload c) = Some m"
      using assms(1) by (auto simp: command_wf_def stream_uses_per_mint_revision_def)
    let ?s = "supersede_tracker_demand_for_mint m s1"
    have "tc_revision c \<le> applied_revision ?s (demand_key c)"
      using s1(3) supersede_raises(1) [of s1 m] unfolding raises_to_def by (metis order_trans)
    moreover have "ps_revision s1 = ps_revision s" using s1(2) by (simp add: raises_to_def)
    ultimately show ?thesis
      using that [of ?s] raises_to_trans [OF s1(2) supersede_raises(1)] supersede_raises(2) [of s1 m] assms(2) True m s1(1)
      by (auto simp: finish_command_def mark_applied_wallet_demand_def demand_key_def stream_uses_per_mint_revision_def)
  next
    case False
    then show ?thesis using that [of s1] s1 assms(2) by (auto simp: finish_command_def demand_key_def)
  qed
qed

lemma finish_command_fails:
  assumes "pending_ok s" "command_wf c" "\<not> command_advances c ok"
  obtains s' where "finish_command c ok s = Done s'" "stages {c} s s'"
proof -
  have "tc_stream c = StreamWallet \<or> tc_stream c = StreamTracker \<or> track_mints_batch_requires_replay_on_failure (tc_payload c)"
    using assms(3) by (auto simp: command_advances_def track_protocol_should_advance_revision_def split: if_splits)
  then show ?thesis using that stage_on_queue_full_keeps [OF assms(1,2)] assms(3) by (auto simp: finish_command_def)
qed

lemma applicable_only_wf:
  "(\<forall>c \<in> set cs. command_wf c) \<Longrightarrow>
     applicable_only s cs = Done (filter (\<lambda>c. applied_revision s (demand_key c) < tc_revision c) cs)"
  by (induction cs) simp_all

lemma stream_order_set: "set (stream_order cs) = tc_stream ` set cs"
proof -
  have "set (fold (\<lambda>c acc. if tc_stream c \<in> set acc then acc else tc_stream c # acc) cs acc) = set acc \<union> tc_stream ` set cs" for acc
    by (induction cs arbitrary: acc) auto
  then show ?thesis by (simp add: stream_order_def)
qed

lemma take_applicable_exact:
  assumes "pending_ok s"
  obtains cs where "take_applicable_pending_sorted s = Done (cs, s\<lparr> ps_pending := [] \<rparr>)"
    "set cs = {c \<in> set (ps_pending s). applied_revision s (demand_key c) < tc_revision c}"
proof -
  let ?all = "concat (map (\<lambda>stream. sort_key tc_revision (filter (\<lambda>c. tc_stream c = stream) (ps_pending s))) (stream_order (ps_pending s)))"
  have all: "set ?all = set (ps_pending s)" by (auto simp: stream_order_set)
  then have "\<forall>c \<in> set ?all. command_wf c" using assms unfolding pending_ok_def by blast
  note only = applicable_only_wf [OF this, of "s\<lparr> ps_pending := [] \<rparr>"]
  show ?thesis
  proof (rule that)
    show "take_applicable_pending_sorted s = Done (filter (\<lambda>c. applied_revision s (demand_key c) < tc_revision c) ?all, s\<lparr> ps_pending := [] \<rparr>)"
      using only by (simp add: take_applicable_pending_sorted_def Let_def)
    show "set (filter (\<lambda>c. applied_revision s (demand_key c) < tc_revision c) ?all)
        = {c \<in> set (ps_pending s). applied_revision s (demand_key c) < tc_revision c}"
      unfolding set_filter all ..
  qed
qed

end
