(* ===== verification/Track_System.thy ===== *)
theory Track_System
  imports Track_Properties
begin

text \<open>
  The producers and the worker thread of \<open>market_data/track/worker.rs\<close> as one transition system. Producers
  are threads inside \<open>track_worker_try_enqueue\<close> or \<open>track_worker_enqueue_blocking\<close>, the worker is inside
  \<open>track_worker_loop\<close>; every access to the mutex, the channel and the queue depth is one step, and steps of
  different threads interleave freely. Thread 0 is the worker's own handle, which it uses when a push did
  not finish. The handlers and the push are the fields of \<open>worker_env\<close>; they act on a state \<open>'w\<close> that other
  threads may change at any time. A panic under the lock poisons it, and no later \<open>lock().expect\<close> returns.
\<close>

section \<open>State\<close>

record worker_locals =
  wl_coalesce_deadline :: "instant option"
  wl_push_before_keys :: "pubkey set option"
  wl_pending_continue_evict :: bool
  wl_pending_release_flush_slot :: bool
  wl_restore_barrier_pending :: bool

definition worker_locals_init :: worker_locals where
  "worker_locals_init = \<lparr> wl_coalesce_deadline = None, wl_push_before_keys = None, wl_pending_continue_evict = False,
     wl_pending_release_flush_slot = False, wl_restore_barrier_pending = False \<rparr>"

record 'w worker_env =
  we_process :: "track_worker_command \<Rightarrow> 'w \<times> bool \<Rightarrow> bool \<times> 'w \<times> bool"
  we_subscribed :: "'w \<Rightarrow> pubkey set"
  we_retry :: "'w \<Rightarrow> 'w"
  we_push :: "pubkey set \<Rightarrow> bool \<Rightarrow> bool \<Rightarrow> bool \<Rightarrow> 'w \<Rightarrow> bool \<times> 'w"
  we_tick :: "'w \<Rightarrow> bool \<times> 'w"

datatype sender_phase =
    Idle
  | Holding immutable_track_command \<comment> \<open>wrapped, before the queue depth is read\<close>
  | Sending immutable_track_command \<comment> \<open>before \<open>try_send\<close>\<close>
  | Blocking immutable_track_command \<comment> \<open>before \<open>send\<close>\<close>
  | Staging immutable_track_command \<comment> \<open>before \<open>stage_on_queue_full\<close>\<close>
  | Sent immutable_track_command \<comment> \<open>before \<open>fetch_add\<close>\<close>
  | Counted immutable_track_command \<comment> \<open>before \<open>note_inflight_enqueued\<close>\<close>

datatype worker_phase =
    Receiving
  | Dequeued immutable_track_command \<comment> \<open>before \<open>note_inflight_dequeued\<close>\<close>
  | Uncounting immutable_track_command \<comment> \<open>before the depth is lowered\<close>
  | Ending immutable_track_command \<comment> \<open>before \<open>end_inflight\<close>\<close>
  | Delivering immutable_track_command \<comment> \<open>before the first \<open>is_applicable\<close>\<close>
  | Checking immutable_track_command \<comment> \<open>before the second \<open>is_applicable\<close>\<close>
  | Handling immutable_track_command \<comment> \<open>before the handler\<close>
  | Finishing immutable_track_command bool \<comment> \<open>after the handler\<close>
  | Draining \<comment> \<open>before \<open>take_applicable_pending_sorted\<close>\<close>
  | Replaying "immutable_track_command list" \<comment> \<open>the loop over the drained commands\<close>
  | Pushing
  | Requeueing \<comment> \<open>a push did not finish\<close>
  | Requeued
  | Beating

record log_entry =
  lg_cmd :: immutable_track_command
  lg_advanced :: bool
  lg_issued :: revision_assigner \<comment> \<open>what had been issued when the handler's result was recorded\<close>

record 'w track_system =
  sy_store :: protocol_store
  sy_poisoned :: bool
  sy_channel :: "immutable_track_command list"
  sy_depth :: u64
  sy_senders :: "nat \<Rightarrow> sender_phase"
  sy_worker :: worker_phase
  sy_todo :: "immutable_track_command list option" \<comment> \<open>the rest of the replay loop, inside one\<close>
  sy_locals :: worker_locals
  sy_world :: 'w
  sy_issued :: "immutable_track_command list" \<comment> \<open>history: the commands wrapped so far\<close>
  sy_log :: "log_entry list" \<comment> \<open>history: the handled commands\<close>
  sy_pushed :: nat \<comment> \<open>history: how many of them came before the last push\<close>

definition track_system_init :: "protocol_store \<Rightarrow> 'w \<Rightarrow> 'w track_system" where
  "track_system_init s w = \<lparr> sy_store = s, sy_poisoned = False, sy_channel = [], sy_depth = 0, sy_senders = (\<lambda>_. Idle),
     sy_worker = Receiving, sy_todo = None, sy_locals = worker_locals_init, sy_world = w,
     sy_issued = [], sy_log = [], sy_pushed = 0 \<rparr>"

section \<open>Operations\<close>

definition track_worker_prepare_command_delivery ::
    "instant \<Rightarrow> pubkey set \<Rightarrow> track_worker_command \<Rightarrow> worker_locals \<Rightarrow> worker_locals" where
  "track_worker_prepare_command_delivery now subscribed payload wl =
     (let wl = (if wl_coalesce_deadline wl = None
                then wl\<lparr> wl_push_before_keys := Some subscribed, wl_coalesce_deadline := Some (now + 500 * 1000000) \<rparr>
                else wl);
          wl = (if payload = ContinueGeyserEvict then wl\<lparr> wl_pending_continue_evict := True \<rparr> else wl)
      in if payload = ScheduleGeyserPushDebounced then wl\<lparr> wl_pending_release_flush_slot := True \<rparr> else wl)"

definition should_push :: "instant \<Rightarrow> worker_locals \<Rightarrow> bool" where
  "should_push now wl \<longleftrightarrow> wl_push_before_keys wl \<noteq> None
     \<and> (case wl_coalesce_deadline wl of None \<Rightarrow> False | Some d \<Rightarrow> now \<ge> d)"

definition after_command :: "'w track_system \<Rightarrow> 'w track_system" where
  \<comment> \<open>back to the loop that delivered the command\<close>
  "after_command y = (case sy_todo y of
     None \<Rightarrow> y\<lparr> sy_worker := Receiving \<rparr>
   | Some cs \<Rightarrow> y\<lparr> sy_worker := Replaying cs, sy_todo := None \<rparr>)"

definition set_sender :: "nat \<Rightarrow> sender_phase \<Rightarrow> 'w track_system \<Rightarrow> 'w track_system" where
  "set_sender t p y = y\<lparr> sy_senders := (sy_senders y)(t := p) \<rparr>"

text \<open>
  \<open>track_step jobs capacity env\<close>: the producers submit commands of \<open>jobs\<close>, the channel and the depth check have
  the given capacity. Guards on \<open>sy_poisoned\<close> stand where the code takes the lock.
\<close>

inductive track_step ::
    "track_worker_command set \<Rightarrow> nat \<Rightarrow> 'w worker_env \<Rightarrow> 'w track_system \<Rightarrow> 'w track_system \<Rightarrow> bool"
  for jobs capacity env where
  submit: "\<lbrakk> \<not> sy_poisoned y; sy_senders y t = Idle; job \<in> jobs; 0 < t;
      enqueue_begin job (sy_store y) = Done (None, s) \<rbrakk> \<Longrightarrow>
    track_step jobs capacity env y (y\<lparr> sy_store := s \<rparr>)"
| submit_held: "\<lbrakk> \<not> sy_poisoned y; sy_senders y t = Idle; job \<in> jobs; 0 < t;
      enqueue_begin job (sy_store y) = Done (Some c, s); p = Holding c \<or> p = Blocking c \<rbrakk> \<Longrightarrow>
    track_step jobs capacity env y (set_sender t p (y\<lparr> sy_store := s, sy_issued := c # sy_issued y \<rparr>))"
| submit_panic: "\<lbrakk> \<not> sy_poisoned y; sy_senders y t = Idle; job \<in> jobs; 0 < t; enqueue_begin job (sy_store y) = Panic \<rbrakk> \<Longrightarrow>
    track_step jobs capacity env y (y\<lparr> sy_poisoned := True \<rparr>)"
| depth_full: "\<lbrakk> sy_senders y t = Holding c; unat (sy_depth y) \<ge> capacity \<rbrakk> \<Longrightarrow>
    track_step jobs capacity env y (set_sender t (Staging c) y)"
| depth_free: "\<lbrakk> sy_senders y t = Holding c; unat (sy_depth y) < capacity \<rbrakk> \<Longrightarrow>
    track_step jobs capacity env y (set_sender t (Sending c) y)"
| send: "\<lbrakk> sy_senders y t = Sending c \<or> sy_senders y t = Blocking c; length (sy_channel y) < capacity \<rbrakk> \<Longrightarrow>
    track_step jobs capacity env y (set_sender t (Sent c) (y\<lparr> sy_channel := sy_channel y @ [c] \<rparr>))"
| send_full: "\<lbrakk> sy_senders y t = Sending c; length (sy_channel y) \<ge> capacity \<rbrakk> \<Longrightarrow>
    track_step jobs capacity env y (set_sender t (Staging c) y)"
| stage: "\<lbrakk> \<not> sy_poisoned y; sy_senders y t = Staging c; stage_on_queue_full c (sy_store y) = Done s \<rbrakk> \<Longrightarrow>
    track_step jobs capacity env y (set_sender t Idle (y\<lparr> sy_store := s \<rparr>))"
| count: "sy_senders y t = Sent c \<Longrightarrow>
    track_step jobs capacity env y (set_sender t (Counted c) (y\<lparr> sy_depth := sy_depth y + 1 \<rparr>))"
| count_note: "\<lbrakk> \<not> sy_poisoned y; sy_senders y t = Counted c \<rbrakk> \<Longrightarrow>
    track_step jobs capacity env y (set_sender t Idle (y\<lparr> sy_store := enqueue_note c (sy_store y) \<rparr>))"
| receive: "\<lbrakk> sy_worker y = Receiving; sy_channel y = c # cs \<rbrakk> \<Longrightarrow>
    track_step jobs capacity env y (y\<lparr> sy_worker := Dequeued c, sy_channel := cs \<rparr>)"
| receive_empty: "\<lbrakk> sy_worker y = Receiving; sy_channel y = [] \<rbrakk> \<Longrightarrow>
    track_step jobs capacity env y (y\<lparr> sy_worker := Draining \<rparr>)"
| dequeue_note: "\<lbrakk> \<not> sy_poisoned y; sy_worker y = Dequeued c \<rbrakk> \<Longrightarrow>
    track_step jobs capacity env y (y\<lparr> sy_worker := Uncounting c, sy_store := note_inflight_dequeued c (sy_store y) \<rparr>)"
| uncount: "sy_worker y = Uncounting c \<Longrightarrow>
    track_step jobs capacity env y (y\<lparr> sy_worker := Ending c, sy_depth := (if sy_depth y = 0 then 0 else sy_depth y - 1) \<rparr>)"
| end_count: "\<lbrakk> \<not> sy_poisoned y; sy_worker y = Ending c \<rbrakk> \<Longrightarrow>
    track_step jobs capacity env y (y\<lparr> sy_worker := Delivering c, sy_store := end_inflight (sy_store y) \<rparr>)"
| deliver: "\<lbrakk> \<not> sy_poisoned y; sy_worker y = Delivering c; is_applicable (sy_store y) c = Done applicable \<rbrakk> \<Longrightarrow>
    track_step jobs capacity env y (y\<lparr> sy_worker := Checking c, sy_locals := (if applicable
      then track_worker_prepare_command_delivery now (we_subscribed env (sy_world y)) (tc_payload c) (sy_locals y)
      else sy_locals y) \<rparr>)"
| check: "\<lbrakk> \<not> sy_poisoned y; sy_worker y = Checking c; is_applicable (sy_store y) c = Done True \<rbrakk> \<Longrightarrow>
    track_step jobs capacity env y (y\<lparr> sy_worker := Handling c \<rparr>)"
| check_stale: "\<lbrakk> \<not> sy_poisoned y; sy_worker y = Checking c; is_applicable (sy_store y) c = Done False \<rbrakk> \<Longrightarrow>
    track_step jobs capacity env y (after_command y)"
| handle: "\<lbrakk> sy_worker y = Handling c;
      we_process env (tc_payload c) (sy_world y, wl_restore_barrier_pending (sy_locals y)) = (ok, w, barrier) \<rbrakk> \<Longrightarrow>
    track_step jobs capacity env y (y\<lparr> sy_worker := Finishing c ok, sy_world := w,
      sy_locals := (sy_locals y)\<lparr> wl_restore_barrier_pending := barrier \<rparr> \<rparr>)"
| finish: "\<lbrakk> \<not> sy_poisoned y; sy_worker y = Finishing c ok; finish_command c ok (sy_store y) = Done s \<rbrakk> \<Longrightarrow>
    track_step jobs capacity env y (after_command (y\<lparr> sy_store := s,
      sy_log := sy_log y @ [\<lparr> lg_cmd = c, lg_advanced = command_advances c ok, lg_issued = ps_revision (sy_store y) \<rparr>] \<rparr>))"
| drain: "\<lbrakk> \<not> sy_poisoned y; sy_worker y = Draining; take_applicable_pending_sorted (sy_store y) = Done (cs, s) \<rbrakk> \<Longrightarrow>
    track_step jobs capacity env y (y\<lparr> sy_worker := Replaying cs, sy_store := s \<rparr>)"
| replay: "sy_worker y = Replaying (c # cs) \<Longrightarrow>
    track_step jobs capacity env y (y\<lparr> sy_worker := Delivering c, sy_todo := Some cs \<rparr>)"
| replay_end: "sy_worker y = Replaying [] \<Longrightarrow> track_step jobs capacity env y (y\<lparr> sy_worker := Pushing \<rparr>)"
| push_skip: "\<lbrakk> sy_worker y = Pushing; \<not> should_push now (sy_locals y) \<rbrakk> \<Longrightarrow>
    track_step jobs capacity env y (y\<lparr> sy_worker := Beating \<rparr>)"
| push: "\<lbrakk> sy_worker y = Pushing; should_push now (sy_locals y); wl = sy_locals y;
      we_push env (unwrap_or (wl_push_before_keys wl) {}) (wl_pending_continue_evict wl) (wl_pending_release_flush_slot wl)
        (wl_restore_barrier_pending wl) (we_retry env (sy_world y)) = (push_ok, w) \<rbrakk> \<Longrightarrow>
    track_step jobs capacity env y (y\<lparr> sy_worker := (if push_ok then Beating else Requeueing),
      sy_locals := worker_locals_init, sy_world := w, sy_pushed := length (sy_log y) \<rparr>)"
| requeue: "\<lbrakk> \<not> sy_poisoned y; sy_worker y = Requeueing; enqueue_begin ContinueGeyserEvict (sy_store y) = Done (None, s) \<rbrakk> \<Longrightarrow>
    track_step jobs capacity env y (y\<lparr> sy_worker := Requeued, sy_store := s \<rparr>)"
| requeue_held: "\<lbrakk> \<not> sy_poisoned y; sy_worker y = Requeueing; sy_senders y 0 = Idle;
      enqueue_begin ContinueGeyserEvict (sy_store y) = Done (Some c, s) \<rbrakk> \<Longrightarrow>
    track_step jobs capacity env y ((set_sender 0 (Holding c)
      (y\<lparr> sy_store := s, sy_issued := c # sy_issued y \<rparr>))\<lparr> sy_worker := Requeued \<rparr>)"
| resume: "\<lbrakk> sy_worker y = Requeued; sy_senders y 0 = Idle \<rbrakk> \<Longrightarrow>
    track_step jobs capacity env y (y\<lparr> sy_worker := Beating \<rparr>)"
| beat_skip: "sy_worker y = Beating \<Longrightarrow> track_step jobs capacity env y (y\<lparr> sy_worker := Receiving \<rparr>)"
| beat: "\<lbrakk> sy_worker y = Beating; we_tick env (sy_world y) = (dirty, w) \<rbrakk> \<Longrightarrow>
    track_step jobs capacity env y (y\<lparr> sy_worker := Receiving, sy_world := w, sy_locals := (if dirty
      then track_worker_prepare_command_delivery now (we_subscribed env w) ScheduleGeyserPush (sy_locals y)
      else sy_locals y) \<rparr>)"
| others: "track_step jobs capacity env y (y\<lparr> sy_world := w \<rparr>)"

inductive track_run ::
    "track_worker_command set \<Rightarrow> nat \<Rightarrow> 'w worker_env \<Rightarrow> protocol_store \<Rightarrow> 'w track_system \<Rightarrow> bool"
  for jobs capacity env s where
  start: "track_run jobs capacity env s (track_system_init s w)"
| step: "track_run jobs capacity env s y \<Longrightarrow> track_step jobs capacity env y y' \<Longrightarrow> track_run jobs capacity env s y'"

section \<open>The commands under way\<close>

fun sender_holds :: "sender_phase \<Rightarrow> immutable_track_command set" where
  "sender_holds (Holding c) = {c}"
| "sender_holds (Sending c) = {c}"
| "sender_holds (Blocking c) = {c}"
| "sender_holds (Staging c) = {c}"
| "sender_holds _ = {}"

fun worker_holds :: "worker_phase \<Rightarrow> immutable_track_command set" where
  "worker_holds (Dequeued c) = {c}"
| "worker_holds (Uncounting c) = {c}"
| "worker_holds (Ending c) = {c}"
| "worker_holds (Delivering c) = {c}"
| "worker_holds (Checking c) = {c}"
| "worker_holds (Handling c) = {c}"
| "worker_holds (Finishing c _) = {c}"
| "worker_holds (Replaying cs) = set cs"
| "worker_holds _ = {}"

definition moving :: "'w track_system \<Rightarrow> immutable_track_command set" where
  "moving y = set (sy_channel y) \<union> (\<Union>t. sender_holds (sy_senders y t)) \<union> worker_holds (sy_worker y)
     \<union> (case sy_todo y of None \<Rightarrow> {} | Some cs \<Rightarrow> set cs)"

definition accounted :: "'w track_system \<Rightarrow> immutable_track_command \<Rightarrow> bool" where
  \<comment> \<open>the command, or a newer one of its key, has been applied, is under way, waits in the store or was evicted\<close>
  "accounted y c \<longleftrightarrow> tc_revision c \<le> applied_revision (sy_store y) (demand_key c)
     \<or> (\<exists>c' \<in> retained (sy_store y) \<union> moving y. covers c' c)"

end
