(* ===== verification/Track_Invariants.thy ===== *)
theory Track_Invariants
  imports Track_System
begin

text \<open>
  The invariants of the transition system, each by cases on the step: commands under way are well formed
  and none is lost silently, no thread panics but a producer with a malformed batch, the log of handled
  commands respects the revisions, and a push is due after every handled command.
\<close>

section \<open>Nothing is lost\<close>

definition well_formed :: "'w track_system \<Rightarrow> bool" where
  "well_formed y \<longleftrightarrow> pending_ok (sy_store y) \<and> (\<forall>c \<in> moving y. command_wf c)"

fun handling :: "worker_phase \<Rightarrow> immutable_track_command option" where
  "handling (Handling c) = Some c"
| "handling (Finishing c _) = Some c"
| "handling _ = None"

fun delivering :: "worker_phase \<Rightarrow> bool" where
  "delivering (Delivering _) = True"
| "delivering (Checking _) = True"
| "delivering (Handling _) = True"
| "delivering (Finishing _ _) = True"
| "delivering _ = False"

definition keeps :: "'w track_system \<Rightarrow> 'w track_system \<Rightarrow> bool" where
  "keeps y y' \<longleftrightarrow> well_formed y'
     \<and> (\<forall>k. applied_revision (sy_store y) k \<le> applied_revision (sy_store y') k)
     \<and> (delivering (sy_worker y') \<longrightarrow> applied_revision (sy_store y') = applied_revision (sy_store y))
     \<and> ps_pending_cap (sy_store y') = ps_pending_cap (sy_store y)
     \<and> (\<forall>x \<in> retained (sy_store y) \<union> moving y \<union> (set (sy_issued y') - set (sy_issued y)). accounted y' x)"

lemma accounted_kept:
  assumes "keeps y y'" "accounted y c"
  shows "accounted y' c"
proof -
  consider "tc_revision c \<le> applied_revision (sy_store y) (demand_key c)"
    | c' where "c' \<in> retained (sy_store y) \<union> moving y" "covers c' c"
    using assms(2) by (auto simp: accounted_def)
  then show ?thesis
  proof cases
    case 1
    then show ?thesis using assms(1) unfolding keeps_def accounted_def by (meson order_trans)
  next
    case 2
    then have "accounted y' c'" using assms(1) by (simp add: keeps_def)
    then consider "tc_revision c' \<le> applied_revision (sy_store y') (demand_key c')"
      | d where "d \<in> retained (sy_store y') \<union> moving y'" "covers d c'" by (auto simp: accounted_def)
    then show ?thesis
    proof cases
      case 1
      have "tc_revision c \<le> tc_revision c'" "demand_key c' = demand_key c" using 2(2) by (simp_all add: covers_def)
      with 1 have "tc_revision c \<le> applied_revision (sy_store y') (demand_key c)" by (metis order_trans)
      then show ?thesis by (simp add: accounted_def)
    next
      case d: 2
      with 2(2) covers_trans show ?thesis unfolding accounted_def by blast
    qed
  qed
qed

lemma sender_holds_update:
  "(\<Union>u. sender_holds ((f(t := p)) u)) = sender_holds p \<union> (\<Union>u \<in> - {t}. sender_holds (f u))"
  by (auto split: if_splits)

lemma moving_set_sender:
  "moving (set_sender t p y) \<subseteq> moving y \<union> sender_holds p"
  "moving y \<subseteq> moving (set_sender t p y) \<union> sender_holds (sy_senders y t)"
  "sender_holds p \<subseteq> moving (set_sender t p y)"
  unfolding moving_def set_sender_def
  by (auto simp: sender_holds_update simp del: fun_upd_apply split: option.splits)

lemma set_sender_sel [simp]:
  "sy_store (set_sender t p y) = sy_store y" "sy_issued (set_sender t p y) = sy_issued y"
  "sy_poisoned (set_sender t p y) = sy_poisoned y" "sy_worker (set_sender t p y) = sy_worker y"
  "sy_log (set_sender t p y) = sy_log y" "sy_locals (set_sender t p y) = sy_locals y"
  "sy_pushed (set_sender t p y) = sy_pushed y"
  by (simp_all add: set_sender_def)

lemma after_command_sel [simp]:
  "sy_store (after_command y) = sy_store y" "sy_issued (after_command y) = sy_issued y"
  "sy_poisoned (after_command y) = sy_poisoned y" "sy_log (after_command y) = sy_log y"
  "sy_locals (after_command y) = sy_locals y" "sy_pushed (after_command y) = sy_pushed y"
  "handling (sy_worker (after_command y)) = None" "\<not> delivering (sy_worker (after_command y))"
  by (simp_all add: after_command_def split: option.split)

lemma moving_after_command:
  "moving (after_command y) \<subseteq> moving y" "moving y \<subseteq> moving (after_command y) \<union> worker_holds (sy_worker y)"
  by (auto simp: after_command_def moving_def split: option.splits)

lemma keepsI:
  assumes "well_formed y" "stages C (sy_store y) (sy_store y')" "moving y \<subseteq> moving y' \<union> C"
    "moving y' \<subseteq> moving y \<union> W" "\<forall>c \<in> W. command_wf c" "set (sy_issued y') \<subseteq> set (sy_issued y) \<union> moving y'"
  shows "keeps y y'"
proof -
  have "accounted y' x" if "x \<in> retained (sy_store y) \<union> moving y \<union> (set (sy_issued y') - set (sy_issued y))" for x
  proof (cases "x \<in> moving y'")
    case True
    then show ?thesis by (auto simp: accounted_def)
  next
    case False
    then have "x \<in> C \<union> retained (sy_store y)" using that assms(3,6) by auto
    then show ?thesis using assms(2) unfolding stages_def covered_by_def accounted_def by blast
  qed
  moreover have "well_formed y'" using assms(1,2,4,5) by (auto simp: well_formed_def stages_def)
  ultimately show ?thesis using assms(2) by (auto simp: keeps_def stages_def same_applied_def)
qed

lemma note_stages:
  assumes "pending_ok s"
  shows "stages {} s (enqueue_note c s)" "stages {} s (note_inflight_dequeued c s)" "stages {} s (end_inflight s)"
proof -
  have "stages {} s s'" if "applied_revision s' = applied_revision s" "ps_pending s' = ps_pending s"
    "ps_pending_cap s' = ps_pending_cap s" "ps_evicted s' = ps_evicted s" for s'
    using assms that by (auto simp: stages_def pending_ok_def same_applied_def retained_def intro: covered_by_subset)
  then show "stages {} s (enqueue_note c s)" "stages {} s (note_inflight_dequeued c s)" "stages {} s (end_inflight s)"
    by (auto simp: enqueue_note_def note_inflight_enqueued_def note_inflight_dequeued_def begin_inflight_def end_inflight_def
        Let_def split: option.split)
qed

lemma enqueue_begin_keeps:
  assumes "pending_ok s"
  shows "enqueue_begin job s = Done (None, s') \<Longrightarrow> stages {} s s'"
    and "enqueue_begin job s = Done (Some c, s') \<Longrightarrow> stages {} s s' \<and> command_wf c \<and> tc_payload c = job"
    and "enqueue_begin job s = Panic \<Longrightarrow> panicking_job job"
proof -
  obtain b s1 where s1: "try_dedupe_enqueue job s = Done (b, s1)" "stages {} s s1"
    using try_dedupe_enqueue_keeps [OF assms] by metis
  have wrap: "stages {} s s' \<and> command_wf c \<and> tc_payload c = job" if "wrap_command job s1 = Done (c, s')" for c s'
    using wrap_command_Done [OF that] s1(2) by (auto simp: stages_def retained_def same_applied_def)
  have "\<exists>x. wrap_command job s1 = Done x" if "wrap_command job s1 \<noteq> Panic" using that outcome.exhaust by blast
  then show "enqueue_begin job s = Done (None, s') \<Longrightarrow> stages {} s s'"
    "enqueue_begin job s = Panic \<Longrightarrow> panicking_job job"
    "enqueue_begin job s = Done (Some c, s') \<Longrightarrow> stages {} s s' \<and> command_wf c \<and> tc_payload c = job"
    using s1 wrap wrap_command_panic [of job s1]
    by (cases "wrap_command job s1"; auto simp: enqueue_begin_def split_def split: if_splits)+
qed

lemma keeps_raise:
  assumes "well_formed y" "raises_to (sy_store y) (sy_store y')" "moving y' \<subseteq> moving y" "moving y \<subseteq> moving y' \<union> {c}"
    "tc_revision c \<le> applied_revision (sy_store y') (demand_key c)" "sy_issued y' = sy_issued y"
    "\<not> delivering (sy_worker y')"
  shows "keeps y y'"
proof -
  have "retained (sy_store y') = retained (sy_store y)" using assms(2) by (simp add: raises_to_def retained_def)
  then have "accounted y' x" if "x \<in> retained (sy_store y) \<union> moving y" for x
    using that assms(4,5) by (auto simp: accounted_def)
  moreover have "well_formed y'"
    using assms(1-3) by (auto simp: well_formed_def raises_to_def pending_ok_def)
  ultimately show ?thesis using assms(2,6,7) by (auto simp: keeps_def raises_to_def)
qed

lemma keeps_drain:
  assumes "well_formed y" "sy_worker y = Draining" "take_applicable_pending_sorted (sy_store y) = Done (cs, s)"
  shows "keeps y (y\<lparr> sy_worker := Replaying cs, sy_store := s \<rparr>)" (is "keeps y ?y")
proof -
  have ok: "pending_ok (sy_store y)" using assms(1) by (simp add: well_formed_def)
  have s: "s = (sy_store y)\<lparr> ps_pending := [] \<rparr>"
    and cs: "set cs = {c \<in> set (ps_pending (sy_store y)). applied_revision (sy_store y) (demand_key c) < tc_revision c}"
    using take_applicable_exact [OF ok] assms(3) by auto
  have moving: "moving ?y = moving y \<union> set cs" using assms(2) by (auto simp: moving_def)
  have "accounted ?y x" if "x \<in> retained (sy_store y) \<union> moving y" for x
  proof (cases "x \<in> set cs \<union> moving y \<union> set (ps_evicted (sy_store y))")
    case True
    then have "x \<in> retained (sy_store ?y) \<union> moving ?y" unfolding moving by (auto simp: retained_def s)
    then show ?thesis unfolding accounted_def using covers_refl by blast
  next
    case False
    then have "x \<in> set (ps_pending (sy_store y))" "x \<notin> set cs" using that by (auto simp: retained_def)
    then have "tc_revision x \<le> applied_revision (sy_store ?y) (demand_key x)" using cs by (simp add: s)
    then show ?thesis by (simp add: accounted_def)
  qed
  moreover have "well_formed ?y"
    using assms(1) ok cs moving by (auto simp: well_formed_def pending_ok_def s)
  ultimately show ?thesis by (simp add: keeps_def s)
qed

lemma keeps_finish:
  assumes "well_formed y" "sy_worker y = Finishing c ok" "finish_command c ok (sy_store y) = Done s"
  shows "keeps y (after_command (y\<lparr> sy_store := s, sy_log := l \<rparr>))" (is "keeps y (after_command ?y)")
proof -
  have wf: "command_wf c" "pending_ok (sy_store y)" using assms(1,2) by (auto simp: well_formed_def moving_def)
  have [simp]: "moving ?y = moving y" by (simp add: moving_def)
  have moving: "moving (after_command ?y) \<subseteq> moving y" "moving y \<subseteq> moving (after_command ?y) \<union> {c}"
    using moving_after_command [of ?y] assms(2) by simp_all
  show ?thesis
  proof (cases "command_advances c ok")
    case True
    then have "raises_to (sy_store y) s" "tc_revision c \<le> applied_revision s (demand_key c)"
      using finish_command_advances [OF wf(1) True, of "sy_store y"] assms(3) by auto
    then show ?thesis using keeps_raise [OF assms(1) _ moving] assms(2) by simp
  next
    case False
    then have "stages {c} (sy_store y) s" using finish_command_fails [OF wf(2,1) False] assms(3) by auto
    then show ?thesis using keepsI [OF assms(1) _ moving(2), of "{}"] moving(1) by simp
  qed
qed

lemma moving_simps:
  "moving (y\<lparr> sy_store := s \<rparr>) = moving y" "moving (y\<lparr> sy_issued := i \<rparr>) = moving y" "moving (y\<lparr> sy_depth := d \<rparr>) = moving y"
  "moving (y\<lparr> sy_poisoned := b \<rparr>) = moving y" "moving (y\<lparr> sy_locals := l \<rparr>) = moving y" "moving (y\<lparr> sy_world := w \<rparr>) = moving y"
  "moving (y\<lparr> sy_log := g \<rparr>) = moving y" "moving (y\<lparr> sy_pushed := n \<rparr>) = moving y"
  by (simp_all add: moving_def)

lemma keeps_sender:
  assumes "well_formed y" "stages (sender_holds (sy_senders y t)) (sy_store y) s \<or> s = sy_store y \<and> sender_holds (sy_senders y t) \<subseteq> sender_holds p"
    "\<forall>c \<in> sender_holds p. command_wf c" "set i \<subseteq> set (sy_issued y) \<union> sender_holds p"
  shows "keeps y (set_sender t p (y\<lparr> sy_store := s, sy_issued := i \<rparr>))" (is "keeps y (set_sender t p ?y)")
proof -
  let ?C = "if s = sy_store y \<and> sender_holds (sy_senders y t) \<subseteq> sender_holds p then {} else sender_holds (sy_senders y t)"
  have ok: "pending_ok (sy_store y)" using assms(1) by (simp add: well_formed_def)
  note m = moving_set_sender [where t = t and p = p and y = ?y, unfolded moving_simps]
  from m(2) have m': "moving y \<subseteq> moving (set_sender t p ?y) \<union> sender_holds (sy_senders y t)" by simp
  show ?thesis
  proof (rule keepsI [of _ ?C _ "sender_holds p"])
    show "stages ?C (sy_store y) (sy_store (set_sender t p ?y))" using assms(2) stages_refl [OF ok] by auto
    show "moving y \<subseteq> moving (set_sender t p ?y) \<union> ?C" using m' m(3) by (simp only: split: if_split) blast
    show "moving (set_sender t p ?y) \<subseteq> moving y \<union> sender_holds p" using m by auto
    show "set (sy_issued (set_sender t p ?y)) \<subseteq> set (sy_issued y) \<union> moving (set_sender t p ?y)" using assms(4) m by auto
  qed (use assms in auto)
qed

lemma keeps_worker:
  assumes "well_formed y" "stages {} (sy_store y) (sy_store y')" "moving y' = moving y" "sy_issued y' = sy_issued y"
  shows "keeps y y'"
  using keepsI [OF assms(1,2), of "{}"] assms(3,4) by simp

lemma worker_moving:
  "worker_holds p = worker_holds (sy_worker y) \<Longrightarrow> moving (y\<lparr> sy_worker := p \<rparr>) = moving y"
  by (simp add: moving_def)

lemma keeps_phase:
  "keeps y z \<Longrightarrow> worker_holds p = worker_holds (sy_worker z) \<Longrightarrow> \<not> delivering p \<Longrightarrow> keeps y (z\<lparr> sy_worker := p \<rparr>)"
  by (simp add: keeps_def well_formed_def accounted_def worker_moving)

text \<open>The rest of a replay loop exists only while one of its commands is delivered.\<close>

definition todo_ok :: "'w track_system \<Rightarrow> bool" where
  "todo_ok y \<longleftrightarrow> sy_todo y \<noteq> None \<longrightarrow> delivering (sy_worker y)"

lemma step_todo: "track_step jobs capacity env y y' \<Longrightarrow> todo_ok y \<Longrightarrow> todo_ok y'"
  by (cases rule: track_step.cases) (auto simp: todo_ok_def set_sender_def after_command_def split: option.splits)

lemma step_keeps:
  assumes "track_step jobs capacity env y y'" "well_formed y" "todo_ok y"
  shows "keeps y y'"
proof -
  have ok: "pending_ok (sy_store y)" using assms(2) by (simp add: well_formed_def)
  have wf: "command_wf c" if "c \<in> moving y" for c using assms(2) that by (simp add: well_formed_def)
  have held: "c \<in> moving y" if "c \<in> sender_holds (sy_senders y t)" for c t using that by (auto simp: moving_def)
  note same = keeps_worker [OF assms(2)] and sender = keeps_sender [OF assms(2), where i = "sy_issued y"]
  show ?thesis using assms(1)
  proof cases
    case (submit t job s)
    then show ?thesis using same enqueue_begin_keeps(1) [OF ok] by (simp add: moving_simps)
  next
    case (submit_held t job c s p)
    then show ?thesis using keeps_sender [OF assms(2), of t s p "c # sy_issued y"] enqueue_begin_keeps(2) [OF ok] by auto
  next
    case (submit_panic t job)
    then show ?thesis using same stages_refl [OF ok] by (simp add: moving_simps)
  next
    case (depth_full t c)
    then show ?thesis using sender [of t "sy_store y" "Staging c"] wf [OF held, of c t] by auto
  next
    case (depth_free t c)
    then show ?thesis using sender [of t "sy_store y" "Sending c"] wf [OF held, of c t] by auto
  next
    case (send t c)
    let ?y = "y\<lparr> sy_channel := sy_channel y @ [c] \<rparr>"
    have c: "sender_holds (sy_senders y t) = {c}" using send(2) by auto
    have "moving ?y = insert c (moving y)" by (auto simp: moving_def)
    moreover have "c \<in> moving y" using c held [of c t] by simp
    ultimately have "moving ?y = moving y" by auto
    moreover have "c \<in> moving (set_sender t (Sent c) ?y)" by (simp add: moving_def set_sender_def)
    moreover note moving_set_sender [where t = t and p = "Sent c" and y = ?y]
    ultimately have "moving y' = moving y" using c send(1) by auto
    then show ?thesis using same stages_refl [OF ok] send by simp
  next
    case (send_full t c)
    then show ?thesis using sender [of t "sy_store y" "Staging c"] wf [OF held, of c t] by auto
  next
    case (stage t c s)
    have "stages {c} (sy_store y) s"
      using stage_on_queue_full_keeps [OF ok] wf [OF held, of c t] stage by (metis outcome.inject sender_holds.simps(4) singletonI)
    then show ?thesis using stage sender [of t s Idle] by simp
  next
    case (count t c)
    note m = moving_set_sender [where t = t and p = "Counted c" and y = "y\<lparr> sy_depth := sy_depth y + 1 \<rparr>", unfolded moving_simps]
    have "moving y' = moving y" using m count by auto
    then show ?thesis using same stages_refl [OF ok] count by simp
  next
    case (count_note t c)
    then show ?thesis using sender [of t "enqueue_note c (sy_store y)" Idle] note_stages(1) [OF ok, of c] by simp
  next
    case (receive c cs)
    then show ?thesis using same stages_refl [OF ok] by (auto simp: moving_def)
  next
    case (dequeue_note c)
    then show ?thesis using same note_stages(2) [OF ok, of c] by (simp add: moving_def)
  next
    case (end_count c)
    then show ?thesis using same note_stages(3) [OF ok] by (simp add: moving_def)
  next
    case (check_stale c)
    have "command_wf c" using wf check_stale(3) by (simp add: moving_def)
    then have "tc_revision c \<le> applied_revision (sy_store y) (demand_key c)" using check_stale(4) by simp
    moreover have "raises_to (sy_store y) (sy_store y)" by (simp add: raises_to_def)
    ultimately show ?thesis
      using keeps_raise [OF assms(2), of "after_command y" c] moving_after_command [of y] check_stale by simp
  next
    case (finish c ok s)
    then show ?thesis using keeps_finish [OF assms(2)] by simp
  next
    case (drain cs s)
    then show ?thesis using keeps_drain [OF assms(2)] by simp
  next
    case (replay c cs)
    then have "sy_todo y = None" using assms(3) by (auto simp: todo_ok_def)
    then show ?thesis using replay by (intro same) (auto simp: moving_def stages_refl ok)
  next
    case (requeue s)
    then show ?thesis using same enqueue_begin_keeps(1) [OF ok] by (simp add: moving_def)
  next
    case (requeue_held c s)
    have "keeps y (set_sender 0 (Holding c) (y\<lparr> sy_store := s, sy_issued := c # sy_issued y \<rparr>))"
      using requeue_held keeps_sender [OF assms(2), of 0 s "Holding c" "c # sy_issued y"] enqueue_begin_keeps(2) [OF ok] by auto
    from keeps_phase [OF this, of Requeued] show ?thesis using requeue_held by (simp add: set_sender_def)
  qed (use same stages_refl [OF ok] in \<open>simp_all add: moving_def\<close>)
qed

section \<open>Order of handled commands\<close>

definition log_order :: "log_entry \<Rightarrow> log_entry \<Rightarrow> bool" where
  \<comment> \<open>after a command has been applied, only newer commands of its key are handled, and after a wallet command
    only tracker commands of its mint that were issued later\<close>
  "log_order e f \<longleftrightarrow> lg_advanced e \<longrightarrow>
     (demand_key (lg_cmd f) = demand_key (lg_cmd e) \<longrightarrow> tc_revision (lg_cmd e) < tc_revision (lg_cmd f))
     \<and> (\<forall>m. demand_key (lg_cmd e) = (StreamWallet, Some m) \<longrightarrow> demand_key (lg_cmd f) = (StreamTracker, Some m) \<longrightarrow>
          last_issued_revision_for_mint (lg_issued e) StreamTracker m < tc_revision (lg_cmd f))"

definition marked :: "protocol_store \<Rightarrow> log_entry \<Rightarrow> bool" where
  "marked s e \<longleftrightarrow> lg_advanced e \<longrightarrow> tc_revision (lg_cmd e) \<le> applied_revision s (demand_key (lg_cmd e))
     \<and> (\<forall>m. demand_key (lg_cmd e) = (StreamWallet, Some m) \<longrightarrow>
          last_issued_revision_for_mint (lg_issued e) StreamTracker m \<le> applied_revision s (StreamTracker, Some m))"

definition log_ok :: "'w track_system \<Rightarrow> bool" where
  "log_ok y \<longleftrightarrow> sorted_wrt log_order (sy_log y) \<and> (\<forall>e \<in> set (sy_log y). marked (sy_store y) e)"

definition phase_ok :: "'w track_system \<Rightarrow> bool" where
  "phase_ok y \<longleftrightarrow> (\<forall>c. handling (sy_worker y) = Some c \<longrightarrow> applied_revision (sy_store y) (demand_key c) < tc_revision c)"

lemma marked_mono:
  "marked s e \<Longrightarrow> (\<And>k. applied_revision s k \<le> applied_revision s' k) \<Longrightarrow> marked s' e"
  unfolding marked_def by (meson order_trans)

lemma marked_log_order:
  "marked s e \<Longrightarrow> applied_revision s (demand_key (lg_cmd f)) < tc_revision (lg_cmd f) \<Longrightarrow> log_order e f"
  unfolding marked_def log_order_def by (auto elim: order_le_less_trans [rotated])

lemma step_log:
  assumes "track_step jobs capacity env y y'" "well_formed y" "todo_ok y" "log_ok y" "phase_ok y"
  shows "log_ok y'"
proof -
  have "marked (sy_store y') e" if "e \<in> set (sy_log y)" for e
    using step_keeps [OF assms(1-3)] assms(4) that marked_mono by (auto simp: keeps_def log_ok_def)
  then have old: "\<forall>e \<in> set (sy_log y). marked (sy_store y') e" by simp
  show ?thesis
  proof (cases "sy_log y' = sy_log y")
    case True
    then show ?thesis using assms(4) old by (simp add: log_ok_def)
  next
    case False
    with assms(1) obtain c ok s where c: "sy_worker y = Finishing c ok" "finish_command c ok (sy_store y) = Done s"
      "sy_store y' = s"
      "sy_log y' = sy_log y @ [\<lparr> lg_cmd = c, lg_advanced = command_advances c ok, lg_issued = ps_revision (sy_store y) \<rparr>]"
      (is "_ = _ @ [?e]")
      by (cases rule: track_step.cases) (simp_all add: set_sender_def after_command_def split: option.splits)
    have "command_wf c" using assms(2) c(1) by (auto simp: well_formed_def moving_def)
    then have "marked s ?e"
      using finish_command_advances [of c ok "sy_store y"] c(2) by (cases "command_advances c ok") (auto simp: marked_def)
    moreover have "applied_revision (sy_store y) (demand_key c) < tc_revision c" using assms(5) c(1) by (simp add: phase_ok_def)
    then have "\<forall>e \<in> set (sy_log y). log_order e ?e" using assms(4) marked_log_order [where f = ?e and s = "sy_store y"] by (simp add: log_ok_def)
    ultimately show ?thesis using c assms(4) old by (simp add: log_ok_def sorted_wrt_append)
  qed
qed

lemma step_phase:
  assumes "track_step jobs capacity env y y'" "well_formed y" "todo_ok y" "phase_ok y"
  shows "phase_ok y'"
proof (cases "handling (sy_worker y')")
  case (Some c)
  then have "delivering (sy_worker y')" by (cases "sy_worker y'") simp_all
  then have same: "applied_revision (sy_store y') = applied_revision (sy_store y)"
    using step_keeps [OF assms(1-3)] by (simp add: keeps_def)
  have wf: "command_wf c" if "sy_worker y = Checking c" using assms(2) that by (simp add: well_formed_def moving_def)
  have "applied_revision (sy_store y) (demand_key c) < tc_revision c"
    using assms(1,4) Some wf
    by (cases rule: track_step.cases) (simp_all add: phase_ok_def set_sender_def split: if_splits)
  with same Some show ?thesis by (simp add: phase_ok_def)
qed (simp add: phase_ok_def)

section \<open>A push is due\<close>

definition push_due :: "'w track_system \<Rightarrow> bool" where
  "push_due y \<longleftrightarrow> (wl_coalesce_deadline (sy_locals y) = None \<longleftrightarrow> wl_push_before_keys (sy_locals y) = None)
     \<and> (sy_pushed y < length (sy_log y) \<or> handling (sy_worker y) \<noteq> None
        \<or> (\<exists>c. sy_worker y = Checking c \<and> applied_revision (sy_store y) (demand_key c) < tc_revision c)
        \<longrightarrow> wl_coalesce_deadline (sy_locals y) \<noteq> None)"

lemma prepare_due:
  "wl_coalesce_deadline (track_worker_prepare_command_delivery now keys p wl) \<noteq> None"
  "wl_coalesce_deadline wl = None \<longleftrightarrow> wl_push_before_keys wl = None \<Longrightarrow>
     wl_push_before_keys (track_worker_prepare_command_delivery now keys p wl) \<noteq> None"
  by (auto simp: track_worker_prepare_command_delivery_def Let_def)

lemma push_due_frame:
  assumes "push_due y" "delivering (sy_worker y') \<Longrightarrow> applied_revision (sy_store y') = applied_revision (sy_store y)"
    "wl_coalesce_deadline (sy_locals y') = wl_coalesce_deadline (sy_locals y)"
    "wl_push_before_keys (sy_locals y') = wl_push_before_keys (sy_locals y)"
    "sy_log y' = sy_log y" "sy_pushed y' = sy_pushed y" "handling (sy_worker y') \<noteq> None \<longrightarrow> handling (sy_worker y) \<noteq> None"
    "\<forall>c. sy_worker y' = Checking c \<longrightarrow> sy_worker y = Checking c"
  shows "push_due y'"
proof -
  have "\<exists>c. sy_worker y = Checking c \<and> applied_revision (sy_store y) (demand_key c) < tc_revision c"
    if "sy_worker y' = Checking c" "applied_revision (sy_store y') (demand_key c) < tc_revision c" for c
    using that assms(2,8) by auto
  with assms(1,3-7) show ?thesis unfolding push_due_def by metis
qed

lemma step_pushed:
  assumes "track_step jobs capacity env y y'" "well_formed y" "todo_ok y" "push_due y"
  shows "push_due y'"
proof -
  have wf: "command_wf c" if "sy_worker y = Checking c \<or> sy_worker y = Delivering c" for c
    using assms(2) that by (auto simp: well_formed_def moving_def)
  have same: "delivering (sy_worker y') \<Longrightarrow> applied_revision (sy_store y') = applied_revision (sy_store y)"
    using step_keeps [OF assms(1-3)] by (simp add: keeps_def)
  show ?thesis using assms(1)
  proof cases
    case (deliver c applicable now)
    then have "applied_revision (sy_store y) (demand_key c) < tc_revision c \<longleftrightarrow> applicable" using wf by simp
    then show ?thesis
      using deliver assms(4) by (cases applicable) (auto simp: push_due_def prepare_due simp del: not_None_eq)
  next
    case (check c)
    then show ?thesis using wf assms(4) by (auto simp: push_due_def simp del: not_None_eq)
  next
    case (finish c ok s)
    then show ?thesis using assms(4) by (auto simp: push_due_def after_command_def split: option.splits)
  next
    case (check_stale c)
    then show ?thesis using assms(4) by (auto simp: push_due_def after_command_def split: option.splits)
  next
    case (push now wl push_ok w)
    then show ?thesis by (auto simp: push_due_def worker_locals_init_def)
  next
    case (beat dirty w now)
    then show ?thesis
      using assms(4) by (cases dirty) (auto simp: push_due_def prepare_due simp del: not_None_eq)
  qed (rule push_due_frame [OF assms(4) same]; simp add: set_sender_def)+
qed

section \<open>Runs\<close>

lemma step_poison:
  "track_step jobs capacity env y y' \<Longrightarrow> well_formed y \<Longrightarrow> sy_poisoned y \<longrightarrow> (\<exists>job \<in> jobs. panicking_job job) \<Longrightarrow>
     sy_poisoned y' \<longrightarrow> (\<exists>job \<in> jobs. panicking_job job)"
  by (cases rule: track_step.cases) (auto simp: set_sender_def well_formed_def dest: enqueue_begin_keeps(3))

lemma init_ok:
  assumes "pending_ok s"
  shows "well_formed (track_system_init s w)" "todo_ok (track_system_init s w)" "log_ok (track_system_init s w)"
    "phase_ok (track_system_init s w)" "push_due (track_system_init s w)"
  using assms by (simp_all add: track_system_init_def well_formed_def moving_def todo_ok_def log_ok_def phase_ok_def
      push_due_def worker_locals_init_def)

lemma new_store_ok [simp]: "pending_ok (protocol_store_new cap inflight_cap)"
  by (simp add: protocol_store_new_def pending_ok_def)

lemma run_ok:
  assumes "track_run jobs capacity env s y" "pending_ok s"
  shows "well_formed y \<and> todo_ok y" "log_ok y \<and> phase_ok y" "push_due y" "\<forall>c \<in> set (sy_issued y). accounted y c"
    "ps_pending_cap (sy_store y) = ps_pending_cap s" "sy_poisoned y \<longrightarrow> (\<exists>job \<in> jobs. panicking_job job)"
proof -
  have "(well_formed y \<and> todo_ok y) \<and> (log_ok y \<and> phase_ok y) \<and> push_due y \<and> (\<forall>c \<in> set (sy_issued y). accounted y c)
      \<and> ps_pending_cap (sy_store y) = ps_pending_cap s \<and> (sy_poisoned y \<longrightarrow> (\<exists>job \<in> jobs. panicking_job job))"
    using assms(1)
  proof induction
    case (start w)
    then show ?case using init_ok [OF assms(2), of w] by (simp add: track_system_init_def)
  next
    case (step y y')
    then have wf: "well_formed y" "todo_ok y" and due: "push_due y" by simp_all
    note keep = step_keeps [OF step.hyps(2) wf]
    have "accounted y' c" if "c \<in> set (sy_issued y')" for c
      using step.IH that keep accounted_kept [OF keep] by (cases "c \<in> set (sy_issued y)") (simp_all add: keeps_def)
    moreover have "log_ok y'" "phase_ok y'"
      using step.IH step_log [OF step.hyps(2) wf] step_phase [OF step.hyps(2) wf] by simp_all
    ultimately show ?case
      using keep step.IH step_todo [OF step.hyps(2) wf(2)] step_pushed [OF step.hyps(2) wf due] step_poison [OF step.hyps(2) wf(1)]
      by (simp add: keeps_def)
  qed
  then show "well_formed y \<and> todo_ok y" "log_ok y \<and> phase_ok y" "push_due y" "\<forall>c \<in> set (sy_issued y). accounted y c"
    "ps_pending_cap (sy_store y) = ps_pending_cap s" "sy_poisoned y \<longrightarrow> (\<exists>job \<in> jobs. panicking_job job)" by simp_all
qed

end
