(* ===== verification/Track_Claims.thy ===== *)
theory Track_Claims
  imports Track_Invariants
begin

text \<open>
  The properties of the subscription worker's protocol: coalescing of message bursts, and the runs of
  producers and worker under any interleaving. The witnesses follow one run, in which a producer pins a
  mint for the wallet and the worker handles the command.
\<close>

section \<open>Bursts\<close>

definition arb_effect :: "arb_track_requests_update \<Rightarrow> (string \<rightharpoonup> arb_track_active_entry) \<Rightarrow> string \<rightharpoonup> arb_track_active_entry" where
  "arb_effect u = hold_effect aae_pool are_pool (au_reconcile u) (au_active u) (au_removed u)"

definition momentum_effect ::
    "momentum_active_pools_update \<Rightarrow> (string \<times> string \<rightharpoonup> momentum_active_pool_entry) \<Rightarrow> string \<times> string \<rightharpoonup> momentum_active_pool_entry" where
  "momentum_effect u = hold_effect momentum_key momentum_removed_key (mu_full_active_snapshot u) (mu_active u) (mu_removed u)"

lemma arb_merge_effect:
  assumes "merge_arb_track_requests_updates us = Some u"
  shows "arb_effect u H = fold arb_effect us H"
proof -
  obtain am rm where maps: "drop_active_keys (fold (\<lambda>u. coalesce_update aae_pool are_pool (\<lambda>_ a. a) (au_reconcile u)
      (au_active u) (au_removed u)) us ([], [])) = (am, rm)" using prod.exhaust by blast
  then have "au_active u = map snd am" "au_removed u = map snd rm" "au_reconcile u = list_ex au_reconcile us"
    using assms by (auto simp: merge_arb_track_requests_updates_def split: if_splits)
  with arb.burst_effect [OF maps, of H] show ?thesis by (auto simp: arb_effect_def [abs_def] option.rel_eq)
qed

lemma momentum_merge_effect:
  assumes "merge_momentum_active_pools_updates us = Some u"
  shows "rel_option same_pool_stronger (momentum_effect u H k) (fold momentum_effect us H k)"
proof -
  obtain am rm where maps: "drop_active_keys (fold (\<lambda>u. coalesce_update momentum_key momentum_removed_key keep_position
      (mu_full_active_snapshot u) (mu_active u) (mu_removed u)) us ([], [])) = (am, rm)" using prod.exhaust by blast
  then have "mu_active u = map snd am" "mu_removed u = map snd rm"
    "mu_full_active_snapshot u = list_ex mu_full_active_snapshot us"
    using assms by (auto simp: merge_momentum_active_pools_updates_def split: if_splits)
  with momentum.burst_effect [OF maps, of H k] show ?thesis by (simp add: momentum_effect_def [abs_def])
qed

text \<open>
  C26. The merged arbitrage request has the effect of the burst, whatever pools were held before. The merged
  momentum message leaves the same pools, each pinned at least as strongly as the burst, one message after
  the other, would pin it.
\<close>

theorem burst_merged_exactly:
  assumes "merge_arb_track_requests_updates us = Some u" "merge_momentum_active_pools_updates ms = Some m"
  shows "arb_effect u H = fold arb_effect us H
    \<and> rel_option same_pool_stronger (momentum_effect m G k) (fold momentum_effect ms G k)"
  using arb_merge_effect [OF assms(1)] momentum_merge_effect [OF assms(2)] by simp

definition example_arb :: "arb_track_requests_update list" where
  "example_arb =
     [\<lparr> au_version = 1, au_ts_unix_ms = 10, au_active = [\<lparr> aae_pool = ''a'', aae_reason = Baseline, aae_readiness = Warmable \<rparr>],
        au_removed = [], au_reconcile = True \<rparr>,
      \<lparr> au_version = 1, au_ts_unix_ms = 20, au_active = [\<lparr> aae_pool = ''b'', aae_reason = MultiDex, aae_readiness = QuoteReady \<rparr>],
        au_removed = [\<lparr> are_pool = ''a'', are_reason = Cooldown \<rparr>], au_reconcile = False \<rparr>]"

definition example_momentum :: "momentum_active_pools_update list" where
  "example_momentum =
     [\<lparr> mu_version = 1, mu_ts_unix_ms = 10, mu_active = [\<lparr> mae_mint = ''m'', mae_pool = ''a'', mae_pin_reason = PinPosition \<rparr>],
        mu_removed = [], mu_full_active_snapshot = False \<rparr>,
      \<lparr> mu_version = 1, mu_ts_unix_ms = 20, mu_active = [\<lparr> mae_mint = ''m'', mae_pool = ''a'', mae_pin_reason = PinTracker \<rparr>],
        mu_removed = [], mu_full_active_snapshot = False \<rparr>]"

lemma example_bursts:
  "merge_arb_track_requests_updates example_arb = Some
     \<lparr> au_version = 1, au_ts_unix_ms = 20, au_active = [\<lparr> aae_pool = ''b'', aae_reason = MultiDex, aae_readiness = QuoteReady \<rparr>],
       au_removed = [\<lparr> are_pool = ''a'', are_reason = Cooldown \<rparr>], au_reconcile = True \<rparr>"
  "merge_momentum_active_pools_updates example_momentum = Some
     \<lparr> mu_version = 1, mu_ts_unix_ms = 20, mu_active = [\<lparr> mae_mint = ''m'', mae_pool = ''a'', mae_pin_reason = PinPosition \<rparr>],
       mu_removed = [], mu_full_active_snapshot = False \<rparr>"
  by code_simp+

theorem burst_merged_exactly_witness:
  "arb_effect (the (merge_arb_track_requests_updates example_arb)) (\<lambda>_. None) = fold arb_effect example_arb (\<lambda>_. None)
   \<and> rel_option same_pool_stronger
       (momentum_effect (the (merge_momentum_active_pools_updates example_momentum)) (\<lambda>_. None) (''m'', ''a''))
       (fold momentum_effect example_momentum (\<lambda>_. None) (''m'', ''a''))"
  using burst_merged_exactly [OF example_bursts] by (simp add: example_bursts)

text \<open>
  The merged momentum message can pin more strongly than the burst: a position that the second message
  downgrades to a tracker keeps its position pin.
\<close>

theorem merged_momentum_keeps_position:
  "momentum_effect (the (merge_momentum_active_pools_updates example_momentum)) (\<lambda>_. None) (''m'', ''a'')
     \<noteq> fold momentum_effect example_momentum (\<lambda>_. None) (''m'', ''a'')"
  by (simp add: example_bursts) (simp add: example_momentum_def momentum_effect_def hold_effect_def momentum_key_def)

section \<open>Runs\<close>

definition quiet :: "'w track_system \<Rightarrow> bool" where
  \<comment> \<open>nothing is under way\<close>
  "quiet y \<longleftrightarrow> \<not> sy_poisoned y \<and> sy_channel y = [] \<and> sy_depth y = 0 \<and> sy_senders y 1 = Idle \<and> sy_worker y = Receiving
     \<and> sy_todo y = None"

definition noted :: "immutable_track_command \<Rightarrow> protocol_store \<Rightarrow> protocol_store" where
  "noted c s = end_inflight (note_inflight_dequeued c (enqueue_note c s))"

text \<open>From a quiet state a submitted command can be sent, received and handled.\<close>

definition passing ::
    "'w track_system \<Rightarrow> immutable_track_command \<Rightarrow> sender_phase \<Rightarrow> worker_phase \<Rightarrow> protocol_store
     \<Rightarrow> immutable_track_command list \<Rightarrow> u64 \<Rightarrow> worker_locals \<Rightarrow> log_entry list \<Rightarrow> 'w track_system" where
  \<comment> \<open>the states on the way of the command\<close>
  "passing y c p k s channel depth wl lg = y\<lparr> sy_store := s, sy_channel := channel, sy_depth := depth,
     sy_senders := (sy_senders y)(1 := p), sy_worker := k, sy_locals := wl, sy_issued := c # sy_issued y, sy_log := lg \<rparr>"

lemma run_step_eq:
  "track_run jobs capacity env s y \<Longrightarrow> track_step jobs capacity env y z \<Longrightarrow> z = y' \<Longrightarrow> track_run jobs capacity env s y'"
  using track_run.step by blast

lemma passing_sel [simp]:
  "sy_store (passing y c p k s ch d wl lg) = s" "sy_channel (passing y c p k s ch d wl lg) = ch"
  "sy_depth (passing y c p k s ch d wl lg) = d" "sy_senders (passing y c p k s ch d wl lg) 1 = p"
  "sy_senders (passing y c p k s ch d wl lg) (Suc 0) = p"
  "sy_worker (passing y c p k s ch d wl lg) = k" "sy_locals (passing y c p k s ch d wl lg) = wl"
  "sy_log (passing y c p k s ch d wl lg) = lg" "sy_issued (passing y c p k s ch d wl lg) = c # sy_issued y"
  "sy_poisoned (passing y c p k s ch d wl lg) = sy_poisoned y" "sy_todo (passing y c p k s ch d wl lg) = sy_todo y"
  "sy_world (passing y c p k s ch d wl lg) = sy_world y"
  by (simp_all add: passing_def)

lemma passing_update [simp]:
  "set_sender (Suc 0) p' (passing y c p k s ch d wl lg) = passing y c p' k s ch d wl lg"
  "(passing y c p k s ch d wl lg)\<lparr> sy_store := s' \<rparr> = passing y c p k s' ch d wl lg"
  "(passing y c p k s ch d wl lg)\<lparr> sy_channel := ch' \<rparr> = passing y c p k s ch' d wl lg"
  "(passing y c p k s ch d wl lg)\<lparr> sy_depth := d' \<rparr> = passing y c p k s ch d' wl lg"
  "(passing y c p k s ch d wl lg)\<lparr> sy_worker := k' \<rparr> = passing y c p k' s ch d wl lg"
  "(passing y c p k s ch d wl lg)\<lparr> sy_locals := wl' \<rparr> = passing y c p k s ch d wl' lg"
  "(passing y c p k s ch d wl lg)\<lparr> sy_log := lg' \<rparr> = passing y c p k s ch d wl lg'"
  "(passing y c p k s ch d wl lg)\<lparr> sy_world := sy_world y \<rparr> = passing y c p k s ch d wl lg"
  by (simp_all add: passing_def set_sender_def)

lemma handled_from_quiet:
  assumes "track_run jobs capacity env s0 y" "quiet y" "job \<in> jobs" "0 < capacity"
    "enqueue_begin job (sy_store y) = Done (Some c, s1)" "command_wf c"
    "applied_revision (noted c s1) (demand_key c) < tc_revision c"
    "we_process env (tc_payload c) = (\<lambda>(w, b). (ok, w, b))" "finish_command c ok (noted c s1) = Done s2"
  obtains y' where "track_run jobs capacity env s0 y'" "quiet y'" "sy_store y' = s2" "sy_issued y' = c # sy_issued y"
    "sy_log y' = sy_log y @ [\<lparr> lg_cmd = c, lg_advanced = command_advances c ok, lg_issued = ps_revision (noted c s1) \<rparr>]"
proof -
  let ?run = "track_run jobs capacity env s0" and ?wl = "sy_locals y" and ?lg = "sy_log y"
  let ?s2 = "enqueue_note c s1" and ?s3 = "note_inflight_dequeued c (enqueue_note c s1)" and ?s4 = "noted c s1"
  let ?wl' = "track_worker_prepare_command_delivery 0 (we_subscribed env (sy_world y)) (tc_payload c) ?wl"
  let ?lg' = "?lg @ [\<lparr> lg_cmd = c, lg_advanced = command_advances c ok, lg_issued = ps_revision ?s4 \<rparr>]"
  have q: "\<not> sy_poisoned y" "sy_channel y = []" "sy_depth y = 0" "sy_senders y 1 = Idle" "sy_worker y = Receiving" "sy_todo y = None"
    using assms(2) by (simp_all add: quiet_def)
  have app: "is_applicable ?s4 c = Done True" using assms(6,7) by simp
  have "?run (passing y c (Holding c) Receiving s1 [] 0 ?wl ?lg)"
    by (rule run_step_eq [OF assms(1) track_step.submit_held [where t = 1 and p = "Holding c"]])
      (use assms q in \<open>auto simp: passing_def set_sender_def intro!: track_system.equality\<close>)
  then have "?run (passing y c (Sending c) Receiving s1 [] 0 ?wl ?lg)"
    by (rule run_step_eq [OF _ track_step.depth_free [where t = 1 and c = c]]) (use assms(4) in simp_all)
  then have "?run (passing y c (Sent c) Receiving s1 [c] 0 ?wl ?lg)"
    by (rule run_step_eq [OF _ track_step.send [where t = 1 and c = c]]) (use assms(4) in simp_all)
  then have "?run (passing y c (Counted c) Receiving s1 [c] 1 ?wl ?lg)"
    by (rule run_step_eq [OF _ track_step.count [where t = 1 and c = c]]) simp_all
  then have "?run (passing y c Idle Receiving ?s2 [c] 1 ?wl ?lg)"
    by (rule run_step_eq [OF _ track_step.count_note [where t = 1 and c = c]]) (use q in simp_all)
  then have "?run (passing y c Idle (Dequeued c) ?s2 [] 1 ?wl ?lg)"
    by (rule run_step_eq [OF _ track_step.receive [where c = c and cs = "[]"]]) simp_all
  then have "?run (passing y c Idle (Uncounting c) ?s3 [] 1 ?wl ?lg)"
    by (rule run_step_eq [OF _ track_step.dequeue_note [where c = c]]) (use q in simp_all)
  then have "?run (passing y c Idle (Ending c) ?s3 [] 0 ?wl ?lg)"
    by (rule run_step_eq [OF _ track_step.uncount [where c = c]]) simp_all
  then have "?run (passing y c Idle (Delivering c) ?s4 [] 0 ?wl ?lg)"
    by (rule run_step_eq [OF _ track_step.end_count [where c = c]]) (use q in \<open>simp_all add: noted_def\<close>)
  then have "?run (passing y c Idle (Checking c) ?s4 [] 0 ?wl' ?lg)"
    by (rule run_step_eq [OF _ track_step.deliver [where c = c and applicable = True and now = 0]]) (use q app in simp_all)
  then have "?run (passing y c Idle (Handling c) ?s4 [] 0 ?wl' ?lg)"
    by (rule run_step_eq [OF _ track_step.check [where c = c]]) (use q app in simp_all)
  then have "?run (passing y c Idle (Finishing c ok) ?s4 [] 0 ?wl' ?lg)"
    by (rule run_step_eq [OF _ track_step.handle [where c = c and ok = ok and w = "sy_world y"
          and barrier = "wl_restore_barrier_pending ?wl'"]]) (use assms(8) in simp_all)
  then have "?run (passing y c Idle Receiving s2 [] 0 ?wl' ?lg')"
    by (rule run_step_eq [OF _ track_step.finish [where c = c and ok = ok and s = s2]])
      (use q assms(9) in \<open>simp_all add: after_command_def\<close>)
  moreover have "quiet (passing y c Idle Receiving s2 [] 0 ?wl' ?lg')" using q by (simp add: quiet_def)
  ultimately show ?thesis using that by simp
qed

text \<open>The run of the witnesses: a wallet pin and its withdrawal, both handled.\<close>

definition example_env :: "unit worker_env" where
  "example_env = \<lparr> we_process = (\<lambda>_ (w, b). (True, w, b)), we_subscribed = (\<lambda>_. {}), we_retry = (\<lambda>w. w),
     we_push = (\<lambda>_ _ _ _ w. (True, w)), we_tick = (\<lambda>w. (False, w)) \<rparr>"

definition example_store :: protocol_store where
  "example_store = protocol_store_new 2 4"

definition example_jobs :: "track_worker_command set" where
  "example_jobs = {ApplyWalletPin 7, WithdrawWalletPin 7, TrackMint 7 None}"

definition pin_cmd :: immutable_track_command where
  "pin_cmd = command_new StreamWallet 1 (ApplyWalletPin 7)"

definition unpin_cmd :: immutable_track_command where
  "unpin_cmd = command_new StreamWallet 2 (WithdrawWalletPin 7)"

definition after_enqueue :: "track_worker_command \<Rightarrow> protocol_store \<Rightarrow> protocol_store" where
  "after_enqueue job s = snd (returned (enqueue_begin job s))"

definition after_pin :: protocol_store where
  "after_pin = returned (finish_command pin_cmd True (noted pin_cmd (after_enqueue (ApplyWalletPin 7) example_store)))"

lemmas track_eval = example_store_def protocol_store_new_def enqueue_begin_def
  try_dedupe_enqueue_def wrap_command_def next_revision_def revision_assigner_default_def bump_def pin_cmd_def unpin_cmd_def
  command_new_def finish_command_def command_advances_def track_protocol_should_advance_revision_def
  mark_applied_wallet_demand_def mark_applied_def stream_uses_per_mint_revision_def noted_def Let_def enqueue_note_def
  note_inflight_enqueued_def note_inflight_dequeued_def begin_inflight_def end_inflight_def raise_entry_def
  supersede_tracker_demand_for_mint_def last_issued_revision_for_mint_def saturating_add_def saturating_sub_def
  demand_key_def applied_revision_def

lemma pin_enqueued:
  "enqueue_begin (ApplyWalletPin 7) example_store = Done (Some pin_cmd, after_enqueue (ApplyWalletPin 7) example_store)"
  by (simp add: after_enqueue_def track_eval)

lemma pin_handled:
  "finish_command pin_cmd True (noted pin_cmd (after_enqueue (ApplyWalletPin 7) example_store)) = Done after_pin"
  "applied_revision (noted pin_cmd (after_enqueue (ApplyWalletPin 7) example_store)) (demand_key pin_cmd) < tc_revision pin_cmd"
  by (simp_all add: after_pin_def after_enqueue_def track_eval)

lemma after_pin_eq:
  "after_pin = example_store\<lparr> ps_revision := revision_assigner_default\<lparr> ra_wallet_mint_next := [(7, 1)] \<rparr>,
     ps_last_applied_wallet_mint := [(7, 1)] \<rparr>"
  by (simp add: after_pin_def after_enqueue_def track_eval)

lemma unpin_enqueued:
  "enqueue_begin (WithdrawWalletPin 7) after_pin = Done (Some unpin_cmd, after_enqueue (WithdrawWalletPin 7) after_pin)"
  by (simp add: after_enqueue_def after_pin_eq track_eval)

lemma unpin_handled:
  "\<exists>s. finish_command unpin_cmd True (noted unpin_cmd (after_enqueue (WithdrawWalletPin 7) after_pin)) = Done s"
  "applied_revision (noted unpin_cmd (after_enqueue (WithdrawWalletPin 7) after_pin)) (demand_key unpin_cmd) < tc_revision unpin_cmd"
  by (simp_all add: after_enqueue_def after_pin_eq track_eval)

lemma track_example_run:
  "\<exists>y. track_run example_jobs 8 example_env example_store y \<and> quiet y \<and> sy_issued y = [unpin_cmd, pin_cmd]
     \<and> length (sy_log y) = 2"
proof -
  have wf: "command_wf pin_cmd" "command_wf unpin_cmd" by (simp_all add: command_wf_def pin_cmd_def unpin_cmd_def)
  have env: "we_process example_env p = (\<lambda>(w, b). (True, w, b))" for p by (simp add: example_env_def)
  have adv: "command_advances pin_cmd True" "command_advances unpin_cmd True"
    by (simp_all add: command_advances_def track_protocol_should_advance_revision_def)
  have jobs: "ApplyWalletPin 7 \<in> example_jobs" "WithdrawWalletPin 7 \<in> example_jobs" by (simp_all add: example_jobs_def)
  let ?y0 = "track_system_init example_store ()"
  have q0: "quiet ?y0" "sy_store ?y0 = example_store" "sy_issued ?y0 = []" "sy_log ?y0 = []"
    by (simp_all add: quiet_def track_system_init_def)
  obtain y1 where y1: "track_run example_jobs 8 example_env example_store y1" "quiet y1" "sy_store y1 = after_pin"
    "sy_issued y1 = [pin_cmd]" "map lg_cmd (sy_log y1) = [pin_cmd]" "map lg_advanced (sy_log y1) = [True]"
    by (rule handled_from_quiet [OF track_run.start [of example_jobs 8 example_env example_store "()"] q0(1) jobs(1) _ _
          wf(1) pin_handled(2) env pin_handled(1)]) (use q0 pin_enqueued adv in auto)
  obtain s where s: "finish_command unpin_cmd True (noted unpin_cmd (after_enqueue (WithdrawWalletPin 7) after_pin)) = Done s"
    using unpin_handled(1) by blast
  show ?thesis
    by (rule handled_from_quiet [OF y1(1,2) jobs(2) _ _ wf(2) unpin_handled(2) env s])
      (use y1 arg_cong [OF y1(5), of length] unpin_enqueued in auto)
qed

section \<open>Properties of every run\<close>

text \<open>
  C11. However producers and worker interleave: once a command has been applied, the worker handles only
  newer commands of the same demand key, and once a wallet pin or withdrawal has been applied, it handles
  no tracker command of that mint that had been issued before.
\<close>

theorem handled_in_revision_order:
  assumes "track_run jobs capacity env (protocol_store_new cap inflight_cap) y"
  shows "sorted_wrt log_order (sy_log y)"
  using run_ok(2) [OF assms new_store_ok] by (simp add: log_ok_def)

theorem handled_in_revision_order_witness:
  "\<exists>y. track_run example_jobs 8 example_env (protocol_store_new 2 4) y \<and> length (sy_log y) = 2 \<and> sorted_wrt log_order (sy_log y)"
proof -
  obtain y where y: "track_run example_jobs 8 example_env example_store y" "length (sy_log y) = 2"
    using track_example_run by blast
  with handled_in_revision_order [OF y(1) [unfolded example_store_def]] show ?thesis by (auto simp: example_store_def)
qed

text \<open>
  C10. No demand is lost silently: of every command issued so far, a revision at least as new has been
  applied for its demand key, or the command itself (for the other streams a merged one that carries at
  least its revision), or a newer one of the key, is under way, is pending, or was counted as evicted.
\<close>

theorem no_demand_lost_silently:
  assumes "track_run jobs capacity env (protocol_store_new cap inflight_cap) y" "c \<in> set (sy_issued y)"
  shows "tc_revision c \<le> applied_revision (sy_store y) (demand_key c)
    \<or> (\<exists>c' \<in> set (ps_pending (sy_store y)) \<union> moving y \<union> set (ps_evicted (sy_store y)). covers c' c)"
proof -
  have "accounted y c" using run_ok(4) [OF assms(1) new_store_ok] assms(2) by simp
  then show ?thesis by (auto simp: accounted_def retained_def)
qed

theorem no_demand_lost_silently_witness:
  "\<exists>y. track_run example_jobs 8 example_env (protocol_store_new 2 4) y \<and> pin_cmd \<in> set (sy_issued y)
     \<and> (tc_revision pin_cmd \<le> applied_revision (sy_store y) (demand_key pin_cmd)
        \<or> (\<exists>c' \<in> set (ps_pending (sy_store y)) \<union> moving y \<union> set (ps_evicted (sy_store y)). covers c' pin_cmd))"
proof -
  obtain y where y: "track_run example_jobs 8 example_env (protocol_store_new 2 4) y" "sy_issued y = [unpin_cmd, pin_cmd]"
    using track_example_run unfolding example_store_def by blast
  then have "pin_cmd \<in> set (sy_issued y)" by simp
  with y(1) no_demand_lost_silently [OF y(1) this] show ?thesis by blast
qed

text \<open>
  C37. The pending store stays within its capacity in every run (a capacity of zero still holds one command),
  and after every handled command a push falls due: until it has run, its deadline is set.
\<close>

theorem pending_bounded_and_push_due:
  assumes "track_run jobs capacity env (protocol_store_new cap inflight_cap) y"
  shows "length (ps_pending (sy_store y)) \<le> max 1 cap
    \<and> (sy_pushed y < length (sy_log y) \<longrightarrow> (\<exists>deadline. \<forall>now \<ge> deadline. should_push now (sy_locals y)))"
proof
  have cap: "ps_pending_cap (sy_store y) = cap" using run_ok(5) [OF assms new_store_ok] by (simp add: protocol_store_new_def)
  have "pending_ok (sy_store y)" using run_ok(1) [OF assms new_store_ok] by (simp add: well_formed_def)
  then show "length (ps_pending (sy_store y)) \<le> max 1 cap" unfolding pending_ok_def cap by blast
  show "sy_pushed y < length (sy_log y) \<longrightarrow> (\<exists>deadline. \<forall>now \<ge> deadline. should_push now (sy_locals y))"
  proof
    assume "sy_pushed y < length (sy_log y)"
    with run_ok(3) [OF assms new_store_ok] have due: "wl_coalesce_deadline (sy_locals y) \<noteq> None"
      "wl_push_before_keys (sy_locals y) \<noteq> None" unfolding push_due_def by metis+
    then obtain deadline where "wl_coalesce_deadline (sy_locals y) = Some deadline" by blast
    with due(2) show "\<exists>deadline. \<forall>now \<ge> deadline. should_push now (sy_locals y)"
      by (intro exI [of _ deadline]) (simp add: should_push_def)
  qed
qed

theorem pending_bounded_and_push_due_witness:
  "\<exists>y. track_run example_jobs 8 example_env (protocol_store_new 2 4) y \<and> length (sy_log y) = 2
     \<and> length (ps_pending (sy_store y)) \<le> 2
     \<and> (sy_pushed y < length (sy_log y) \<longrightarrow> (\<exists>deadline. \<forall>now \<ge> deadline. should_push now (sy_locals y)))"
proof -
  obtain y where y: "track_run example_jobs 8 example_env (protocol_store_new 2 4) y" "length (sy_log y) = 2"
    using track_example_run unfolding example_store_def by blast
  with pending_bounded_and_push_due [OF y(1)] y(1) show ?thesis by (intro exI [of _ y]) simp
qed



section \<open>What the protocol does not promise\<close>

definition staged_then_overtaken :: "track_worker_command \<Rightarrow> track_worker_command \<Rightarrow> immutable_track_command list outcome" where
  \<comment> \<open>the first command finds the queue full and is staged, the second one is delivered and applied; what the
    drain then replays\<close>
  "staged_then_overtaken first second =
     bind_outcome (wrap_command first (protocol_store_new 4 4)) (\<lambda>(c1, s).
     bind_outcome (stage_on_queue_full c1 s) (\<lambda>s.
     bind_outcome (wrap_command second s) (\<lambda>(c2, s).
     bind_outcome (finish_command c2 True s) (\<lambda>s.
     bind_outcome (take_applicable_pending_sorted s) (\<lambda>(cs, s). Done cs)))))"

text \<open>
  The control stream has one revision for unrelated commands, and the message streams one for deltas: a
  staged restore, a staged batch of mints or a staged delta is dropped when a later command of its stream
  passes it through the queue.
\<close>

lemma overtaken_is_dropped:
  "staged_then_overtaken (RestoreExplicitSnapshot 0) ScheduleGeyserPush = Done []"
  "staged_then_overtaken (TrackMints [(1, None), (2, None)]) ScheduleGeyserPush = Done []"
  "staged_then_overtaken (ApplyArbTrackRequests u) (ApplyArbTrackRequests v) = Done []"
  "staged_then_overtaken (ApplyMomentumActivePools m) (ApplyMomentumActivePools n) = Done []"
  by (simp_all add: staged_then_overtaken_def track_eval stage_on_queue_full_def coalesce_with_pending_def is_sync_intent_def
      coalesce_burst_def push_pending_def take_applicable_pending_sorted_def stream_order_def is_applicable_def
      last_applied_for_cmd_def)

text \<open>
  A producer notes a sent intent only after the send, so the worker may already have dequeued it: the
  counter stays at one with nothing under way, and every later intent of that strength is taken for a
  duplicate.
\<close>

lemma late_note_swallows_intents:
  fixes c s
  defines "c \<equiv> command_new StreamControl 1 ScheduleGeyserPush"
    and "s \<equiv> enqueue_note c (end_inflight (note_inflight_dequeued c (protocol_store_new 4 4)))"
  shows "ps_pending s = []" "try_dedupe_enqueue ScheduleGeyserPush s = Done (True, s)"
    "try_dedupe_enqueue ScheduleGeyserPushDebounced s = Done (True, s)"
  unfolding c_def s_def
  by (simp_all add: track_eval inflight_sync_strength_max_def)

end
