(* ===== verification/Orca_U256.thy ===== *)
theory Orca_U256
  imports Iron_Prelude
begin

text \<open>
  The 256-bit integers of the Whirlpool mathematics (module \<open>whirlpool_math::u256\<close> of
  \<open>solana/dex/orca_tick_walker.rs\<close>): four words of 64 bits, least significant first, with schoolbook
  multiplication and Knuth's division. An index outside the array and a failed \<open>unwrap\<close> are the outcome \<open>Panic\<close>.
  Left out: the operations that no quote uses (\<open>mul\<close>, \<open>get_add_inverse\<close>, the comparisons other than \<open>lte\<close>, printing).
\<close>

unbundle bit_operations_syntax

datatype math_error =
    DivideByZero
  | MulDivOverflow
  | MultiplicationOverflow
  | MultiplicationShiftRightOverflow
  | TokenMaxExceeded
  | TokenMinSubceeded
  | SqrtPriceOutOfBounds
  | NumberDownCastError
  | LiquidityOverflow
  | LiquidityUnderflow

type_synonym u256 = "u64 list" \<comment> \<open>of length four\<close>

section \<open>Words\<close>

definition lo_word :: "u128 \<Rightarrow> u64" where
  "lo_word x = ucast (x AND ucast (- 1 :: u64))"

definition lo_u128 :: "u128 \<Rightarrow> u128" where
  "lo_u128 x = x AND ucast (- 1 :: u64)"

definition hi_word :: "u128 \<Rightarrow> u64" where
  "hi_word x = ucast (drop_bit 64 x)"

definition hi_u128 :: "u128 \<Rightarrow> u128" where
  "hi_u128 x = drop_bit 64 x"

definition hi_lo :: "u64 \<Rightarrow> u64 \<Rightarrow> u128" where
  "hi_lo hi lo = push_bit 64 (as_u128 hi) OR as_u128 lo"

definition u256_new :: "u128 \<Rightarrow> u128 \<Rightarrow> u256" where
  "u256_new h l = [lo_word l, hi_word l, lo_word h, hi_word h]"

definition u256_zero :: u256 where
  "u256_zero = u256_new 0 0"

definition num_words :: "u256 \<Rightarrow> nat" where
  "num_words x = (case find (\<lambda>i. x ! i \<noteq> 0) (rev [0 ..< length x]) of None \<Rightarrow> 0 | Some i \<Rightarrow> i + 1)"

definition shift_word_left :: "u256 \<Rightarrow> u256" where
  "shift_word_left x = 0 # take 3 x"

definition checked_shift_word_left :: "u256 \<Rightarrow> u256 option" where
  "checked_shift_word_left x = (if x ! 3 > 0 then None else Some (shift_word_left x))"

text \<open>The shifts by less than a word: every word takes over bits of its neighbour.\<close>

definition shift_bits_left :: "nat \<Rightarrow> u256 \<Rightarrow> u256" where
  "shift_bits_left s x = map (\<lambda>i. if i = 0 then push_bit s (x ! 0)
     else push_bit s (x ! i) OR drop_bit (64 - s) (x ! (i - 1))) [0 ..< 4]"

definition shift_bits_right :: "nat \<Rightarrow> u256 \<Rightarrow> u256" where
  "shift_bits_right s x = map (\<lambda>i. if i = 3 then drop_bit s (x ! 3)
     else drop_bit s (x ! i) OR push_bit (64 - s) (x ! (i + 1))) [0 ..< 4]"

definition shift_word_right :: "u256 \<Rightarrow> u256" where
  "shift_word_right x = tl x @ [0]"

fun shift_left :: "nat \<Rightarrow> u256 \<Rightarrow> u256" where
  "shift_left s x =
     (if s \<ge> 256 then u256_zero
      else if s \<ge> 64 then shift_left (s - 64) (shift_word_left x)
      else if s = 0 then x else shift_bits_left s x)"

fun shift_right :: "nat \<Rightarrow> u256 \<Rightarrow> u256" where
  "shift_right s x =
     (if s \<ge> 256 then u256_zero
      else if s \<ge> 64 then shift_right (s - 64) (shift_word_right x)
      else if s = 0 then x else shift_bits_right s x)"

declare shift_left.simps [simp del] shift_right.simps [simp del]

definition u256_lte :: "u256 \<Rightarrow> u256 \<Rightarrow> bool" where
  "u256_lte x y = (case find (\<lambda>i. x ! i \<noteq> y ! i) (rev [0 ..< 4]) of None \<Rightarrow> True | Some i \<Rightarrow> x ! i < y ! i)"

definition try_into_u128 :: "u256 \<Rightarrow> math_error + u128" where
  "try_into_u128 x = (if num_words x > 2 then Inl NumberDownCastError
     else Inr (push_bit 64 (as_u128 (x ! 1)) OR as_u128 (x ! 0)))"

definition u256_is_zero :: "u256 \<Rightarrow> bool" where
  "u256_is_zero x = list_all (\<lambda>w. w = 0) x"

fun add_words :: "u64 list \<Rightarrow> u64 list \<Rightarrow> u128 \<Rightarrow> u64 list" where
  "add_words (x # xs) (y # ys) carry =
     (let t = as_u128 x + as_u128 y + carry in lo_word t # add_words xs ys (hi_u128 t))"
| "add_words _ _ carry = []"

definition u256_add :: "u256 \<Rightarrow> u256 \<Rightarrow> u256" where
  "u256_add x y = add_words x y 0"

fun sub_words :: "u64 list \<Rightarrow> u64 list \<Rightarrow> u64 \<Rightarrow> u64 list" where
  "sub_words (x # xs) (y # ys) carry =
     (let t0 = x - y; t1 = t0 - carry in t1 # sub_words xs ys (if x < y \<or> t0 < carry then 1 else 0))"
| "sub_words _ _ carry = []"

definition u256_sub :: "u256 \<Rightarrow> u256 \<Rightarrow> u256" where
  "u256_sub x y = sub_words x y 0"

definition mul_u256 :: "u128 \<Rightarrow> u128 \<Rightarrow> u256" where
  "mul_u256 v n =
     (let c0 = lo_u128 v * lo_u128 n;
          a1 = lo_u128 v * hi_u128 n;
          b0 = hi_u128 v * lo_u128 n;
          c1 = hi_u128 c0 + lo_u128 a1 + lo_u128 b0;
          c0 = hi_lo (lo_word c1) (lo_word c0);
          c1 = hi_u128 v * hi_u128 n + hi_u128 c1 + hi_u128 a1 + hi_u128 b0
      in u256_new c1 c0)"

lemma unat_hi_word: "unat (hi_word x) = unat x div 2 ^ 64"
proof -
  have "unat x div 2 ^ 64 < 2 ^ 64" using unsigned_less [of x, where ?'a = nat] by (simp add: less_mult_imp_div_less)
  then show ?thesis by (simp add: hi_word_def unsigned_ucast_eq drop_bit_eq_div take_bit_eq_mod unat_div)
qed

section \<open>Division\<close>

fun div_single :: "nat \<Rightarrow> u256 \<Rightarrow> u128 \<Rightarrow> u256 \<times> u128 \<Rightarrow> u256 \<times> u128" where
  \<comment> \<open>the divisor has one word; from the word below the given number downwards\<close>
  "div_single 0 dividend d2 s = s"
| "div_single (Suc j) dividend d2 (quot, k) =
     (let d1 = hi_lo (lo_word k) (dividend ! j); q = d1 div d2
      in div_single j dividend d2 (quot[j := lo_word q], d1 - d2 * q))"

text \<open>
  The trial digit is lowered until it fits the two leading words of the divisor. The leading word \<open>d1\<close>
  is not zero: the division by it precedes.
\<close>

function correct_qhat :: "u64 \<Rightarrow> u64 \<Rightarrow> u128 \<Rightarrow> u128 \<Rightarrow> u128 \<Rightarrow> u128 \<Rightarrow> u128" where
  "correct_qhat d1 d1_2 qhat rhat cmp1 cmp2 =
     (if d1 \<noteq> 0 \<and> (hi_word qhat \<noteq> 0 \<or> cmp2 > cmp1) then
        let qhat = qhat - 1; rhat = rhat + as_u128 d1 in
        if hi_word rhat \<noteq> 0 then qhat
        else correct_qhat d1 d1_2 qhat rhat (hi_lo (lo_word rhat) (lo_word cmp1)) (cmp2 - as_u128 d1_2)
      else qhat)"
  by auto

termination
proof (relation "measure (\<lambda>(d1, d1_2, qhat, rhat, cmp1, cmp2). if unat rhat < 2 ^ 64 then 2 ^ 64 - unat rhat else 2 ^ 64 + 1)")
  fix d1 d1_2 :: u64 and qhat rhat cmp1 cmp2 q r :: u128
  assume d1: "d1 \<noteq> 0 \<and> (hi_word qhat \<noteq> 0 \<or> cmp1 < cmp2)" and r: "r = rhat + as_u128 d1" "\<not> hi_word r \<noteq> 0"
  from r(2) have "unat (hi_word r) = 0" by simp
  then have small: "unat r < 2 ^ 64" by (simp add: unat_hi_word div_eq_0_iff)
  have "0 < unat d1" using d1 by (simp add: unat_gt_0)
  moreover have "unat r = unat rhat + unat d1" if "unat rhat < 2 ^ 64"
    using that unat_lt_u64 [of d1] unfolding r(1) by (subst unat_add_small) simp_all
  ultimately show "((d1, d1_2, q, r, hi_lo (lo_word r) (lo_word cmp1), cmp2 - as_u128 d1_2), (d1, d1_2, qhat, rhat, cmp1, cmp2))
      \<in> measure (\<lambda>(d1, d1_2, qhat, rhat, cmp1, cmp2). if unat rhat < 2 ^ 64 then 2 ^ 64 - unat rhat else 2 ^ 64 + 1)"
    using small by auto
qed simp

declare correct_qhat.simps [simp del]

fun sub_product :: "u128 \<Rightarrow> u64 list \<Rightarrow> u64 list \<Rightarrow> u128 \<Rightarrow> u64 list \<times> u128" where
  \<comment> \<open>subtracts the product with the trial digit from a slice of the dividend; the last \<open>k\<close> is the borrow\<close>
  "sub_product qhat (x # xs) (v # vs) k =
     (let p = qhat * as_u128 v;
          t = as_u128 x - k - lo_u128 p;
          (ys, k) = sub_product qhat xs vs (as_u128 (hi_word p - hi_word t))
      in (lo_word t # ys, k))"
| "sub_product qhat xs vs k = (xs, k)"

fun add_divisor :: "u64 list \<Rightarrow> u64 list \<Rightarrow> u128 \<Rightarrow> u64 list \<times> u128" where
  "add_divisor (x # xs) (v # vs) k =
     (let t = as_u128 x + as_u128 v + k; (ys, k) = add_divisor xs vs (hi_u128 t) in (lo_word t # ys, k))"
| "add_divisor xs vs k = (xs, k)"

definition div_loop ::
    "nat \<Rightarrow> nat \<Rightarrow> u256 \<Rightarrow> u64 \<Rightarrow> u256 \<Rightarrow> u256 \<Rightarrow> (u256 \<times> u256 \<times> u64) outcome" where
  \<comment> \<open>quotient, dividend and carry space after one digit; the digit taken back when the carry space is the head
    reads the word 4 of the dividend\<close>
  "div_loop index n dividend carry divisor quot =
     (let use_carry = (index + n = 4);
          head = (if use_carry then carry else dividend ! (index + n));
          d0 = hi_lo head (dividend ! (index + n - 1));
          d1 = divisor ! (n - 1);
          qhat = d0 div as_u128 d1;
          rhat = d0 - as_u128 d1 * qhat;
          d0_2 = dividend ! (index + n - 2);
          d1_2 = divisor ! (n - 2);
          qhat = correct_qhat d1 d1_2 qhat rhat (hi_lo (lo_word rhat) d0_2) (qhat * as_u128 d1_2);
          (slice, k) = sub_product qhat (take n (drop index dividend)) (take n divisor) 0;
          t = lo_word (as_u128 head - k);
          dividend = take index dividend @ slice @ drop (index + n) dividend;
          (dividend, carry') = (if use_carry then (dividend, t) else (dividend[index + n := t], carry))
      in if k > as_u128 head then
           (let (slice, k) = add_divisor slice (take n divisor) 0;
                dividend = take index dividend @ slice @ drop (index + n) dividend
            in if use_carry then Panic
               else Done (quot[index := lo_word (qhat - 1)],
                      dividend[index + n := lo_word (as_u128 (dividend ! (index + n)) + k)], carry'))
         else Done (quot[index := lo_word qhat], dividend, carry'))"

fun div_digits :: "nat \<Rightarrow> nat \<Rightarrow> u256 \<Rightarrow> u64 \<Rightarrow> u256 \<Rightarrow> u256 \<Rightarrow> (u256 \<times> u256) outcome" where
  "div_digits 0 n dividend carry divisor quot = Done (quot, dividend)"
| "div_digits (Suc j) n dividend carry divisor quot =
     bind_outcome (div_loop j n dividend carry divisor quot) (\<lambda>(quot, dividend, carry).
       div_digits j n dividend carry divisor quot)"

definition leading_zeros :: "u64 \<Rightarrow> nat" where
  "leading_zeros x = (case find (bit x) (rev [0 ..< 64]) of None \<Rightarrow> 64 | Some i \<Rightarrow> 63 - i)"

definition u256_div :: "u256 \<Rightarrow> u256 \<Rightarrow> bool \<Rightarrow> (u256 \<times> u256) outcome" where
  "u256_div dividend divisor return_remainder =
     (let m = num_words dividend; n = num_words divisor in
      if n = 0 then Panic
      else if m = 0 then Done (u256_zero, u256_zero)
      else if m < n then Done (u256_zero, if return_remainder then dividend else u256_zero)
      else if m < 3 then
        (case (try_into_u128 dividend, try_into_u128 divisor) of
           (Inr a, Inr b) \<Rightarrow>
             Done (u256_new 0 (a div b), if return_remainder then u256_new 0 (a mod b) else u256_zero)
         | _ \<Rightarrow> Panic)
      else if n = 1 then
        (let (quot, k) = div_single m dividend (as_u128 (divisor ! 0)) (u256_zero, 0)
         in Done (quot, if return_remainder then u256_new 0 k else u256_zero))
      else
        (let s = leading_zeros (divisor ! (n - 1));
             b = leading_zeros (dividend ! (m - 1));
             carry = (if m = 4 \<and> b < s then drop_bit (64 - s) (dividend ! (m - 1)) else 0)
         in bind_outcome (div_digits (m - n + 1) n (shift_left s dividend) carry (shift_left s divisor) u256_zero)
              (\<lambda>(quot, dividend).
                 Done (quot, if return_remainder then shift_right s dividend else u256_zero))))"

end
