(* ===== verification/Orca_Math.thy ===== *)
theory Orca_Math
  imports Orca_U256
begin

text \<open>
  The swap mathematics of the Whirlpool program as the quotes run it (the modules \<open>bit\<close>, \<open>tick\<close>, \<open>token\<close>, \<open>liquidity\<close>
  and \<open>swap\<close> of \<open>whirlpool_math\<close> in \<open>solana/dex/orca_tick_walker.rs\<close>). A \<open>Result\<close> is a sum; the code under it
  may panic, so a result is an outcome of a sum. Prices are square roots in Q64.64.
  Left out: the liquidity estimates and the shift-and-round variants, which no quote calls.
\<close>

type_synonym i128 = "128 word" \<comment> \<open>two's complement, read by \<open>sint\<close>\<close>

fun and_then :: "(math_error + 'a) outcome \<Rightarrow> ('a \<Rightarrow> (math_error + 'b) outcome) \<Rightarrow> (math_error + 'b) outcome" where
  \<comment> \<open>\<open>?\<close>\<close>
  "and_then Panic f = Panic"
| "and_then (Done (Inl e)) f = Done (Inl e)"
| "and_then (Done (Inr x)) f = f x"

section \<open>Multiplication and division\<close>

definition q64_resolution :: nat where
  "q64_resolution = 64"

definition q64_mask :: u128 where
  "q64_mask = 0xFFFFFFFFFFFFFFFF"

definition checked_mul_div_round_up_if :: "u128 \<Rightarrow> u128 \<Rightarrow> u128 \<Rightarrow> bool \<Rightarrow> math_error + u128" where
  "checked_mul_div_round_up_if n0 n1 d round_up =
     (if d = 0 then Inl DivideByZero
      else case u128_checked_mul n0 n1 of
        None \<Rightarrow> Inl MulDivOverflow
      | Some p \<Rightarrow> Inr (if round_up \<and> p mod d > 0 then p div d + 1 else p div d))"

definition checked_mul_div :: "u128 \<Rightarrow> u128 \<Rightarrow> u128 \<Rightarrow> math_error + u128" where
  "checked_mul_div n0 n1 d = checked_mul_div_round_up_if n0 n1 d False"

definition checked_mul_div_round_up :: "u128 \<Rightarrow> u128 \<Rightarrow> u128 \<Rightarrow> math_error + u128" where
  "checked_mul_div_round_up n0 n1 d = checked_mul_div_round_up_if n0 n1 d True"

definition div_round_up_if :: "u128 \<Rightarrow> u128 \<Rightarrow> bool \<Rightarrow> math_error + u128" where
  "div_round_up_if n d round_up =
     (if d = 0 then Inl DivideByZero else Inr (if round_up \<and> n mod d > 0 then n div d + 1 else n div d))"

definition div_round_up_if_u256 :: "u256 \<Rightarrow> u256 \<Rightarrow> bool \<Rightarrow> (math_error + u128) outcome" where
  "div_round_up_if_u256 n d round_up =
     bind_outcome (u256_div n d round_up) (\<lambda>(quot, remainder).
       Done (try_into_u128 (if round_up \<and> \<not> u256_is_zero remainder then u256_add quot (u256_new 0 1) else quot)))"

section \<open>Prices of ticks\<close>

definition max_sqrt_price_x64 :: u128 where
  "max_sqrt_price_x64 = 79226673515401279992447579055"

definition min_sqrt_price_x64 :: u128 where
  "min_sqrt_price_x64 = 4295048016"

definition mul_shift_96 :: "u128 \<Rightarrow> u128 \<Rightarrow> u128 outcome" where
  "mul_shift_96 n0 n1 = (case try_into_u128 (shift_right 96 (mul_u256 n0 n1)) of Inl e \<Rightarrow> Panic | Inr v \<Rightarrow> Done v)"

text \<open>One factor for each bit of the tick from bit 1 upwards, in the order of the code.\<close>

definition positive_factors :: "(nat \<times> u128) list" where
  "positive_factors =
    [(1, 79236085330515764027303304731), (2, 79244008939048815603706035061), (3, 79259858533276714757314932305),
     (4, 79291567232598584799939703904), (5, 79355022692464371645785046466), (6, 79482085999252804386437311141),
     (7, 79736823300114093921829183326), (8, 80248749790819932309965073892), (9, 81282483887344747381513967011),
     (10, 83390072131320151908154831281), (11, 87770609709833776024991924138), (12, 97234110755111693312479820773),
     (13, 119332217159966728226237229890), (14, 179736315981702064433883588727), (15,
     407748233172238350107850275304), (16, 2098478828474011932436660412517), (17,
     55581415166113811149459800483533), (18, 38992368544603139932233054999993551)]"

definition negative_factors :: "(nat \<times> u128) list" where
  "negative_factors =
    [(1, 18444899583751176498), (2, 18443055278223354162), (3, 18439367220385604838), (4, 18431993317065449817),
     (5, 18417254355718160513), (6, 18387811781193591352), (7, 18329067761203520168), (8, 18212142134806087854),
     (9, 17980523815641551639), (10, 17526086738831147013), (11, 16651378430235024244), (12, 15030750278693429944),
     (13, 12247334978882834399), (14, 8131365268884726200), (15, 3584323654723342297), (16, 696457651847595233),
     (17, 26294789957452057), (18, 37481735321082)]"

definition get_sqrt_price_positive_tick :: "i32 \<Rightarrow> u128 outcome" where
  "get_sqrt_price_positive_tick tick =
     bind_outcome
       (foldl (\<lambda>ratio (k, factor). bind_outcome ratio (\<lambda>r. if bit tick k then mul_shift_96 r factor else Done r))
          (Done (if bit tick 0 then 79232123823359799118286999567 else 79228162514264337593543950336)) positive_factors)
       (\<lambda>ratio. Done (drop_bit 32 ratio))"

definition get_sqrt_price_negative_tick :: "i32 \<Rightarrow> u128" where
  "get_sqrt_price_negative_tick tick =
     (let abs_tick = (if sint tick < 0 then - tick else tick) in
      foldl (\<lambda>ratio (k, factor). if bit abs_tick k then drop_bit 64 (ratio * factor) else ratio)
        (if bit abs_tick 0 then 18445821805675392311 else 18446744073709551616) negative_factors)"

definition sqrt_price_from_tick_index :: "i32 \<Rightarrow> u128 outcome" where
  "sqrt_price_from_tick_index tick =
     (if 0 \<le> sint tick then get_sqrt_price_positive_tick tick else Done (get_sqrt_price_negative_tick tick))"

section \<open>Amounts between two prices\<close>

definition fee_rate_mul_value :: u128 where
  "fee_rate_mul_value = 1000000"

datatype amount_delta = Valid u64 | ExceedsMax math_error

fun delta_lte :: "amount_delta \<Rightarrow> u64 \<Rightarrow> bool" where
  "delta_lte (Valid v) other \<longleftrightarrow> v \<le> other"
| "delta_lte (ExceedsMax e) other \<longleftrightarrow> False"

fun delta_exceeds_max :: "amount_delta \<Rightarrow> bool" where
  "delta_exceeds_max (Valid v) \<longleftrightarrow> False"
| "delta_exceeds_max (ExceedsMax e) \<longleftrightarrow> True"

fun delta_value :: "amount_delta \<Rightarrow> u64 outcome" where
  "delta_value (Valid v) = Done v"
| "delta_value (ExceedsMax e) = Panic"

definition increasing_price_order :: "u128 \<Rightarrow> u128 \<Rightarrow> u128 \<times> u128" where
  "increasing_price_order p0 p1 = (if p0 > p1 then (p1, p0) else (p0, p1))"

definition try_get_amount_delta_a :: "u128 \<Rightarrow> u128 \<Rightarrow> u128 \<Rightarrow> bool \<Rightarrow> (math_error + amount_delta) outcome" where
  "try_get_amount_delta_a p0 p1 liquidity round_up =
     (let (lower, upper) = increasing_price_order p0 p1;
          diff = upper - lower
      in case checked_shift_word_left (mul_u256 liquidity diff) of
           None \<Rightarrow> Done (Inl MultiplicationOverflow)
         | Some numerator \<Rightarrow>
             bind_outcome (u256_div numerator (mul_u256 upper lower) round_up) (\<lambda>(quot, remainder).
               Done (Inr
                 (case try_into_u128 (if round_up \<and> \<not> u256_is_zero remainder then u256_add quot (u256_new 0 1) else quot) of
                    Inr result \<Rightarrow> if result > as_u128 u64_max then ExceedsMax TokenMaxExceeded else Valid (as_u64 result)
                  | Inl err \<Rightarrow> ExceedsMax err))))"

definition try_get_amount_delta_b :: "u128 \<Rightarrow> u128 \<Rightarrow> u128 \<Rightarrow> bool \<Rightarrow> math_error + amount_delta" where
  "try_get_amount_delta_b p0 p1 liquidity round_up =
     (let (lower, upper) = increasing_price_order p0 p1;
          n1 = upper - lower
      in if liquidity = 0 \<or> n1 = 0 then Inr (Valid 0)
         else Inr (case u128_checked_mul liquidity n1 of
           Some p \<Rightarrow>
             (let result = as_u64 (drop_bit q64_resolution p); should_round = (round_up \<and> p AND q64_mask > 0)
              in if should_round \<and> result = u64_max then ExceedsMax MultiplicationOverflow
                 else Valid (if should_round then result + 1 else result))
         | None \<Rightarrow> ExceedsMax MultiplicationShiftRightOverflow))"

definition delta_result :: "amount_delta \<Rightarrow> (math_error + u64) outcome" where
  "delta_result d = (case d of Valid v \<Rightarrow> Done (Inr v) | ExceedsMax e \<Rightarrow> Done (Inl e))"

definition get_amount_delta_a :: "u128 \<Rightarrow> u128 \<Rightarrow> u128 \<Rightarrow> bool \<Rightarrow> (math_error + u64) outcome" where
  "get_amount_delta_a p0 p1 liquidity round_up =
     and_then (try_get_amount_delta_a p0 p1 liquidity round_up) delta_result"

definition get_amount_delta_b :: "u128 \<Rightarrow> u128 \<Rightarrow> u128 \<Rightarrow> bool \<Rightarrow> (math_error + u64) outcome" where
  "get_amount_delta_b p0 p1 liquidity round_up =
     and_then (Done (try_get_amount_delta_b p0 p1 liquidity round_up)) delta_result"

section \<open>The price after an amount\<close>

definition get_next_sqrt_price_from_a_round_up :: "u128 \<Rightarrow> u128 \<Rightarrow> u64 \<Rightarrow> bool \<Rightarrow> (math_error + u128) outcome" where
  "get_next_sqrt_price_from_a_round_up sqrt_price liquidity amount is_input =
     (if amount = 0 then Done (Inr sqrt_price)
      else
        let product = mul_u256 sqrt_price (as_u128 amount) in
        case checked_shift_word_left (mul_u256 liquidity sqrt_price) of
          None \<Rightarrow> Done (Inl MultiplicationOverflow)
        | Some numerator \<Rightarrow>
            (let shifted = shift_word_left (u256_new 0 liquidity) in
             if \<not> is_input \<and> u256_lte shifted product then Done (Inl DivideByZero)
             else
               let denominator = (if is_input then u256_add shifted product else u256_sub shifted product) in
               and_then (div_round_up_if_u256 numerator denominator True) (\<lambda>price.
                 Done (if price < min_sqrt_price_x64 then Inl TokenMinSubceeded
                       else if price > max_sqrt_price_x64 then Inl TokenMaxExceeded
                       else Inr price))))"

definition get_next_sqrt_price_from_b_round_down :: "u128 \<Rightarrow> u128 \<Rightarrow> u64 \<Rightarrow> bool \<Rightarrow> math_error + u128" where
  "get_next_sqrt_price_from_b_round_down sqrt_price liquidity amount is_input =
     (let amount_x64 = push_bit q64_resolution (as_u128 amount) in
      case div_round_up_if amount_x64 liquidity (\<not> is_input) of
        Inl e \<Rightarrow> Inl e
      | Inr delta \<Rightarrow>
          if is_input
          then (case u128_checked_add sqrt_price delta of None \<Rightarrow> Inl SqrtPriceOutOfBounds | Some p \<Rightarrow> Inr p)
          else if delta \<le> sqrt_price then Inr (sqrt_price - delta) else Inl SqrtPriceOutOfBounds)"

definition get_next_sqrt_price :: "u128 \<Rightarrow> u128 \<Rightarrow> u64 \<Rightarrow> bool \<Rightarrow> bool \<Rightarrow> (math_error + u128) outcome" where
  "get_next_sqrt_price sqrt_price liquidity amount is_input a_to_b =
     (if is_input = a_to_b then get_next_sqrt_price_from_a_round_up sqrt_price liquidity amount is_input
      else Done (get_next_sqrt_price_from_b_round_down sqrt_price liquidity amount is_input))"

definition add_liquidity_delta :: "u128 \<Rightarrow> i128 \<Rightarrow> math_error + u128" where
  "add_liquidity_delta liquidity delta =
     (if delta = 0 then Inr liquidity
      else if 0 < sint delta then
        (case u128_checked_add liquidity delta of None \<Rightarrow> Inl LiquidityOverflow | Some v \<Rightarrow> Inr v)
      else if - delta \<le> liquidity then Inr (liquidity - (- delta)) else Inl LiquidityUnderflow)"

section \<open>One swap step\<close>

record swap_step =
  ss_amount_in :: u64
  ss_amount_out :: u64
  ss_next_price :: u128
  ss_fee_amount :: u64

definition try_get_amount_fixed_delta :: "u128 \<Rightarrow> u128 \<Rightarrow> u128 \<Rightarrow> bool \<Rightarrow> bool \<Rightarrow> (math_error + amount_delta) outcome" where
  "try_get_amount_fixed_delta current target liquidity is_input a_to_b =
     (if a_to_b = is_input then try_get_amount_delta_a current target liquidity is_input
      else Done (try_get_amount_delta_b current target liquidity is_input))"

definition get_amount_fixed_delta :: "u128 \<Rightarrow> u128 \<Rightarrow> u128 \<Rightarrow> bool \<Rightarrow> bool \<Rightarrow> (math_error + u64) outcome" where
  "get_amount_fixed_delta current target liquidity is_input a_to_b =
     (if a_to_b = is_input then get_amount_delta_a current target liquidity is_input
      else get_amount_delta_b current target liquidity is_input)"

definition get_amount_unfixed_delta :: "u128 \<Rightarrow> u128 \<Rightarrow> u128 \<Rightarrow> bool \<Rightarrow> bool \<Rightarrow> (math_error + u64) outcome" where
  "get_amount_unfixed_delta current target liquidity is_input a_to_b =
     (if a_to_b = is_input then get_amount_delta_b current target liquidity (\<not> is_input)
      else get_amount_delta_a current target liquidity (\<not> is_input))"

definition as_amount :: "math_error + u128 \<Rightarrow> (math_error + u64) outcome" where
  \<comment> \<open>\<open>?.try_into().map_err(..)?\<close>\<close>
  "as_amount r = (case r of
     Inl e \<Rightarrow> Done (Inl e)
   | Inr v \<Rightarrow> (case u64_try_from_u128 v of None \<Rightarrow> Done (Inl TokenMaxExceeded) | Some w \<Rightarrow> Done (Inr w)))"

definition compute_swap ::
    "u64 \<Rightarrow> u32 \<Rightarrow> u128 \<Rightarrow> u128 \<Rightarrow> u128 \<Rightarrow> bool \<Rightarrow> bool \<Rightarrow> (math_error + swap_step) outcome" where
  "compute_swap remaining fee_rate liquidity current target is_input a_to_b =
     and_then (try_get_amount_fixed_delta current target liquidity is_input a_to_b) (\<lambda>initial.
     and_then (if is_input
         then as_amount (checked_mul_div (as_u128 remaining) (fee_rate_mul_value - ucast fee_rate) fee_rate_mul_value)
         else Done (Inr remaining)) (\<lambda>amount_calc.
     and_then (if delta_lte initial amount_calc then Done (Inr target)
         else get_next_sqrt_price current liquidity amount_calc is_input a_to_b) (\<lambda>next_price.
     let is_max_swap = (next_price = target) in
     and_then (get_amount_unfixed_delta current next_price liquidity is_input a_to_b) (\<lambda>unfixed.
     and_then (if \<not> is_max_swap \<or> delta_exceeds_max initial
         then get_amount_fixed_delta current next_price liquidity is_input a_to_b
         else bind_outcome (delta_value initial) (\<lambda>v. Done (Inr v))) (\<lambda>fixed.
     let (amount_in, amount_out) = (if is_input then (fixed, unfixed) else (unfixed, fixed));
         amount_out = (if \<not> is_input \<and> amount_out > remaining then remaining else amount_out)
     in and_then (if is_input \<and> \<not> is_max_swap then Done (Inr (remaining - amount_in))
          else as_amount (checked_mul_div_round_up (as_u128 amount_in) (ucast fee_rate) (fee_rate_mul_value - ucast fee_rate)))
          (\<lambda>fee. Done (Inr \<lparr>ss_amount_in = amount_in, ss_amount_out = amount_out, ss_next_price = next_price, ss_fee_amount = fee\<rparr>)))))))"

end
