(* ===== verification/Orca_Ticks.thy ===== *)
theory Orca_Ticks
  imports Account_Layout Orca_Math "HOL-Library.Signed_Division"
begin

text \<open>
  Whirlpool tick arrays (\<open>solana/dex/orca_tick_array.rs\<close>): the start index of the array that holds a tick, the arrays
  a swap reads, the parsers of the classic and the dynamic account layout, and the builders of such accounts. The
  derivation of a program address is the SDK's: the argument \<open>pda\<close> takes the pool and the start index to the key.
\<close>

definition tick_array_size :: i32 where
  "tick_array_size = 88"

definition tick_array_discriminator :: "u8 list" where
  "tick_array_discriminator = [0x45, 0x61, 0xbd, 0xbe, 0x6e, 0x07, 0x42, 0xbb]"

definition dynamic_tick_array_discriminator :: "u8 list" where
  "dynamic_tick_array_discriminator = [0x11, 0xd8, 0xf6, 0x8e, 0xe1, 0xc7, 0xda, 0x38]"

definition tick_len :: nat where
  "tick_len = 113"

definition dynamic_tick_header_len :: nat where
  "dynamic_tick_header_len = 4 + 32 + 16"

definition dynamic_tick_min_account_len :: nat where
  "dynamic_tick_min_account_len = 8 + dynamic_tick_header_len + 88"

definition tick_account_body_len :: nat where
  "tick_account_body_len = 4 + tick_len * 88 + 32"

definition min_tick_array_account_len :: nat where
  "min_tick_array_account_len = 8 + tick_account_body_len"

record parsed_tick =
  pt_tick_index :: i32
  pt_initialized :: bool
  pt_liquidity_net :: i128

record parsed_tick_array =
  pta_whirlpool :: pubkey
  pta_start_tick_index :: i32
  pta_ticks :: "parsed_tick list"

section \<open>The arrays of a swap\<close>

definition i32_div_euclid :: "i32 \<Rightarrow> i32 \<Rightarrow> i32 outcome" where
  "i32_div_euclid a b =
     (if b = 0 \<or> (sint a = - (2 ^ 31) \<and> sint b = - 1) then Panic
      else Done (word_of_int (if 0 < sint b then sint a div sint b else - (sint a div (- sint b)))))"

definition get_tick_array_start_index :: "i32 \<Rightarrow> i32 \<Rightarrow> i32 outcome" where
  "get_tick_array_start_index tick_index tick_spacing =
     bind_outcome (i32_div_euclid tick_index tick_spacing) (\<lambda>slots.
     bind_outcome (i32_div_euclid slots tick_array_size) (\<lambda>real_index.
       Done (real_index * tick_spacing * tick_array_size)))"

definition planned_orca_tick_array_pubkeys :: "(pubkey \<Rightarrow> i32 \<Rightarrow> pubkey) \<Rightarrow> pubkey \<Rightarrow> i32 \<Rightarrow> i32 \<Rightarrow> pubkey list outcome" where
  "planned_orca_tick_array_pubkeys pda pool tick_now tick_spacing =
     (let w = tick_spacing * tick_array_size in
      bind_outcome (get_tick_array_start_index tick_now tick_spacing) (\<lambda>s0.
        Done [pda pool (s0 - 2 * w), pda pool (s0 - w), pda pool s0, pda pool (s0 + w), pda pool (s0 + 2 * w)]))"

definition swap_direction_tick_array_starts :: "i32 \<Rightarrow> i32 \<Rightarrow> bool \<Rightarrow> (i32 \<times> i32 \<times> i32) outcome" where
  "swap_direction_tick_array_starts tick_now tick_spacing a_to_b =
     (let ticks_per_array = tick_spacing * tick_array_size in
      bind_outcome (get_tick_array_start_index tick_now tick_spacing) (\<lambda>s0.
        let (s1, s2) =
          (if a_to_b then (let s_prev = s0 - ticks_per_array in (s_prev, s_prev - ticks_per_array))
           else (let s_next = s0 + ticks_per_array in (s_next, s_next + ticks_per_array)))
        in Done (s0, s1, s2)))"

definition tick_index_at_slot :: "i32 \<Rightarrow> nat \<Rightarrow> u16 \<Rightarrow> i32" where
  "tick_index_at_slot start slot tick_spacing = start + of_nat slot * ucast tick_spacing"

section \<open>Parsers\<close>

definition parse_tick_bytes :: "i32 \<Rightarrow> u8 list \<Rightarrow> parsed_tick option" where
  "parse_tick_bytes tick_index data =
     (if length data < tick_len then None
      else Some \<lparr>pt_tick_index = tick_index, pt_initialized = (data ! 0 \<noteq> 0),
                 pt_liquidity_net = from_le_bytes (take 16 (drop 1 data))\<rparr>)"

fun classic_ticks :: "i32 \<Rightarrow> u8 list \<Rightarrow> nat list \<Rightarrow> nat \<Rightarrow> parsed_tick list option" where
  "classic_ticks start body [] offset = Some []"
| "classic_ticks start body (i # slots) offset =
     Option.bind (checked_slice body offset tick_len) (\<lambda>tick_slice.
     Option.bind (parse_tick_bytes (start + of_nat i) tick_slice) (\<lambda>parsed.
       map_option ((#) parsed) (classic_ticks start body slots (offset + tick_len))))"

definition parse_classic_tick_array :: "u8 list \<Rightarrow> parsed_tick_array option outcome" where
  "parse_classic_tick_array data =
     (if length data < min_tick_array_account_len then Done None
      else if take 8 data \<noteq> tick_array_discriminator then Done None
      else
        let body = drop 8 data; offset = 4 + 88 * tick_len in
        bind_outcome (word_at body 0 4) (\<lambda>start :: i32.
          case classic_ticks start body [0 ..< 88] 4 of
            None \<Rightarrow> Done None
          | Some ticks \<Rightarrow>
              bind_outcome (pubkey_at body offset) (\<lambda>whirlpool.
                Done (if offset + 32 \<noteq> length body then None
                      else Some \<lparr>pta_whirlpool = whirlpool, pta_start_tick_index = start, pta_ticks = ticks\<rparr>))))"

fun dynamic_ticks :: "i32 \<Rightarrow> u128 \<Rightarrow> u8 list \<Rightarrow> nat list \<Rightarrow> nat \<Rightarrow> parsed_tick list option" where
  "dynamic_ticks start bitmap tick_data [] offset = Some []"
| "dynamic_ticks start bitmap tick_data (slot # slots) offset =
     (if bit bitmap slot then
        Option.bind (checked_slice tick_data offset 113) (\<lambda>tick_slice.
          map_option ((#) \<lparr>pt_tick_index = start + of_nat slot, pt_initialized = (tick_slice ! 0 = 1),
              pt_liquidity_net = (if tick_slice ! 0 = 1 then from_le_bytes (take 16 (drop 1 tick_slice)) else 0)\<rparr>)
            (dynamic_ticks start bitmap tick_data slots (offset + 113)))
      else
        map_option ((#) \<lparr>pt_tick_index = start + of_nat slot, pt_initialized = False, pt_liquidity_net = 0\<rparr>)
          (dynamic_ticks start bitmap tick_data slots (offset + 1)))"

definition parse_dynamic_tick_array :: "u8 list \<Rightarrow> parsed_tick_array option outcome" where
  "parse_dynamic_tick_array data =
     (if length data < dynamic_tick_min_account_len then Done None
      else
        let body = drop 8 data in
        bind_outcome (word_at body 0 4) (\<lambda>start :: i32.
        bind_outcome (pubkey_at body 4) (\<lambda>whirlpool.
        bind_outcome (word_at body 36 16) (\<lambda>bitmap :: u128.
          Done (map_option (\<lambda>ticks. \<lparr>pta_whirlpool = whirlpool, pta_start_tick_index = start, pta_ticks = ticks\<rparr>)
            (dynamic_ticks start bitmap (drop 52 body) [0 ..< 88] 0))))))"

definition parse_tick_array :: "u8 list \<Rightarrow> parsed_tick_array option outcome" where
  "parse_tick_array data =
     (if length data < 8 then Done None
      else if take 8 data = tick_array_discriminator then parse_classic_tick_array data
      else if take 8 data = dynamic_tick_array_discriminator then parse_dynamic_tick_array data
      else Done None)"

section \<open>Builders\<close>

definition le_bytes :: "nat \<Rightarrow> nat \<Rightarrow> u8 list" where
  "le_bytes n k = map (\<lambda>i. of_nat (k div 256 ^ i)) [0 ..< n]"

definition to_le_bytes :: "nat \<Rightarrow> 'a::len word \<Rightarrow> u8 list" where
  \<comment> \<open>\<open>to_le_bytes\<close> of an integer of the given number of bytes\<close>
  "to_le_bytes n w = le_bytes n (unat w)"

definition pubkey_to_bytes :: "pubkey \<Rightarrow> u8 list" where
  "pubkey_to_bytes k = rev (le_bytes 32 (unat k))"

definition tick_data_bytes :: "bool \<Rightarrow> i128 \<Rightarrow> u8 list" where
  "tick_data_bytes init liquidity_net = (if init then 1 else 0) # to_le_bytes 16 liquidity_net @ replicate 96 0"

definition build_tick_array_account_bytes :: "i32 \<Rightarrow> pubkey \<Rightarrow> u16 \<Rightarrow> (i32 \<times> bool \<times> i128) list \<Rightarrow> u8 list" where
  "build_tick_array_account_bytes start whirlpool tick_spacing tick_updates =
     tick_array_discriminator @ to_le_bytes 4 start
     @ concat (map (\<lambda>slot.
         case find (\<lambda>(idx, init, net). idx = start + of_nat slot * ucast tick_spacing) tick_updates of
           None \<Rightarrow> replicate tick_len 0
         | Some (_, init, net) \<Rightarrow> tick_data_bytes init net) [0 ..< 88])
     @ pubkey_to_bytes whirlpool"

definition build_dynamic_tick_array_account_bytes :: "i32 \<Rightarrow> pubkey \<Rightarrow> nat \<Rightarrow> i128 \<Rightarrow> u8 list" where
  "build_dynamic_tick_array_account_bytes start whirlpool initialized_slot liquidity_net =
     dynamic_tick_array_discriminator @ to_le_bytes 4 start @ pubkey_to_bytes whirlpool
     @ to_le_bytes 16 (push_bit initialized_slot 1 :: u128)
     @ concat (map (\<lambda>slot. if slot = initialized_slot then tick_data_bytes True liquidity_net else [0]) [0 ..< 88])"

end
