(* ===== verification/Orca_Walker.thy ===== *)
theory Orca_Walker
  imports Orca_Ticks
begin

text \<open>
  The exact-input quote of a Whirlpool (\<open>solana/dex/orca_tick_walker.rs\<close>, below \<open>whirlpool_math\<close>): the direction from the
  two mints, the search of the next initialised tick over the three arrays of the direction, and the walk. The text
  form of a public key is the SDK's and the argument \<open>to_string\<close>. The walk is a loop that nothing bounds from outside:
  it is a partial function, and that it returns is a theorem.
\<close>

record orca_quote_input =
  oq_pool :: pubkey
  oq_token_mint_a :: pubkey
  oq_token_mint_b :: pubkey
  oq_sqrt_price :: u128
  oq_liquidity :: u128
  oq_tick_current_index :: i32
  oq_tick_spacing :: u16
  oq_fee_rate :: u16

type_synonym orca_tick_arrays = "(i32, parsed_tick_array) hashmap"

definition mint_str_matches :: "(pubkey \<Rightarrow> string) \<Rightarrow> string \<Rightarrow> pubkey \<Rightarrow> bool" where
  "mint_str_matches to_string mint pk \<longleftrightarrow> mint = to_string pk"

definition resolve_a_to_b :: "(pubkey \<Rightarrow> string) \<Rightarrow> orca_quote_input \<Rightarrow> string \<Rightarrow> string \<Rightarrow> bool option" where
  "resolve_a_to_b to_string inp mint_in mint_out =
     (if mint_str_matches to_string mint_in (oq_token_mint_a inp) \<and> mint_str_matches to_string mint_out (oq_token_mint_b inp)
      then Some True
      else if mint_str_matches to_string mint_in (oq_token_mint_b inp) \<and> mint_str_matches to_string mint_out (oq_token_mint_a inp)
      then Some False
      else None)"

section \<open>One array\<close>

definition in_search_range :: "parsed_tick_array \<Rightarrow> i32 \<Rightarrow> u16 \<Rightarrow> bool \<Rightarrow> bool" where
  "in_search_range array tick_index tick_spacing shifted \<longleftrightarrow>
     (let ts = ucast tick_spacing;
          lower = pta_start_tick_index array;
          upper = pta_start_tick_index array + tick_array_size * ts;
          lower = (if shifted then lower - ts else lower);
          upper = (if shifted then upper - ts else upper)
      in sint lower \<le> sint tick_index \<and> sint tick_index < sint upper)"

definition tick_offset :: "parsed_tick_array \<Rightarrow> i32 \<Rightarrow> u16 \<Rightarrow> int option outcome" where
  "tick_offset array tick_index tick_spacing =
     (if sint tick_index < sint (pta_start_tick_index array) then Done None
      else
        let delta = sint (tick_index - pta_start_tick_index array); ts = sint (ucast tick_spacing :: i32) in
        if ts = 0 then Panic
        else if delta smod ts \<noteq> 0 then Done None
        else let offset = delta sdiv ts in
          Done (if 0 \<le> offset \<and> offset < sint tick_array_size then Some offset else None))"

function scan_ticks :: "parsed_tick list \<Rightarrow> bool \<Rightarrow> int \<Rightarrow> int option outcome" where
  \<comment> \<open>the \<open>while\<close> of \<open>get_next_init_tick_index\<close>\<close>
  "scan_ticks ticks a_to_b curr_offset =
     (if 0 \<le> curr_offset \<and> curr_offset < 88 then
        if nat curr_offset < length ticks then
          if pt_initialized (ticks ! nat curr_offset) then Done (Some curr_offset)
          else scan_ticks ticks a_to_b (if a_to_b then curr_offset - 1 else curr_offset + 1)
        else Panic
      else Done None)"
  by auto
termination by (relation "measure (\<lambda>(ticks, a_to_b, i). if a_to_b then nat (i + 1) else nat (88 - i))") auto

declare scan_ticks.simps [simp del]

definition get_next_init_tick_index :: "parsed_tick_array \<Rightarrow> i32 \<Rightarrow> u16 \<Rightarrow> bool \<Rightarrow> (unit + i32 option) outcome" where
  "get_next_init_tick_index array tick_index tick_spacing a_to_b =
     (if \<not> in_search_range array tick_index tick_spacing (\<not> a_to_b) then Done (Inl ())
      else bind_outcome (tick_offset array tick_index tick_spacing) (\<lambda>offset.
        case offset of
          None \<Rightarrow> Done (Inl ())
        | Some offset \<Rightarrow>
            bind_outcome (scan_ticks (pta_ticks array) a_to_b (if a_to_b then offset else offset + 1)) (\<lambda>found.
              Done (Inr (map_option (\<lambda>i. word_of_int i * ucast tick_spacing + pta_start_tick_index array) found)))))"

definition get_tick :: "parsed_tick_array \<Rightarrow> i32 \<Rightarrow> u16 \<Rightarrow> parsed_tick option outcome" where
  "get_tick array tick_index tick_spacing =
     bind_outcome (tick_offset array tick_index tick_spacing) (\<lambda>offset.
       case offset of
         None \<Rightarrow> Done None
       | Some i \<Rightarrow> if nat i < length (pta_ticks array) then Done (Some (pta_ticks array ! nat i)) else Panic)"

section \<open>The sequence of arrays\<close>

function get_next_initialized_tick_index ::
    "parsed_tick_array list \<Rightarrow> i32 \<Rightarrow> u16 \<Rightarrow> bool \<Rightarrow> nat \<Rightarrow> (unit + nat \<times> i32) outcome" where
  "get_next_initialized_tick_index arrays search_index tick_spacing a_to_b array_index =
     (if array_index < length arrays then
        let next_array = arrays ! array_index;
            ts = ucast tick_spacing;
            ticks_in_array = tick_array_size * ts
        in case get_next_init_tick_index next_array search_index tick_spacing a_to_b of
             Panic \<Rightarrow> Panic
           | Done (Inl e) \<Rightarrow> Done (Inl ())
           | Done (Inr (Some next_index)) \<Rightarrow> Done (Inr (array_index, next_index))
           | Done (Inr None) \<Rightarrow>
               if array_index + 1 = length arrays then
                 Done (Inr (array_index,
                   if a_to_b then pta_start_tick_index next_array
                   else pta_start_tick_index next_array + ticks_in_array - ts))
               else
                 let next_array_start = pta_start_tick_index (arrays ! (array_index + 1)) in
                 get_next_initialized_tick_index arrays
                   (if a_to_b then next_array_start + ticks_in_array - ts else next_array_start)
                   tick_spacing a_to_b (array_index + 1)
      else Done (Inl ()))"
  by auto
termination by (relation "measure (\<lambda>(arrays, _, _, _, i). length arrays - i)") auto

declare get_next_initialized_tick_index.simps [simp del]

definition get_tick_offset :: "parsed_tick_array list \<Rightarrow> nat \<Rightarrow> i32 \<Rightarrow> u16 \<Rightarrow> int option outcome" where
  "get_tick_offset arrays array_index tick_index tick_spacing =
     (if array_index < length arrays then tick_offset (arrays ! array_index) tick_index tick_spacing else Done None)"

definition get_next_sqrt_prices :: "i32 \<Rightarrow> u128 \<Rightarrow> bool \<Rightarrow> (u128 \<times> u128) outcome" where
  "get_next_sqrt_prices next_tick_index sqrt_price_limit a_to_b =
     bind_outcome (sqrt_price_from_tick_index next_tick_index) (\<lambda>next_tick_price.
       Done (next_tick_price, if a_to_b then max sqrt_price_limit next_tick_price else min sqrt_price_limit next_tick_price))"

section \<open>The walk\<close>

record walk_state =
  wk_amount_remaining :: u64
  wk_amount_calculated :: u64
  wk_sqrt_price :: u128
  wk_tick_index :: i32
  wk_liquidity :: u128
  wk_array_index :: nat

definition sqrt_price_limit :: "bool \<Rightarrow> u128" where
  "sqrt_price_limit a_to_b = (if a_to_b then min_sqrt_price_x64 else max_sqrt_price_x64)"

definition checked_u64 :: "bool \<Rightarrow> u64 \<Rightarrow> (math_error + u64) outcome" where
  \<comment> \<open>\<open>checked_sub\<close> and \<open>checked_add\<close> with \<open>.ok_or(MulDivOverflow)?\<close>\<close>
  "checked_u64 fits v = Done (if fits then Inr v else Inl MulDivOverflow)"

definition crossed_liquidity ::
    "parsed_tick_array list \<Rightarrow> nat \<Rightarrow> i32 \<Rightarrow> u16 \<Rightarrow> bool \<Rightarrow> u128 \<Rightarrow> (math_error + u128) outcome" where
  \<comment> \<open>the liquidity after the tick at which the step ended\<close>
  "crossed_liquidity arrays array_index tick_index tick_spacing a_to_b liquidity =
     (if array_index < length arrays then
        bind_outcome (get_tick (arrays ! array_index) tick_index tick_spacing) (\<lambda>tick.
          case tick of
            None \<Rightarrow> Done (Inr liquidity)
          | Some t \<Rightarrow>
              if pt_initialized t
              then Done (add_liquidity_delta liquidity (if a_to_b then - pt_liquidity_net t else pt_liquidity_net t))
              else Done (Inr liquidity))
      else Done (Inr liquidity))"

definition walk_step ::
    "orca_quote_input \<Rightarrow> parsed_tick_array list \<Rightarrow> bool \<Rightarrow> walk_state \<Rightarrow> (math_error + walk_state \<times> bool) outcome" where
  \<comment> \<open>the body of the \<open>while\<close>; the flag is its \<open>break\<close>\<close>
  "walk_step pool arrays a_to_b s =
     (let ts = oq_tick_spacing pool in
      case get_next_initialized_tick_index arrays (wk_tick_index s) ts a_to_b (wk_array_index s) of
        Panic \<Rightarrow> Panic
      | Done (Inl e) \<Rightarrow> Done (Inl DivideByZero)
      | Done (Inr (next_array_index, next_tick_index)) \<Rightarrow>
          bind_outcome (get_next_sqrt_prices next_tick_index (sqrt_price_limit a_to_b) a_to_b) (\<lambda>(next_tick_sqrt_price, sqrt_price_target).
          and_then (compute_swap (wk_amount_remaining s) (ucast (oq_fee_rate pool)) (wk_liquidity s) (wk_sqrt_price s)
              sqrt_price_target True a_to_b) (\<lambda>c.
          and_then (checked_u64 (ss_amount_in c \<le> wk_amount_remaining s) (wk_amount_remaining s - ss_amount_in c)) (\<lambda>rem.
          and_then (checked_u64 (ss_fee_amount c \<le> rem) (rem - ss_fee_amount c)) (\<lambda>rem.
          and_then (checked_u64 (unat (wk_amount_calculated s) + unat (ss_amount_out c) < 2 ^ 64)
              (wk_amount_calculated s + ss_amount_out c)) (\<lambda>out.
          and_then
            (if ss_next_price c = next_tick_sqrt_price then
               and_then (crossed_liquidity arrays next_array_index next_tick_index ts a_to_b (wk_liquidity s)) (\<lambda>liquidity.
               bind_outcome (get_tick_offset arrays next_array_index next_tick_index ts) (\<lambda>offset.
                 let tick_offset = (case offset of None \<Rightarrow> 0 | Some i \<Rightarrow> i) in
                 Done (Inr (liquidity,
                   if a_to_b \<and> tick_offset = 0 \<or> \<not> a_to_b \<and> tick_offset = sint tick_array_size - 1
                   then next_array_index + 1 else next_array_index,
                   if a_to_b then next_tick_index - 1 else next_tick_index))))
             else Done (Inr (wk_liquidity s, wk_array_index s, wk_tick_index s))) (\<lambda>(liquidity, array_index, tick_index).
            Done (Inr
              (\<lparr>wk_amount_remaining = rem, wk_amount_calculated = out, wk_sqrt_price = ss_next_price c,
                 wk_tick_index = tick_index, wk_liquidity = liquidity, wk_array_index = array_index\<rparr>,
               rem = 0 \<or> ss_next_price c = sqrt_price_target)))))))))"

partial_function (option) walk_loop ::
    "orca_quote_input \<Rightarrow> parsed_tick_array list \<Rightarrow> bool \<Rightarrow> walk_state \<Rightarrow> (math_error + walk_state) outcome option" where
  "walk_loop pool arrays a_to_b s =
     (if wk_amount_remaining s > 0 \<and> sqrt_price_limit a_to_b \<noteq> wk_sqrt_price s then
        (case walk_step pool arrays a_to_b s of
           Panic \<Rightarrow> Some Panic
         | Done r \<Rightarrow> (case r of
             Inl e \<Rightarrow> Some (Done (Inl e))
           | Inr (t, stop) \<Rightarrow> if stop then Some (Done (Inr t)) else walk_loop pool arrays a_to_b t))
      else Some (Done (Inr s)))"

definition walk_start :: "orca_quote_input \<Rightarrow> u64 \<Rightarrow> walk_state" where
  "walk_start pool amount_in =
     \<lparr>wk_amount_remaining = amount_in, wk_amount_calculated = 0, wk_sqrt_price = oq_sqrt_price pool,
      wk_tick_index = oq_tick_current_index pool, wk_liquidity = oq_liquidity pool, wk_array_index = 0\<rparr>"

definition try_quote_walk ::
    "orca_quote_input \<Rightarrow> parsed_tick_array list \<Rightarrow> bool \<Rightarrow> u64 \<Rightarrow> (math_error + u64) outcome option" where
  "try_quote_walk pool arrays a_to_b amount_in =
     map_option (\<lambda>result. and_then result (\<lambda>s.
         Done (if wk_amount_remaining s > 0 then Inl TokenMaxExceeded else Inr (wk_amount_calculated s))))
       (walk_loop pool arrays a_to_b (walk_start pool amount_in))"

definition orca_quote_exact_in ::
    "(pubkey \<Rightarrow> string) \<Rightarrow> orca_quote_input \<Rightarrow> orca_tick_arrays \<Rightarrow> string \<Rightarrow> string \<Rightarrow> u64 \<Rightarrow> u64 option outcome option" where
  \<comment> \<open>the outer \<open>None\<close>: the walk does not return\<close>
  "orca_quote_exact_in to_string pool ticks mint_in mint_out amount_in =
     (if oq_sqrt_price pool = 0 \<or> oq_liquidity pool = 0 \<or> amount_in = 0 then Some (Done None)
      else case resolve_a_to_b to_string pool mint_in mint_out of
        None \<Rightarrow> Some (Done None)
      | Some a_to_b \<Rightarrow>
          (case swap_direction_tick_array_starts (oq_tick_current_index pool) (ucast (oq_tick_spacing pool)) a_to_b of
             Panic \<Rightarrow> Some Panic
           | Done (s0, s1, s2) \<Rightarrow>
               (case (hm_get ticks s0, hm_get ticks s1, hm_get ticks s2) of
                  (Some arr0, Some arr1, Some arr2) \<Rightarrow>
                    if pta_whirlpool arr0 \<noteq> oq_pool pool \<or> pta_whirlpool arr1 \<noteq> oq_pool pool \<or> pta_whirlpool arr2 \<noteq> oq_pool pool
                    then Some (Done None)
                    else map_option (\<lambda>result. bind_outcome result (\<lambda>r.
                           case r of Inl e \<Rightarrow> Done None | Inr out \<Rightarrow> Done (if out = 0 then None else Some out)))
                         (try_quote_walk pool [arr0, arr1, arr2] a_to_b amount_in)
                | _ \<Rightarrow> Some (Done None))))"

end
