(* ===== verification/U256_Words.thy ===== *)
theory U256_Words
  imports Orca_U256
begin

text \<open>
  The 256-bit arithmetic of \<open>Orca_U256\<close> is exact: a list of words stands for the natural number \<open>wval\<close> in the
  radix \<open>2 ^ 64\<close>, and the count of words, the sum, the difference, the product and the shifts are proved
  against the operations on the numbers.
\<close>

section \<open>Digits\<close>

definition radix :: nat where
  "radix = 2 ^ 64"

primrec wval :: "u64 list \<Rightarrow> nat" where
  "wval [] = 0"
| "wval (x # xs) = unat x + radix * wval xs"

lemma radix_gt [simp]: "1 < radix" "0 < radix" "radix \<noteq> 0" "Suc 0 < radix" "Suc 0 \<le> radix"
  by (simp_all add: radix_def)

lemma word_lt_radix [simp]: "unat (x :: u64) < radix"
  using unat_lt_u64 by (simp add: radix_def)

lemma u128_lt_radix: "unat (x :: u128) < radix * radix"
  using unat_lt_u128 [of x] by (simp add: radix_def)

lemma radix_square: "radix * radix = 2 ^ 128"
  by (simp add: radix_def)

lemma unat_hi [simp]: "unat (hi_word x) = unat x div radix"
  by (simp add: unat_hi_word radix_def)

lemma unat_hi_u128 [simp]: "unat (hi_u128 x) = unat x div radix"
  by (simp add: hi_u128_def unat_drop_bit radix_def)

lemma mask_64: "ucast (- 1 :: u64) = (mask 64 :: u128)"
  by (rule bit_word_eqI) (auto simp: bit_simps)

lemma unat_lo_u128 [simp]: "unat (lo_u128 x) = unat x mod radix"
  unfolding lo_u128_def mask_64 take_bit_eq_mask [symmetric] unsigned_take_bit_eq by (simp add: take_bit_eq_mod radix_def)

lemma unat_lo [simp]: "unat (lo_word x) = unat x mod radix"
proof -
  have "lo_word x = ucast (lo_u128 x)" by (simp add: lo_word_def lo_u128_def)
  then show ?thesis by (simp add: unsigned_ucast_eq take_bit_eq_mod) (simp add: radix_def)
qed

lemma unat_cast_u128 [simp]: "unat (as_u128 x) = unat x"
  by simp

lemma unat_hi_lo [simp]: "unat (hi_lo h l) = unat h * radix + unat l"
proof -
  have "hi_lo h l = push_bit 64 (as_u128 h) + as_u128 l"
    unfolding hi_lo_def
    by (rule disjunctive_add_eq_or [symmetric], rule bit_word_eqI) (auto simp: as_u128_def bit_simps dest: bit_imp_le_length)
  moreover have "unat (push_bit 64 (as_u128 h)) = unat h * radix"
  proof -
    have "unat h * 2 ^ 64 < 2 ^ LENGTH(128)" using unat_lt_u64 [of h] by simp
    then show ?thesis unfolding unsigned_push_bit_eq by (simp only: unat_cast_u128 take_bit_eq_mod push_bit_eq_mult radix_def mod_less)
  qed
  moreover have "unat h * radix + unat l < 2 ^ LENGTH(128)"
  proof -
    have "unat h * radix + unat l < Suc (unat h) * radix" by simp
    also have "\<dots> \<le> radix * radix" by (intro mult_le_mono1) (simp add: Suc_leI)
    finally show ?thesis by (simp add: radix_square)
  qed
  ultimately show ?thesis by (simp add: unat_add_small)
qed

lemma wval_append: "wval (xs @ ys) = wval xs + radix ^ length xs * wval ys"
  by (induction xs) (simp_all add: algebra_simps)

lemma wval_lt: "wval xs < radix ^ length xs"
proof (induction xs)
  case (Cons x xs)
  have "unat x + radix * wval xs < radix * Suc (wval xs)" by simp
  also have "\<dots> \<le> radix * radix ^ length xs" using Cons by (intro mult_le_mono2) simp
  finally show ?case by simp
qed simp

lemma wval_split: "wval xs = wval (take n xs) + radix ^ min n (length xs) * wval (drop n xs)"
  by (metis wval_append append_take_drop_id length_take min.commute)

lemma wval_replicate_0 [simp]: "wval (replicate n 0) = 0"
  by (induction n) simp_all

lemma wval_zeros: "wval xs = 0 \<longleftrightarrow> (\<forall>x \<in> set xs. x = 0)"
  by (induction xs) (auto simp: unat_eq_0)

lemma length_u256: "length x = 4 \<Longrightarrow> x = [x ! 0, x ! 1, x ! 2, x ! 3]"
  by (cases x rule: list.exhaust) (auto simp: eval_nat_numeral length_Suc_conv)

lemma wval_new [simp]: "wval (u256_new h l) = unat h * 2 ^ 128 + unat l"
proof -
  have d: "unat x mod radix + radix * (unat x div radix) = unat x" for x :: u128
    by (metis add.commute div_mult_mod_eq mult.commute)
  have "wval (u256_new h l) = (unat l mod radix + radix * (unat l div radix))
      + radix * radix * (unat h mod radix + radix * (unat h div radix))"
    by (simp add: u256_new_def algebra_simps)
  also have "\<dots> = unat l + radix * radix * unat h" by (simp only: d)
  finally show ?thesis by (simp add: radix_square)
qed

lemma length_new [simp]: "length (u256_new h l) = 4"
  by (simp add: u256_new_def)

lemma wval_zero [simp]: "wval u256_zero = 0" "length u256_zero = 4"
  by (simp_all add: u256_zero_def)

lemma wval_lt_take: "wval (take n xs) < radix ^ n"
proof -
  have "wval (take n xs) < radix ^ length (take n xs)" by (rule wval_lt)
  also have "\<dots> \<le> radix ^ n" by (rule power_increasing) simp_all
  finally show ?thesis .
qed

lemma wval_take_Suc: "i < length xs \<Longrightarrow> wval (take (Suc i) xs) = wval (take i xs) + radix ^ i * unat (xs ! i)"
  by (simp add: take_Suc_conv_app_nth wval_append min_absorb2)

lemma wval_update:
  "i < length xs \<Longrightarrow> wval (xs[i := w]) + radix ^ i * unat (xs ! i) = wval xs + radix ^ i * unat w"
proof (induction xs arbitrary: i)
  case (Cons x xs)
  show ?case
  proof (cases i)
    case (Suc j)
    have "radix * (wval (xs[j := w]) + radix ^ j * unat (xs ! j)) = radix * (wval xs + radix ^ j * unat w)"
      using Cons by (simp add: Suc)
    then show ?thesis by (simp add: Suc add_mult_distrib2 mult.assoc)
  qed simp
qed simp

text \<open>A number below a power of the radix has only zero words above.\<close>

lemma wval_high_zero:
  assumes "wval xs < radix ^ n" "n \<le> length xs"
  shows "wval (drop n xs) = 0" "wval (take n xs) = wval xs"
proof -
  have split: "wval xs = wval (take n xs) + radix ^ n * wval (drop n xs)"
    using wval_split [of xs n] assms(2) by (simp add: min_absorb1)
  show "wval (drop n xs) = 0"
  proof (rule ccontr)
    assume "wval (drop n xs) \<noteq> 0"
    then have "radix ^ n * 1 \<le> radix ^ n * wval (drop n xs)" by (intro mult_le_mono2) simp
    with split assms(1) show False by simp
  qed
  with split show "wval (take n xs) = wval xs" by simp
qed

section \<open>Significant words and bits\<close>

lemma find_upt_None: "find P (rev [0 ..< n]) = None \<longleftrightarrow> (\<forall>i < n. \<not> P i)"
  by (auto simp: find_None_iff)

lemma find_upt_Some: "find P (rev [0 ..< n]) = Some i \<longleftrightarrow> i < n \<and> P i \<and> (\<forall>j. i < j \<and> j < n \<longrightarrow> \<not> P j)"
  by (induction n) (auto simp: less_Suc_eq)

lemma num_words_0: "num_words x = 0 \<longleftrightarrow> wval x = 0"
proof -
  have "num_words x = 0 \<longleftrightarrow> find (\<lambda>i. x ! i \<noteq> 0) (rev [0 ..< length x]) = None"
    by (simp add: num_words_def split: option.split)
  also have "\<dots> \<longleftrightarrow> (\<forall>i < length x. x ! i = 0)" by (simp add: find_upt_None)
  finally have "num_words x = 0 \<longleftrightarrow> (\<forall>i < length x. x ! i = 0)" .
  then show ?thesis by (simp add: wval_zeros all_set_conv_all_nth)
qed

lemma num_words_le: "num_words x \<le> length x"
  by (auto simp: num_words_def find_upt_Some split: option.splits)

lemma num_words_top: "num_words x = Suc i \<Longrightarrow> i < length x \<and> x ! i \<noteq> 0"
  by (auto simp: num_words_def find_upt_Some split: option.splits)

lemma num_words_high: "wval (drop (num_words x) x) = 0"
proof -
  have "x ! j = 0" if "num_words x \<le> j" "j < length x" for j
    using that by (auto simp: num_words_def find_upt_Some find_upt_None split: option.splits)
  then show ?thesis by (auto simp: wval_zeros in_set_conv_nth)
qed

lemma wval_num_words: "wval (take (num_words x) x) = wval x"
  using wval_split [of x "num_words x"] num_words_high [of x] by simp

lemma wval_less_words: "wval x < radix ^ num_words x"
  using wval_lt_take [of "num_words x" x] by (simp add: wval_num_words)

lemma wval_at_least:
  assumes "num_words x = Suc i"
  shows "radix ^ i * unat (x ! i) \<le> wval x" "wval x < radix ^ i * Suc (unat (x ! i))"
proof -
  have "wval x = wval (take i x) + radix ^ i * unat (x ! i)"
    using wval_num_words [of x] wval_take_Suc [of i x] num_words_top [OF assms] by (simp add: assms)
  then show "radix ^ i * unat (x ! i) \<le> wval x" "wval x < radix ^ i * Suc (unat (x ! i))"
    using wval_lt_take [of i x] by simp_all
qed

lemma wval_at_least_power: "num_words x = Suc i \<Longrightarrow> radix ^ i \<le> wval x"
proof -
  assume top: "num_words x = Suc i"
  have "radix ^ i * 1 \<le> radix ^ i * unat (x ! i)"
    using num_words_top [OF top] by (intro mult_le_mono2) (simp add: Suc_leI unat_gt_0)
  also note wval_at_least(1) [OF top]
  finally show ?thesis by simp
qed

lemma num_words_le_iff: "num_words x \<le> n \<longleftrightarrow> wval x < radix ^ n"
proof
  assume "num_words x \<le> n"
  then have "radix ^ num_words x \<le> radix ^ n" by (intro power_increasing) simp_all
  with wval_less_words show "wval x < radix ^ n" by (rule less_le_trans)
next
  assume small: "wval x < radix ^ n"
  show "num_words x \<le> n"
  proof (rule ccontr)
    assume "\<not> num_words x \<le> n"
    then obtain i where i: "num_words x = Suc i" "n \<le> i" by (cases "num_words x") auto
    have "radix ^ n \<le> radix ^ i" using i(2) by (intro power_increasing) simp_all
    with wval_at_least_power [OF i(1)] small show False by simp
  qed
qed

lemma leading_zeros_bounds:
  assumes "x \<noteq> 0"
  shows "leading_zeros x < 64" "2 ^ (63 - leading_zeros x) \<le> unat x" "unat x < 2 ^ (64 - leading_zeros x)"
proof -
  obtain i where i: "find (bit x) (rev [0 ..< 64]) = Some i"
  proof (cases "find (bit x) (rev [0 ..< 64])")
    case None
    then have "x = 0" unfolding find_upt_None by (intro bit_word_eqI) simp
    with assms show ?thesis by simp
  qed (rule that)
  then have lz: "leading_zeros x = 63 - i" "i < 64" "bit x i" "\<And>j. i < j \<Longrightarrow> j < 64 \<Longrightarrow> \<not> bit x j"
    unfolding find_upt_Some by (simp_all add: leading_zeros_def i)
  show "leading_zeros x < 64" using lz(1) by simp
  have "bit (unat x) i" using lz(2,3) by (simp add: bit_unsigned_iff)
  then have "odd (unat x div 2 ^ i)" by (rule iffD1 [OF bit_iff_odd])
  then have "0 < unat x div 2 ^ i" by (metis even_zero gr0I)
  then have "2 ^ i \<le> unat x" by (simp add: div_greater_zero_iff)
  then show "2 ^ (63 - leading_zeros x) \<le> unat x" using lz(1,2) by simp
  have "take_bit (Suc i) x = x"
  proof (rule bit_word_eqI)
    fix n :: nat assume n: "n < LENGTH(64)"
    then have "bit x n \<Longrightarrow> n < Suc i" using lz(4) [of n] by (auto simp: less_Suc_eq_le not_less [symmetric])
    then show "bit (take_bit (Suc i) x) n = bit x n" by (auto simp: bit_take_bit_iff)
  qed
  then have "unat x = unat x mod 2 ^ Suc i"
    by (metis unsigned_take_bit_eq take_bit_eq_mod)
  then have "unat x < 2 ^ Suc i" by (metis mod_less_divisor zero_less_numeral zero_less_power)
  moreover have "64 - leading_zeros x = Suc i" using lz(1,2) by simp
  ultimately show "unat x < 2 ^ (64 - leading_zeros x)" by simp
qed

section \<open>Sum, difference, product\<close>

lemma add_words_exact:
  "length xs = length ys \<Longrightarrow> unat carry \<le> 1 \<Longrightarrow>
    length (add_words xs ys carry) = length xs \<and>
    (\<exists>c \<le> 1. wval (add_words xs ys carry) + radix ^ length xs * c = wval xs + wval ys + unat carry)"
proof (induction xs ys carry rule: add_words.induct)
  case (1 x xs y ys carry)
  define t where "t = as_u128 x + as_u128 y + carry"
  have "unat x + unat y + unat carry < 2 * radix" using "1.prems"(2) word_lt_radix [of x] word_lt_radix [of y] by linarith
  then have t: "unat t = unat x + unat y + unat carry" "unat t < 2 * radix"
    unfolding t_def by (simp_all add: unat_word_ariths radix_def)
  then have "unat (hi_u128 t) \<le> 1" by (simp add: less_Suc_eq_le [symmetric] div_less_iff_less_mult)
  then obtain c where c: "c \<le> 1" "wval (add_words xs ys (hi_u128 t)) + radix ^ length xs * c = wval xs + wval ys + unat (hi_u128 t)"
    and len: "length (add_words xs ys (hi_u128 t)) = length xs"
    using "1.IH" [OF t_def] "1.prems"(1) by auto
  have "wval (add_words (x # xs) (y # ys) carry) + radix ^ length (x # xs) * c
      = unat t mod radix + radix * (wval (add_words xs ys (hi_u128 t)) + radix ^ length xs * c)"
    by (simp only: add_words.simps Let_def t_def [symmetric] wval.simps unat_lo list.size) (simp add: algebra_simps)
  also have "\<dots> = unat t mod radix + radix * (unat t div radix) + radix * (wval xs + wval ys)"
    unfolding c(2) by (simp add: algebra_simps)
  also have "\<dots> = wval (x # xs) + wval (y # ys) + unat carry"
    unfolding mod_mult_div_eq t(1) by (simp add: algebra_simps)
  finally show ?case using c(1) len by (auto simp: t_def [symmetric] Let_def)
qed auto

lemma u256_add_exact:
  assumes "length x = 4" "length y = 4"
  shows "length (u256_add x y) = 4" "wval (u256_add x y) = (wval x + wval y) mod radix ^ 4"
proof -
  obtain c where "wval (u256_add x y) + radix ^ 4 * c = wval x + wval y" and len: "length (u256_add x y) = 4"
    using add_words_exact [of x y 0] assms by (auto simp: u256_add_def)
  then have "(wval x + wval y) mod radix ^ 4 = wval (u256_add x y) mod radix ^ 4" by (metis mod_mult_self2)
  also have "\<dots> = wval (u256_add x y)" using wval_lt [of "u256_add x y"] by (simp add: len)
  finally show "wval (u256_add x y) = (wval x + wval y) mod radix ^ 4" ..
qed (use add_words_exact [of x y 0] assms in \<open>simp add: u256_add_def\<close>)

lemma mul_columns:
  fixes B :: nat
  assumes "c0 = vl * nl" "a1 = vl * nh" "b0 = vh * nl" "c1 = c0 div B + a1 mod B + b0 mod B"
  shows "(c0 mod B + B * (c1 mod B)) + B * B * (vh * nh + c1 div B + a1 div B + b0 div B) = (vl + B * vh) * (nl + B * nh)"
proof -
  have "(c0 mod B + B * (c1 mod B)) + B * B * (vh * nh + c1 div B + a1 div B + b0 div B)
      = c0 mod B + B * (c1 mod B + B * (c1 div B)) + B * B * (vh * nh + a1 div B + b0 div B)"
    by (simp only: algebra_simps)
  also have "\<dots> = c0 mod B + B * (c0 div B + a1 mod B + b0 mod B) + B * B * (vh * nh + a1 div B + b0 div B)"
    unfolding mod_mult_div_eq assms(4) ..
  also have "\<dots> = (c0 mod B + B * (c0 div B)) + B * (a1 mod B + B * (a1 div B)) + B * (b0 mod B + B * (b0 div B)) + B * B * (vh * nh)"
    by (simp only: algebra_simps)
  also have "\<dots> = (vl + B * vh) * (nl + B * nh)"
    unfolding mod_mult_div_eq assms(1-3) by (simp only: algebra_simps)
  finally show ?thesis .
qed

lemma mul_u256_exact: "wval (mul_u256 v n) = unat v * unat n" "length (mul_u256 v n) = 4"
proof -
  show "length (mul_u256 v n) = 4" by (simp add: mul_u256_def Let_def)
  have split: "unat x = unat (lo_u128 x) + radix * unat (hi_u128 x)" for x :: u128 by simp
  have small: "unat (lo_u128 x) < radix" "unat (hi_u128 x) < radix" for x :: u128
    using u128_lt_radix [of x] by (simp_all add: div_less_iff_less_mult)
  have times: "unat (a * b) = unat a * unat b" "unat a * unat b \<le> (radix - 1) * (radix - 1)"
    if "unat a < radix" "unat b < radix" for a b :: u128
  proof -
    show le: "unat a * unat b \<le> (radix - 1) * (radix - 1)" using that by (intro mult_le_mono) simp_all
    have "(radix - 1) * (radix - 1) < 2 ^ 128" by (simp add: radix_def)
    with le show "unat (a * b) = unat a * unat b" by (intro unat_mult_small) simp
  qed
  let ?vl = "unat (lo_u128 v)" and ?vh = "unat (hi_u128 v)" and ?nl = "unat (lo_u128 n)" and ?nh = "unat (hi_u128 n)"
  define c0 a1 b0 where defs: "c0 = lo_u128 v * lo_u128 n" "a1 = lo_u128 v * hi_u128 n" "b0 = hi_u128 v * lo_u128 n"
  define c1 where "c1 = hi_u128 c0 + lo_u128 a1 + lo_u128 b0"
  define top where "top = hi_u128 v * hi_u128 n + hi_u128 c1 + hi_u128 a1 + hi_u128 b0"
  have prods: "unat c0 = ?vl * ?nl" "unat a1 = ?vl * ?nh" "unat b0 = ?vh * ?nl"
    unfolding defs by (rule times, rule small, rule small)+
  have c1: "unat c1 = unat (hi_u128 c0) + unat (lo_u128 a1) + unat (lo_u128 b0)"
    unfolding c1_def using small(2) [of c0] small(1) [of a1] small(1) [of b0]
    by (simp only: unat_word_ariths) (simp add: radix_def)
  have "unat top = (?vh * ?nh + unat (hi_u128 c1) + unat (hi_u128 a1) + unat (hi_u128 b0)) mod 2 ^ 128"
    unfolding top_def by (simp only: unat_word_ariths mod_simps) simp
  moreover have total: "(unat c0 mod radix + radix * (unat c1 mod radix))
      + radix * radix * (?vh * ?nh + unat (hi_u128 c1) + unat (hi_u128 a1) + unat (hi_u128 b0)) = unat v * unat n"
    unfolding unat_hi_u128 [of c1] unat_hi_u128 [of a1] unat_hi_u128 [of b0]
    by (subst split [of v], subst split [of n], rule mul_columns [OF prods])
      (use c1 in \<open>simp only: unat_hi_u128 unat_lo_u128\<close>)
  moreover have "unat v * unat n < 2 ^ 128 * 2 ^ 128" by (rule mult_strict_mono) (simp_all only: unat_lt_u128, simp_all)
  ultimately have top: "unat top = ?vh * ?nh + unat (hi_u128 c1) + unat (hi_u128 a1) + unat (hi_u128 b0)"
    by (simp only: mod_less radix_square) (metis add_lessD1 add.commute mod_less nat_mult_less_cancel1 zero_less_numeral zero_less_power)
  have "wval (mul_u256 v n) = unat top * 2 ^ 128 + unat (hi_lo (lo_word c1) (lo_word c0))"
    by (simp only: mul_u256_def Let_def defs [symmetric] c1_def [symmetric] top_def [symmetric] wval_new)
  also have "\<dots> = unat v * unat n"
    unfolding total [symmetric] top unat_hi_lo unat_lo radix_square by (simp only: mult.commute add.commute)
  finally show "wval (mul_u256 v n) = unat v * unat n" .
qed

section \<open>Shifts\<close>

lemma unat_push_u64: "unat (push_bit s (a :: u64)) = unat a * 2 ^ s mod radix"
  unfolding unsigned_push_bit_eq by (simp add: push_bit_eq_mult take_bit_eq_mod radix_def)

lemma unat_or_disjoint:
  fixes a b :: u64
  assumes "a AND b = 0" "unat a + unat b < radix"
  shows "unat (a OR b) = unat a + unat b"
  unfolding disjunctive_add_eq_or [OF assms(1), symmetric]
  by (rule unat_add_small) (use assms(2) in \<open>simp add: radix_def\<close>)

lemma radix_parts: "s \<le> 64 \<Longrightarrow> radix = 2 ^ (64 - s) * 2 ^ s"
  by (simp add: radix_def flip: power_add)

lemma unat_shift_pair:
  fixes a b :: u64
  assumes "s < 64"
  shows "unat (push_bit s a OR drop_bit (64 - s) b) = unat a * 2 ^ s mod radix + unat b div 2 ^ (64 - s)"
proof -
  have "push_bit s a AND drop_bit (64 - s) b = 0"
    by (rule bit_word_eqI) (auto simp: bit_simps dest!: bit_imp_le_length)
  moreover have "unat a * 2 ^ s mod radix + unat b div 2 ^ (64 - s) < radix"
  proof -
    have m: "unat a * 2 ^ s mod radix = 2 ^ s * (unat a mod 2 ^ (64 - s))"
      using radix_parts [of s] assms by (simp add: mult_mod_right mult.commute)
    have "unat b div 2 ^ (64 - s) < 2 ^ s"
      using radix_parts [of s] assms word_lt_radix [of b] by (simp add: div_less_iff_less_mult mult.commute)
    then have "unat a * 2 ^ s mod radix + unat b div 2 ^ (64 - s) < 2 ^ s * Suc (unat a mod 2 ^ (64 - s))"
      unfolding m by simp
    also have "\<dots> \<le> 2 ^ s * 2 ^ (64 - s)" by (intro mult_le_mono2) (simp add: Suc_leI)
    finally show ?thesis using radix_parts [of s] assms by (simp add: mult.commute)
  qed
  ultimately show ?thesis using unat_or_disjoint [of "push_bit s a" "drop_bit (64 - s) b"]
    by (simp only: unat_push_u64 unat_drop_bit)
qed

lemma shifted_word: "s \<le> 64 \<Longrightarrow> unat (a :: u64) * 2 ^ s mod radix + radix * (unat a div 2 ^ (64 - s)) = unat a * 2 ^ s"
proof -
  assume "s \<le> 64"
  then have "unat a * 2 ^ s div radix = unat a div 2 ^ (64 - s)"
    by (subst radix_parts [of s]) (simp_all add: mult.commute div_mult2_eq)
  then show ?thesis by (metis mod_mult_div_eq)
qed

lemma shift_bits_left_exact:
  assumes "length x = 4" "s < 64"
  shows "wval (shift_bits_left s x) + radix ^ 4 * unat (drop_bit (64 - s) (x ! 3)) = wval x * 2 ^ s"
    and "length (shift_bits_left s x) = 4"
proof -
  obtain a b c d where x: "x = [a, b, c, d]" using length_u256 [OF assms(1)] by blast
  let ?m = "\<lambda>w :: u64. unat w * 2 ^ s mod radix" and ?h = "\<lambda>w :: u64. unat w div 2 ^ (64 - s)"
  have "shift_bits_left s x = [push_bit s a, push_bit s b OR drop_bit (64 - s) a,
      push_bit s c OR drop_bit (64 - s) b, push_bit s d OR drop_bit (64 - s) c]"
    by (simp add: shift_bits_left_def x upt_rec)
  then have "wval (shift_bits_left s x) + radix ^ 4 * unat (drop_bit (64 - s) (x ! 3))
     = ?m a + radix * ((?m b + ?h a) + radix * ((?m c + ?h b) + radix * ((?m d + ?h c)))) + radix ^ 4 * ?h d"
    using assms(2) by (simp add: unat_shift_pair unat_push_u64 unat_drop_bit x)
  also have "\<dots> = (?m a + radix * ?h a) + radix * (?m b + radix * ?h b) + radix * radix * (?m c + radix * ?h c)
     + radix * radix * radix * (?m d + radix * ?h d)"
    by (simp only: power4_eq_xxxx algebra_simps)
  also have "\<dots> = wval x * 2 ^ s"
    using assms(2) by (simp only: shifted_word less_imp_le) (simp add: x algebra_simps)
  finally show "wval (shift_bits_left s x) + radix ^ 4 * unat (drop_bit (64 - s) (x ! 3)) = wval x * 2 ^ s" .
  show "length (shift_bits_left s x) = 4" by (simp add: shift_bits_left_def)
qed

lemma shift_left_exact:
  assumes "length x = 4" "s < 64"
  shows "wval (shift_left s x) + radix ^ 4 * (unat (x ! 3) div 2 ^ (64 - s)) = wval x * 2 ^ s" "length (shift_left s x) = 4"
proof -
  have "s = 0 \<Longrightarrow> unat (x ! 3) div 2 ^ (64 - s) = 0" using word_lt_radix [of "x ! 3"] by (simp add: radix_def)
  then show "wval (shift_left s x) + radix ^ 4 * (unat (x ! 3) div 2 ^ (64 - s)) = wval x * 2 ^ s"
    using shift_bits_left_exact(1) [OF assms] assms(2) by (simp add: shift_left.simps unat_drop_bit)
  show "length (shift_left s x) = 4"
    using shift_bits_left_exact(2) [OF assms] assms by (simp add: shift_left.simps)
qed

lemma shift_right_exact:
  assumes "length x = 4" "s < 64"
  shows "wval (shift_right s x) = wval x div 2 ^ s" "length (shift_right s x) = 4"
proof -
  obtain a b c d where x: "x = [a, b, c, d]" using length_u256 [OF assms(1)] by blast
  show "wval (shift_right s x) = wval x div 2 ^ s"
  proof (cases "s = 0")
    case False
    have B: "radix = 2 ^ s * 2 ^ (64 - s)" using radix_parts [of s] assms(2) by (simp add: mult.commute)
    let ?l = "\<lambda>w :: u64. unat w div 2 ^ s" and ?h = "\<lambda>w :: u64. unat w mod 2 ^ s * 2 ^ (64 - s)"
    have pair: "unat (drop_bit s u OR push_bit (64 - s) w) = ?l u + ?h w" for u w :: u64
    proof -
      have "unat w * 2 ^ (64 - s) mod radix = ?h w"
        by (simp only: B mult_mod_left)
      with unat_shift_pair [of "64 - s" w u] assms(2) False show ?thesis
        by (simp add: or.commute add.commute)
    qed
    have "shift_right s x = [drop_bit s a OR push_bit (64 - s) b, drop_bit s b OR push_bit (64 - s) c,
        drop_bit s c OR push_bit (64 - s) d, drop_bit s d]"
      using False assms(2) by (simp add: shift_right.simps shift_bits_right_def x upt_rec)
    then have "wval (shift_right s x) = (?l a + ?h b) + radix * ((?l b + ?h c) + radix * ((?l c + ?h d) + radix * ?l d))"
      by (simp add: pair unat_drop_bit)
    then have "2 ^ s * wval (shift_right s x) + unat a mod 2 ^ s
        = (2 ^ s * ?l a + unat a mod 2 ^ s) + radix * (2 ^ s * ?l b + unat b mod 2 ^ s)
          + radix * radix * (2 ^ s * ?l c + unat c mod 2 ^ s) + radix * radix * radix * (2 ^ s * ?l d + unat d mod 2 ^ s)"
      unfolding B by (simp only: algebra_simps)
    also have "\<dots> = wval x"
      unfolding mult_div_mod_eq by (simp add: x algebra_simps)
    finally have "wval x div 2 ^ s = (2 ^ s * wval (shift_right s x) + unat a mod 2 ^ s) div 2 ^ s" by simp
    then show ?thesis by simp
  qed (use assms in \<open>simp add: shift_right.simps\<close>)
  show "length (shift_right s x) = 4"
    using assms by (simp add: shift_right.simps shift_bits_right_def)
qed

end
