(* ===== verification/U256_Division.thy ===== *)
theory U256_Division
  imports U256_Words
begin

text \<open>
  Knuth's division of \<open>Orca_U256\<close> is exact wherever it returns: the corrected trial digit is the quotient of the
  three leading words by the two leading words of the divisor, cut at the largest digit; it is the true digit or one
  more; a pass of the loop takes one digit off the dividend with its carry space; and the passes together leave the
  quotient and the remainder. The only passes that do not return take the leading digit of a dividend of four words back.
\<close>

section \<open>The trial digit\<close>

lemma digit_test:
  fixes Q :: nat
  assumes "Q * v1 + R = d0" "0 < v1"
  shows "Q * v2 \<le> R * radix + d2 \<longleftrightarrow> Q \<le> (d0 * radix + d2) div (v1 * radix + v2)"
proof -
  have "Q * (v1 * radix + v2) = Q * v1 * radix + Q * v2" by (simp add: algebra_simps)
  moreover have "d0 * radix + d2 = Q * v1 * radix + (R * radix + d2)" by (simp add: assms(1) [symmetric] algebra_simps)
  ultimately show ?thesis using assms(2) by (simp add: less_eq_div_iff_mult_less_eq)
qed

lemma correct_qhat_exact:
  fixes d0 d2 :: nat
  defines "target \<equiv> \<lambda>v1 v2. min (radix - 1) ((d0 * radix + d2) div (v1 * radix + v2))"
  assumes "d2 < radix"
  shows "2 ^ 63 \<le> unat d1 \<Longrightarrow> d0 < unat d1 * radix + radix \<Longrightarrow>
    unat qhat * unat d1 + unat rhat = d0 \<Longrightarrow> unat rhat < radix \<Longrightarrow> unat qhat \<le> radix + 1 \<Longrightarrow>
    unat cmp1 = unat rhat * radix + d2 \<Longrightarrow> unat cmp2 = unat qhat * unat d1_2 \<Longrightarrow>
    target (unat d1) (unat d1_2) \<le> unat qhat \<Longrightarrow>
    unat (correct_qhat d1 d1_2 qhat rhat cmp1 cmp2) = target (unat d1) (unat d1_2)"
proof (induction d1 d1_2 qhat rhat cmp1 cmp2 rule: correct_qhat.induct)
  case (1 d1 d1_2 qhat rhat cmp1 cmp2)
  let ?v1 = "unat d1" and ?v2 = "unat d1_2" and ?Q = "unat qhat" and ?R = "unat rhat"
  note prems = "1.prems"
  have pos: "0 < ?v1" "d1 \<noteq> 0" using prems(1) by (auto intro!: Nat.gr0I)
  define more where "more \<longleftrightarrow> d1 \<noteq> 0 \<and> (hi_word qhat \<noteq> 0 \<or> cmp1 < cmp2)"
  have hi: "hi_word x = 0 \<longleftrightarrow> unat x < radix" for x :: u128
    by (metis div_eq_0_iff radix_gt(3) unat_eq_0 unat_hi)
  have at_least: "\<not> n < radix \<longleftrightarrow> radix - 1 < n" for n
    by (rule iffI; insert radix_gt(2); linarith)
  have test: "more \<longleftrightarrow> target ?v1 ?v2 < ?Q"
    unfolding more_def target_def word_less_nat_alt prems(6,7) not_le [symmetric] digit_test [OF prems(3) pos(1)]
    using pos(2) hi [of qhat] at_least by (auto simp: min_le_iff_disj not_le)
  show ?case
  proof (cases more)
    case False
    then have "correct_qhat d1 d1_2 qhat rhat cmp1 cmp2 = qhat"
      by (subst correct_qhat.simps) (auto simp: more_def)
    with False test prems(8) show ?thesis by simp
  next
    case True
    with test have Q: "0 < ?Q" "target ?v1 ?v2 \<le> ?Q - 1" by simp_all
    define q r where "q = qhat - 1" and "r = rhat + as_u128 d1"
    have q: "unat q = ?Q - 1" unfolding q_def using Q(1) by (subst unat_sub_small) simp_all
    have r: "unat r = ?R + ?v1" unfolding r_def using prems(4) word_lt_radix [of d1]
      by (subst unat_add_small) (simp_all add: radix_def)
    have step: "unat q * ?v1 + unat r = d0"
      unfolding q r using Q(1) prems(3) by (cases ?Q) simp_all
    have eq: "correct_qhat d1 d1_2 qhat rhat cmp1 cmp2 =
       (if hi_word r \<noteq> 0 then q else correct_qhat d1 d1_2 q r (hi_lo (lo_word r) (lo_word cmp1)) (cmp2 - as_u128 d1_2))"
      using True by (subst correct_qhat.simps) (simp add: more_def q_def r_def Let_def)
    show ?thesis
    proof (cases "hi_word r = 0")
      case True
      then have small: "unat r < radix" by (simp add: hi)
      have "unat cmp1 mod radix = d2" using prems(6) \<open>d2 < radix\<close> by simp
      then have c1: "unat (hi_lo (lo_word r) (lo_word cmp1)) = unat r * radix + d2" using small by simp
      have c2: "unat (cmp2 - as_u128 d1_2) = unat q * ?v2"
        using Q(1) prems(7) by (subst unat_sub_small) (simp_all add: q diff_mult_distrib)
      have "unat (correct_qhat d1 d1_2 q r (hi_lo (lo_word r) (lo_word cmp1)) (cmp2 - as_u128 d1_2)) = target ?v1 ?v2"
        by (rule "1.IH" [of q r]) (use \<open>more\<close> True prems Q step small c1 c2 in \<open>simp_all add: more_def q_def r_def q [unfolded q_def]\<close>)
      with True eq show ?thesis by simp
    next
      case False
      then have big: "radix \<le> unat r" by (simp add: hi not_less)
      have "unat q < radix"
      proof (rule ccontr)
        assume "\<not> unat q < radix"
        then have "radix * ?v1 \<le> unat q * ?v1" by (intro mult_le_mono1) simp
        with step big prems(2) show False by (simp add: mult.commute)
      qed
      then have "unat q * ?v2 \<le> radix * radix" by (intro mult_le_mono) (simp_all add: less_imp_le)
      also have "\<dots> \<le> unat r * radix + d2" using big by (simp add: trans_le_add1)
      finally have "unat q \<le> target ?v1 ?v2"
        using digit_test [OF step pos(1)] \<open>unat q < radix\<close> by (simp add: target_def)
      with Q(2) q False eq show ?thesis by simp
    qed
  qed
qed

text \<open>The cut quotient of the leading words is the digit or one more.\<close>

lemma leading_quotient:
  fixes U V :: nat
  assumes "U < radix * V" "0 < V2"
    and U: "U = U3 * p + u" "u < p" and V: "V = V2 * p + v" "v < p" and top: "radix \<le> V2 + 1"
  defines "q \<equiv> min (radix - 1) (U3 div V2)"
  shows "U div V \<le> q" "q \<le> Suc (U div V)" "p = 1 \<Longrightarrow> q = U div V"
proof -
  have V0: "0 < V" using assms(1) by (cases V) auto
  have digit: "U div V \<le> radix - 1" using assms(1) V0 by (simp add: div_less_iff_less_mult mult.commute less_Suc_eq_le [symmetric])
  have "U div V * V2 * p \<le> U div V * V" by (simp add: V(1) algebra_simps)
  also have "\<dots> \<le> U" by simp
  also have "\<dots> < Suc U3 * p" using U by simp
  finally have "U div V * V2 < Suc U3" by (simp only: mult_less_cancel2)
  then have "U div V \<le> U3 div V2" using \<open>0 < V2\<close> by (simp add: less_eq_div_iff_mult_less_eq)
  with digit show le: "U div V \<le> q" by (simp add: q_def)
  have qV2: "q * V2 \<le> U3"
  proof -
    have "q * V2 \<le> U3 div V2 * V2" by (intro mult_le_mono1) (simp add: q_def)
    also have "\<dots> \<le> U3" by simp
    finally show ?thesis .
  qed
  show "q \<le> Suc (U div V)"
  proof (cases q)
    case (Suc n)
    have "n * v \<le> n * p" using V(2) by simp
    also have "n * p \<le> V2 * p" using top by (intro mult_le_mono1) (use Suc in \<open>simp add: q_def\<close>)
    finally have "n * V \<le> n * V2 * p + V2 * p" by (simp add: V(1) algebra_simps)
    also have "\<dots> = q * V2 * p" by (simp add: Suc algebra_simps)
    also have "\<dots> \<le> U3 * p" using qV2 by (rule mult_le_mono1)
    also have "\<dots> \<le> U" by (simp add: U)
    finally have "n \<le> U div V" using V0 by (simp add: less_eq_div_iff_mult_less_eq)
    then show ?thesis by (simp add: Suc)
  qed simp
  show "q = U div V" if "p = 1"
  proof -
    have "U = U3" "V = V2" using that U V by simp_all
    with digit show ?thesis by (simp add: q_def)
  qed
qed

section \<open>Subtracting and adding back\<close>

lemma uint_word_mod:
  "uint (a - b :: u64) = (uint a - uint b) mod int radix"
  "uint (x - y :: u128) = (uint x - uint y) mod (int radix * int radix)"
  by (simp_all add: uint_word_ariths radix_def)

lemma sub_product_step:
  fixes x v :: u64 and qhat k :: u128
  assumes "unat qhat < radix" "unat k \<le> unat qhat"
  defines "p \<equiv> qhat * as_u128 v"
  defines "t \<equiv> as_u128 x - k - lo_u128 p"
  defines "k' \<equiv> as_u128 (hi_word p - hi_word t)"
  shows "unat (lo_word t) + unat qhat * unat v + unat k = unat x + radix * unat k'" "unat k' \<le> unat qhat"
  supply of_nat_unat [simp del]
proof -
  let ?B = "int radix" and ?q = "int (unat qhat)" and ?v = "int (unat v)" and ?k = "int (unat k)" and ?x = "int (unat x)"
  have B0: "0 < ?B" by simp
  have xv: "?x < ?B" "?v < ?B" "?q < ?B" "?k \<le> ?q" using assms(1,2) by simp_all
  have p: "unat p = unat qhat * unat v"
  proof -
    have "unat qhat * unat v < radix * radix" using assms(1) by (intro mult_strict_mono) simp_all
    then show ?thesis unfolding p_def by (subst unat_mult_small) (simp_all add: radix_square)
  qed
  define \<tau> where "\<tau> = ?x - ?k - int (unat p mod radix)"
  have t: "uint t = \<tau> mod (?B * ?B)"
    unfolding t_def uint_word_mod \<tau>_def mod_diff_left_eq by (simp add: uint_nat)
  have lo: "int (unat (lo_word t)) = \<tau> mod ?B"
    using t by (simp add: uint_nat of_nat_mod mod_mult_self2_is_0 mod_mod_cancel)
  have hi: "int (unat (hi_word t)) = (\<tau> div ?B) mod ?B"
  proof -
    have "int (unat (hi_word t)) = (\<tau> mod (?B * ?B)) div ?B" using t by (simp add: uint_nat of_nat_div)
    also have "\<dots> = (\<tau> div ?B) mod ?B" using B0 by (simp add: zmod_zmult2_eq)
    finally show ?thesis .
  qed
  define m where "m = int (unat p div radix) - \<tau> div ?B"
  have eq: "\<tau> mod ?B + ?q * ?v + ?k = ?x + ?B * m"
  proof -
    have "int (unat p) = ?B * int (unat p div radix) + int (unat p mod radix)"
      by (metis mult_div_mod_eq of_nat_add of_nat_mult)
    then have "int (unat p mod radix) = ?q * ?v - ?B * int (unat p div radix)" by (simp add: p)
    moreover have "\<tau> mod ?B = \<tau> - ?B * (\<tau> div ?B)" by (rule minus_mult_div_eq_mod [symmetric])
    ultimately show ?thesis by (simp add: m_def \<tau>_def algebra_simps)
  qed
  have mq: "m \<le> ?q"
  proof -
    have "?q * ?v \<le> ?q * (?B - 1)" using xv(2) by (intro mult_left_mono) simp_all
    moreover have "\<tau> mod ?B < ?B" using B0 by (rule pos_mod_bound)
    moreover have "?q * (?B - 1) = ?q * ?B - ?q" by (simp add: right_diff_distrib)
    ultimately have "?B * m < ?q * ?B + ?B" using eq xv(4) by linarith
    also have "\<dots> = ?B * (?q + 1)" by (simp add: algebra_simps)
    finally have "m < ?q + 1" using B0 by (simp only: mult_less_cancel_left_pos)
    then show ?thesis by simp
  qed
  have m0: "0 \<le> m"
  proof -
    have "\<tau> \<le> ?B - 1" unfolding \<tau>_def using xv(1) by linarith
    then have "\<tau> div ?B \<le> (?B - 1) div ?B" using B0 by (rule zdiv_mono1)
    also have "\<dots> = 0" by (rule div_pos_pos_trivial) simp_all
    finally have "\<tau> div ?B \<le> 0" .
    then show ?thesis by (simp add: m_def)
  qed
  have "uint (hi_word p - hi_word t) = m mod ?B"
  proof -
    have "uint (hi_word p) = int (unat p div radix)" "uint (hi_word t) = (\<tau> div ?B) mod ?B"
      using hi by (simp_all only: uint_nat unat_hi)
    then show ?thesis unfolding m_def by (simp only: uint_word_mod mod_diff_right_eq)
  qed
  then have k': "int (unat k') = m" using m0 mq xv(3) by (simp add: k'_def uint_nat)
  show "unat k' \<le> unat qhat" using k' mq by simp
  have "int (unat (lo_word t) + unat qhat * unat v + unat k) = int (unat x + radix * unat k')"
    using eq lo k' by simp
  then show "unat (lo_word t) + unat qhat * unat v + unat k = unat x + radix * unat k'" by (simp only: of_nat_eq_iff)
qed

lemma sub_product_exact:
  "unat qhat < radix \<Longrightarrow> unat k \<le> unat qhat \<Longrightarrow> length xs = length vs \<Longrightarrow> sub_product qhat xs vs k = (ys, k') \<Longrightarrow>
    length ys = length xs \<and> unat k' \<le> unat qhat
    \<and> wval ys + unat qhat * wval vs + unat k = wval xs + radix ^ length xs * unat k'"
proof (induction qhat xs vs k arbitrary: ys k' rule: sub_product.induct)
  case (1 qhat x xs v vs k)
  define p where "p = qhat * as_u128 v"
  define t where "t = as_u128 x - k - lo_u128 p"
  define c where "c = as_u128 (hi_word p - hi_word t)"
  note step = sub_product_step [OF "1.prems"(1,2), where x = x and v = v, folded p_def, folded t_def, folded c_def]
  obtain zs where zs: "sub_product qhat xs vs c = (zs, k')" "ys = lo_word t # zs"
    using "1.prems"(4) by (auto simp: p_def t_def c_def Let_def split: prod.splits)
  have IH: "length zs = length xs \<and> unat k' \<le> unat qhat
      \<and> wval zs + unat qhat * wval vs + unat c = wval xs + radix ^ length xs * unat k'"
    by (rule "1.IH" [OF p_def t_def, folded c_def]) (use "1.prems" step(2) zs(1) in simp_all)
  have "wval ys + unat qhat * wval (v # vs) + unat k
      = (unat (lo_word t) + unat qhat * unat v + unat k) + radix * (wval zs + unat qhat * wval vs)"
    by (simp only: zs wval.simps algebra_simps)
  also have "\<dots> = unat x + radix * (wval zs + unat qhat * wval vs + unat c)"
    unfolding step(1) by (simp only: algebra_simps)
  also have "\<dots> = wval (x # xs) + radix ^ length (x # xs) * unat k'"
    using IH by (simp only: wval.simps list.size power_Suc add_mult_distrib2 mult.assoc add.assoc) simp
  finally show ?case using IH zs(2) by simp
qed auto

lemma add_divisor_exact:
  "unat k \<le> 1 \<Longrightarrow> length xs = length vs \<Longrightarrow> add_divisor xs vs k = (ys, k') \<Longrightarrow>
    length ys = length xs \<and> unat k' \<le> 1 \<and> wval ys + radix ^ length xs * unat k' = wval xs + wval vs + unat k"
proof (induction xs vs k arbitrary: ys k' rule: add_divisor.induct)
  case (1 x xs v vs k)
  define t where "t = as_u128 x + as_u128 v + k"
  have "unat x + unat v + unat k < 2 * radix" using "1.prems"(1) word_lt_radix [of x] word_lt_radix [of v] by linarith
  then have t: "unat t = unat x + unat v + unat k" "unat t < 2 * radix"
    unfolding t_def by (simp_all add: unat_word_ariths radix_def)
  then have "unat (hi_u128 t) \<le> 1" by (simp add: less_Suc_eq_le [symmetric] div_less_iff_less_mult)
  moreover obtain zs where zs: "add_divisor xs vs (hi_u128 t) = (zs, k')" "ys = lo_word t # zs"
    using "1.prems"(3) by (auto simp: t_def Let_def split: prod.splits)
  ultimately have IH: "length zs = length xs" "unat k' \<le> 1"
      "wval zs + radix ^ length xs * unat k' = wval xs + wval vs + unat (hi_u128 t)"
    using "1.IH" [OF t_def, of zs k'] "1.prems"(2) by simp_all
  have "wval ys + radix ^ length (x # xs) * unat k' = unat t mod radix + radix * (wval zs + radix ^ length xs * unat k')"
    by (simp only: zs wval.simps unat_lo list.size) (simp add: algebra_simps)
  also have "\<dots> = unat t mod radix + radix * (unat t div radix) + radix * (wval xs + wval vs)"
    unfolding IH(3) by (simp add: algebra_simps)
  also have "\<dots> = wval (x # xs) + wval (v # vs) + unat k"
    unfolding mod_mult_div_eq t(1) by (simp add: algebra_simps)
  finally show ?case using IH zs(2) by simp
qed auto

section \<open>One digit\<close>

text \<open>The trial digit of a pass, from the three leading words of the partial remainder.\<close>

definition trial :: "u64 \<Rightarrow> u64 \<Rightarrow> u64 \<Rightarrow> u64 \<Rightarrow> u64 \<Rightarrow> u128" where
  "trial head x1 x2 d1 d2 =
     (let d0 = hi_lo head x1; qhat = d0 div as_u128 d1; rhat = d0 - as_u128 d1 * qhat
      in correct_qhat d1 d2 qhat rhat (hi_lo (lo_word rhat) x2) (qhat * as_u128 d2))"

lemma trial_exact:
  assumes top: "2 ^ 63 \<le> unat d1" and fits: "unat head * radix + unat x1 < unat d1 * radix + radix"
  shows "unat (trial head x1 x2 d1 d2)
    = min (radix - 1) (((unat head * radix + unat x1) * radix + unat x2) div (unat d1 * radix + unat d2))"
proof -
  define d0 qhat rhat where "d0 = hi_lo head x1" and "qhat = d0 div as_u128 d1" and "rhat = d0 - as_u128 d1 * qhat"
  have d0: "unat d0 = unat head * radix + unat x1" by (simp add: d0_def)
  have v1: "0 < unat d1" using top by (auto intro!: Nat.gr0I)
  have q: "unat qhat = unat d0 div unat d1" by (simp add: qhat_def unat_div)
  have r: "unat rhat = unat d0 mod unat d1"
  proof -
    have "rhat = d0 mod as_u128 d1" by (simp add: rhat_def qhat_def minus_mult_div_eq_mod)
    then show ?thesis by (simp add: unat_mod)
  qed
  have small: "unat rhat < radix" using v1 mod_less_divisor [OF v1, of "unat d0"] word_lt_radix [of d1] unfolding r by linarith
  have qle: "unat qhat \<le> radix + 1"
  proof -
    have "unat d0 < (radix + 2) * unat d1" using fits top unfolding d0 by (simp add: radix_def)
    then have "unat d0 div unat d1 < radix + 2" using v1 by (simp add: div_less_iff_less_mult)
    then show ?thesis by (simp add: q)
  qed
  have "unat d2 \<le> radix - 1" using word_lt_radix [of d2] by linarith
  with qle have "unat qhat * unat d2 \<le> (radix + 1) * (radix - 1)" by (rule mult_le_mono)
  then have wide: "unat qhat * unat d2 < 2 ^ LENGTH(128)" by (simp add: radix_def)
  have target: "min (radix - 1) ((unat d0 * radix + unat x2) div (unat d1 * radix + unat d2)) \<le> unat qhat"
  proof -
    let ?z = "(unat d0 * radix + unat x2) div (unat d1 * radix + unat d2)"
    have "?z * unat d1 * radix \<le> ?z * (unat d1 * radix + unat d2)" by (simp add: algebra_simps)
    also have "\<dots> \<le> unat d0 * radix + unat x2" by simp
    also have "\<dots> < Suc (unat d0) * radix" by simp
    finally have "?z * unat d1 < Suc (unat d0)" by (simp only: mult_less_cancel2)
    then have "?z \<le> unat qhat" unfolding q using v1 by (simp add: less_eq_div_iff_mult_less_eq)
    then show ?thesis by simp
  qed
  have "unat (correct_qhat d1 d2 qhat rhat (hi_lo (lo_word rhat) x2) (qhat * as_u128 d2))
      = min (radix - 1) ((unat d0 * radix + unat x2) div (unat d1 * radix + unat d2))"
  proof (rule correct_qhat_exact [of "unat x2"])
    show "unat d0 < unat d1 * radix + radix" using fits by (simp add: d0)
    show "unat qhat * unat d1 + unat rhat = unat d0" by (simp add: q r)
    show "unat (hi_lo (lo_word rhat) x2) = unat rhat * radix + unat x2" using small by simp
    show "unat (qhat * as_u128 d2) = unat qhat * unat d2" using wide by (subst unat_mult_small) simp_all
  qed (use top small qle target in simp_all)
  then show ?thesis by (simp only: trial_def Let_def d0_def [symmetric] qhat_def [symmetric] rhat_def [symmetric] d0)
qed

lemma carried_update:
  fixes dividend slice :: "u64 list"
  assumes "length dividend = 4" "j + n \<le> 4" "length slice = n"
    and "(d, c) = (if j + n = 4 then (take j dividend @ slice @ drop (j + n) dividend, t)
      else ((take j dividend @ slice @ drop (j + n) dividend)[j + n := t], carry))"
  shows "length d = 4" "d @ [c] = take j dividend @ slice @ t # drop (Suc (j + n)) (dividend @ [carry])"
proof -
  have cons: "drop (j + n) dividend = dividend ! (j + n) # drop (Suc (j + n)) dividend" if "j + n < 4"
    using that assms(1) by (simp add: Cons_nth_drop_Suc)
  show "length d = 4" using assms by (auto split: if_splits)
  show "d @ [c] = take j dividend @ slice @ t # drop (Suc (j + n)) (dividend @ [carry])"
    using assms cons by (auto simp: list_update_append min_absorb2 split: if_splits)
qed

lemma div_loop_unfold:
  "div_loop index n dividend carry divisor quot =
     (let use_carry = (index + n = 4);
          head = (if use_carry then carry else dividend ! (index + n));
          qhat = trial head (dividend ! (index + n - 1)) (dividend ! (index + n - 2)) (divisor ! (n - 1)) (divisor ! (n - 2));
          (slice, k) = sub_product qhat (take n (drop index dividend)) (take n divisor) 0;
          t = lo_word (as_u128 head - k);
          (d, c) = (if use_carry then (take index dividend @ slice @ drop (index + n) dividend, t)
                    else ((take index dividend @ slice @ drop (index + n) dividend)[index + n := t], carry))
      in if k > as_u128 head then
           (let (slice, k) = add_divisor slice (take n divisor) 0;
                d = take index d @ slice @ drop (index + n) d
            in if use_carry then Panic
               else Done (quot[index := lo_word (qhat - 1)], d[index + n := lo_word (as_u128 (d ! (index + n)) + k)], c))
         else Done (quot[index := lo_word qhat], d, c))"
  unfolding div_loop_def trial_def Let_def by (rule refl)

text \<open>
  What one pass does to the dividend \<open>T\<close>, carry space included: the divisor is \<open>V\<close>, and the digit has the weight
  \<open>radix ^ j\<close>.
\<close>

definition digit_taken :: "nat \<Rightarrow> nat \<Rightarrow> nat \<Rightarrow> nat \<Rightarrow> u256 \<Rightarrow> (u256 \<times> u256 \<times> u64) outcome \<Rightarrow> bool" where
  "digit_taken j n V T quot result \<longleftrightarrow> (case result of
     Panic \<Rightarrow> j + n = 4 \<and> 3 \<le> n
   | Done (quot', dividend, carry) \<Rightarrow>
       (\<exists>w. unat w = T div (V * radix ^ j) \<and> quot' = quot[j := w]) \<and> length dividend = 4
       \<and> wval (dividend @ [carry]) = T mod (V * radix ^ j))"

lemma digit_takenI:
  "unat w = T div (V * radix ^ j) \<Longrightarrow> length d = 4 \<Longrightarrow> wval (d @ [c]) = T mod (V * radix ^ j) \<Longrightarrow>
    digit_taken j n V T quot (Done (quot[j := w], d, c))"
  by (auto simp: digit_taken_def)

lemma digit_borrow:
  fixes h k :: nat
  assumes "ys + q0 * V = X + p * k" "X + p * h = U" "0 < V" "V \<le> p" "ys < p"
    and q0: "U div V \<le> q0" "q0 \<le> Suc (U div V)"
  shows "\<not> h < k \<Longrightarrow> q0 = U div V \<and> ys = U mod V \<and> h = k"
    and "h < k \<Longrightarrow> q0 = Suc (U div V) \<and> (zs + p * c = ys + V \<longrightarrow> zs < p \<longrightarrow> zs = U mod V \<and> k = h + c)"
proof -
  have rest: "U = U div V * V + U mod V" "U mod V < V" using assms(3) by simp_all
  show "q0 = U div V \<and> ys = U mod V \<and> h = k" if "\<not> h < k"
  proof -
    obtain d where d: "h = k + d" using \<open>\<not> h < k\<close> by (metis less_imp_add_positive linorder_neqE_nat add_0_right)
    have eq: "ys + q0 * V + p * d = U" using assms(1,2) by (simp add: d algebra_simps)
    then have "q0 \<le> U div V" using assms(3) by (simp add: less_eq_div_iff_mult_less_eq)
    with q0(1) have q: "q0 = U div V" by simp
    have mod: "ys + p * d = U mod V" using eq rest(1) unfolding q by linarith
    have "d = 0"
    proof (rule ccontr)
      assume "d \<noteq> 0"
      then have "p * 1 \<le> p * d" by (intro mult_le_mono2) simp
      with mod rest(2) assms(4) show False by simp
    qed
    with q mod d show ?thesis by simp
  qed
  show "q0 = Suc (U div V) \<and> (zs + p * c = ys + V \<longrightarrow> zs < p \<longrightarrow> zs = U mod V \<and> k = h + c)" if "h < k"
  proof -
    obtain d where d: "k = h + Suc d" using \<open>h < k\<close> less_imp_Suc_add by force
    have eq: "ys + q0 * V = U + p * Suc d" using assms(1,2) by (simp add: d algebra_simps)
    have q: "q0 = Suc (U div V)"
    proof (rule ccontr)
      assume "q0 \<noteq> Suc (U div V)"
      with q0 have "q0 = U div V" by simp
      with eq rest assms(5) show False by simp
    qed
    have "zs = U mod V \<and> k = h + c" if "zs + p * c = ys + V" "zs < p"
    proof -
      have "zs + p * c + U div V * V = U + p * Suc d" using eq that(1) by (simp add: q)
      with rest(1) have sum: "zs + p * c = U mod V + p * Suc d" by linarith
      have "(zs + p * c) mod p = zs" "(U mod V + p * Suc d) mod p = U mod V"
        using that(2) rest(2) assms(4) by (simp_all only: mod_mult_self2) simp_all
      with sum have zs: "zs = U mod V" by simp
      with sum have "p * c = p * Suc d" by simp
      then have "c = Suc d" using that(2) by (simp only: mult_cancel1) simp
      with zs d show ?thesis by simp
    qed
    with q show ?thesis by simp
  qed
qed

text \<open>The words that a pass looks at, and the ones above it, which are zero.\<close>

lemma partial_remainder:
  assumes len: "length dividend = 4" and n: "j + n \<le> 4" and V: "V \<le> radix ^ n"
    and T: "wval (dividend @ [carry]) < V * radix ^ Suc j"
  defines "h \<equiv> unat (if j + n = 4 then carry else dividend ! (j + n))"
  defines "U \<equiv> wval (take n (drop j dividend)) + radix ^ n * h"
  shows "wval (drop (Suc (j + n)) (dividend @ [carry])) = 0"
    and "wval (dividend @ [carry]) = wval (take j dividend) + radix ^ j * U"
    and "U < radix * V"
    and "wval (dividend @ [carry]) div (V * radix ^ j) = U div V"
    and "wval (dividend @ [carry]) mod (V * radix ^ j) = wval (take j dividend) + radix ^ j * (U mod V)"
proof -
  let ?E = "dividend @ [carry]"
  note T
  also have "V * radix ^ Suc j \<le> radix ^ n * radix ^ Suc j" using V by (rule mult_le_mono1)
  also have "\<dots> = radix ^ Suc (j + n)" by (simp add: power_add)
  finally have small: "wval ?E < radix ^ Suc (j + n)" .
  note high = wval_high_zero [OF small]
  show "wval (drop (Suc (j + n)) ?E) = 0" using high(1) len n by simp
  have h: "h = unat (?E ! (j + n))" using len n by (simp add: h_def nth_append)
  have cut: "take (j + n) ?E = take j dividend @ take n (drop j dividend)" using len n by (simp add: take_add)
  have "wval ?E = wval (take (Suc (j + n)) ?E)" using high(2) len n by simp
  also have "\<dots> = wval (take (j + n) ?E) + radix ^ (j + n) * h"
    using len n by (subst wval_take_Suc) (simp_all add: h)
  also have "\<dots> = wval (take j dividend) + radix ^ j * U"
    unfolding cut wval_append U_def using len n by (simp add: power_add min_absorb2 algebra_simps)
  finally show E: "wval ?E = wval (take j dividend) + radix ^ j * U" .
  have low: "wval (take j dividend) < radix ^ j" by (rule wval_lt_take)
  have "radix ^ j * U \<le> wval ?E" by (simp add: E)
  also note T
  also have "V * radix ^ Suc j = radix ^ j * (radix * V)" by simp
  finally have "radix ^ j * U < radix ^ j * (radix * V)" .
  then show "U < radix * V" by (simp only: mult_less_cancel1)
  have div: "wval ?E div radix ^ j = U" "wval ?E mod radix ^ j = wval (take j dividend)"
    using low by (simp_all add: E)
  show "wval ?E div (V * radix ^ j) = U div V"
    unfolding mult.commute [of V] div_mult2_eq div(1) ..
  show "wval ?E mod (V * radix ^ j) = wval (take j dividend) + radix ^ j * (U mod V)"
    unfolding mult.commute [of V] mod_mult2_eq div by (rule add.commute)
qed

lemma top_words:
  assumes "length xs = n" "2 \<le> n"
  shows "wval xs = (unat (xs ! (n - 1)) * radix + unat (xs ! (n - 2))) * radix ^ (n - 2) + wval (take (n - 2) xs)"
proof -
  obtain m where m: "n = Suc (Suc m)" using assms(2) by (cases n; cases "n - 1") auto
  have "wval xs = wval (take (Suc (Suc m)) xs)" using assms(1) m by simp
  also have "\<dots> = wval (take m xs) + radix ^ m * unat (xs ! m) + radix ^ Suc m * unat (xs ! Suc m)"
    using assms(1) m by (simp only: wval_take_Suc)
  finally show ?thesis by (simp add: m algebra_simps)
qed

lemma trial_digit:
  fixes head :: u64
  assumes len: "length xs = n" "length vs = n" and n: "2 \<le> n" and top: "2 ^ 63 \<le> unat (vs ! (n - 1))"
  defines "U \<equiv> wval xs + radix ^ n * unat head" and "V \<equiv> wval vs"
  assumes U: "U < radix * V"
  defines "q \<equiv> unat (trial head (xs ! (n - 1)) (xs ! (n - 2)) (vs ! (n - 1)) (vs ! (n - 2)))"
  shows "q < radix" "U div V \<le> q" "q \<le> Suc (U div V)" "n = 2 \<Longrightarrow> q = U div V" "0 < V"
proof -
  let ?v1 = "unat (vs ! (n - 1))" and ?v2 = "unat (vs ! (n - 2))" and ?p = "radix ^ (n - 2)"
  let ?d0 = "unat head * radix + unat (xs ! (n - 1))" and ?V2 = "?v1 * radix + ?v2"
  let ?U3 = "?d0 * radix + unat (xs ! (n - 2))"
  have pn: "radix ^ n = radix * radix * ?p" using n by (metis le_add_diff_inverse power2_eq_square power_add)
  have Vs: "V = ?V2 * ?p + wval (take (n - 2) vs)" unfolding V_def by (rule top_words [OF len(2) n])
  have Us: "U = ?U3 * ?p + wval (take (n - 2) xs)"
    unfolding U_def top_words [OF len(1) n] pn by (simp add: algebra_simps)
  have low: "wval (take (n - 2) ws) < ?p" for ws by (rule wval_lt_take)
  have wide: "radix \<le> ?V2 + 1" "0 < ?V2" using top by (simp_all add: radix_def)
  have fits: "?d0 < ?v1 * radix + radix"
  proof -
    have "?d0 * radix * ?p \<le> U" by (simp add: Us algebra_simps)
    also have "\<dots> < radix * V" by (rule U)
    also have "\<dots> \<le> radix * (Suc ?V2 * ?p)" using low [of vs] by (intro mult_le_mono2) (simp add: Vs)
    also have "\<dots> \<le> radix * (((?v1 + 1) * radix) * ?p)"
      using word_lt_radix [of "vs ! (n - 2)"] by (intro mult_le_mono2 mult_le_mono1) (simp add: Suc_leI)
    also have "\<dots> = (?v1 * radix + radix) * radix * ?p" by (simp only: algebra_simps)
    finally show ?thesis by (simp only: mult_less_cancel2)
  qed
  have q: "q = min (radix - 1) (?U3 div ?V2)" unfolding q_def by (rule trial_exact [OF top fits])
  note lead = leading_quotient [OF U wide(2) Us low Vs low wide(1), folded q]
  show "q < radix" using radix_gt(2) unfolding q by linarith
  show "U div V \<le> q" "q \<le> Suc (U div V)" by (rule lead(1), rule lead(2))
  show "q = U div V" if "n = 2" by (rule lead(3)) (simp add: that)
  show "0 < V" using U by (cases V) simp_all
qed

lemma div_loop_exact:
  assumes len: "length dividend = 4" "length divisor = 4" and n: "2 \<le> n" "j + n \<le> 4"
    and top: "2 ^ 63 \<le> unat (divisor ! (n - 1))"
    and T: "wval (dividend @ [carry]) < wval (take n divisor) * radix ^ Suc j"
  shows "digit_taken j n (wval (take n divisor)) (wval (dividend @ [carry])) quot (div_loop j n dividend carry divisor quot)"
proof -
  define xs vs head where "xs = take n (drop j dividend)" and "vs = take n divisor"
    and "head = (if j + n = 4 then carry else dividend ! (j + n))"
  define qhat where "qhat = trial head (dividend ! (j + n - 1)) (dividend ! (j + n - 2)) (divisor ! (n - 1)) (divisor ! (n - 2))"
  let ?E = "dividend @ [carry]" and ?V = "wval vs" and ?U = "wval xs + radix ^ n * unat head"
  let ?q = "?U div ?V" and ?low = "wval (take j dividend)" and ?up = "drop (Suc (j + n)) (dividend @ [carry])"
  have lens: "length xs = n" "length vs = n" using len n by (simp_all add: xs_def vs_def)
  have V: "?V \<le> radix ^ n" using wval_lt_take [of n divisor] by (simp add: vs_def)
  note rem = partial_remainder [OF len(1) n(2) V T [folded vs_def], folded head_def xs_def]
  have qhat: "qhat = trial head (xs ! (n - 1)) (xs ! (n - 2)) (vs ! (n - 1)) (vs ! (n - 2))"
    using len n by (simp add: qhat_def xs_def vs_def)
  have vtop: "2 ^ 63 \<le> unat (vs ! (n - 1))" using top n by (simp add: vs_def)
  note trial = trial_digit [OF lens n(1) vtop rem(3), folded qhat]
  obtain ys k where sub: "sub_product qhat xs vs 0 = (ys, k)" by (cases "sub_product qhat xs vs 0")
  then have ys: "length ys = n" "unat k \<le> unat qhat" "wval ys + unat qhat * ?V = wval xs + radix ^ n * unat k"
    using sub_product_exact [OF trial(1), of 0 xs vs ys k] lens by simp_all
  have ys_lt: "wval ys < radix ^ n" using wval_lt [of ys] ys(1) by simp
  define t where "t = lo_word (as_u128 head - k)"
  obtain d c where dc: "(d, c) = (if j + n = 4 then (take j dividend @ ys @ drop (j + n) dividend, t)
      else ((take j dividend @ ys @ drop (j + n) dividend)[j + n := t], carry))"
    by (metis surj_pair)
  note upd = carried_update [OF len(1) n(2) ys(1) dc]
  obtain zs k' where add: "add_divisor ys vs 0 = (zs, k')" by (cases "add_divisor ys vs 0")
  have zs: "length zs = n" "unat k' \<le> 1" "wval zs + radix ^ n * unat k' = wval ys + ?V"
    using add_divisor_exact [OF _ _ add] ys(1) lens by simp_all
  have zs_lt: "wval zs < radix ^ n" using wval_lt [of zs] zs(1) by simp
  note kept = digit_borrow(1) [OF ys(3) refl trial(5) V ys_lt trial(2,3)]
    and taken_back = digit_borrow(2) [where zs = "wval zs" and c = "unat k'", OF ys(3) refl trial(5) V ys_lt trial(2,3)]
  define result where "result = (if k > as_u128 head then
      (if j + n = 4 then Panic else Done (quot[j := lo_word (qhat - 1)],
         (take j d @ zs @ drop (j + n) d)[j + n := lo_word (as_u128 ((take j d @ zs @ drop (j + n) d) ! (j + n)) + k')], c))
     else Done (quot[j := lo_word qhat], d, c))"
  have loop: "div_loop j n dividend carry divisor quot = result"
    unfolding div_loop_unfold Let_def head_def [symmetric] qhat_def [symmetric] xs_def [symmetric] vs_def [symmetric] sub
      prod.case t_def [symmetric] dc [symmetric] add result_def ..
  have digit: "unat (lo_word w) = ?q" if "unat w = ?q" for w :: u128
    using that trial(1,2) by simp
  have total: "wval (take j dividend @ ws @ 0 # ?up) = wval ?E mod (?V * radix ^ j)" if "wval ws = ?U mod ?V" for ws
    using that len n rem(1) unfolding rem(5) by (simp add: wval_append min_absorb2)
  have "digit_taken j n ?V (wval ?E) quot result"
  proof (cases "k > as_u128 head")
    case False
    then have eq: "unat qhat = ?q" "wval ys = ?U mod ?V" "unat head = unat k"
      using kept by (simp_all add: word_less_nat_alt)
    then have "as_u128 head = k" by (simp add: word_unat_eq_iff)
    then have t0: "t = 0" by (simp add: t_def lo_word_def)
    have "wval (d @ [c]) = wval ?E mod (?V * radix ^ j)" unfolding upd(2) t0 by (rule total [OF eq(2)])
    with digit [OF eq(1)] upd(1) have "digit_taken j n ?V (wval ?E) quot (Done (quot[j := lo_word qhat], d, c))"
      by (intro digit_takenI) (simp_all only: rem(4))
    with False show ?thesis by (simp add: result_def)
  next
    case True
    then have less: "unat head < unat k" by (simp add: word_less_nat_alt)
    have eq: "unat qhat = Suc ?q" "wval zs = ?U mod ?V" "unat k = unat head + unat k'"
      using taken_back [OF less] zs(3) zs_lt by simp_all
    show ?thesis
    proof (cases "j + n = 4")
      case True
      have "n \<noteq> 2" using trial(4) eq(1) by auto
      with n True \<open>k > as_u128 head\<close> show ?thesis by (simp add: digit_taken_def result_def)
    next
      case no_carry: False
      have d: "d = take j dividend @ ys @ t # drop (Suc (j + n)) dividend" and c: "c = carry"
        using dc no_carry len n ys(1) by (simp_all add: list_update_append min_absorb2 Cons_nth_drop_Suc [symmetric])
      have restored: "take j d @ zs @ drop (j + n) d = take j dividend @ zs @ t # drop (Suc (j + n)) dividend"
        using len n ys(1) by (simp add: d min_absorb2)
      have word_t: "(take j d @ zs @ drop (j + n) d) ! (j + n) = t" unfolding restored using len n zs(1) by (simp add: nth_append min_absorb2)
      have "unat k' = 1" using less eq(3) zs(2) by simp
      then have "k' = 1" by (simp add: word_unat_eq_iff)
      moreover have "k = as_u128 head + k'" using eq(3) u128_lt_radix [of k]
        by (simp add: word_unat_eq_iff unat_word_ariths radix_square)
      ultimately have "t = lo_word (- 1)" by (simp add: t_def)
      then have "unat t = radix - 1" by (simp add: unat_minus_1) (simp add: radix_def)
      then have "unat (as_u128 t + k') = radix"
        using \<open>k' = 1\<close> by (subst unat_add_small) (simp_all, simp_all add: radix_def)
      then have sum0: "lo_word (as_u128 t + k') = 0" by (simp add: word_unat_eq_iff)
      have "unat (qhat - 1) = ?q" using eq(1) by (subst unat_sub_small) simp_all
      have "unat (lo_word (qhat - 1)) = ?q" by (rule digit) fact
      moreover have "wval ((take j d @ zs @ drop (j + n) d)[j + n := 0] @ [c]) = wval ?E mod (?V * radix ^ j)"
        unfolding restored c using len n zs(1) total [OF eq(2)] no_carry by (simp add: list_update_append min_absorb2)
      moreover have "length (take j d @ zs @ drop (j + n) d) = 4" unfolding restored using len n zs(1) no_carry by simp
      ultimately have "digit_taken j n ?V (wval ?E) quot
          (Done (quot[j := lo_word (qhat - 1)], (take j d @ zs @ drop (j + n) d)[j + n := 0], c))"
        by (intro digit_takenI) (simp_all only: rem(4) length_list_update)
      then show ?thesis using True no_carry unfolding result_def word_t sum0 by simp
    qed
  qed
  then show ?thesis by (simp only: loop vs_def)
qed

section \<open>All digits\<close>

definition divided :: "u256 \<Rightarrow> nat \<Rightarrow> nat \<Rightarrow> u256 \<times> u256 \<Rightarrow> bool" where
  "divided quot T V result \<longleftrightarrow> (case result of (quot', remainder) \<Rightarrow>
     length quot' = 4 \<and> wval quot' = wval quot + T div V \<and> length remainder = 4 \<and> wval remainder = T mod V)"

lemma div_digits_exact:
  assumes "length divisor = 4" "2 \<le> n" "2 ^ 63 \<le> unat (divisor ! (n - 1))"
  defines "V \<equiv> wval (take n divisor)"
  shows "k + n \<le> 5 \<Longrightarrow> n \<le> 4 \<Longrightarrow> length dividend = 4 \<Longrightarrow> length quot = 4 \<Longrightarrow> (\<And>i. i < k \<Longrightarrow> quot ! i = 0) \<Longrightarrow>
    wval (dividend @ [carry]) < V * radix ^ k \<Longrightarrow>
    (case div_digits k n dividend carry divisor quot of
       Panic \<Rightarrow> k + n = 5 \<and> 3 \<le> n
     | Done result \<Rightarrow> divided quot (wval (dividend @ [carry])) V result)"
proof (induction k arbitrary: dividend carry quot)
  case 0
  have "radix ^ 4 * unat carry \<le> wval (dividend @ [carry])" using "0.prems"(3) by (simp add: wval_append)
  also have "\<dots> < V" using "0.prems"(6) by simp
  also have "V < radix ^ n" unfolding V_def by (rule wval_lt_take)
  also have "\<dots> \<le> radix ^ 4" using "0.prems"(2) by (intro power_increasing) simp_all
  finally have "carry = 0" by (simp add: unat_eq_0)
  with "0.prems" show ?case by (simp add: divided_def wval_append)
next
  case (Suc k)
  let ?T = "wval (dividend @ [carry])" and ?W = "V * radix ^ k"
  have taken: "digit_taken k n V ?T quot (div_loop k n dividend carry divisor quot)"
    unfolding V_def by (rule div_loop_exact) (use Suc.prems assms in simp_all)
  show ?case
  proof (cases "div_loop k n dividend carry divisor quot")
    case Panic
    with taken show ?thesis by (simp add: digit_taken_def)
  next
    case (Done r)
    obtain quot' dividend' carry' where r: "r = (quot', dividend', carry')" by (cases r)
    with taken Done obtain w where w: "unat w = ?T div ?W" "quot' = quot[k := w]" "length dividend' = 4"
      "wval (dividend' @ [carry']) = ?T mod ?W" by (auto simp: digit_taken_def)
    have "0 < ?W" using Suc.prems(6) by (cases ?W) simp_all
    have IH: "case div_digits k n dividend' carry' divisor quot' of
         Panic \<Rightarrow> k + n = 5 \<and> 3 \<le> n | Done result \<Rightarrow> divided quot' (?T mod ?W) V result"
      unfolding w(4) [symmetric]
      by (rule Suc.IH) (use Suc.prems w \<open>0 < ?W\<close> in simp_all)
    have T: "?T = V * (radix ^ k * unat w) + ?T mod ?W" unfolding w(1) by (simp add: mult.assoc [symmetric])
    have V0: "V \<noteq> 0" using \<open>0 < ?W\<close> by auto
    have div: "?T div V = radix ^ k * unat w + ?T mod ?W div V" "?T mod V = ?T mod ?W mod V"
      by (subst T, simp add: V0, subst T, simp)
    have "wval quot' = wval quot + radix ^ k * unat w"
      using wval_update [of k quot w] Suc.prems(1,2,4,5) assms(2) by (simp add: w(2))
    then have "divided quot ?T V result" if "divided quot' (?T mod ?W) V result" for result
      using that unfolding divided_def div by (auto split: prod.splits)
    with IH Suc.prems(1) show ?thesis by (auto simp: Done r split: outcome.splits)
  qed
qed

lemma div_single_exact:
  assumes "length dividend = 4" "0 < unat d2" "unat d2 < radix"
  shows "j \<le> 4 \<Longrightarrow> length quot = 4 \<Longrightarrow> (\<And>i. i < j \<Longrightarrow> quot ! i = 0) \<Longrightarrow> unat k < unat d2 \<Longrightarrow>
    div_single j dividend d2 (quot, k) = (quot', k') \<Longrightarrow>
    length quot' = 4 \<and> wval quot' = wval quot + (wval (take j dividend) + radix ^ j * unat k) div unat d2
    \<and> unat k' = (wval (take j dividend) + radix ^ j * unat k) mod unat d2"
proof (induction j arbitrary: quot k)
  case (Suc j)
  define d1 q where "d1 = hi_lo (lo_word k) (dividend ! j)" and "q = d1 div d2"
  have d1: "unat d1 = unat k * radix + unat (dividend ! j)" using Suc.prems(4) assms(3) by (simp add: d1_def)
  have "unat d1 < Suc (unat k) * radix" by (simp add: d1)
  also have "\<dots> \<le> unat d2 * radix" using Suc.prems(4) by (intro mult_le_mono1) simp
  finally have q: "unat (lo_word q) = unat d1 div unat d2" by (simp add: q_def unat_div div_less_iff_less_mult assms(2) mult.commute)
  have "d1 - d2 * q = d1 mod d2" by (simp add: q_def minus_mult_div_eq_mod)
  then have r: "unat (d1 - d2 * q) = unat d1 mod unat d2" by (simp add: unat_mod)
  have IH: "length quot' = 4 \<and> wval quot' = wval (quot[j := lo_word q]) + (wval (take j dividend) + radix ^ j * unat (d1 - d2 * q)) div unat d2
    \<and> unat k' = (wval (take j dividend) + radix ^ j * unat (d1 - d2 * q)) mod unat d2"
    by (rule Suc.IH) (use Suc.prems assms(2) r in \<open>simp_all add: d1_def q_def Let_def\<close>)
  have "wval (take (Suc j) dividend) + radix ^ Suc j * unat k = wval (take j dividend) + radix ^ j * unat d1"
    using Suc.prems(1) assms(1) by (subst wval_take_Suc) (simp_all add: d1 algebra_simps)
  also have "\<dots> = (wval (take j dividend) + radix ^ j * unat (d1 - d2 * q)) + unat d2 * (radix ^ j * (unat d1 div unat d2))"
  proof -
    have "radix ^ j * unat d1 = radix ^ j * (unat d1 mod unat d2 + unat d2 * (unat d1 div unat d2))" by simp
    then show ?thesis unfolding r by (simp only: add_mult_distrib2 mult.left_commute add.assoc)
  qed
  finally have T: "wval (take (Suc j) dividend) + radix ^ Suc j * unat k
      = (wval (take j dividend) + radix ^ j * unat (d1 - d2 * q)) + unat d2 * (radix ^ j * (unat d1 div unat d2))" .
  have "wval (quot[j := lo_word q]) = wval quot + radix ^ j * (unat d1 div unat d2)"
    using wval_update [of j quot "lo_word q"] Suc.prems(1-3) by (simp only: q) simp
  with IH show ?case unfolding T using assms(2) by simp
qed simp

section \<open>The division\<close>

lemma try_into_small: "length x = 4 \<Longrightarrow> wval x < 2 ^ 128 \<Longrightarrow> \<exists>v. try_into_u128 x = Inr v \<and> unat v = wval x"
proof -
  assume x: "length x = 4" "wval x < 2 ^ 128"
  then have small: "wval x < radix ^ 2" by (simp add: radix_square power2_eq_square)
  then have "num_words x \<le> 2" by (simp add: num_words_le_iff)
  then have eq: "try_into_u128 x = Inr (hi_lo (x ! 1) (x ! 0))" by (simp add: try_into_u128_def hi_lo_def)
  have "wval x = wval (take 2 x)" using wval_high_zero(2) [OF small] x(1) by simp
  also have "\<dots> = unat (hi_lo (x ! 1) (x ! 0))"
  proof -
    obtain a b c d where "x = [a, b, c, d]" using length_u256 [OF x(1)] by blast
    then show ?thesis by (simp add: eval_nat_numeral mult.commute)
  qed
  finally show ?thesis using eq by simp
qed

lemma try_into_large: "2 ^ 128 \<le> wval x \<Longrightarrow> try_into_u128 x = Inl NumberDownCastError"
  using num_words_le_iff [of x 2] by (simp add: try_into_u128_def radix_square power2_eq_square)

text \<open>The dividend and the divisor of the long division are scaled until the leading word of the divisor is full.\<close>

lemma normalised:
  assumes len: "length a = 4" "length b = 4"
    and m: "num_words a = Suc i" and n: "num_words b = Suc j" "Suc j \<le> Suc i"
  defines "s \<equiv> leading_zeros (b ! j)"
    and "carry \<equiv> (if Suc i = 4 \<and> leading_zeros (a ! i) < leading_zeros (b ! j)
                    then drop_bit (64 - leading_zeros (b ! j)) (a ! i) else 0 :: u64)"
  shows "s < 64" "length (shift_left s a) = 4" "length (shift_left s b) = 4"
    and "wval (take (Suc j) (shift_left s b)) = wval b * 2 ^ s"
    and "2 ^ 63 \<le> unat (shift_left s b ! j)"
    and "wval (shift_left s a @ [carry]) = wval a * 2 ^ s"
    and "wval a * 2 ^ s < wval b * 2 ^ s * radix ^ (i - j + 1)"
proof -
  have top: "j < 4" "b ! j \<noteq> 0" "i < 4" "a ! i \<noteq> 0" using num_words_top [OF n(1)] num_words_top [OF m] len by simp_all
  note lz = leading_zeros_bounds [OF top(2), folded s_def] and lza = leading_zeros_bounds [OF top(4)]
  show s: "s < 64" by (rule lz(1))
  note sa = shift_left_exact [OF len(1) s] and sb = shift_left_exact [OF len(2) s]
  show "length (shift_left s a) = 4" "length (shift_left s b) = 4" by (rule sa(2), rule sb(2))
  have pow: "2 ^ (64 - s) * 2 ^ s = radix" "(2::nat) ^ (63 - s) * 2 ^ s = 2 ^ 63"
    using s by (simp_all add: radix_def flip: power_add)
  have "wval b * 2 ^ s < radix ^ Suc j"
  proof -
    have "wval b < radix ^ j * Suc (unat (b ! j))" by (rule wval_at_least(2) [OF n(1)])
    also have "\<dots> \<le> radix ^ j * 2 ^ (64 - s)" using lz(3) by (intro mult_le_mono2) simp
    finally have "wval b * 2 ^ s < radix ^ j * 2 ^ (64 - s) * 2 ^ s" by simp
    also have "\<dots> = radix ^ Suc j" unfolding mult.assoc pow by simp
    finally show ?thesis .
  qed
  also have "\<dots> \<le> radix ^ 4" using top(1) by (intro power_increasing) simp_all
  finally have "wval b * 2 ^ s < radix ^ 4" .
  have fits: "wval (shift_left s b) = wval b * 2 ^ s"
  proof (rule ccontr)
    assume "wval (shift_left s b) \<noteq> wval b * 2 ^ s"
    then have "unat (b ! 3) div 2 ^ (64 - s) \<noteq> 0" using sb(1) by (metis add.right_neutral mult_0_right)
    then have "radix ^ 4 * 1 \<le> radix ^ 4 * (unat (b ! 3) div 2 ^ (64 - s))" by (intro mult_le_mono2) simp
    with sb(1) \<open>wval b * 2 ^ s < radix ^ 4\<close> show False by simp
  qed
  have small: "wval (shift_left s b) < radix ^ Suc j" unfolding fits by fact
  have take: "wval (take (Suc j) (shift_left s b)) = wval (shift_left s b)"
    using wval_high_zero(2) [OF small] sb(2) top(1) by simp
  then show "wval (take (Suc j) (shift_left s b)) = wval b * 2 ^ s" by (simp only: fits)
  have "radix ^ j * 2 ^ (63 - s) \<le> radix ^ j * unat (b ! j)" using lz(2) by (rule mult_le_mono2)
  also have "\<dots> \<le> wval b" by (rule wval_at_least(1) [OF n(1)])
  finally have "radix ^ j * 2 ^ (63 - s) * 2 ^ s \<le> wval b * 2 ^ s" by (rule mult_le_mono1)
  also have "\<dots> = wval (take j (shift_left s b)) + radix ^ j * unat (shift_left s b ! j)"
    using take fits wval_take_Suc [of j "shift_left s b"] sb(2) top(1) by simp
  also have "\<dots> < radix ^ j * Suc (unat (shift_left s b ! j))" using wval_lt_take [of j "shift_left s b"] by simp
  finally have "radix ^ j * 2 ^ 63 < radix ^ j * Suc (unat (shift_left s b ! j))" by (simp only: mult.assoc pow)
  then show "2 ^ 63 \<le> unat (shift_left s b ! j)" by (simp only: mult_less_cancel1 less_Suc_eq_le)
  have carry: "unat carry = unat (a ! 3) div 2 ^ (64 - s)"
  proof (cases "Suc i = 4")
    case True
    then have i: "i = 3" by simp
    have "unat (a ! 3) div 2 ^ (64 - s) = 0" if "s \<le> leading_zeros (a ! i)"
    proof -
      have "unat (a ! 3) < 2 ^ (64 - leading_zeros (a ! i))" using lza(3) by (simp add: i)
      also have "\<dots> \<le> 2 ^ (64 - s)" using that by (intro power_increasing) simp_all
      finally show ?thesis by simp
    qed
    then show ?thesis by (simp add: carry_def i s_def unat_drop_bit not_less)
  next
    case False
    then have "a ! 3 \<in> set (drop (Suc i) a)" using top(3) len(1) by (auto simp: in_set_conv_nth intro: exI [of _ "2 - i"])
    then have "a ! 3 = 0" using num_words_high [of a] by (auto simp: m wval_zeros)
    with False show ?thesis by (simp add: carry_def)
  qed
  show "wval (shift_left s a @ [carry]) = wval a * 2 ^ s"
    using sa by (simp add: wval_append carry)
  have "wval a < radix ^ Suc i" using wval_less_words [of a] by (simp add: m)
  also have "\<dots> = radix ^ j * radix ^ (i - j + 1)" using n(2) by (simp flip: power_add)
  also have "\<dots> \<le> wval b * radix ^ (i - j + 1)" by (rule mult_le_mono1) (rule wval_at_least_power [OF n(1)])
  finally show "wval a * 2 ^ s < wval b * 2 ^ s * radix ^ (i - j + 1)" by (simp add: mult.commute mult.left_commute)
qed

definition u256_divided :: "u256 \<Rightarrow> u256 \<Rightarrow> bool \<Rightarrow> u256 \<times> u256 \<Rightarrow> bool" where
  "u256_divided a b return_remainder result \<longleftrightarrow> (case result of (quot, remainder) \<Rightarrow>
     length quot = 4 \<and> length remainder = 4 \<and> wval quot = wval a div wval b
     \<and> wval remainder = (if return_remainder then wval a mod wval b else 0))"

lemma u256_div_long:
  "num_words a = m \<Longrightarrow> num_words b = n \<Longrightarrow> 2 \<le> n \<Longrightarrow> n \<le> m \<Longrightarrow> 3 \<le> m \<Longrightarrow>
    u256_div a b return_remainder =
      (let s = leading_zeros (b ! (n - 1));
           carry = (if m = 4 \<and> leading_zeros (a ! (m - 1)) < s then drop_bit (64 - s) (a ! (m - 1)) else 0)
       in bind_outcome (div_digits (m - n + 1) n (shift_left s a) carry (shift_left s b) u256_zero)
            (\<lambda>(quot, dividend). Done (quot, if return_remainder then shift_right s dividend else u256_zero)))"
  by (simp add: u256_div_def Let_def)

lemma long_division:
  assumes len: "length a = 4" "length b = 4"
    and m: "num_words a = Suc i" and n: "num_words b = Suc j" "1 \<le> j" "j \<le> i"
  shows "case u256_div a b return_remainder of
      Panic \<Rightarrow> 2 ^ 192 \<le> wval a \<and> 2 ^ 128 \<le> wval b
    | Done result \<Rightarrow> u256_divided a b return_remainder result"
proof (cases "i < 2")
  case True
  then have "wval a < 2 ^ 128" "wval b < 2 ^ 128"
    using num_words_le_iff [of a 2] num_words_le_iff [of b 2] m n by (simp_all add: radix_square power2_eq_square)
  then obtain v w where v: "try_into_u128 a = Inr v" "unat v = wval a" and w: "try_into_u128 b = Inr w" "unat w = wval b"
    using try_into_small [OF len(1)] try_into_small [OF len(2)] by blast
  have "u256_div a b return_remainder = Done (u256_new 0 (v div w), if return_remainder then u256_new 0 (v mod w) else u256_zero)"
    using True m n by (simp add: u256_div_def v w)
  then show ?thesis using v w by (simp add: u256_divided_def unat_div unat_mod)
next
  case False
  let ?s = "leading_zeros (b ! j)"
  define carry :: u64 where "carry = (if Suc i = 4 \<and> leading_zeros (a ! i) < ?s then drop_bit (64 - ?s) (a ! i) else 0)"
  note norm = normalised [OF len m n(1), folded carry_def]
  have n': "Suc j \<le> Suc i" "i < 4" "j < 4" using n(3) num_words_top [OF m] len by simp_all
  note norm = norm [OF n'(1)]
  have "case div_digits (i - j + 1) (Suc j) (shift_left ?s a) carry (shift_left ?s b) u256_zero of
         Panic \<Rightarrow> (i - j + 1) + Suc j = 5 \<and> 3 \<le> Suc j
       | Done result \<Rightarrow> divided u256_zero (wval a * 2 ^ ?s) (wval b * 2 ^ ?s) result"
    unfolding norm(4) [symmetric] norm(6) [symmetric]
  proof (rule div_digits_exact)
    show "u256_zero ! k = 0" if "k < i - j + 1" for k
      using that n'(2) by (auto simp: u256_zero_def u256_new_def lo_word_def hi_word_def nth_Cons split: nat.split)
  qed (use n' n norm in simp_all)
  moreover have "u256_div a b return_remainder =
      bind_outcome (div_digits (i - j + 1) (Suc j) (shift_left ?s a) carry (shift_left ?s b) u256_zero)
        (\<lambda>(quot, dividend). Done (quot, if return_remainder then shift_right ?s dividend else u256_zero))"
    unfolding carry_def
    by (rule u256_div_long [OF m n(1), unfolded Let_def diff_Suc_1 diff_Suc_Suc]) (use n n'(1) False in simp_all)
  ultimately show ?thesis
  proof (cases "div_digits (i - j + 1) (Suc j) (shift_left ?s a) carry (shift_left ?s b) u256_zero")
    case Panic
    with \<open>case div_digits _ _ _ _ _ _ of Panic \<Rightarrow> _ | Done _ \<Rightarrow> _\<close> have "i = 3" "2 \<le> j" using n'(1) by simp_all
    then have "radix ^ 3 \<le> wval a" "radix ^ 2 \<le> radix ^ j" "radix ^ j \<le> wval b"
      using wval_at_least_power [OF m] wval_at_least_power [OF n(1)] by (simp_all add: power_increasing)
    then have "2 ^ 192 \<le> wval a" "2 ^ 128 \<le> wval b" by (simp_all add: radix_def)
    with Panic \<open>u256_div a b return_remainder = _\<close> show ?thesis by simp
  next
    case (Done r)
    obtain quot rem where r: "r = (quot, rem)" by (cases r)
    have "(wval a * 2 ^ ?s) mod (wval b * 2 ^ ?s) div 2 ^ ?s = wval a mod wval b" by (simp add: mult_mod_left [symmetric])
    with Done \<open>case div_digits _ _ _ _ _ _ of Panic \<Rightarrow> _ | Done _ \<Rightarrow> _\<close> \<open>u256_div a b return_remainder = _\<close> shift_right_exact [of rem ?s] norm(1)
    show ?thesis by (simp add: r divided_def u256_divided_def)
  qed
qed

lemma u256_div_exact:
  assumes len: "length a = 4" "length b = 4" and "wval b \<noteq> 0"
  shows "case u256_div a b return_remainder of
      Panic \<Rightarrow> 2 ^ 192 \<le> wval a \<and> 2 ^ 128 \<le> wval b
    | Done result \<Rightarrow> u256_divided a b return_remainder result"
proof -
  obtain j where n: "num_words b = Suc j" using assms(3) num_words_0 [of b] by (cases "num_words b") auto
  show ?thesis
  proof (cases "num_words a")
    case 0
    then have "wval a = 0" by (simp add: num_words_0)
    then show ?thesis by (simp add: u256_div_def 0 n u256_divided_def)
  next
    case m: (Suc i)
    show ?thesis
    proof (cases "j \<le> i")
      case False
      have "wval a < radix ^ Suc i" using wval_less_words [of a] by (simp add: m)
      also have "\<dots> \<le> radix ^ j" using False by (intro power_increasing) simp_all
      also have "\<dots> \<le> wval b" by (rule wval_at_least_power [OF n])
      finally show ?thesis using False len(1) by (simp add: u256_div_def m n u256_divided_def)
    next
      case True
      show ?thesis
      proof (cases "j = 0")
        case False
        then show ?thesis by (intro long_division [OF len m n] True) simp
      next
        case one: True
        then have "wval b = unat (b ! 0)"
          using wval_num_words [of b] len(2) wval_take_Suc [of 0 b] by (simp add: n)
        with assms(3) have b: "wval b = unat (b ! 0)" "0 < unat (b ! 0)" by simp_all
        then have "wval b < 2 ^ 128" using word_lt_radix [of "b ! 0"] by (simp add: radix_def)
        show ?thesis
        proof (cases "i < 2")
          case True
          then have "wval a < 2 ^ 128" using num_words_le_iff [of a 2] by (simp add: m radix_square power2_eq_square)
          then obtain v w where v: "try_into_u128 a = Inr v" "unat v = wval a" and w: "try_into_u128 b = Inr w" "unat w = wval b"
            using try_into_small [OF len(1)] try_into_small [OF len(2)] \<open>wval b < 2 ^ 128\<close> by blast
          have "u256_div a b return_remainder
              = Done (u256_new 0 (v div w), if return_remainder then u256_new 0 (v mod w) else u256_zero)"
            using True m n one by (simp add: u256_div_def v w)
          then show ?thesis using v w by (simp add: u256_divided_def unat_div unat_mod)
        next
          case False
          obtain quot k where single: "div_single (Suc i) a (as_u128 (b ! 0)) (u256_zero, 0) = (quot, k)"
            by (metis surj_pair)
          have "length quot = 4 \<and> wval quot = wval u256_zero + (wval (take (Suc i) a) + radix ^ Suc i * unat (0 :: u128)) div unat (as_u128 (b ! 0))
             \<and> unat k = (wval (take (Suc i) a) + radix ^ Suc i * unat (0 :: u128)) mod unat (as_u128 (b ! 0))"
          proof (rule div_single_exact [OF len(1) _ _ _ _ _ _ single])
            show "u256_zero ! l = 0" if "l < Suc i" for l
              using that num_words_top [OF m] len(1)
              by (auto simp: u256_zero_def u256_new_def lo_word_def hi_word_def nth_Cons split: nat.split)
          qed (use b num_words_top [OF m] len(1) in simp_all)
          then have "length quot = 4" "wval quot = wval a div wval b" "unat k = wval a mod wval b"
            using b wval_num_words [of a] by (simp_all add: m)
          moreover have "u256_div a b return_remainder = Done (quot, if return_remainder then u256_new 0 k else u256_zero)"
            using False single one by (simp add: u256_div_def m n)
          ultimately show ?thesis by (simp add: u256_divided_def)
        qed
      qed
    qed
  qed
qed

end
