(* ===== verification/Orca_Math_Properties.thy ===== *)
theory Orca_Math_Properties
  imports Orca_Math U256_Division
begin

text \<open>
  The swap mathematics against the exact formulas over the natural numbers: the amounts between two prices are the
  rounded quotients, the next prices are the rounded roots, and a step that takes a fixed input never takes more than
  is left, never passes the target price, and never lowers the product of the virtual reserves.
\<close>

lemma and_then_Inr: "and_then m f = Done (Inr y) \<longleftrightarrow> (\<exists>x. m = Done (Inr x) \<and> f x = Done (Inr y))"
  by (cases "(m, f)" rule: and_then.cases) auto

section \<open>Rounded quotients\<close>

definition round_div :: "bool \<Rightarrow> nat \<Rightarrow> nat \<Rightarrow> nat" where
  "round_div up n d = (if up \<and> n mod d \<noteq> 0 then n div d + 1 else n div d)"

lemma round_down [simp]: "round_div False n d = n div d"
  by (simp add: round_div_def)

lemma round_up_le_iff: "0 < d \<Longrightarrow> round_div True n d \<le> k \<longleftrightarrow> n \<le> k * d"
proof -
  assume d: "0 < d"
  have n: "n = n div d * d + n mod d" by simp
  show ?thesis
  proof
    assume "round_div True n d \<le> k"
    then have "round_div True n d * d \<le> k * d" by (rule mult_le_mono1)
    moreover have "n \<le> round_div True n d * d"
    proof (cases "n mod d = 0")
      case True
      then show ?thesis using n by (simp add: round_div_def)
    next
      case False
      have "n < n div d * d + d" using n mod_less_divisor [OF d, of n] by linarith
      then show ?thesis using False by (simp add: round_div_def)
    qed
    ultimately show "n \<le> k * d" by (rule order_trans [rotated])
  next
    assume le: "n \<le> k * d"
    then have "n div d \<le> k" using d by (metis div_le_mono div_mult_self_is_m)
    moreover have "n div d \<noteq> k" if "n mod d \<noteq> 0"
    proof
      assume "n div d = k"
      with le have "n \<le> n div d * d" by simp
      with n that show False by linarith
    qed
    ultimately show "round_div True n d \<le> k" by (auto simp: round_div_def)
  qed
qed

lemma round_up_ge: "0 < d \<Longrightarrow> n \<le> round_div True n d * d"
  using round_up_le_iff [of d n "round_div True n d"] by simp

lemma round_up_less_iff: "0 < d \<Longrightarrow> k < round_div True n d \<longleftrightarrow> k * d < n"
  by (metis not_less round_up_le_iff)

text \<open>The rounded quotient of words.\<close>

lemma u256_is_zero_iff: "u256_is_zero x \<longleftrightarrow> wval x = 0"
  by (simp add: u256_is_zero_def wval_zeros list_all_iff)

lemma u256_rounded:
  assumes len: "length a = 4" "length b = 4" "wval b \<noteq> 0" and div: "u256_div a b up = Done (quot, remainder)"
  defines "x \<equiv> (if up \<and> \<not> u256_is_zero remainder then u256_add quot (u256_new 0 1) else quot)"
  shows "wval x = round_div up (wval a) (wval b)" "length x = 4"
proof -
  have q: "length quot = 4" "wval quot = wval a div wval b" "wval remainder = (if up then wval a mod wval b else 0)"
    using u256_div_exact [OF len, of up] by (simp_all add: div u256_divided_def)
  have "wval a div wval b + 1 < radix ^ 4" if "wval a mod wval b \<noteq> 0"
  proof -
    have "wval b \<noteq> 1" using that by auto
    then have "2 \<le> wval b" using len(3) by simp
    then have "wval a div wval b \<le> wval a div 2" by (rule div_le_mono2 [rotated]) simp
    moreover have "wval a < radix ^ 4" using wval_lt [of a] len(1) by simp
    ultimately show ?thesis by (simp add: radix_def)
  qed
  then show "wval x = round_div up (wval a) (wval b)"
    using q u256_add_exact(2) [OF q(1), of "u256_new 0 1"] by (simp add: x_def u256_is_zero_iff round_div_def)
  show "length x = 4" using q u256_add_exact(1) [OF q(1), of "u256_new 0 1"] by (simp add: x_def)
qed

lemma shift_word_exact:
  assumes "length x = 4" "wval x < radix ^ 3"
  shows "wval (shift_word_left x) = wval x * radix" "length (shift_word_left x) = 4"
  using wval_high_zero(2) [OF assms(2)] assms(1) by (simp_all add: shift_word_left_def)

lemma checked_shift_word_exact:
  assumes "length x = 4"
  shows "case checked_shift_word_left x of
      None \<Rightarrow> radix ^ 3 \<le> wval x | Some y \<Rightarrow> wval y = wval x * radix \<and> length y = 4 \<and> wval x < radix ^ 3"
proof -
  obtain a b c d where x: "x = [a, b, c, d]" using length_u256 [OF assms] by blast
  have eq: "wval x = wval [a, b, c] + radix ^ 3 * unat d" by (simp add: x eval_nat_numeral algebra_simps)
  have low: "wval [a, b, c] < radix ^ 3" using wval_lt [of "[a, b, c]"] by (simp add: eval_nat_numeral)
  show ?thesis
  proof (cases "d = 0")
    case True
    then have small: "wval x < radix ^ 3" using eq low by simp
    then show ?thesis using True shift_word_exact [OF assms small] by (simp add: checked_shift_word_left_def x)
  next
    case False
    then have "checked_shift_word_left x = None" by (simp add: checked_shift_word_left_def x word_gt_0)
    moreover have "radix ^ 3 \<le> radix ^ 3 * unat d" using False by (simp add: Suc_le_eq unat_gt_0)
    then have "radix ^ 3 \<le> wval x" unfolding eq by (rule trans_le_add2)
    ultimately show ?thesis by simp
  qed
qed

section \<open>Amounts\<close>

definition represents :: "amount_delta \<Rightarrow> nat \<Rightarrow> bool" where
  "represents d n \<longleftrightarrow> (case d of Valid v \<Rightarrow> unat v = n | ExceedsMax e \<Rightarrow> 2 ^ 64 \<le> n)"

definition gap :: "nat \<Rightarrow> nat \<Rightarrow> nat" where
  "gap p q = max p q - min p q"

definition exact_delta_a :: "nat \<Rightarrow> nat \<Rightarrow> nat \<Rightarrow> bool \<Rightarrow> nat" where
  \<comment> \<open>token A between two square roots of the price, in Q64.64\<close>
  "exact_delta_a p q liquidity up = round_div up (liquidity * gap p q * 2 ^ 64) (p * q)"

definition exact_delta_b :: "nat \<Rightarrow> nat \<Rightarrow> nat \<Rightarrow> bool \<Rightarrow> nat" where
  "exact_delta_b p q liquidity up = round_div up (liquidity * gap p q) (2 ^ 64)"

lemma price_order:
  "increasing_price_order p q = (lower, upper) \<Longrightarrow>
    unat (upper - lower) = gap (unat p) (unat q) \<and> unat upper * unat lower = unat p * unat q"
  by (auto simp: increasing_price_order_def gap_def word_less_nat_alt word_le_nat_alt unat_sub max_def min_def
      split: if_splits)

lemma try_delta_a_exact:
  assumes "p \<noteq> 0" "q \<noteq> 0"
  shows "case try_get_amount_delta_a p q liquidity up of
      Panic \<Rightarrow> 2 ^ 192 \<le> unat liquidity * gap (unat p) (unat q) * 2 ^ 64 \<and> 2 ^ 128 \<le> unat p * unat q
    | Done (Inl e) \<Rightarrow> 2 ^ 192 \<le> unat liquidity * gap (unat p) (unat q)
    | Done (Inr d) \<Rightarrow> represents d (exact_delta_a (unat p) (unat q) (unat liquidity) up)"
proof -
  obtain lower upper where order: "increasing_price_order p q = (lower, upper)" by (metis surj_pair)
  let ?n = "mul_u256 liquidity (upper - lower)" and ?d = "mul_u256 upper lower"
  let ?N = "unat liquidity * gap (unat p) (unat q)"
  have vals: "wval ?n = ?N" "wval ?d = unat p * unat q" "length ?n = 4" "length ?d = 4"
    using price_order [OF order] by (simp_all add: mul_u256_exact)
  have nonzero: "wval ?d \<noteq> 0" using assms by (simp add: vals unat_eq_0)
  show ?thesis
  proof (cases "checked_shift_word_left ?n")
    case None
    with checked_shift_word_exact [of ?n] vals show ?thesis
      by (simp add: try_get_amount_delta_a_def order radix_def)
  next
    case (Some num)
    with checked_shift_word_exact [of ?n] vals have num: "wval num = ?N * radix" "length num = 4" by simp_all
    show ?thesis
    proof (cases "u256_div num ?d up")
      case Panic
      with u256_div_exact [OF num(2) vals(4) nonzero, of up] Some show ?thesis
        by (simp add: try_get_amount_delta_a_def order num vals radix_def)
    next
      case (Done r)
      obtain quot rem where r: "r = (quot, rem)" by (cases r)
      let ?x = "if up \<and> \<not> u256_is_zero rem then u256_add quot (u256_new 0 1) else quot"
      have x: "wval ?x = exact_delta_a (unat p) (unat q) (unat liquidity) up" "length ?x = 4"
        using u256_rounded [OF num(2) vals(4) nonzero, of up quot rem] Done
        by (simp_all add: r exact_delta_a_def num vals radix_def)
      show ?thesis
      proof (cases "wval ?x < 2 ^ 128")
        case True
        then obtain v where v: "try_into_u128 ?x = Inr v" "unat v = wval ?x" using try_into_small [OF x(2)] by blast
        have big: "v > as_u128 u64_max \<longleftrightarrow> 2 ^ 64 \<le> unat v" by (simp add: word_less_nat_alt unat_u64_max) linarith
        show ?thesis
          using v x(1) Some Done big
          by (auto simp: try_get_amount_delta_a_def order r represents_def unat_as_u64_small not_le)
      next
        case False
        then show ?thesis
          using try_into_large [of ?x] x(1) Some Done
          by (auto simp: try_get_amount_delta_a_def order r represents_def)
      qed
    qed
  qed
qed

lemma try_delta_b_exact:
  "\<exists>d. try_get_amount_delta_b p q liquidity up = Inr d
    \<and> represents d (exact_delta_b (unat p) (unat q) (unat liquidity) up)"
proof -
  obtain lower upper where order: "increasing_price_order p q = (lower, upper)" by (metis surj_pair)
  define n1 where "n1 = upper - lower"
  have n1: "unat n1 = gap (unat p) (unat q)" using price_order [OF order] by (simp add: n1_def)
  let ?P = "unat liquidity * unat n1"
  have eq: "try_get_amount_delta_b p q liquidity up =
      (if liquidity = 0 \<or> n1 = 0 then Inr (Valid 0)
       else Inr (case u128_checked_mul liquidity n1 of
         Some v \<Rightarrow>
           (if (up \<and> v AND q64_mask > 0) \<and> as_u64 (drop_bit q64_resolution v) = u64_max then ExceedsMax MultiplicationOverflow
            else Valid (if up \<and> v AND q64_mask > 0 then as_u64 (drop_bit q64_resolution v) + 1
                        else as_u64 (drop_bit q64_resolution v)))
       | None \<Rightarrow> ExceedsMax MultiplicationShiftRightOverflow))"
    unfolding try_get_amount_delta_b_def order prod.case Let_def n1_def ..
  show ?thesis
  proof (cases "liquidity = 0 \<or> n1 = 0")
    case True
    then have "exact_delta_b (unat p) (unat q) (unat liquidity) up = 0"
      by (auto simp: exact_delta_b_def n1 [symmetric] round_div_def)
    with True show ?thesis by (simp add: eq represents_def)
  next
    case nonzero: False
    show ?thesis
    proof (cases "?P < 2 ^ 128")
      case True
      then obtain v where v: "u128_checked_mul liquidity n1 = Some v" "unat v = ?P" using unat_checked_mul by blast
      define result should_round where "result = as_u64 (drop_bit q64_resolution v)"
        and "should_round \<longleftrightarrow> up \<and> v AND q64_mask > 0"
      have "?P div 2 ^ 64 < 2 ^ 64" using True by (simp add: less_mult_imp_div_less)
      then have result: "unat result = ?P div 2 ^ 64"
        unfolding result_def q64_resolution_def by (subst unat_as_u64_small) (simp_all add: unat_drop_bit v)
      have mask: "v AND q64_mask = take_bit 64 v" by (simp add: q64_mask_def take_bit_eq_mask mask_eq_exp_minus_1)
      have "unat (v AND q64_mask) = ?P mod 2 ^ 64" unfolding mask unsigned_take_bit_eq by (simp add: take_bit_eq_mod v)
      then have round: "should_round \<longleftrightarrow> up \<and> ?P mod 2 ^ 64 \<noteq> 0"
        unfolding should_round_def by (metis unat_eq_0 word_gt_0)
      have exact: "exact_delta_b (unat p) (unat q) (unat liquidity) up = ?P div 2 ^ 64 + (if should_round then 1 else 0)"
        by (simp add: exact_delta_b_def n1 round_div_def round)
      have "try_get_amount_delta_b p q liquidity up =
        Inr (if should_round \<and> result = u64_max then ExceedsMax MultiplicationOverflow
             else Valid (if should_round then result + 1 else result))"
        using nonzero by (simp add: eq v(1) result_def should_round_def)
      moreover have "unat (result + 1) = unat result + 1" if "result \<noteq> u64_max"
      proof -
        have "unat result \<noteq> unat u64_max" using that by (simp add: word_unat_eq_iff)
        then have "unat result + unat (1 :: u64) < 2 ^ LENGTH(64)" using unat_lt_u64 [of result] by (simp add: unat_u64_max)
        then show ?thesis by (subst unat_add_small) simp_all
      qed
      moreover have "result = u64_max \<longleftrightarrow> ?P div 2 ^ 64 = 2 ^ 64 - 1"
        by (simp add: word_unat_eq_iff result unat_u64_max)
      ultimately show ?thesis by (auto simp: represents_def exact result)
    next
      case False
      then have "u128_checked_mul liquidity n1 = None" by (simp add: u128_checked_mul_def)
      moreover have "2 ^ 64 \<le> exact_delta_b (unat p) (unat q) (unat liquidity) up"
      proof -
        have "(2 ^ 64 :: nat) = 2 ^ 128 div 2 ^ 64" by simp
        also have "\<dots> \<le> ?P div 2 ^ 64" using False by (intro div_le_mono) simp
        also have "\<dots> \<le> exact_delta_b (unat p) (unat q) (unat liquidity) up"
          by (simp add: exact_delta_b_def n1 round_div_def)
        finally show ?thesis .
      qed
      ultimately show ?thesis using nonzero by (simp add: eq represents_def)
    qed
  qed
qed

lemma delta_result_Inr: "delta_result d = Done (Inr v) \<longleftrightarrow> d = Valid v"
  by (cases d) (auto simp: delta_result_def)

lemma delta_a_exact:
  assumes "p \<noteq> 0" "q \<noteq> 0" "get_amount_delta_a p q liquidity up = Done (Inr v)"
  shows "unat v = exact_delta_a (unat p) (unat q) (unat liquidity) up"
proof -
  have "try_get_amount_delta_a p q liquidity up = Done (Inr (Valid v))"
    using assms(3) by (auto simp: get_amount_delta_a_def and_then_Inr delta_result_Inr)
  with try_delta_a_exact [OF assms(1,2), of liquidity up] show ?thesis by (simp add: represents_def)
qed

lemma delta_b_exact:
  assumes "get_amount_delta_b p q liquidity up = Done (Inr v)"
  shows "unat v = exact_delta_b (unat p) (unat q) (unat liquidity) up"
proof -
  have "try_get_amount_delta_b p q liquidity up = Inr (Valid v)"
    using assms by (auto simp: get_amount_delta_b_def and_then_Inr delta_result_Inr)
  with try_delta_b_exact [of p q liquidity up] show ?thesis by (simp add: represents_def)
qed

section \<open>Prices\<close>

lemma min_price: "unat min_sqrt_price_x64 = 4295048016" "unat max_sqrt_price_x64 = 79226673515401279992447579055"
  by (simp_all add: min_sqrt_price_x64_def max_sqrt_price_x64_def)

lemma next_price_a:
  assumes "sqrt_price \<noteq> 0" "amount \<noteq> 0"
    and price: "get_next_sqrt_price_from_a_round_up sqrt_price liquidity amount True = Done (Inr n)"
  shows "unat n = round_div True (unat liquidity * 2 ^ 64 * unat sqrt_price)
      (unat liquidity * 2 ^ 64 + unat sqrt_price * unat amount)"
    and "unat min_sqrt_price_x64 \<le> unat n" "unat n \<le> unat max_sqrt_price_x64"
proof -
  let ?p = "unat sqrt_price" and ?L = "unat liquidity" and ?a = "unat amount"
  let ?prod = "mul_u256 sqrt_price (as_u128 amount)" and ?sh = "shift_word_left (u256_new 0 liquidity)"
  let ?n = "mul_u256 liquidity sqrt_price"
  have prod: "wval ?prod = ?p * ?a" "length ?prod = 4" by (simp_all add: mul_u256_exact)
  have "wval (u256_new 0 liquidity) < radix ^ 3" using unat_lt_u128 [of liquidity] by (simp add: radix_def)
  then have sh: "wval ?sh = ?L * 2 ^ 64" "length ?sh = 4"
    using shift_word_exact [of "u256_new 0 liquidity"] by (simp_all add: radix_def)
  have "?L * 2 ^ 64 < 2 ^ 128 * 2 ^ 64" using unat_lt_u128 [of liquidity] by simp
  moreover have "?p * ?a \<le> 2 ^ 128 * 2 ^ 64"
    using unat_lt_u128 [of sqrt_price] unat_lt_u64 [of amount] by (intro mult_le_mono less_imp_le)
  ultimately have "?L * 2 ^ 64 + ?p * ?a < 2 ^ 128 * 2 ^ 64 + 2 ^ 128 * 2 ^ 64" by linarith
  then have den: "wval (u256_add ?sh ?prod) = ?L * 2 ^ 64 + ?p * ?a" "length (u256_add ?sh ?prod) = 4"
    using u256_add_exact [OF sh(2) prod(2)] by (simp_all add: sh prod radix_def)
  have nonzero: "wval (u256_add ?sh ?prod) \<noteq> 0" unfolding den using assms(1,2) by (simp add: unat_eq_0)
  obtain num where num: "checked_shift_word_left ?n = Some num"
    using price assms(2) by (auto simp: get_next_sqrt_price_from_a_round_up_def Let_def split: option.splits)
  then have numv: "wval num = ?L * ?p * radix" "length num = 4"
    using checked_shift_word_exact [of ?n] by (simp_all add: mul_u256_exact)
  have step: "and_then (div_round_up_if_u256 num (u256_add ?sh ?prod) True) (\<lambda>price.
       Done (if price < min_sqrt_price_x64 then Inl TokenMinSubceeded
             else if price > max_sqrt_price_x64 then Inl TokenMaxExceeded else Inr price)) = Done (Inr n)"
    using price assms(2) num by (simp add: get_next_sqrt_price_from_a_round_up_def Let_def)
  then obtain quot rem where div: "u256_div num (u256_add ?sh ?prod) True = Done (quot, rem)"
    by (cases "u256_div num (u256_add ?sh ?prod) True") (auto simp: div_round_up_if_u256_def)
  let ?x = "if True \<and> \<not> u256_is_zero rem then u256_add quot (u256_new 0 1) else quot"
  have x: "wval ?x = round_div True (?L * ?p * radix) (?L * 2 ^ 64 + ?p * ?a)" "length ?x = 4"
    using u256_rounded [OF numv(2) den(2) nonzero div] by (simp_all add: numv den)
  have got: "try_into_u128 ?x = Inr n \<and> min_sqrt_price_x64 \<le> n \<and> n \<le> max_sqrt_price_x64"
    using step by (cases "try_into_u128 ?x") (auto simp: div_round_up_if_u256_def div not_less split: if_splits)
  then have "wval ?x < 2 ^ 128" using try_into_large [of ?x] by (cases "2 ^ 128 \<le> wval ?x") auto
  with try_into_small [OF x(2)] got have "unat n = wval ?x" by auto
  moreover have "?L * ?p * radix = ?L * 2 ^ 64 * ?p" by (simp add: radix_def)
  ultimately show "unat n = round_div True (?L * 2 ^ 64 * ?p) (?L * 2 ^ 64 + ?p * ?a)" by (simp only: x(1))
  show "unat min_sqrt_price_x64 \<le> unat n" "unat n \<le> unat max_sqrt_price_x64"
    using got by (simp_all add: word_le_nat_alt)
qed

lemma next_price_b:
  assumes price: "get_next_sqrt_price_from_b_round_down sqrt_price liquidity amount True = Inr n"
  shows "0 < unat liquidity" "unat n = unat sqrt_price + unat amount * 2 ^ 64 div unat liquidity"
proof -
  have "unat amount * 2 ^ 64 < 2 ^ 128" using unat_lt_u64 [of amount] by simp
  then have x64: "unat (push_bit q64_resolution (as_u128 amount)) = unat amount * 2 ^ 64"
    unfolding q64_resolution_def unsigned_push_bit_eq by (simp add: take_bit_eq_mod push_bit_eq_mult)
  have L: "liquidity \<noteq> 0" using price by (auto simp: get_next_sqrt_price_from_b_round_down_def div_round_up_if_def)
  then show "0 < unat liquidity" by (simp add: unat_gt_0)
  let ?d = "push_bit q64_resolution (as_u128 amount) div liquidity"
  have "unat ?d = unat amount * 2 ^ 64 div unat liquidity" by (simp add: unat_div x64)
  moreover have "u128_checked_add sqrt_price ?d = Some n"
    using price L by (simp add: get_next_sqrt_price_from_b_round_down_def div_round_up_if_def Let_def split: option.splits)
  ultimately show "unat n = unat sqrt_price + unat amount * 2 ^ 64 div unat liquidity"
    by (auto simp: u128_checked_add_def unat_add_small split: if_splits)
qed

section \<open>The two directions\<close>

text \<open>
  Token A in: the price falls to the rounded-up root; token B in: it rises to the rounded-down root. The amount that
  the new price costs, rounded up, is within the input, and a target that costs more is not passed.
\<close>

definition price_after_a :: "nat \<Rightarrow> nat \<Rightarrow> nat \<Rightarrow> nat" where
  "price_after_a p liquidity amount = round_div True (liquidity * 2 ^ 64 * p) (liquidity * 2 ^ 64 + p * amount)"

definition price_after_b :: "nat \<Rightarrow> nat \<Rightarrow> nat \<Rightarrow> nat" where
  "price_after_b p liquidity amount = p + amount * 2 ^ 64 div liquidity"

lemma gap_simps: "q \<le> p \<Longrightarrow> gap p q = p - q" "p \<le> q \<Longrightarrow> gap p q = q - p"
  by (simp_all add: gap_def)

lemma price_after_a_facts:
  assumes "0 < p" "0 < liquidity * 2 ^ 64 + p * amount"
  defines "n \<equiv> price_after_a p liquidity amount"
  shows "n \<le> p"
    and "0 < n \<Longrightarrow> exact_delta_a p n liquidity True \<le> amount"
    and "0 < t \<Longrightarrow> t \<le> p \<Longrightarrow> amount < exact_delta_a p t liquidity True \<Longrightarrow> t \<le> n"
proof -
  let ?d = "liquidity * 2 ^ 64 + p * amount"
  show le: "n \<le> p"
    unfolding n_def price_after_a_def by (subst round_up_le_iff [OF assms(2)]) (simp add: algebra_simps)
  have ge: "liquidity * 2 ^ 64 * p \<le> n * ?d" unfolding n_def price_after_a_def by (rule round_up_ge [OF assms(2)])
  show "exact_delta_a p n liquidity True \<le> amount" if "0 < n"
  proof -
    have "liquidity * 2 ^ 64 * (p - n) \<le> p * amount * n"
      using ge le by (simp add: algebra_simps diff_mult_distrib2)
    then show ?thesis
      unfolding exact_delta_a_def using that assms(1) by (subst round_up_le_iff) (simp_all add: gap_simps le algebra_simps)
  qed
  show "t \<le> n" if "0 < t" "t \<le> p" "amount < exact_delta_a p t liquidity True"
  proof -
    have "amount * (p * t) < liquidity * gap p t * 2 ^ 64"
      using that assms(1) round_up_less_iff [of "p * t"] by (simp add: exact_delta_a_def)
    also have "\<dots> = liquidity * 2 ^ 64 * p - liquidity * 2 ^ 64 * t" using that(2) by (simp add: gap_simps diff_mult_distrib2 algebra_simps)
    finally have "t * ?d < liquidity * 2 ^ 64 * p" by (simp add: algebra_simps)
    then have "t * ?d < n * ?d" using ge by (rule less_le_trans)
    then show ?thesis unfolding mult_less_cancel2 by simp
  qed
qed

lemma price_after_b_facts:
  fixes p amount :: nat
  assumes "0 < liquidity"
  defines "n \<equiv> price_after_b p liquidity amount"
  shows "p \<le> n"
    and "exact_delta_b p n liquidity True \<le> amount"
    and "p \<le> t \<Longrightarrow> amount < exact_delta_b p t liquidity True \<Longrightarrow> n \<le> t"
proof -
  show le: "p \<le> n" by (simp add: n_def price_after_b_def)
  have "liquidity * gap p n \<le> amount * 2 ^ 64"
    using le by (simp add: gap_simps) (simp add: n_def price_after_b_def)
  then show "exact_delta_b p n liquidity True \<le> amount"
    unfolding exact_delta_b_def by (subst round_up_le_iff) simp_all
  show "n \<le> t" if "p \<le> t" "amount < exact_delta_b p t liquidity True"
  proof -
    have "amount * 2 ^ 64 < liquidity * (t - p)"
      using that round_up_less_iff [of "2 ^ 64"] by (simp add: exact_delta_b_def gap_simps)
    then have "amount * 2 ^ 64 div liquidity \<le> t - p"
      using assms(1) by (simp add: less_mult_imp_div_less less_imp_le mult.commute)
    then show ?thesis using that(1) by (simp add: n_def price_after_b_def)
  qed
qed

text \<open>
  The virtual reserves of the liquidity \<open>L\<close> at the root \<open>p\<close> are \<open>L / p\<close> of token A and \<open>L * p\<close> of token B. With the
  input rounded up and the output rounded down their product does not fall; the fractions are cleared below.
\<close>

definition product_kept :: "bool \<Rightarrow> nat \<Rightarrow> nat \<Rightarrow> nat \<Rightarrow> nat \<Rightarrow> bool" where
  "product_kept a_to_b liquidity p amount_in amount_out \<longleftrightarrow>
     (let a = liquidity * 2 ^ 64; b = liquidity * p in
      if a_to_b
      then amount_out * 2 ^ 64 \<le> b \<and> a * b \<le> (a + amount_in * p) * (b - amount_out * 2 ^ 64)
      else amount_out * p \<le> a \<and> a * b \<le> (a - amount_out * p) * (b + amount_in * 2 ^ 64))"

lemma product_kept_a:
  assumes "0 < n" "n \<le> p"
  shows "product_kept True liquidity p (exact_delta_a p n liquidity True) (exact_delta_b p n liquidity False)"
proof -
  let ?a = "liquidity * 2 ^ 64" and ?b = "liquidity * p"
  let ?in = "exact_delta_a p n liquidity True" and ?out = "exact_delta_b p n liquidity False"
  have "?out * 2 ^ 64 \<le> liquidity * (p - n)" using assms by (simp add: exact_delta_b_def gap_simps)
  moreover have "liquidity * (p - n) = ?b - liquidity * n" by (rule diff_mult_distrib2)
  moreover have "liquidity * n \<le> ?b" using assms(2) by simp
  ultimately have out: "?out * 2 ^ 64 \<le> ?b" "liquidity * n \<le> ?b - ?out * 2 ^ 64" by linarith+
  have "liquidity * gap p n * 2 ^ 64 \<le> ?in * (p * n)"
    unfolding exact_delta_a_def by (rule round_up_ge) (use assms in simp)
  then have "?a * p \<le> (?a + ?in * p) * n" using assms(2) by (simp add: gap_simps diff_mult_distrib2 algebra_simps)
  then have "liquidity * (?a * p) \<le> liquidity * ((?a + ?in * p) * n)" by (rule mult_le_mono2)
  also have "\<dots> = (?a + ?in * p) * (liquidity * n)" by (simp add: mult.commute mult.left_commute)
  also have "\<dots> \<le> (?a + ?in * p) * (?b - ?out * 2 ^ 64)" using out(2) by (rule mult_le_mono2)
  finally show ?thesis using out(1) by (simp add: product_kept_def mult.commute mult.left_commute)
qed

lemma product_kept_b:
  assumes "0 < p" "p \<le> n"
  shows "product_kept False liquidity p (exact_delta_b p n liquidity True) (exact_delta_a p n liquidity False)"
proof -
  let ?a = "liquidity * 2 ^ 64" and ?b = "liquidity * p"
  let ?in = "exact_delta_b p n liquidity True" and ?out = "exact_delta_a p n liquidity False"
  have "?out * (p * n) \<le> liquidity * (n - p) * 2 ^ 64" using assms by (simp add: exact_delta_a_def gap_simps)
  also have "\<dots> = ?a * n - ?a * p" by (simp add: diff_mult_distrib2 algebra_simps)
  finally have le: "?out * p * n \<le> ?a * n - ?a * p" by (simp only: mult.assoc)
  also have "\<dots> \<le> ?a * n" by simp
  finally have out: "?out * p \<le> ?a" using assms by simp
  have "?a * p + ?out * p * n \<le> ?a * n" using le assms(2) by (simp add: le_diff_conv2)
  then have "?a * p \<le> (?a - ?out * p) * n" by (simp only: diff_mult_distrib)
  then have "liquidity * (?a * p) \<le> liquidity * ((?a - ?out * p) * n)" by (rule mult_le_mono2)
  also have "\<dots> = (?a - ?out * p) * (liquidity * n)" by (simp only: mult.commute mult.left_commute)
  also have "\<dots> \<le> (?a - ?out * p) * (?b + ?in * 2 ^ 64)"
  proof (rule mult_le_mono2)
    have "liquidity * (n - p) \<le> ?in * 2 ^ 64"
      using round_up_ge [of "2 ^ 64" "liquidity * (n - p)"] assms(2) by (simp add: exact_delta_b_def gap_simps)
    then show "liquidity * n \<le> ?b + ?in * 2 ^ 64" by (simp add: diff_mult_distrib2)
  qed
  finally show ?thesis using out by (simp add: product_kept_def mult.commute mult.left_commute)
qed

section \<open>One step\<close>

definition exact_in :: "bool \<Rightarrow> nat \<Rightarrow> nat \<Rightarrow> nat \<Rightarrow> nat" where
  "exact_in a_to_b p n liquidity = (if a_to_b then exact_delta_a p n liquidity True else exact_delta_b p n liquidity True)"

definition exact_out :: "bool \<Rightarrow> nat \<Rightarrow> nat \<Rightarrow> nat \<Rightarrow> nat" where
  "exact_out a_to_b p n liquidity = (if a_to_b then exact_delta_b p n liquidity False else exact_delta_a p n liquidity False)"

definition moves :: "bool \<Rightarrow> nat \<Rightarrow> nat \<Rightarrow> bool" where
  \<comment> \<open>the price falls when A is paid in, and rises when B is\<close>
  "moves a_to_b p n \<longleftrightarrow> (if a_to_b then n \<le> p else p \<le> n)"

lemma product_kept_exact:
  "0 < p \<Longrightarrow> 0 < n \<Longrightarrow> moves a_to_b p n \<Longrightarrow>
    product_kept a_to_b liquidity p (exact_in a_to_b p n liquidity) (exact_out a_to_b p n liquidity)"
  using product_kept_a product_kept_b by (cases a_to_b) (simp_all add: exact_in_def exact_out_def moves_def)

lemma no_move: "exact_in a_to_b p p liquidity = 0"
  by (simp add: exact_in_def exact_delta_a_def exact_delta_b_def gap_def round_div_def)

lemma next_price_within:
  assumes "p \<noteq> 0" "get_next_sqrt_price p liquidity amount True a_to_b = Done (Inr n)"
  shows "n \<noteq> 0" "moves a_to_b (unat p) (unat n)"
    and "exact_in a_to_b (unat p) (unat n) (unat liquidity) \<le> unat amount"
    and "t \<noteq> 0 \<Longrightarrow> moves a_to_b (unat p) (unat t) \<Longrightarrow> unat amount < exact_in a_to_b (unat p) (unat t) (unat liquidity) \<Longrightarrow>
      moves a_to_b (unat n) (unat t)"
proof -
  have pos: "0 < unat p" using assms(1) by (simp add: unat_gt_0)
  have "n \<noteq> 0 \<and> moves a_to_b (unat p) (unat n) \<and> exact_in a_to_b (unat p) (unat n) (unat liquidity) \<le> unat amount
    \<and> (t \<noteq> 0 \<longrightarrow> moves a_to_b (unat p) (unat t) \<longrightarrow> unat amount < exact_in a_to_b (unat p) (unat t) (unat liquidity) \<longrightarrow>
      moves a_to_b (unat n) (unat t))"
  proof (cases a_to_b)
    case True
    show ?thesis
    proof (cases "amount = 0")
      case zero: True
      then have "n = p" using assms(2) True by (simp add: get_next_sqrt_price_def get_next_sqrt_price_from_a_round_up_def)
      then show ?thesis using assms(1) no_move by (simp add: moves_def)
    next
      case False
      have next_a: "get_next_sqrt_price_from_a_round_up p liquidity amount True = Done (Inr n)"
        using assms(2) True by (simp add: get_next_sqrt_price_def)
      note n = next_price_a [OF assms(1) False next_a]
      have "0 < unat liquidity * 2 ^ 64 + unat p * unat amount" using pos False by (simp add: unat_gt_0)
      note facts = price_after_a_facts [OF pos this, unfolded price_after_a_def, folded n(1)]
      have "0 < unat n" using n(2) by (simp add: min_price)
      then show ?thesis using facts True by (auto simp: moves_def exact_in_def unat_gt_0)
    qed
  next
    case False
    have next_b: "get_next_sqrt_price_from_b_round_down p liquidity amount True = Inr n"
      using assms(2) False by (simp add: get_next_sqrt_price_def)
    note n = next_price_b [OF next_b]
    note facts = price_after_b_facts [OF n(1), where p = "unat p" and amount = "unat amount",
        unfolded price_after_b_def, folded n(2)]
    have "n \<noteq> 0" using facts(1) pos by auto
    then show ?thesis using facts False by (simp add: moves_def exact_in_def)
  qed
  then show "n \<noteq> 0" "moves a_to_b (unat p) (unat n)"
    "exact_in a_to_b (unat p) (unat n) (unat liquidity) \<le> unat amount"
    "t \<noteq> 0 \<Longrightarrow> moves a_to_b (unat p) (unat t) \<Longrightarrow> unat amount < exact_in a_to_b (unat p) (unat t) (unat liquidity) \<Longrightarrow>
      moves a_to_b (unat n) (unat t)"
    by blast+
qed

lemma fixed_exact:
  assumes "p \<noteq> 0" "n \<noteq> 0"
  shows "get_amount_fixed_delta p n liquidity True a_to_b = Done (Inr v) \<Longrightarrow> unat v = exact_in a_to_b (unat p) (unat n) (unat liquidity)"
    and "get_amount_unfixed_delta p n liquidity True a_to_b = Done (Inr v) \<Longrightarrow> unat v = exact_out a_to_b (unat p) (unat n) (unat liquidity)"
    and "try_get_amount_fixed_delta p n liquidity True a_to_b = Done (Inr d) \<Longrightarrow> represents d (exact_in a_to_b (unat p) (unat n) (unat liquidity))"
  using delta_a_exact [OF assms] delta_b_exact [of p n] try_delta_a_exact [OF assms, of liquidity True]
    try_delta_b_exact [of p n liquidity True]
  by (auto simp: get_amount_fixed_delta_def get_amount_unfixed_delta_def try_get_amount_fixed_delta_def exact_in_def exact_out_def
      split: if_splits)

lemma mul_div_exact:
  "as_amount (checked_mul_div_round_up_if a b d up) = Done (Inr v) \<Longrightarrow> unat v = round_div up (unat a * unat b) (unat d) \<and> d \<noteq> 0"
proof -
  assume v: "as_amount (checked_mul_div_round_up_if a b d up) = Done (Inr v)"
  then have d: "d \<noteq> 0" by (auto simp: as_amount_def checked_mul_div_round_up_if_def)
  with v obtain p where p: "u128_checked_mul a b = Some p"
    by (auto simp: as_amount_def checked_mul_div_round_up_if_def split: option.splits)
  then have pv: "unat p = unat a * unat b" using unat_checked_mul [of a b] by (auto simp: u128_checked_mul_def split: if_splits)
  let ?x = "if up \<and> p mod d > 0 then p div d + 1 else p div d"
  have "as_amount (Inr ?x) = Done (Inr v)" using v d by (simp add: checked_mul_div_round_up_if_def p)
  then have "unat v = unat ?x" by (auto simp: as_amount_def u64_try_from_u128_def unat_as_u64_small split: if_splits option.splits)
  moreover have "unat (p div d + 1) = unat p div unat d + 1" if "p mod d > 0"
  proof -
    have "unat d \<noteq> 1" using that by (auto simp: word_less_nat_alt unat_mod)
    then have "2 \<le> unat d" using d by (metis Suc_1 Suc_leI le_neq_implies_less less_one not_le unat_eq_0)
    then have "unat p div unat d \<le> unat p div 2" by (rule div_le_mono2 [rotated]) simp
    then have "unat (p div d) + unat (1 :: u128) < 2 ^ LENGTH(128)" using unat_lt_u128 [of p] by (simp add: unat_div)
    then show ?thesis by (subst unat_add_small) (simp_all add: unat_div)
  qed
  ultimately show ?thesis using d by (auto simp: round_div_def pv [symmetric] unat_div unat_mod word_less_nat_alt)
qed

definition step_ok :: "bool \<Rightarrow> u64 \<Rightarrow> u128 \<Rightarrow> u128 \<Rightarrow> u128 \<Rightarrow> swap_step \<Rightarrow> bool" where
  "step_ok a_to_b remaining liquidity p target c \<longleftrightarrow>
     (let n = ss_next_price c in
        n \<noteq> 0 \<and> moves a_to_b (unat p) (unat n) \<and> moves a_to_b (unat n) (unat target)
      \<and> unat (ss_amount_in c) = exact_in a_to_b (unat p) (unat n) (unat liquidity)
      \<and> unat (ss_amount_out c) = exact_out a_to_b (unat p) (unat n) (unat liquidity)
      \<and> unat (ss_amount_in c) + unat (ss_fee_amount c) \<le> unat remaining
      \<and> (n \<noteq> target \<longrightarrow> unat (ss_amount_in c) + unat (ss_fee_amount c) = unat remaining))"

lemma fee_fits:
  assumes "i \<le> r * (m - f) div m" "f < (m :: nat)"
  shows "i + round_div True (i * f) (m - f) \<le> r"
proof -
  have "i * m \<le> r * (m - f) div m * m" using assms(1) by (rule mult_le_mono1)
  also have "\<dots> \<le> r * (m - f)" by simp
  finally have cost: "i * m \<le> r * (m - f)" .
  also have "\<dots> \<le> r * m" by simp
  finally have "i \<le> r" using assms(2) by simp
  have "i * f = i * m - i * (m - f)" using assms(2) by (simp add: diff_mult_distrib2)
  also have "\<dots> \<le> r * (m - f) - i * (m - f)"
    using cost by (rule diff_le_mono)
  also have "\<dots> = (r - i) * (m - f)" by (simp only: diff_mult_distrib)
  finally have "round_div True (i * f) (m - f) \<le> r - i" using assms(2) by (subst round_up_le_iff) simp_all
  with \<open>i \<le> r\<close> show ?thesis by simp
qed

lemma compute_swap_ok:
  assumes step: "compute_swap remaining fee_rate liquidity p target True a_to_b = Done (Inr c)"
    and "p \<noteq> 0" "target \<noteq> 0" "moves a_to_b (unat p) (unat target)" "unat fee_rate < 1000000"
  shows "step_ok a_to_b remaining liquidity p target c"
proof -
  let ?f = "fee_rate_mul_value - ucast fee_rate"
  have f: "unat (ucast fee_rate :: u128) = unat fee_rate" using unsigned_less [of fee_rate, where ?'a = nat]
    by (simp add: unsigned_ucast_eq take_bit_eq_mod)
  have m: "unat fee_rate_mul_value = 1000000" by (simp add: fee_rate_mul_value_def)
  have mf: "unat ?f = 1000000 - unat fee_rate" 
  proof -
    have "unat (ucast fee_rate :: u128) \<le> unat fee_rate_mul_value" unfolding f m using assms(5) by simp
    then show ?thesis unfolding f [symmetric] m [symmetric] by (rule unat_sub_small)
  qed
  obtain initial where initial: "try_get_amount_fixed_delta p target liquidity True a_to_b = Done (Inr initial)"
    and rest: "and_then (as_amount (checked_mul_div (as_u128 remaining) ?f fee_rate_mul_value)) (\<lambda>amount_calc.
       and_then (if delta_lte initial amount_calc then Done (Inr target)
           else get_next_sqrt_price p liquidity amount_calc True a_to_b) (\<lambda>next_price.
       and_then (get_amount_unfixed_delta p next_price liquidity True a_to_b) (\<lambda>unfixed.
       and_then (if next_price \<noteq> target \<or> delta_exceeds_max initial
           then get_amount_fixed_delta p next_price liquidity True a_to_b
           else bind_outcome (delta_value initial) (\<lambda>v. Done (Inr v))) (\<lambda>fixed.
       and_then (if next_price \<noteq> target then Done (Inr (remaining - fixed))
            else as_amount (checked_mul_div_round_up (as_u128 fixed) (ucast fee_rate) ?f))
            (\<lambda>fee. Done (Inr \<lparr>ss_amount_in = fixed, ss_amount_out = unfixed, ss_next_price = next_price, ss_fee_amount = fee\<rparr>)))))) = Done (Inr c)"
    using step unfolding compute_swap_def by (subst (asm) and_then_Inr) (auto simp: Let_def cong: if_cong)
  obtain calc where calc: "as_amount (checked_mul_div (as_u128 remaining) ?f fee_rate_mul_value) = Done (Inr calc)"
    using rest by (auto simp: and_then_Inr)
  note rest = rest [unfolded calc and_then.simps]
  obtain n where n: "(if delta_lte initial calc then Done (Inr target) else get_next_sqrt_price p liquidity calc True a_to_b) = Done (Inr n)"
    using rest by (auto simp only: and_then_Inr)
  note rest = rest [unfolded n and_then.simps]
  obtain unfixed where unfixed: "get_amount_unfixed_delta p n liquidity True a_to_b = Done (Inr unfixed)"
    using rest by (auto simp only: and_then_Inr)
  note rest = rest [unfolded unfixed and_then.simps]
  obtain fixed where fixed: "(if n \<noteq> target \<or> delta_exceeds_max initial then get_amount_fixed_delta p n liquidity True a_to_b
       else bind_outcome (delta_value initial) (\<lambda>v. Done (Inr v))) = Done (Inr fixed)"
    using rest by (auto simp only: and_then_Inr)
  note rest = rest [unfolded fixed and_then.simps]
  obtain fee where fee: "(if n \<noteq> target then Done (Inr (remaining - fixed))
       else as_amount (checked_mul_div_round_up (as_u128 fixed) (ucast fee_rate) ?f)) = Done (Inr fee)"
    and c: "c = \<lparr>ss_amount_in = fixed, ss_amount_out = unfixed, ss_next_price = n, ss_fee_amount = fee\<rparr>"
    using rest by (auto simp only: and_then_Inr sum.inject outcome.inject)
  have calc_eq: "unat calc = unat remaining * (1000000 - unat fee_rate) div 1000000"
    using mul_div_exact [OF calc [unfolded checked_mul_div_def]] by (simp add: mf m)
  note target_cost = fixed_exact(3) [OF assms(2,3) initial]
  have dear: "unat calc < exact_in a_to_b (unat p) (unat target) (unat liquidity)" if "\<not> delta_lte initial calc"
    using target_cost that unat_lt_u64 [of calc] by (cases initial) (auto simp: represents_def word_le_nat_alt)
  have np: "n \<noteq> 0 \<and> moves a_to_b (unat p) (unat n) \<and> moves a_to_b (unat n) (unat target)
      \<and> exact_in a_to_b (unat p) (unat n) (unat liquidity) \<le> unat calc"
  proof (cases "delta_lte initial calc")
    case True
    then have "n = target" using n by simp
    moreover have "exact_in a_to_b (unat p) (unat target) (unat liquidity) \<le> unat calc"
      using True target_cost by (cases initial) (simp_all add: represents_def word_le_nat_alt)
    ultimately show ?thesis using assms(3,4) by (simp add: moves_def)
  next
    case False
    then have "get_next_sqrt_price p liquidity calc True a_to_b = Done (Inr n)" using n by simp
    note next_price_within [OF assms(2) this]
    then show ?thesis using dear [OF False] assms(3,4) by blast
  qed
  have amount_in: "unat fixed = exact_in a_to_b (unat p) (unat n) (unat liquidity)"
  proof (cases "n \<noteq> target \<or> delta_exceeds_max initial")
    case True
    then show ?thesis using fixed fixed_exact(1) [OF assms(2)] np by simp
  next
    case False
    then have "initial = Valid fixed" using fixed by (cases initial) simp_all
    with target_cost False show ?thesis by (simp add: represents_def)
  qed
  have le: "unat fixed \<le> unat calc" using np by (simp add: amount_in)
  have "unat calc \<le> unat remaining"
  proof -
    have "unat remaining * (1000000 - unat fee_rate) div 1000000 \<le> unat remaining * 1000000 div 1000000"
      by (intro div_le_mono mult_le_mono2) simp
    then show ?thesis by (simp add: calc_eq)
  qed
  have fee_ok: "unat fixed + unat fee \<le> unat remaining \<and> (n \<noteq> target \<longrightarrow> unat fixed + unat fee = unat remaining)"
  proof (cases "n = target")
    case False
    then have "fee = remaining - fixed" using fee by simp
    then have "unat fee = unat remaining - unat fixed"
      using le \<open>unat calc \<le> unat remaining\<close> by (simp add: unat_sub_small)
    then show ?thesis using le \<open>unat calc \<le> unat remaining\<close> by simp
  next
    case True
    then have "unat fee = round_div True (unat fixed * unat fee_rate) (1000000 - unat fee_rate)"
      using fee mul_div_exact [of "as_u128 fixed" "ucast fee_rate" ?f True fee]
      by (simp add: checked_mul_div_round_up_def mf f)
    then show ?thesis using True fee_fits [of "unat fixed" "unat remaining" 1000000 "unat fee_rate"] le assms(5)
      by (simp add: calc_eq)
  qed
  show ?thesis
    using np amount_in fixed_exact(2) [OF assms(2) _ unfixed] fee_ok by (simp add: step_ok_def c)
qed

end
