(* ===== verification/Orca_Walker_Properties.thy ===== *)
theory Orca_Walker_Properties
  imports Orca_Walker Orca_Math_Properties Account_Properties
begin

text \<open>
  Lemmas on the Whirlpool walk: the body of the loop always ends in its \<open>break\<close>, so the walk returns after one step;
  the start index is the largest multiple of an array's width below the tick; the search in one array finds the nearest
  initialised tick of the direction; and a tick between two slots is in no slot.
\<close>

section \<open>The walk is one step\<close>

lemma compute_swap_fee:
  "compute_swap remaining fee_rate liquidity p target True a_to_b = Done (Inr c) \<Longrightarrow> ss_next_price c \<noteq> target \<Longrightarrow>
    ss_fee_amount c = remaining - ss_amount_in c"
  by (auto simp: compute_swap_def and_then_Inr Let_def split: if_splits)

definition walk_target :: "parsed_tick_array list \<Rightarrow> bool \<Rightarrow> i32 \<Rightarrow> u16 \<Rightarrow> nat \<Rightarrow> u128 \<Rightarrow> bool" where
  \<comment> \<open>the price at which the step that starts at a tick ends at the latest\<close>
  "walk_target arrays a_to_b tick_index tick_spacing array_index target \<longleftrightarrow>
     (\<exists>i next_tick price. get_next_initialized_tick_index arrays tick_index tick_spacing a_to_b array_index = Done (Inr (i, next_tick))
        \<and> get_next_sqrt_prices next_tick (sqrt_price_limit a_to_b) a_to_b = Done (price, target))"

lemma walk_step_Inr:
  assumes "walk_step pool arrays a_to_b s = Done (Inr (t, stop))"
  shows "\<exists>target c. walk_target arrays a_to_b (wk_tick_index s) (oq_tick_spacing pool) (wk_array_index s) target
    \<and> compute_swap (wk_amount_remaining s) (ucast (oq_fee_rate pool)) (wk_liquidity s) (wk_sqrt_price s) target True a_to_b = Done (Inr c)
    \<and> ss_amount_in c \<le> wk_amount_remaining s \<and> ss_fee_amount c \<le> wk_amount_remaining s - ss_amount_in c
    \<and> wk_amount_remaining t = wk_amount_remaining s - ss_amount_in c - ss_fee_amount c
    \<and> unat (wk_amount_calculated t) = unat (wk_amount_calculated s) + unat (ss_amount_out c)
    \<and> stop = (wk_amount_remaining t = 0 \<or> ss_next_price c = target)"
proof -
  obtain i next_tick where search:
    "get_next_initialized_tick_index arrays (wk_tick_index s) (oq_tick_spacing pool) a_to_b (wk_array_index s) = Done (Inr (i, next_tick))"
    using assms by (auto simp: walk_step_def Let_def split: outcome.splits sum.splits)
  obtain price target where prices: "get_next_sqrt_prices next_tick (sqrt_price_limit a_to_b) a_to_b = Done (price, target)"
    using assms by (auto simp: walk_step_def Let_def search bind_outcome_Done)
  have "walk_target arrays a_to_b (wk_tick_index s) (oq_tick_spacing pool) (wk_array_index s) target"
    using search prices by (auto simp: walk_target_def)
  moreover obtain c where "compute_swap (wk_amount_remaining s) (ucast (oq_fee_rate pool)) (wk_liquidity s) (wk_sqrt_price s) target True a_to_b = Done (Inr c)"
    "ss_amount_in c \<le> wk_amount_remaining s \<and> ss_fee_amount c \<le> wk_amount_remaining s - ss_amount_in c
    \<and> wk_amount_remaining t = wk_amount_remaining s - ss_amount_in c - ss_fee_amount c
    \<and> unat (wk_amount_calculated t) = unat (wk_amount_calculated s) + unat (ss_amount_out c)
    \<and> stop = (wk_amount_remaining t = 0 \<or> ss_next_price c = target)"
    using assms by (auto simp: walk_step_def Let_def search prices and_then_Inr checked_u64_def unat_add_small split: if_splits prod.splits)
  ultimately show ?thesis by blast
qed

lemma walk_step_stops: "walk_step pool arrays a_to_b s = Done (Inr (t, stop)) \<Longrightarrow> stop"
  using walk_step_Inr [of pool arrays a_to_b s t stop] compute_swap_fee by fastforce

lemma walk_loop_once:
  "walk_loop pool arrays a_to_b s = Some
     (if wk_amount_remaining s > 0 \<and> sqrt_price_limit a_to_b \<noteq> wk_sqrt_price s
      then bind_outcome (walk_step pool arrays a_to_b s) (\<lambda>r. Done (map_sum id fst r))
      else Done (Inr s))"
proof (cases "walk_step pool arrays a_to_b s")
  case (Done r)
  then show ?thesis
    by (subst walk_loop.simps, cases r) (auto dest: walk_step_stops)
qed (subst walk_loop.simps, simp)

lemma try_quote_walk_returns: "\<exists>r. try_quote_walk pool arrays a_to_b amount_in = Some r"
  by (simp add: try_quote_walk_def walk_loop_once)

lemma try_quote_walk_Inr:
  assumes "try_quote_walk pool arrays a_to_b amount_in = Some (Done (Inr out))" "amount_in \<noteq> 0"
  shows "\<exists>target c. walk_target arrays a_to_b (oq_tick_current_index pool) (oq_tick_spacing pool) 0 target
    \<and> compute_swap amount_in (ucast (oq_fee_rate pool)) (oq_liquidity pool) (oq_sqrt_price pool) target True a_to_b = Done (Inr c)
    \<and> unat (ss_amount_in c) + unat (ss_fee_amount c) = unat amount_in \<and> ss_amount_out c = out"
proof -
  let ?s = "walk_start pool amount_in"
  have zero: "wk_amount_remaining ?s = amount_in" by (simp add: walk_start_def)
  obtain t where loop: "walk_loop pool arrays a_to_b ?s = Some (Done (Inr t))"
    and t: "wk_amount_remaining t = 0" "wk_amount_calculated t = out"
    using assms(1) by (auto simp: try_quote_walk_def and_then_Inr word_gt_0 split: if_splits)
  have "t \<noteq> ?s" using t(1) zero assms(2) by auto
  then obtain stop where step: "walk_step pool arrays a_to_b ?s = Done (Inr (t, stop))"
    using loop unfolding walk_loop_once
    by (auto simp: bind_outcome_Done split: if_splits sum.splits prod.splits) (metis map_sum.simps(1) obj_sumE Inl_Inr_False map_sum.simps(2) prod.collapse sum.inject(2))
  obtain target c where c: "walk_target arrays a_to_b (oq_tick_current_index pool) (oq_tick_spacing pool) 0 target"
    "compute_swap amount_in (ucast (oq_fee_rate pool)) (oq_liquidity pool) (oq_sqrt_price pool) target True a_to_b = Done (Inr c)"
    "ss_amount_in c \<le> amount_in" "ss_fee_amount c \<le> amount_in - ss_amount_in c"
    "wk_amount_remaining t = amount_in - ss_amount_in c - ss_fee_amount c"
    "unat (wk_amount_calculated t) = unat (ss_amount_out c)"
    using walk_step_Inr [OF step] by (auto simp: walk_start_def)
  have "ss_fee_amount c = amount_in - ss_amount_in c" using c(5) t(1) by simp
  then have "unat (ss_amount_in c) + unat (ss_fee_amount c) = unat amount_in"
    using c(3) by (simp add: unat_sub_small word_le_nat_alt)
  moreover have "ss_amount_out c = out" using c(6) t(2) by (simp add: word_unat_eq_iff)
  ultimately show ?thesis using c(1,2) by blast
qed

section \<open>Indices\<close>

lemma sint_i32: "- 2147483648 \<le> k \<Longrightarrow> k < 2147483648 \<Longrightarrow> sint (word_of_int k :: i32) = k"
  by (simp add: signed_of_int signed_take_bit_int_eq_self)

lemma word_sint: "word_of_int (sint x) = (x :: i32)"
  by simp

lemma spacing_int: "(ucast tick_spacing :: i32) = word_of_int (uint (tick_spacing :: u16))"
  by (rule ucast_eq)

lemma spacing_small: "uint (tick_spacing :: u16) < 65536" "0 \<le> uint tick_spacing"
  using unsigned_less [of tick_spacing, where ?'a = int] by simp_all

lemma spacing_sint: "sint (ucast (tick_spacing :: u16) :: i32) = uint tick_spacing"
  using spacing_small [of tick_spacing] unfolding spacing_int by (intro sint_i32) linarith+

lemma spacing_pos: "tick_spacing \<noteq> 0 \<Longrightarrow> 0 < uint (tick_spacing :: u16)"
  using spacing_small(2) [of tick_spacing] by (metis le_less uint_0_iff)

lemma size_int: "tick_array_size = word_of_int 88"
  by (simp add: tick_array_size_def)

text \<open>The start of the array that holds a tick is the largest multiple of the width at or below it.\<close>

lemma start_index:
  assumes tick: "\<bar>sint tick\<bar> \<le> 443636" and ts: "tick_spacing \<noteq> 0"
  defines "w \<equiv> uint (tick_spacing :: u16) * 88"
  shows "get_tick_array_start_index tick (ucast tick_spacing) = Done (word_of_int (sint tick div w * w))"
    and "sint tick div w * w \<le> sint tick" "sint tick < sint tick div w * w + w" "0 < w" "w \<le> 5767080"
proof -
  let ?T = "uint tick_spacing"
  have T: "0 < ?T" "?T < 65536" using spacing_pos [OF ts] spacing_small [of tick_spacing] by simp_all
  then show w: "0 < w" "w \<le> 5767080" by (simp_all add: w_def)
  show "sint tick div w * w \<le> sint tick" using w by (metis div_mult_mod_eq le_add_same_cancel1 pos_mod_sign)
  show "sint tick < sint tick div w * w + w" using w by (metis add_less_cancel_left div_mult_mod_eq pos_mod_bound)
  have small: "\<bar>sint tick div ?T\<bar> \<le> 443636"
  proof -
    have "sint tick \<le> 443636 * 1" using tick by simp
    also have "\<dots> \<le> 443636 * ?T" using T(1) by (intro mult_left_mono) simp_all
    finally have "sint tick div ?T \<le> 443636 * ?T div ?T" using T(1) by (rule zdiv_mono1)
    then have "sint tick div ?T \<le> 443636" using T(1) by simp
    moreover have "- 443636 \<le> sint tick div ?T"
    proof -
      have "- 443636 * ?T \<le> - 443636 * 1" using T(1) by (intro mult_left_mono_neg) simp_all
      also have "\<dots> \<le> sint tick" using tick by simp
      finally have "- 443636 * ?T div ?T \<le> sint tick div ?T" using T(1) by (rule zdiv_mono1)
      moreover have "- 443636 * ?T div ?T = - 443636" by (rule nonzero_mult_div_cancel_right) (use T(1) in simp)
      ultimately show ?thesis by (simp only:)
    qed
    ultimately show ?thesis by simp
  qed
  have first: "i32_div_euclid tick (ucast tick_spacing) = Done (word_of_int (sint tick div ?T))"
    using T(1) spacing_sint [of tick_spacing] by (auto simp: i32_div_euclid_def)
  have second: "i32_div_euclid (word_of_int (sint tick div ?T)) tick_array_size = Done (word_of_int (sint tick div ?T div 88))"
    using small by (simp add: i32_div_euclid_def tick_array_size_def sint_i32)
  have "word_of_int (sint tick div ?T div 88) * ucast tick_spacing * tick_array_size
      = (word_of_int (sint tick div w * w) :: i32)"
    unfolding spacing_int size_int w_def by (simp add: zdiv_zmult2_eq mult.assoc)
  then show "get_tick_array_start_index tick (ucast tick_spacing) = Done (word_of_int (sint tick div w * w))"
    by (simp add: get_tick_array_start_index_def first second)
qed

lemma swap_starts:
  assumes tick: "\<bar>sint tick\<bar> \<le> 443636" and ts: "tick_spacing \<noteq> 0"
  defines "w \<equiv> uint (tick_spacing :: u16) * 88" and "s \<equiv> sint tick div (uint (tick_spacing :: u16) * 88) * (uint tick_spacing * 88)"
  shows "swap_direction_tick_array_starts tick (ucast tick_spacing) a_to_b =
    Done (word_of_int s, word_of_int (if a_to_b then s - w else s + w), word_of_int (if a_to_b then s - 2 * w else s + 2 * w))"
proof -
  have width: "(ucast tick_spacing * tick_array_size :: i32) = word_of_int w" unfolding spacing_int size_int w_def by simp
  have start: "get_tick_array_start_index tick (ucast tick_spacing) = Done (word_of_int s)"
    unfolding s_def by (rule start_index(1) [OF tick ts])
  have "(word_of_int s - word_of_int w :: i32) = word_of_int (s - w)" "(word_of_int (s - w) - word_of_int w :: i32) = word_of_int (s - 2 * w)"
    "(word_of_int s + word_of_int w :: i32) = word_of_int (s + w)" "(word_of_int (s + w) + word_of_int w :: i32) = word_of_int (s + 2 * w)"
    by simp_all
  then show ?thesis
    unfolding swap_direction_tick_array_starts_def Let_def start width bind_outcome.simps by (cases a_to_b) (simp_all only: if_True if_False prod.case)
qed

section \<open>The search in one array\<close>

text \<open>Far from the ends of \<open>i32\<close> the offsets of the code are the ones of the integers.\<close>

definition in_bounds :: "i32 \<Rightarrow> bool" where
  "in_bounds i \<longleftrightarrow> \<bar>sint i\<bar> \<le> 500000000"

lemma tick_offset_int:
  assumes "in_bounds tick" "in_bounds (pta_start_tick_index array)" "tick_spacing \<noteq> 0"
  defines "d \<equiv> sint tick - sint (pta_start_tick_index array)" and "T \<equiv> uint tick_spacing"
  shows "tick_offset array tick tick_spacing =
    Done (if d < 0 \<or> d mod T \<noteq> 0 \<or> 88 \<le> d div T then None else Some (d div T))"
proof -
  have T: "0 < T" unfolding T_def by (rule spacing_pos [OF assms(3)])
  have "tick - pta_start_tick_index array = word_of_int d" by (simp add: d_def)
  then have delta: "sint (tick - pta_start_tick_index array) = d"
    using assms(1,2) by (simp only: in_bounds_def d_def) (subst sint_i32; linarith)
  show ?thesis
  proof (cases "d < 0")
    case True
    then show ?thesis by (simp add: tick_offset_def d_def)
  next
    case False
    then have "d smod T = d mod T" "d sdiv T = d div T" "0 \<le> d div T"
      using T by (cases "d = 0"; simp add: signed_modulo_int_def signed_divide_int_def pos_imp_zdiv_nonneg_iff minus_div_mult_eq_mod)+
    moreover have "\<not> sint tick < sint (pta_start_tick_index array)" using False by (simp add: d_def)
    ultimately show ?thesis
      using False T by (auto simp: tick_offset_def delta spacing_sint T_def [symmetric] tick_array_size_def Let_def)
  qed
qed

lemma in_search_range_int:
  fixes tick_spacing :: u16
  assumes "in_bounds (pta_start_tick_index array)"
  defines "a \<equiv> sint (pta_start_tick_index array)" and "T \<equiv> uint (tick_spacing :: u16)"
  shows "in_search_range array tick tick_spacing shifted \<longleftrightarrow>
    (if shifted then a - T else a) \<le> sint tick \<and> sint tick < (if shifted then a + 88 * T - T else a + 88 * T)"
proof -
  have T: "0 \<le> T" "T < 65536" using spacing_small [of tick_spacing] by (simp_all only: T_def)
  have a: "\<bar>a\<bar> \<le> 500000000" using assms(1) by (simp add: in_bounds_def a_def)
  let ?s = "pta_start_tick_index array" and ?ts = "ucast tick_spacing :: i32"
  have s: "?s = word_of_int a" by (simp add: a_def)
  have "?s + tick_array_size * ?ts = word_of_int (a + 88 * T)" "?s - ?ts = word_of_int (a - T)"
    "?s + tick_array_size * ?ts - ?ts = word_of_int (a + 88 * T - T)"
    unfolding s spacing_int size_int T_def by simp_all
  then have "sint (?s + tick_array_size * ?ts) = a + 88 * T" "sint (?s - ?ts) = a - T"
    "sint (?s + tick_array_size * ?ts - ?ts) = a + 88 * T - T"
    using T a by (simp_all only:) (subst sint_i32; linarith)+
  then show ?thesis by (simp add: in_search_range_def Let_def a_def)
qed

definition in_direction :: "bool \<Rightarrow> int \<Rightarrow> int \<Rightarrow> bool" where
  \<comment> \<open>the slot is not behind the one the search starts at\<close>
  "in_direction a_to_b i j \<longleftrightarrow> (if a_to_b then j \<le> i else i \<le> j)"

definition nearest_slot :: "parsed_tick list \<Rightarrow> bool \<Rightarrow> int \<Rightarrow> int option \<Rightarrow> bool" where
  "nearest_slot ticks a_to_b i found \<longleftrightarrow> (case found of
     None \<Rightarrow> \<forall>j. 0 \<le> j \<and> j < 88 \<and> in_direction a_to_b i j \<longrightarrow> \<not> pt_initialized (ticks ! nat j)
   | Some k \<Rightarrow> 0 \<le> k \<and> k < 88 \<and> in_direction a_to_b i k \<and> pt_initialized (ticks ! nat k)
       \<and> (\<forall>j. in_direction a_to_b i j \<and> in_direction a_to_b j k \<and> j \<noteq> k \<longrightarrow> \<not> pt_initialized (ticks ! nat j)))"

lemma scan_ticks_nearest:
  "length ticks = 88 \<Longrightarrow> (if a_to_b then i < 88 else 0 \<le> i) \<Longrightarrow>
    \<exists>found. scan_ticks ticks a_to_b i = Done found \<and> nearest_slot ticks a_to_b i found"
proof (induction ticks a_to_b i rule: scan_ticks.induct)
  case (1 ticks a_to_b i)
  show ?case
  proof (cases "0 \<le> i \<and> i < 88")
    case False
    then have "scan_ticks ticks a_to_b i = Done None" by (subst scan_ticks.simps) (simp only: False if_False)
    then show ?thesis using False "1.prems"(2) by (auto simp: nearest_slot_def in_direction_def split: if_splits)
  next
    case True
    then have len: "nat i < length ticks" using "1.prems"(1) by (simp add: nat_less_iff)
    show ?thesis
    proof (cases "pt_initialized (ticks ! nat i)")
      case init: True
      then have "scan_ticks ticks a_to_b i = Done (Some i)" using True len by (subst scan_ticks.simps) simp
      then show ?thesis using init True by (auto simp: nearest_slot_def in_direction_def)
    next
      case False
      let ?i = "if a_to_b then i - 1 else i + 1"
      have "scan_ticks ticks a_to_b i = scan_ticks ticks a_to_b ?i" using True len False by (subst scan_ticks.simps) simp
      moreover have "if a_to_b then ?i < 88 else 0 \<le> ?i" using True by auto
      from "1.IH" [OF True len False "1.prems"(1) this] obtain found
        where found: "scan_ticks ticks a_to_b ?i = Done found" "nearest_slot ticks a_to_b ?i found" by blast
      have tick_ahead: "in_direction a_to_b i j \<longleftrightarrow> j = i \<or> in_direction a_to_b ?i j" for j
        by (auto simp: in_direction_def)
      have "nearest_slot ticks a_to_b i found"
        using found(2) False tick_ahead by (auto simp: nearest_slot_def split: option.splits)
      ultimately show ?thesis using found(1) by simp
    qed
  qed
qed

lemma get_next_init_int:
  assumes "in_bounds (pta_start_tick_index array)" "in_bounds tick" "tick_spacing \<noteq> 0" "length (pta_ticks array) = 88"
    and slot: "sint tick = sint (pta_start_tick_index array) + i * uint tick_spacing" "0 \<le> i" "if a_to_b then i < 88 else i < 87"
  shows "\<exists>found. nearest_slot (pta_ticks array) a_to_b (if a_to_b then i else i + 1) found
    \<and> get_next_init_tick_index array tick tick_spacing a_to_b
      = Done (Inr (map_option (\<lambda>k. word_of_int (sint (pta_start_tick_index array) + k * uint tick_spacing)) found))"
proof -
  let ?T = "uint tick_spacing"
  have T: "0 < ?T" by (rule spacing_pos [OF assms(3)])
  have "i * ?T < 88 * ?T" using slot(3) T by (intro mult_strict_right_mono) (simp_all split: if_splits)
  moreover have "i * ?T < 87 * ?T" if "\<not> a_to_b" using slot(3) T that by (intro mult_strict_right_mono) simp_all
  moreover have "0 \<le> i * ?T" using slot(2) T by simp
  ultimately have "in_search_range array tick tick_spacing (\<not> a_to_b)"
    unfolding in_search_range_int [OF assms(1)] using T by (cases a_to_b) (simp_all add: slot(1))
  moreover have "tick_offset array tick tick_spacing = Done (Some i)"
    unfolding tick_offset_int [OF assms(2,1,3)] using slot T by (auto simp: mult_less_0_iff split: if_splits)
  moreover obtain found where "scan_ticks (pta_ticks array) a_to_b (if a_to_b then i else i + 1) = Done found"
    "nearest_slot (pta_ticks array) a_to_b (if a_to_b then i else i + 1) found"
    using scan_ticks_nearest [OF assms(4), of a_to_b "if a_to_b then i else i + 1"] slot by (auto split: if_splits)
  moreover have "(\<lambda>k. word_of_int k * ucast tick_spacing + pta_start_tick_index array :: i32)
      = (\<lambda>k. word_of_int (sint (pta_start_tick_index array) + k * ?T))"
    unfolding spacing_int by (rule ext) (simp add: add.commute)
  ultimately show ?thesis
    by (intro exI [of _ found]) (simp only: get_next_init_tick_index_def if_False simp_thms bind_outcome.simps option.case)
qed

text \<open>The search answers only from the tick of a slot, and going up not from the last one.\<close>

definition searchable_slot :: "parsed_tick_array \<Rightarrow> i32 \<Rightarrow> u16 \<Rightarrow> bool \<Rightarrow> int \<Rightarrow> bool" where
  "searchable_slot array tick tick_spacing a_to_b i \<longleftrightarrow>
     sint tick = sint (pta_start_tick_index array) + i * uint tick_spacing \<and> 0 \<le> i \<and> (if a_to_b then i < 88 else i < 87)"

lemma get_next_init_refuses:
  assumes "in_bounds (pta_start_tick_index array)" "in_bounds tick" "tick_spacing \<noteq> 0"
    and none: "\<nexists>i. searchable_slot array tick tick_spacing a_to_b i"
  shows "get_next_init_tick_index array tick tick_spacing a_to_b = Done (Inl ())"
proof (rule ccontr)
  let ?d = "sint tick - sint (pta_start_tick_index array)" and ?T = "uint tick_spacing"
  assume "\<not> ?thesis"
  then have range: "in_search_range array tick tick_spacing (\<not> a_to_b)"
    and "tick_offset array tick tick_spacing \<noteq> Done None"
    by (auto simp: get_next_init_tick_index_def split: if_splits)
  then have d: "0 \<le> ?d" "?d mod ?T = 0" "?d div ?T < 88"
    unfolding tick_offset_int [OF assms(2,1,3)] by (auto split: if_splits)
  have T: "0 < ?T" by (rule spacing_pos [OF assms(3)])
  have slot: "?d = ?d div ?T * ?T" using d(2) by (metis add.right_neutral div_mult_mod_eq)
  have "?d div ?T < 87" if "\<not> a_to_b"
  proof -
    have "?d div ?T * ?T < 87 * ?T" using range that slot unfolding in_search_range_int [OF assms(1)] by simp
    then show ?thesis using T by simp
  qed
  moreover have "0 \<le> ?d div ?T" using d(1) T by (simp add: pos_imp_zdiv_nonneg_iff)
  ultimately have "searchable_slot array tick tick_spacing a_to_b (?d div ?T)"
    using slot d(3) unfolding searchable_slot_def by (cases a_to_b) (simp_all add: algebra_simps)
  with none show False by blast
qed

lemma get_next_init_slot:
  assumes "in_bounds (pta_start_tick_index array)" "in_bounds tick" "tick_spacing \<noteq> 0" "length (pta_ticks array) = 88"
    and "get_next_init_tick_index array tick tick_spacing a_to_b = Done (Inr found)"
  obtains i slot where "searchable_slot array tick tick_spacing a_to_b i"
    "nearest_slot (pta_ticks array) a_to_b (if a_to_b then i else i + 1) slot"
    "found = map_option (\<lambda>k. word_of_int (sint (pta_start_tick_index array) + k * uint tick_spacing)) slot"
proof -
  obtain i where i: "searchable_slot array tick tick_spacing a_to_b i"
    using get_next_init_refuses [OF assms(1-3), of a_to_b] assms(5) by fastforce
  then show thesis
    using get_next_init_int [OF assms(1-4), of i a_to_b] assms(5) that [OF i] unfolding searchable_slot_def by auto
qed

section \<open>The search over the arrays\<close>

text \<open>Arrays as the parsers build them, at indices far from the ends of \<open>i32\<close>.\<close>

definition tick_arrays_ok :: "parsed_tick_array list \<Rightarrow> bool" where
  "tick_arrays_ok arrays \<longleftrightarrow> list_all (\<lambda>a. in_bounds (pta_start_tick_index a) \<and> length (pta_ticks a) = 88) arrays"

lemma slot_word:
  assumes "in_bounds a" "0 \<le> k" "k < 88"
  shows "sint (word_of_int (sint a + k * uint (tick_spacing :: u16)) :: i32) = sint a + k * uint tick_spacing"
proof -
  have "k * uint tick_spacing \<le> 87 * 65536"
    using assms(3) spacing_small [of tick_spacing] by (intro mult_mono) (linarith | simp)+
  moreover have "0 \<le> k * uint tick_spacing" using assms(2) spacing_small(2) [of tick_spacing] by (rule mult_nonneg_nonneg)
  ultimately show ?thesis using assms(1) unfolding in_bounds_def by (intro sint_i32) linarith+
qed

lemma search_Inr_cases [consumes 1, case_names found last further]:
  assumes "get_next_initialized_tick_index arrays search_index tick_spacing a_to_b j = Done (Inr (m, i))"
  obtains "j < length arrays" "get_next_init_tick_index (arrays ! j) search_index tick_spacing a_to_b = Done (Inr (Some i))" "m = j"
  | "j < length arrays" "get_next_init_tick_index (arrays ! j) search_index tick_spacing a_to_b = Done (Inr None)"
      "j + 1 = length arrays" "m = j"
      "i = (if a_to_b then pta_start_tick_index (arrays ! j)
            else pta_start_tick_index (arrays ! j) + tick_array_size * ucast tick_spacing - ucast tick_spacing)"
  | "j + 1 < length arrays" "get_next_init_tick_index (arrays ! j) search_index tick_spacing a_to_b = Done (Inr None)"
      "get_next_initialized_tick_index arrays
        (if a_to_b then pta_start_tick_index (arrays ! (j + 1)) + tick_array_size * ucast tick_spacing - ucast tick_spacing
         else pta_start_tick_index (arrays ! (j + 1))) tick_spacing a_to_b (j + 1) = Done (Inr (m, i))"
proof -
  let ?next = "if a_to_b then pta_start_tick_index (arrays ! (j + 1)) + tick_array_size * ucast tick_spacing - ucast tick_spacing
         else pta_start_tick_index (arrays ! (j + 1))"
  let ?last = "if a_to_b then pta_start_tick_index (arrays ! j)
            else pta_start_tick_index (arrays ! j) + tick_array_size * ucast tick_spacing - ucast tick_spacing"
  have j: "j < length arrays" using assms by (subst (asm) get_next_initialized_tick_index.simps) (simp split: if_splits)
  have eq: "get_next_initialized_tick_index arrays search_index tick_spacing a_to_b j =
     (case get_next_init_tick_index (arrays ! j) search_index tick_spacing a_to_b of
        Panic \<Rightarrow> Panic
      | Done (Inl e) \<Rightarrow> Done (Inl ())
      | Done (Inr (Some k)) \<Rightarrow> Done (Inr (j, k))
      | Done (Inr None) \<Rightarrow>
          if j + 1 = length arrays then Done (Inr (j, ?last))
          else get_next_initialized_tick_index arrays ?next tick_spacing a_to_b (j + 1))"
    using j by (subst get_next_initialized_tick_index.simps) (simp only: Let_def if_True if_False simp_thms cong: outcome.case_cong)
  show thesis
  proof (cases "get_next_init_tick_index (arrays ! j) search_index tick_spacing a_to_b")
    case Panic
    with eq assms show ?thesis by simp
  next
    case (Done r)
    show ?thesis
    proof (cases r)
      case (Inl e)
      with Done eq assms show ?thesis by simp
    next
      case (Inr found)
      show ?thesis
      proof (cases found)
        case None
        with Done Inr eq assms have rest: "(if j + 1 = length arrays then Done (Inr (j, ?last))
          else get_next_initialized_tick_index arrays ?next tick_spacing a_to_b (j + 1)) = Done (Inr (m, i))"
          by (simp only: outcome.case sum.case option.case)
        show ?thesis
        proof (cases "j + 1 = length arrays")
          case True
          have "Done (Inr (j, ?last)) = (Done (Inr (m, i)) :: (unit + nat \<times> i32) outcome)"
            using rest unfolding if_P [OF True] .
          note same = this [THEN outcome.inject [THEN iffD1], THEN sum.inject(2) [THEN iffD1], THEN prod.inject [THEN iffD1]]
          have "m = j" "i = ?last" by (rule same [THEN conjunct1, symmetric], rule same [THEN conjunct2, symmetric])
          then show ?thesis using that(2) j Done Inr None True by blast
        next
          case False
          with j have "j + 1 < length arrays" by simp
          then show ?thesis using that(3) Done Inr None rest unfolding if_not_P [OF False] by blast
        qed
      next
        case (Some k)
        with Done Inr eq assms have "j = m" "k = i" by simp_all
        then show ?thesis using that(1) j Done Inr Some by blast
      qed
    qed
  qed
qed

text \<open>
  Going up, the search of a later array starts above its first slot: the first tick of a later array is never returned.
\<close>

lemma upward_search_misses_first:
  "get_next_initialized_tick_index arrays search_index tick_spacing False j = Done (Inr (m, i)) \<Longrightarrow>
    tick_arrays_ok arrays \<Longrightarrow> tick_spacing \<noteq> 0 \<Longrightarrow>
    0 < j \<longrightarrow> search_index = pta_start_tick_index (arrays ! j) \<Longrightarrow>
    0 < m \<longrightarrow> sint (pta_start_tick_index (arrays ! m)) < sint i"
proof (induction "length arrays - j" arbitrary: search_index j)
  case 0
  then show ?case by (subst (asm) get_next_initialized_tick_index.simps) simp
next
  case (Suc n)
  let ?a = "arrays ! j"
  have j: "j < length arrays" using Suc.hyps(2) by simp
  have ok: "in_bounds (pta_start_tick_index ?a)" "length (pta_ticks ?a) = 88"
    using Suc.prems(2) j by (auto simp: tick_arrays_ok_def list_all_length)
  have T: "0 < uint tick_spacing" by (rule spacing_pos [OF Suc.prems(3)])
  from Suc.prems(1) show ?case
  proof (cases rule: search_Inr_cases)
    case found
    show ?thesis
    proof (cases "0 < j")
      case True
      then have "search_index = pta_start_tick_index ?a" using Suc.prems(4) by simp
      then obtain slot where slot: "nearest_slot (pta_ticks ?a) False 1 slot"
        "get_next_init_tick_index ?a search_index tick_spacing False
          = Done (Inr (map_option (\<lambda>k. word_of_int (sint (pta_start_tick_index ?a) + k * uint tick_spacing)) slot))"
        using get_next_init_int [OF ok(1) _ Suc.prems(3) ok(2), of search_index 0 False] ok(1) by auto
      then obtain l where l: "slot = Some l" "i = word_of_int (sint (pta_start_tick_index ?a) + l * uint tick_spacing)"
        using found(2) by (cases slot) auto
      then have bounds: "1 \<le> l" "l < 88" using slot(1) by (simp_all add: nearest_slot_def in_direction_def)
      have "sint i = sint (pta_start_tick_index ?a) + l * uint tick_spacing"
        unfolding l(2) by (rule slot_word [OF ok(1)]) (use bounds in simp_all)
      moreover have "0 < l * uint tick_spacing" using bounds T by simp
      ultimately show ?thesis using found(3) by simp
    qed (simp add: found)
  next
    case last
    have "i = word_of_int (sint (pta_start_tick_index ?a) + 87 * uint tick_spacing)"
      unfolding last(5) spacing_int size_int by simp
    then have "sint i = sint (pta_start_tick_index ?a) + 87 * uint tick_spacing"
      by (simp only: slot_word [OF ok(1)])
    then show ?thesis using T last(4) by simp
  next
    case further
    show ?thesis
      by (rule Suc.hyps(1) [OF _ further(3) [unfolded if_False] Suc.prems(2,3)]) (use Suc.hyps(2) in simp_all)
  qed
qed

text \<open>
  What the search over several arrays returns: a slot in the direction of the trade, initialised unless it is the very
  last slot of the last array, with no initialised slot in between. (Going up, the first slot of a later array
  is not looked at.)
\<close>

definition slot_index :: "parsed_tick_array \<Rightarrow> u16 \<Rightarrow> int \<Rightarrow> int" where
  "slot_index array tick_spacing k = sint (pta_start_tick_index array) + k * uint tick_spacing"

definition tick_ahead :: "bool \<Rightarrow> int \<Rightarrow> int \<Rightarrow> bool" where
  "tick_ahead a_to_b start t \<longleftrightarrow> (if a_to_b then t \<le> start else start < t)"

definition tick_before :: "bool \<Rightarrow> int \<Rightarrow> int \<Rightarrow> bool" where
  "tick_before a_to_b u t \<longleftrightarrow> (if a_to_b then t < u else u < t)"

definition stopping_slot :: "parsed_tick_array list \<Rightarrow> bool \<Rightarrow> nat \<Rightarrow> int \<Rightarrow> bool" where
  "stopping_slot arrays a_to_b m k \<longleftrightarrow> m < length arrays \<and> 0 \<le> k \<and> k < 88
     \<and> (pt_initialized (pta_ticks (arrays ! m) ! nat k) \<or> m + 1 = length arrays \<and> k = (if a_to_b then 0 else 87))"

definition nothing_between :: "parsed_tick_array list \<Rightarrow> u16 \<Rightarrow> bool \<Rightarrow> nat \<Rightarrow> int \<Rightarrow> int \<Rightarrow> bool" where
  "nothing_between arrays tick_spacing a_to_b j start t \<longleftrightarrow>
     (\<forall>m k. j \<le> m \<and> m < length arrays \<and> 0 \<le> k \<and> k < 88 \<and> (a_to_b \<or> m = 0 \<or> k \<noteq> 0)
        \<and> tick_ahead a_to_b start (slot_index (arrays ! m) tick_spacing k)
        \<and> tick_before a_to_b (slot_index (arrays ! m) tick_spacing k) t
      \<longrightarrow> \<not> pt_initialized (pta_ticks (arrays ! m) ! nat k))"

definition arrays_follow :: "bool \<Rightarrow> u16 \<Rightarrow> parsed_tick_array list \<Rightarrow> bool" where
  "arrays_follow a_to_b tick_spacing arrays \<longleftrightarrow>
     (\<forall>m m'. m < m' \<and> m' < length arrays \<longrightarrow>
        (if a_to_b then slot_index (arrays ! m') tick_spacing 88 \<le> slot_index (arrays ! m) tick_spacing 0
         else slot_index (arrays ! m) tick_spacing 88 \<le> slot_index (arrays ! m') tick_spacing 0))"

lemma slot_index_mono: "k \<le> l \<Longrightarrow> slot_index array tick_spacing k \<le> slot_index array tick_spacing l"
  using spacing_small(2) [of tick_spacing] by (simp add: slot_index_def mult_right_mono)

lemma slot_index_less: "tick_spacing \<noteq> 0 \<Longrightarrow> slot_index array tick_spacing k < slot_index array tick_spacing l \<longleftrightarrow> k < l"
  using spacing_pos [of tick_spacing] by (simp add: slot_index_def)

lemma slot_index_le: "tick_spacing \<noteq> 0 \<Longrightarrow> slot_index array tick_spacing k \<le> slot_index array tick_spacing l \<longleftrightarrow> k \<le> l"
  using spacing_pos [of tick_spacing] by (simp add: slot_index_def)

lemma later_array_not_before:
  assumes "arrays_follow a_to_b tick_spacing arrays" "j < m" "m < length arrays" "tick_spacing \<noteq> 0"
    and "0 \<le> k" "k < 88" "0 \<le> l" "l < 88"
  shows "tick_before a_to_b (slot_index (arrays ! j) tick_spacing k) (slot_index (arrays ! m) tick_spacing l)"
proof -
  let ?at = "\<lambda>m. slot_index (arrays ! m) tick_spacing"
  have at: "?at n 0 \<le> ?at n i" "?at n i < ?at n 88" if "0 \<le> i" "i < 88" for n i
    using that by (simp_all only: slot_index_le [OF assms(4)] slot_index_less [OF assms(4)])
  have "if a_to_b then ?at m 88 \<le> ?at j 0 else ?at j 88 \<le> ?at m 0"
    using assms(1-3) unfolding arrays_follow_def by blast
  then show ?thesis
    using at [OF assms(5,6), of j] at [OF assms(7,8), of m] unfolding tick_before_def by (cases a_to_b) simp_all
qed

lemma search_result:
  "get_next_initialized_tick_index arrays search_index tick_spacing a_to_b j = Done (Inr (m, i)) \<Longrightarrow>
    tick_arrays_ok arrays \<Longrightarrow> tick_spacing \<noteq> 0 \<Longrightarrow> arrays_follow a_to_b tick_spacing arrays \<Longrightarrow> in_bounds search_index \<Longrightarrow>
    \<forall>m < length arrays. \<bar>sint (pta_start_tick_index (arrays ! m))\<bar> \<le> 400000000 \<Longrightarrow>
    0 < j \<longrightarrow> sint search_index = slot_index (arrays ! j) tick_spacing (if a_to_b then 87 else 0) \<Longrightarrow>
    j \<le> m \<and> tick_ahead a_to_b (sint search_index) (sint i)
    \<and> (\<exists>k. stopping_slot arrays a_to_b m k \<and> sint i = slot_index (arrays ! m) tick_spacing k)
    \<and> nothing_between arrays tick_spacing a_to_b j (sint search_index) (sint i)"
proof (induction "length arrays - j" arbitrary: search_index j)
  case 0
  then show ?case by (subst (asm) get_next_initialized_tick_index.simps) simp
next
  case (Suc n)
  let ?a = "arrays ! j" and ?at = "\<lambda>m. slot_index (arrays ! m) tick_spacing"
  have j: "j < length arrays" using Suc.hyps(2) by simp
  have okm: "in_bounds (pta_start_tick_index (arrays ! m))" "length (pta_ticks (arrays ! m)) = 88" if "m < length arrays" for m
    using Suc.prems(2) that by (auto simp: tick_arrays_ok_def list_all_length)
  note ok = okm [OF j]
  obtain found where answer: "get_next_init_tick_index ?a search_index tick_spacing a_to_b = Done (Inr found)"
    using Suc.prems(1) by (cases rule: search_Inr_cases) blast+
  obtain s slot where s: "searchable_slot ?a search_index tick_spacing a_to_b s"
    and near: "nearest_slot (pta_ticks ?a) a_to_b (if a_to_b then s else s + 1) slot"
    and eq: "found = map_option (\<lambda>k. word_of_int (sint (pta_start_tick_index ?a) + k * uint tick_spacing)) slot"
    by (rule get_next_init_slot [OF ok(1) Suc.prems(5,3) ok(2) answer])
  note slot = near answer [unfolded eq, folded slot_index_def]
  have from_slot: "sint search_index = ?at j s" "0 \<le> s" "if a_to_b then s < 88 else s < 87"
    using s by (simp_all add: searchable_slot_def slot_index_def)
  have here: "tick_ahead a_to_b (sint search_index) (?at j k) \<longleftrightarrow> in_direction a_to_b (if a_to_b then s else s + 1) k" for k
    unfolding tick_ahead_def in_direction_def from_slot(1)
    by (cases a_to_b)
      (simp_all only: if_True if_False slot_index_le [OF Suc.prems(3)] slot_index_less [OF Suc.prems(3)] zle_add1_eq_le add1_zle_eq)
  have word: "sint (word_of_int (?at m k) :: i32) = ?at m k" if "m < length arrays" "0 \<le> k" "k < 88" for m k
    unfolding slot_index_def by (rule slot_word [OF okm(1) [OF that(1)] that(2,3)])
  from Suc.prems(1) show ?case
  proof (cases rule: search_Inr_cases)
    case found
    then obtain k where k: "slot = Some k" "i = word_of_int (?at j k)" using slot(2) by auto
    then have near: "0 \<le> k" "k < 88" "in_direction a_to_b (if a_to_b then s else s + 1) k" "pt_initialized (pta_ticks ?a ! nat k)"
      "\<And>l. in_direction a_to_b (if a_to_b then s else s + 1) l \<Longrightarrow> in_direction a_to_b l k \<Longrightarrow> l \<noteq> k \<Longrightarrow> \<not> pt_initialized (pta_ticks ?a ! nat l)"
      using slot(1) by (auto simp: nearest_slot_def)
    have i: "sint i = ?at j k" unfolding k(2) by (rule word [OF j near(1,2)])
    have "nothing_between arrays tick_spacing a_to_b j (sint search_index) (sint i)"
      unfolding nothing_between_def
    proof (intro allI impI, elim conjE)
      fix n l
      assume n: "j \<le> n" "n < length arrays" "0 \<le> l" "l < 88" "tick_ahead a_to_b (sint search_index) (?at n l)" "tick_before a_to_b (?at n l) (sint i)"
      have "n = j"
      proof (rule ccontr)
        assume "n \<noteq> j"
        with n(1) have "tick_before a_to_b (?at j k) (?at n l)"
          using later_array_not_before [OF Suc.prems(4) _ n(2) Suc.prems(3) near(1,2) n(3,4)] by simp
        with n(6) i show False by (auto simp: tick_before_def split: if_splits)
      qed
      moreover have "in_direction a_to_b l k" "l \<noteq> k"
        using n(6) slot_index_less [OF Suc.prems(3)] unfolding i \<open>n = j\<close> by (auto simp: tick_before_def in_direction_def split: if_splits)
      ultimately show "\<not> pt_initialized (pta_ticks (arrays ! n) ! nat l)" using near(5) here n(5) by blast
    qed
    then show ?thesis using found(3) near here i j by (auto simp: stopping_slot_def)
  next
    case last
    then have none: "slot = None" using slot(2) by simp
    let ?k = "if a_to_b then 0 else 87 :: int"
    have "i = word_of_int (?at j ?k)"
      unfolding last(5) spacing_int size_int slot_index_def by simp
    then have i: "sint i = ?at j ?k" using word [OF j, of ?k] by simp
    have "nothing_between arrays tick_spacing a_to_b j (sint search_index) (sint i)"
      unfolding nothing_between_def
    proof (intro allI impI, elim conjE)
      fix n l
      assume n: "j \<le> n" "n < length arrays" "0 \<le> l" "l < 88" "tick_ahead a_to_b (sint search_index) (?at n l)"
      moreover from this have "n = j" using last(3) by simp
      ultimately show "\<not> pt_initialized (pta_ticks (arrays ! n) ! nat l)"
        using slot(1) none here by (simp add: nearest_slot_def)
    qed
    moreover have "tick_ahead a_to_b (sint search_index) (?at j ?k)"
      unfolding here using from_slot by (auto simp: in_direction_def)
    moreover have "stopping_slot arrays a_to_b m ?k" using last(3,4) by (simp add: stopping_slot_def)
    ultimately show ?thesis using last(4) i unfolding last(4) by (intro conjI exI [of _ ?k]) simp_all
  next
    case further
    then have none: "slot = None" using slot(2) by simp
    let ?k = "if a_to_b then 87 else 0 :: int"
    let ?w = "if a_to_b then pta_start_tick_index (arrays ! (j + 1)) + tick_array_size * ucast tick_spacing - ucast tick_spacing
         else pta_start_tick_index (arrays ! (j + 1))"
    have "?w = word_of_int (?at (j + 1) ?k)" unfolding spacing_int size_int slot_index_def by simp
    then have w: "sint ?w = ?at (j + 1) ?k" using word [OF further(1), of ?k] by simp
    have "in_bounds ?w"
    proof -
      have "?k * uint tick_spacing \<le> 87 * 65536" "0 \<le> ?k * uint tick_spacing"
        using spacing_small [of tick_spacing] by simp_all
      moreover have "\<bar>sint (pta_start_tick_index (arrays ! (j + 1)))\<bar> \<le> 400000000" using Suc.prems(6) further(1) by blast
      ultimately show ?thesis unfolding in_bounds_def w slot_index_def by linarith
    qed
    from Suc.hyps(1) [OF _ further(3) Suc.prems(2,3,4) this Suc.prems(6)] w Suc.hyps(2)
    have IH: "j + 1 \<le> m" "tick_ahead a_to_b (sint ?w) (sint i)"
      "\<exists>k. stopping_slot arrays a_to_b m k \<and> sint i = ?at m k"
      "nothing_between arrays tick_spacing a_to_b (j + 1) (sint ?w) (sint i)" by auto
    have entry: "tick_before a_to_b (sint search_index) (sint ?w)"
      unfolding from_slot(1) w using from_slot(2,3)
      by (intro later_array_not_before [OF Suc.prems(4) _ further(1) Suc.prems(3)]) (auto split: if_splits)
    have "nothing_between arrays tick_spacing a_to_b j (sint search_index) (sint i)"
      unfolding nothing_between_def
    proof (intro allI impI, elim conjE)
      fix n l
      assume n: "j \<le> n" "n < length arrays" "0 \<le> l" "l < 88" "a_to_b \<or> n = 0 \<or> l \<noteq> 0"
        "tick_ahead a_to_b (sint search_index) (?at n l)" "tick_before a_to_b (?at n l) (sint i)"
      show "\<not> pt_initialized (pta_ticks (arrays ! n) ! nat l)"
      proof (cases "n = j")
        case True
        then show ?thesis using slot(1) none here n by (auto simp: nearest_slot_def)
      next
        case False
        have "tick_ahead a_to_b (sint ?w) (?at n l)"
        proof (cases "n = j + 1")
          case True
          then show ?thesis
            using n(3-5) slot_index_le [OF Suc.prems(3)] slot_index_less [OF Suc.prems(3)]
            by (auto simp: w tick_ahead_def)
        next
          case other: False
          then have "tick_before a_to_b (sint ?w) (?at n l)"
            unfolding w using n(1-4) False by (intro later_array_not_before [OF Suc.prems(4) _ _ Suc.prems(3)]) auto
          then show ?thesis by (auto simp: tick_before_def tick_ahead_def split: if_splits)
        qed
        then show ?thesis using IH(4) n False unfolding nothing_between_def by (metis Suc_eq_plus1 Suc_leI le_neq_implies_less)
      qed
    qed
    moreover have "tick_ahead a_to_b (sint search_index) (sint i)"
      using entry IH(2) by (auto simp: tick_before_def tick_ahead_def split: if_splits)
    ultimately show ?thesis using IH(1,3) by auto
  qed
qed

section \<open>A tick between two slots\<close>

lemma unaligned_search_fails:
  assumes "in_bounds tick" "in_bounds (pta_start_tick_index a)" "tick_spacing \<noteq> 0"
    and "sint (pta_start_tick_index a) mod uint tick_spacing = 0" "sint tick mod uint tick_spacing \<noteq> 0"
  shows "get_next_initialized_tick_index (a # arrays) tick tick_spacing a_to_b 0 = Done (Inl ())"
proof -
  let ?s = "sint (pta_start_tick_index a)"
  have "(sint tick - ?s) mod uint tick_spacing = sint tick mod uint tick_spacing"
    using assms(4) by (metis diff_zero mod_diff_right_eq)
  then have "tick_offset a tick tick_spacing = Done None"
    unfolding tick_offset_int [OF assms(1,2,3)] using assms(5) by simp
  then have "get_next_init_tick_index a tick tick_spacing a_to_b = Done (Inl ())"
    by (simp add: get_next_init_tick_index_def)
  then show ?thesis by (subst get_next_initialized_tick_index.simps) simp
qed

lemma failed_search_ends_walk:
  assumes "get_next_initialized_tick_index arrays (oq_tick_current_index pool) (oq_tick_spacing pool) a_to_b 0 = Done (Inl ())"
    and "amount_in \<noteq> 0"
  shows "\<exists>e. try_quote_walk pool arrays a_to_b amount_in = Some (Done (Inl e))"
proof -
  have "walk_step pool arrays a_to_b (walk_start pool amount_in) = Done (Inl DivideByZero)"
    using assms(1) by (simp add: walk_step_def walk_start_def Let_def)
  then show ?thesis using assms(2)
    by (simp add: try_quote_walk_def walk_loop_once) (simp add: walk_start_def word_gt_0)
qed

end
