(* ===== verification/Orca_Account_Properties.thy ===== *)
theory Orca_Account_Properties
  imports Orca_Ticks Account_Properties
begin

text \<open>
  What the tick array parsers read back from the accounts that the builders write: lemmas on little-endian bytes,
  and one lemma per layout that walks the slots.
\<close>

section \<open>Bytes\<close>

lemma length_le_bytes [simp]: "length (le_bytes n k) = n"
  by (simp add: le_bytes_def)

lemma le_bytes_Suc: "le_bytes (Suc n) k = of_nat k # le_bytes n (k div 256)"
  by (simp add: le_bytes_def upt_conv_Cons map_Suc_upt [symmetric] div_mult2_eq del: upt_Suc)

lemma le_value_le_bytes: "le_value (le_bytes n k) = k mod 256 ^ n"
proof (induction n arbitrary: k)
  case 0
  show ?case by (simp add: le_bytes_def)
next
  case (Suc n)
  have "unat (of_nat k :: u8) = k mod 256" by (simp add: unsigned_of_nat take_bit_eq_mod)
  then show ?case by (simp add: le_bytes_Suc Suc mod_mult2_eq)
qed

lemma le_round_trip:
  assumes "LENGTH('a::len) \<le> 8 * n"
  shows "from_le_bytes (to_le_bytes n (w :: 'a word)) = w"
proof -
  have "unat w < 2 ^ LENGTH('a)" by (rule unsigned_less)
  also have "\<dots> \<le> 2 ^ (8 * n)" using assms by (intro power_increasing) simp_all
  finally have "unat w < 256 ^ n" by (simp add: power_mult)
  then show ?thesis by (simp add: from_le_bytes_def to_le_bytes_def le_value_le_bytes)
qed

lemma pubkey_round_trip: "pubkey_from_bytes (pubkey_to_bytes k) = k" "length (pubkey_to_bytes k) = 32"
proof -
  have "unat k < 2 ^ 256" using unsigned_less [of k, where ?'a = nat] by simp
  then have "unat k < 256 ^ 32" by simp
  then show "pubkey_from_bytes (pubkey_to_bytes k) = k"
    by (simp add: pubkey_from_bytes_def pubkey_to_bytes_def le_value_le_bytes)
  show "length (pubkey_to_bytes k) = 32" by (simp add: pubkey_to_bytes_def)
qed

lemma length_to_le_bytes [simp]: "length (to_le_bytes n w) = n"
  by (simp add: to_le_bytes_def)

lemma length_tick_data [simp]: "length (tick_data_bytes init net) = 113"
  by (simp add: tick_data_bytes_def)

lemma tick_data_read:
  "tick_data_bytes init net ! 0 = (if init then 1 else 0)" "from_le_bytes (take 16 (drop 1 (tick_data_bytes init net))) = net"
  by (simp_all add: tick_data_bytes_def le_round_trip)

section \<open>Slots\<close>

lemma parse_slot:
  "parse_tick_bytes i (tick_data_bytes init net) = Some \<lparr>pt_tick_index = i, pt_initialized = init, pt_liquidity_net = net\<rparr>"
  using tick_data_read [of init net] by (simp add: parse_tick_bytes_def tick_len_def)

lemma parse_empty_slot:
  "parse_tick_bytes i (replicate tick_len 0) = Some \<lparr>pt_tick_index = i, pt_initialized = False, pt_liquidity_net = 0\<rparr>"
proof -
  have zeros: "le_value (replicate n 0) = 0" for n by (induction n) simp_all
  show ?thesis by (simp add: parse_tick_bytes_def tick_len_def from_le_bytes_def zeros drop_replicate take_replicate)
qed

lemma checked_slice_middle: "length pre = off \<Longrightarrow> length xs = n \<Longrightarrow> checked_slice (pre @ xs @ post) off n = Some xs"
  by (simp add: checked_slice_def)

lemma classic_ticks_read:
  assumes "\<And>i. i \<in> set slots \<Longrightarrow> length (f i) = tick_len \<and> parse_tick_bytes (start + of_nat i) (f i) = Some (tick i)"
  shows "classic_ticks start (pre @ concat (map f slots) @ post) slots (length pre) = Some (map tick slots)"
  using assms
proof (induction slots arbitrary: pre)
  case (Cons i slots)
  have "checked_slice (pre @ f i @ concat (map f slots) @ post) (length pre) tick_len = Some (f i)"
    using Cons.prems [of i] by (intro checked_slice_middle) simp_all
  moreover have "classic_ticks start ((pre @ f i) @ concat (map f slots) @ post) slots (length (pre @ f i)) = Some (map tick slots)"
    by (rule Cons.IH) (use Cons.prems in simp)
  ultimately show ?case using Cons.prems [of i] by simp
qed simp

definition dynamic_slot :: "u128 \<Rightarrow> i128 \<Rightarrow> nat \<Rightarrow> u8 list" where
  "dynamic_slot bitmap net i = (if bit bitmap i then tick_data_bytes True net else [0])"

lemma dynamic_ticks_read:
  "dynamic_ticks start bitmap (pre @ concat (map (dynamic_slot bitmap net) slots)) slots (length pre)
    = Some (map (\<lambda>i. \<lparr>pt_tick_index = start + of_nat i, pt_initialized = bit bitmap i,
        pt_liquidity_net = (if bit bitmap i then net else 0)\<rparr>) slots)"
proof (induction slots arbitrary: pre)
  case (Cons i slots)
  note IH = Cons.IH [of "pre @ dynamic_slot bitmap net i"]
  show ?case
  proof (cases "bit bitmap i")
    case True
    have "checked_slice (pre @ tick_data_bytes True net @ concat (map (dynamic_slot bitmap net) slots)) (length pre) 113
        = Some (tick_data_bytes True net)"
      by (rule checked_slice_middle) simp_all
    moreover have "dynamic_slot bitmap net i = tick_data_bytes True net" using True by (simp add: dynamic_slot_def)
    ultimately show ?thesis using True IH tick_data_read [of True net] by simp
  next
    case False
    moreover from this have "dynamic_slot bitmap net i = [0]" by (simp add: dynamic_slot_def)
    ultimately show ?thesis using IH by simp
  qed
qed simp

section \<open>Accounts\<close>

definition updated_slot :: "i32 \<Rightarrow> u16 \<Rightarrow> (i32 \<times> bool \<times> i128) list \<Rightarrow> nat \<Rightarrow> parsed_tick" where
  \<comment> \<open>the tick that the first update of a slot's index describes\<close>
  "updated_slot start tick_spacing tick_updates slot =
     (let (init, net) = unwrap_or (map_of tick_updates (tick_index_at_slot start slot tick_spacing)) (False, 0)
      in \<lparr>pt_tick_index = start + of_nat slot, pt_initialized = init, pt_liquidity_net = net\<rparr>)"

lemma find_map_of:
  "find (\<lambda>(idx, init, net). idx = k) updates = map_option (Pair k) (map_of updates k)"
  by (induction updates) auto

lemma classic_read_back:
  "parse_tick_array (build_tick_array_account_bytes start whirlpool tick_spacing updates)
    = Done (Some \<lparr>pta_whirlpool = whirlpool, pta_start_tick_index = start,
        pta_ticks = map (updated_slot start tick_spacing updates) [0 ..< 88]\<rparr>)"
proof -
  define f where "f slot = (case find (\<lambda>(idx, init, net). idx = start + of_nat slot * ucast tick_spacing) updates of
      None \<Rightarrow> replicate tick_len 0 | Some (_, init, net) \<Rightarrow> tick_data_bytes init net)" for slot :: nat
  have f: "length (f i) = tick_len \<and> parse_tick_bytes (start + of_nat i) (f i) = Some (updated_slot start tick_spacing updates i)" for i
    by (auto simp: f_def find_map_of updated_slot_def tick_index_at_slot_def parse_slot parse_empty_slot tick_len_def [symmetric]
        split: option.splits)
  let ?slots = "concat (map f [0 ..< 88])" and ?body = "to_le_bytes 4 start @ concat (map f [0 ..< 88]) @ pubkey_to_bytes whirlpool"
  have len: "length ?slots = 88 * tick_len" using f by (simp add: length_concat o_def sum_list_triv del: upt_Suc)
  have account: "build_tick_array_account_bytes start whirlpool tick_spacing updates = tick_array_discriminator @ ?body"
    unfolding build_tick_array_account_bytes_def f_def [abs_def] by simp
  have "length tick_array_discriminator = 8" by (simp add: tick_array_discriminator_def)
  moreover have "classic_ticks start ?body [0 ..< 88] 4 = Some (map (updated_slot start tick_spacing updates) [0 ..< 88])"
    using classic_ticks_read [of "[0 ..< 88]" f start, OF f, of "to_le_bytes 4 start" "pubkey_to_bytes whirlpool"] by simp
  moreover have "word_at ?body 0 4 = Done start" by (simp add: word_at_eq le_round_trip)
  moreover have "pubkey_at ?body (4 + 88 * tick_len) = Done whirlpool" by (simp add: pubkey_at_eq len pubkey_round_trip)
  ultimately show ?thesis
    unfolding account parse_tick_array_def parse_classic_tick_array_def
    by (simp add: len pubkey_round_trip min_tick_array_account_len_def tick_account_body_len_def Let_def del: upt_Suc)
qed

lemma dynamic_read_back:
  assumes "slot < 88"
  shows "parse_tick_array (build_dynamic_tick_array_account_bytes start whirlpool slot net)
    = Done (Some \<lparr>pta_whirlpool = whirlpool, pta_start_tick_index = start,
        pta_ticks = map (\<lambda>i. \<lparr>pt_tick_index = start + of_nat i, pt_initialized = (i = slot),
          pt_liquidity_net = (if i = slot then net else 0)\<rparr>) [0 ..< 88]\<rparr>)"
proof -
  define bitmap :: u128 where "bitmap = push_bit slot 1"
  have bit: "bit bitmap i \<longleftrightarrow> i = slot" if "i < 88" for i
    using that assms by (auto simp: bitmap_def bit_exp_iff)
  let ?slots = "concat (map (dynamic_slot bitmap net) [0 ..< 88])"
  let ?body = "to_le_bytes 4 start @ pubkey_to_bytes whirlpool @ to_le_bytes 16 bitmap @ ?slots"
  have slots: "concat (map (\<lambda>i. if i = slot then tick_data_bytes True net else [0]) [0 ..< 88]) = ?slots"
    by (intro arg_cong [of _ _ concat] map_cong refl) (simp add: dynamic_slot_def bit)
  have account: "build_dynamic_tick_array_account_bytes start whirlpool slot net = dynamic_tick_array_discriminator @ ?body"
    by (simp only: build_dynamic_tick_array_account_bytes_def slots bitmap_def)
  have disc: "length dynamic_tick_array_discriminator = 8" "dynamic_tick_array_discriminator \<noteq> tick_array_discriminator"
    by (simp_all add: dynamic_tick_array_discriminator_def tick_array_discriminator_def)
  have long: "88 \<le> length ?slots"
  proof -
    have "length xs \<le> length (concat (map (dynamic_slot bitmap net) xs))" for xs :: "nat list"
      by (induction xs) (auto simp: dynamic_slot_def)
    from this [of "[0 ..< 88]"] show ?thesis by simp
  qed
  have "dynamic_ticks start bitmap ?slots [0 ..< 88] 0 = Some (map (\<lambda>i. \<lparr>pt_tick_index = start + of_nat i,
      pt_initialized = bit bitmap i, pt_liquidity_net = (if bit bitmap i then net else 0)\<rparr>) [0 ..< 88])"
    using dynamic_ticks_read [of start bitmap "[]" net "[0 ..< 88]"] by simp
  also have "\<dots> = Some (map (\<lambda>i. \<lparr>pt_tick_index = start + of_nat i, pt_initialized = (i = slot),
      pt_liquidity_net = (if i = slot then net else 0)\<rparr>) [0 ..< 88])"
    by (simp add: bit del: upt_Suc)
  finally have ticks: "dynamic_ticks start bitmap ?slots [0 ..< 88] 0 = \<dots>" .
  moreover have "word_at ?body 0 4 = Done start" by (simp add: word_at_eq le_round_trip)
  moreover have "pubkey_at ?body 4 = Done whirlpool" by (simp add: pubkey_at_eq pubkey_round_trip)
  moreover have "word_at ?body 36 16 = Done bitmap" by (simp add: word_at_eq le_round_trip pubkey_round_trip)
  moreover have "drop 52 ?body = ?slots" by (simp add: pubkey_round_trip)
  ultimately show ?thesis
    unfolding account parse_tick_array_def parse_dynamic_tick_array_def Let_def
    using long disc by (simp add: pubkey_round_trip dynamic_tick_min_account_len_def dynamic_tick_header_len_def del: upt_Suc)
qed

end
