(* ===== verification/Orca_Claims.thy ===== *)
theory Orca_Claims
  imports Orca_Walker_Properties Orca_Account_Properties
begin

text \<open>
  The theorems on Whirlpool quotes: exact 256-bit division, what a swap step takes and gives, the walk as a single
  step, the search for the next tick, the arrays of a swap, and the round trip of tick array accounts. The examples
  at the end evaluate the model where the code panics.
\<close>

section \<open>Division\<close>

text \<open>
  C22. The 256-bit division of the swap mathematics returns the quotient, and the remainder when it is asked for, for
  every dividend and every divisor but 0, unless it panics; and it panics only for a dividend of four words and a
  divisor of at least three.
\<close>

theorem division_is_exact:
  assumes "length a = 4" "length b = 4" "wval b \<noteq> 0"
  shows "case u256_div a b return_remainder of
      Panic \<Rightarrow> 2 ^ 192 \<le> wval a \<and> 2 ^ 128 \<le> wval b
    | Done (quot, remainder) \<Rightarrow> wval quot = wval a div wval b
        \<and> wval remainder = (if return_remainder then wval a mod wval b else 0)"
  using u256_div_exact [OF assms, of return_remainder]
  by (cases "u256_div a b return_remainder") (auto simp: u256_divided_def)

theorem division_is_exact_witness:
  "case u256_div [5, 7, 3, 0] [0, 2, 0, 0] True of
      Panic \<Rightarrow> False
    | Done (quot, remainder) \<Rightarrow> wval quot = (5 + radix * 7 + radix * radix * 3) div (radix * 2) \<and> wval remainder = 5 + radix"
proof -
  have a: "wval [5, 7, 3, 0] = 5 + radix * 7 + radix * radix * 3" by (simp add: add_mult_distrib2)
  have b: "wval [0, 2, 0, 0] = radix * 2" by simp
  have "(5 + radix * 7 + radix * radix * 3) mod (radix * 2) = 5 + radix" "\<not> 2 ^ 192 \<le> 5 + radix * 7 + radix * radix * 3"
    by (simp_all add: radix_def)
  with division_is_exact [of "[5, 7, 3, 0]" "[0, 2, 0, 0]" True, unfolded a b] show ?thesis
    by (cases "u256_div [5, 7, 3, 0] [0, 2, 0, 0] True") simp_all
qed

section \<open>One step\<close>

text \<open>
  C18. A swap step with a fixed input moves the price in the direction of the trade and not past the target, takes the
  amount that this move costs, rounded up, gives the amount it yields, rounded down, and together with the fee never
  takes more than the input that is left; it takes all of it unless it reaches the target. The product of the
  virtual reserves does not fall.
\<close>

theorem swap_step_within_input:
  assumes "compute_swap remaining fee_rate liquidity p target True a_to_b = Done (Inr c)"
    and "p \<noteq> 0" "target \<noteq> 0" "moves a_to_b (unat p) (unat target)" "unat fee_rate < 1000000"
  shows "moves a_to_b (unat p) (unat (ss_next_price c)) \<and> moves a_to_b (unat (ss_next_price c)) (unat target)
    \<and> unat (ss_amount_in c) = exact_in a_to_b (unat p) (unat (ss_next_price c)) (unat liquidity)
    \<and> unat (ss_amount_out c) = exact_out a_to_b (unat p) (unat (ss_next_price c)) (unat liquidity)
    \<and> unat (ss_amount_in c) + unat (ss_fee_amount c) \<le> unat remaining
    \<and> (ss_next_price c \<noteq> target \<longrightarrow> unat (ss_amount_in c) + unat (ss_fee_amount c) = unat remaining)
    \<and> product_kept a_to_b (unat liquidity) (unat p) (unat (ss_amount_in c)) (unat (ss_amount_out c))"
proof -
  note ok = compute_swap_ok [OF assms, unfolded step_ok_def Let_def]
  have "product_kept a_to_b (unat liquidity) (unat p) (unat (ss_amount_in c)) (unat (ss_amount_out c))"
    using ok product_kept_exact [of "unat p" "unat (ss_next_price c)" a_to_b "unat liquidity"] assms(2) by (simp add: unat_gt_0)
  with ok show ?thesis by blast
qed

text \<open>A step of a million units of B at a fee of 0.3 percent, from the root 1 of the price.\<close>

lemma sample_step:
  "compute_swap 1000000 3000 1000000000000 18446744073709551616 18690908412520091275 True False
    = Done (Inr \<lparr>ss_amount_in = 997000, ss_amount_out = 996999, ss_next_price = 18446762465113393104, ss_fee_amount = 3000\<rparr>)"
proof -
  note delta_b = try_get_amount_delta_b_def increasing_price_order_def u128_checked_mul_def q64_resolution_def q64_mask_def
    as_u64_def u64_max_def
  have "try_get_amount_delta_b 18446744073709551616 18690908412520091275 1000000000000 True = Inr (Valid 13236175330)"
    by (simp add: delta_b)
  moreover have "try_get_amount_delta_b 18446744073709551616 18446762465113393104 1000000000000 True = Inr (Valid 997000)"
    by (simp add: delta_b)
  moreover have "as_amount (checked_mul_div (as_u128 1000000) (fee_rate_mul_value - ucast (3000 :: u32)) fee_rate_mul_value) = Done (Inr 997000)"
    by (simp add: as_amount_def checked_mul_div_def checked_mul_div_round_up_if_def u128_checked_mul_def as_u128_def as_u64_def
        u64_try_from_u128_def fee_rate_mul_value_def)
  moreover have "get_next_sqrt_price 18446744073709551616 1000000000000 997000 True False = Done (Inr 18446762465113393104)"
    by (simp add: get_next_sqrt_price_def get_next_sqrt_price_from_b_round_down_def div_round_up_if_def u128_checked_add_def
        q64_resolution_def as_u128_def)
  moreover have "get_amount_delta_a 18446744073709551616 18446762465113393104 1000000000000 False = Done (Inr 996999)"
    by code_simp
  ultimately show ?thesis
    by (simp add: compute_swap_def try_get_amount_fixed_delta_def get_amount_unfixed_delta_def get_amount_fixed_delta_def
        get_amount_delta_b_def delta_result_def)
qed

theorem swap_step_within_input_witness:
  "moves False (2 ^ 64) 18446762465113393104 \<and> (997000 :: nat) + 3000 = 1000000
    \<and> product_kept False 1000000000000 (2 ^ 64) 997000 996999"
  using swap_step_within_input [OF sample_step] by (simp add: moves_def)

section \<open>The quote\<close>








definition empty_array :: "i32 \<Rightarrow> parsed_tick_array" where
  "empty_array start = \<lparr>pta_whirlpool = 1, pta_start_tick_index = start,
     pta_ticks = replicate 88 \<lparr>pt_tick_index = start, pt_initialized = False, pt_liquidity_net = 0\<rparr>\<rparr>"




lemma empty_array_search:
  assumes "sint start = a" "in_bounds start" "in_bounds tick" "spacing \<noteq> 0" "sint tick = a + i * uint spacing" "0 \<le> i"
    and "if a_to_b then i < 88 else i < 87"
  shows "get_next_init_tick_index (empty_array start) tick spacing a_to_b = Done (Inr None)"
proof -
  obtain found where found: "nearest_slot (pta_ticks (empty_array start)) a_to_b (if a_to_b then i else i + 1) found"
    "get_next_init_tick_index (empty_array start) tick spacing a_to_b
      = Done (Inr (map_option (\<lambda>k. word_of_int (sint (pta_start_tick_index (empty_array start)) + k * uint spacing)) found))"
    using get_next_init_int [of "empty_array start" tick spacing i a_to_b] assms by (auto simp: empty_array_def)
  have "found = None"
    using found(1) by (cases found) (auto simp: nearest_slot_def empty_array_def nat_less_iff)
  with found(2) show ?thesis by simp
qed









section \<open>Ticks\<close>


definition marked_array :: "i32 \<Rightarrow> nat set \<Rightarrow> parsed_tick_array" where
  "marked_array start slots = \<lparr>pta_whirlpool = 1, pta_start_tick_index = start,
     pta_ticks = map (\<lambda>i. \<lparr>pt_tick_index = start, pt_initialized = (i \<in> slots), pt_liquidity_net = 7\<rparr>) [0 ..< 88]\<rparr>"


text \<open>
  The search over the arrays misses a tick: going up, it enters a later array above that array's first slot, so a
  tick returned from a later array is never its first, initialised or not.
\<close>

theorem first_tick_of_later_array_missed:
  assumes "get_next_initialized_tick_index arrays tick tick_spacing False 0 = Done (Inr (m, next_tick))"
    and "tick_arrays_ok arrays" "tick_spacing \<noteq> 0" "0 < m"
  shows "sint (pta_start_tick_index (arrays ! m)) < sint next_tick"
  using upward_search_misses_first [OF assms(1,2,3)] assms(4) by simp

theorem first_tick_of_later_array_missed_witness:
  "get_next_initialized_tick_index [empty_array 0, marked_array 704 {0, 1}] 0 8 False 0 = Done (Inr (1, 712))
    \<and> (704 :: int) < sint (712 :: i32)"
proof -
  have "get_next_init_tick_index (empty_array 0) 0 8 False = Done (Inr None)"
    by (rule empty_array_search [where i = 0 and a = 0]) (simp_all add: in_bounds_def)
  moreover have "get_next_init_tick_index (marked_array 704 {0, 1}) 704 8 False = Done (Inr (Some 712))"
    by (simp add: get_next_init_tick_index_def in_search_range_def tick_offset_def scan_ticks.simps [of _ _ 1]
        marked_array_def tick_array_size_def Let_def)
  ultimately have search: "get_next_initialized_tick_index [empty_array 0, marked_array 704 {0, 1}] 0 8 False 0 = Done (Inr (1, 712))"
    by (simp add: get_next_initialized_tick_index.simps [of _ _ _ _ 0] get_next_initialized_tick_index.simps [of _ _ _ _ "Suc 0"]
        marked_array_def)
  have "sint (pta_start_tick_index ([empty_array 0, marked_array 704 {0, 1}] ! 1)) < sint (712 :: i32)"
    by (rule first_tick_of_later_array_missed [OF search])
      (simp_all add: tick_arrays_ok_def in_bounds_def empty_array_def marked_array_def)
  with search show ?thesis by (simp add: marked_array_def)
qed

text \<open>
  The three arrays of a swap are the array that holds the tick and the next two in the direction of the trade, with
  no gap between them, and they are among the five arrays that the subscription plans for the pool.
\<close>

theorem swap_arrays_cover_tick:
  assumes "\<bar>sint tick\<bar> \<le> 443636" "tick_spacing \<noteq> 0"
  shows "\<exists>s0 s1 s2 keys. swap_direction_tick_array_starts tick (ucast (tick_spacing :: u16)) a_to_b = Done (s0, s1, s2)
    \<and> sint s0 \<le> sint tick \<and> sint tick < sint s0 + 88 * uint tick_spacing \<and> 88 * uint tick_spacing dvd sint s0
    \<and> sint s1 = (if a_to_b then sint s0 - 88 * uint tick_spacing else sint s0 + 88 * uint tick_spacing)
    \<and> sint s2 = (if a_to_b then sint s1 - 88 * uint tick_spacing else sint s1 + 88 * uint tick_spacing)
    \<and> planned_orca_tick_array_pubkeys pda pool tick (ucast tick_spacing) = Done keys
    \<and> {pda pool s0, pda pool s1, pda pool s2} \<subseteq> set keys"
proof -
  define w s where "w = uint tick_spacing * 88" and "s = sint tick div (uint tick_spacing * 88) * (uint tick_spacing * 88)"
  note start = start_index [OF assms, folded w_def s_def [folded w_def], folded s_def [folded w_def]]
  define at :: "int \<Rightarrow> i32" where "at k = word_of_int (s + k * w)" for k
  have at: "sint (at k) = s + k * w" if "- 2 \<le> k" "k \<le> 2" for k
  proof -
    have "- 2 * w \<le> k * w" "k * w \<le> 2 * w" using that start(4) by (intro mult_right_mono; simp)+
    then show ?thesis unfolding at_def using start(2-5) assms(1) by (intro sint_i32) linarith+
  qed
  have width: "(ucast tick_spacing * tick_array_size :: i32) = word_of_int w" unfolding spacing_int size_int w_def by simp
  have keys: "planned_orca_tick_array_pubkeys pda pool tick (ucast tick_spacing)
     = Done [pda pool (at (- 2)), pda pool (at (- 1)), pda pool (at 0), pda pool (at 1), pda pool (at 2)]"
    unfolding planned_orca_tick_array_pubkeys_def Let_def start(1) width bind_outcome.simps at_def by simp
  have starts: "swap_direction_tick_array_starts tick (ucast tick_spacing) a_to_b
     = Done (at 0, at (if a_to_b then - 1 else 1), at (if a_to_b then - 2 else 2))"
    unfolding swap_starts [OF assms, folded w_def s_def [folded w_def], folded s_def [folded w_def]] at_def by simp
  have "s \<le> sint tick \<and> sint tick < s + 88 * uint tick_spacing \<and> 88 * uint tick_spacing dvd s"
    using start(2,3) by (simp add: w_def s_def)
  then show ?thesis
    by (intro exI [of _ "at 0"] exI [of _ "at (if a_to_b then - 1 else 1)"] exI [of _ "at (if a_to_b then - 2 else 2)"]
        exI [of _ "[pda pool (at (- 2)), pda pool (at (- 1)), pda pool (at 0), pda pool (at 1), pda pool (at 2)]"])
      (simp add: starts keys at w_def)
qed

theorem swap_arrays_cover_tick_witness:
  "\<exists>s0 s1 s2 keys. swap_direction_tick_array_starts (- 5) (ucast (8 :: u16)) True = Done (s0, s1, s2)
    \<and> sint s0 \<le> - 5 \<and> - 5 < sint s0 + 704 \<and> sint s1 = sint s0 - 704
    \<and> planned_orca_tick_array_pubkeys (\<lambda>pool i. pool + ucast i) 9 (- 5) (ucast (8 :: u16)) = Done keys
    \<and> {9 + ucast s0, 9 + ucast s1, 9 + ucast s2} \<subseteq> set keys"
  using swap_arrays_cover_tick [of "- 5" 8 True "\<lambda>pool i. pool + ucast i" 9] by fastforce

section \<open>Accounts\<close>

text \<open>
  C33. Parsing reads back what the builders wrote: from a classic account the pool, the start index and, in every slot,
  the first update of the slot's tick; from a dynamic account the one initialised slot with its liquidity.
\<close>

theorem tick_arrays_read_back:
  assumes "slot < 88"
  shows "parse_tick_array (build_tick_array_account_bytes start whirlpool tick_spacing updates)
      = Done (Some \<lparr>pta_whirlpool = whirlpool, pta_start_tick_index = start,
          pta_ticks = map (updated_slot start tick_spacing updates) [0 ..< 88]\<rparr>)
    \<and> parse_tick_array (build_dynamic_tick_array_account_bytes start whirlpool slot net)
      = Done (Some \<lparr>pta_whirlpool = whirlpool, pta_start_tick_index = start,
          pta_ticks = map (\<lambda>i. \<lparr>pt_tick_index = start + of_nat i, pt_initialized = (i = slot),
            pt_liquidity_net = (if i = slot then net else 0)\<rparr>) [0 ..< 88]\<rparr>)"
  by (simp only: classic_read_back dynamic_read_back [OF assms] simp_thms)

theorem tick_arrays_read_back_witness:
  "map_option pta_ticks (returned (parse_tick_array (build_dynamic_tick_array_account_bytes (- 704) 5 3 9876543)))
    = Some (map (\<lambda>i. \<lparr>pt_tick_index = - 704 + of_nat i, pt_initialized = (i = 3),
        pt_liquidity_net = (if i = 3 then 9876543 else 0)\<rparr>) [0 ..< 88])"
  using tick_arrays_read_back [of 3 "- 704" 5 8 "[]" 9876543] by (simp del: upt_Suc)

section \<open>Panics\<close>

text \<open>
  Taking the leading digit of a dividend of four words back reads the word after its last. The liquidity of this
  example costs \<open>2 ^ 64 - 1\<close> units of token A between the two prices, an amount that fits.
\<close>

lemma division_panics:
  "u256_div [0, 0, 0, 2 ^ 63] [1, 0, 2 ^ 63, 0] return_remainder = Panic"
  by code_simp

lemma amount_delta_panics:
  "try_get_amount_delta_a 1180591620717411303425 2361183241434822606851 2361183241434822606849 False = Panic
    \<and> exact_delta_a 1180591620717411303425 2361183241434822606851 2361183241434822606849 False = 2 ^ 64 - 1"
proof
  show "try_get_amount_delta_a 1180591620717411303425 2361183241434822606851 2361183241434822606849 False = Panic"
    by code_simp
qed (simp add: exact_delta_a_def gap_def)

end
