(* ===== verification/Spec2Isabelle.thy ===== *)
theory Spec2Isabelle
  imports Lock_Properties Position_Properties Pool_Properties Quote_Properties Account_Properties
    Bundle_Properties Admission_Claims In_Flight Bin_Claims Cycle_Claims Track_Claims Orca_Claims
begin

text \<open>
  Verification of the core of IronCrab, a Solana trading system written in Rust. The sources are
  under \<^verbatim>\<open>src/src/\<close>; paths below are relative to that directory.

  \<^bold>\<open>The program.\<close> Several processes exchange messages over NATS. \<open>bin/market_data.rs\<close> follows the chain
  through a Geyser subscription, keeps a cache of pool accounts and publishes it. Strategies
  (\<open>bin/momentum_bot.rs\<close>, \<open>bin/arb_strategy.rs\<close>) read the cache, compute quotes and publish trade
  intents. \<open>bin/execution_engine.rs\<close> locks capital and resources for each intent, computes the minimal
  output it accepts, prices the bundle tip and sends the transaction; its execution results go
  to \<open>bin/position_manager.rs\<close>, which books them in the position authority and publishes the positions
  to a key-value bucket that the others read. The development models the parts that decide about
  money: the locks, the positions, the cached pools, the quotes, the tips, and the two registries
  that say which accounts are followed and which routes are already traded.

  \<^bold>\<open>Conventions.\<close> Rust integers are words of their width; the release build has no overflow checks,
  so unchecked arithmetic wraps in the model too, \<open>saturating_*\<close>, \<open>checked_*\<close> and casts are written out.
  A \<open>HashMap\<close> is an association list with distinct keys whose order stands for the unspecified
  iteration order, a \<open>BTreeMap\<close> is one sorted by key; both interpret the locale \<open>finite_map\<close>. Structs
  are records, enums are datatypes, \<open>Result\<close> is a sum, a panic is \<open>None\<close> or the outcome \<open>Panic\<close>.
  Operations that read the clock take the instant, in nanoseconds, as an argument. Where a method
  holds a mutex for only a part of its body, that part is a definition of its own, and the
  step relations interleave the parts. Log lines and metrics are left out.

  \<^bold>\<open>Theories.\<close>

  \<^descr>[\<open>Iron_Prelude\<close>] words, casts, durations, maps, sums over maps, and the locales \<open>finite_map\<close>,
  \<open>transition_invariant\<close>, \<open>conserving_transition\<close> and \<open>monotone_transition\<close>.

  \<^descr>[\<open>Ipc_Schema\<close>] the messages of \<open>ipc/schema.rs\<close> with the fields that modelled code reads.

  \<^descr>[\<open>Fairness\<close>, \<open>Lock_Manager\<close>, \<open>Lock_Safety\<close>, \<open>Lock_Properties\<close>] \<open>storage/locks.rs\<close>. The fairness tracker
  counts preemptions per source in a window; the manager reserves SOL, WSOL and tokens per intent
  with a time to live, and holds resource locks with priorities. \<open>lock_step\<close> is one critical section of any
  thread, \<open>manager_step\<close> adds the balance updates from the chain. Shown: capital is conserved by every
  interleaving, reservations never exceed the reported balance, no unchecked sum wraps, a grant
  and a preemption happen exactly under the documented conditions, release undoes acquisition,
  reservations in flight survive expiry, and stale snapshots after a close are ignored.

  \<^descr>[\<open>Position_Authority\<close>, \<open>Position_Refinement\<close>, \<open>Position_Properties\<close>] \<open>position_authority/state.rs\<close>,
  \<open>position_authority/kv_publish.rs\<close> and the handlers of \<open>bin/position_manager.rs\<close>. The bucket is a
  parameter with its documented laws (a put is read back, a delete removes). The abstract view is a
  map from mints to snapshots; each event refines an update of it, so the bucket follows the reducer
  in every interleaving with the publisher, and a restart with a complete wallet scan repairs it. Also:
  statuses agree with balances, fills are booked exactly, SOL is never a position.

  \<^descr>[\<open>Pool_State\<close>, \<open>Pool_Cache\<close>, \<open>Pool_Layout\<close>, \<open>Pool_Properties\<close>] \<open>execution/live_pool_cache.rs\<close>: the rows of
  the seven venues, the merge of a partial account parse, \<open>upsert\<close> in its two phases, vault routing,
  PumpSwap account lists and sell layouts, readiness. The hash of the fingerprint and the text form
  of keys are parameters. \<open>cache_step\<close> interleaves the two phases of upserts with every other update.
  Shown: the newest slot of a row never goes back, a merge never loses reserves or a layout, a
  vault update reaches its own side only, readiness does not depend on the order of delivery.

  \<^descr>[\<open>Account_Layout\<close>, \<open>Account_Properties\<close>] the account parsers (\<open>parse_pool_account\<close> and what it calls in
  \<open>solana/dex/*_layout.rs\<close>), byte by byte. Shown: for which inputs a parser panics, and that a parsed row
  carries no reserves.

  \<^descr>[\<open>Quote_Calculator\<close>, \<open>Quote_Properties\<close>] \<open>execution/quote_calculator.rs\<close>. The wrapping \<open>u128\<close> formulas
  equal exact curves on natural numbers (locale \<open>swap_curve\<close>) on every input where they can; hence quotes are bounded
  by the reserve, monotone, and a round trip gains nothing.

  \<^descr>[\<open>Bundle_Auction\<close>, \<open>Bundle_Properties\<close>] \<open>execution/bundle_auction.rs\<close>. The doubling and bisection loops
  are total functions with a measure; for any monotone gate (locale \<open>threshold_gate\<close>) they find the least
  accepted value, and the tip computation is such a gate.

  \<^descr>[\<open>Ownership\<close>] \<open>market_data/track/explicit_ownership.rs\<close>: owner groups of subscribed keys with a reverse
  index. Shown: the index is exact after every sequence of operations, and each mutation reports
  exactly the keys that the subscription must add and remove.

  \<^descr>[\<open>Eviction_Planner\<close>, \<open>Eviction_Properties\<close>] \<open>market_data/track/eviction_planner.rs\<close>: the validated snapshot
  of the store with the last-touch stamps, the analysis of the protection tiers and the greedy selection
  of victims with its joint packages. The selection loop is a \<open>partial_function\<close> that is shown to
  return; a snapshot is built exactly when stamps and owners agree; plans are exact and open the
  cheapest tier that suffices.

  \<^descr>[\<open>Explicit_Admission\<close>, \<open>Admission_Safety\<close>, \<open>Admission_Properties\<close>, \<open>Eviction_Admission\<close>, \<open>Admission_Claims\<close>]
  \<open>market_data/track/explicit_admission.rs\<close>: admission under a cap on the number of keys, with planned
  deltas that the code checks after each commit, rollbacks, cold recovery, shedding, insertion with
  eviction and lowering of the cap through a validated candidate state. \<open>adm_inv\<close> is the invariant and
  \<open>adm_step\<close> one call. Shown: from a new state no call ever reaches a rollback or reports a broken
  invariant, counts are exact and within the cap, evictions respect the tiers, lowering the
  cap converges whenever the wallet fits, shedding takes the least recently used owners, and the order
  of use survives the renumbering at the end of the 64-bit counter.

  \<^descr>[\<open>In_Flight\<close>] \<open>arbitrage/in_flight.rs\<close> and its two uses in \<open>bin/arb_strategy.rs\<close>: a published route is
  blocked exactly until its outcome or its expiry.

  \<^descr>[\<open>Bin_Walker\<close>, \<open>Bin_Properties\<close>, \<open>Bin_Claims\<close>] \<open>solana/dex/meteora_bin_walker.rs\<close> and
  \<open>meteora_bin_array_layout.rs\<close>: Q64.64 prices by repeated squaring, the walk over the liquidity bins and the parser of bin
  arrays. Shown: prices are the truncated power and no step overflows silently, a quote is the sum of the exact
  fills of the bins it crosses and within their liquidity, and its only errors are overflows.

  \<^descr>[\<open>Rust_Collections\<close>, \<open>Arb_Types\<close>] what the search uses of the standard library (\<open>f64\<close> as a record of operations,
  the stable sort, \<open>BinaryHeap\<close>; locale \<open>multiset_queue\<close> for work lists), and \<open>arbitrage/types.rs\<close>.

  \<^descr>[\<open>Pool_Graph\<close>, \<open>Graph_Properties\<close>, \<open>Graph_Claims\<close>] \<open>arbitrage/pool_graph.rs\<close>. The graph refines a function from pairs of
  mints to short lists of pools; it is symmetric, keeps the most liquid pools and counts itself exactly.

  \<^descr>[\<open>Cycle_Finder\<close>, \<open>Cycle_Properties\<close>, \<open>Cycle_Claims\<close>] \<open>arbitrage/pool_ranker.rs\<close> and \<open>arbitrage/cycle_finder.rs\<close>. The
  quote provider is a parameter that may change from turn to turn. Shown: the loop ends, every returned cycle can
  be executed on the graph, and the breadth-first subgraph of a targeted search is exact and loses no cycle.

  \<^descr>[\<open>Track_Commands\<close>, \<open>Track_Protocol\<close>, \<open>Track_Properties\<close>, \<open>Track_System\<close>, \<open>Track_Invariants\<close>, \<open>Track_Claims\<close>] the bounded
  protocol between the producers of subscription commands and the worker thread: \<open>market_data/track/coalesce.rs\<close> (locale
  \<open>coalescer\<close>, interpreted on both messages), \<open>worker_commands.rs\<close>, \<open>pending.rs\<close> and the queue of \<open>worker.rs\<close>. \<open>track_step\<close> has one rule
  per access to the mutex, the channel or the depth counter, so that any number of producers interleave with the
  worker; its handlers are the parameter \<open>worker_env\<close>. Shown: bursts are merged without changing their effect, commands of
  a demand key are applied in the order of their revisions, nothing is lost without being counted, and only a malformed
  batch panics.

  \<^descr>[\<open>Orca_U256\<close>, \<open>U256_Words\<close>, \<open>U256_Division\<close>] the module \<open>u256\<close> of \<open>solana/dex/orca_tick_walker.rs\<close>: an integer of 256
  bits is a list of four words, least first, and \<open>wval\<close> is its value. Shown: the long division in digits of 64 bits returns the
  exact quotient and remainder or panics, the panic only for a dividend of four words and a divisor of at least three.

  \<^descr>[\<open>Orca_Math\<close>, \<open>Orca_Math_Properties\<close>, \<open>Orca_Walker\<close>, \<open>Orca_Walker_Properties\<close>, \<open>Orca_Ticks\<close>,
  \<open>Orca_Account_Properties\<close>, \<open>Orca_Claims\<close>] the Whirlpool quote: square-root prices, amounts and the swap step, the search for
  the next initialised tick, the walk, and the tick array accounts of \<open>solana/dex/orca_tick_array.rs\<close>. Shown: a step costs and
  yields the exact amounts rounded against the trader and never more than the input, a quote is one such step, the
  search finds the nearest tick of an array, the arrays of a swap hold the tick, accounts are read back; and where
  the walk falls short: pools between two slots, inputs that cross a tick, the first tick of a later array.

  This theory holds the properties that need several components: bytes of an account, the cache and
  the vault updates, and the quote that reads the row.

  \<^bold>\<open>Bounds.\<close> No definition uses fuel: every loop of the modelled code is structural or has a measure, except
  the victim selection, the walk over the bins and the walk over the ticks, whose value \<open>None\<close> would mean that they do not
  return; all are shown to return (the walk over the bins when no bin has the least or the greatest id of \<open>i32\<close>). The run of the
  admission layer is bounded by \<open>2 ^ 64\<close> calls, so that the number of owners fits a stamp.
  The quote of Meteora DAMM multiplies three factors in \<open>u128\<close>; its exactness carries the bound on the
  product as a hypothesis, and \<open>damm_quote_wraps\<close> shows an input beyond it.

  \<^bold>\<open>Not modelled.\<close> The asynchronous processes themselves, RPC and NATS clients, instruction builders, floating-point
  scoring, metrics and log output. In the modelled files: the Meteora bitmap and mint-supply side maps of
  the cache, accessors that only return a field, and reading the configuration into parameters, the liquidity
  estimates, the 256-bit product and the printing in the Whirlpool arithmetic. The derivation of a program address is a parameter.

  \<^bold>\<open>Plan.\<close> Next: the strategy's \<open>arbitrage/pool_quote.rs\<close> on top of the two walkers; the track selection (\<open>arbitrage/track_selection.rs\<close>); the cache synchronisation between processes (\<open>execution/pool_cache_sync.rs\<close>); the intent
  state machine of the execution engine.
\<close>

section \<open>From account bytes to cached reserves\<close>



lemma dex_name_fill [simp]: "dex_name (fill_orca_programs c st) = dex_name st"
  by (cases st) simp_all

lemma no_reserves_fill [simp]: "no_reserves (fill_orca_programs c st) = no_reserves st"
  by (cases st) simp_all






section \<open>From a cold start to a quote\<close>


lemma update_vault_keeps_routes [simp]:
  "lc_vault_to_pool (update_vault_balance now c vault balance slot) = lc_vault_to_pool c"
  by (simp add: update_vault_balance_def split: option.split prod.split)








end
